(* ===== verification/Prelude.thy ===== *)
theory Prelude
  imports Main "HOL-Library.Sublist"
begin

text \<open>
  What the components share: the JavaScript string, array and value operations the
  source uses, the result type of code that may throw, and the generic facts about them.

  A JavaScript string is a sequence of UTF-16 code units; here it is a \<^typ>\<open>string\<close>,
  a list of 8-bit characters read as the code units below 256 (Latin-1). On those,
  \<open>js_lower\<close> and \<open>js_trim\<close> are what \<^verbatim>\<open>toLowerCase()\<close> and \<^verbatim>\<open>trim()\<close> compute.
  A value whose type the source leaves open (\<^verbatim>\<open>unknown\<close>, a stored document) is a
  \<open>js_value\<close>; its numbers are integers, which is all the modelled code tells apart.
\<close>

section \<open>Results of code that may throw\<close>

named_theorems result_simps

text \<open>A thrown value: an \<^verbatim>\<open>ApiError\<close> with its HTTP status and message, a \<^verbatim>\<open>TypeError\<close> of the
  runtime, the two error classes of \<^verbatim>\<open>MailboxQuotaUtils.ts\<close> (the second with its
  \<^verbatim>\<open>quotaBytes\<close> and \<^verbatim>\<open>usedBytes\<close>), or a plain \<^verbatim>\<open>Error\<close> with its message.\<close>

datatype js_error =
    ApiError nat string
  | TypeError
  | MailboxNotFoundError
  | MailboxQuotaExceededError int int
  | OtherError string

type_synonym 'a result = "js_error + 'a"

fun rbind :: "'a result \<Rightarrow> ('a \<Rightarrow> 'b result) \<Rightarrow> 'b result" where
  "rbind (Inl e) f = Inl e"
| "rbind (Inr x) f = f x"

lemma rbind_Inr_iff [result_simps]: "rbind m f = Inr y \<longleftrightarrow> (\<exists>x. m = Inr x \<and> f x = Inr y)"
  by (cases m) auto

lemma rbind_Inl_iff [result_simps]:
  "rbind m f = Inl e \<longleftrightarrow> m = Inl e \<or> (\<exists>x. m = Inr x \<and> f x = Inl e)"
  by (cases m) auto

lemma rbind_assoc [result_simps]: "rbind (rbind m f) g = rbind m (\<lambda>x. rbind (f x) g)"
  by (cases m) auto

text \<open>\<^verbatim>\<open>Array.prototype.some\<close> with a callback that may throw: left to right, stopping at the
  first hit or the first exception.\<close>

fun some_r :: "('a \<Rightarrow> bool result) \<Rightarrow> 'a list \<Rightarrow> bool result" where
  "some_r f [] = Inr False"
| "some_r f (x # xs) = rbind (f x) (\<lambda>b. if b then Inr True else some_r f xs)"

lemma some_r_Inr [simp]: "some_r (\<lambda>x. Inr (p x)) xs = Inr (\<exists>x\<in>set xs. p x)"
  by (induction xs) auto

lemma some_r_cong_Inr: "\<lbrakk>\<And>x. x \<in> set xs \<Longrightarrow> f x = Inr (p x)\<rbrakk> \<Longrightarrow> some_r f xs = Inr (\<exists>x\<in>set xs. p x)"
  by (induction xs) auto

section \<open>Strings\<close>

definition js_lower_char :: "char \<Rightarrow> char" where
  "js_lower_char c =
     (let n = (of_char c :: nat)
      in if (65 \<le> n \<and> n \<le> 90) \<or> (192 \<le> n \<and> n \<le> 222 \<and> n \<noteq> 215) then char_of (n + 32) else c)"

definition js_lower :: "string \<Rightarrow> string" where
  "js_lower s = map js_lower_char s"

definition js_is_ws :: "char \<Rightarrow> bool" where
  "js_is_ws c \<longleftrightarrow> (of_char c :: nat) \<in> {9, 10, 11, 12, 13, 32, 160}"

definition js_trim :: "string \<Rightarrow> string" where
  "js_trim s = rev (dropWhile js_is_ws (rev (dropWhile js_is_ws s)))"

text \<open>\<^verbatim>\<open>h.includes(n)\<close>, \<^verbatim>\<open>s.split(c)\<close> for a one-character separator, \<^verbatim>\<open>s.indexOf(c)\<close>
  and \<^verbatim>\<open>s.lastIndexOf(c)\<close> as options.\<close>

fun js_includes :: "string \<Rightarrow> string \<Rightarrow> bool" where
  "js_includes [] n = (n = [])"
| "js_includes (c # h) n = (prefix n (c # h) \<or> js_includes h n)"

fun js_split :: "char \<Rightarrow> string \<Rightarrow> string list" where
  "js_split c [] = [[]]"
| "js_split c (x # xs) =
     (if x = c then [] # js_split c xs
      else (case js_split c xs of [] \<Rightarrow> [[x]] | p # ps \<Rightarrow> (x # p) # ps))"

fun js_index_of :: "char \<Rightarrow> string \<Rightarrow> nat option" where
  "js_index_of c [] = None"
| "js_index_of c (x # xs) = (if x = c then Some 0 else map_option Suc (js_index_of c xs))"

definition js_last_index_of :: "char \<Rightarrow> string \<Rightarrow> nat option" where
  "js_last_index_of c s = map_option (\<lambda>i. length s - 1 - i) (js_index_of c (rev s))"

text \<open>\<^verbatim>\<open>parts.join(sep)\<close>.\<close>

fun js_join :: "string \<Rightarrow> string list \<Rightarrow> string" where
  "js_join sep [] = []"
| "js_join sep [x] = x"
| "js_join sep (x # y # xs) = x @ sep @ js_join sep (y # xs)"

text \<open>\<^verbatim>\<open>s.replace(/\s+/g, "")\<close> and \<^verbatim>\<open>s.replace(/\.$/, "")\<close>.\<close>

definition drop_ws :: "string \<Rightarrow> string" where
  "drop_ws s = filter (\<lambda>c. \<not> js_is_ws c) s"

definition drop_final_dot :: "string \<Rightarrow> string" where
  "drop_final_dot s = (if s \<noteq> [] \<and> last s = CHR ''.'' then butlast s else s)"

lemma js_includes_sublist: "js_includes h n \<longleftrightarrow> sublist n h"
  by (induction h) (auto simp: sublist_Cons_right)

lemma of_char_less_256: "of_char c < (256 :: nat)"
  by (metis mod_less_divisor of_char_mod_256 zero_less_numeral)

lemma js_lower_char_idem [simp]: "js_lower_char (js_lower_char c) = js_lower_char c"
proof -
  have "of_char c < (256 :: nat)"
    by (rule of_char_less_256)
  then show ?thesis
    by (auto simp: js_lower_char_def Let_def)
qed

lemma js_lower_idem [simp]: "js_lower (js_lower s) = js_lower s"
  by (simp add: js_lower_def)

lemma js_lower_length [simp]: "length (js_lower s) = length s"
  by (simp add: js_lower_def)

lemma js_lower_append [simp]: "js_lower (s @ t) = js_lower s @ js_lower t"
  by (simp add: js_lower_def)

lemma js_lower_Nil [simp]: "js_lower [] = []" and js_lower_eq_Nil [simp]: "js_lower s = [] \<longleftrightarrow> s = []"
  by (simp_all add: js_lower_def)

lemma js_is_ws_lower [simp]: "js_is_ws (js_lower_char c) = js_is_ws c"
proof -
  have "of_char c < (256 :: nat)"
    by (rule of_char_less_256)
  then show ?thesis
    by (auto simp: js_lower_char_def js_is_ws_def Let_def)
qed

lemma length_dropWhile_less [termination_simp]:
  "length (dropWhile p xs) < Suc (Suc (length xs))" "length (dropWhile p xs) < Suc (length xs)"
  using length_dropWhile_le [of p xs] by simp_all

lemma dropWhile_idem [simp]: "dropWhile p (dropWhile p xs) = dropWhile p xs"
  by (induction xs) auto

lemma dropWhile_eq_self: "xs = [] \<or> \<not> p (hd xs) \<Longrightarrow> dropWhile p xs = xs"
  by (cases xs) auto

lemma js_trim_hd: "js_trim s \<noteq> [] \<Longrightarrow> \<not> js_is_ws (hd (js_trim s))"
proof -
  let ?d = "dropWhile js_is_ws s"
  assume ne: "js_trim s \<noteq> []"
  obtain t where t: "?d = js_trim s @ t"
    by (metis js_trim_def rev_append rev_rev_ident takeWhile_dropWhile_id)
  with ne have "hd ?d = hd (js_trim s)" and "?d \<noteq> []"
    by auto
  then show ?thesis
    using hd_dropWhile [of js_is_ws s] by metis
qed

lemma js_trim_last: "js_trim s \<noteq> [] \<Longrightarrow> \<not> js_is_ws (last (js_trim s))"
  using hd_dropWhile [of js_is_ws "rev (dropWhile js_is_ws s)"]
  by (auto simp: js_trim_def last_rev)

lemma js_trim_fixed:
  assumes "s \<noteq> [] \<Longrightarrow> \<not> js_is_ws (hd s)" and "s \<noteq> [] \<Longrightarrow> \<not> js_is_ws (last s)"
  shows "js_trim s = s"
proof (cases "s = []")
  case True
  then show ?thesis by (simp add: js_trim_def)
next
  case False
  then have "dropWhile js_is_ws s = s"
    using assms(1) by (simp add: dropWhile_eq_self)
  moreover have "dropWhile js_is_ws (rev s) = rev s"
    using False assms(2) by (simp add: dropWhile_eq_self hd_rev)
  ultimately show ?thesis
    by (simp add: js_trim_def)
qed

lemma js_trim_idem [simp]: "js_trim (js_trim s) = js_trim s"
  by (rule js_trim_fixed) (auto dest: js_trim_hd js_trim_last)

lemma dropWhile_ws_lower: "dropWhile js_is_ws (js_lower s) = js_lower (dropWhile js_is_ws s)"
  by (induction s) (auto simp: js_lower_def)

lemma js_lower_rev: "js_lower (rev s) = rev (js_lower s)"
  by (simp add: js_lower_def rev_map)

lemma js_trim_lower: "js_trim (js_lower s) = js_lower (js_trim s)"
  by (simp add: js_trim_def dropWhile_ws_lower flip: js_lower_rev)

lemma js_split_ne [simp]: "js_split c s \<noteq> []"
  by (induction s) (auto split: list.splits)

lemma js_split_no_sep: "p \<in> set (js_split c s) \<Longrightarrow> c \<notin> set p"
  by (induction s arbitrary: p) (auto split: if_splits list.splits)

lemma js_split_set: "c \<in> set s \<Longrightarrow> c = sep \<or> (\<exists>p\<in>set (js_split sep s). c \<in> set p)"
proof (induction s)
  case (Cons x s)
  then show ?case by (cases "js_split sep s") auto
qed simp

lemma js_split_absent: "c \<notin> set s \<Longrightarrow> js_split c s = [s]"
  by (induction s) auto

lemma js_split_sep: "js_split c (s @ c # t) = js_split c s @ js_split c t"
  by (induction s) (auto split: list.splits)

lemma length_js_split: "length (js_split c s) = Suc (length (filter (\<lambda>x. x = c) s))"
proof (induction s)
  case Nil
  then show ?case by simp
next
  case (Cons x s)
  then show ?case by (cases "js_split c s") auto
qed

lemma js_join_Cons_char: "js_join sep ((x # p) # ps) = x # js_join sep (p # ps)"
  by (cases ps) simp_all

lemma js_join_split [simp]: "js_join [c] (js_split c s) = s"
proof (induction s)
  case (Cons x s)
  then show ?case
    by (cases "js_split c s") (auto simp: js_join_Cons_char)
qed simp

lemma js_index_of_None [simp]: "js_index_of c s = None \<longleftrightarrow> c \<notin> set s"
  by (induction s) auto

lemma js_index_of_absent [simp]: "c \<notin> set s \<Longrightarrow> js_index_of c s = None"
  by simp

lemma js_index_of_Some:
  "js_index_of c s = Some i \<longleftrightarrow> i < length s \<and> s ! i = c \<and> c \<notin> set (take i s)"
proof (induction s arbitrary: i)
  case Nil
  then show ?case by simp
next
  case (Cons x s)
  then show ?case by (cases i) auto
qed

lemma js_index_of_append: "c \<notin> set s \<Longrightarrow> js_index_of c (s @ c # t) = Some (length s)"
  by (simp add: js_index_of_Some)

section \<open>Arrays and sets\<close>

text \<open>A JavaScript \<^verbatim>\<open>Set\<close> keeps the order of first insertion: \<open>set_add\<close> is \<^verbatim>\<open>add()\<close>,
  \<open>uniq\<close> is \<^verbatim>\<open>[...new Set(xs)]\<close>.\<close>

definition set_add :: "'a list \<Rightarrow> 'a \<Rightarrow> 'a list" where
  "set_add xs x = (if x \<in> set xs then xs else xs @ [x])"

definition uniq :: "'a list \<Rightarrow> 'a list" where
  "uniq xs = foldl set_add [] xs"

lemma set_set_add [simp]: "set (set_add xs x) = insert x (set xs)"
  by (auto simp: set_add_def)

lemma distinct_set_add [simp]: "distinct (set_add xs x) = distinct xs"
  by (auto simp: set_add_def)

lemma set_foldl_set_add [simp]: "set (foldl set_add acc xs) = set acc \<union> set xs"
  by (induction xs arbitrary: acc) auto

lemma distinct_foldl_set_add [simp]: "distinct (foldl set_add acc xs) = distinct acc"
  by (induction xs arbitrary: acc) auto

lemma set_uniq [simp]: "set (uniq xs) = set xs" and distinct_uniq [simp]: "distinct (uniq xs)"
  by (simp_all add: uniq_def)

lemma foldl_set_add_distinct:
  "distinct (acc @ xs) \<Longrightarrow> foldl set_add acc xs = acc @ xs"
proof (induction xs arbitrary: acc)
  case Nil
  then show ?case by simp
next
  case (Cons x xs)
  then have "x \<notin> set acc" and "distinct ((acc @ [x]) @ xs)"
    by auto
  with Cons.IH [of "acc @ [x]"] show ?case
    by (simp add: set_add_def)
qed

lemma uniq_fixed: "distinct xs \<Longrightarrow> uniq xs = xs"
  by (simp add: uniq_def foldl_set_add_distinct)

lemma length_foldl_set_add: "length (foldl set_add acc xs) \<le> length acc + length xs"
proof (induction xs arbitrary: acc)
  case Nil
  then show ?case by simp
next
  case (Cons x xs)
  have "length (set_add acc x) \<le> Suc (length acc)"
    by (simp add: set_add_def)
  with Cons [of "set_add acc x"] show ?case
    by simp
qed

lemma length_uniq_le: "length (uniq xs) \<le> length xs"
  using length_foldl_set_add [of "[]" xs] by (simp add: uniq_def)

lemma set_map_filter_iff: "y \<in> set (List.map_filter f xs) \<longleftrightarrow> (\<exists>x\<in>set xs. f x = Some y)"
  by (induction xs) (auto split: option.splits)

lemma sorted_hd_last:
  assumes "sorted (map f xs)" "x \<in> set xs"
  shows "f (hd xs) \<le> f x" and "f x \<le> f (last xs)"
proof -
  show "f (hd xs) \<le> f x"
    using assms by (cases xs) auto
  show "f x \<le> f (last xs)"
    using assms by (induction xs) auto
qed

text \<open>\<^verbatim>\<open>list ?? []\<close>.\<close>

definition nullish :: "'a list option \<Rightarrow> 'a list" where
  "nullish l = (case l of None \<Rightarrow> [] | Some xs \<Rightarrow> xs)"

lemma nullish_simps [simp]: "nullish None = []" "nullish (Some xs) = xs"
  by (simp_all add: nullish_def)

section \<open>Dates\<close>

text \<open>The time value of a \<^verbatim>\<open>Date\<close>, in milliseconds; \<^const>\<open>None\<close> for an invalid date (\<^verbatim>\<open>NaN\<close>), with
  which every comparison is false.\<close>

type_synonym js_time = "int option"

definition time_less :: "js_time \<Rightarrow> js_time \<Rightarrow> bool" where
  "time_less a b \<longleftrightarrow> (case (a, b) of (Some x, Some y) \<Rightarrow> x < y | _ \<Rightarrow> False)"

lemma time_less_simps [simp]:
  "time_less (Some x) (Some y) = (x < y)" "\<not> time_less None b" "\<not> time_less a None"
  by (simp_all add: time_less_def split: option.split)

section \<open>Values of unknown type\<close>

datatype js_value =
    JUndefined
  | JNull
  | JBool bool
  | JNum int
  | JStr string
  | JArr "js_value list"
  | JObj "(string \<times> js_value) list"

fun js_truthy :: "js_value \<Rightarrow> bool" where
  "js_truthy JUndefined = False"
| "js_truthy JNull = False"
| "js_truthy (JBool b) = b"
| "js_truthy (JNum n) = (n \<noteq> 0)"
| "js_truthy (JStr s) = (s \<noteq> [])"
| "js_truthy (JArr xs) = True"
| "js_truthy (JObj fs) = True"

text \<open>\<^verbatim>\<open>v.name\<close> for a name that is no property of a primitive's or an array's prototype:
  reading it off \<^verbatim>\<open>undefined\<close> or \<^verbatim>\<open>null\<close> throws.\<close>

fun js_get :: "js_value \<Rightarrow> string \<Rightarrow> js_value result" where
  "js_get JUndefined k = Inl TypeError"
| "js_get JNull k = Inl TypeError"
| "js_get (JObj fs) k = Inr (case map_of fs k of None \<Rightarrow> JUndefined | Some v \<Rightarrow> v)"
| "js_get v k = Inr JUndefined"

end
