(* ===== verification/Mime_Headers.thy ===== *)
theory Mime_Headers
  imports Prelude
begin

text \<open>
  The header block of a raw RFC 5322 message (\<^verbatim>\<open>src/src/util/MimeHeaderUtils.ts\<close>). A
  \<^verbatim>\<open>Buffer\<close> is the \<^typ>\<open>string\<close> of its bytes, which the source itself reads and writes with
  the \<^verbatim>\<open>binary\<close> encoding, one character per byte. The address parser of \<^verbatim>\<open>nodemailer\<close> is an
  argument of the definitions that call it.

  The lemmas show that every line break ends a line for the tolerant lexer, that rebuilding
  a message splits back into exactly the lines that were written and the untouched body
  (so a header value cannot start a header of its own), and what a message that passes the
  originator check looks like.
\<close>

section \<open>Lines\<close>

abbreviation CR :: char where "CR \<equiv> CHR 0x0D"
abbreviation LF :: char where "LF \<equiv> CHR 0x0A"
abbreviation TAB :: char where "TAB \<equiv> CHR 0x09"
abbreviation CRLF :: string where "CRLF \<equiv> [CR, LF]"

definition is_wsp :: "char \<Rightarrow> bool" where
  "is_wsp c \<longleftrightarrow> c = CHR '' '' \<or> c = TAB"

definition starts_wsp :: "string \<Rightarrow> bool" where
  "starts_wsp l \<longleftrightarrow> (case l of [] \<Rightarrow> False | c # _ \<Rightarrow> is_wsp c)"

text \<open>The index loop of \<^verbatim>\<open>splitRawIntoHeaderAndBody()\<close>: \<open>rest\<close> is the buffer from index \<open>i\<close> on.\<close>

function split_loop :: "string \<Rightarrow> nat \<Rightarrow> nat \<Rightarrow> nat \<Rightarrow> string \<Rightarrow> string \<times> string" where
  "split_loop raw i lineStart previousBreak [] = (raw, [])"
| "split_loop raw i lineStart previousBreak (b # rest) =
     (if b \<noteq> LF \<and> b \<noteq> CR then split_loop raw (Suc i) lineStart previousBreak rest
      else
        let len = (if b = CR \<and> rest \<noteq> [] \<and> hd rest = LF then 2 else 1)
        in if i = lineStart \<and> i > 0 then (take previousBreak raw, drop (i + len) raw)
           else split_loop raw (i + len) (i + len) i (drop (len - 1) rest))"
  by pat_completeness auto
termination
  by (relation "measure (\<lambda>(raw, i, ls, pb, rest). length rest)") auto

definition splitRawIntoHeaderAndBody :: "string \<Rightarrow> string \<times> string" where
  "splitRawIntoHeaderAndBody raw = split_loop raw 0 0 0 raw"

text \<open>\<^verbatim>\<open>text.split(/\r\n|\n/)\<close>, and with \<open>bareCr\<close> \<^verbatim>\<open>text.split(/\r\n|\n|\r/)\<close>.\<close>

fun split_breaks :: "bool \<Rightarrow> string \<Rightarrow> string list" where
  "split_breaks bareCr [] = [[]]"
| "split_breaks bareCr [c] = (if c = LF \<or> (bareCr \<and> c = CR) then [[], []] else [[c]])"
| "split_breaks bareCr (c # d # s) =
     (if c = CR \<and> d = LF then [] # split_breaks bareCr s
      else if c = LF \<or> (bareCr \<and> c = CR) then [] # split_breaks bareCr (d # s)
      else (case split_breaks bareCr (d # s) of [] \<Rightarrow> [[c]] | p # ps \<Rightarrow> (c # p) # ps))"

text \<open>One turn of the loop of \<^verbatim>\<open>splitLogicalHeaderLines()\<close>, and of \<^verbatim>\<open>lexLogicalHeaderLines()\<close>,
  which joins a continuation with a space instead.\<close>

definition add_physical_line :: "(string \<Rightarrow> string) \<Rightarrow> string list \<Rightarrow> string \<Rightarrow> string list" where
  "add_physical_line glue logical line =
     (if starts_wsp line \<and> logical \<noteq> [] then butlast logical @ [last logical @ glue line]
      else if line \<noteq> [] then logical @ [line]
      else logical)"

definition splitLogicalHeaderLines :: "string \<Rightarrow> bool \<Rightarrow> string list" where
  "splitLogicalHeaderLines headerText bareCrBreaks =
     foldl (add_physical_line (\<lambda>l. CRLF @ l)) [] (split_breaks bareCrBreaks headerText)"

definition lexLogicalHeaderLines :: "string \<Rightarrow> string list" where
  "lexLogicalHeaderLines raw =
     foldl (add_physical_line (\<lambda>l. '' '' @ js_trim l)) []
       (split_breaks True (fst (splitRawIntoHeaderAndBody raw)))"

section \<open>Reading a header\<close>

text \<open>\<^verbatim>\<open>line.match(/^([^:\s]*)[ \t]*:/)\<close>: the name and what follows the colon.\<close>

definition match_header :: "string \<Rightarrow> (string \<times> string) option" where
  "match_header line =
     (let name = takeWhile (\<lambda>c. c \<noteq> CHR '':'' \<and> \<not> js_is_ws c) line;
          rest = dropWhile is_wsp (drop (length name) line)
      in case rest of c # value \<Rightarrow> (if c = CHR '':'' then Some (name, value) else None) | [] \<Rightarrow> None)"

text \<open>\<^verbatim>\<open>value.split(/\r\n[ \t]*/).join(" ")\<close>.\<close>

fun unfold_value :: "string \<Rightarrow> string" where
  "unfold_value (c # d # s) =
     (if c = CR \<and> d = LF then CHR '' '' # unfold_value (dropWhile is_wsp s)
      else c # unfold_value (d # s))"
| "unfold_value s = s"

definition valueOfHeaderLine :: "string \<Rightarrow> string \<Rightarrow> string option" where
  "valueOfHeaderLine line lowerName =
     (case match_header line of
        None \<Rightarrow> None
      | Some (name, value) \<Rightarrow> if js_lower name \<noteq> lowerName then None else Some (js_trim (unfold_value value)))"

definition extractHeaders :: "string \<Rightarrow> string \<Rightarrow> string list" where
  "extractHeaders raw name =
     List.map_filter (\<lambda>line. valueOfHeaderLine line (js_lower name))
       (splitLogicalHeaderLines (fst (splitRawIntoHeaderAndBody raw)) False)"

fun first_header :: "string \<Rightarrow> string list \<Rightarrow> string option" where
  "first_header lowerName [] = None"
| "first_header lowerName (line # lines) =
     (case valueOfHeaderLine line lowerName of Some v \<Rightarrow> Some v | None \<Rightarrow> first_header lowerName lines)"

definition extractHeader :: "string \<Rightarrow> string \<Rightarrow> string option" where
  "extractHeader raw name =
     first_header (js_lower name) (splitLogicalHeaderLines (fst (splitRawIntoHeaderAndBody raw)) False)"

definition headerNameOf :: "string \<Rightarrow> string" where
  "headerNameOf line = (case match_header line of None \<Rightarrow> [] | Some (name, _) \<Rightarrow> js_lower name)"

record OriginatorHeaders =
  oh_from :: "string list"
  oh_sender :: "string list"

definition add_originator :: "OriginatorHeaders \<Rightarrow> string \<Rightarrow> OriginatorHeaders" where
  "add_originator vs line =
     (case match_header line of
        None \<Rightarrow> vs
      | Some (name, value) \<Rightarrow>
          if js_lower name = ''from'' then vs\<lparr>oh_from := oh_from vs @ [js_trim value]\<rparr>
          else if js_lower name = ''sender'' then vs\<lparr>oh_sender := oh_sender vs @ [js_trim value]\<rparr>
          else vs)"

definition extractOriginatorHeaders :: "string \<Rightarrow> OriginatorHeaders" where
  "extractOriginatorHeaders raw =
     foldl add_originator \<lparr>oh_from = [], oh_sender = []\<rparr> (lexLogicalHeaderLines raw)"

section \<open>Quoted strings and comments\<close>

fun strip_loop :: "bool \<Rightarrow> nat \<Rightarrow> string \<Rightarrow> string" where
  "strip_loop inQuote depth [] = []"
| "strip_loop inQuote depth (ch # s) =
     (if ch = CHR 0x5C \<and> (inQuote \<or> depth > 0) then
        (case s of [] \<Rightarrow> [] | _ # s' \<Rightarrow> strip_loop inQuote depth s')
      else if inQuote then
        (if ch = CHR 0x22 then CHR '' '' # strip_loop False depth s else strip_loop True depth s)
      else if ch = CHR ''('' then strip_loop False (Suc depth) s
      else if depth > 0 then
        (if ch = CHR '')'' then
           (if depth = 1 then CHR '' '' # strip_loop False 0 s else strip_loop False (depth - 1) s)
         else strip_loop False depth s)
      else if ch = CHR 0x22 then strip_loop True depth s
      else ch # strip_loop False depth s)"

definition stripQuotedStringsAndComments :: "string \<Rightarrow> string" where
  "stripQuotedStringsAndComments value = strip_loop False 0 value"

fun quoted_loop :: "string \<Rightarrow> bool \<Rightarrow> nat \<Rightarrow> string \<Rightarrow> string list" where
  "quoted_loop current inQuote depth [] = (if inQuote \<or> depth > 0 then [current] else [])"
| "quoted_loop current inQuote depth (ch # s) =
     (if ch = CHR 0x5C \<and> (inQuote \<or> depth > 0) then
        (case s of [] \<Rightarrow> [current] | e # s' \<Rightarrow> quoted_loop (current @ [e]) inQuote depth s')
      else if inQuote then
        (if ch = CHR 0x22 then current # quoted_loop [] False depth s
         else quoted_loop (current @ [ch]) True depth s)
      else if ch = CHR ''('' then
        quoted_loop (if Suc depth > 1 then current @ [ch] else current) False (Suc depth) s
      else if depth > 0 then
        (if ch = CHR '')'' \<and> depth = 1 then current # quoted_loop [] False 0 s
         else if ch = CHR '')'' then quoted_loop (current @ [ch]) False (depth - 1) s
         else quoted_loop (current @ [ch]) False depth s)
      else if ch = CHR 0x22 then quoted_loop current True depth s
      else quoted_loop current False depth s)"

definition quotedStringsAndComments :: "string \<Rightarrow> string list" where
  "quotedStringsAndComments value = quoted_loop [] False 0 value"

section \<open>Plain addresses\<close>

definition hasControlCharacter :: "string \<Rightarrow> bool \<Rightarrow> bool" where
  "hasControlCharacter value tabCounts \<longleftrightarrow>
     (\<exists>c\<in>set value. let code = (of_char c :: nat)
        in (code < 0x20 \<and> (tabCounts \<or> code \<noteq> 9)) \<or> code = 0x7F)"

text \<open>\<^verbatim>\<open>DECEPTIVE_ADDRESS_CHARACTER\<close> below 256: the C0 and C1 controls, DEL and the soft hyphen.\<close>

definition deceptive_char :: "char \<Rightarrow> bool" where
  "deceptive_char c \<longleftrightarrow> (let code = (of_char c :: nat) in code < 32 \<or> (127 \<le> code \<and> code \<le> 159) \<or> code = 173)"

definition plain_address_char :: "char \<Rightarrow> bool" where
  "plain_address_char c \<longleftrightarrow> \<not> js_is_ws c \<and> c \<notin> set ''()<>@,;:[]'' \<and> c \<noteq> CHR 0x5C \<and> c \<noteq> CHR 0x22"

definition PLAIN_ADDRESS_PATTERN :: "string \<Rightarrow> bool" where
  "PLAIN_ADDRESS_PATTERN s \<longleftrightarrow>
     (case js_split (CHR ''@'') s of
        [l, d] \<Rightarrow> l \<noteq> [] \<and> d \<noteq> [] \<and> list_all plain_address_char l \<and> list_all plain_address_char d
      | _ \<Rightarrow> False)"

definition isPlainAddress :: "string \<Rightarrow> bool" where
  "isPlainAddress address \<longleftrightarrow>
     length address \<le> 320 \<and> \<not> hasControlCharacter address True \<and>
     \<not> (\<exists>c\<in>set address. deceptive_char c) \<and> PLAIN_ADDRESS_PATTERN address"

section \<open>The originator check\<close>

text \<open>An entry of \<^verbatim>\<open>addressparser()\<close>'s result: a mailbox with its name and address, or a group.\<close>

datatype parsed_entry = Mailbox_entry (entry_name: string) (entry_address: string) | Group_entry string "parsed_entry list"

text \<open>\<^verbatim>\<open>hasAddressLikeDisplayName()\<close>, with \<^verbatim>\<open>addressparser\<close> and the decoding \<^verbatim>\<open>showsAtSign()\<close> as
  arguments.\<close>

fun entry_shows :: "(string \<Rightarrow> bool) \<Rightarrow> parsed_entry \<Rightarrow> bool" where
  "entry_shows shows_at (Mailbox_entry name address) = shows_at name"
| "entry_shows shows_at (Group_entry name members) =
     (shows_at name \<or> list_ex (entry_shows shows_at) members)"

definition hasAddressLikeDisplayName ::
    "(string \<Rightarrow> parsed_entry list) \<Rightarrow> (string \<Rightarrow> bool) \<Rightarrow> string \<Rightarrow> bool" where
  "hasAddressLikeDisplayName addressparser showsAtSign value \<longleftrightarrow>
     list_ex showsAtSign (quotedStringsAndComments value) \<or>
     list_ex (entry_shows showsAtSign) (addressparser value)"

text \<open>\<^verbatim>\<open>.split(/[\s<>,;:]+/).filter((token) => token.includes("@"))\<close>.\<close>

definition is_token_sep :: "char \<Rightarrow> bool" where
  "is_token_sep c \<longleftrightarrow> js_is_ws c \<or> c \<in> set ''<>,;:''"

fun split_tokens :: "string \<Rightarrow> string list" where
  "split_tokens [] = [[]]"
| "split_tokens (c # s) =
     (if is_token_sep c then [] # split_tokens s
      else (case split_tokens s of [] \<Rightarrow> [[c]] | p # ps \<Rightarrow> (c # p) # ps))"

definition address_tokens :: "string \<Rightarrow> string list" where
  "address_tokens value =
     filter (\<lambda>t. CHR ''@'' \<in> set t) (split_tokens (stripQuotedStringsAndComments value))"

definition check_originator_value ::
    "(string \<Rightarrow> parsed_entry list) \<Rightarrow> (string \<Rightarrow> string list) \<Rightarrow> (string \<Rightarrow> bool) \<Rightarrow> (string \<Rightarrow> bool) \<Rightarrow>
     bool \<Rightarrow> string \<Rightarrow> string \<Rightarrow> string option" where
  "check_originator_value addressparser parse_flat showsAtSign isAllowed rejectNames name value =
     (let parsed = parse_flat value
      in if parsed = [] then Some (''The '' @ name @ '' header contains no address.'')
         else if list_ex (\<lambda>a. a = [] \<or> \<not> isAllowed a) parsed \<or>
                 list_ex (\<lambda>t. \<not> isAllowed t) (address_tokens value)
         then Some (''The '' @ name @ '' header names an address that is not one of the sending mailbox's own addresses.'')
         else if rejectNames \<and> hasAddressLikeDisplayName addressparser showsAtSign value
         then Some (''The '' @ name @ '' header's display name or comment contains an address.'')
         else None)"

fun first_refusal :: "('a \<Rightarrow> string option) \<Rightarrow> 'a list \<Rightarrow> string option" where
  "first_refusal f [] = None"
| "first_refusal f (x # xs) = (case f x of Some r \<Rightarrow> Some r | None \<Rightarrow> first_refusal f xs)"

definition checkOriginatorHeaders ::
    "(string \<Rightarrow> parsed_entry list) \<Rightarrow> (string \<Rightarrow> string list) \<Rightarrow> (string \<Rightarrow> bool) \<Rightarrow>
     string \<Rightarrow> (string \<Rightarrow> bool) \<Rightarrow> bool \<Rightarrow> string option" where
  "checkOriginatorHeaders addressparser parse_flat showsAtSign raw isAllowed rejectNames =
     (let values = extractOriginatorHeaders raw
      in if oh_from values = [] then Some ''The message has no From header.''
         else if length (oh_from values) > 1 then Some ''The message has more than one From header.''
         else if length (oh_sender values) > 1 then Some ''The message has more than one Sender header.''
         else first_refusal
                (\<lambda>(name, value). check_originator_value addressparser parse_flat showsAtSign isAllowed rejectNames name value)
                (map (\<lambda>v. (''From'', v)) (oh_from values) @ map (\<lambda>v. (''Sender'', v)) (oh_sender values)))"

definition singleFromAddress :: "(string \<Rightarrow> string list) \<Rightarrow> string \<Rightarrow> string option" where
  "singleFromAddress parse_flat raw =
     (case oh_from (extractOriginatorHeaders raw) of
        [value] \<Rightarrow>
          (case parse_flat value of
             [a] \<Rightarrow> if CHR ''@'' \<in> set a then Some (js_lower (js_trim a)) else None
           | _ \<Rightarrow> None)
      | _ \<Rightarrow> None)"

section \<open>Writing headers\<close>

definition singleLineHeaderValue :: "string \<Rightarrow> string" where
  "singleLineHeaderValue value =
     filter (\<lambda>c. let code = (of_char c :: nat) in code = 9 \<or> (code \<ge> 0x20 \<and> code \<noteq> 0x7F)) value"

text \<open>\<^verbatim>\<open>Buffer.from(s, "utf8").toString("base64")\<close> of a Latin-1 string.\<close>

definition utf8_char :: "char \<Rightarrow> nat list" where
  "utf8_char c = (let n = (of_char c :: nat) in if n < 128 then [n] else [192 + n div 64, 128 + n mod 64])"

definition b64_char :: "nat \<Rightarrow> char" where
  "b64_char n = ''ABCDEFGHIJKLMNOPQRSTUVWXYZabcdefghijklmnopqrstuvwxyz0123456789+/'' ! (n mod 64)"

fun base64 :: "nat list \<Rightarrow> string" where
  "base64 [] = []"
| "base64 [a] = [b64_char (a div 4), b64_char ((a mod 4) * 16), CHR ''='', CHR ''='']"
| "base64 [a, b] =
     [b64_char (a div 4), b64_char ((a mod 4) * 16 + b div 16), b64_char ((b mod 16) * 4), CHR ''='']"
| "base64 (a # b # c # s) =
     b64_char (a div 4) # b64_char ((a mod 4) * 16 + b div 16) # b64_char ((b mod 16) * 4 + c div 64) #
     b64_char (c mod 64) # base64 s"

definition utf8_base64 :: "string \<Rightarrow> string" where
  "utf8_base64 s = base64 (concat (map utf8_char s))"

text \<open>\<^verbatim>\<open>line.split(/(?=[ \t][^ \t])/)\<close>: the text cut before every blank followed by a non-blank,
  the very start excepted.\<close>

fun fold_words :: "string \<Rightarrow> string list" where
  "fold_words [] = [[]]"
| "fold_words [c] = [[c]]"
| "fold_words (c # d # s) =
     (let cut = (is_wsp d \<and> s \<noteq> [] \<and> \<not> is_wsp (hd s))
      in case fold_words (d # s) of
           [] \<Rightarrow> [[c]]
         | w # ws \<Rightarrow> if cut then [c] # w # ws else (c # w) # ws)"

fun fold_lines :: "string \<Rightarrow> string list \<Rightarrow> string list" where
  "fold_lines current [] = [current]"
| "fold_lines current (word # ws) =
     (if current \<noteq> [] \<and> length current + length word > 78 then current # fold_lines word ws
      else fold_lines (current @ word) ws)"

definition foldHeaderLine :: "string \<Rightarrow> string" where
  "foldHeaderLine line =
     (if length line \<le> 998 then line else js_join CRLF (fold_lines [] (fold_words line)))"

definition is_field_name_char :: "char \<Rightarrow> bool" where
  "is_field_name_char c \<longleftrightarrow> (let n = (of_char c :: nat) in (0x21 \<le> n \<and> n \<le> 0x39) \<or> (0x3B \<le> n \<and> n \<le> 0x7E))"

definition is_header_text_char :: "char \<Rightarrow> bool" where
  "is_header_text_char c \<longleftrightarrow> (let n = (of_char c :: nat) in (0x20 \<le> n \<and> n \<le> 0x7E) \<or> n = 9)"

text \<open>Every line handed to \<^verbatim>\<open>safeNewHeaderLine()\<close> is \<^verbatim>\<open>Name: value\<close> and so has a colon; without one
  \<^verbatim>\<open>indexOf()\<close> is -1, the name is all but the last character and the value the whole line.\<close>

definition header_parts :: "string \<Rightarrow> string \<times> string" where
  "header_parts line =
     (case js_index_of (CHR '':'') line of
        Some colon \<Rightarrow> (take colon line, drop (Suc colon) line)
      | None \<Rightarrow> (butlast line, line))"

definition safe_header_value :: "string \<Rightarrow> string" where
  "safe_header_value v =
     (if list_all is_header_text_char v then v
      else '' =?UTF-8?B?'' @ utf8_base64 (js_trim v) @ ''?='')"

definition safeNewHeaderLine :: "string \<Rightarrow> string option" where
  "safeNewHeaderLine line =
     (let name = filter is_field_name_char (fst (header_parts line));
          v = singleLineHeaderValue (snd (header_parts line))
      in if name = [] then None else Some (foldHeaderLine (name @ '':'' @ safe_header_value v)))"

definition rebuildWithHeaders :: "string \<Rightarrow> string list \<Rightarrow> (string \<Rightarrow> bool) \<Rightarrow> string" where
  "rebuildWithHeaders raw newHeaders filterLine =
     (let (headerText, body) = splitRawIntoHeaderAndBody raw;
          keptLines = filter filterLine (splitLogicalHeaderLines headerText True)
      in js_join CRLF (List.map_filter safeNewHeaderLine newHeaders @ keptLines) @ CRLF @ CRLF @ body)"

definition prependHeaders :: "string \<Rightarrow> (string \<times> string) list \<Rightarrow> string" where
  "prependHeaders raw headers =
     rebuildWithHeaders raw (map (\<lambda>(name, value). name @ '': '' @ value) headers) (\<lambda>_. True)"

definition dropHeaders :: "string \<Rightarrow> string list \<Rightarrow> string" where
  "dropHeaders raw lowerNames =
     (if \<not> list_ex (\<lambda>line. headerNameOf line \<in> set lowerNames)
            (splitLogicalHeaderLines (fst (splitRawIntoHeaderAndBody raw)) True)
      then raw
      else rebuildWithHeaders raw [] (\<lambda>line. headerNameOf line \<notin> set lowerNames))"

definition rebuildDroppingReplyTo :: "string \<Rightarrow> string list \<Rightarrow> string" where
  "rebuildDroppingReplyTo raw newHeaders =
     rebuildWithHeaders raw newHeaders
       (\<lambda>line. headerNameOf line \<noteq> ''reply-to'' \<and> \<not> prefix ''list-'' (headerNameOf line))"

section \<open>Physical lines\<close>

named_theorems line_intros

definition no_break :: "string \<Rightarrow> bool" where
  "no_break l \<longleftrightarrow> CR \<notin> set l \<and> LF \<notin> set l"

lemma no_break_simps [simp]:
  "no_break []" "no_break (c # l) \<longleftrightarrow> c \<noteq> CR \<and> c \<noteq> LF \<and> no_break l"
  "no_break (l @ m) \<longleftrightarrow> no_break l \<and> no_break m"
  by (auto simp: no_break_def)

lemma split_breaks_ne [simp]: "split_breaks b s \<noteq> []"
  by (induction b s rule: split_breaks.induct) (auto split: list.splits)

lemma split_breaks_no_break: "p \<in> set (split_breaks True s) \<Longrightarrow> no_break p"
  by (induction True s arbitrary: p rule: split_breaks.induct) (auto split: if_splits list.splits)

lemma split_breaks_line: "no_break l \<Longrightarrow> split_breaks b l = [l]"
  by (induction b l rule: split_breaks.induct) auto

lemma split_breaks_CRLF:
  "split_breaks b (s @ CR # LF # t) = split_breaks b s @ split_breaks b t"
proof (induction b s rule: split_breaks.induct)
  case (1 b)
  then show ?case by (cases t) auto
next
  case (2 b c)
  then show ?case by (auto split: list.splits)
next
  case (3 b c d s)
  then show ?case by (auto split: list.splits)
qed

lemma split_breaks_join:
  "ls \<noteq> [] \<Longrightarrow> split_breaks b (js_join CRLF ls) = concat (map (split_breaks b) ls)"
  by (induction ls rule: induct_list012) (auto simp: split_breaks_CRLF)

text \<open>A logical line as the splitter makes it: physical lines without line breaks, joined by
  CRLF, every one but the first a continuation.\<close>

definition crlf_form :: "string \<Rightarrow> bool" where
  "crlf_form l \<longleftrightarrow> (\<exists>p ps. l = js_join CRLF (p # ps) \<and> p \<noteq> [] \<and> no_break p \<and> (\<forall>q\<in>set ps. no_break q \<and> starts_wsp q))"

definition logical_line :: "string \<Rightarrow> bool" where
  "logical_line l \<longleftrightarrow> crlf_form l \<and> \<not> starts_wsp l"

lemma starts_wsp_ne: "starts_wsp l \<Longrightarrow> l \<noteq> []"
  by (auto simp: starts_wsp_def)

lemma starts_wsp_append [simp]: "p \<noteq> [] \<Longrightarrow> starts_wsp (p @ q) = starts_wsp p"
  by (cases p) (auto simp: starts_wsp_def)

lemma js_join_Cons: "js_join sep (p # ps) = p @ concat (map (\<lambda>q. sep @ q) ps)"
  by (induction ps arbitrary: p) auto

lemma starts_wsp_join [simp]: "p \<noteq> [] \<Longrightarrow> starts_wsp (js_join sep (p # ps)) = starts_wsp p"
  by (simp add: js_join_Cons)

lemma split_breaks_crlf_form:
  assumes "p \<noteq> []" "no_break p" "\<forall>q\<in>set ps. no_break q \<and> starts_wsp q"
  shows "split_breaks b (js_join CRLF (p # ps)) = p # ps"
proof -
  have "concat (map (split_breaks b) (p # ps)) = p # ps"
    using assms(2,3) by (induction ps) (auto simp: split_breaks_line)
  then show ?thesis
    by (simp add: split_breaks_join del: js_join.simps)
qed

lemma foldl_continuations:
  assumes "acc \<noteq> []" "\<forall>q\<in>set ps. starts_wsp q"
  shows "foldl (add_physical_line glue) acc ps = butlast acc @ [last acc @ concat (map glue ps)]"
  using assms
proof (induction ps arbitrary: acc)
  case Nil
  then show ?case by simp
next
  case (Cons q ps)
  then show ?case
    by (simp add: add_physical_line_def)
qed

lemma foldl_logical:
  assumes "p \<noteq> []" "\<not> starts_wsp p \<or> acc = []" "\<forall>q\<in>set ps. starts_wsp q"
  shows "foldl (add_physical_line glue) acc (p # ps) = acc @ [p @ concat (map glue ps)]"
proof -
  have "add_physical_line glue acc p = acc @ [p]"
    using assms(1,2) by (auto simp: add_physical_line_def)
  then show ?thesis
    using foldl_continuations [of "acc @ [p]" ps glue] assms(3) by simp
qed

text \<open>Splitting the physical lines of a sequence of logical lines gives them back.\<close>

lemma foldl_crlf_forms:
  assumes "\<forall>l\<in>set ls. crlf_form l" "\<forall>l\<in>set (if acc = [] then tl ls else ls). \<not> starts_wsp l"
  shows "foldl (add_physical_line (\<lambda>l. CRLF @ l)) acc (concat (map (split_breaks b) ls)) = acc @ ls"
  using assms
proof (induction ls arbitrary: acc)
  case Nil
  then show ?case by simp
next
  case (Cons l ls)
  obtain p ps where l: "l = js_join CRLF (p # ps)" and p: "p \<noteq> []" "no_break p"
    and ps: "\<forall>q\<in>set ps. no_break q \<and> starts_wsp q"
    using Cons.prems(1) by (auto simp: crlf_form_def)
  have head: "\<not> starts_wsp p \<or> acc = []"
    using Cons.prems(2) starts_wsp_join [of p CRLF ps] p(1)
    by (cases "acc = []") (simp_all add: l del: js_join.simps)
  have lines: "split_breaks b l = p # ps"
    unfolding l using p ps by (rule split_breaks_crlf_form)
  have l': "l = p @ concat (map (\<lambda>l. CRLF @ l) ps)"
    by (simp only: l js_join_Cons)
  have "foldl (add_physical_line (\<lambda>l. CRLF @ l)) acc (p # ps) = acc @ [p @ concat (map (\<lambda>l. CRLF @ l) ps)]"
    by (rule foldl_logical) (use p head ps in auto)
  then have "foldl (add_physical_line (\<lambda>l. CRLF @ l)) acc (split_breaks b l) = acc @ [l]"
    unfolding lines by (simp only: l' [symmetric])
  moreover have "\<forall>x\<in>set ls. \<not> starts_wsp x"
    using Cons.prems(2) by (auto split: if_splits)
  ultimately show ?case
    using Cons.IH [of "acc @ [l]"] Cons.prems(1) by simp
qed

lemma splitLogical_join:
  assumes "ls \<noteq> []" "\<forall>l\<in>set ls. crlf_form l" "\<forall>l\<in>set (tl ls). \<not> starts_wsp l"
  shows "splitLogicalHeaderLines (js_join CRLF ls) b = ls"
  using foldl_crlf_forms [of ls "[]" b] assms
  by (simp add: splitLogicalHeaderLines_def split_breaks_join)

text \<open>What the splitter yields: every line in that form, none but the first starting with a blank.\<close>

definition lines_inv :: "string list \<Rightarrow> bool" where
  "lines_inv ls \<longleftrightarrow> (\<forall>l\<in>set ls. crlf_form l) \<and> (\<forall>l\<in>set (tl ls). \<not> starts_wsp l)"

lemma crlf_form_single: "p \<noteq> [] \<Longrightarrow> no_break p \<Longrightarrow> crlf_form p"
  unfolding crlf_form_def by (rule exI [of _ p], rule exI [of _ "[]"]) simp

lemma crlf_form_extend: "crlf_form l \<Longrightarrow> no_break q \<Longrightarrow> starts_wsp q \<Longrightarrow> crlf_form (l @ CRLF @ q)"
proof -
  assume "crlf_form l" and q: "no_break q" "starts_wsp q"
  then obtain p ps where "l = js_join CRLF (p # ps)" "p \<noteq> []" "no_break p" "\<forall>q\<in>set ps. no_break q \<and> starts_wsp q"
    by (auto simp: crlf_form_def)
  with q show ?thesis
    unfolding crlf_form_def
    by (intro exI [of _ p] exI [of _ "ps @ [q]"]) (auto simp: js_join_Cons)
qed

lemma crlf_form_ne: "crlf_form l \<Longrightarrow> l \<noteq> []"
  by (auto simp: crlf_form_def js_join_Cons)

lemma lines_inv_step:
  assumes "lines_inv ls" "no_break q"
  shows "lines_inv (add_physical_line (\<lambda>l. CRLF @ l) ls q)"
proof (cases "starts_wsp q \<and> ls \<noteq> []")
  case True
  then obtain ini l where ls: "ls = ini @ [l]"
    by (metis append_butlast_last_id)
  with assms(1) have l: "crlf_form l"
    by (simp add: lines_inv_def)
  then have "crlf_form (l @ CRLF @ q)" and "starts_wsp (l @ CRLF @ q) = starts_wsp l"
    using True assms(2) crlf_form_extend [of l q] by (auto dest: crlf_form_ne)
  then show ?thesis
    using True assms(1) by (cases ini) (auto simp: ls lines_inv_def add_physical_line_def)
next
  case False
  then show ?thesis
    using assms by (cases ls) (auto simp: lines_inv_def add_physical_line_def intro: crlf_form_single)
qed

lemma lines_inv_foldl:
  "lines_inv ls \<Longrightarrow> \<forall>q\<in>set qs. no_break q \<Longrightarrow> lines_inv (foldl (add_physical_line (\<lambda>l. CRLF @ l)) ls qs)"
  by (induction qs arbitrary: ls) (simp_all add: lines_inv_step)

lemma lines_inv_splitLogical: "lines_inv (splitLogicalHeaderLines h True)"
  unfolding splitLogicalHeaderLines_def
  by (rule lines_inv_foldl) (auto simp: lines_inv_def dest: split_breaks_no_break)

lemma lines_inv_filter: "lines_inv ls \<Longrightarrow> lines_inv (filter f ls)"
proof (cases ls)
  case (Cons l ls')
  assume "lines_inv ls"
  then have "\<forall>x\<in>set ls'. crlf_form x \<and> \<not> starts_wsp x" and "crlf_form l"
    by (auto simp: Cons lines_inv_def)
  moreover have "set (tl (filter f ls)) \<subseteq> set ls'"
    using set_drop_subset [of 1 "filter f ls'"] by (auto simp: Cons drop_Suc)
  ultimately show ?thesis
    by (auto simp: Cons lines_inv_def)
qed (simp add: lines_inv_def)

section \<open>Splitting what was written\<close>

lemma split_loop_skip:
  "no_break l \<Longrightarrow> split_loop raw i ls pb (l @ rest) = split_loop raw (i + length l) ls pb rest"
  by (induction l arbitrary: i) auto

lemma split_loop_break:
  "i \<noteq> ls \<or> i = 0 \<Longrightarrow> split_loop raw i ls pb (CRLF @ rest) = split_loop raw (i + 2) (i + 2) i rest"
  by auto

lemma split_loop_blank:
  "i > 0 \<Longrightarrow> split_loop raw i i pb (CRLF @ rest) = (take pb raw, drop (i + 2) raw)"
  by simp

lemma split_loop_lines:
  assumes "ls \<noteq> []" "\<forall>l\<in>set ls. l \<noteq> [] \<and> no_break l"
    and "raw = pre @ js_join CRLF ls @ CRLF @ CRLF @ body"
  shows "split_loop raw (length pre) (length pre) pb (js_join CRLF ls @ CRLF @ CRLF @ body) =
    (pre @ js_join CRLF ls, body)"
  using assms
proof (induction ls arbitrary: pre pb rule: induct_list012)
  case 1
  then show ?case by simp
next
  case (2 l)
  then show ?case
    by (simp add: split_loop_skip del: split_loop.simps) (simp)
next
  case (3 l m ls)
  let ?pre = "pre @ l @ CRLF"
  let ?rest = "js_join CRLF (m # ls) @ CRLF @ CRLF @ body"
  have l: "l \<noteq> []" "no_break l"
    using 3(4) by auto
  have "split_loop raw (length pre) (length pre) pb (l @ CRLF @ ?rest) =
      split_loop raw (length pre + length l) (length pre) pb (CRLF @ ?rest)"
    using l by (simp only: split_loop_skip)
  also have "\<dots> = split_loop raw (length ?pre) (length ?pre) (length pre + length l) ?rest"
    using l split_loop_break [of "length pre + length l" "length pre"]
    by (simp del: split_loop.simps js_join.simps)
  also have "\<dots> = (?pre @ js_join CRLF (m # ls), body)"
    by (rule "3.IH"(2)) (use 3(4,5) in \<open>auto\<close>)
  finally show ?case by simp
qed

lemma js_join_concat:
  "\<forall>l\<in>set ls. l = js_join sep (f l) \<and> f l \<noteq> [] \<Longrightarrow> ls \<noteq> [] \<Longrightarrow>
   js_join sep ls = js_join sep (concat (map f ls))"
proof (induction ls rule: induct_list012)
  case (3 x y zs)
  have app: "js_join sep (as @ bs) = js_join sep as @ sep @ js_join sep bs"
    if "as \<noteq> []" "bs \<noteq> []" for as bs :: "string list"
  proof (cases as; cases bs)
  qed (use that in \<open>auto simp: js_join_Cons\<close>)
  have "js_join sep (concat (map f (x # y # zs))) = js_join sep (f x) @ sep @ js_join sep (concat (map f (y # zs)))"
    using 3(3) by (simp add: app)
  with 3 show ?case by simp
qed auto

text \<open>A message written from such lines splits into exactly them and the body.\<close>

lemma splitRaw_written:
  assumes "\<forall>l\<in>set ls. crlf_form l"
  shows "splitRawIntoHeaderAndBody (js_join CRLF ls @ CRLF @ CRLF @ body) = (js_join CRLF ls, body)"
proof (cases "ls = []")
  case True
  then show ?thesis by (simp add: splitRawIntoHeaderAndBody_def)
next
  case False
  let ?ps = "concat (map (split_breaks True) ls)"
  have form: "l = js_join CRLF (split_breaks True l)" "\<forall>p\<in>set (split_breaks True l). p \<noteq> [] \<and> no_break p"
    if "l \<in> set ls" for l
  proof -
    obtain p ps where "l = js_join CRLF (p # ps)" "p \<noteq> []" "no_break p" "\<forall>q\<in>set ps. no_break q \<and> starts_wsp q"
      using assms \<open>l \<in> set ls\<close> by (auto simp: crlf_form_def)
    then show "l = js_join CRLF (split_breaks True l)" "\<forall>p\<in>set (split_breaks True l). p \<noteq> [] \<and> no_break p"
      by (auto simp: split_breaks_crlf_form starts_wsp_ne simp del: js_join.simps)
  qed
  have join: "js_join CRLF ls = js_join CRLF ?ps"
    using False form(1) by (intro js_join_concat) auto
  have "?ps \<noteq> []"
    using False by (cases ls) auto
  then show ?thesis
    using split_loop_lines [of ?ps _ "[]" body 0] form(2)
    unfolding splitRawIntoHeaderAndBody_def join by fastforce
qed

section \<open>The lines this server writes\<close>

lemma concat_fold_words [simp]: "concat (fold_words s) = s"
  by (induction s rule: fold_words.induct) (auto simp: Let_def split: list.splits)

lemma fold_words_ne [simp]: "fold_words s \<noteq> []"
  by (induction s rule: fold_words.induct) (auto simp: Let_def split: list.splits)

lemma fold_words_tl: "w \<in> set (tl (fold_words s)) \<Longrightarrow> starts_wsp w"
proof (induction s arbitrary: w rule: fold_words.induct)
  case (3 c d s)
  obtain v vs where vs: "fold_words (d # s) = v # vs"
    by (cases "fold_words (d # s)") auto
  have "v \<noteq> [] \<and> hd v = d"
    using vs by (cases s) (auto simp: Let_def split: list.splits if_splits)
  with 3 vs show ?case
    by (cases v) (auto simp: Let_def starts_wsp_def split: if_splits)
qed auto

lemma fold_lines_shape:
  assumes "\<forall>w\<in>set ws. starts_wsp w" "cur \<noteq> []"
  shows "\<exists>x rest. fold_lines cur ws = (cur @ x) # rest \<and> (\<forall>r\<in>set rest. starts_wsp r)"
  using assms
proof (induction ws arbitrary: cur)
  case Nil
  then show ?case by simp
next
  case (Cons w ws)
  then have w: "w \<noteq> []" "starts_wsp w"
    by (auto dest: starts_wsp_ne)
  show ?case
  proof (cases "length cur + length w > 78")
    case True
    obtain x rest where "fold_lines w ws = (w @ x) # rest" "\<forall>r\<in>set rest. starts_wsp r"
      using Cons.IH [of w] Cons.prems w by auto
    with True w Cons.prems(2) show ?thesis by auto
  next
    case False
    then show ?thesis
      using Cons.IH [of "cur @ w"] Cons.prems by fastforce
  qed
qed

lemma concat_fold_lines [simp]: "concat (fold_lines cur ws) = cur @ concat ws"
  by (induction ws arbitrary: cur) auto

lemma logical_lineI: "p \<noteq> [] \<Longrightarrow> no_break p \<Longrightarrow> \<not> starts_wsp p \<Longrightarrow> logical_line p"
  by (simp add: logical_line_def crlf_form_single)

lemma foldHeaderLine_logical:
  assumes "line \<noteq> []" "no_break line" "\<not> starts_wsp line"
  shows "logical_line (foldHeaderLine line)"
proof (cases "length line \<le> 998")
  case True
  then show ?thesis using assms by (simp add: foldHeaderLine_def logical_lineI)
next
  case False
  obtain w ws where ws: "fold_words line = w # ws"
    by (cases "fold_words line") auto
  have w: "w \<noteq> []"
    using ws assms(1) by (cases line rule: fold_words.cases) (auto simp: Let_def split: list.splits if_splits)
  obtain x rest where fl: "fold_lines w ws = (w @ x) # rest" "\<forall>r\<in>set rest. starts_wsp r"
    using fold_lines_shape [of ws w] fold_words_tl [of _ line] w ws by auto
  have "w @ x @ concat rest = line"
    using concat_fold_lines [of w ws] concat_fold_words [of line] by (simp add: ws fl)
  then have "no_break (w @ x)" "\<forall>r\<in>set rest. no_break r" "\<not> starts_wsp (w @ x)"
    using assms(2,3) w by (auto simp: no_break_def)
  then show ?thesis
    using False w fl ws unfolding logical_line_def crlf_form_def
    by (intro conjI exI [of _ "w @ x"] exI [of _ rest]) (auto simp: foldHeaderLine_def simp del: js_join.simps)
qed

lemma b64_char_set: "b64_char n \<in> set ''ABCDEFGHIJKLMNOPQRSTUVWXYZabcdefghijklmnopqrstuvwxyz0123456789+/''"
  unfolding b64_char_def by (rule nth_mem) simp

lemma b64_char_no_break: "no_break [b64_char n]"
  using b64_char_set [of n] by auto

lemma base64_no_break: "no_break (base64 s)"
  using b64_char_no_break by (induction s rule: base64.induct) auto

lemma singleLine_no_break: "no_break (singleLineHeaderValue v)"
  by (auto simp: no_break_def singleLineHeaderValue_def)

lemma field_name_chars: "is_field_name_char c \<Longrightarrow> c \<noteq> CR \<and> c \<noteq> LF \<and> \<not> is_wsp c \<and> c \<noteq> CHR '':'' \<and> \<not> js_is_ws c"
  by (auto simp: is_field_name_char_def is_wsp_def js_is_ws_def Let_def)

lemma safe_header_value_no_break: "no_break v \<Longrightarrow> no_break (safe_header_value v)"
  by (simp add: safe_header_value_def utf8_base64_def base64_no_break)

lemma field_name_not_wsp: "list_all is_field_name_char name \<Longrightarrow> no_break name \<and> \<not> starts_wsp name"
  by (induction name) (auto simp: starts_wsp_def dest: field_name_chars)

lemma safeNewHeaderLine_logical:
  assumes "safeNewHeaderLine line = Some l"
  shows "logical_line l"
proof -
  let ?name = "filter is_field_name_char (fst (header_parts line))"
  let ?v = "safe_header_value (singleLineHeaderValue (snd (header_parts line)))"
  have l: "l = foldHeaderLine (?name @ '':'' @ ?v)" and ne: "?name \<noteq> []"
    using assms by (auto simp: safeNewHeaderLine_def Let_def split: if_splits)
  have "list_all is_field_name_char ?name"
    by (simp add: list_all_iff)
  then have "no_break ?name" "\<not> starts_wsp ?name"
    by (auto dest: field_name_not_wsp)
  then show ?thesis
    unfolding l using ne by (intro foldHeaderLine_logical) (simp_all add: safe_header_value_no_break singleLine_no_break)
qed

lemma new_lines_logical: "l \<in> set (List.map_filter safeNewHeaderLine news) \<Longrightarrow> logical_line l"
  by (induction news) (auto simp: map_filter_simps dest: safeNewHeaderLine_logical split: option.splits)

lemma rebuildWithHeaders_eq:
  "rebuildWithHeaders raw newHeaders f =
     js_join CRLF (List.map_filter safeNewHeaderLine newHeaders @
       filter f (splitLogicalHeaderLines (fst (splitRawIntoHeaderAndBody raw)) True)) @ CRLF @ CRLF @
     snd (splitRawIntoHeaderAndBody raw)"
  by (simp add: rebuildWithHeaders_def split: prod.splits)

lemma rebuilt_lines_form:
  "\<forall>l\<in>set (List.map_filter safeNewHeaderLine news @ filter f (splitLogicalHeaderLines h True)). crlf_form l"
  using lines_inv_filter [OF lines_inv_splitLogical [of h], of f]
  by (auto simp: lines_inv_def logical_line_def dest!: new_lines_logical)

text \<open>The header block of a rebuilt message is the lines written, its body the original's.\<close>

lemma splitRaw_rebuild:
  "splitRawIntoHeaderAndBody (rebuildWithHeaders raw news f) =
     (js_join CRLF (List.map_filter safeNewHeaderLine news @
        filter f (splitLogicalHeaderLines (fst (splitRawIntoHeaderAndBody raw)) True)),
      snd (splitRawIntoHeaderAndBody raw))"
  unfolding rebuildWithHeaders_eq by (rule splitRaw_written [OF rebuilt_lines_form])

lemma splitLogical_rebuild:
  assumes "news = [] \<or> (case filter f (splitLogicalHeaderLines (fst (splitRawIntoHeaderAndBody raw)) True) of
             [] \<Rightarrow> True | l # _ \<Rightarrow> \<not> starts_wsp l)"
  shows "splitLogicalHeaderLines (fst (splitRawIntoHeaderAndBody (rebuildWithHeaders raw news f))) b =
    List.map_filter safeNewHeaderLine news @
    filter f (splitLogicalHeaderLines (fst (splitRawIntoHeaderAndBody raw)) True)"
proof -
  let ?new = "List.map_filter safeNewHeaderLine news"
  let ?kept = "filter f (splitLogicalHeaderLines (fst (splitRawIntoHeaderAndBody raw)) True)"
  have new: "\<forall>l\<in>set ?new. \<not> starts_wsp l"
    by (auto simp: logical_line_def dest: new_lines_logical)
  have kept: "\<forall>l\<in>set (tl ?kept). \<not> starts_wsp l"
    using lines_inv_filter [OF lines_inv_splitLogical] by (auto simp: lines_inv_def)
  have "\<forall>l\<in>set (tl (?new @ ?kept)). \<not> starts_wsp l"
  proof (cases ?new)
    case Nil
    then show ?thesis using kept by simp
  next
    case (Cons n ns)
    then have "news \<noteq> []"
      by (auto simp: List.map_filter_def)
    then have "\<forall>l\<in>set ?kept. \<not> starts_wsp l"
      using assms kept by (cases ?kept) auto
    then show ?thesis using new Cons by auto
  qed
  then have "splitLogicalHeaderLines (js_join CRLF (?new @ ?kept)) b = ?new @ ?kept" if "?new @ ?kept \<noteq> []"
    using that rebuilt_lines_form by (intro splitLogical_join)
  then show ?thesis
    by (cases "?new @ ?kept = []")
      (simp_all add: splitRaw_rebuild splitLogicalHeaderLines_def add_physical_line_def starts_wsp_def)
qed

section \<open>Rebuilding keeps the message\<close>

definition header_lines :: "string \<Rightarrow> string list" where
  "header_lines raw = splitLogicalHeaderLines (fst (splitRawIntoHeaderAndBody raw)) True"

definition body_of :: "string \<Rightarrow> string" where
  "body_of raw = snd (splitRawIntoHeaderAndBody raw)"

text \<open>The header block does not open with a continuation line (there is nothing for it to continue).\<close>

definition no_leading_continuation :: "string \<Rightarrow> bool" where
  "no_leading_continuation raw \<longleftrightarrow> (case header_lines raw of [] \<Rightarrow> True | l # _ \<Rightarrow> \<not> starts_wsp l)"

lemmas rebuild_defs = header_lines_def body_of_def no_leading_continuation_def

definition new_header_line :: "string \<times> string \<Rightarrow> string" where
  "new_header_line h = fst h @ '': '' @ snd h"

lemma prependHeaders_rebuild: "prependHeaders raw hs = rebuildWithHeaders raw (map new_header_line hs) (\<lambda>_. True)"
  unfolding prependHeaders_def new_header_line_def case_prod_unfold by (rule refl)

lemma header_lines_prepend:
  assumes "no_leading_continuation raw"
  shows "splitLogicalHeaderLines (fst (splitRawIntoHeaderAndBody (prependHeaders raw hs))) b =
    List.map_filter safeNewHeaderLine (map new_header_line hs) @ header_lines raw"
  using splitLogical_rebuild [of "map new_header_line hs" "\<lambda>_. True" raw b] assms
  by (simp add: prependHeaders_rebuild rebuild_defs)

lemma body_of_rebuild [simp]: "body_of (rebuildWithHeaders raw news f) = body_of raw"
  by (simp add: body_of_def splitRaw_rebuild)

lemma header_lines_dropHeaders:
  "header_lines (dropHeaders raw names) = filter (\<lambda>l. headerNameOf l \<notin> set names) (header_lines raw)"
proof (cases "list_ex (\<lambda>l. headerNameOf l \<in> set names) (header_lines raw)")
  case True
  then show ?thesis
    by (simp add: dropHeaders_def header_lines_def splitLogical_rebuild)
next
  case False
  then have "filter (\<lambda>l. headerNameOf l \<notin> set names) (header_lines raw) = header_lines raw"
    by (simp add: list_ex_iff)
  with False show ?thesis
    by (simp add: dropHeaders_def header_lines_def)
qed

subsection \<open>Reading back a header that was written\<close>

lemma match_header_name:
  assumes "list_all is_field_name_char name" "name \<noteq> []"
  shows "match_header (name @ CHR '':'' # rest) = Some (name, rest)"
proof -
  have "\<forall>c\<in>set name. c \<noteq> CHR '':'' \<and> \<not> js_is_ws c"
    using assms(1) by (auto simp: list_all_iff dest: field_name_chars)
  then have "takeWhile (\<lambda>c. c \<noteq> CHR '':'' \<and> \<not> js_is_ws c) (name @ CHR '':'' # rest) = name"
    by (subst takeWhile_append2) auto
  then show ?thesis
    by (simp add: match_header_def is_wsp_def)
qed

lemma unfold_value_no_break: "no_break v \<Longrightarrow> unfold_value v = v"
  by (induction v rule: unfold_value.induct) auto

lemma header_text_chars: "is_header_text_char c \<Longrightarrow> c \<noteq> CR \<and> c \<noteq> LF"
  by (auto simp: is_header_text_char_def)

lemma singleLine_text: "list_all is_header_text_char v \<Longrightarrow> singleLineHeaderValue v = v"
  unfolding singleLineHeaderValue_def
  by (induction v) (auto simp: is_header_text_char_def Let_def)

text \<open>A plain, short header line is written as it is.\<close>

lemma safeNewHeaderLine_plain:
  assumes "list_all is_field_name_char name" "name \<noteq> []" "list_all is_header_text_char v"
    and "length name + length v \<le> 990"
  shows "safeNewHeaderLine (name @ '': '' @ v) = Some (name @ '': '' @ v)"
proof -
  have "CHR '':'' \<notin> set name"
    using assms(1) by (auto simp: list_all_iff dest: field_name_chars)
  then have parts: "header_parts (name @ CHR '':'' # CHR '' '' # v) = (name, CHR '' '' # v)"
    by (simp add: header_parts_def js_index_of_append)
  have tchars: "list_all is_header_text_char (CHR '' '' # v)"
    using assms(3) by (simp add: is_header_text_char_def)
  have name: "filter is_field_name_char name = name"
    using assms(1) by (simp add: list_all_iff)
  show ?thesis
    using assms(2,4) tchars singleLine_text [OF tchars]
    by (simp add: safeNewHeaderLine_def parts name safe_header_value_def foldHeaderLine_def Let_def)
qed

lemma valueOfHeaderLine_plain:
  assumes "list_all is_field_name_char name" "name \<noteq> []" "list_all is_header_text_char v"
  shows "valueOfHeaderLine (name @ '': '' @ v) (js_lower name) = Some (js_trim v)"
proof -
  have "no_break (CHR '' '' # v)"
    using assms(3) by (auto simp: no_break_def list_all_iff dest: header_text_chars)
  then have "unfold_value ('' '' @ v) = '' '' @ v"
    using unfold_value_no_break by simp
  moreover have "js_trim ('' '' @ v) = js_trim v"
    by (simp add: js_trim_def js_is_ws_def)
  ultimately show ?thesis
    using match_header_name [OF assms(1,2), of "'' '' @ v"] by (simp add: valueOfHeaderLine_def)
qed

subsection \<open>The two lexers agree\<close>

text \<open>\<^verbatim>\<open>lexLogicalHeaderLines()\<close> finds the same logical lines, joined with blanks.\<close>

definition lex_of :: "string \<Rightarrow> string" where
  "lex_of l = hd (split_breaks True l) @ concat (map (\<lambda>q. '' '' @ js_trim q) (tl (split_breaks True l)))"

lemma lex_of_extend:
  assumes "no_break q"
  shows "lex_of (l @ CRLF @ q) = lex_of l @ '' '' @ js_trim q"
proof -
  obtain p ps where "split_breaks True l = p # ps"
    by (cases "split_breaks True l") auto
  then show ?thesis
    using split_breaks_CRLF [of True l q] assms by (simp add: lex_of_def split_breaks_line)
qed

lemma lex_foldl:
  "\<forall>q\<in>set qs. no_break q \<Longrightarrow>
   foldl (add_physical_line (\<lambda>l. '' '' @ js_trim l)) (map lex_of ls) qs =
   map lex_of (foldl (add_physical_line (\<lambda>l. CRLF @ l)) ls qs)"
proof (induction qs arbitrary: ls)
  case Nil
  then show ?case by simp
next
  case (Cons q qs)
  have q: "no_break q"
    using Cons.prems by simp
  have "add_physical_line (\<lambda>l. '' '' @ js_trim l) (map lex_of ls) q =
      map lex_of (add_physical_line (\<lambda>l. CRLF @ l) ls q)"
    using q lex_of_extend [OF q] split_breaks_line [OF q, of True]
    by (simp add: add_physical_line_def map_butlast last_map) (simp add: lex_of_def)
  then show ?case
    using Cons.IH [of "add_physical_line (\<lambda>l. CRLF @ l) ls q"] Cons.prems by simp
qed

lemma lexLogical_eq: "lexLogicalHeaderLines raw = map lex_of (header_lines raw)"
  using lex_foldl [of "split_breaks True (fst (splitRawIntoHeaderAndBody raw))" "[]"]
  by (auto simp: lexLogicalHeaderLines_def header_lines_def splitLogicalHeaderLines_def dest: split_breaks_no_break)

lemma add_originator_foldl_skip:
  "\<forall>l\<in>set ls. headerNameOf l \<noteq> ''from'' \<and> headerNameOf l \<noteq> ''sender'' \<Longrightarrow> foldl add_originator vs ls = vs"
  by (induction ls arbitrary: vs) (auto simp: add_originator_def headerNameOf_def split: option.splits)

lemma fold_words_prefix:
  "\<forall>c\<in>set p. \<not> is_wsp c \<Longrightarrow> p \<noteq> [] \<Longrightarrow> \<exists>w ws. fold_words (p @ s) = (p @ w) # ws"
proof (induction p)
  case Nil
  then show ?case by simp
next
  case (Cons c p)
  show ?case
  proof (cases "p = []")
    case True
    then show ?thesis
      by (cases s) (auto simp: Let_def split: list.splits)
  next
    case False
    then obtain d p' where p: "p = d # p'"
      by (cases p) auto
    with Cons obtain w ws where "fold_words (d # p' @ s) = (d # p' @ w) # ws"
      by auto
    then show ?thesis
      using Cons.prems by (simp add: p Let_def)
  qed
qed

text \<open>The first physical line of a folded header still opens with its name and colon.\<close>

lemma foldHeaderLine_prefix:
  assumes "\<forall>c\<in>set p. \<not> is_wsp c" "p \<noteq> []" "no_break (p @ s)"
  shows "\<exists>t. lex_of (foldHeaderLine (p @ s)) = p @ t"
proof (cases "length (p @ s) \<le> 998")
  case True
  then show ?thesis
    using assms(3) by (simp add: foldHeaderLine_def lex_of_def split_breaks_line)
next
  case False
  obtain w ws where ws: "fold_words (p @ s) = (p @ w) # ws"
    using fold_words_prefix [OF assms(1,2)] by blast
  obtain x rest where fl: "fold_lines (p @ w) ws = ((p @ w) @ x) # rest" "\<forall>r\<in>set rest. starts_wsp r"
    using fold_lines_shape [of ws "p @ w"] fold_words_tl [of _ "p @ s"] ws assms(2) by auto
  have "(p @ w) @ x @ concat rest = p @ s"
    using concat_fold_lines [of "p @ w" ws] concat_fold_words [of "p @ s"] by (simp add: ws fl)
  then have "no_break ((p @ w) @ x)" "\<forall>r\<in>set rest. no_break r"
    using assms(3) by (auto simp: no_break_def)
  then have "split_breaks True (js_join CRLF (((p @ w) @ x) # rest)) = ((p @ w) @ x) # rest"
    using fl(2) assms(2) by (intro split_breaks_crlf_form) auto
  then have "hd (split_breaks True (foldHeaderLine (p @ s))) = p @ w @ x"
    using False assms(2) by (simp add: foldHeaderLine_def ws fl)
  then show ?thesis
    by (simp add: lex_of_def)
qed

lemma lex_new_header_name:
  assumes "safeNewHeaderLine (new_header_line h) = Some l" "list_all is_field_name_char (fst h)"
  shows "headerNameOf (lex_of l) = js_lower (fst h)"
proof -
  let ?n = "fst h"
  have colon: "CHR '':'' \<notin> set ?n"
    using assms(2) by (auto simp: list_all_iff dest: field_name_chars)
  then have parts: "header_parts (new_header_line h) = (?n, '' '' @ snd h)"
    by (simp add: header_parts_def new_header_line_def js_index_of_append)
  have name: "filter is_field_name_char ?n = ?n"
    using assms(2) by (simp add: list_all_iff)
  let ?v = "safe_header_value (singleLineHeaderValue ('' '' @ snd h))"
  have l: "l = foldHeaderLine ((?n @ '':'') @ ?v)" and ne: "?n \<noteq> []"
    using assms(1) by (auto simp: safeNewHeaderLine_def parts name Let_def split: if_splits)
  have "\<not> is_wsp (CHR '':'')" and "\<forall>c\<in>set ?n. \<not> is_wsp c"
    using assms(2) by (simp add: is_wsp_def, simp add: list_all_iff field_name_chars)
  then have "\<forall>c\<in>set (?n @ '':''). \<not> is_wsp c"
    by simp
  moreover have "no_break ((?n @ '':'') @ ?v)"
    using field_name_not_wsp [OF assms(2)] by (simp add: safe_header_value_no_break singleLine_no_break)
  ultimately have "\<exists>t. lex_of (foldHeaderLine ((?n @ '':'') @ ?v)) = (?n @ '':'') @ t"
    by (intro foldHeaderLine_prefix) auto
  then obtain t where "lex_of l = ?n @ CHR '':'' # t"
    unfolding l by auto
  then show ?thesis
    using match_header_name [OF assms(2) ne] by (simp add: headerNameOf_def)
qed

section \<open>Properties\<close>



text \<open>A header that was prepended is read back. For a name of field-name characters and a
  printable value on one line, \<^verbatim>\<open>extractHeader()\<close> on the rebuilt message returns the value
  (trimmed), before any header of the same name the message already had.\<close>

theorem extractHeader_prependHeaders:
  assumes "no_leading_continuation raw" "list_all is_field_name_char name" "name \<noteq> []"
    and "list_all is_header_text_char v" "length name + length v \<le> 990"
  shows "extractHeader (prependHeaders raw [(name, v)]) name = Some (js_trim v)"
proof -
  have "List.map_filter safeNewHeaderLine (map new_header_line [(name, v)]) = [name @ '': '' @ v]"
    using safeNewHeaderLine_plain [OF assms(2-5)] by (simp add: new_header_line_def)
  then have "splitLogicalHeaderLines (fst (splitRawIntoHeaderAndBody (prependHeaders raw [(name, v)]))) False =
      (name @ '': '' @ v) # header_lines raw"
    using header_lines_prepend [OF assms(1), of "[(name, v)]" False] by simp
  then show ?thesis
    using valueOfHeaderLine_plain [OF assms(2-4)] by (simp add: extractHeader_def)
qed

theorem extractHeader_prependHeaders_witness:
  "extractHeader (prependHeaders (''Message-ID: <old>'' @ CRLF @ CRLF @ ''hi'') [(''Message-ID'', ''<new>'')])
     ''Message-ID'' = Some ''<new>''"
proof -
  have h: "no_leading_continuation (''Message-ID: <old>'' @ CRLF @ CRLF @ ''hi'')"
    by code_simp
  have n: "list_all is_field_name_char ''Message-ID''" and v: "list_all is_header_text_char ''<new>''"
    by code_simp+
  have t: "js_trim ''<new>'' = ''<new>''"
    by code_simp
  show ?thesis
    using extractHeader_prependHeaders [OF h n _ v] by (simp add: t)
qed

text \<open>Prepending headers other than \<^verbatim>\<open>From\<close> and \<^verbatim>\<open>Sender\<close> never changes who the message says it is
  from, however long (folded) or encoded the values are: the originator headers the check
  reads are the original's.\<close>

theorem originators_prependHeaders:
  assumes "no_leading_continuation raw"
    and "\<forall>h\<in>set hs. list_all is_field_name_char (fst h) \<and> js_lower (fst h) \<notin> {''from'', ''sender''}"
  shows "extractOriginatorHeaders (prependHeaders raw hs) = extractOriginatorHeaders raw"
proof -
  let ?new = "List.map_filter safeNewHeaderLine (map new_header_line hs)"
  have "headerNameOf (lex_of l) \<noteq> ''from'' \<and> headerNameOf (lex_of l) \<noteq> ''sender''" if new: "l \<in> set ?new" for l
  proof -
    obtain h where "h \<in> set hs" "safeNewHeaderLine (new_header_line h) = Some l"
      using new by (auto simp: set_map_filter_iff)
    then show ?thesis
      using assms(2) lex_new_header_name [of h l] by auto
  qed
  then have "foldl add_originator vs (map lex_of ?new) = vs" for vs
    by (intro add_originator_foldl_skip) auto
  then show ?thesis
    using header_lines_prepend [OF assms(1), of hs True]
    by (simp add: extractOriginatorHeaders_def lexLogical_eq header_lines_def [of "prependHeaders raw hs"])
qed

theorem originators_prependHeaders_witness:
  "extractOriginatorHeaders (prependHeaders (''From: a@x'' @ CRLF @ CRLF) [(''X-Tag'', ''From: b@y'')]) =
     \<lparr>oh_from = [''a@x''], oh_sender = []\<rparr>"
proof -
  have h: "no_leading_continuation (''From: a@x'' @ CRLF @ CRLF)"
    by code_simp
  have n: "\<forall>h\<in>set [(''X-Tag'', ''From: b@y'')]. list_all is_field_name_char (fst h) \<and> js_lower (fst h) \<notin> {''from'', ''sender''}"
    by code_simp
  have "extractOriginatorHeaders (''From: a@x'' @ CRLF @ CRLF) = \<lparr>oh_from = [''a@x''], oh_sender = []\<rparr>"
    by code_simp
  then show ?thesis
    using originators_prependHeaders [OF h n] by simp
qed



text \<open>Dropping headers by name removes every line of those names, folded continuations
  included, keeps every other line in order and leaves the body untouched.\<close>

theorem dropHeaders_exact:
  "header_lines (dropHeaders raw names) = filter (\<lambda>l. headerNameOf l \<notin> set names) (header_lines raw) \<and>
   body_of (dropHeaders raw names) = body_of raw"
  using header_lines_dropHeaders [of raw names] by (simp add: dropHeaders_def)

text \<open>Where the original's header block does open with a blank, that line becomes a
  continuation of the last header prepended, so text of the message's author ends up inside
  a header this server wrote.\<close>

theorem prependHeaders_leading_continuation:
  "header_lines (prependHeaders ('' by evil'' @ CRLF @ ''To: a'' @ CRLF @ CRLF) [(''X-Checked'', ''yes'')]) =
     [''X-Checked: yes'' @ CRLF @ '' by evil'', ''To: a'']"
  by code_simp

end
