(* ===== verification/Addresses.thy ===== *)
theory Addresses
  imports Prelude
begin

text \<open>
  Addresses (\<^verbatim>\<open>src/src/util/AddressUtils.ts\<close>): the normal form used as a lookup key, the one
  domain of an address, and the plus-tag removed for delivery routing.
\<close>

definition normalizeAddress :: "string \<Rightarrow> string" where
  "normalizeAddress address = js_lower (js_trim address)"

definition addressDomainOf :: "string \<Rightarrow> string option" where
  "addressDomainOf address =
     (let parts = js_split (CHR ''@'') address
      in if length parts = 2 \<and> length (parts ! 1) > 0 then Some (js_lower (parts ! 1)) else None)"

definition stripPlusTag :: "string \<Rightarrow> string" where
  "stripPlusTag address =
     (case js_index_of (CHR ''@'') address of
        None \<Rightarrow> address
      | Some atIndex \<Rightarrow>
          let localPart = take atIndex address
          in case js_index_of (CHR ''+'') localPart of
               None \<Rightarrow> address
             | Some plusIndex \<Rightarrow> take plusIndex localPart @ drop atIndex address)"

lemma normalizeAddress_idem [simp]: "normalizeAddress (normalizeAddress a) = normalizeAddress a"
  by (simp add: normalizeAddress_def js_trim_lower)

text \<open>The domain is read only from an address with exactly one @ and something after it.\<close>

lemma js_split_two:
  "js_split c s = [l, d] \<longleftrightarrow> s = l @ c # d \<and> c \<notin> set l \<and> c \<notin> set d"
proof
  assume split: "js_split c s = [l, d]"
  then have "c \<in> set s"
    by (metis js_split_absent list.discI list.inject)
  then obtain xs ys where s: "s = xs @ c # ys" "c \<notin> set xs"
    by (meson split_list_first)
  then have "xs # js_split c ys = [l, d]"
    using split by (simp add: js_split_sep js_split_absent)
  then have "xs = l" "js_split c ys = [d]"
    by auto
  moreover from \<open>js_split c ys = [d]\<close> have "c \<notin> set ys"
    using length_js_split [of c ys] by (auto simp: filter_empty_conv)
  ultimately show "s = l @ c # d \<and> c \<notin> set l \<and> c \<notin> set d"
    using s js_split_absent [of c ys] by auto
next
  assume "s = l @ c # d \<and> c \<notin> set l \<and> c \<notin> set d"
  then show "js_split c s = [l, d]"
    by (simp add: js_split_sep js_split_absent)
qed

lemma addressDomainOf_iff:
  "addressDomainOf a = Some d \<longleftrightarrow>
     (\<exists>l e. a = l @ CHR ''@'' # e \<and> CHR ''@'' \<notin> set l \<and> CHR ''@'' \<notin> set e \<and> e \<noteq> [] \<and> d = js_lower e)"
proof -
  have "length ps = 2 \<longleftrightarrow> (\<exists>l e. ps = [l, e])" for ps :: "string list"
    by (auto simp: numeral_2_eq_2 length_Suc_conv)
  then have "addressDomainOf a = Some d \<longleftrightarrow>
      (\<exists>l e. js_split (CHR ''@'') a = [l, e] \<and> e \<noteq> [] \<and> d = js_lower e)"
    by (auto simp: addressDomainOf_def Let_def)
  then show ?thesis
    by (simp add: js_split_two)
qed

lemma stripPlusTag_tagged:
  assumes "CHR ''@'' \<notin> set l" "CHR ''+'' \<notin> set l" "CHR ''@'' \<notin> set t"
  shows "stripPlusTag (l @ CHR ''+'' # t @ CHR ''@'' # d) = l @ CHR ''@'' # d"
proof -
  have at: "js_index_of (CHR ''@'') ((l @ CHR ''+'' # t) @ CHR ''@'' # d) = Some (length (l @ CHR ''+'' # t))"
    using assms by (intro js_index_of_append) auto
  show ?thesis
    using at js_index_of_append [OF assms(2), of t] by (simp add: stripPlusTag_def)
qed

lemma stripPlusTag_untagged:
  "CHR ''@'' \<notin> set l \<Longrightarrow> CHR ''+'' \<notin> set l \<Longrightarrow> stripPlusTag (l @ CHR ''@'' # d) = l @ CHR ''@'' # d"
  by (simp add: stripPlusTag_def js_index_of_append)

lemma stripPlusTag_cases:
  obtains (plain) "stripPlusTag a = a"
  | (tagged) l t d where "a = l @ CHR ''+'' # t @ CHR ''@'' # d" "CHR ''@'' \<notin> set l" "CHR ''+'' \<notin> set l"
      "CHR ''@'' \<notin> set t" "stripPlusTag a = l @ CHR ''@'' # d"
proof (cases "CHR ''@'' \<in> set a")
  case False
  then show thesis using plain by (simp add: stripPlusTag_def)
next
  case True
  then obtain xs d where a: "a = xs @ CHR ''@'' # d" "CHR ''@'' \<notin> set xs"
    by (meson split_list_first)
  show thesis
  proof (cases "CHR ''+'' \<in> set xs")
    case False
    then show thesis using plain a stripPlusTag_untagged by simp
  next
    case True
    then obtain l t where "xs = l @ CHR ''+'' # t" "CHR ''+'' \<notin> set l"
      by (meson split_list_first)
    then show thesis using tagged [of l t d] a stripPlusTag_tagged [of l t d] by simp
  qed
qed

text \<open>Stripping keeps the domain and is idempotent.\<close>

lemma stripPlusTag_idem [simp]: "stripPlusTag (stripPlusTag a) = stripPlusTag a"
  by (rule stripPlusTag_cases [of a]) (simp_all add: stripPlusTag_untagged)

lemma stripPlusTag_domain [simp]: "addressDomainOf (stripPlusTag a) = addressDomainOf a"
proof (rule stripPlusTag_cases [of a])
  fix l t d
  assume a: "a = l @ CHR ''+'' # t @ CHR ''@'' # d" and l: "CHR ''@'' \<notin> set l" and t: "CHR ''@'' \<notin> set t"
    and strip: "stripPlusTag a = l @ CHR ''@'' # d"
  have "js_split (CHR ''@'') a = (l @ CHR ''+'' # t) # js_split (CHR ''@'') d"
    using js_split_sep [of "CHR ''@''" "l @ CHR ''+'' # t" d] l t by (simp add: a js_split_absent)
  moreover have "js_split (CHR ''@'') (l @ CHR ''@'' # d) = l # js_split (CHR ''@'') d"
    using l by (simp add: js_split_sep js_split_absent)
  ultimately show ?thesis
    by (simp add: addressDomainOf_def strip)
qed simp

end
