(* ===== verification/Versioned_Store.thy ===== *)
theory Versioned_Store
  imports Prelude
begin

text \<open>
  The repository every stateful component writes through. \<^verbatim>\<open>RepoUtils\<close> is code of
  \<^verbatim>\<open>@rapidrest/service-core\<close>: it is an argument of the definitions that use it, and
  \<open>optimistic_repo\<close> states what the source relies on (\<^verbatim>\<open>src/src/util/EntityUtils.ts\<close> says it):
  an update names the version it read, fails when the row has moved on, and otherwise writes
  and bumps the version. Other writers may run at every call, each with such an update, so a
  row with the version it had is the row it was.

  The locale \<open>rmw_loop\<close> is the read-modify-write loop the quota and sender-list operations
  share: its lemma says that an operation that succeeds took effect atomically on the row as
  it was at the moment of the write.
\<close>

record ('s, 'r) repo =
  findOne :: "string \<Rightarrow> 's \<Rightarrow> 'r option result \<times> 's"
  update :: "string \<Rightarrow> nat \<Rightarrow> ('r \<Rightarrow> 'r) \<Rightarrow> 's \<Rightarrow> 'r result \<times> 's"

text \<open>Between \<open>s\<close> and \<open>s'\<close> only other writers acted, each bumping the version of what it wrote.\<close>

definition others_wrote :: "('s \<Rightarrow> string \<Rightarrow> 'r option) \<Rightarrow> ('r \<Rightarrow> nat) \<Rightarrow> 's \<Rightarrow> 's \<Rightarrow> bool" where
  "others_wrote rows ver s s' \<longleftrightarrow>
     (\<forall>u r r'. rows s u = Some r \<and> rows s' u = Some r' \<and> ver r' = ver r \<longrightarrow> r' = r)"

definition optimistic_repo ::
    "('s \<Rightarrow> string \<Rightarrow> 'r option) \<Rightarrow> ('r \<Rightarrow> nat) \<Rightarrow> ('r \<Rightarrow> 'r) \<Rightarrow> ('s, 'r) repo \<Rightarrow> bool" where
  "optimistic_repo rows ver bump repo \<longleftrightarrow>
     (\<forall>u s x s'. findOne repo u s = (Inr x, s') \<longrightarrow> x = rows s u \<and> others_wrote rows ver s s') \<and>
     (\<forall>u v p s r' s'. update repo u v p s = (Inr r', s') \<longrightarrow>
        (\<exists>r. rows s u = Some r \<and> ver r = v \<and> r' = bump (p r) \<and> rows s' = (rows s)(u \<mapsto> r')))"

lemma optimistic_repo_find:
  "optimistic_repo rows ver bump repo \<Longrightarrow> findOne repo u s = (Inr x, s') \<Longrightarrow>
   x = rows s u \<and> others_wrote rows ver s s'"
  by (simp add: optimistic_repo_def)

lemma optimistic_repo_update:
  "optimistic_repo rows ver bump repo \<Longrightarrow> update repo u v p s = (Inr r', s') \<Longrightarrow>
   \<exists>r. rows s u = Some r \<and> ver r = v \<and> r' = bump (p r) \<and> rows s' = (rows s)(u \<mapsto> r')"
  unfolding optimistic_repo_def by blast

text \<open>The heart of optimistic locking: an update with the version of a row read earlier, if it
  succeeds, is applied to that very row.\<close>

lemma update_of_read:
  assumes "optimistic_repo rows ver bump repo"
    and "findOne repo u s = (Inr (Some r), s1)" "update repo u (ver r) p s1 = (Inr r', s2)"
  shows "rows s1 u = Some r \<and> r' = bump (p r) \<and> rows s2 = (rows s1)(u \<mapsto> bump (p r))"
proof -
  have read: "rows s u = Some r" "others_wrote rows ver s s1"
    using optimistic_repo_find [OF assms(1,2)] by auto
  obtain r0 where r0: "rows s1 u = Some r0" "ver r0 = ver r" "r' = bump (p r0)" "rows s2 = (rows s1)(u \<mapsto> r')"
    using optimistic_repo_update [OF assms(1,3)] by auto
  then have "r0 = r"
    using read unfolding others_wrote_def by blast
  with r0 show ?thesis by simp
qed

text \<open>How an answer came about: the last call read a row and nothing was written, or the last
  call wrote the row as it then was.\<close>

definition rmw_effect ::
    "('s, 'r) repo \<Rightarrow> ('s \<Rightarrow> string \<Rightarrow> 'r option) \<Rightarrow> ('r \<Rightarrow> 'r) \<Rightarrow> string \<Rightarrow> 'a result \<Rightarrow>
     ('r \<Rightarrow> 'a result + ('r \<Rightarrow> 'r) \<times> 'a) \<Rightarrow> 'a \<Rightarrow> 's \<Rightarrow> bool" where
  "rmw_effect repo rows bump u absent decide a s' \<longleftrightarrow>
     (\<exists>s0. rows s0 u = None \<and> findOne repo u s0 = (Inr None, s') \<and> absent = Inr a) \<or>
     (\<exists>s0 r. rows s0 u = Some r \<and> findOne repo u s0 = (Inr (Some r), s') \<and> decide r = Inl (Inr a)) \<or>
     (\<exists>s0 r p. rows s0 u = Some r \<and> decide r = Inr (p, a) \<and> rows s' = (rows s0)(u \<mapsto> bump (p r)))"

text \<open>An operation on the row \<open>u\<close>: what it does with the row it reads is \<open>decide\<close> - end with a
  result, or write a patch and then answer - and \<open>on_fail\<close> says, with the attempts left, whether
  a failed write ends it.\<close>

locale rmw_loop =
  fixes repo :: "('s, 'r) repo"
    and u :: string
    and ver :: "'r \<Rightarrow> nat"
    and absent :: "'a result"
    and decide :: "'r \<Rightarrow> 'a result + ('r \<Rightarrow> 'r) \<times> 'a"
    and on_fail :: "nat \<Rightarrow> js_error \<Rightarrow> js_error option"
    and run :: "nat \<Rightarrow> 's \<Rightarrow> 'a result \<times> 's"
  assumes run_0: "\<exists>e. run 0 s = (Inl e, s)"
    and run_Suc: "run (Suc n) s =
      (case findOne repo u s of
         (Inl e, s1) \<Rightarrow> (Inl e, s1)
       | (Inr None, s1) \<Rightarrow> (absent, s1)
       | (Inr (Some r), s1) \<Rightarrow>
           (case decide r of
              Inl res \<Rightarrow> (res, s1)
            | Inr (p, a) \<Rightarrow>
                (case update repo u (ver r) p s1 of
                   (Inr r', s2) \<Rightarrow> (Inr a, s2)
                 | (Inl e, s2) \<Rightarrow> (case on_fail n e of Some e' \<Rightarrow> (Inl e', s2) | None \<Rightarrow> run n s2))))"
begin

lemma run_atomic:
  assumes "optimistic_repo rows ver bump repo" "run n s = (Inr a, s')"
  shows "rmw_effect repo rows bump u absent decide a s'"
  using assms(2)
proof (induction n arbitrary: s)
  case 0
  then show ?case using run_0 [of s] by auto
next
  case (Suc n)
  obtain x s1 where find: "findOne repo u s = (x, s1)"
    by (cases "findOne repo u s")
  consider (gone) "x = Inr None" | (row) r where "x = Inr (Some r)"
    using Suc.prems find by (cases x; cases "projr x") (auto simp: run_Suc)
  then show ?case
  proof cases
    case gone
    moreover from gone have "rows s u = None"
      using optimistic_repo_find [OF assms(1)] find by metis
    ultimately show ?thesis
      using Suc.prems find by (auto simp: run_Suc rmw_effect_def)
  next
    case (row r)
    have read: "rows s u = Some r"
      using optimistic_repo_find [OF assms(1)] find row by metis
    show ?thesis
    proof (cases "decide r")
      case (Inl res)
      then show ?thesis
        using Suc.prems find row read by (auto simp: run_Suc rmw_effect_def)
    next
      case (Inr pa)
      obtain p b where pa: "pa = (p, b)" by (cases pa)
      obtain y s2 where upd: "update repo u (ver r) p s1 = (y, s2)"
        by (cases "update repo u (ver r) p s1")
      show ?thesis
      proof (cases y)
        case (Inl e)
        then have "run n s2 = (Inr a, s')"
          using Suc.prems find row \<open>decide r = Inr pa\<close> pa upd by (auto simp: run_Suc split: option.splits)
        then show ?thesis by (rule Suc.IH)
      next
        case (Inr r')
        then have eq: "b = a" "s2 = s'"
          using Suc.prems find row \<open>decide r = Inr pa\<close> pa upd by (auto simp: run_Suc)
        have "rows s1 u = Some r \<and> rows s2 = (rows s1)(u \<mapsto> bump (p r))"
          using update_of_read [OF assms(1)] find row upd Inr by blast
        then show ?thesis
          using \<open>decide r = Inr pa\<close> pa eq unfolding rmw_effect_def by blast
      qed
    qed
  qed
qed

end

text \<open>A store in memory that behaves as \<open>optimistic_repo\<close> says, for evaluating the operations on
  concrete rows.\<close>

definition mem_repo :: "('r \<Rightarrow> nat) \<Rightarrow> ('r \<Rightarrow> 'r) \<Rightarrow> (string \<Rightarrow> 'r option, 'r) repo" where
  "mem_repo ver bump =
     \<lparr>findOne = (\<lambda>u s. (Inr (s u), s)),
      update = (\<lambda>u v p s. (case s u of
         None \<Rightarrow> (Inl (ApiError 404 ''Not found''), s)
       | Some r \<Rightarrow> if ver r = v then (Inr (bump (p r)), s(u \<mapsto> bump (p r)))
                   else (Inl (ApiError 409 ''Invalid version''), s)))\<rparr>"

lemma mem_repo_absent: "findOne (mem_repo ver bump) u s = (Inr None, s') \<Longrightarrow> s' u = None"
  by (auto simp: mem_repo_def)

lemma mem_repo_optimistic: "optimistic_repo (\<lambda>s. s) ver bump (mem_repo ver bump)"
  by (auto simp: optimistic_repo_def others_wrote_def mem_repo_def split: option.splits if_splits)

end
