(* ===== verification/Sender_Lists.thy ===== *)
theory Sender_Lists
  imports Mime_Headers Addresses Versioned_Store
begin

text \<open>
  A mailbox's blocked and safe senders (\<^verbatim>\<open>src/src/util/SenderListUtils.ts\<close>): the canonical form of
  an entry, the validation of a list a client wrote, matching, and the change of one entry
  under optimistic locking.

  The locale \<open>canonical_parser\<close> is the contract the list validation relies on: the parser
  returns a fixed point of itself. Its lemmas, that a validated list is canonical and that
  validating it again changes nothing, are used for the address, domain and entry parsers.
\<close>

section \<open>Entries\<close>

definition MAX_SENDER_LIST_ENTRIES :: nat where "MAX_SENDER_LIST_ENTRIES = 1000"
definition MAX_SENDER_ENTRY_LENGTH :: nat where "MAX_SENDER_ENTRY_LENGTH = 254"
definition MAX_FILTER_SENDER_ENTRIES :: nat where "MAX_FILTER_SENDER_ENTRIES = 100"

definition is_domain_alnum :: "char \<Rightarrow> bool" where
  "is_domain_alnum c \<longleftrightarrow>
     (let n = (of_char c :: nat) in (97 \<le> n \<and> n \<le> 122) \<or> (48 \<le> n \<and> n \<le> 57))"

text \<open>\<^verbatim>\<open>[a-z0-9](?:[a-z0-9-]{0,61}[a-z0-9])?\<close>\<close>

definition is_domain_label :: "string \<Rightarrow> bool" where
  "is_domain_label l \<longleftrightarrow>
     l \<noteq> [] \<and> length l \<le> 63 \<and> is_domain_alnum (hd l) \<and> is_domain_alnum (last l) \<and>
     list_all (\<lambda>c. is_domain_alnum c \<or> c = CHR ''-'') l"

definition DOMAIN_PATTERN :: "string \<Rightarrow> bool" where
  "DOMAIN_PATTERN s \<longleftrightarrow>
     1 \<le> length s \<and> length s \<le> 253 \<and>
     (let labels = js_split (CHR ''.'') s in length labels \<ge> 2 \<and> list_all is_domain_label labels)"

definition parseSenderDomain :: "js_value \<Rightarrow> string option" where
  "parseSenderDomain value =
     (case value of
        JStr s \<Rightarrow>
          let trimmed = js_lower (js_trim s);
              domain = (if prefix ''@'' trimmed then drop 1 trimmed else trimmed)
          in if length domain \<le> MAX_SENDER_ENTRY_LENGTH \<and> DOMAIN_PATTERN domain then Some domain else None
      | _ \<Rightarrow> None)"

definition parseSenderAddress :: "js_value \<Rightarrow> string option" where
  "parseSenderAddress value =
     (case value of
        JStr s \<Rightarrow>
          let address = js_lower (js_trim s)
          in if length address \<le> MAX_SENDER_ENTRY_LENGTH \<and> isPlainAddress address then Some address else None
      | _ \<Rightarrow> None)"

definition parseSenderEntry :: "js_value \<Rightarrow> string option" where
  "parseSenderEntry value =
     (case value of
        JStr s \<Rightarrow>
          let trimmed = js_trim s
          in if prefix ''@'' trimmed \<or> CHR ''@'' \<notin> set trimmed
             then (case parseSenderDomain (JStr trimmed) of None \<Rightarrow> None | Some domain \<Rightarrow> Some (''@'' @ domain))
             else parseSenderAddress (JStr trimmed)
      | _ \<Rightarrow> None)"

definition senderDomainOf :: "string option \<Rightarrow> string option" where
  "senderDomainOf address =
     (case address of
        None \<Rightarrow> None
      | Some a \<Rightarrow>
          (case js_last_index_of (CHR ''@'') a of
             None \<Rightarrow> None
           | Some at \<Rightarrow> if Suc at < length a then Some (js_lower (drop (Suc at) a)) else None))"

definition senderEntryMatches :: "string \<Rightarrow> string \<Rightarrow> bool" where
  "senderEntryMatches entry address =
     (let lower = js_lower (js_trim address)
      in if prefix ''@'' entry then senderDomainOf (Some lower) = Some (js_lower (drop 1 entry))
         else lower = js_lower entry)"

text \<open>The list may be \<^verbatim>\<open>null\<close> or \<^verbatim>\<open>undefined\<close> (\<^const>\<open>None\<close>), as may an address.\<close>

definition senderListMatches :: "string list option \<Rightarrow> string option list \<Rightarrow> bool" where
  "senderListMatches list addresses =
     (let candidates = List.map_filter (\<lambda>a. case a of None \<Rightarrow> None | Some s \<Rightarrow> if js_trim s \<noteq> [] then Some s else None) addresses
      in list_ex (\<lambda>entry. list_ex (senderEntryMatches entry) candidates) (nullish list))"

section \<open>Validating a list\<close>

definition quoted :: "string \<Rightarrow> string" where
  "quoted s = [CHR 0x27] @ s @ [CHR 0x27]"

text \<open>The loop over the raw values both validations share: parse each, refuse the list at the
  first that does not parse, collect the rest in a set.\<close>

fun collect_entries :: "(js_value \<Rightarrow> string option) \<Rightarrow> string \<Rightarrow> string list \<Rightarrow> js_value list \<Rightarrow> string list result" where
  "collect_entries parse refusal entries [] = Inr entries"
| "collect_entries parse refusal entries (raw # raws) =
     (case parse raw of
        None \<Rightarrow> Inl (ApiError 400 refusal)
      | Some entry \<Rightarrow> collect_entries parse refusal (set_add entries entry) raws)"

definition normalizeSenderList :: "js_value \<Rightarrow> string \<Rightarrow> string list result" where
  "normalizeSenderList value field =
     (case value of
        JArr raws \<Rightarrow>
          if length raws > MAX_SENDER_LIST_ENTRIES * 4
          then Inl (ApiError 400 (quoted field @ '' holds more than 1000 entries.''))
          else rbind
            (collect_entries parseSenderEntry
              (quoted field @ '' entries must each be an address (user@example.com) or a domain (@example.com) of at most 254 characters.'')
              [] raws)
            (\<lambda>entries. if length entries > MAX_SENDER_LIST_ENTRIES
                       then Inl (ApiError 400 (quoted field @ '' holds more than 1000 entries.''))
                       else Inr entries)
      | _ \<Rightarrow> Inl (ApiError 400 (quoted field @ '' must be an array of addresses and domains.'')))"

datatype sender_kind = Address_kind | Domain_kind

definition parse_kind :: "sender_kind \<Rightarrow> js_value \<Rightarrow> string option" where
  "parse_kind kind = (case kind of Address_kind \<Rightarrow> parseSenderAddress | Domain_kind \<Rightarrow> parseSenderDomain)"

definition normalizeFilterSenderList :: "js_value \<Rightarrow> string \<Rightarrow> sender_kind \<Rightarrow> string list result" where
  "normalizeFilterSenderList value field kind =
     (let name = quoted (''conditions.'' @ field)
      in case value of
        JArr raws \<Rightarrow>
          if length raws > MAX_FILTER_SENDER_ENTRIES * 4
          then Inl (ApiError 400 (name @ '' holds more than 100 entries.''))
          else rbind
            (collect_entries (parse_kind kind)
              (name @ (case kind of
                 Address_kind \<Rightarrow> '' entries must each be a plain address (user@example.com) of at most 254 characters.''
               | Domain_kind \<Rightarrow> '' entries must each be a domain (example.com) of at most 254 characters.''))
              [] raws)
            (\<lambda>entries. if length entries > MAX_FILTER_SENDER_ENTRIES
                       then Inl (ApiError 400 (name @ '' holds more than 100 entries.''))
                       else Inr entries)
      | _ \<Rightarrow> Inl (ApiError 400 (name @ '' must be an array of '' @
               (case kind of Address_kind \<Rightarrow> ''addresses.'' | Domain_kind \<Rightarrow> ''domains.''))))"

section \<open>Changing one entry\<close>

datatype sender_target = blockedSenders_target | safeSenders_target

record SenderLists =
  sl_blocked :: "string list option"
  sl_safe :: "string list option"

record SenderListsChange =
  slc_blockedSenders :: "string list"
  slc_safeSenders :: "string list"
  slc_changed :: bool

definition target_name :: "sender_target \<Rightarrow> string" where
  "target_name t = (case t of blockedSenders_target \<Rightarrow> ''blockedSenders'' | safeSenders_target \<Rightarrow> ''safeSenders'')"

text \<open>\<^verbatim>\<open>targetList.splice(targetList.indexOf(entry), 1)\<close> is \<^const>\<open>remove1\<close>.\<close>

definition moveSenderEntry :: "SenderLists \<Rightarrow> sender_target \<Rightarrow> string \<Rightarrow> bool \<Rightarrow> SenderListsChange result" where
  "moveSenderEntry sl target entry add =
     (let (targetList, otherList) =
            (case target of
               blockedSenders_target \<Rightarrow> (nullish (sl_blocked sl), nullish (sl_safe sl))
             | safeSenders_target \<Rightarrow> (nullish (sl_safe sl), nullish (sl_blocked sl)));
          answer = (\<lambda>t oth changed. Inr (case target of
             blockedSenders_target \<Rightarrow> \<lparr>slc_blockedSenders = t, slc_safeSenders = oth, slc_changed = changed\<rparr>
           | safeSenders_target \<Rightarrow> \<lparr>slc_blockedSenders = oth, slc_safeSenders = t, slc_changed = changed\<rparr>))
      in if add then
           (if entry \<notin> set targetList \<and> length targetList \<ge> MAX_SENDER_LIST_ENTRIES
            then Inl (ApiError 400 (quoted (target_name target) @ '' already holds 1000 entries.''))
            else
              let added = (entry \<notin> set targetList);
                  targetList' = (if added then targetList @ [entry] else targetList);
                  moved = (entry \<in> set otherList);
                  otherList' = (if moved then filter (\<lambda>e. e \<noteq> entry) otherList else otherList)
              in answer targetList' otherList' (added \<or> moved))
         else if entry \<in> set targetList then answer (remove1 entry targetList) otherList True
         else answer targetList otherList False)"

record SenderListVerdict =
  blocked :: bool
  safe :: bool

definition evaluateSenderLists :: "SenderLists \<Rightarrow> string option \<Rightarrow> string option \<Rightarrow> SenderListVerdict" where
  "evaluateSenderLists sl fromAddress envelopeFrom =
     \<lparr>blocked = senderListMatches (sl_blocked sl) [fromAddress, envelopeFrom],
      safe = senderListMatches (sl_safe sl) [fromAddress]\<rparr>"

text \<open>The mailbox row as the sender lists see it.\<close>

record mailbox_lists = SenderLists +
  ml_version :: nat

definition SENDER_LIST_MAX_ATTEMPTS :: nat where "SENDER_LIST_MAX_ATTEMPTS = 5"

definition is_conflict :: "js_error \<Rightarrow> bool" where
  "is_conflict e = (case e of ApiError status _ \<Rightarrow> status = 409 | _ \<Rightarrow> False)"

definition set_lists :: "SenderListsChange \<Rightarrow> mailbox_lists \<Rightarrow> mailbox_lists" where
  "set_lists c m = m\<lparr>sl_blocked := Some (slc_blockedSenders c), sl_safe := Some (slc_safeSenders c)\<rparr>"

text \<open>The attempts of \<^verbatim>\<open>changeMailboxSenderList()\<close>, the number left as the first argument.\<close>

fun change_attempts ::
    "('s, mailbox_lists) repo \<Rightarrow> string \<Rightarrow> sender_target \<Rightarrow> string \<Rightarrow> bool \<Rightarrow> nat \<Rightarrow> 's \<Rightarrow>
     SenderListsChange option result \<times> 's" where
  "change_attempts repo u target entry add 0 s = (Inl (OtherError ''undefined''), s)"
| "change_attempts repo u target entry add (Suc n) s =
     (case findOne repo u s of
        (Inl e, s1) \<Rightarrow> (Inl e, s1)
      | (Inr None, s1) \<Rightarrow> (Inr None, s1)
      | (Inr (Some existing), s1) \<Rightarrow>
          (case moveSenderEntry (SenderLists.truncate existing) target entry add of
             Inl e \<Rightarrow> (Inl e, s1)
           | Inr change \<Rightarrow>
               if \<not> slc_changed change then (Inr (Some change), s1)
               else (case update repo u (ml_version existing) (set_lists change) s1 of
                       (Inr _, s2) \<Rightarrow> (Inr (Some change), s2)
                     | (Inl e, s2) \<Rightarrow>
                         if \<not> is_conflict e then (Inl e, s2)
                         else if n = 0
                         then (Inl (ApiError 409 ''The mailbox kept changing while its sender list was being updated. Try again.''), s2)
                         else change_attempts repo u target entry add n s2)))"

definition changeMailboxSenderList ::
    "('s, mailbox_lists) repo \<Rightarrow> string \<Rightarrow> sender_target \<Rightarrow> string \<Rightarrow> bool \<Rightarrow> 's \<Rightarrow>
     SenderListsChange option result \<times> 's" where
  "changeMailboxSenderList repo mailboxUid target entry add s =
     change_attempts repo mailboxUid target entry add SENDER_LIST_MAX_ATTEMPTS s"

section \<open>Canonical entries\<close>

locale canonical_parser =
  fixes parse :: "js_value \<Rightarrow> string option"
  assumes canonical: "parse v = Some c \<Longrightarrow> parse (JStr c) = Some c"
begin

lemma collect_entries_eq:
  "collect_entries parse refusal acc raws = Inr es \<Longrightarrow>
   es = foldl set_add acc (map (the \<circ> parse) raws) \<and> (\<forall>v\<in>set raws. parse v \<noteq> None)"
  by (induction raws arbitrary: acc) (auto split: option.splits)

lemma collect_entries_canonical:
  assumes "collect_entries parse refusal [] raws = Inr es"
  shows "distinct es" and "e \<in> set es \<Longrightarrow> parse (JStr e) = Some e"
proof -
  have es: "es = foldl set_add [] (map (the \<circ> parse) raws)" "\<forall>v\<in>set raws. parse v \<noteq> None"
    using collect_entries_eq [OF assms] by auto
  show "distinct es"
    by (simp add: es(1))
  assume "e \<in> set es"
  then obtain v where "v \<in> set raws" "e = the (parse v)"
    by (auto simp: es(1))
  then show "parse (JStr e) = Some e"
    using es(2) canonical [of v e] by auto
qed

lemma collect_canonical_list:
  "\<forall>e\<in>set es. parse (JStr e) = Some e \<Longrightarrow>
   collect_entries parse refusal acc (map JStr es) = Inr (foldl set_add acc es)"
  by (induction es arbitrary: acc) auto

lemma collect_entries_idem:
  assumes "collect_entries parse refusal [] raws = Inr es"
  shows "collect_entries parse refusal [] (map JStr es) = Inr es"
  using collect_canonical_list [of es refusal "[]"] collect_entries_canonical [OF assms]
  by (simp add: foldl_set_add_distinct)

end

lemma domain_label_chars:
  "is_domain_label l \<Longrightarrow> c \<in> set l \<Longrightarrow> is_domain_alnum c \<or> c = CHR ''-''"
  by (auto simp: is_domain_label_def list_all_iff)

lemma domain_chars:
  assumes "DOMAIN_PATTERN d" "c \<in> set d"
  shows "is_domain_alnum c \<or> c = CHR ''-'' \<or> c = CHR ''.''"
  using js_split_set [OF assms(2), of "CHR ''.''"] assms(1) domain_label_chars
  by (auto simp: DOMAIN_PATTERN_def Let_def list_all_iff)

lemma domain_char_props:
  "is_domain_alnum c \<or> c = CHR ''-'' \<or> c = CHR ''.'' \<Longrightarrow>
   \<not> js_is_ws c \<and> js_lower_char c = c \<and> c \<noteq> CHR ''@''"
  by (auto simp: is_domain_alnum_def js_is_ws_def js_lower_char_def Let_def)

lemma domain_pattern_fixed:
  assumes "DOMAIN_PATTERN d"
  shows "js_lower d = d" "js_trim d = d" "CHR ''@'' \<notin> set d" "d \<noteq> []"
proof -
  have chars: "\<forall>c\<in>set d. \<not> js_is_ws c \<and> js_lower_char c = c \<and> c \<noteq> CHR ''@''"
    using domain_chars [OF assms] domain_char_props by blast
  show "d \<noteq> []" using assms by (auto simp: DOMAIN_PATTERN_def)
  show "js_lower d = d" using chars by (simp add: js_lower_def map_idI)
  show "js_trim d = d" using chars by (intro js_trim_fixed) auto
  show "CHR ''@'' \<notin> set d" using chars by auto
qed

lemma parseSenderDomain_Some:
  "parseSenderDomain v = Some d \<Longrightarrow> DOMAIN_PATTERN d \<and> length d \<le> MAX_SENDER_ENTRY_LENGTH"
  by (auto simp: parseSenderDomain_def Let_def split: js_value.splits if_splits)

lemma parseSenderDomain_of_domain:
  assumes "DOMAIN_PATTERN d" "length d \<le> MAX_SENDER_ENTRY_LENGTH"
  shows "parseSenderDomain (JStr d) = Some d" "parseSenderDomain (JStr (''@'' @ d)) = Some d"
proof -
  note fixed = domain_pattern_fixed [OF assms(1)]
  have "\<not> prefix ''@'' d"
    using fixed(3,4) by (cases d) auto
  then show "parseSenderDomain (JStr d) = Some d"
    using fixed assms by (simp add: parseSenderDomain_def)
  have "\<not> js_is_ws (CHR ''@'')"
    by code_simp
  then have "js_trim (''@'' @ d) = ''@'' @ d"
    using fixed js_trim_last [of d] by (intro js_trim_fixed) auto
  moreover have "js_lower (''@'' @ d) = ''@'' @ d"
    using fixed(1) by (simp add: js_lower_def js_lower_char_def)
  ultimately show "parseSenderDomain (JStr (''@'' @ d)) = Some d"
    using assms by (simp add: parseSenderDomain_def)
qed

lemma parseSenderAddress_Some:
  "parseSenderAddress v = Some a \<Longrightarrow>
   isPlainAddress a \<and> length a \<le> MAX_SENDER_ENTRY_LENGTH \<and> js_lower a = a \<and> js_trim a = a"
  by (auto simp: parseSenderAddress_def Let_def js_trim_lower split: js_value.splits if_splits)

lemma isPlainAddress_parts:
  assumes "isPlainAddress a"
  obtains l d where "a = l @ CHR ''@'' # d" "l \<noteq> []" "d \<noteq> []" "CHR ''@'' \<notin> set l" "CHR ''@'' \<notin> set d"
proof -
  obtain l d where "js_split (CHR ''@'') a = [l, d]" "l \<noteq> []" "d \<noteq> []"
    using assms by (auto simp: isPlainAddress_def PLAIN_ADDRESS_PATTERN_def split: list.splits)
  then show thesis
    using that by (auto simp: js_split_two)
qed

interpretation sender_address: canonical_parser parseSenderAddress
proof
  fix v c
  assume "parseSenderAddress v = Some c"
  from parseSenderAddress_Some [OF this] show "parseSenderAddress (JStr c) = Some c"
    by (simp add: parseSenderAddress_def)
qed

interpretation sender_domain: canonical_parser parseSenderDomain
  by unfold_locales (auto dest: parseSenderDomain_Some intro: parseSenderDomain_of_domain)

lemma parseSenderEntry_cases:
  assumes "parseSenderEntry v = Some c"
  obtains (domain) d where "c = ''@'' @ d" "DOMAIN_PATTERN d" "length d \<le> MAX_SENDER_ENTRY_LENGTH"
  | (address) "isPlainAddress c" "length c \<le> MAX_SENDER_ENTRY_LENGTH" "js_lower c = c" "js_trim c = c"
  using assms that
  by (auto simp: parseSenderEntry_def Let_def split: js_value.splits if_splits option.splits
      dest!: parseSenderDomain_Some parseSenderAddress_Some)

interpretation sender_entry: canonical_parser parseSenderEntry
proof
  fix v c
  assume "parseSenderEntry v = Some c"
  then show "parseSenderEntry (JStr c) = Some c"
  proof (cases rule: parseSenderEntry_cases)
    case (domain d)
    have "parseSenderDomain (JStr c) = Some d" "\<not> js_is_ws (CHR ''@'')"
      using domain parseSenderDomain_of_domain by (simp, code_simp)
    then have "js_trim c = c"
      using domain(1) domain_pattern_fixed(2,4) [OF domain(2)] js_trim_last [of d] by (intro js_trim_fixed) auto
    then show ?thesis
      using domain(1) \<open>parseSenderDomain (JStr c) = Some d\<close> by (simp add: parseSenderEntry_def)
  next
    case address
    obtain l d where c: "c = l @ CHR ''@'' # d" "l \<noteq> []" "CHR ''@'' \<notin> set l"
      using address(1) by (elim isPlainAddress_parts)
    then have "\<not> prefix ''@'' c" "CHR ''@'' \<in> set c"
      by (auto simp: neq_Nil_conv)
    then show ?thesis
      using address by (simp add: parseSenderEntry_def parseSenderAddress_def)
  qed
qed

section \<open>Matching\<close>

lemma js_last_index_of_append:
  "c \<notin> set d \<Longrightarrow> js_last_index_of c (l @ c # d) = Some (length l)"
  using js_index_of_append [of c "rev d" "rev l"] by (simp add: js_last_index_of_def)

lemma senderDomainOf_at:
  "CHR ''@'' \<notin> set d \<Longrightarrow> d \<noteq> [] \<Longrightarrow> senderDomainOf (Some (l @ CHR ''@'' # d)) = Some (js_lower d)"
  by (simp add: senderDomainOf_def js_last_index_of_append)

text \<open>A canonical entry names an address exactly when it is the address, or the @-domain of it.\<close>

lemma canonical_entry_matches:
  assumes "parseSenderEntry (JStr e) = Some e"
  shows "senderEntryMatches e a \<longleftrightarrow>
    e = js_lower (js_trim a) \<or> (\<exists>d. senderDomainOf (Some (js_lower (js_trim a))) = Some d \<and> e = ''@'' @ d)"
  using assms
proof (cases rule: parseSenderEntry_cases)
  case (domain d)
  note fixed = domain_pattern_fixed [OF domain(2)]
  have "senderDomainOf (Some e) = Some d"
    using senderDomainOf_at [of d "[]"] fixed by (simp add: domain(1))
  then show ?thesis
    using fixed(1) by (auto simp: senderEntryMatches_def domain(1))
next
  case address
  obtain l d where e: "e = l @ CHR ''@'' # d" "l \<noteq> []" "CHR ''@'' \<notin> set l"
    using address(1) by (elim isPlainAddress_parts)
  then have no: "\<not> prefix ''@'' e"
    by (auto simp: neq_Nil_conv)
  then have "\<And>d. e \<noteq> ''@'' @ d"
    by auto
  with no address(3) show ?thesis
    by (auto simp: senderEntryMatches_def)
qed

text \<open>The lists of a mailbox as an abstract pair of sets of entries.\<close>

definition named_by :: "string set \<Rightarrow> string option \<Rightarrow> bool" where
  "named_by entries address =
     (case address of
        None \<Rightarrow> False
      | Some a \<Rightarrow> js_trim a \<noteq> [] \<and>
          (js_lower (js_trim a) \<in> entries \<or>
           (\<exists>d. senderDomainOf (Some (js_lower (js_trim a))) = Some d \<and> ''@'' @ d \<in> entries)))"

lemma named_by_None [simp]: "\<not> named_by entries None"
  by (simp add: named_by_def)

definition canonical_list :: "string list option \<Rightarrow> bool" where
  "canonical_list l \<longleftrightarrow> (\<forall>e\<in>set (nullish l). parseSenderEntry (JStr e) = Some e)"

lemma senderListMatches_iff:
  assumes "canonical_list l"
  shows "senderListMatches l addresses \<longleftrightarrow> (\<exists>a\<in>set addresses. named_by (set (nullish l)) a)"
proof -
  have "senderEntryMatches e a \<longleftrightarrow>
      e = js_lower (js_trim a) \<or> (\<exists>d. senderDomainOf (Some (js_lower (js_trim a))) = Some d \<and> e = ''@'' @ d)"
    if "e \<in> set (nullish l)" for e a
    using assms that canonical_entry_matches by (simp add: canonical_list_def)
  then have "(\<exists>e\<in>set (nullish l). senderEntryMatches e a) \<and> js_trim a \<noteq> [] \<longleftrightarrow> named_by (set (nullish l)) (Some a)" for a
    unfolding named_by_def by auto
  moreover have "set (List.map_filter (\<lambda>a. case a of None \<Rightarrow> None | Some s \<Rightarrow> if js_trim s \<noteq> [] then Some s else None) addresses) =
      {a. Some a \<in> set addresses \<and> js_trim a \<noteq> []}"
    by (force simp: set_map_filter_iff split: option.splits if_splits)
  then have "senderListMatches l addresses \<longleftrightarrow>
      (\<exists>a. Some a \<in> set addresses \<and> js_trim a \<noteq> [] \<and> (\<exists>e\<in>set (nullish l). senderEntryMatches e a))"
    by (simp add: senderListMatches_def list_ex_iff Let_def) blast
  moreover have "(\<exists>a\<in>set addresses. named_by E a) \<longleftrightarrow> (\<exists>a. Some a \<in> set addresses \<and> named_by E (Some a))" for E
    by (metis named_by_None not_None_eq)
  ultimately show ?thesis
    by blast
qed

section \<open>The change under optimistic locking\<close>

text \<open>What one attempt does with the row it read.\<close>

definition change_decide ::
    "sender_target \<Rightarrow> string \<Rightarrow> bool \<Rightarrow> mailbox_lists \<Rightarrow>
     SenderListsChange option result + (mailbox_lists \<Rightarrow> mailbox_lists) \<times> SenderListsChange option" where
  "change_decide target entry add m =
     (case moveSenderEntry (SenderLists.truncate m) target entry add of
        Inl e \<Rightarrow> Inl (Inl e)
      | Inr change \<Rightarrow> if \<not> slc_changed change then Inl (Inr (Some change)) else Inr (set_lists change, Some change))"

lemma change_decide_iffs:
  "change_decide target entry add m = Inl (Inr (Some c)) \<longleftrightarrow>
     moveSenderEntry (SenderLists.truncate m) target entry add = Inr c \<and> \<not> slc_changed c"
  "change_decide target entry add m = Inr (p, Some c) \<longleftrightarrow>
     moveSenderEntry (SenderLists.truncate m) target entry add = Inr c \<and> slc_changed c \<and> p = set_lists c"
  by (auto simp: change_decide_def split: sum.splits if_splits)

definition change_on_fail :: "nat \<Rightarrow> js_error \<Rightarrow> js_error option" where
  "change_on_fail n e =
     (if \<not> is_conflict e then Some e
      else if n = 0 then Some (ApiError 409 ''The mailbox kept changing while its sender list was being updated. Try again.'')
      else None)"

interpretation sender_change: rmw_loop repo u ml_version "Inr None" "change_decide target entry add" change_on_fail
    "change_attempts repo u target entry add"
  for repo u target entry add
  by unfold_locales
    (auto simp: change_decide_def change_on_fail_def split: prod.splits sum.splits option.splits)

lemma moveSenderEntry_truncate [simp]:
  "sl_blocked (SenderLists.truncate m) = sl_blocked m" "sl_safe (SenderLists.truncate m) = sl_safe m"
  by (simp_all add: SenderLists.truncate_def)

section \<open>Properties\<close>

text \<open>A sender list that validates is canonical: no entry twice, at most 1000 of them, every
  entry a fixed point of the entry parser, and validating the stored list again returns it
  unchanged.\<close>

theorem normalizeSenderList_canonical:
  assumes "normalizeSenderList v field = Inr es"
  shows "distinct es \<and> length es \<le> MAX_SENDER_LIST_ENTRIES \<and> canonical_list (Some es) \<and>
    normalizeSenderList (JArr (map JStr es)) field = Inr es"
proof -
  obtain raws where "v = JArr raws"
    using assms by (auto simp: normalizeSenderList_def split: js_value.splits)
  then obtain refusal where collect: "collect_entries parseSenderEntry refusal [] raws = Inr es"
    and len: "length es \<le> MAX_SENDER_LIST_ENTRIES"
    using assms by (auto simp: normalizeSenderList_def rbind_Inr_iff split: if_splits)
  note canonical = sender_entry.collect_entries_canonical [OF collect]
  have "collect_entries parseSenderEntry r [] (map JStr es) = Inr es" for r
    using sender_entry.collect_canonical_list [of es r "[]"] canonical by (simp add: foldl_set_add_distinct)
  then show ?thesis
    using canonical len by (simp add: normalizeSenderList_def canonical_list_def)
qed

theorem normalizeSenderList_canonical_witness:
  "normalizeSenderList (JArr [JStr '' Ann@X.com '', JStr ''X.com'', JStr ''@x.com'']) ''safeSenders'' = Inr [''ann@x.com'', ''@x.com''] \<and>
   normalizeSenderList (JArr (map JStr [''ann@x.com'', ''@x.com''])) ''safeSenders'' = Inr [''ann@x.com'', ''@x.com'']"
proof -
  have h: "normalizeSenderList (JArr [JStr '' Ann@X.com '', JStr ''X.com'', JStr ''@x.com'']) ''safeSenders'' = Inr [''ann@x.com'', ''@x.com'']"
    by code_simp
  show ?thesis
    using h normalizeSenderList_canonical [OF h] by blast
qed

text \<open>Adding an entry to one list puts it there and takes it off the other, and nothing else
  moves: an entry is never on both lists afterwards, and two lists that had no entry in
  common have none in common afterwards. A full list refuses a new entry.\<close>

theorem moveSenderEntry_exclusive:
  assumes "moveSenderEntry sl target entry True = Inr c"
    and "(tgt, oth, tgt', oth') =
      (case target of
         blockedSenders_target \<Rightarrow> (nullish (sl_blocked sl), nullish (sl_safe sl), slc_blockedSenders c, slc_safeSenders c)
       | safeSenders_target \<Rightarrow> (nullish (sl_safe sl), nullish (sl_blocked sl), slc_safeSenders c, slc_blockedSenders c))"
  shows "set tgt' = insert entry (set tgt) \<and> set oth' = set oth - {entry} \<and>
    (set tgt \<inter> set oth = {} \<longrightarrow> set tgt' \<inter> set oth' = {}) \<and>
    (distinct tgt \<longrightarrow> distinct tgt') \<and>
    (length tgt \<le> MAX_SENDER_LIST_ENTRIES \<longrightarrow> length tgt' \<le> MAX_SENDER_LIST_ENTRIES) \<and>
    (slc_changed c \<longleftrightarrow> (set tgt' \<noteq> set tgt \<or> set oth' \<noteq> set oth))"
  using assms by (cases target) (auto simp: moveSenderEntry_def Let_def split: if_splits)

theorem moveSenderEntry_exclusive_witness:
  "moveSenderEntry \<lparr>sl_blocked = None, sl_safe = Some [''a@x.com'', ''@y.com'']\<rparr> blockedSenders_target ''@y.com'' True =
     Inr \<lparr>slc_blockedSenders = [''@y.com''], slc_safeSenders = [''a@x.com''], slc_changed = True\<rparr> \<and>
   set [''@y.com''] \<inter> set [''a@x.com''] = {}"
proof -
  have h: "moveSenderEntry \<lparr>sl_blocked = None, sl_safe = Some [''a@x.com'', ''@y.com'']\<rparr> blockedSenders_target ''@y.com'' True =
     Inr \<lparr>slc_blockedSenders = [''@y.com''], slc_safeSenders = [''a@x.com''], slc_changed = True\<rparr>"
    by code_simp
  show ?thesis
    using h moveSenderEntry_exclusive [OF h, of "[]" "[''a@x.com'', ''@y.com'']" "[''@y.com'']" "[''a@x.com'']"] by simp
qed

text \<open>What the lists say about a message. With canonical lists a message is blocked exactly
  when its \<^verbatim>\<open>From\<close> address or its envelope sender is on the blocked list, itself or by its exact
  domain, and safe exactly when its \<^verbatim>\<open>From\<close> address is on the safe list - the envelope sender
  has no part in it.\<close>

theorem evaluateSenderLists_spec:
  assumes "canonical_list (sl_blocked sl)" "canonical_list (sl_safe sl)"
  shows "(blocked (evaluateSenderLists sl from env) \<longleftrightarrow>
      named_by (set (nullish (sl_blocked sl))) from \<or> named_by (set (nullish (sl_blocked sl))) env) \<and>
    (safe (evaluateSenderLists sl from env) \<longleftrightarrow> named_by (set (nullish (sl_safe sl))) from)"
  using assms by (simp_all add: evaluateSenderLists_def senderListMatches_iff)

theorem evaluateSenderLists_spec_witness:
  "\<not> safe (evaluateSenderLists \<lparr>sl_blocked = None, sl_safe = Some [''@x.com'']\<rparr> (Some ''a@mail.x.com'') (Some ''b@x.com''))"
proof -
  have h: "canonical_list (Some [''@x.com''])"
    unfolding canonical_list_def by code_simp
  have n: "canonical_list None"
    by (simp add: canonical_list_def)
  have d: "senderDomainOf (Some (js_lower (js_trim ''a@mail.x.com''))) = Some ''mail.x.com''"
    "js_lower (js_trim ''a@mail.x.com'') = ''a@mail.x.com''"
    by code_simp+
  show ?thesis
    using evaluateSenderLists_spec [of "\<lparr>sl_blocked = None, sl_safe = Some [''@x.com'']\<rparr>"] h n d
    by (simp add: named_by_def)
qed

text \<open>C24: a change of one entry is atomic. Whatever other writers do between the read and the
  write of each attempt, when \<^verbatim>\<open>changeMailboxSenderList()\<close> answers with lists that changed, they
  are the outcome of \<^verbatim>\<open>moveSenderEntry()\<close> on the row as it stood at the moment of the write, and
  the write touched that row only; an answer without a change was true of a row that was read.\<close>

theorem changeMailboxSenderList_atomic:
  assumes "optimistic_repo rows ml_version bump repo"
    and "changeMailboxSenderList repo u target entry add s = (Inr (Some c), s')"
  shows "\<exists>s0 m. rows s0 u = Some m \<and> moveSenderEntry (SenderLists.truncate m) target entry add = Inr c \<and>
    (if slc_changed c then rows s' = (rows s0)(u \<mapsto> bump (set_lists c m))
     else findOne repo u s0 = (Inr (Some m), s'))"
proof -
  have "rmw_effect repo rows bump u (Inr None) (change_decide target entry add) (Some c) s'"
    using sender_change.run_atomic [OF assms(1)] assms(2) by (simp add: changeMailboxSenderList_def)
  then show ?thesis
    unfolding rmw_effect_def change_decide_iffs by auto
qed

theorem changeMailboxSenderList_atomic_witness:
  "\<exists>s0 (m :: mailbox_lists). s0 ''m'' = Some m \<and>
     moveSenderEntry (SenderLists.truncate m) safeSenders_target ''@x.com'' True =
       Inr \<lparr>slc_blockedSenders = [], slc_safeSenders = [''@x.com''], slc_changed = True\<rparr>"
proof -
  let ?m = "\<lparr>sl_blocked = None, sl_safe = None, ml_version = 3\<rparr> :: mailbox_lists"
  let ?bump = "\<lambda>m. m\<lparr>ml_version := Suc (ml_version m)\<rparr>"
  let ?repo = "mem_repo ml_version ?bump :: (string \<Rightarrow> mailbox_lists option, mailbox_lists) repo"
  let ?c = "\<lparr>slc_blockedSenders = [], slc_safeSenders = [''@x.com''], slc_changed = True\<rparr>"
  have repo: "optimistic_repo (\<lambda>s. s) ml_version ?bump ?repo"
    by (rule mem_repo_optimistic)
  have "\<exists>s'. changeMailboxSenderList ?repo ''m'' safeSenders_target ''@x.com'' True [''m'' \<mapsto> ?m] = (Inr (Some ?c), s')"
    by (simp add: changeMailboxSenderList_def SENDER_LIST_MAX_ATTEMPTS_def eval_nat_numeral mem_repo_def
        moveSenderEntry_def SenderLists.truncate_def MAX_SENDER_LIST_ENTRIES_def)
  then obtain s' where "changeMailboxSenderList ?repo ''m'' safeSenders_target ''@x.com'' True [''m'' \<mapsto> ?m] = (Inr (Some ?c), s')"
    by blast
  from changeMailboxSenderList_atomic [OF repo this] show ?thesis
    by iprover
qed

end
