(* ===== verification/Mailbox_Quota.thy ===== *)
theory Mailbox_Quota
  imports Versioned_Store
begin

text \<open>
  Charging and refunding a mailbox's quota (\<^verbatim>\<open>src/src/util/MailboxQuotaUtils.ts\<close>), against the
  version-checked repository of \<open>Versioned_Store\<close>. Byte counts are integers; a missing
  \<^verbatim>\<open>quotaBytes\<close> or \<^verbatim>\<open>usedBytes\<close> (\<^const>\<open>None\<close>) counts as 0.
\<close>

record mailbox_quota =
  quotaBytes :: "int option"
  usedBytes :: "int option"
  mq_version :: nat

record MailboxQuotaState =
  qs_quotaBytes :: int
  qs_usedBytes :: int

definition or_zero :: "int option \<Rightarrow> int" where
  "or_zero x = (case x of None \<Rightarrow> 0 | Some n \<Rightarrow> n)"

definition MAX_QUOTA_ATTEMPTS :: nat where "MAX_QUOTA_ATTEMPTS = 5"

definition set_used :: "int \<Rightarrow> mailbox_quota \<Rightarrow> mailbox_quota" where
  "set_used n m = m\<lparr>usedBytes := Some n\<rparr>"

text \<open>The attempts of \<^verbatim>\<open>chargeMailboxQuota()\<close>, the number left as the first argument; the error
  of the last failed write is thrown when none is left.\<close>

fun charge_attempts ::
    "('s, mailbox_quota) repo \<Rightarrow> string \<Rightarrow> int \<Rightarrow> nat \<Rightarrow> 's \<Rightarrow> MailboxQuotaState result \<times> 's" where
  "charge_attempts repo u bytes 0 s = (Inl (OtherError ''undefined''), s)"
| "charge_attempts repo u bytes (Suc n) s =
     (case findOne repo u s of
        (Inl e, s1) \<Rightarrow> (Inl e, s1)
      | (Inr None, s1) \<Rightarrow> (Inl MailboxNotFoundError, s1)
      | (Inr (Some current), s1) \<Rightarrow>
          let quota = or_zero (quotaBytes current); used = or_zero (usedBytes current)
          in if quota > 0 \<and> used + bytes > quota then (Inl (MailboxQuotaExceededError quota used), s1)
             else (case update repo u (mq_version current) (set_used (used + bytes)) s1 of
                     (Inr _, s2) \<Rightarrow> (Inr \<lparr>qs_quotaBytes = quota, qs_usedBytes = used + bytes\<rparr>, s2)
                   | (Inl e, s2) \<Rightarrow> if n = 0 then (Inl e, s2) else charge_attempts repo u bytes n s2))"

definition chargeMailboxQuota ::
    "('s, mailbox_quota) repo \<Rightarrow> string \<Rightarrow> int \<Rightarrow> 's \<Rightarrow> MailboxQuotaState result \<times> 's" where
  "chargeMailboxQuota repo mailboxUid bytes s = charge_attempts repo mailboxUid bytes MAX_QUOTA_ATTEMPTS s"

text \<open>\<^verbatim>\<open>refundMailboxQuota()\<close> never throws: the result is the error handed to \<^verbatim>\<open>onFailure\<close>, if any.\<close>

fun refund_attempts ::
    "('s, mailbox_quota) repo \<Rightarrow> string \<Rightarrow> int \<Rightarrow> nat \<Rightarrow> js_error \<Rightarrow> 's \<Rightarrow> js_error option \<times> 's" where
  "refund_attempts repo u bytes 0 lastError s = (Some lastError, s)"
| "refund_attempts repo u bytes (Suc n) lastError s =
     (case findOne repo u s of
        (Inl e, s1) \<Rightarrow> refund_attempts repo u bytes n e s1
      | (Inr None, s1) \<Rightarrow> (None, s1)
      | (Inr (Some current), s1) \<Rightarrow>
          (case update repo u (mq_version current) (set_used (max 0 (or_zero (usedBytes current) - bytes))) s1 of
             (Inr _, s2) \<Rightarrow> (None, s2)
           | (Inl e, s2) \<Rightarrow> refund_attempts repo u bytes n e s2))"

definition refundMailboxQuota ::
    "('s, mailbox_quota) repo \<Rightarrow> string \<Rightarrow> int \<Rightarrow> 's \<Rightarrow> js_error option \<times> 's" where
  "refundMailboxQuota repo mailboxUid bytes s =
     refund_attempts repo mailboxUid bytes MAX_QUOTA_ATTEMPTS (OtherError ''undefined'') s"

section \<open>The charge as a read-modify-write loop\<close>

definition charge_decide ::
    "int \<Rightarrow> mailbox_quota \<Rightarrow> MailboxQuotaState result + (mailbox_quota \<Rightarrow> mailbox_quota) \<times> MailboxQuotaState" where
  "charge_decide bytes m =
     (let quota = or_zero (quotaBytes m); used = or_zero (usedBytes m)
      in if quota > 0 \<and> used + bytes > quota then Inl (Inl (MailboxQuotaExceededError quota used))
         else Inr (set_used (used + bytes), \<lparr>qs_quotaBytes = quota, qs_usedBytes = used + bytes\<rparr>))"

interpretation quota_charge: rmw_loop repo u mq_version "Inl MailboxNotFoundError" "charge_decide bytes"
    "\<lambda>n e. if n = 0 then Some e else None" "charge_attempts repo u bytes"
  for repo u bytes
  by unfold_locales
    (auto simp: charge_decide_def Let_def split: prod.splits sum.splits option.splits)

lemma charge_decide_Inr:
  "charge_decide bytes m = Inr (p, st) \<longleftrightarrow>
     (or_zero (quotaBytes m) \<le> 0 \<or> or_zero (usedBytes m) + bytes \<le> or_zero (quotaBytes m)) \<and>
     p = set_used (or_zero (usedBytes m) + bytes) \<and>
     st = \<lparr>qs_quotaBytes = or_zero (quotaBytes m), qs_usedBytes = or_zero (usedBytes m) + bytes\<rparr>"
  by (auto simp: charge_decide_def Let_def)

lemma charge_decide_Inl: "charge_decide bytes m \<noteq> Inl (Inr st)"
  by (simp add: charge_decide_def Let_def)

lemma refund_attempts_effect:
  assumes "optimistic_repo rows mq_version bump repo" "refund_attempts repo u bytes n e s = (None, s')"
  shows "(\<exists>s0. rows s0 u = None \<and> findOne repo u s0 = (Inr None, s')) \<or>
    (\<exists>s0 m. rows s0 u = Some m \<and> rows s' = (rows s0)(u \<mapsto> bump (set_used (max 0 (or_zero (usedBytes m) - bytes)) m)))"
  using assms(2)
proof (induction n arbitrary: e s)
  case 0
  then show ?case by simp
next
  case (Suc n)
  obtain x s1 where find: "findOne repo u s = (x, s1)"
    by (cases "findOne repo u s")
  consider (err) err where "x = Inl err" | (gone) "x = Inr None" | (row) m where "x = Inr (Some m)"
    by (metis not_None_eq obj_sumE)
  then show ?case
  proof cases
    case err
    then show ?thesis using Suc find by simp
  next
    case gone
    moreover from gone have "rows s u = None"
      using optimistic_repo_find [OF assms(1)] find by metis
    ultimately show ?thesis
      using Suc.prems find by auto
  next
    case (row m)
    let ?p = "set_used (max 0 (or_zero (usedBytes m) - bytes))"
    obtain y s2 where upd: "update repo u (mq_version m) ?p s1 = (y, s2)"
      by (cases "update repo u (mq_version m) ?p s1")
    show ?thesis
    proof (cases y)
      case (Inl err)
      then show ?thesis using Suc.IH [of err s2] Suc.prems find row upd by simp
    next
      case (Inr r)
      then have "s2 = s'"
        using Suc.prems find row upd by simp
      then show ?thesis
        using update_of_read [OF assms(1)] find row upd Inr by blast
    qed
  qed
qed

section \<open>Properties\<close>

text \<open>C23: a charge is atomic and never exceeds the quota. When \<^verbatim>\<open>chargeMailboxQuota()\<close> answers, the
  bytes were added to the usage the row had at the moment of the write, whatever other
  writers did in between; that row alone changed; and with a positive quota the new usage is
  within it.\<close>

theorem chargeMailboxQuota_atomic:
  assumes "optimistic_repo rows mq_version bump repo"
    and "chargeMailboxQuota repo u bytes s = (Inr st, s')"
  shows "\<exists>s0 m. rows s0 u = Some m \<and>
    qs_usedBytes st = or_zero (usedBytes m) + bytes \<and> qs_quotaBytes st = or_zero (quotaBytes m) \<and>
    rows s' = (rows s0)(u \<mapsto> bump (m\<lparr>usedBytes := Some (or_zero (usedBytes m) + bytes)\<rparr>)) \<and>
    (qs_quotaBytes st > 0 \<longrightarrow> qs_usedBytes st \<le> qs_quotaBytes st)"
proof -
  have "rmw_effect repo rows bump u (Inl MailboxNotFoundError) (charge_decide bytes) st s'"
    using quota_charge.run_atomic [OF assms(1)] assms(2) by (simp add: chargeMailboxQuota_def)
  then obtain s0 m p where "rows s0 u = Some m" "charge_decide bytes m = Inr (p, st)"
      "rows s' = (rows s0)(u \<mapsto> bump (p m))"
    by (auto simp: rmw_effect_def charge_decide_Inl)
  then show ?thesis
    unfolding charge_decide_Inr by (intro exI [of _ s0] exI [of _ m]) (auto simp: set_used_def)
qed

theorem chargeMailboxQuota_atomic_witness:
  "\<exists>s0 m. (s0 :: string \<Rightarrow> mailbox_quota option) ''m'' = Some m \<and> or_zero (usedBytes m) + 30 = 90"
proof -
  let ?bump = "\<lambda>m. m\<lparr>mq_version := Suc (mq_version m)\<rparr>"
  let ?repo = "mem_repo mq_version ?bump :: (string \<Rightarrow> mailbox_quota option, mailbox_quota) repo"
  let ?s = "[''m'' \<mapsto> \<lparr>quotaBytes = Some 100, usedBytes = Some 60, mq_version = 1\<rparr>] :: string \<Rightarrow> mailbox_quota option"
  have repo: "optimistic_repo (\<lambda>s. s) mq_version ?bump ?repo"
    by (rule mem_repo_optimistic)
  have "fst (chargeMailboxQuota ?repo ''m'' 30 ?s) = Inr \<lparr>qs_quotaBytes = 100, qs_usedBytes = 90\<rparr>"
    by (simp add: chargeMailboxQuota_def MAX_QUOTA_ATTEMPTS_def eval_nat_numeral mem_repo_def or_zero_def set_used_def)
  then have "chargeMailboxQuota ?repo ''m'' 30 ?s =
      (Inr \<lparr>qs_quotaBytes = 100, qs_usedBytes = 90\<rparr>, snd (chargeMailboxQuota ?repo ''m'' 30 ?s))"
    by (intro prod_eqI) (simp_all only: fst_conv snd_conv)
  from chargeMailboxQuota_atomic [OF repo this]
  obtain s0 m where "(s0 :: string \<Rightarrow> mailbox_quota option) ''m'' = Some m" "90 = or_zero (usedBytes m) + 30"
    by (elim exE conjE) simp
  then show ?thesis
    by (intro exI [of _ s0] exI [of _ m]) simp
qed

text \<open>A refund that reports no failure either found the mailbox gone or lowered its usage
  atomically by the bytes given, never below zero.\<close>

theorem refundMailboxQuota_atomic:
  assumes "optimistic_repo rows mq_version bump repo"
    and "refundMailboxQuota repo u bytes s = (None, s')"
  shows "(\<exists>s0. rows s0 u = None \<and> findOne repo u s0 = (Inr None, s')) \<or>
    (\<exists>s0 m n. rows s0 u = Some m \<and> n = max 0 (or_zero (usedBytes m) - bytes) \<and> 0 \<le> n \<and>
       rows s' = (rows s0)(u \<mapsto> bump (m\<lparr>usedBytes := Some n\<rparr>)))"
  using refund_attempts_effect [OF assms(1)] assms(2) by (fastforce simp: refundMailboxQuota_def set_used_def)

theorem refundMailboxQuota_atomic_witness:
  "\<exists>s0 m n. (s0 :: string \<Rightarrow> mailbox_quota option) ''m'' = Some m \<and> n = max 0 (or_zero (usedBytes m) - 70) \<and> 0 \<le> n"
proof -
  let ?bump = "\<lambda>m. m\<lparr>mq_version := Suc (mq_version m)\<rparr>"
  let ?repo = "mem_repo mq_version ?bump :: (string \<Rightarrow> mailbox_quota option, mailbox_quota) repo"
  let ?s = "[''m'' \<mapsto> \<lparr>quotaBytes = Some 100, usedBytes = Some 60, mq_version = 1\<rparr>] :: string \<Rightarrow> mailbox_quota option"
  let ?run = "refundMailboxQuota ?repo ''m'' 70 ?s"
  have repo: "optimistic_repo (\<lambda>s. s) mq_version ?bump ?repo"
    by (rule mem_repo_optimistic)
  have "fst ?run = None" and present: "snd ?run ''m'' \<noteq> None"
    by (simp_all add: refundMailboxQuota_def MAX_QUOTA_ATTEMPTS_def eval_nat_numeral mem_repo_def or_zero_def set_used_def)
  then have "?run = (None, snd ?run)"
    by (intro prod_eqI) (simp_all only: fst_conv snd_conv)
  from refundMailboxQuota_atomic [OF repo this] show ?thesis
  proof (elim disjE exE conjE)
    fix s0
    assume "findOne ?repo ''m'' s0 = (Inr None, snd ?run)"
    then have "snd ?run ''m'' = None"
      by (rule mem_repo_absent)
    with present show ?thesis by (rule notE)
  next
    fix s0 :: "string \<Rightarrow> mailbox_quota option" and m n
    assume "s0 ''m'' = Some m" "n = max 0 (or_zero (usedBytes m) - 70)" "0 \<le> n"
    then show ?thesis by (intro exI conjI)
  qed
qed

end
