(* ===== verification/Rule_Engine.thy ===== *)
theory Rule_Engine
  imports Prelude "HOL-Library.Multiset"
begin

text \<open>
  The evaluation convention the inbox rules and the transport rules share: enabled rules in
  ascending sequence, each that matches applies its actions, a matching rule that says so
  stops the evaluation. The locale \<open>rule_engine\<close> takes a loop that follows the convention and
  shows that its outcome is the effects of the rules that applied, in order; the components
  interpret it on their own loops.
\<close>

text \<open>\<^verbatim>\<open>rules.filter((rule) => rule.enabled).sort((a, b) => a.sequence - b.sequence)\<close>: the sort of
  JavaScript is stable, as \<^const>\<open>sort_key\<close> is.\<close>

definition in_order :: "('r \<Rightarrow> bool) \<Rightarrow> ('r \<Rightarrow> int) \<Rightarrow> 'r list \<Rightarrow> 'r list" where
  "in_order enabled sequence rules = sort_key sequence (filter enabled rules)"

text \<open>The rules that apply, given those in order: the ones that fire, up to the first that stops.\<close>

fun applied_rules :: "('r \<Rightarrow> bool) \<Rightarrow> ('r \<Rightarrow> bool) \<Rightarrow> 'r list \<Rightarrow> 'r list" where
  "applied_rules fires stops [] = []"
| "applied_rules fires stops (r # rs) =
     (if \<not> fires r then applied_rules fires stops rs
      else if stops r then [r]
      else r # applied_rules fires stops rs)"

lemma applied_rules_subset: "set (applied_rules fires stops rs) \<subseteq> {r \<in> set rs. fires r}"
  by (induction rs) auto

lemma applied_rules_filter [simp]: "applied_rules fires stops (filter fires rs) = applied_rules fires stops rs"
  by (induction rs) auto

lemma applied_rules_no_stop:
  "\<forall>r\<in>set rs. fires r \<longrightarrow> \<not> stops r \<Longrightarrow> applied_rules fires stops rs = filter fires rs"
  by (induction rs) auto

lemma applied_rules_stop:
  "fires r \<Longrightarrow> stops r \<Longrightarrow> \<forall>q\<in>set ps. fires q \<longrightarrow> \<not> stops q \<Longrightarrow>
   applied_rules fires stops (ps @ r # rs) = filter fires ps @ [r]"
  by (induction ps) auto

text \<open>With distinct sequence numbers the order the rules are stored in does not matter.\<close>

lemma in_order_perm:
  assumes "mset rules = mset rules'" "inj_on sequence {r \<in> set rules. enabled r}"
  shows "in_order enabled sequence rules = in_order enabled sequence rules'"
  unfolding in_order_def
proof (rule properties_for_sort_key)
  let ?xs = "filter enabled rules" and ?ys = "sort_key sequence (filter enabled rules')"
  have "mset ?xs = mset (filter enabled rules')"
    using assms(1) by (simp add: mset_filter)
  then show ms: "mset ?ys = mset ?xs" by simp
  show "sorted (map sequence ?ys)" by simp
  fix k
  assume "k \<in> set ?ys"
  have sub: "set ?ys = set ?xs"
    using ms by (metis set_mset_mset)
  have one: "filter (\<lambda>x. sequence k = sequence x) zs = filter (\<lambda>x. x = k) zs" if "set zs = set ?xs" for zs
    using assms(2) that \<open>k \<in> set ?ys\<close> sub by (intro filter_cong) (auto simp: inj_on_def)
  have "filter (\<lambda>x. x = k) zs = replicate (count (mset zs) k) k" for zs
    by (induction zs) auto
  then show "filter (\<lambda>x. sequence k = sequence x) ?ys = filter (\<lambda>x. sequence k = sequence x) ?xs"
    using ms one [OF sub] one [of ?xs] by simp
qed

locale rule_engine =
  fixes fires :: "'r \<Rightarrow> bool"
    and stops :: "'r \<Rightarrow> bool"
    and effect :: "'r \<Rightarrow> 'a \<Rightarrow> 'a"
    and run :: "'r list \<Rightarrow> 'a \<Rightarrow> 'a"
  assumes run_Nil: "run [] a = a"
    and run_skip: "\<not> fires r \<Longrightarrow> run (r # rs) a = run rs a"
    and run_stop: "fires r \<Longrightarrow> stops r \<Longrightarrow> run (r # rs) a = effect r a"
    and run_next: "fires r \<Longrightarrow> \<not> stops r \<Longrightarrow> run (r # rs) a = run rs (effect r a)"
begin

lemma run_eq: "run rs a = fold effect (applied_rules fires stops rs) a"
proof (induction rs arbitrary: a)
  case Nil
  then show ?case by (simp add: run_Nil)
next
  case (Cons r rs)
  then show ?case
    by (cases "fires r"; cases "stops r") (simp_all add: run_skip run_stop run_next)
qed

lemma run_only_firing: "run (filter fires rs) a = run rs a"
  by (simp add: run_eq)

lemma run_ignores_after_stop:
  "fires r \<Longrightarrow> stops r \<Longrightarrow> run (ps @ r # rs) a = run (ps @ [r]) a"
proof (induction ps arbitrary: a)
  case Nil
  then show ?case by (simp add: run_stop)
next
  case (Cons p ps)
  then show ?case
    by (cases "fires p"; cases "stops p") (simp_all add: run_skip run_stop run_next)
qed

end

end
