(* ===== verification/Mail_Filter.thy ===== *)
theory Mail_Filter
  imports Rule_Engine Sender_Lists
begin

text \<open>
  Inbox rules (\<^verbatim>\<open>src/src/util/MailFilterUtils.ts\<close>, the types in \<^verbatim>\<open>src/src/models/types.ts\<close>): the
  conditions of a rule against a newly delivered message, and the folding of the actions of
  the rules that match. An optional field is an option; an optional string is \<^emph>\<open>truthy\<close> when it
  is there and not empty.
\<close>

section \<open>Rules\<close>

datatype MessageImportance = LOW | NORMAL | HIGH

datatype MailFilterActionType =
  MOVE_TO_FOLDER | COPY_TO_FOLDER | DELETE | MARK_AS_READ | FORWARD | APPLY_LABEL

record MailFilterAction =
  mfa_type :: MailFilterActionType
  folderUid :: "string option"
  forwardTo :: "string option"
  labelUid :: "string option"

record MailFilterConditions =
  mfc_fromContains :: "string list option"
  fromEquals :: "string list option"
  fromDomainEquals :: "string list option"
  mfc_subjectContains :: "string list option"
  mfc_bodyContains :: "string list option"
  toCcContains :: "string list option"
  mfc_hasAttachment :: "bool option"
  mfc_importance :: "MessageImportance option"

record MailFilterRule =
  mfr_enabled :: bool
  mfr_sequence :: int
  mfr_stopProcessingRules :: bool
  mfr_conditions :: MailFilterConditions
  mfr_actions :: "MailFilterAction list"

record MailFilterMatchContext =
  mctx_from :: string
  mctx_fromAddress :: "string option"
  mctx_envelopeFrom :: "string option"
  mctx_subject :: string
  mctx_bodyPreview :: string
  mctx_recipientAddresses :: "string list"
  mctx_hasAttachment :: bool
  mctx_importance :: MessageImportance

record MailFilterEvaluationResult =
  moveToFolderUid :: "string option"
  copyToFolderUids :: "string list"
  deleted :: bool
  markRead :: bool
  res_forwardTo :: "string list"
  labelUidsToApply :: "string list"

definition truthy :: "string option \<Rightarrow> bool" where
  "truthy x \<longleftrightarrow> (case x of None \<Rightarrow> False | Some s \<Rightarrow> s \<noteq> [])"

section \<open>Conditions\<close>

definition mf_containsAnyIgnoreCase :: "string \<Rightarrow> string list option \<Rightarrow> bool" where
  "mf_containsAnyIgnoreCase haystack needles =
     (case needles of
        None \<Rightarrow> False
      | Some ns \<Rightarrow>
          if ns = [] then False
          else let lower = js_lower haystack in list_ex (\<lambda>needle. js_includes lower (js_lower needle)) ns)"

text \<open>\<^verbatim>\<open>/<([^<>]*)>\s*$/.exec(from)?.[1]\<close>: the text in the angle brackets a value ends with.\<close>

definition bracketed_tail :: "string \<Rightarrow> string option" where
  "bracketed_tail s =
     (case dropWhile js_is_ws (rev s) of
        c # cs \<Rightarrow>
          if c \<noteq> CHR ''>'' then None
          else let inner = takeWhile (\<lambda>x. x \<noteq> CHR ''<'' \<and> x \<noteq> CHR ''>'') cs
               in (case drop (length inner) cs of
                     d # _ \<Rightarrow> if d = CHR ''<'' then Some (rev inner) else None
                   | [] \<Rightarrow> None)
      | [] \<Rightarrow> None)"

definition senderAddressesOf :: "MailFilterMatchContext \<Rightarrow> string list" where
  "senderAddressesOf context =
     (let addresses = filter (\<lambda>a. length a > 0)
            (map (\<lambda>address. case address of None \<Rightarrow> [] | Some a \<Rightarrow> js_lower (js_trim a))
              [mctx_fromAddress context, mctx_envelopeFrom context])
      in if addresses = [] then
           let candidate = (case bracketed_tail (mctx_from context) of
                 Some b \<Rightarrow> js_lower (js_trim b)
               | None \<Rightarrow> js_lower (js_trim (mctx_from context)))
           in if CHR ''@'' \<in> set candidate then [candidate] else []
         else addresses)"

text \<open>\<^verbatim>\<open>entry.trim().toLowerCase().replace(/^@/, "")\<close>\<close>

definition strip_at :: "string \<Rightarrow> string" where
  "strip_at s = (if prefix ''@'' s then drop 1 s else s)"

definition matchesConditions :: "MailFilterConditions \<Rightarrow> MailFilterMatchContext \<Rightarrow> bool" where
  "matchesConditions conditions context =
     (if mfc_fromContains conditions \<noteq> None \<and>
         \<not> mf_containsAnyIgnoreCase (mctx_from context) (mfc_fromContains conditions) then False
      else if (case fromEquals conditions of
                 None \<Rightarrow> False
               | Some es \<Rightarrow> \<not> list_ex (\<lambda>e. js_lower (js_trim e) \<in> set (senderAddressesOf context)) es) then False
      else if (case fromDomainEquals conditions of
                 None \<Rightarrow> False
               | Some es \<Rightarrow>
                   let domains = map (\<lambda>a. senderDomainOf (Some a)) (senderAddressesOf context)
                   in \<not> list_ex (\<lambda>e. Some (strip_at (js_lower (js_trim e))) \<in> set domains) es) then False
      else if mfc_subjectContains conditions \<noteq> None \<and>
         \<not> mf_containsAnyIgnoreCase (mctx_subject context) (mfc_subjectContains conditions) then False
      else if mfc_bodyContains conditions \<noteq> None \<and>
         \<not> mf_containsAnyIgnoreCase (mctx_bodyPreview context) (mfc_bodyContains conditions) then False
      else if (case toCcContains conditions of
                 None \<Rightarrow> False
               | Some es \<Rightarrow> es \<noteq> [] \<and>
                   \<not> list_ex (\<lambda>needle. js_lower needle \<in> set (map js_lower (mctx_recipientAddresses context))) es) then False
      else if mfc_hasAttachment conditions \<noteq> None \<and> mfc_hasAttachment conditions \<noteq> Some (mctx_hasAttachment context) then False
      else if mfc_importance conditions \<noteq> None \<and> mfc_importance conditions \<noteq> Some (mctx_importance context) then False
      else True)"

section \<open>Actions\<close>

definition mf_applyAction :: "MailFilterEvaluationResult \<Rightarrow> MailFilterAction \<Rightarrow> MailFilterEvaluationResult" where
  "mf_applyAction result action =
     (case mfa_type action of
        MOVE_TO_FOLDER \<Rightarrow>
          if truthy (folderUid action) then result\<lparr>moveToFolderUid := folderUid action\<rparr> else result
      | COPY_TO_FOLDER \<Rightarrow>
          if truthy (folderUid action)
          then result\<lparr>copyToFolderUids := copyToFolderUids result @ [the (folderUid action)]\<rparr> else result
      | DELETE \<Rightarrow> result\<lparr>deleted := True\<rparr>
      | MARK_AS_READ \<Rightarrow> result\<lparr>markRead := True\<rparr>
      | FORWARD \<Rightarrow>
          if truthy (forwardTo action)
          then result\<lparr>res_forwardTo := res_forwardTo result @ [the (forwardTo action)]\<rparr> else result
      | APPLY_LABEL \<Rightarrow>
          if truthy (labelUid action)
          then result\<lparr>labelUidsToApply := labelUidsToApply result @ [the (labelUid action)]\<rparr> else result)"

fun mf_loop :: "MailFilterMatchContext \<Rightarrow> MailFilterRule list \<Rightarrow> MailFilterEvaluationResult \<Rightarrow> MailFilterEvaluationResult" where
  "mf_loop context [] result = result"
| "mf_loop context (rule # rules) result =
     (if \<not> matchesConditions (mfr_conditions rule) context then mf_loop context rules result
      else
        let result' = foldl mf_applyAction result (mfr_actions rule)
        in if mfr_stopProcessingRules rule then result' else mf_loop context rules result')"

definition no_mail_filter_result :: MailFilterEvaluationResult where
  "no_mail_filter_result =
     \<lparr>moveToFolderUid = None, copyToFolderUids = [], deleted = False, markRead = False,
      res_forwardTo = [], labelUidsToApply = []\<rparr>"

definition evaluateMailFilterRules :: "MailFilterRule list \<Rightarrow> MailFilterMatchContext \<Rightarrow> MailFilterEvaluationResult" where
  "evaluateMailFilterRules rules context =
     mf_loop context (in_order mfr_enabled mfr_sequence rules) no_mail_filter_result"

section \<open>The outcome of a sequence of actions\<close>

interpretation mail_rules: rule_engine "\<lambda>r. matchesConditions (mfr_conditions r) ctx" mfr_stopProcessingRules
    "\<lambda>r a. foldl mf_applyAction a (mfr_actions r)" "mf_loop ctx"
  for ctx
  by unfold_locales (simp_all add: Let_def)

text \<open>The actions taken, in order.\<close>

definition mail_actions :: "MailFilterRule list \<Rightarrow> MailFilterMatchContext \<Rightarrow> MailFilterAction list" where
  "mail_actions rules context =
     concat (map mfr_actions
       (applied_rules (\<lambda>r. matchesConditions (mfr_conditions r) context) mfr_stopProcessingRules
         (in_order mfr_enabled mfr_sequence rules)))"

definition values_of :: "MailFilterActionType \<Rightarrow> (MailFilterAction \<Rightarrow> string option) \<Rightarrow> MailFilterAction list \<Rightarrow> string list" where
  "values_of ty field acts = map (the \<circ> field) (filter (\<lambda>a. mfa_type a = ty \<and> truthy (field a)) acts)"

lemma values_of_simps [simp]:
  "values_of ty field [] = []"
  "values_of ty field (a # acts) =
     (if mfa_type a = ty \<and> truthy (field a) then the (field a) # values_of ty field acts else values_of ty field acts)"
  by (simp_all add: values_of_def)

lemma fold_foldl_concat: "fold (\<lambda>r a. foldl f a (g r)) rs a = foldl f a (concat (map g rs))"
  by (induction rs arbitrary: a) auto

lemma evaluateMailFilterRules_actions:
  "evaluateMailFilterRules rules context = foldl mf_applyAction no_mail_filter_result (mail_actions rules context)"
  by (simp add: evaluateMailFilterRules_def mail_rules.run_eq fold_foldl_concat mail_actions_def)

lemma foldl_applyAction:
  "foldl mf_applyAction r acts =
     \<lparr>moveToFolderUid = (case rev (values_of MOVE_TO_FOLDER folderUid acts) of [] \<Rightarrow> moveToFolderUid r | u # _ \<Rightarrow> Some u),
      copyToFolderUids = copyToFolderUids r @ values_of COPY_TO_FOLDER folderUid acts,
      deleted = (deleted r \<or> (\<exists>a\<in>set acts. mfa_type a = DELETE)),
      markRead = (markRead r \<or> (\<exists>a\<in>set acts. mfa_type a = MARK_AS_READ)),
      res_forwardTo = res_forwardTo r @ values_of FORWARD forwardTo acts,
      labelUidsToApply = labelUidsToApply r @ values_of APPLY_LABEL labelUid acts\<rparr>"
proof (induction acts arbitrary: r)
  case Nil
  then show ?case by simp
next
  case (Cons a acts)
  have some: "truthy x \<Longrightarrow> x = Some (the x)" for x
    by (auto simp: truthy_def split: option.splits)
  show ?case
    unfolding foldl_Cons Cons.IH
    by (cases "mfa_type a") (auto simp: mf_applyAction_def some split: list.splits)
qed

section \<open>Properties\<close>

text \<open>The outcome of the inbox rules. The actions taken are those of the enabled rules that
  match, in ascending sequence, up to and including the first matching rule that stops; the
  message moves to the folder of the last move action, is copied once per copy action,
  forwarded once per forward action and labelled once per label action, in that order, and is
  deleted or marked read exactly when an action says so - a deletion takes nothing else away.\<close>

theorem evaluateMailFilterRules_spec:
  "evaluateMailFilterRules rules context =
     (let acts = mail_actions rules context
      in \<lparr>moveToFolderUid = (case rev (values_of MOVE_TO_FOLDER folderUid acts) of [] \<Rightarrow> None | u # _ \<Rightarrow> Some u),
          copyToFolderUids = values_of COPY_TO_FOLDER folderUid acts,
          deleted = (\<exists>a\<in>set acts. mfa_type a = DELETE),
          markRead = (\<exists>a\<in>set acts. mfa_type a = MARK_AS_READ),
          res_forwardTo = values_of FORWARD forwardTo acts,
          labelUidsToApply = values_of APPLY_LABEL labelUid acts\<rparr>)"
  by (simp add: evaluateMailFilterRules_actions foldl_applyAction no_mail_filter_result_def Let_def split: list.split)

text \<open>The order the rules are stored in does not matter. With distinct sequence numbers among
  the enabled rules, any rearrangement of the list gives the same outcome.\<close>

theorem evaluateMailFilterRules_order_independent:
  assumes "mset rules = mset rules'" "inj_on mfr_sequence {r \<in> set rules. mfr_enabled r}"
  shows "evaluateMailFilterRules rules context = evaluateMailFilterRules rules' context"
  using in_order_perm [OF assms] by (simp add: evaluateMailFilterRules_def)

definition example_rule :: "int \<Rightarrow> MailFilterActionType \<Rightarrow> string \<Rightarrow> MailFilterRule" where
  "example_rule n ty uid =
     \<lparr>mfr_enabled = True, mfr_sequence = n, mfr_stopProcessingRules = False,
      mfr_conditions = \<lparr>mfc_fromContains = None, fromEquals = None, fromDomainEquals = None, mfc_subjectContains = None,
        mfc_bodyContains = None, toCcContains = None, mfc_hasAttachment = None, mfc_importance = None\<rparr>,
      mfr_actions = [\<lparr>mfa_type = ty, folderUid = Some uid, forwardTo = None, labelUid = None\<rparr>]\<rparr>"

definition example_message :: MailFilterMatchContext where
  "example_message =
     \<lparr>mctx_from = ''Ann <ann@example.com>'', mctx_fromAddress = None, mctx_envelopeFrom = None, mctx_subject = ''Hi'',
      mctx_bodyPreview = [], mctx_recipientAddresses = [''bob@example.com''], mctx_hasAttachment = False,
      mctx_importance = NORMAL\<rparr>"

theorem evaluateMailFilterRules_order_independent_witness:
  "evaluateMailFilterRules [example_rule 2 MOVE_TO_FOLDER ''b'', example_rule 1 MOVE_TO_FOLDER ''a''] example_message =
   evaluateMailFilterRules [example_rule 1 MOVE_TO_FOLDER ''a'', example_rule 2 MOVE_TO_FOLDER ''b''] example_message"
  by (rule evaluateMailFilterRules_order_independent) (auto simp: example_rule_def add_mset_commute inj_on_def)

end
