(* ===== verification/Transport_Rules.thy ===== *)
theory Transport_Rules
  imports Rule_Engine Addresses
begin

text \<open>
  Transport rules (\<^verbatim>\<open>src/src/util/TransportRuleUtils.ts\<close>, the types in \<^verbatim>\<open>src/src/models/types.ts\<close>):
  mail-flow rules evaluated once per SMTP transaction. The conditions and actions of a stored
  rule are documents nothing has checked on the way in, so they are \<^typ>\<open>js_value\<close>s here and
  evaluation throws wherever the runtime would. The parse of the message (\<^verbatim>\<open>mailparser\<close>) and
  the text of an HTML body (\<^verbatim>\<open>htmlparser2\<close>) are arguments.
\<close>

section \<open>Rules, contexts and results\<close>

record TransportRule =
  tr_enabled :: bool
  tr_sequence :: int
  tr_stopProcessingRules :: bool
  tr_conditions :: js_value
  tr_actions :: js_value

record TransportRuleMatchContext =
  trc_fromAddress :: string
  trc_subject :: string
  trc_bodyPreview :: string
  trc_bodyText :: "string option"
  trc_headerFromAddresses :: "string list option"
  trc_headerRecipientAddresses :: "string list option"
  trc_recipientAddresses :: "string list"
  trc_anyRecipientExternal :: bool
  trc_hasAttachment :: bool
  trc_attachmentFilenames :: "string list"

record TransportRuleEvaluationResult =
  tr_reject :: bool
  tr_quarantine :: bool
  addHeaders :: "(js_value \<times> js_value) list"
  addRecipients :: "js_value list"

record LoweredContext =
  low_from :: "string list"
  low_subject :: string
  low_body :: string
  low_recipients :: "string list"
  low_attachmentFilenames :: "string list"

section \<open>Conditions\<close>

text \<open>\<^verbatim>\<open>needles.length === 0\<close> and \<^verbatim>\<open>needles.some(...)\<close> for a truthy \<^verbatim>\<open>needles\<close>: only an array has
  \<^verbatim>\<open>some\<close>, and an object is taken for an empty list when its own \<^verbatim>\<open>length\<close> is 0.
  \<^verbatim>\<open>toLowerCase\<close> exists on strings only.\<close>

definition js_to_lower :: "js_value \<Rightarrow> string result" where
  "js_to_lower v = (case v of JStr s \<Rightarrow> Inr (js_lower s) | _ \<Rightarrow> Inl TypeError)"

definition js_empty_list :: "js_value \<Rightarrow> bool" where
  "js_empty_list v =
     (case v of
        JArr vs \<Rightarrow> vs = []
      | JStr s \<Rightarrow> s = []
      | JObj fs \<Rightarrow> map_of fs ''length'' = Some (JNum 0)
      | _ \<Rightarrow> False)"

definition containsAnyIgnoreCase :: "string \<Rightarrow> js_value \<Rightarrow> bool result" where
  "containsAnyIgnoreCase lower needles =
     (if \<not> js_truthy needles \<or> js_empty_list needles then Inr False
      else case needles of
        JArr vs \<Rightarrow> some_r (\<lambda>needle. rbind (js_to_lower needle) (\<lambda>n. Inr (js_includes lower n))) vs
      | _ \<Rightarrow> Inl TypeError)"

definition containsAnyInList :: "string list \<Rightarrow> js_value \<Rightarrow> bool result" where
  "containsAnyInList lowerList needles =
     (if \<not> js_truthy needles \<or> js_empty_list needles then Inr False
      else some_r (\<lambda>lower. containsAnyIgnoreCase lower needles) lowerList)"

definition lowerContext :: "TransportRuleMatchContext \<Rightarrow> LoweredContext" where
  "lowerContext ctx =
     \<lparr>low_from = map js_lower (trc_fromAddress ctx # nullish (trc_headerFromAddresses ctx)),
      low_subject = js_lower (trc_subject ctx),
      low_body = js_lower (case trc_bodyText ctx of Some t \<Rightarrow> t | None \<Rightarrow> trc_bodyPreview ctx),
      low_recipients = map js_lower (trc_recipientAddresses ctx @ nullish (trc_headerRecipientAddresses ctx)),
      low_attachmentFilenames = map js_lower (trc_attachmentFilenames ctx)\<rparr>"

text \<open>One populated condition: \<^verbatim>\<open>if (field && !test(field)) return false\<close> and
  \<^verbatim>\<open>if (field !== undefined && field !== actual) return false\<close>, with the rest of the function
  as the continuation.\<close>

definition unless_fails :: "js_value \<Rightarrow> string \<Rightarrow> (js_value \<Rightarrow> bool result) \<Rightarrow> bool result \<Rightarrow> bool result" where
  "unless_fails conditions field test rest =
     rbind (js_get conditions field) (\<lambda>v.
       if js_truthy v then rbind (test v) (\<lambda>ok. if ok then rest else Inr False) else rest)"

definition unless_differs :: "js_value \<Rightarrow> string \<Rightarrow> bool \<Rightarrow> bool result \<Rightarrow> bool result" where
  "unless_differs conditions field actual rest =
     rbind (js_get conditions field) (\<lambda>v. if v \<noteq> JUndefined \<and> v \<noteq> JBool actual then Inr False else rest)"

definition matchesLowered :: "js_value \<Rightarrow> TransportRuleMatchContext \<Rightarrow> LoweredContext \<Rightarrow> bool result" where
  "matchesLowered conditions ctx lowered =
     unless_fails conditions ''fromContains'' (containsAnyInList (low_from lowered))
    (unless_fails conditions ''subjectContains'' (containsAnyIgnoreCase (low_subject lowered))
    (unless_fails conditions ''bodyContains'' (containsAnyIgnoreCase (low_body lowered))
    (unless_fails conditions ''recipientContains'' (containsAnyInList (low_recipients lowered))
    (unless_differs conditions ''anyRecipientExternal'' (trc_anyRecipientExternal ctx)
    (unless_differs conditions ''hasAttachment'' (trc_hasAttachment ctx)
    (unless_fails conditions ''attachmentNameContains'' (containsAnyInList (low_attachmentFilenames lowered))
    (Inr True)))))))"

definition matchesTransportRuleConditions :: "js_value \<Rightarrow> TransportRuleMatchContext \<Rightarrow> bool result" where
  "matchesTransportRuleConditions conditions ctx = matchesLowered conditions ctx (lowerContext ctx)"

section \<open>Actions\<close>

definition tr_applyAction :: "TransportRuleEvaluationResult \<Rightarrow> js_value \<Rightarrow> TransportRuleEvaluationResult result" where
  "tr_applyAction result action =
     rbind (js_get action ''type'') (\<lambda>type.
       if type = JStr ''reject'' then Inr (result\<lparr>tr_reject := True\<rparr>)
       else if type = JStr ''quarantine'' then Inr (result\<lparr>tr_quarantine := True\<rparr>)
       else if type = JStr ''add_header'' then
         rbind (js_get action ''headerName'') (\<lambda>name.
         rbind (js_get action ''headerValue'') (\<lambda>val.
           Inr (if js_truthy name \<and> val \<noteq> JUndefined
                then result\<lparr>addHeaders := addHeaders result @ [(name, val)]\<rparr> else result)))
       else if type = JStr ''add_recipient'' then
         rbind (js_get action ''recipientAddress'') (\<lambda>address.
           Inr (if js_truthy address
                then result\<lparr>addRecipients := addRecipients result @ [address]\<rparr> else result))
       else Inr result)"

fun tr_applyActions :: "TransportRuleEvaluationResult \<Rightarrow> js_value list \<Rightarrow> TransportRuleEvaluationResult result" where
  "tr_applyActions result [] = Inr result"
| "tr_applyActions result (action # acts) = rbind (tr_applyAction result action) (\<lambda>r. tr_applyActions r acts)"

text \<open>The \<^verbatim>\<open>try\<close> block of the loop: an exception, no match, or a match with its actions.\<close>

definition read_rule :: "TransportRuleMatchContext \<Rightarrow> TransportRule \<Rightarrow> js_value list option result" where
  "read_rule ctx rule =
     rbind (matchesLowered (tr_conditions rule) ctx (lowerContext ctx)) (\<lambda>matches.
       if \<not> matches then Inr None
       else case tr_actions rule of
         JArr acts \<Rightarrow> Inr (Some acts)
       | _ \<Rightarrow> Inl (OtherError (''its actions aren'' @ [CHR 0x27] @ ''t a list'')))"

text \<open>The loop, with the rules reported to \<^verbatim>\<open>onUnreadable\<close> so far.\<close>

type_synonym tr_state = "TransportRuleEvaluationResult \<times> TransportRule list"

fun tr_loop :: "TransportRuleMatchContext \<Rightarrow> TransportRule list \<Rightarrow> tr_state \<Rightarrow> tr_state result" where
  "tr_loop ctx [] st = Inr st"
| "tr_loop ctx (rule # rules) (result, unreadable) =
     (case read_rule ctx rule of
        Inl err \<Rightarrow> tr_loop ctx rules (result, unreadable @ [rule])
      | Inr None \<Rightarrow> tr_loop ctx rules (result, unreadable)
      | Inr (Some acts) \<Rightarrow>
          rbind (tr_applyActions result acts) (\<lambda>result'.
            if tr_stopProcessingRules rule then Inr (result', unreadable)
            else tr_loop ctx rules (result', unreadable)))"

definition no_transport_result :: TransportRuleEvaluationResult where
  "no_transport_result = \<lparr>tr_reject = False, tr_quarantine = False, addHeaders = [], addRecipients = []\<rparr>"

definition evaluateTransportRules :: "TransportRule list \<Rightarrow> TransportRuleMatchContext \<Rightarrow> tr_state result" where
  "evaluateTransportRules rules ctx =
     tr_loop ctx (in_order tr_enabled tr_sequence rules) (no_transport_result, [])"


section \<open>The context of a transaction\<close>

text \<open>What the code reads of a parsed message: \<^verbatim>\<open>subject\<close>, \<^verbatim>\<open>text\<close>, a string \<^verbatim>\<open>html\<close>, the attachments'
  file names, and the address groups of From, To and Cc (none for an absent header), an entry
  of a group having an address or not.\<close>

record ParsedMail =
  pm_subject :: "string option"
  pm_text :: "string option"
  pm_html :: "string option"
  pm_attachments :: "string option list"
  pm_from :: "string option list list"
  pm_to :: "string option list list"
  pm_cc :: "string option list list"

definition BODY_PREVIEW_MAX_LENGTH :: nat where "BODY_PREVIEW_MAX_LENGTH = 500"

definition BODY_TEXT_MAX_LENGTH :: nat where "BODY_TEXT_MAX_LENGTH = 1000000"

definition truthy_only :: "string option list \<Rightarrow> string list" where
  "truthy_only = List.map_filter (\<lambda>a. case a of Some s \<Rightarrow> if s = [] then None else Some s | None \<Rightarrow> None)"

definition headerAddresses :: "string option list list \<Rightarrow> string list" where
  "headerAddresses groups = concat (map truthy_only groups)"

definition anyRecipientExternalOf :: "string list \<Rightarrow> string list \<Rightarrow> bool" where
  "anyRecipientExternalOf domains envelopeTo \<longleftrightarrow>
     length domains > 0 \<and>
     list_ex (\<lambda>address. case addressDomainOf address of
                None \<Rightarrow> True
              | Some domain \<Rightarrow> domain \<notin> set domains) envelopeTo"

definition buildTransportRuleContext ::
  "(string \<Rightarrow> string) \<Rightarrow> (ParsedMail \<Rightarrow> bool) \<Rightarrow> ParsedMail \<Rightarrow> string \<Rightarrow> string list \<Rightarrow> string list \<Rightarrow> bool \<Rightarrow>
   TransportRuleMatchContext" where
  "buildTransportRuleContext htmlText isEncryptedBody parsed envelopeFrom envelopeTo domains plusAddressingEnabled =
     (let encrypted = isEncryptedBody parsed;
          bodyText = (if encrypted then []
            else take BODY_TEXT_MAX_LENGTH (js_trim
              (case pm_text parsed of
                 Some (c # cs) \<Rightarrow> c # cs
               | _ \<Rightarrow> (case pm_html parsed of Some html \<Rightarrow> htmlText html | None \<Rightarrow> []))));
          bodyPreview = take BODY_PREVIEW_MAX_LENGTH bodyText;
          hasAttachment = (\<not> encrypted \<and> length (pm_attachments parsed) > 0);
          attachmentFilenames = (if encrypted then [] else truthy_only (pm_attachments parsed));
          recipientAddresses = (if plusAddressingEnabled
            then uniq (concat (map (\<lambda>address. [address, stripPlusTag address]) envelopeTo))
            else envelopeTo)
      in \<lparr>trc_fromAddress = envelopeFrom,
          trc_subject = (case pm_subject parsed of Some s \<Rightarrow> s | None \<Rightarrow> []),
          trc_bodyPreview = bodyPreview,
          trc_bodyText = Some bodyText,
          trc_headerFromAddresses = Some (headerAddresses (pm_from parsed)),
          trc_headerRecipientAddresses = Some (headerAddresses (pm_to parsed) @ headerAddresses (pm_cc parsed)),
          trc_recipientAddresses = recipientAddresses,
          trc_anyRecipientExternal = anyRecipientExternalOf domains envelopeTo,
          trc_hasAttachment = hasAttachment,
          trc_attachmentFilenames = attachmentFilenames\<rparr>)"

section \<open>What evaluation does\<close>

text \<open>The actions a rule contributes when it is read without an exception and matches.\<close>

definition rule_acts :: "TransportRuleMatchContext \<Rightarrow> TransportRule \<Rightarrow> js_value list" where
  "rule_acts ctx r = (case read_rule ctx r of Inr (Some acts) \<Rightarrow> acts | _ \<Rightarrow> [])"

definition rule_unreadable :: "TransportRuleMatchContext \<Rightarrow> TransportRule \<Rightarrow> bool" where
  "rule_unreadable ctx r \<longleftrightarrow> (\<exists>e. read_rule ctx r = Inl e)"

definition tr_effect :: "TransportRuleMatchContext \<Rightarrow> TransportRule \<Rightarrow> tr_state result \<Rightarrow> tr_state result" where
  "tr_effect ctx r st =
     rbind st (\<lambda>(result, unreadable).
       if rule_unreadable ctx r then Inr (result, unreadable @ [r])
       else rbind (tr_applyActions result (rule_acts ctx r)) (\<lambda>result'. Inr (result', unreadable)))"

interpretation transport_rules: rule_engine
    "\<lambda>r. read_rule ctx r \<noteq> Inr None"
    "\<lambda>r. \<not> rule_unreadable ctx r \<and> tr_stopProcessingRules r"
    "tr_effect ctx" "\<lambda>rs st. rbind st (tr_loop ctx rs)"
  for ctx
proof
  fix a :: "tr_state result" and r rs
  show "rbind a (tr_loop ctx []) = a"
    by (cases a) auto
  assume skip: "\<not> read_rule ctx r \<noteq> Inr None"
  then show "rbind a (tr_loop ctx (r # rs)) = rbind a (tr_loop ctx rs)"
    by (cases a) auto
next
  fix a :: "tr_state result" and r rs
  assume "read_rule ctx r \<noteq> Inr None" "\<not> rule_unreadable ctx r \<and> tr_stopProcessingRules r"
  then obtain acts where "read_rule ctx r = Inr (Some acts)" "tr_stopProcessingRules r"
    by (cases "read_rule ctx r") (auto simp: rule_unreadable_def)
  then show "rbind a (tr_loop ctx (r # rs)) = tr_effect ctx r a"
    by (cases a) (auto simp: tr_effect_def rule_unreadable_def rule_acts_def split: prod.split)
next
  fix a :: "tr_state result" and r rs
  assume fires: "read_rule ctx r \<noteq> Inr None" and "\<not> (\<not> rule_unreadable ctx r \<and> tr_stopProcessingRules r)"
  then consider e where "read_rule ctx r = Inl e"
    | acts where "read_rule ctx r = Inr (Some acts)" "\<not> tr_stopProcessingRules r"
    by (cases "read_rule ctx r") (auto simp: rule_unreadable_def)
  then show "rbind a (tr_loop ctx (r # rs)) = rbind (tr_effect ctx r a) (tr_loop ctx rs)"
  proof cases
    case 1
    then show ?thesis
      by (cases a) (auto simp: tr_effect_def rule_unreadable_def)
  next
    case 2
    then show ?thesis
      by (cases a) (auto simp: tr_effect_def rule_unreadable_def rule_acts_def rbind_assoc)
  qed
qed

text \<open>The actions taken, in order, and the rules reported.\<close>

definition transport_applied :: "TransportRule list \<Rightarrow> TransportRuleMatchContext \<Rightarrow> TransportRule list" where
  "transport_applied rules ctx =
     applied_rules (\<lambda>r. read_rule ctx r \<noteq> Inr None) (\<lambda>r. \<not> rule_unreadable ctx r \<and> tr_stopProcessingRules r)
       (in_order tr_enabled tr_sequence rules)"

definition transport_actions :: "TransportRule list \<Rightarrow> TransportRuleMatchContext \<Rightarrow> js_value list" where
  "transport_actions rules ctx = concat (map (rule_acts ctx) (transport_applied rules ctx))"

definition nullish_value :: "js_value \<Rightarrow> bool" where
  "nullish_value v \<longleftrightarrow> v = JUndefined \<or> v = JNull"

text \<open>A field of an action, \<^const>\<open>JUndefined\<close> where there is none.\<close>

definition field_of :: "string \<Rightarrow> js_value \<Rightarrow> js_value" where
  "field_of k v = (case js_get v k of Inr x \<Rightarrow> x | Inl _ \<Rightarrow> JUndefined)"

definition actions_of_type :: "string \<Rightarrow> js_value list \<Rightarrow> js_value list" where
  "actions_of_type ty acts = filter (\<lambda>a. field_of ''type'' a = JStr ty) acts"

lemma js_get_field: "\<not> nullish_value v \<Longrightarrow> js_get v k = Inr (field_of k v)"
  by (cases v) (auto simp: nullish_value_def field_of_def)

text \<open>The outcome of a list of actions none of which is null.\<close>

definition outcome_of :: "TransportRuleEvaluationResult \<Rightarrow> js_value list \<Rightarrow> TransportRuleEvaluationResult" where
  "outcome_of result acts =
     \<lparr>tr_reject = (tr_reject result \<or> actions_of_type ''reject'' acts \<noteq> []),
      tr_quarantine = (tr_quarantine result \<or> actions_of_type ''quarantine'' acts \<noteq> []),
      addHeaders = addHeaders result @
        [(field_of ''headerName'' a, field_of ''headerValue'' a).
          a \<leftarrow> actions_of_type ''add_header'' acts,
          js_truthy (field_of ''headerName'' a) \<and> field_of ''headerValue'' a \<noteq> JUndefined],
      addRecipients = addRecipients result @
        filter js_truthy (map (field_of ''recipientAddress'') (actions_of_type ''add_recipient'' acts))\<rparr>"

lemma outcome_of_Nil [simp]: "outcome_of result [] = result"
  by (simp add: outcome_of_def actions_of_type_def)

lemma tr_applyAction_outcome:
  "\<not> nullish_value a \<Longrightarrow> tr_applyAction result a = Inr (outcome_of result [a])"
  by (simp add: tr_applyAction_def js_get_field outcome_of_def actions_of_type_def)

lemma outcome_of_append: "outcome_of (outcome_of result xs) ys = outcome_of result (xs @ ys)"
  by (simp add: outcome_of_def actions_of_type_def disj_assoc)

lemma tr_applyActions_outcome:
  "\<forall>a\<in>set acts. \<not> nullish_value a \<Longrightarrow> tr_applyActions result acts = Inr (outcome_of result acts)"
  by (induction acts arbitrary: result) (simp_all add: tr_applyAction_outcome outcome_of_append)

lemma tr_applyActions_null:
  assumes "\<forall>a\<in>set xs. \<not> nullish_value a" "nullish_value a"
  shows "tr_applyActions result (xs @ a # ys) = Inl TypeError"
  using assms(1)
proof (induction xs arbitrary: result)
  case Nil
  then show ?case using assms(2) by (auto simp: nullish_value_def tr_applyAction_def)
next
  case (Cons x xs)
  then show ?case by (simp add: tr_applyAction_outcome)
qed

lemma fold_tr_effect:
  "\<forall>r\<in>set rs. \<forall>a\<in>set (rule_acts ctx r). \<not> nullish_value a \<Longrightarrow>
   fold (tr_effect ctx) rs (Inr (result, unreadable)) =
     Inr (outcome_of result (concat (map (rule_acts ctx) rs)), unreadable @ filter (rule_unreadable ctx) rs)"
proof (induction rs arbitrary: result unreadable)
  case Nil
  then show ?case by simp
next
  case (Cons r rs)
  have "rule_unreadable ctx r \<Longrightarrow> rule_acts ctx r = []"
    by (auto simp: rule_unreadable_def rule_acts_def)
  then have "tr_effect ctx r (Inr (result, unreadable)) =
      Inr (outcome_of result (rule_acts ctx r), unreadable @ (if rule_unreadable ctx r then [r] else []))"
    using Cons.prems by (auto simp: tr_effect_def tr_applyActions_outcome)
  with Cons.IH Cons.prems show ?case
    by (auto simp: outcome_of_append)
qed

section \<open>Properties\<close>

text \<open>C28: the outcome of the transport rules. Whatever the stored conditions are, evaluation
  returns unless an action of an applied rule is null; the result folds the actions of the
  applied rules in order (the enabled ones that match, ascending, up to the first that stops),
  and the rules reported as unreadable are the ones before that stop that could not be read:
  they contribute nothing and stop nothing.\<close>

theorem evaluateTransportRules_spec:
  assumes "\<forall>a\<in>set (transport_actions rules ctx). \<not> nullish_value a"
  shows "evaluateTransportRules rules ctx =
     Inr (outcome_of no_transport_result (transport_actions rules ctx),
          filter (rule_unreadable ctx) (transport_applied rules ctx))"
proof -
  have "evaluateTransportRules rules ctx =
      fold (tr_effect ctx) (transport_applied rules ctx) (Inr (no_transport_result, []))"
    using transport_rules.run_eq [of "Inr (no_transport_result, [])" ctx]
    by (simp add: evaluateTransportRules_def transport_applied_def)
  with assms fold_tr_effect [of "transport_applied rules ctx" ctx no_transport_result "[]"] show ?thesis
    by (auto simp: transport_actions_def)
qed


definition example_transport_rule :: "int \<Rightarrow> js_value \<Rightarrow> js_value list \<Rightarrow> TransportRule" where
  "example_transport_rule n conditions acts =
     \<lparr>tr_enabled = True, tr_sequence = n, tr_stopProcessingRules = False, tr_conditions = conditions, tr_actions = JArr acts\<rparr>"

definition example_transaction :: TransportRuleMatchContext where
  "example_transaction =
     \<lparr>trc_fromAddress = ''ann@example.com'', trc_subject = ''Hi'', trc_bodyPreview = [], trc_bodyText = None,
      trc_headerFromAddresses = None, trc_headerRecipientAddresses = None, trc_recipientAddresses = [''bob@example.com''],
      trc_anyRecipientExternal = False, trc_hasAttachment = False, trc_attachmentFilenames = []\<rparr>"

lemmas transport_example_simps =
  in_order_def example_transport_rule_def example_transaction_def read_rule_def matchesLowered_def
  matchesTransportRuleConditions_def unless_fails_def unless_differs_def lowerContext_def containsAnyInList_def
  containsAnyIgnoreCase_def js_empty_list_def js_to_lower_def js_lower_def js_lower_char_def nullish_value_def

text \<open>A rule whose conditions are null is reported and skipped; the next one rejects.\<close>

theorem evaluateTransportRules_spec_witness:
  "evaluateTransportRules
     [example_transport_rule 1 JNull [], example_transport_rule 2 (JObj []) [JObj [(''type'', JStr ''reject'')]]]
     example_transaction =
   Inr (no_transport_result\<lparr>tr_reject := True\<rparr>, [example_transport_rule 1 JNull []])"
proof -
  let ?rs = "[example_transport_rule 1 JNull [], example_transport_rule 2 (JObj []) [JObj [(''type'', JStr ''reject'')]]]"
  have "transport_applied ?rs example_transaction = ?rs"
    by (simp add: transport_applied_def rule_unreadable_def transport_example_simps)
  moreover have "transport_actions ?rs example_transaction = [JObj [(''type'', JStr ''reject'')]]"
    unfolding transport_actions_def calculation by (simp add: rule_acts_def transport_example_simps)
  moreover have "filter (rule_unreadable example_transaction) ?rs = [example_transport_rule 1 JNull []]"
    by (simp add: rule_unreadable_def transport_example_simps)
  ultimately show ?thesis
    using evaluateTransportRules_spec [of ?rs example_transaction]
    by (simp add: nullish_value_def outcome_of_def actions_of_type_def field_of_def no_transport_result_def)
qed


section \<open>Recipient rules and plus tags\<close>

lemma matches_recipientContains:
  "matchesTransportRuleConditions (JObj [(''recipientContains'', JArr (JStr needle # map JStr needles))]) ctx =
     Inr (\<exists>r\<in>set (trc_recipientAddresses ctx @ nullish (trc_headerRecipientAddresses ctx)).
            \<exists>n\<in>set (needle # needles). js_includes (js_lower r) (js_lower n))"
proof -
  have "some_r (\<lambda>v. rbind (js_to_lower v) (\<lambda>n. Inr (js_includes lower n))) (map JStr ns) =
      Inr (\<exists>n\<in>set ns. js_includes lower (js_lower n))" for lower ns
    by (induction ns) (auto simp: js_to_lower_def)
  from this [of _ "needle # needles"] show ?thesis
    by (simp add: matchesTransportRuleConditions_def matchesLowered_def unless_fails_def unless_differs_def
        containsAnyInList_def containsAnyIgnoreCase_def js_empty_list_def lowerContext_def ball_Un bex_Un)
qed

text \<open>A plus tag does not get a recipient past a rule. With plus addressing enabled, a rule on
  recipients matches a transaction exactly when one of its entries occurs in an envelope
  recipient as given, in its untagged form, or in a To or Cc address; so a tagged recipient is
  matched by whatever its untagged mailbox address is matched by.\<close>

theorem recipient_rule_sees_plus_tag:
  "matchesTransportRuleConditions (JObj [(''recipientContains'', JArr (JStr needle # map JStr needles))])
     (buildTransportRuleContext htmlText isEncryptedBody parsed envelopeFrom envelopeTo domains True) =
   Inr (\<exists>n\<in>set (needle # needles).
          (\<exists>a\<in>set envelopeTo. js_includes (js_lower a) (js_lower n) \<or> js_includes (js_lower (stripPlusTag a)) (js_lower n)) \<or>
          (\<exists>a\<in>set (headerAddresses (pm_to parsed) @ headerAddresses (pm_cc parsed)). js_includes (js_lower a) (js_lower n)))"
  unfolding matches_recipientContains
  by (auto simp: buildTransportRuleContext_def Let_def)

end
