(* ===== verification/Paging.thy ===== *)
theory Paging
  imports Prelude "HOL-Library.Multiset"
begin

text \<open>
  Keyset pagination on \<^verbatim>\<open>uid\<close> (\<^verbatim>\<open>findPagesByUid()\<close> of \<^verbatim>\<open>src/src/util/MailboxContentUtils.ts\<close>). The
  repository's \<^verbatim>\<open>find\<close> is an argument: given the cursor (nothing on the first page) and the
  limit it answers a batch. What the code relies on is the law \<open>keyset_find\<close>: the rows after the
  cursor, in ascending order of \<^verbatim>\<open>uid\<close>, cut at the limit.
\<close>

type_synonym ('u, 'r) finder = "'u option \<Rightarrow> nat \<Rightarrow> 'r list"

definition page_limit :: "int \<Rightarrow> nat" where
  "page_limit pageSize = nat (max 1 (min (if pageSize = 0 then 1 else pageSize) 1000))"

text \<open>The generator, as the list of the batches it yields; the value is \<^const>\<open>None\<close> when it never ends.\<close>

partial_function (option) pages_from :: "('r \<Rightarrow> 'u::linorder) \<Rightarrow> ('u, 'r) finder \<Rightarrow> nat \<Rightarrow> 'u option \<Rightarrow> 'r list list option" where
  "pages_from uid repo_find limit after =
     (let batch = repo_find after limit
      in if batch = [] then Some []
         else
           let last = uid (last batch)
           in if length batch < limit \<or> (after \<noteq> None \<and> \<not> last > the after) then Some [batch]
              else Option.bind (pages_from uid repo_find limit (Some last)) (\<lambda>rest. Some (batch # rest)))"

definition findPagesByUid :: "('r \<Rightarrow> 'u::linorder) \<Rightarrow> ('u, 'r) finder \<Rightarrow> int \<Rightarrow> 'r list list option" where
  "findPagesByUid uid repo_find pageSize = pages_from uid repo_find (page_limit pageSize) None"

text \<open>Every page in one list, as \<^verbatim>\<open>for await (const batch of ...) all.push(...batch)\<close> collects them.\<close>

definition find_all :: "('r \<Rightarrow> 'u::linorder) \<Rightarrow> ('u, 'r) finder \<Rightarrow> int \<Rightarrow> 'r list option" where
  "find_all uid repo_find pageSize = map_option concat (findPagesByUid uid repo_find pageSize)"

definition after_cursor :: "('r \<Rightarrow> 'u::linorder) \<Rightarrow> 'u option \<Rightarrow> 'r list \<Rightarrow> 'r list" where
  "after_cursor uid after rows =
     filter (\<lambda>r. case after of None \<Rightarrow> True | Some a \<Rightarrow> uid r > a) rows"

text \<open>The table as a repository answers it: the reference implementation of \<^verbatim>\<open>find\<close>.\<close>

definition table_find :: "('r \<Rightarrow> 'u::linorder) \<Rightarrow> 'r list \<Rightarrow> ('u, 'r) finder" where
  "table_find uid rows after limit = take limit (after_cursor uid after (sort_key uid rows))"

definition keyset_find :: "('r \<Rightarrow> 'u::linorder) \<Rightarrow> 'r list \<Rightarrow> ('u, 'r) finder \<Rightarrow> bool" where
  "keyset_find uid rows repo_find \<longleftrightarrow> (\<forall>after limit. repo_find after limit = table_find uid rows after limit)"

lemma page_limit_pos: "0 < page_limit pageSize" and page_limit_le: "page_limit pageSize \<le> 1000"
  by (auto simp: page_limit_def)

lemma keyset_table_find [simp]: "keyset_find uid rows (table_find uid rows)"
  by (simp add: keyset_find_def)

lemma sorted_distinct_less:
  assumes "sorted (map f (xs @ ys))" "distinct (map f (xs @ ys))" "x \<in> set xs" "y \<in> set ys"
  shows "f x < (f y :: 'u::linorder)"
  using assms by (auto simp: sorted_append order.strict_iff_order image_iff)

text \<open>The rows after the last one of a non-empty initial segment are the rest of the table.\<close>

lemma after_last_of_prefix:
  assumes "sorted (map uid (xs @ ys))" "distinct (map uid (xs @ ys))" "xs \<noteq> []"
  shows "after_cursor uid (Some (uid (last xs))) (xs @ ys) = ys"
proof -
  have "uid x \<le> uid (last xs)" if "x \<in> set xs" for x
    using sorted_hd_last(2) [OF _ that, of uid] assms(1) by (simp add: sorted_append)
  moreover have "uid y > uid (last xs)" if "y \<in> set ys" for y
    using sorted_distinct_less [OF assms(1,2) _ that] assms(3) by simp
  ultimately show ?thesis
    by (auto simp: after_cursor_def filter_id_conv filter_empty_conv not_less)
qed

text \<open>From a cursor that leaves exactly the rows \<open>todo\<close>, the generator ends and yields exactly those.\<close>

lemma pages_from_rest:
  assumes find: "keyset_find uid rows repo_find" and inj: "distinct (map uid rows)" and limit: "0 < limit"
    and "sort_key uid rows = done @ todo"
    and "after = (if done = [] then None else Some (uid (last done)))"
  shows "\<exists>ps. pages_from uid repo_find limit after = Some ps \<and> concat ps = todo \<and> (\<forall>p\<in>set ps. p \<noteq> [] \<and> length p \<le> limit)"
  using assms(4,5)
proof (induction todo arbitrary: "done" after rule: length_induct)
  case (1 todo)
  note IH = 1(1)
  have sd: "sorted (map uid (done @ todo))" "distinct (map uid (done @ todo))"
    using inj by (simp_all flip: 1(2) add: distinct_map)
  have "after_cursor uid after (sort_key uid rows) = todo"
  proof (cases "done = []")
    case True
    then show ?thesis by (simp add: 1(2,3) after_cursor_def)
  next
    case False
    then show ?thesis using after_last_of_prefix [OF sd False] by (simp add: 1(2,3))
  qed
  then have batch: "repo_find after limit = take limit todo"
    using find by (simp add: keyset_find_def table_find_def)
  show ?case
  proof (cases "length todo < limit")
    case True
    then show ?thesis
      by (subst pages_from.simps) (auto simp: Let_def batch)
  next
    case False
    then have ne: "take limit todo \<noteq> []"
      using limit by auto
    then have len: "length (take limit todo) = limit"
      using False by simp
    have last_in: "last (take limit todo) \<in> set todo"
      using ne by (meson in_set_takeD last_in_set)
    have advance: "after = None \<or> uid (last (take limit todo)) > the after"
      using sorted_distinct_less [OF sd, of "last done" "last (take limit todo)"] last_in 1(3) by auto
    obtain ps where ps: "pages_from uid repo_find limit (Some (uid (last (take limit todo)))) = Some ps"
      "concat ps = drop limit todo" "\<forall>p\<in>set ps. p \<noteq> [] \<and> length p \<le> limit"
      using IH [rule_format, of "drop limit todo" "done @ take limit todo" "Some (uid (last (take limit todo)))"]
        limit False ne 1(2) by auto
    have "pages_from uid repo_find limit after = Some (take limit todo # ps)"
      using ne len advance ps(1) by (subst pages_from.simps) (auto simp: Let_def batch)
    with ps ne len show ?thesis
      by auto
  qed
qed

text \<open>C37: pagination is complete. On a table with distinct identifiers the generator ends, and its
  pages, each non-empty and within the limit, hold every row exactly once, in ascending order.\<close>

theorem findPagesByUid_complete:
  assumes "keyset_find uid rows repo_find" "distinct (map uid rows)"
  shows "\<exists>ps. findPagesByUid uid repo_find pageSize = Some ps \<and> concat ps = sort_key uid rows \<and>
     (\<forall>p\<in>set ps. p \<noteq> [] \<and> length p \<le> 1000)"
proof -
  obtain ps where ps: "pages_from uid repo_find (page_limit pageSize) None = Some ps" "concat ps = sort_key uid rows"
    "\<forall>p\<in>set ps. p \<noteq> [] \<and> length p \<le> page_limit pageSize"
    using pages_from_rest [OF assms page_limit_pos, of "[]" "sort_key uid rows" None pageSize] by auto
  then show ?thesis
    using page_limit_le [of pageSize] by (auto simp: findPagesByUid_def intro: order_trans)
qed

theorem findPagesByUid_complete_witness:
  "\<exists>ps. findPagesByUid (\<lambda>n::int. n) (table_find (\<lambda>n. n) [3, 1, 2]) 2 = Some ps \<and> concat ps = [1, 2, 3]"
  using findPagesByUid_complete [of "\<lambda>n::int. n" "[3, 1, 2]" "table_find (\<lambda>n. n) [3, 1, 2]" 2] by auto

lemma find_all_complete:
  "keyset_find uid rows repo_find \<Longrightarrow> distinct (map uid rows) \<Longrightarrow> find_all uid repo_find pageSize = Some (sort_key uid rows)"
  using pages_from_rest [OF _ _ page_limit_pos, of uid rows repo_find "[]" "sort_key uid rows" None pageSize]
  by (auto simp: find_all_def findPagesByUid_def)

end
