(* ===== verification/Legal_Hold.thy ===== *)
theory Legal_Hold
  imports Paging "HOL-Library.AList" "HOL-Library.List_Lexorder" "HOL-Library.Char_ord"
begin

text \<open>
  Legal holds (\<^verbatim>\<open>src/src/util/LegalHoldUtils.ts\<close>): which open matters hold a mailbox, the snapshot a
  batch job loads once, and the guard of a permanent deletion. A stored date is the time value
  JavaScript reads from it, \<^const>\<open>None\<close> for an invalid date (\<^verbatim>\<open>NaN\<close>), with which every comparison is
  false.
\<close>

record Matter =
  matter_uid :: string
  custodianMailboxUids :: "string list option"
  dateRangeStart :: js_time
  dateRangeEnd :: js_time
  closedAt :: "js_time option"

type_synonym matter_finder = "(string, Matter) finder"

definition findAllMatters :: "matter_finder \<Rightarrow> Matter list option" where
  "findAllMatters repo = find_all matter_uid repo 500"

definition matterCovers :: "Matter \<Rightarrow> js_time \<Rightarrow> bool" where
  "matterCovers matter referenceDate \<longleftrightarrow>
     \<not> time_less referenceDate (dateRangeStart matter) \<and> \<not> time_less (dateRangeEnd matter) referenceDate"

text \<open>The snapshot: the map from a custodian mailbox to its open matters, keys in order of insertion.\<close>

type_synonym hold_map = "(string \<times> Matter list) list"

record LegalHoldIndex =
  byMailbox :: hold_map
  heldMailboxUids :: "string list"

definition matters_of :: "hold_map \<Rightarrow> string \<Rightarrow> Matter list" where
  "matters_of m mailboxUid = (case map_of m mailboxUid of None \<Rightarrow> [] | Some ms \<Rightarrow> ms)"

definition add_custodian :: "Matter \<Rightarrow> hold_map \<Rightarrow> string \<Rightarrow> hold_map" where
  "add_custodian matter m mailboxUid = AList.update mailboxUid (matters_of m mailboxUid @ [matter]) m"

definition add_matter :: "hold_map \<Rightarrow> Matter \<Rightarrow> hold_map" where
  "add_matter m matter = foldl (add_custodian matter) m (nullish (custodianMailboxUids matter))"

definition holdIndexOf :: "Matter list \<Rightarrow> LegalHoldIndex" where
  "holdIndexOf matters =
     (let open = filter (\<lambda>matter. closedAt matter = None) matters;
          m = foldl add_matter [] open
      in \<lparr>byMailbox = m, heldMailboxUids = map fst m\<rparr>)"

definition loadLegalHoldIndex :: "matter_finder \<Rightarrow> LegalHoldIndex option" where
  "loadLegalHoldIndex repo = map_option holdIndexOf (findAllMatters repo)"

definition isHeld :: "LegalHoldIndex \<Rightarrow> string \<Rightarrow> js_time option \<Rightarrow> bool" where
  "isHeld index mailboxUid referenceDate =
     (let matters = matters_of (byMailbox index) mailboxUid
      in case referenceDate of
           None \<Rightarrow> matters \<noteq> []
         | Some d \<Rightarrow> list_ex (\<lambda>matter. matterCovers matter d) matters)"

text \<open>\<^verbatim>\<open>matter.custodianMailboxUids.includes(...)\<close> throws when the list is missing.\<close>

definition holds_now :: "string \<Rightarrow> js_time option \<Rightarrow> Matter \<Rightarrow> bool result" where
  "holds_now mailboxUid referenceDate matter =
     (if closedAt matter \<noteq> None then Inr False
      else case custodianMailboxUids matter of
        None \<Rightarrow> Inl TypeError
      | Some uids \<Rightarrow>
          if mailboxUid \<notin> set uids then Inr False
          else Inr (case referenceDate of None \<Rightarrow> True | Some d \<Rightarrow> matterCovers matter d))"

fun filter_r :: "('a \<Rightarrow> bool result) \<Rightarrow> 'a list \<Rightarrow> 'a list result" where
  "filter_r p [] = Inr []"
| "filter_r p (x # xs) = rbind (p x) (\<lambda>b. rbind (filter_r p xs) (\<lambda>ys. Inr (if b then x # ys else ys)))"

definition findActiveHoldsFor :: "matter_finder \<Rightarrow> string \<Rightarrow> js_time option \<Rightarrow> Matter list result option" where
  "findActiveHoldsFor repo mailboxUid referenceDate =
     map_option (filter_r (holds_now mailboxUid referenceDate)) (findAllMatters repo)"

definition hold_message :: "Matter list \<Rightarrow> string" where
  "hold_message holds =
     ''This action is blocked by an active legal hold: '' @ js_join '', '' (map matter_uid holds) @ ''.''"

definition assertNotOnLegalHold :: "matter_finder \<Rightarrow> string \<Rightarrow> js_time option \<Rightarrow> unit result option" where
  "assertNotOnLegalHold repo mailboxUid referenceDate =
     map_option (\<lambda>r. rbind r (\<lambda>holds. if holds \<noteq> [] then Inl (ApiError 409 (hold_message holds)) else Inr ()))
       (findActiveHoldsFor repo mailboxUid referenceDate)"

section \<open>The snapshot answers like the query\<close>

text \<open>Who is held, stated of one matter.\<close>

definition matter_holds :: "string \<Rightarrow> js_time option \<Rightarrow> Matter \<Rightarrow> bool" where
  "matter_holds mailboxUid referenceDate matter \<longleftrightarrow>
     closedAt matter = None \<and> mailboxUid \<in> set (nullish (custodianMailboxUids matter)) \<and>
     (case referenceDate of None \<Rightarrow> True | Some d \<Rightarrow> matterCovers matter d)"

lemma matters_of_update:
  "matters_of (add_custodian matter m k) u = (if u = k then matters_of m u @ [matter] else matters_of m u)"
  by (simp add: matters_of_def add_custodian_def update_conv')

lemma set_matters_of_add: "set (matters_of (foldl (add_custodian matter) m us) u) =
    set (matters_of m u) \<union> (if u \<in> set us then {matter} else {})"
  by (induction us arbitrary: m) (auto simp: matters_of_update)

lemma set_matters_of_index:
  "set (matters_of (foldl add_matter m ms) u) =
     set (matters_of m u) \<union> {x \<in> set ms. u \<in> set (nullish (custodianMailboxUids x))}"
  by (induction ms arbitrary: m) (auto simp: add_matter_def set_matters_of_add)

lemma dom_foldl_add_custodian: "fst ` set (foldl (add_custodian matter) m us) = fst ` set m \<union> set us"
  by (induction us arbitrary: m) (auto simp: add_custodian_def dom_update)

lemma dom_foldl_add_matter:
  "fst ` set (foldl add_matter m ms) = fst ` set m \<union> (\<Union>x\<in>set ms. set (nullish (custodianMailboxUids x)))"
  by (induction ms arbitrary: m) (auto simp: add_matter_def dom_foldl_add_custodian)

lemma isHeld_index:
  "isHeld (holdIndexOf matters) mailboxUid referenceDate \<longleftrightarrow>
     (\<exists>matter\<in>set matters. matter_holds mailboxUid referenceDate matter)"
proof -
  have "set (matters_of (foldl add_matter [] ms) u) = {x \<in> set ms. u \<in> set (nullish (custodianMailboxUids x))}" for ms u
    using set_matters_of_index [of "[]"] by (simp add: matters_of_def)
  then have "set (matters_of (byMailbox (holdIndexOf matters)) mailboxUid) =
      {x \<in> set matters. closedAt x = None \<and> mailboxUid \<in> set (nullish (custodianMailboxUids x))}"
    by (auto simp: holdIndexOf_def Let_def)
  moreover have "xs \<noteq> [] \<longleftrightarrow> (\<exists>x\<in>set xs. True)" for xs :: "Matter list"
    by (cases xs) auto
  ultimately show ?thesis
    by (auto simp: isHeld_def matter_holds_def list_ex_iff Let_def split: option.split)
qed

lemma heldMailboxUids_index:
  "set (heldMailboxUids (holdIndexOf matters)) = {u. \<exists>matter\<in>set matters. matter_holds u None matter}"
  using dom_foldl_add_matter [of "[]" "filter (\<lambda>matter. closedAt matter = None) matters"]
  by (auto simp: holdIndexOf_def Let_def matter_holds_def)

text \<open>A stored table of matters, each with its custodians.\<close>

definition matters_ok :: "Matter list \<Rightarrow> bool" where
  "matters_ok matters \<longleftrightarrow> distinct (map matter_uid matters) \<and> (\<forall>m\<in>set matters. custodianMailboxUids m \<noteq> None)"

lemma filter_r_holds:
  "\<forall>m\<in>set ms. custodianMailboxUids m \<noteq> None \<Longrightarrow>
   filter_r (holds_now mailboxUid referenceDate) ms = Inr (filter (matter_holds mailboxUid referenceDate) ms)"
  by (induction ms) (auto simp: holds_now_def matter_holds_def)

lemma findActiveHoldsFor_eq:
  "keyset_find matter_uid matters repo \<Longrightarrow> matters_ok matters \<Longrightarrow>
   findActiveHoldsFor repo mailboxUid referenceDate =
     Some (Inr (filter (matter_holds mailboxUid referenceDate) (sort_key matter_uid matters)))"
  by (simp add: findActiveHoldsFor_def findAllMatters_def find_all_complete matters_ok_def filter_r_holds)

section \<open>Properties\<close>

text \<open>The snapshot and the query agree. Both read every stored matter; a mailbox is held at a date
  (or at all) by the snapshot exactly when the query names a matter holding it, the query's
  answer being the open matters that name it as a custodian and cover the date, and the
  snapshot's set of held mailboxes is the mailboxes some open matter holds.\<close>

theorem loadLegalHoldIndex_equiv:
  assumes "keyset_find matter_uid matters repo" "matters_ok matters"
  shows "\<exists>index holds. loadLegalHoldIndex repo = Some index \<and>
     findActiveHoldsFor repo mailboxUid referenceDate = Some (Inr holds) \<and>
     set holds = {m \<in> set matters. matter_holds mailboxUid referenceDate m} \<and>
     (isHeld index mailboxUid referenceDate \<longleftrightarrow> holds \<noteq> []) \<and>
     (mailboxUid \<in> set (heldMailboxUids index) \<longleftrightarrow> isHeld index mailboxUid None)"
proof -
  let ?sorted = "sort_key matter_uid matters"
  have index: "loadLegalHoldIndex repo = Some (holdIndexOf ?sorted)"
    using assms by (simp add: loadLegalHoldIndex_def findAllMatters_def find_all_complete matters_ok_def)
  have query: "findActiveHoldsFor repo mailboxUid referenceDate = Some (Inr (filter (matter_holds mailboxUid referenceDate) ?sorted))"
    using assms by (rule findActiveHoldsFor_eq)
  have "isHeld (holdIndexOf ?sorted) mailboxUid referenceDate \<longleftrightarrow> filter (matter_holds mailboxUid referenceDate) ?sorted \<noteq> []"
    by (auto simp: isHeld_index filter_empty_conv)
  moreover have "mailboxUid \<in> set (heldMailboxUids (holdIndexOf ?sorted)) \<longleftrightarrow> isHeld (holdIndexOf ?sorted) mailboxUid None"
    by (auto simp: isHeld_index heldMailboxUids_index)
  ultimately show ?thesis
    using index query by auto
qed

definition example_matters :: "Matter list" where
  "example_matters =
     [\<lparr>matter_uid = ''m2'', custodianMailboxUids = Some [''box''], dateRangeStart = Some 10, dateRangeEnd = None, closedAt = None\<rparr>,
      \<lparr>matter_uid = ''m1'', custodianMailboxUids = Some [''box'', ''old''], dateRangeStart = Some 0, dateRangeEnd = Some 9,
       closedAt = Some (Some 20)\<rparr>]"

lemma example_matters_ok: "matters_ok example_matters"
  by (simp add: matters_ok_def example_matters_def)

theorem loadLegalHoldIndex_equiv_witness:
  "\<exists>index holds. loadLegalHoldIndex (table_find matter_uid example_matters) = Some index \<and>
     findActiveHoldsFor (table_find matter_uid example_matters) ''box'' (Some (Some 99)) = Some (Inr holds) \<and>
     isHeld index ''box'' (Some (Some 99)) \<and> holds = [example_matters ! 0]"
proof -
  obtain index holds where *: "loadLegalHoldIndex (table_find matter_uid example_matters) = Some index"
    "findActiveHoldsFor (table_find matter_uid example_matters) ''box'' (Some (Some 99)) = Some (Inr holds)"
    "set holds = {m \<in> set example_matters. matter_holds ''box'' (Some (Some 99)) m}"
    "isHeld index ''box'' (Some (Some 99)) \<longleftrightarrow> holds \<noteq> []"
    using loadLegalHoldIndex_equiv [OF keyset_table_find example_matters_ok, of "''box''" "Some (Some 99)"]
    by (elim exE conjE)
  have eq: "holds = filter (matter_holds ''box'' (Some (Some 99))) (sort_key matter_uid example_matters)"
    using *(2) findActiveHoldsFor_eq [OF keyset_table_find example_matters_ok] by simp
  have "sort_key matter_uid example_matters = [example_matters ! 1, example_matters ! 0]"
    by (simp add: example_matters_def)
  with eq have "holds = [example_matters ! 0]"
    by (simp add: example_matters_def matter_holds_def matterCovers_def)
  with * show ?thesis
    by (intro exI [of _ index] exI [of _ holds]) simp
qed

text \<open>The guard of a permanent deletion. It lets the operation through exactly when no open matter
  holds the mailbox at the date; otherwise it throws a 409 whose message names every holding matter.\<close>

theorem assertNotOnLegalHold_spec:
  assumes "keyset_find matter_uid matters repo" "matters_ok matters"
  shows "assertNotOnLegalHold repo mailboxUid referenceDate = Some
     (let holds = filter (matter_holds mailboxUid referenceDate) (sort_key matter_uid matters)
      in if holds = [] then Inr () else Inl (ApiError 409 (hold_message holds)))"
  using findActiveHoldsFor_eq [OF assms] by (simp add: assertNotOnLegalHold_def Let_def)

theorem assertNotOnLegalHold_spec_witness:
  "assertNotOnLegalHold (table_find matter_uid example_matters) ''old'' None = Some (Inr ())"
  by (simp add: assertNotOnLegalHold_spec [OF keyset_table_find example_matters_ok])
    (simp add: example_matters_def matter_holds_def)

text \<open>An unreadable bound fails closed. Replacing either bound of a matter by one that is not a
  date keeps every mailbox and date it held under hold, and an unreadable reference date is
  held by every open matter of the mailbox.\<close>

theorem hold_fails_closed:
  "(matter_holds mailboxUid referenceDate m \<longrightarrow>
      matter_holds mailboxUid referenceDate (m\<lparr>dateRangeStart := None\<rparr>) \<and>
      matter_holds mailboxUid referenceDate (m\<lparr>dateRangeEnd := None\<rparr>)) \<and>
   matter_holds mailboxUid (Some None) m = matter_holds mailboxUid None m"
  by (auto simp: matter_holds_def matterCovers_def split: option.splits)

theorem hold_fails_closed_witness:
  "matter_holds ''box'' (Some (Some 99)) (example_matters ! 0) \<and>
   matter_holds ''box'' (Some (Some 99)) ((example_matters ! 0)\<lparr>dateRangeStart := None\<rparr>)"
proof -
  have "matter_holds ''box'' (Some (Some 99)) (example_matters ! 0)"
    by (simp add: example_matters_def matter_holds_def matterCovers_def)
  with hold_fails_closed [of "''box''" "Some (Some 99)" "example_matters ! 0"] show ?thesis
    by blast
qed

end
