(* ===== verification/Inbox_Triage.thy ===== *)
theory Inbox_Triage
  imports Prelude
begin

text \<open>
  What the delivery of a message decides from its headers and its mailbox: the Focused/Other
  classification (\<^verbatim>\<open>src/src/util/FocusedInboxUtils.ts\<close>), whether the mailbox is out of office
  (\<^verbatim>\<open>src/src/util/OofUtils.ts\<close>), and whether an automatic reply may be sent
  (\<^verbatim>\<open>src/src/util/AutoReplyUtils.ts\<close>). The clock is an argument.
\<close>

section \<open>Focused inbox\<close>

datatype MessageClassification = FOCUSED | OTHER

record FocusedInboxSignals =
  sig_override :: "MessageClassification option"
  isInternalSender :: bool
  isKnownCorrespondent :: bool
  listUnsubscribeHeader :: "string option"
  sig_precedenceHeader :: "string option"
  sig_autoSubmittedHeader :: "string option"
  spamScore :: int

definition BULK_PRECEDENCE_VALUES :: "string list" where
  "BULK_PRECEDENCE_VALUES = [''bulk'', ''list'', ''junk'']"

text \<open>\<^verbatim>\<open>header && test(header.trim().toLowerCase())\<close> for a header that may be absent.\<close>

definition header_says :: "string option \<Rightarrow> (string \<Rightarrow> bool) \<Rightarrow> bool" where
  "header_says h test \<longleftrightarrow> (case h of None \<Rightarrow> False | Some v \<Rightarrow> v \<noteq> [] \<and> test (js_lower (js_trim v)))"

definition isBulkOrAutomated :: "FocusedInboxSignals \<Rightarrow> bool" where
  "isBulkOrAutomated signals =
     (if listUnsubscribeHeader signals \<noteq> None \<and> listUnsubscribeHeader signals \<noteq> Some [] then True
      else if header_says (sig_precedenceHeader signals) (\<lambda>v. v \<in> set BULK_PRECEDENCE_VALUES) then True
      else header_says (sig_autoSubmittedHeader signals) (\<lambda>v. v \<noteq> ''no''))"

definition classifyMessage :: "FocusedInboxSignals \<Rightarrow> int \<Rightarrow> MessageClassification" where
  "classifyMessage signals otherSpamScoreThreshold =
     (case sig_override signals of
        Some c \<Rightarrow> c
      | None \<Rightarrow>
          if isBulkOrAutomated signals then OTHER
          else if isInternalSender signals \<or> isKnownCorrespondent signals then FOCUSED
          else if spamScore signals \<ge> otherSpamScoreThreshold then OTHER
          else FOCUSED)"

section \<open>Out of office\<close>

record OofMailbox =
  oofEnabled :: bool
  oofMessage :: string
  oofStartTime :: "js_time option"
  oofEndTime :: "js_time option"

record OofEvent =
  autoReplyEnabled :: bool
  autoReplyMessage :: "string option"

text \<open>\<^verbatim>\<open>ActiveOof | undefined\<close>: the message to reply with.\<close>

definition resolveActiveOof :: "int \<Rightarrow> OofMailbox \<Rightarrow> OofEvent option \<Rightarrow> string option" where
  "resolveActiveOof now mailbox activeEvent =
     (if (case activeEvent of Some e \<Rightarrow> autoReplyEnabled e | None \<Rightarrow> False)
      then Some (case autoReplyMessage (the activeEvent) of Some m \<Rightarrow> m | None \<Rightarrow> [])
      else if oofEnabled mailbox then
        (case (oofStartTime mailbox, oofEndTime mailbox) of
           (Some start, Some end) \<Rightarrow>
             if start = None \<or> end = None \<or> time_less (Some now) start \<or> time_less end (Some now) then None
             else Some (oofMessage mailbox)
         | _ \<Rightarrow> Some (oofMessage mailbox))
      else None)"

section \<open>Automatic replies\<close>

record AutoReplyHeaders =
  autoSubmittedHeader :: "string option"
  precedenceHeader :: "string option"

text \<open>\<^verbatim>\<open>/^\s*(?:<\s*>)?\s*$/\<close>: the null sender of a bounce.\<close>

definition null_sender :: "string \<Rightarrow> bool" where
  "null_sender s =
     (case js_trim s of
        [] \<Rightarrow> True
      | c # cs \<Rightarrow> c = CHR ''<'' \<and> cs \<noteq> [] \<and> last cs = CHR ''>'' \<and> list_all js_is_ws (butlast cs))"

definition isAutoReplyEligible :: "string \<Rightarrow> AutoReplyHeaders \<Rightarrow> bool" where
  "isAutoReplyEligible envelopeFrom headers =
     (if envelopeFrom = [] \<or> null_sender envelopeFrom then False
      else if header_says (autoSubmittedHeader headers) (\<lambda>v. v \<noteq> ''no'') then False
      else if header_says (precedenceHeader headers) (\<lambda>v. v \<in> set BULK_PRECEDENCE_VALUES) then False
      else True)"

section \<open>Properties\<close>

text \<open>The two readings of the RFC 3834 headers agree. A message gets an automatic reply exactly
  when it has a real sender and the classifier sees no automated mail in the same two headers,
  the list header apart; so no automatic reply answers a bounce, list mail or another
  responder, whatever case or spacing its headers use.\<close>

theorem isAutoReplyEligible_classifier:
  "isAutoReplyEligible envelopeFrom headers \<longleftrightarrow>
     \<not> null_sender envelopeFrom \<and>
     \<not> isBulkOrAutomated (signals\<lparr>listUnsubscribeHeader := None,
          sig_precedenceHeader := precedenceHeader headers, sig_autoSubmittedHeader := autoSubmittedHeader headers\<rparr>)"
  by (auto simp: isAutoReplyEligible_def isBulkOrAutomated_def null_sender_def js_trim_def)

text \<open>Mail is set aside only on a positive signal. Without the user's override a message is
  classified Other exactly when it is bulk or automated, or comes from a stranger with a spam
  score at the threshold; raising the threshold only ever moves mail to Focused, and an
  override decides alone.\<close>

theorem classifyMessage_other:
  "(classifyMessage signals threshold = OTHER \<longleftrightarrow>
      sig_override signals = Some OTHER \<or>
      sig_override signals = None \<and>
        (isBulkOrAutomated signals \<or>
         \<not> isInternalSender signals \<and> \<not> isKnownCorrespondent signals \<and> threshold \<le> spamScore signals)) \<and>
   (threshold \<le> threshold' \<longrightarrow> classifyMessage signals threshold = FOCUSED \<longrightarrow> classifyMessage signals threshold' = FOCUSED)"
  by (auto simp: classifyMessage_def split: option.splits)

theorem classifyMessage_other_witness:
  "classifyMessage \<lparr>sig_override = None, isInternalSender = False, isKnownCorrespondent = False, listUnsubscribeHeader = None,
     sig_precedenceHeader = None, sig_autoSubmittedHeader = Some ''no'', spamScore = 4\<rparr> 7 = FOCUSED"
  using classifyMessage_other [of "\<lparr>sig_override = None, isInternalSender = False, isKnownCorrespondent = False,
     listUnsubscribeHeader = None, sig_precedenceHeader = None, sig_autoSubmittedHeader = Some ''no'', spamScore = 4\<rparr>" 5 7]
  by (simp add: classifyMessage_def isBulkOrAutomated_def header_says_def js_trim_def js_lower_def js_is_ws_def js_lower_char_def)

text \<open>An out-of-office reply is sent inside its window only. The calendar event's reply comes
  first; the mailbox's own reply is given while it is enabled and, when both bounds are
  stored, both are dates and the current time lies between them.\<close>

theorem resolveActiveOof_spec:
  "resolveActiveOof now mailbox activeEvent = Some msg \<longleftrightarrow>
     (\<exists>e. activeEvent = Some e \<and> autoReplyEnabled e \<and>
        (autoReplyMessage e = Some msg \<or> autoReplyMessage e = None \<and> msg = [])) \<or>
     (\<nexists>e. activeEvent = Some e \<and> autoReplyEnabled e) \<and> oofEnabled mailbox \<and> msg = oofMessage mailbox \<and>
       (oofStartTime mailbox = None \<or> oofEndTime mailbox = None \<or>
        (\<exists>s t. oofStartTime mailbox = Some (Some s) \<and> oofEndTime mailbox = Some (Some t) \<and> s \<le> now \<and> now \<le> t))"
  by (auto simp: resolveActiveOof_def split: option.splits if_splits)

end
