(* ===== verification/Blob_References.thy ===== *)
theory Blob_References
  imports Prelude
begin

text \<open>
  Shared message content (\<^verbatim>\<open>src/src/util/BlobReferenceUtils.ts\<close>): a blob is deleted only when no row
  of any source still points at it. Every repository query is awaited, so between two queries
  the database may change: a query at step \<open>t\<close> reads the state \<open>db t\<close> of a sequence of database
  states. A row is its fields by name; a soft-deleted row is a row like any other.
\<close>

section \<open>Rows and criteria\<close>

type_synonym blob_row = "(string \<times> string) list"
type_synonym repo_id = string
type_synonym database = "repo_id \<Rightarrow> blob_row list"

text \<open>\<^verbatim>\<open>field: "eq(v)"\<close> and \<^verbatim>\<open>field: "ne(v)"\<close>, and the number of rows that satisfy every criterion.\<close>

datatype criterion = Eq string string | Ne string string

fun satisfies :: "blob_row \<Rightarrow> criterion \<Rightarrow> bool" where
  "satisfies row (Eq f v) = (map_of row f = Some v)"
| "satisfies row (Ne f v) = (map_of row f \<noteq> Some v)"

definition count_rows :: "blob_row list \<Rightarrow> criterion list \<Rightarrow> nat" where
  "count_rows rows criteria = length (filter (\<lambda>r. list_all (satisfies r) criteria) rows)"

record BlobReferenceSource =
  src_repo :: repo_id
  src_entityType :: "string option"
  src_fields :: "string list"
  extraCriteria :: "criterion list"

record MessageBlobRepos =
  messageRepo :: "repo_id option"
  attachmentRepo :: "repo_id option"
  quarantineEntryRepo :: "repo_id option"
  ingestQueueEntryRepo :: "repo_id option"

record BlobReferenceExclusion =
  excl_repo :: "repo_id option"
  excl_entityType :: "string option"
  excl_uid :: string

section \<open>The source's functions\<close>

definition source_if :: "repo_id option \<Rightarrow> string \<Rightarrow> string list \<Rightarrow> criterion list \<Rightarrow> BlobReferenceSource list" where
  "source_if repo ty fs extra =
     (case repo of
        None \<Rightarrow> []
      | Some r \<Rightarrow> [\<lparr>src_repo = r, src_entityType = Some ty, src_fields = fs, extraCriteria = extra\<rparr>])"

definition messageBlobReferenceSources :: "MessageBlobRepos \<Rightarrow> BlobReferenceSource list" where
  "messageBlobReferenceSources repos =
     source_if (ingestQueueEntryRepo repos) ''ingestQueueEntry'' [''rawBlobKey''] [Ne ''status'' ''delivered''] @
     source_if (quarantineEntryRepo repos) ''quarantineEntry'' [''rawBlobKey''] [] @
     source_if (messageRepo repos) ''message'' [''bodyBlobKey'', ''sanitizedHtmlBlobKey''] [] @
     source_if (attachmentRepo repos) ''attachment'' [''blobKey'', ''extractedTextBlobKey''] []"

text \<open>The loops count their queries: the result is the answer and the step reached.\<close>

fun fields_reference ::
  "(nat \<Rightarrow> database) \<Rightarrow> nat \<Rightarrow> repo_id \<Rightarrow> criterion list \<Rightarrow> string \<Rightarrow> string list \<Rightarrow> bool \<times> nat" where
  "fields_reference db t repo criteria key [] = (False, t)"
| "fields_reference db t repo criteria key (field # fs) =
     (if count_rows (db t repo) (criteria @ [Eq field key]) > 0 then (True, Suc t)
      else fields_reference db (Suc t) repo criteria key fs)"

definition sourceReferences ::
  "(nat \<Rightarrow> database) \<Rightarrow> nat \<Rightarrow> BlobReferenceSource \<Rightarrow> string \<Rightarrow> string option \<Rightarrow> bool \<times> nat" where
  "sourceReferences db t source key excludedUid =
     (let excluded = (case excludedUid of None \<Rightarrow> [] | Some u \<Rightarrow> [Ne ''uid'' u])
      in fields_reference db t (src_repo source) (extraCriteria source @ excluded) key (src_fields source))"

definition excluded_uid :: "BlobReferenceExclusion option \<Rightarrow> BlobReferenceSource \<Rightarrow> string option" where
  "excluded_uid exclude source =
     (case exclude of
        None \<Rightarrow> None
      | Some e \<Rightarrow>
          if excl_repo e = Some (src_repo source) \<or>
             excl_entityType e \<noteq> None \<and> excl_entityType e = src_entityType source
          then Some (excl_uid e) else None)"

fun isBlobKeyReferenced ::
  "(nat \<Rightarrow> database) \<Rightarrow> nat \<Rightarrow> BlobReferenceSource list \<Rightarrow> string \<Rightarrow> BlobReferenceExclusion option \<Rightarrow> bool \<times> nat" where
  "isBlobKeyReferenced db t [] key exclude = (False, t)"
| "isBlobKeyReferenced db t (source # sources) key exclude =
     (case sourceReferences db t source key (excluded_uid exclude source) of
        (True, t') \<Rightarrow> (True, t')
      | (False, t') \<Rightarrow> isBlobKeyReferenced db t' sources key exclude)"

text \<open>\<^verbatim>\<open>blobStore.delete(key)\<close> may throw: \<open>fails\<close> says for which keys. The result is the blobs left,
  and the error or the keys deleted.\<close>

fun delete_keys ::
  "(string \<Rightarrow> bool) \<Rightarrow> (nat \<Rightarrow> database) \<Rightarrow> nat \<Rightarrow> BlobReferenceSource list \<Rightarrow> BlobReferenceExclusion option \<Rightarrow>
   string list \<Rightarrow> string set \<Rightarrow> string list \<Rightarrow> string set \<times> string list result" where
  "delete_keys fails db t sources exclude [] blobs deleted = (blobs, Inr deleted)"
| "delete_keys fails db t sources exclude (key # keys) blobs deleted =
     (case isBlobKeyReferenced db t sources key exclude of
        (True, t') \<Rightarrow> delete_keys fails db t' sources exclude keys blobs deleted
      | (False, t') \<Rightarrow>
          if fails key then (blobs, Inl (OtherError ''blob store''))
          else delete_keys fails db (Suc t') sources exclude keys (blobs - {key}) (deleted @ [key]))"

definition deleteBlobsIfUnreferenced ::
  "(string \<Rightarrow> bool) \<Rightarrow> (nat \<Rightarrow> database) \<Rightarrow> string set \<Rightarrow> BlobReferenceSource list \<Rightarrow> string option list \<Rightarrow>
   BlobReferenceExclusion option \<Rightarrow> string set \<times> string list result" where
  "deleteBlobsIfUnreferenced fails db blobs sources keys exclude =
     delete_keys fails db 0 sources exclude
       (uniq (List.map_filter (\<lambda>k. case k of Some s \<Rightarrow> if length s > 0 then Some s else None | None \<Rightarrow> None) keys))
       blobs []"

section \<open>The queries of a check\<close>

type_synonym query = "repo_id \<times> criterion list"

definition queries_of :: "BlobReferenceSource list \<Rightarrow> string \<Rightarrow> BlobReferenceExclusion option \<Rightarrow> query list" where
  "queries_of sources key exclude =
     concat (map (\<lambda>s. map (\<lambda>f. (src_repo s,
         extraCriteria s @ (case excluded_uid exclude s of None \<Rightarrow> [] | Some u \<Rightarrow> [Ne ''uid'' u]) @ [Eq f key]))
       (src_fields s)) sources)"

definition answers :: "database \<Rightarrow> query \<Rightarrow> bool" where
  "answers db q \<longleftrightarrow> (\<exists>r\<in>set (db (fst q)). list_all (satisfies r) (snd q))"

lemma count_rows_pos: "0 < count_rows rows cs \<longleftrightarrow> (\<exists>r\<in>set rows. list_all (satisfies r) cs)"
  by (auto simp: count_rows_def filter_empty_conv)

fun run_queries :: "(nat \<Rightarrow> database) \<Rightarrow> nat \<Rightarrow> query list \<Rightarrow> bool \<times> nat" where
  "run_queries db t [] = (False, t)"
| "run_queries db t (q # qs) = (if answers (db t) q then (True, Suc t) else run_queries db (Suc t) qs)"

lemma run_queries_append:
  "run_queries db t (xs @ ys) =
     (case run_queries db t xs of (True, t') \<Rightarrow> (True, t') | (False, t') \<Rightarrow> run_queries db t' ys)"
  by (induction xs arbitrary: t) auto

lemma fields_reference_run:
  "fields_reference db t repo cs key fs = run_queries db t (map (\<lambda>f. (repo, cs @ [Eq f key])) fs)"
  by (induction fs arbitrary: t) (auto simp: count_rows_pos answers_def)

lemma isBlobKeyReferenced_run: "isBlobKeyReferenced db t sources key exclude = run_queries db t (queries_of sources key exclude)"
  by (induction sources arbitrary: t)
    (simp_all add: queries_of_def sourceReferences_def fields_reference_run run_queries_append Let_def
      split: prod.split bool.split)

text \<open>In a database that does not change, the check answers whether some query has a row.\<close>

lemma run_queries_still: "fst (run_queries (\<lambda>_. db) t qs) \<longleftrightarrow> (\<exists>q\<in>set qs. answers db q)"
  by (induction qs arbitrary: t) auto

text \<open>A reference that only ever moves to the same or a later query is not missed.\<close>

lemma run_queries_forward:
  assumes "\<And>t i. i < length qs \<Longrightarrow> answers (db t) (qs ! i) \<Longrightarrow> \<exists>j. i \<le> j \<and> j < length qs \<and> answers (db (Suc t)) (qs ! j)"
    and "k \<le> i" "i < length qs" "answers (db t) (qs ! i)"
  shows "fst (run_queries db t (drop k qs))"
  using assms(2-)
proof (induction "length qs - k" arbitrary: k i t)
  case 0
  then show ?case by simp
next
  case (Suc n)
  then have k: "k < length qs" "drop k qs = qs ! k # drop (Suc k) qs"
    by (simp_all add: Cons_nth_drop_Suc)
  show ?case
  proof (cases "answers (db t) (qs ! k)")
    case True
    then show ?thesis by (simp add: k)
  next
    case False
    then have "Suc k \<le> i"
      using Suc.prems by (metis le_antisym not_less_eq_eq)
    obtain j where "i \<le> j" "j < length qs" "answers (db (Suc t)) (qs ! j)"
      using assms(1) [OF Suc.prems(2,3)] by blast
    then have "fst (run_queries db (Suc t) (drop (Suc k) qs))"
      using Suc.hyps(1) [of "Suc k" j "Suc t"] Suc.hyps(2) \<open>Suc k \<le> i\<close> by simp
    with False show ?thesis
      by (simp add: k)
  qed
qed

section \<open>Delivery while a check runs\<close>

text \<open>What the rest of the program may do to the four tables between two queries: add rows; and mark
  a queue entry delivered, once a quarantine entry or a message (other than the row about to
  be deleted) holds the entry's blob key.\<close>

definition all_repos :: MessageBlobRepos where
  "all_repos = \<lparr>messageRepo = Some ''Message'', attachmentRepo = Some ''Attachment'',
     quarantineEntryRepo = Some ''QuarantineEntry'', ingestQueueEntryRepo = Some ''IngestQueueEntry''\<rparr>"

definition holds_key :: "string option \<Rightarrow> string \<Rightarrow> string \<Rightarrow> blob_row \<Rightarrow> bool" where
  "holds_key excluded field key row \<longleftrightarrow>
     map_of row field = Some key \<and> (case excluded of None \<Rightarrow> True | Some u \<Rightarrow> map_of row ''uid'' \<noteq> Some u)"

inductive delivery_step :: "string option \<Rightarrow> database \<Rightarrow> database \<Rightarrow> bool" for excluded where
  idle: "delivery_step excluded db db"
| add_rows: "\<forall>r. set (db r) \<subseteq> set (db' r) \<Longrightarrow> delivery_step excluded db db'"
| mark_delivered:
    "db ''IngestQueueEntry'' = xs @ entry # ys \<Longrightarrow> map_of entry ''rawBlobKey'' = Some key \<Longrightarrow>
     (\<exists>row\<in>set (db ''QuarantineEntry''). holds_key excluded ''rawBlobKey'' key row) \<or>
     (\<exists>row\<in>set (db ''Message''). holds_key excluded ''bodyBlobKey'' key row) \<Longrightarrow>
     delivery_step excluded db (db(''IngestQueueEntry'' := xs @ ((''status'', ''delivered'') # entry) # ys))"

text \<open>The six queries of a check that excludes at most one message.\<close>

definition message_exclusion :: "string option \<Rightarrow> BlobReferenceExclusion option" where
  "message_exclusion excluded =
     map_option (\<lambda>u. \<lparr>excl_repo = None, excl_entityType = Some ''message'', excl_uid = u\<rparr>) excluded"

definition not_uid :: "string option \<Rightarrow> criterion list" where
  "not_uid excluded = (case excluded of None \<Rightarrow> [] | Some u \<Rightarrow> [Ne ''uid'' u])"

lemma message_queries:
  "queries_of (messageBlobReferenceSources all_repos) key (message_exclusion excluded) =
     [(''IngestQueueEntry'', [Ne ''status'' ''delivered'', Eq ''rawBlobKey'' key]),
      (''QuarantineEntry'', [Eq ''rawBlobKey'' key]),
      (''Message'', not_uid excluded @ [Eq ''bodyBlobKey'' key]),
      (''Message'', not_uid excluded @ [Eq ''sanitizedHtmlBlobKey'' key]),
      (''Attachment'', [Eq ''blobKey'' key]),
      (''Attachment'', [Eq ''extractedTextBlobKey'' key])]"
  by (simp add: queries_of_def messageBlobReferenceSources_def all_repos_def source_if_def message_exclusion_def
      excluded_uid_def not_uid_def split: option.split)

definition referenced :: "string option \<Rightarrow> string \<Rightarrow> database \<Rightarrow> bool" where
  "referenced excluded key db \<longleftrightarrow>
     (\<exists>q\<in>set (queries_of (messageBlobReferenceSources all_repos) key (message_exclusion excluded)). answers db q)"

lemma answers_mono: "set (db r) \<subseteq> set (db' r) \<Longrightarrow> answers db (r, cs) \<Longrightarrow> answers db' (r, cs)"
  by (auto simp: answers_def)

lemma delivery_step_forward:
  assumes "delivery_step excluded db db'"
    and qs: "qs = queries_of (messageBlobReferenceSources all_repos) key (message_exclusion excluded)"
    and i: "i < length qs" "answers db (qs ! i)"
  shows "\<exists>j. i \<le> j \<and> j < length qs \<and> answers db' (qs ! j)"
  using assms(1)
proof cases
  case idle
  then show ?thesis using i by auto
next
  case add_rows
  then have "answers db' (qs ! i)"
    using i(2) answers_mono [of db "fst (qs ! i)" db' "snd (qs ! i)"] by simp
  with i(1) show ?thesis by auto
next
  case (mark_delivered xs entry ys k)
  show ?thesis
  proof (cases "i = 0")
    case False
    then have "fst (qs ! i) \<noteq> ''IngestQueueEntry''"
      using i(1) by (cases i) (auto simp: qs message_queries nth_Cons split: nat.split)
    then have "answers db' (qs ! i)"
      using i(2) by (simp add: mark_delivered(1) answers_def)
    with i(1) show ?thesis by auto
  next
    case True
    then obtain e where e: "e \<in> set (db ''IngestQueueEntry'')" "map_of e ''status'' \<noteq> Some ''delivered''" "map_of e ''rawBlobKey'' = Some key"
      using i(2) by (auto simp: qs message_queries answers_def)
    show ?thesis
    proof (cases "e \<in> set (xs @ ys)")
      case True
      then have "answers db' (qs ! 0)"
        using e by (auto simp: qs message_queries answers_def mark_delivered(1))
      with i(1) \<open>i = 0\<close> show ?thesis by auto
    next
      case False
      then have "k = key"
        using e mark_delivered(2,3) by auto
      then consider r where "r \<in> set (db ''QuarantineEntry'')" "holds_key excluded ''rawBlobKey'' key r"
        | r where "r \<in> set (db ''Message'')" "holds_key excluded ''bodyBlobKey'' key r"
        using mark_delivered(4) by blast
      then show ?thesis
      proof cases
        case 1
        then have "answers db' (qs ! 1)"
          by (auto simp: qs message_queries answers_def mark_delivered(1) holds_key_def)
        then show ?thesis
          using \<open>i = 0\<close> by (intro exI [of _ 1]) (simp add: qs message_queries)
      next
        case 2
        then have "answers db' (qs ! 2)"
          by (auto simp: qs message_queries answers_def mark_delivered(1) holds_key_def not_uid_def split: option.splits)
        then show ?thesis
          using \<open>i = 0\<close> by (intro exI [of _ 2]) (simp add: qs message_queries)
      qed
    qed
  qed
qed

lemma referenced_not_missed:
  assumes "\<forall>n. delivery_step excluded (db n) (db (Suc n))" "referenced excluded key (db t)"
  shows "fst (isBlobKeyReferenced db t (messageBlobReferenceSources all_repos) key (message_exclusion excluded))"
proof -
  let ?qs = "queries_of (messageBlobReferenceSources all_repos) key (message_exclusion excluded)"
  obtain i where "i < length ?qs" "answers (db t) (?qs ! i)"
    using assms(2) by (auto simp: referenced_def in_set_conv_nth)
  then show ?thesis
    using run_queries_forward [of ?qs db 0 i t] delivery_step_forward [OF assms(1) [rule_format] refl]
    by (simp add: isBlobKeyReferenced_run)
qed

lemma referenced_preserved:
  "delivery_step excluded db db' \<Longrightarrow> referenced excluded key db \<Longrightarrow> referenced excluded key db'"
  unfolding referenced_def by (metis delivery_step_forward in_set_conv_nth)

section \<open>Properties\<close>

lemma delete_keys_keeps:
  assumes "\<And>t. fst (isBlobKeyReferenced db t sources key exclude)" "key \<notin> set deleted"
  shows "(key \<in> fst (delete_keys fails db t sources exclude keys blobs deleted) \<longleftrightarrow> key \<in> blobs) \<and>
     (\<forall>ds. snd (delete_keys fails db t sources exclude keys blobs deleted) = Inr ds \<longrightarrow> key \<notin> set ds)"
  using assms(2)
proof (induction keys arbitrary: t blobs deleted)
  case (Cons k keys)
  obtain found t' where step: "isBlobKeyReferenced db t sources k exclude = (found, t')"
    by fastforce
  with assms(1) [of t] have "found \<or> k \<noteq> key"
    by (cases "k = key") auto
  then consider "found" | "\<not> found" "k \<noteq> key"
    by blast
  then show ?case
  proof cases
    case 1
    with step Cons.IH [OF Cons.prems] show ?thesis by simp
  next
    case 2
    then have "key \<notin> set (deleted @ [k])"
      using Cons.prems by simp
    note IH = Cons.IH [OF this, of "Suc t'" "blobs - {k}"]
    show ?thesis
    proof (cases "fails k")
      case True
      with step 2 show ?thesis by simp
    next
      case False
      then have "delete_keys fails db t sources exclude (k # keys) blobs deleted =
          delete_keys fails db (Suc t') sources exclude keys (blobs - {k}) (deleted @ [k])"
        using step 2 by simp
      moreover have "key \<in> blobs - {k} \<longleftrightarrow> key \<in> blobs"
        using 2 by auto
      ultimately show ?thesis
        using IH by (simp only: simp_thms) blast
    qed
  qed
qed simp

definition wanted_keys :: "string option list \<Rightarrow> string list" where
  "wanted_keys keys = uniq (filter (\<lambda>s. s \<noteq> []) (List.map_filter id keys))"

lemma wanted_keys_eq:
  "uniq (List.map_filter (\<lambda>k. case k of Some s \<Rightarrow> if length s > 0 then Some s else None | None \<Rightarrow> None) keys) = wanted_keys keys"
proof -
  have "List.map_filter (\<lambda>k. case k of Some s \<Rightarrow> if length s > 0 then Some s else None | None \<Rightarrow> None) keys =
      filter (\<lambda>s. s \<noteq> []) (List.map_filter id keys)"
    by (induction keys) (auto split: option.split)
  then show ?thesis by (simp add: wanted_keys_def)
qed

lemma delete_keys_still:
  assumes "\<forall>k\<in>set keys. \<not> fails k"
  shows "delete_keys fails (\<lambda>_. db) t sources exclude keys blobs deleted =
    (let ds = filter (\<lambda>k. \<not> (\<exists>q\<in>set (queries_of sources k exclude). answers db q)) keys
     in (blobs - set ds, Inr (deleted @ ds)))"
  using assms
proof (induction keys arbitrary: t blobs deleted)
  case (Cons k keys)
  obtain found t' where step: "isBlobKeyReferenced (\<lambda>_. db) t sources k exclude = (found, t')"
    by fastforce
  then have "found \<longleftrightarrow> (\<exists>q\<in>set (queries_of sources k exclude). answers db q)"
    using run_queries_still [of db t "queries_of sources k exclude"] by (simp add: isBlobKeyReferenced_run)
  with step Cons show ?case
    by (cases found) (auto simp: Let_def)
qed simp

text \<open>C4: shared content is never deleted from under a row. Whatever rows are added and queue entries
  delivered while the check runs, a key some row refers to at the start is still there at the
  end and is not among the keys deleted, because the sources are queried in the direction in
  which delivery moves a reference.\<close>

theorem deleteBlobs_never_dangling:
  assumes "\<forall>n. delivery_step excluded (db n) (db (Suc n))" "referenced excluded key (db 0)"
  shows "let r = deleteBlobsIfUnreferenced fails db blobs (messageBlobReferenceSources all_repos) keys (message_exclusion excluded)
     in (key \<in> fst r \<longleftrightarrow> key \<in> blobs) \<and> (\<forall>deleted. snd r = Inr deleted \<longrightarrow> key \<notin> set deleted)"
proof -
  have "referenced excluded key (db t)" for t
    by (induction t) (use assms referenced_preserved in blast)+
  then have "fst (isBlobKeyReferenced db t (messageBlobReferenceSources all_repos) key (message_exclusion excluded))" for t
    using referenced_not_missed [OF assms(1)] by blast
  then show ?thesis
    unfolding Let_def deleteBlobsIfUnreferenced_def by (intro delete_keys_keeps) simp_all
qed

text \<open>A delivery that races the check: the message row appears and its queue entry is marked.\<close>

definition racing_delivery :: "nat \<Rightarrow> database" where
  "racing_delivery t repo =
     (if repo = ''IngestQueueEntry'' then
        (if t < 4 then [[(''rawBlobKey'', ''k'')]] else [[(''status'', ''delivered''), (''rawBlobKey'', ''k'')]])
      else if repo = ''Message'' \<and> 3 \<le> t then [[(''uid'', ''m''), (''bodyBlobKey'', ''k'')]]
      else [])"

lemma racing_delivery_steps: "delivery_step None (racing_delivery n) (racing_delivery (Suc n))"
proof -
  consider "n = 3" | "n \<noteq> 3" by blast
  then show ?thesis
  proof cases
    case 1
    have eq: "racing_delivery 4 = (racing_delivery 3)(''IngestQueueEntry'' := [] @ ((''status'', ''delivered'') # [(''rawBlobKey'', ''k'')]) # [])"
      by (rule ext) (simp add: racing_delivery_def)
    have "delivery_step None (racing_delivery 3)
        ((racing_delivery 3)(''IngestQueueEntry'' := [] @ ((''status'', ''delivered'') # [(''rawBlobKey'', ''k'')]) # []))"
      by (rule delivery_step.mark_delivered [of _ _ _ _ "''k''"]) (simp_all add: racing_delivery_def holds_key_def)
    with 1 eq show ?thesis by simp
  next
    case 2
    then show ?thesis
      by (intro delivery_step.add_rows) (auto simp: racing_delivery_def)
  qed
qed

lemma racing_delivery_referenced: "referenced None ''k'' (racing_delivery 0)"
  by (simp add: referenced_def message_queries answers_def racing_delivery_def)

theorem deleteBlobs_never_dangling_witness:
  "''k'' \<in> fst (deleteBlobsIfUnreferenced (\<lambda>_. False) racing_delivery {''k''} (messageBlobReferenceSources all_repos)
     [Some ''k''] (message_exclusion None))"
  using deleteBlobs_never_dangling [of None racing_delivery "''k''" "\<lambda>_. False" "{''k''}" "[Some ''k'']"]
    racing_delivery_steps racing_delivery_referenced
  by (simp add: Let_def)

text \<open>The order of the sources matters. Queried in the opposite order, the same kind of delivery
  makes the check miss a reference that exists at every step, and the blob is deleted.\<close>

theorem reverse_order_dangles:
  "\<exists>db. (\<forall>n. delivery_step None (db n) (db (Suc n))) \<and> (\<forall>n. referenced None ''k'' (db n)) \<and>
     fst (deleteBlobsIfUnreferenced (\<lambda>_. False) db {''k''} (rev (messageBlobReferenceSources all_repos)) [Some ''k''] None) = {}"
proof (intro exI conjI allI)
  show "delivery_step None (racing_delivery n) (racing_delivery (Suc n))" for n
    by (rule racing_delivery_steps)
  show "referenced None ''k'' (racing_delivery n)" for n
    by (induction n) (use racing_delivery_referenced racing_delivery_steps referenced_preserved in blast)+
  show "fst (deleteBlobsIfUnreferenced (\<lambda>_. False) racing_delivery {''k''} (rev (messageBlobReferenceSources all_repos)) [Some ''k''] None) = {}"
    by (simp add: deleteBlobsIfUnreferenced_def uniq_def set_add_def messageBlobReferenceSources_def all_repos_def source_if_def
        sourceReferences_def excluded_uid_def count_rows_def racing_delivery_def)
qed

text \<open>On a database that does not change, the keys deleted are exactly the distinct non-empty keys
  no row refers to, in the order given, and exactly those blobs are gone.\<close>

theorem deleteBlobsIfUnreferenced_spec:
  assumes "\<forall>k\<in>set (wanted_keys keys). \<not> fails k"
  shows "deleteBlobsIfUnreferenced fails (\<lambda>_. db) blobs sources keys exclude =
    (let deleted = filter (\<lambda>k. \<not> (\<exists>q\<in>set (queries_of sources k exclude). answers db q)) (wanted_keys keys)
     in (blobs - set deleted, Inr deleted))"
  using delete_keys_still [OF assms] by (simp add: deleteBlobsIfUnreferenced_def wanted_keys_eq)

theorem deleteBlobsIfUnreferenced_spec_witness:
  "deleteBlobsIfUnreferenced (\<lambda>_. False) (\<lambda>_ _. []) {''a'', ''b''} (messageBlobReferenceSources all_repos)
     [Some ''a'', None, Some [], Some ''a''] None = ({''b''}, Inr [''a''])"
  using deleteBlobsIfUnreferenced_spec [of "[Some ''a'', None, Some [], Some ''a'']" "\<lambda>_. False" "\<lambda>_. []" "{''a'', ''b''}"
      "messageBlobReferenceSources all_repos" None]
  by (auto simp: wanted_keys_def uniq_def set_add_def answers_def)

end
