(* ===== verification/Free_Busy.thy ===== *)
theory Free_Busy
  imports Addresses "HOL-Library.Multiset"
begin

text \<open>
  Free/busy (\<^verbatim>\<open>src/src/util/FreeBusyUtils.ts\<close>): the busy windows of a calendar and their merge into
  sorted, disjoint windows. Times are milliseconds. The expansion of a recurring event
  (\<^verbatim>\<open>expandOccurrencesDetailed()\<close> of \<^verbatim>\<open>IcsUtils.ts\<close>) is an argument: the occurrences it found in the
  window and whether a safety cap cut it short.
\<close>

section \<open>Events\<close>

datatype AttendeeResponseStatus = ARS_NEEDS_ACTION | ARS_ACCEPTED | ARS_DECLINED | ARS_TENTATIVE
datatype CalendarEventStatus = CES_TENTATIVE | CES_CONFIRMED | CES_CANCELLED
datatype BusyStatus = BS_FREE | BS_BUSY | BS_TENTATIVE | BS_OUT_OF_OFFICE

record Attendee =
  att_address :: string
  att_responseStatus :: AttendeeResponseStatus
  att_isOrganizer :: bool

record RecurrenceRule =
  rr_exceptions :: "int list option"
  rr_rule :: string

record CalendarEvent =
  icalUid :: string
  ev_startDate :: int
  ev_endDate :: int
  ev_timezone :: "string option"
  ev_allDay :: bool
  ev_status :: CalendarEventStatus
  ev_busyStatus :: BusyStatus
  ev_recurrenceRule :: "RecurrenceRule option"
  ev_recurrenceId :: "int option"
  ev_organizer :: "string option"
  ev_attendees :: "Attendee list option"

record BusyInterval =
  bi_start :: int
  bi_end :: int
  bi_tentative :: bool

record OccurrenceExpansion =
  occurrences :: "(int \<times> int) list"
  truncated :: bool

type_synonym expander = "CalendarEvent \<Rightarrow> int \<Rightarrow> int \<Rightarrow> int list option \<Rightarrow> OccurrenceExpansion"

section \<open>The busy windows of a calendar\<close>

definition ownersAnswer :: "CalendarEvent \<Rightarrow> string set option \<Rightarrow> AttendeeResponseStatus option" where
  "ownersAnswer event ownerAddresses =
     (case ownerAddresses of
        None \<Rightarrow> None
      | Some owners \<Rightarrow>
          if owners = {} then None
          else if (case ev_organizer event of
                     Some a \<Rightarrow> a \<noteq> [] \<and> normalizeAddress a \<in> owners
                   | None \<Rightarrow> False) then None
          else (case List.find (\<lambda>a. normalizeAddress (att_address a) \<in> owners) (nullish (ev_attendees event)) of
                  Some mine \<Rightarrow> if att_isOrganizer mine then None else Some (att_responseStatus mine)
                | None \<Rightarrow> None))"

definition excludeDates_of :: "CalendarEvent list \<Rightarrow> CalendarEvent \<Rightarrow> int list option" where
  "excludeDates_of events event =
     (case (ev_recurrenceRule event, ev_recurrenceId event) of
        (Some rule, None) \<Rightarrow>
          Some (nullish (rr_exceptions rule) @
                List.map_filter (\<lambda>sibling. if icalUid sibling = icalUid event then ev_recurrenceId sibling else None) events)
      | _ \<Rightarrow> None)"

definition skipped_event :: "string set option \<Rightarrow> CalendarEvent \<Rightarrow> bool" where
  "skipped_event ownerAddresses event \<longleftrightarrow>
     ev_status event = CES_CANCELLED \<or> ev_busyStatus event = BS_FREE \<or>
     ownersAnswer event ownerAddresses = Some ARS_DECLINED"

definition tentative_event :: "string set option \<Rightarrow> CalendarEvent \<Rightarrow> bool" where
  "tentative_event ownerAddresses event \<longleftrightarrow>
     (let answer = ownersAnswer event ownerAddresses
      in ev_busyStatus event = BS_TENTATIVE \<or> answer = Some ARS_NEEDS_ACTION \<or> answer = Some ARS_TENTATIVE)"

text \<open>The body of the loop over the events.\<close>

definition busy_of_event :: "expander \<Rightarrow> CalendarEvent list \<Rightarrow> int \<Rightarrow> int \<Rightarrow> string set option \<Rightarrow> CalendarEvent \<Rightarrow> BusyInterval list" where
  "busy_of_event expand events windowStart windowEnd ownerAddresses event =
     (if skipped_event ownerAddresses event then []
      else
        let tentative = tentative_event ownerAddresses event;
            expansion = expand event windowStart windowEnd (excludeDates_of events event)
        in map (\<lambda>(s, e). \<lparr>bi_start = s, bi_end = e, bi_tentative = tentative\<rparr>) (occurrences expansion) @
           (if truncated expansion
            then [\<lparr>bi_start = windowStart, bi_end = windowEnd, bi_tentative = tentative\<rparr>] else []))"

definition computeBusyIntervals :: "expander \<Rightarrow> CalendarEvent list \<Rightarrow> int \<Rightarrow> int \<Rightarrow> string set option \<Rightarrow> BusyInterval list" where
  "computeBusyIntervals expand events windowStart windowEnd ownerAddresses =
     concat (map (busy_of_event expand events windowStart windowEnd ownerAddresses) events)"

definition computeBusyWindows :: "expander \<Rightarrow> CalendarEvent list \<Rightarrow> int \<Rightarrow> int \<Rightarrow> (int \<times> int) list" where
  "computeBusyWindows expand events windowStart windowEnd =
     map (\<lambda>b. (bi_start b, bi_end b)) (computeBusyIntervals expand events windowStart windowEnd None)"

section \<open>Merging\<close>

record edge =
  edge_at :: int
  edge_tentative :: bool
  edge_delta :: int

definition edges_of :: "int \<Rightarrow> int \<Rightarrow> BusyInterval \<Rightarrow> edge list" where
  "edges_of from to interval =
     (let start = max (bi_start interval) from; end = min (bi_end interval) to
      in if end > start
         then [\<lparr>edge_at = start, edge_tentative = bi_tentative interval, edge_delta = 1\<rparr>,
               \<lparr>edge_at = end, edge_tentative = bi_tentative interval, edge_delta = -1\<rparr>]
         else [])"

text \<open>Extend the last merged window or append a new one.\<close>

definition push_window :: "BusyInterval list \<Rightarrow> BusyInterval \<Rightarrow> BusyInterval list" where
  "push_window merged seg =
     (if merged \<noteq> [] \<and> bi_tentative (last merged) = bi_tentative seg \<and> bi_end (last merged) = bi_start seg
      then butlast merged @ [(last merged)\<lparr>bi_end := bi_end seg\<rparr>]
      else merged @ [seg])"

fun sweep :: "edge list \<Rightarrow> int \<Rightarrow> int \<Rightarrow> BusyInterval list \<Rightarrow> BusyInterval list" where
  "sweep [] firm soft merged = merged"
| "sweep (edge # edges) firm soft merged =
     (let soft' = (if edge_tentative edge then soft + edge_delta edge else soft);
          firm' = (if edge_tentative edge then firm else firm + edge_delta edge);
          next = (case edges of e # _ \<Rightarrow> edge_at e | [] \<Rightarrow> edge_at edge)
      in if (firm' > 0 \<or> soft' > 0) \<and> next > edge_at edge
         then sweep edges firm' soft'
                (push_window merged \<lparr>bi_start = edge_at edge, bi_end = next, bi_tentative = (firm' = 0)\<rparr>)
         else sweep edges firm' soft' merged)"

definition mergeBusyIntervals :: "BusyInterval list \<Rightarrow> int \<Rightarrow> int \<Rightarrow> BusyInterval list" where
  "mergeBusyIntervals intervals windowStart windowEnd =
     sweep (sort_key edge_at (concat (map (edges_of windowStart windowEnd) intervals))) 0 0 []"

section \<open>The sweep as segments\<close>

text \<open>The segments between consecutive edges on which something is open.\<close>

fun segments :: "edge list \<Rightarrow> int \<Rightarrow> int \<Rightarrow> BusyInterval list" where
  "segments [] firm soft = []"
| "segments (edge # edges) firm soft =
     (let soft' = (if edge_tentative edge then soft + edge_delta edge else soft);
          firm' = (if edge_tentative edge then firm else firm + edge_delta edge);
          next = (case edges of e # _ \<Rightarrow> edge_at e | [] \<Rightarrow> edge_at edge)
      in (if (firm' > 0 \<or> soft' > 0) \<and> next > edge_at edge
          then [\<lparr>bi_start = edge_at edge, bi_end = next, bi_tentative = (firm' = 0)\<rparr>] else []) @
         segments edges firm' soft')"

lemma sweep_segments: "sweep es firm soft merged = foldl push_window merged (segments es firm soft)"
  by (induction es arbitrary: firm soft merged) (simp_all add: Let_def)

definition covers :: "BusyInterval list \<Rightarrow> bool \<Rightarrow> int \<Rightarrow> bool" where
  "covers bs tentative x \<longleftrightarrow> (\<exists>b\<in>set bs. bi_tentative b = tentative \<and> bi_start b \<le> x \<and> x < bi_end b)"

lemma covers_simps [simp]:
  "\<not> covers [] k x"
  "covers (b # bs) k x \<longleftrightarrow> bi_tentative b = k \<and> bi_start b \<le> x \<and> x < bi_end b \<or> covers bs k x"
  "covers (bs @ cs) k x \<longleftrightarrow> covers bs k x \<or> covers cs k x"
  by (auto simp: covers_def)

text \<open>Windows in order: each non-empty, none starting before the one before it ends, and two that
  touch are of different kinds when \<open>strict\<close>.\<close>

fun chain :: "bool \<Rightarrow> BusyInterval list \<Rightarrow> bool" where
  "chain strict [] = True"
| "chain strict [b] = (bi_start b < bi_end b)"
| "chain strict (b # c # bs) =
     (bi_start b < bi_end b \<and> bi_end b \<le> bi_start c \<and>
      (strict \<longrightarrow> bi_end b = bi_start c \<longrightarrow> bi_tentative b \<noteq> bi_tentative c) \<and> chain strict (c # bs))"

lemma chain_append:
  "chain strict (xs @ [b]) \<longleftrightarrow> chain strict xs \<and> bi_start b < bi_end b \<and>
     (xs \<noteq> [] \<longrightarrow> bi_end (last xs) \<le> bi_start b \<and>
       (strict \<longrightarrow> bi_end (last xs) = bi_start b \<longrightarrow> bi_tentative (last xs) \<noteq> bi_tentative b))"
  by (induction strict xs rule: chain.induct) auto

lemma chain_extend:
  "chain strict (xs @ [b]) \<Longrightarrow> bi_end b \<le> e \<Longrightarrow> chain strict (xs @ [b\<lparr>bi_end := e\<rparr>])"
  by (auto simp: chain_append)

lemma chain_push:
  assumes "chain True merged" "bi_start seg < bi_end seg" "merged \<noteq> [] \<longrightarrow> bi_end (last merged) \<le> bi_start seg"
  shows "chain True (push_window merged seg) \<and> bi_end (last (push_window merged seg)) = bi_end seg"
proof (cases "merged \<noteq> [] \<and> bi_tentative (last merged) = bi_tentative seg \<and> bi_end (last merged) = bi_start seg")
  case True
  then have "chain True (butlast merged @ [(last merged)\<lparr>bi_end := bi_end seg\<rparr>])"
    using assms by (intro chain_extend) auto
  with True show ?thesis by (simp add: push_window_def)
next
  case False
  with assms show ?thesis by (auto simp: push_window_def chain_append)
qed

lemma covers_push:
  assumes "chain True merged" "bi_start seg < bi_end seg"
  shows "covers (push_window merged seg) k x \<longleftrightarrow> covers (merged @ [seg]) k x"
proof (cases "merged \<noteq> [] \<and> bi_tentative (last merged) = bi_tentative seg \<and> bi_end (last merged) = bi_start seg")
  case True
  then obtain xs b where m: "merged = xs @ [b]"
    by (metis append_butlast_last_id)
  with assms(1) have "bi_start b < bi_end b"
    by (simp add: chain_append)
  with True m assms(2) show ?thesis
    by (auto simp: push_window_def)
next
  case False
  then show ?thesis by (simp only: push_window_def if_False)
qed

lemma foldl_push:
  assumes "chain False (if merged = [] then segs else last merged # segs)" "chain True merged"
  shows "chain True (foldl push_window merged segs) \<and> (\<forall>k x. covers (foldl push_window merged segs) k x \<longleftrightarrow> covers (merged @ segs) k x)"
  using assms
proof (induction segs arbitrary: merged)
  case (Cons s segs)
  have s: "bi_start s < bi_end s" "merged \<noteq> [] \<longrightarrow> bi_end (last merged) \<le> bi_start s" "chain False (s # segs)"
    using Cons.prems(1) by (cases segs; auto split: if_splits)+
  note push = chain_push [OF Cons.prems(2) s(1,2)]
  have ne: "push_window merged s \<noteq> []"
    by (simp add: push_window_def)
  then have "bi_start (last (push_window merged s)) < bi_end (last (push_window merged s))"
    using push by (metis append_butlast_last_id chain_append)
  with push s(3) have "chain False (last (push_window merged s) # segs)"
    by (cases segs) auto
  with ne have "chain True (foldl push_window (push_window merged s) segs)"
    "covers (foldl push_window (push_window merged s) segs) k x \<longleftrightarrow> covers (push_window merged s @ segs) k x" for k x
    using Cons.IH [of "push_window merged s"] push by simp_all
  then show ?case
    using covers_push [OF Cons.prems(2) s(1)] by simp
qed auto

section \<open>What is open at a time\<close>

definition level :: "edge list \<Rightarrow> bool \<Rightarrow> int \<Rightarrow> int" where
  "level es k x = sum_list (map edge_delta (filter (\<lambda>e. edge_tentative e = k \<and> edge_at e \<le> x) es))"

lemma level_simps [simp]:
  "level [] k x = 0"
  "level (e # es) k x = (if edge_tentative e = k \<and> edge_at e \<le> x then edge_delta e else 0) + level es k x"
  "level (es @ es') k x = level es k x + level es' k x"
  by (simp_all add: level_def)

lemma level_later: "\<forall>e\<in>set es. x < edge_at e \<Longrightarrow> level es k x = 0"
  by (induction es) auto

lemma level_perm: "mset es = mset es' \<Longrightarrow> level es k x = level es' k x"
  unfolding level_def sum_mset_sum_list [symmetric] mset_map mset_filter by simp

definition after_edge :: "bool \<Rightarrow> edge \<Rightarrow> int \<Rightarrow> int" where
  "after_edge k e n = (if edge_tentative e = k then n + edge_delta e else n)"

lemma after_edge_level: "edge_at e \<le> x \<Longrightarrow> after_edge k e n + level es k x = n + level (e # es) k x"
  by (simp add: after_edge_def)

lemma segments_Cons:
  "segments (e # es) firm soft =
     (if (after_edge False e firm > 0 \<or> after_edge True e soft > 0) \<and> es \<noteq> [] \<and> edge_at e < edge_at (hd es)
      then [\<lparr>bi_start = edge_at e, bi_end = edge_at (hd es), bi_tentative = (after_edge False e firm = 0)\<rparr>] else []) @
     segments es (after_edge False e firm) (after_edge True e soft)"
  by (cases es) (simp_all add: Let_def after_edge_def)

declare segments.simps(2) [simp del]

lemma segments_chain:
  "sorted (map edge_at es) \<Longrightarrow> chain False (segments es firm soft) \<and>
   (\<forall>b\<in>set (segments es firm soft). edge_at (hd es) \<le> bi_start b)"
proof (induction es arbitrary: firm soft)
  case (Cons e es)
  let ?rest = "segments es (after_edge False e firm) (after_edge True e soft)"
  have IH: "chain False ?rest" "\<forall>b\<in>set ?rest. edge_at (hd es) \<le> bi_start b"
    using Cons by simp_all
  show ?case
  proof (cases "es = []")
    case False
    then have "edge_at e \<le> edge_at (hd es)"
      using Cons.prems by simp
    moreover have "chain False (b # ?rest)" if "bi_start b < bi_end b" "bi_end b = edge_at (hd es)" for b
      using IH that by (cases ?rest) auto
    ultimately show ?thesis
      using IH unfolding segments_Cons by auto
  qed (simp add: segments_Cons)
qed simp

text \<open>From the first edge on, a segment covers a time with the kind of what is open there.\<close>

lemma segments_cover:
  assumes "sorted (map edge_at es)" "es \<noteq> []" "edge_at (hd es) \<le> x" "x < edge_at (last es)"
    and "\<forall>y \<ge> edge_at (hd es). 0 \<le> firm + level es False y"
  shows "covers (segments es firm soft) k x \<longleftrightarrow>
     (if k then firm + level es False x = 0 \<and> 0 < soft + level es True x else 0 < firm + level es False x)"
  using assms
proof (induction es arbitrary: firm soft)
  case (Cons e es)
  let ?firm = "after_edge False e firm" and ?soft = "after_edge True e soft"
  have ne: "es \<noteq> []"
    using Cons.prems(3,4) by (cases es) auto
  have sorted: "sorted (map edge_at es)" "edge_at e \<le> edge_at (hd es)"
    using Cons.prems(1) ne by simp_all
  have e: "edge_at e \<le> x"
    using Cons.prems(3) by simp
  have firm: "?firm + level es False x = firm + level (e # es) False x"
    and soft: "?soft + level es True x = soft + level (e # es) True x"
    using after_edge_level [OF e] by blast+
  show ?case
  proof (cases "x < edge_at (hd es)")
    case True
    then have "\<forall>f\<in>set es. x < edge_at f"
      using sorted(1) ne by (cases es) (auto intro: order.strict_trans2)
    then have "level es False x = 0" "level es True x = 0"
      by (simp_all add: level_later)
    then have now: "?firm = firm + level (e # es) False x" "?soft = soft + level (e # es) True x"
      using firm soft by simp_all
    moreover have "0 \<le> firm + level (e # es) False x"
      using Cons.prems(5) e by simp
    moreover have "\<not> covers (segments es ?firm ?soft) k x"
      using segments_chain [OF sorted(1), of ?firm ?soft] True by (auto simp: covers_def)
    ultimately show ?thesis
      using ne True e unfolding segments_Cons by auto
  next
    case False
    have "\<forall>y \<ge> edge_at (hd es). 0 \<le> ?firm + level es False y"
      using Cons.prems(5) sorted(2) after_edge_level [of e _ False firm es] by (metis list.sel(1) order_trans)
    then have "covers (segments es ?firm ?soft) k x \<longleftrightarrow>
        (if k then ?firm + level es False x = 0 \<and> 0 < ?soft + level es True x else 0 < ?firm + level es False x)"
      using Cons.IH [OF sorted(1) ne] False Cons.prems(4) ne by simp
    with False show ?thesis
      unfolding segments_Cons firm soft by simp
  qed
qed simp


text \<open>The level of the edges of a set of intervals counts the clipped intervals open at a time.\<close>

definition open_at :: "int \<Rightarrow> int \<Rightarrow> BusyInterval list \<Rightarrow> bool \<Rightarrow> int \<Rightarrow> BusyInterval list" where
  "open_at from to bs k x =
     filter (\<lambda>b. bi_tentative b = k \<and> max (bi_start b) from \<le> x \<and> x < min (bi_end b) to) bs"

lemma level_edges:
  "level (concat (map (edges_of from to) bs)) k x = int (length (open_at from to bs k x))"
  by (induction bs) (auto simp: edges_of_def open_at_def Let_def)

lemma edges_within: "e \<in> set (edges_of from to b) \<Longrightarrow> from \<le> edge_at e \<and> edge_at e \<le> to"
  by (auto simp: edges_of_def Let_def split: if_splits)

lemma open_at_edges:
  assumes "open_at from to bs k x \<noteq> []" "es = sort_key edge_at (concat (map (edges_of from to) bs))"
  shows "es \<noteq> [] \<and> edge_at (hd es) \<le> x \<and> x < edge_at (last es)"
proof -
  obtain b where b: "b \<in> set bs" "max (bi_start b) from \<le> x" "x < min (bi_end b) to"
    using assms(1) by (auto simp: open_at_def filter_empty_conv)
  then have "\<exists>e\<in>set es. edge_at e \<le> x" "\<exists>e\<in>set es. x < edge_at e"
    by (auto simp: assms(2) edges_of_def Let_def intro!: bexI [of _ b])
  then obtain e f where ef: "e \<in> set es" "edge_at e \<le> x" "f \<in> set es" "x < edge_at f"
    by blast
  have sorted: "sorted (map edge_at es)"
    by (simp add: assms(2))
  have "es \<noteq> []"
    using ef(1) by auto
  moreover have "edge_at (hd es) \<le> x"
    using sorted_hd_last(1) [OF sorted ef(1)] ef(2) by linarith
  moreover have "x < edge_at (last es)"
    using sorted_hd_last(2) [OF sorted ef(3)] ef(4) by linarith
  ultimately show ?thesis
    by blast
qed

lemma level_outside:
  assumes "es = sort_key edge_at (concat (map (edges_of from to) bs))" "\<not> (es \<noteq> [] \<and> edge_at (hd es) \<le> x \<and> x < edge_at (last es))"
  shows "open_at from to bs k x = []"
  using open_at_edges [OF _ assms(1)] assms(2) by blast

section \<open>Properties\<close>

lemma segments_bounds:
  assumes "sorted (map edge_at es)" "b \<in> set (segments es firm soft)"
  shows "edge_at (hd es) \<le> bi_start b \<and> bi_end b \<le> edge_at (last es)"
  using assms
proof (induction es arbitrary: firm soft)
  case (Cons e es)
  show ?case
  proof (cases "es = []")
    case False
    then have "edge_at e \<le> edge_at (hd es)" "edge_at (hd es) \<le> edge_at (last es)"
      using Cons.prems(1) sorted_hd_last(2) [of edge_at es "hd es"] by simp_all
    then show ?thesis
      using Cons.IH [of "after_edge False e firm" "after_edge True e soft"] Cons.prems False
      unfolding segments_Cons by (auto split: if_splits intro: order_trans [OF bspec [OF _ hd_in_set]])
  qed (use Cons.prems in \<open>simp add: segments_Cons\<close>)
qed simp

lemma covers_merge:
  "covers (mergeBusyIntervals bs from to) k x \<longleftrightarrow>
     (if k then open_at from to bs False x = [] \<and> open_at from to bs True x \<noteq> [] else open_at from to bs False x \<noteq> [])"
proof -
  define es where "es = sort_key edge_at (concat (map (edges_of from to) bs))"
  have sorted: "sorted (map edge_at es)"
    by (simp add: es_def)
  have lev: "level es k x = int (length (open_at from to bs k x))" for k x
    using level_perm [of es "concat (map (edges_of from to) bs)"] by (simp add: es_def level_edges)
  have merge: "covers (mergeBusyIntervals bs from to) k x \<longleftrightarrow> covers (segments es 0 0) k x"
    using foldl_push [of "[]" "segments es 0 0"] segments_chain [OF sorted]
    by (simp add: mergeBusyIntervals_def sweep_segments flip: es_def)
  show ?thesis
  proof (cases "es \<noteq> [] \<and> edge_at (hd es) \<le> x \<and> x < edge_at (last es)")
    case True
    then show ?thesis
      using segments_cover [OF sorted, of x 0 0 k] by (simp add: merge lev)
  next
    case False
    then have "open_at from to bs b x = []" for b
      by (rule level_outside [OF es_def])
    moreover have "\<not> covers (segments es 0 0) k x"
    proof
      assume "covers (segments es 0 0) k x"
      then obtain b where "b \<in> set (segments es 0 0)" "bi_start b \<le> x" "x < bi_end b"
        by (auto simp: covers_def)
      moreover from this(1) have "es \<noteq> []" by auto
      ultimately show False
        using segments_bounds [OF sorted, of b 0 0] False by auto
    qed
    ultimately show ?thesis
      by (simp add: merge)
  qed
qed

lemma mergeBusyIntervals_facts:
  "chain True (mergeBusyIntervals intervals windowStart windowEnd) \<and>
   (covers (mergeBusyIntervals intervals windowStart windowEnd) False x \<longleftrightarrow>
      windowStart \<le> x \<and> x < windowEnd \<and> covers intervals False x) \<and>
   (covers (mergeBusyIntervals intervals windowStart windowEnd) True x \<longleftrightarrow>
      windowStart \<le> x \<and> x < windowEnd \<and> covers intervals True x \<and> \<not> covers intervals False x)"
proof -
  have "open_at windowStart windowEnd intervals k x \<noteq> [] \<longleftrightarrow>
      windowStart \<le> x \<and> x < windowEnd \<and> covers intervals k x" for k
    by (auto simp: open_at_def covers_def filter_empty_conv)
  moreover have "chain True (mergeBusyIntervals intervals windowStart windowEnd)"
    using foldl_push [of "[]"] segments_chain by (simp add: mergeBusyIntervals_def sweep_segments)
  ultimately show ?thesis
    by (auto simp: covers_merge)
qed

text \<open>C30: merging reports exactly the busy time. A moment of the window is reported busy exactly when
  some interval covers it, firm as soon as one of them is firm and tentative otherwise; the
  windows are in order, non-empty, disjoint, and two that touch differ in kind.\<close>

theorem mergeBusyIntervals_spec:
  "chain True (mergeBusyIntervals intervals windowStart windowEnd) \<and>
   (covers (mergeBusyIntervals intervals windowStart windowEnd) False x \<longleftrightarrow>
      windowStart \<le> x \<and> x < windowEnd \<and> covers intervals False x) \<and>
   (covers (mergeBusyIntervals intervals windowStart windowEnd) True x \<longleftrightarrow>
      windowStart \<le> x \<and> x < windowEnd \<and> covers intervals True x \<and> \<not> covers intervals False x)"
  by (rule mergeBusyIntervals_facts)

definition occupies :: "expander \<Rightarrow> CalendarEvent list \<Rightarrow> int \<Rightarrow> int \<Rightarrow> int \<Rightarrow> CalendarEvent \<Rightarrow> bool" where
  "occupies expand events windowStart windowEnd x event \<longleftrightarrow>
     (let expansion = expand event windowStart windowEnd (excludeDates_of events event)
      in truncated expansion \<or> (\<exists>(s, e)\<in>set (occurrences expansion). s \<le> x \<and> x < e))"

lemma covers_computeBusyIntervals:
  assumes "windowStart \<le> x" "x < windowEnd"
  shows "covers (computeBusyIntervals expand events windowStart windowEnd owners) k x \<longleftrightarrow>
    (\<exists>event\<in>set events. \<not> skipped_event owners event \<and> tentative_event owners event = k \<and>
       occupies expand events windowStart windowEnd x event)"
proof -
  have os: "covers (map (\<lambda>(s, e). \<lparr>bi_start = s, bi_end = e, bi_tentative = t\<rparr>) os) k x \<longleftrightarrow>
      t = k \<and> (\<exists>(s, e)\<in>set os. s \<le> x \<and> x < e)" for t os
    by (induction os) auto
  have "covers (busy_of_event expand evs windowStart windowEnd owners event) k x \<longleftrightarrow>
      \<not> skipped_event owners event \<and> tentative_event owners event = k \<and> occupies expand evs windowStart windowEnd x event" for evs event
    using assms by (auto simp: os busy_of_event_def occupies_def Let_def)
  moreover have "covers (concat bss) k x \<longleftrightarrow> (\<exists>bs\<in>set bss. covers bs k x)" for bss
    by (induction bss) auto
  ultimately show ?thesis
    by (simp add: computeBusyIntervals_def)
qed

text \<open>C29: a calendar never reads as free by omission. In the merged report a moment of the window is
  busy exactly when an event that is neither cancelled, free nor declined has an occurrence
  then, or had its expansion cut short; and it is firm exactly when one of those events is not
  tentative.\<close>

theorem busy_report_complete:
  assumes "windowStart \<le> x" "x < windowEnd"
  shows "let report = mergeBusyIntervals (computeBusyIntervals expand events windowStart windowEnd owners) windowStart windowEnd;
      busy = {event \<in> set events. \<not> skipped_event owners event \<and> occupies expand events windowStart windowEnd x event}
    in (covers report False x \<longleftrightarrow> (\<exists>event\<in>busy. \<not> tentative_event owners event)) \<and>
       (covers report True x \<longleftrightarrow> busy \<noteq> {} \<and> (\<nexists>event. event \<in> busy \<and> \<not> tentative_event owners event))"
  using assms mergeBusyIntervals_facts covers_computeBusyIntervals [OF assms] by (auto simp: Let_def)

definition example_event :: CalendarEvent where
  "example_event =
     \<lparr>icalUid = ''u'', ev_startDate = 5, ev_endDate = 7, ev_timezone = None, ev_allDay = False, ev_status = CES_CONFIRMED,
      ev_busyStatus = BS_BUSY, ev_recurrenceRule = None, ev_recurrenceId = None, ev_organizer = None, ev_attendees = None\<rparr>"

theorem busy_report_complete_witness:
  "covers (mergeBusyIntervals
     (computeBusyIntervals (\<lambda>_ _ _ _. \<lparr>occurrences = [(5, 7)], truncated = False\<rparr>) [example_event] 0 10 None) 0 10) False 6"
  using busy_report_complete [of 0 6 10 "\<lambda>_ _ _ _. \<lparr>occurrences = [(5, 7)], truncated = False\<rparr>" "[example_event]" None]
  by (simp add: Let_def occupies_def skipped_event_def tentative_event_def ownersAnswer_def example_event_def)

end
