(* ===== verification/Conversation.thy ===== *)
theory Conversation
  imports Prelude
begin

text \<open>
  Threading (\<^verbatim>\<open>src/src/util/ConversationUtils.ts\<close>): the bounded form of identifiers that come from mail,
  the ancestors of a message nearest first, and the conversation a message joins. The hex
  digest of SHA-256 and the repository query are arguments.
\<close>

section \<open>Bounded identifiers\<close>

definition MAX_INDEXED_VALUE_LENGTH :: nat where "MAX_INDEXED_VALUE_LENGTH = 255"

definition boundIndexedValue :: "(string \<Rightarrow> string) \<Rightarrow> string \<Rightarrow> string" where
  "boundIndexedValue sha256 val =
     (if length val \<le> MAX_INDEXED_VALUE_LENGTH then val else ''sha256:'' @ sha256 val)"

definition deriveConversationId :: "(string \<Rightarrow> string) \<Rightarrow> string list \<Rightarrow> string option \<Rightarrow> string \<Rightarrow> string" where
  "deriveConversationId sha256 references inReplyTo messageId =
     boundIndexedValue sha256
       (case references of
          r # _ \<Rightarrow> r
        | [] \<Rightarrow> (case inReplyTo of Some p \<Rightarrow> p | None \<Rightarrow> messageId))"

section \<open>Ancestors\<close>

definition MAX_CONVERSATION_ANCESTORS :: nat where "MAX_CONVERSATION_ANCESTORS = 20"

fun collect_ancestors :: "(string \<Rightarrow> string) \<Rightarrow> string option list \<Rightarrow> string list \<Rightarrow> string list" where
  "collect_ancestors sha256 [] ancestors = ancestors"
| "collect_ancestors sha256 (candidate # candidates) ancestors =
     (let trimmed = (case candidate of Some s \<Rightarrow> js_trim s | None \<Rightarrow> [])
      in if trimmed = [] then collect_ancestors sha256 candidates ancestors
         else
           let bounded = boundIndexedValue sha256 trimmed
           in if bounded \<in> set ancestors then collect_ancestors sha256 candidates ancestors
              else
                let ancestors' = ancestors @ [bounded]
                in if length ancestors' \<ge> MAX_CONVERSATION_ANCESTORS then ancestors'
                   else collect_ancestors sha256 candidates ancestors')"

definition conversationAncestorIds :: "(string \<Rightarrow> string) \<Rightarrow> string list \<Rightarrow> string option \<Rightarrow> string list" where
  "conversationAncestorIds sha256 references inReplyTo =
     collect_ancestors sha256 (inReplyTo # map Some (rev references)) []"

section \<open>Joining a conversation\<close>

record thread_row =
  tm_messageId :: "string option"
  tm_conversationId :: "string option"

text \<open>\<^verbatim>\<open>rows.find(...)\<close> per ancestor; an empty \<^verbatim>\<open>conversationId\<close> does not count.\<close>

fun first_match :: "thread_row list \<Rightarrow> string list \<Rightarrow> string option" where
  "first_match rows [] = None"
| "first_match rows (ancestor # ancestors) =
     (case List.find (\<lambda>row. tm_messageId row = Some ancestor \<and> tm_conversationId row \<noteq> None \<and> tm_conversationId row \<noteq> Some []) rows of
        Some row \<Rightarrow> tm_conversationId row
      | None \<Rightarrow> first_match rows ancestors)"

definition findThreadConversationId :: "(string list \<Rightarrow> nat \<Rightarrow> thread_row list) \<Rightarrow> string list \<Rightarrow> string option" where
  "findThreadConversationId repo_find ancestorMessageIds =
     (if ancestorMessageIds = [] then None
      else first_match (repo_find ancestorMessageIds MAX_CONVERSATION_ANCESTORS) ancestorMessageIds)"

definition resolveConversationId ::
  "(string \<Rightarrow> string) \<Rightarrow> string list \<Rightarrow> string option \<Rightarrow> string \<Rightarrow> (string list \<Rightarrow> string option) \<Rightarrow> string" where
  "resolveConversationId sha256 references inReplyTo messageId lookup =
     (let ancestors = conversationAncestorIds sha256 references inReplyTo;
          existing = (if ancestors \<noteq> [] then lookup ancestors else None)
      in case existing of
           Some (c # cs) \<Rightarrow> boundIndexedValue sha256 (c # cs)
         | _ \<Rightarrow> deriveConversationId sha256 references inReplyTo messageId)"

section \<open>Bounds\<close>

text \<open>A SHA-256 digest in hex has 64 digits.\<close>

definition hex_digest :: "(string \<Rightarrow> string) \<Rightarrow> bool" where
  "hex_digest sha256 \<longleftrightarrow> (\<forall>s. length (sha256 s) = 64)"

lemma boundIndexedValue_length: "hex_digest sha256 \<Longrightarrow> length (boundIndexedValue sha256 v) \<le> MAX_INDEXED_VALUE_LENGTH"
  by (simp add: boundIndexedValue_def hex_digest_def MAX_INDEXED_VALUE_LENGTH_def)

lemma boundIndexedValue_fixed [simp]: "length v \<le> MAX_INDEXED_VALUE_LENGTH \<Longrightarrow> boundIndexedValue sha256 v = v"
  by (simp add: boundIndexedValue_def)

lemma boundIndexedValue_idem: "hex_digest sha256 \<Longrightarrow> boundIndexedValue sha256 (boundIndexedValue sha256 v) = boundIndexedValue sha256 v"
  by (simp add: boundIndexedValue_length)

lemma boundIndexedValue_ne: "v \<noteq> [] \<Longrightarrow> boundIndexedValue sha256 v \<noteq> []"
  by (simp add: boundIndexedValue_def)

definition ancestor_of :: "(string \<Rightarrow> string) \<Rightarrow> string option \<Rightarrow> string list" where
  "ancestor_of sha256 candidate =
     (case candidate of
        None \<Rightarrow> []
      | Some s \<Rightarrow> if js_trim s = [] then [] else [boundIndexedValue sha256 (js_trim s)])"

lemma collect_ancestors_eq:
  assumes "distinct acc" "length acc < MAX_CONVERSATION_ANCESTORS"
  shows "collect_ancestors sha256 cs acc =
    take MAX_CONVERSATION_ANCESTORS (foldl set_add acc (concat (map (ancestor_of sha256) cs)))"
  using assms
proof (induction cs arbitrary: acc)
  case (Cons c cs)
  have grow: "take MAX_CONVERSATION_ANCESTORS (foldl set_add xs ys) = xs" if "length xs = MAX_CONVERSATION_ANCESTORS" for xs ys :: "string list"
  proof -
    have "\<exists>zs. foldl set_add xs ys = xs @ zs" for xs ys :: "string list"
    proof (induction ys arbitrary: xs)
      case (Cons y ys)
      then show ?case by (simp add: set_add_def) (metis append_assoc)
    qed simp
    with that show ?thesis by (metis append_eq_conv_conj)
  qed
  have add: "set_add acc b = (if b \<in> set acc then acc else acc @ [b])" for b
    by (simp add: set_add_def)
  consider "ancestor_of sha256 c = []"
    | s where "c = Some s" "js_trim s \<noteq> []" "ancestor_of sha256 c = [boundIndexedValue sha256 (js_trim s)]"
    by (cases c; cases "js_trim (the c) = []") (auto simp: ancestor_of_def)
  then show ?case
  proof cases
    case 1
    then show ?thesis
      using Cons by (auto simp: ancestor_of_def split: option.splits if_splits)
  next
    case 2
    then show ?thesis
      using Cons grow [of "acc @ [boundIndexedValue sha256 (js_trim s)]"] by (auto simp: Let_def add)
  qed
qed simp

lemma conversationAncestorIds_eq:
  "conversationAncestorIds sha256 references inReplyTo =
     take MAX_CONVERSATION_ANCESTORS (uniq (concat (map (ancestor_of sha256) (inReplyTo # map Some (rev references)))))"
  unfolding conversationAncestorIds_def uniq_def
  by (rule collect_ancestors_eq) (simp_all add: MAX_CONVERSATION_ANCESTORS_def)

section \<open>A mailbox and its threads\<close>

text \<open>The repository of a mailbox's messages: the rows of the query, cut at its limit; and the row a
  delivered message leaves, whose identifiers the model class bounds.\<close>

definition mailbox_find :: "thread_row list \<Rightarrow> string list \<Rightarrow> nat \<Rightarrow> thread_row list" where
  "mailbox_find rows ids limit = take limit (filter (\<lambda>r. \<exists>i\<in>set ids. tm_messageId r = Some i) rows)"

definition resolveConversation :: "(string \<Rightarrow> string) \<Rightarrow> (string list \<Rightarrow> nat \<Rightarrow> thread_row list) \<Rightarrow> string list \<Rightarrow> string option \<Rightarrow> string \<Rightarrow> string" where
  "resolveConversation sha256 repo_find references inReplyTo messageId =
     resolveConversationId sha256 references inReplyTo messageId (findThreadConversationId repo_find)"

definition file_message :: "(string \<Rightarrow> string) \<Rightarrow> thread_row list \<Rightarrow> string list \<Rightarrow> string option \<Rightarrow> string \<Rightarrow> thread_row list" where
  "file_message sha256 rows references inReplyTo messageId =
     rows @ [\<lparr>tm_messageId = Some (boundIndexedValue sha256 messageId),
              tm_conversationId = Some (boundIndexedValue sha256
                (resolveConversation sha256 (mailbox_find rows) references inReplyTo messageId))\<rparr>]"

text \<open>A chain of replies by a client that sets only \<^verbatim>\<open>In-Reply-To\<close>, each answering the one before.\<close>

fun file_chain :: "(string \<Rightarrow> string) \<Rightarrow> thread_row list \<Rightarrow> string option \<Rightarrow> string list \<Rightarrow> thread_row list" where
  "file_chain sha256 rows parent [] = rows"
| "file_chain sha256 rows parent (i # is) =
     file_chain sha256 (file_message sha256 rows [] parent i) (Some i) is"

definition message_ids :: "thread_row list \<Rightarrow> string option list" where
  "message_ids rows = map tm_messageId rows"

lemma resolve_known_parent:
  assumes "hex_digest sha256" "js_trim p = p" "p \<noteq> []" "distinct (message_ids rows)"
    and "r \<in> set rows" "tm_messageId r = Some (boundIndexedValue sha256 p)" "tm_conversationId r = Some c" "c \<noteq> []"
  shows "resolveConversation sha256 (mailbox_find rows) [] (Some p) i = boundIndexedValue sha256 c"
proof -
  let ?b = "boundIndexedValue sha256 p"
  have anc: "conversationAncestorIds sha256 [] (Some p) = [?b]"
    using assms(2,3) by (simp add: conversationAncestorIds_def Let_def MAX_CONVERSATION_ANCESTORS_def)
  have "filter (\<lambda>x. tm_messageId x = Some ?b) rows = [r]"
    using assms(4,5,6)
  proof (induction rows)
    case (Cons x xs)
    then show ?case
      by (cases "x = r") (auto simp: message_ids_def filter_empty_conv image_iff)
  qed simp
  then have "mailbox_find rows [?b] MAX_CONVERSATION_ANCESTORS = [r]"
    by (simp add: mailbox_find_def MAX_CONVERSATION_ANCESTORS_def)
  then show ?thesis
    using anc assms(6-8)
    by (cases c) (simp_all add: resolveConversation_def resolveConversationId_def findThreadConversationId_def)
qed

lemma file_chain_conversation:
  assumes "hex_digest sha256" "\<forall>i\<in>set is. js_trim i = i \<and> i \<noteq> []"
    and "distinct (message_ids rows @ map (\<lambda>i. Some (boundIndexedValue sha256 i)) is)"
    and "\<forall>r\<in>set rows. tm_conversationId r = Some (boundIndexedValue sha256 root)" "root \<noteq> []"
    and "js_trim p = p" "p \<noteq> []" "Some (boundIndexedValue sha256 p) \<in> set (message_ids rows)"
  shows "\<forall>r\<in>set (file_chain sha256 rows (Some p) is). tm_conversationId r = Some (boundIndexedValue sha256 root)"
  using assms
proof (induction "is" arbitrary: rows p)
  case (Cons i "is")
  obtain r where "r \<in> set rows" "tm_messageId r = Some (boundIndexedValue sha256 p)"
    using Cons.prems(8) by (auto simp: message_ids_def)
  then have "resolveConversation sha256 (mailbox_find rows) [] (Some p) i = boundIndexedValue sha256 (boundIndexedValue sha256 root)"
    using Cons.prems by (intro resolve_known_parent) (auto simp: boundIndexedValue_ne)
  then have new: "file_message sha256 rows [] (Some p) i =
      rows @ [\<lparr>tm_messageId = Some (boundIndexedValue sha256 i), tm_conversationId = Some (boundIndexedValue sha256 root)\<rparr>]"
    using Cons.prems(1) by (simp add: file_message_def boundIndexedValue_idem)
  show ?case
    unfolding file_chain.simps new
    using Cons.prems by (intro Cons.IH) (auto simp: message_ids_def)
qed simp

section \<open>Properties\<close>

text \<open>An identifier from mail is stored within the column. It is at most 255 characters long, short
  identifiers are kept as they are, and bounding twice is bounding once, so a lookup with a
  bounded value finds the row.\<close>

theorem boundIndexedValue_bounded:
  assumes "hex_digest sha256"
  shows "length (boundIndexedValue sha256 v) \<le> 255 \<and>
    boundIndexedValue sha256 (boundIndexedValue sha256 v) = boundIndexedValue sha256 v \<and>
    (length v \<le> 255 \<longrightarrow> boundIndexedValue sha256 v = v)"
  using boundIndexedValue_length [OF assms, of v] boundIndexedValue_idem [OF assms, of v]
  by (simp add: MAX_INDEXED_VALUE_LENGTH_def boundIndexedValue_def)

definition example_digest :: "string \<Rightarrow> string" where
  "example_digest s = replicate 64 (CHR ''0'')"

lemma example_digest_hex: "hex_digest example_digest"
  by (simp add: hex_digest_def example_digest_def)

theorem boundIndexedValue_bounded_witness:
  "length (boundIndexedValue example_digest (replicate 300 (CHR ''x''))) \<le> 255"
  using boundIndexedValue_bounded [OF example_digest_hex, of "replicate 300 (CHR ''x'')"] by blast

text \<open>The ancestors of a message. They are the direct parent, then the references from the nearest
  to the oldest, without blanks and repetitions and bounded, and at most twenty of them.\<close>

theorem conversationAncestorIds_spec:
  "conversationAncestorIds sha256 references inReplyTo =
     take 20 (uniq (concat (map (ancestor_of sha256) (inReplyTo # map Some (rev references))))) \<and>
   distinct (conversationAncestorIds sha256 references inReplyTo) \<and>
   length (conversationAncestorIds sha256 references inReplyTo) \<le> 20"
  unfolding conversationAncestorIds_eq MAX_CONVERSATION_ANCESTORS_def by simp

text \<open>A thread stays one conversation. When a root message and any number of replies, each naming
  only the one before it, are filed in order, every one of them is filed under the root's
  conversation, over-long identifiers included.\<close>

theorem reply_chain_one_conversation:
  assumes "hex_digest sha256" "\<forall>i\<in>set (root # is). js_trim i = i \<and> i \<noteq> []"
    and "distinct (map (boundIndexedValue sha256) (root # is))"
  shows "\<forall>r\<in>set (file_chain sha256 [] None (root # is)). tm_conversationId r = Some (boundIndexedValue sha256 root)"
proof -
  have "conversationAncestorIds sha256 [] None = []"
    by (simp add: conversationAncestorIds_def)
  then have first: "file_message sha256 [] [] None root =
      [\<lparr>tm_messageId = Some (boundIndexedValue sha256 root), tm_conversationId = Some (boundIndexedValue sha256 root)\<rparr>]"
    using assms(1)
    by (simp add: file_message_def resolveConversation_def resolveConversationId_def deriveConversationId_def boundIndexedValue_idem)
  have "distinct (map (\<lambda>i. Some (boundIndexedValue sha256 i)) is)"
    using assms(3) by (auto simp: distinct_map inj_on_def)
  then show ?thesis
    unfolding file_chain.simps first
    using assms by (intro file_chain_conversation) (auto simp: message_ids_def)
qed

theorem reply_chain_one_conversation_witness:
  "list_all (\<lambda>r. tm_conversationId r = Some ''<a>'') (file_chain example_digest [] None [''<a>'', ''<b>'', ''<c>''])"
  unfolding list_all_iff
  using reply_chain_one_conversation [OF example_digest_hex, of "''<a>''" "[''<b>'', ''<c>'']"]
  by (simp add: boundIndexedValue_def MAX_INDEXED_VALUE_LENGTH_def js_trim_def js_is_ws_def)

end
