(* ===== verification/Draft_Bodies.thy ===== *)
theory Draft_Bodies
  imports Prelude
begin

text \<open>
  Draft bodies superseded under a legal hold (\<^verbatim>\<open>src/src/util/DraftBodyRetentionUtils.ts\<close>): the keys a draft
  may retain, the well-formed ones it does retain, and the list a save writes. The stored
  field is a document value nothing has checked. The prefix of a mailbox's sealed drafts
  (\<^verbatim>\<open>zeroAccessDraftBlobPrefix()\<close>) is \<^verbatim>\<open>za/<mailbox>/drafts/\<close>.
\<close>

record RetainedBodyDraft =
  rbd_retainedBodyBlobKeys :: js_value
  rbd_mailboxUid :: js_value

definition RETAINED_BODY_BLOB_KEY_PREFIX :: string where "RETAINED_BODY_BLOB_KEY_PREFIX = ''bodies/''"

definition MAX_RETAINED_BODY_BLOB_KEYS :: nat where "MAX_RETAINED_BODY_BLOB_KEYS = 500"

definition zeroAccessDraftBlobPrefix :: "string \<Rightarrow> string" where
  "zeroAccessDraftBlobPrefix mailboxUid = ''za/'' @ mailboxUid @ ''/drafts/''"

definition retainedBodyPrefixesOf :: "RetainedBodyDraft \<Rightarrow> string list" where
  "retainedBodyPrefixesOf message =
     (case rbd_mailboxUid message of
        JStr u \<Rightarrow>
          if length u > 0 \<and> CHR ''/'' \<notin> set u
          then [RETAINED_BODY_BLOB_KEY_PREFIX, zeroAccessDraftBlobPrefix u]
          else [RETAINED_BODY_BLOB_KEY_PREFIX]
      | _ \<Rightarrow> [RETAINED_BODY_BLOB_KEY_PREFIX])"

definition isRetainableBodyKey :: "RetainedBodyDraft \<Rightarrow> js_value \<Rightarrow> bool" where
  "isRetainableBodyKey message key =
     (case key of
        JStr k \<Rightarrow> list_ex (\<lambda>p. length k > length p \<and> prefix p k) (retainedBodyPrefixesOf message)
      | _ \<Rightarrow> False)"

definition str_of :: "js_value \<Rightarrow> string" where
  "str_of v = (case v of JStr s \<Rightarrow> s | _ \<Rightarrow> [])"

definition retainedBodyBlobKeysOf :: "RetainedBodyDraft \<Rightarrow> string list" where
  "retainedBodyBlobKeysOf message =
     (case rbd_retainedBodyBlobKeys message of
        JArr stored \<Rightarrow> uniq (map str_of (filter (isRetainableBodyKey message) stored))
      | _ \<Rightarrow> [])"

definition too_many_saves :: string where
  "too_many_saves =
     ''This draft has been saved too many times while its mailbox is under a legal hold - send it or start a new draft.''"

text \<open>\<^verbatim>\<open>replacedKey\<close> may be absent.\<close>

definition withRetainedBodyBlobKey :: "RetainedBodyDraft \<Rightarrow> string option \<Rightarrow> string list result" where
  "withRetainedBodyBlobKey message replacedKey =
     (let keys = retainedBodyBlobKeysOf message
      in case replacedKey of
           None \<Rightarrow> Inr keys
         | Some k \<Rightarrow>
             if \<not> isRetainableBodyKey message (JStr k) \<or> k \<in> set keys then Inr keys
             else if length keys \<ge> MAX_RETAINED_BODY_BLOB_KEYS then Inl (ApiError 409 too_many_saves)
             else Inr (keys @ [k]))"

lemma retained_retainable:
  "k \<in> set (retainedBodyBlobKeysOf message) \<Longrightarrow> isRetainableBodyKey message (JStr k)"
  by (auto simp: retainedBodyBlobKeysOf_def str_of_def isRetainableBodyKey_def split: js_value.splits)

text \<open>A stored list of retainable keys without repetitions is read back as it is.\<close>

lemma retainedBodyBlobKeysOf_stored:
  assumes "distinct keys" "\<forall>k\<in>set keys. isRetainableBodyKey message (JStr k)"
  shows "retainedBodyBlobKeysOf (message\<lparr>rbd_retainedBodyBlobKeys := JArr (map JStr keys)\<rparr>) = keys"
proof -
  have "retainedBodyPrefixesOf (message\<lparr>rbd_retainedBodyBlobKeys := v\<rparr>) = retainedBodyPrefixesOf message" for v
    by (simp add: retainedBodyPrefixesOf_def)
  then have same: "isRetainableBodyKey (message\<lparr>rbd_retainedBodyBlobKeys := v\<rparr>) = isRetainableBodyKey message" for v
    by (intro ext) (simp add: isRetainableBodyKey_def split: js_value.split)
  have "filter (isRetainableBodyKey message) (map JStr keys) = map JStr keys"
    using assms(2) by (simp add: filter_id_conv)
  then show ?thesis
    using assms(1) by (simp add: retainedBodyBlobKeysOf_def same str_of_def comp_def uniq_fixed)
qed

text \<open>A save under a hold loses no earlier body. The list it writes is read back with every body
  retained before and the replaced one, if that is a body of this draft; the list keeps within
  500 keys once it does, and a save that would exceed it is refused instead.\<close>

theorem withRetainedBodyBlobKey_keeps:
  assumes "withRetainedBodyBlobKey message (Some k) = Inr keys"
  shows "let message' = message\<lparr>rbd_retainedBodyBlobKeys := JArr (map JStr keys)\<rparr>
    in set (retainedBodyBlobKeysOf message') =
         set (retainedBodyBlobKeysOf message) \<union> (if isRetainableBodyKey message (JStr k) then {k} else {}) \<and>
       (length (retainedBodyBlobKeysOf message) \<le> 500 \<longrightarrow> length (retainedBodyBlobKeysOf message') \<le> 500)"
proof -
  let ?old = "retainedBodyBlobKeysOf message"
  have dist: "distinct ?old"
    by (auto simp: retainedBodyBlobKeysOf_def split: js_value.splits)
  have keys: "keys = ?old \<and> (\<not> isRetainableBodyKey message (JStr k) \<or> k \<in> set ?old) \<or>
      keys = ?old @ [k] \<and> isRetainableBodyKey message (JStr k) \<and> k \<notin> set ?old \<and> length ?old < 500"
    using assms by (auto simp: withRetainedBodyBlobKey_def Let_def MAX_RETAINED_BODY_BLOB_KEYS_def split: if_splits)
  then have "distinct keys" "\<forall>x\<in>set keys. isRetainableBodyKey message (JStr x)"
    using dist retained_retainable by auto
  from retainedBodyBlobKeysOf_stored [OF this] keys show ?thesis
    by (auto simp: Let_def dest: retained_retainable)
qed

theorem withRetainedBodyBlobKey_keeps_witness:
  "let message = \<lparr>rbd_retainedBodyBlobKeys = JArr [JStr ''bodies/1'', JNull], rbd_mailboxUid = JUndefined\<rparr>;
       message' = message\<lparr>rbd_retainedBodyBlobKeys := JArr (map JStr [''bodies/1'', ''bodies/2''])\<rparr>
   in set (retainedBodyBlobKeysOf message') = {''bodies/1'', ''bodies/2''}"
proof -
  let ?m = "\<lparr>rbd_retainedBodyBlobKeys = JArr [JStr ''bodies/1'', JNull], rbd_mailboxUid = JUndefined\<rparr>"
  have "isRetainableBodyKey ?m (JStr ''bodies/1'')" "isRetainableBodyKey ?m (JStr ''bodies/2'')" "\<not> isRetainableBodyKey ?m JNull"
    by (simp_all add: isRetainableBodyKey_def retainedBodyPrefixesOf_def RETAINED_BODY_BLOB_KEY_PREFIX_def)
  moreover from this have "retainedBodyBlobKeysOf ?m = [''bodies/1'']"
    by (simp add: retainedBodyBlobKeysOf_def str_of_def uniq_def set_add_def)
  ultimately have "withRetainedBodyBlobKey ?m (Some ''bodies/2'') = Inr [''bodies/1'', ''bodies/2'']"
    by (simp add: withRetainedBodyBlobKey_def MAX_RETAINED_BODY_BLOB_KEYS_def)
  from withRetainedBodyBlobKey_keeps [OF this] show ?thesis
    using \<open>retainedBodyBlobKeysOf ?m = _\<close> \<open>isRetainableBodyKey ?m (JStr ''bodies/2'')\<close> by (simp add: Let_def insert_commute)
qed

end
