(* ===== verification/Retention.thy ===== *)
theory Retention
  imports Legal_Hold Blob_References Draft_Bodies
begin

text \<open>
  Retention (\<^verbatim>\<open>src/src/jobs/RetentionEnforcementJob.ts\<close>): the purge of expired messages and audit log
  entries in pages, skipping what a legal hold covers, and the release of draft bodies kept
  for a hold. The store is the tables the job reads and writes and the blobs; a blob or row
  deletion that throws is given by the predicates of \<open>faults\<close>. A page is the answer of the
  repository: the rows of the query after the cursor, in ascending order, cut at the limit.
\<close>

section \<open>The store\<close>

record message =
  msg_uid :: string
  msg_mailboxUid :: string
  msg_folderUid :: string
  msg_sentDate :: js_time
  msg_deleted :: bool
  msg_bodyBlobKey :: "string option"
  msg_sanitizedHtmlBlobKey :: "string option"
  msg_retainedBodyBlobKeys :: js_value

record attachment =
  atm_uid :: string
  atm_messageUid :: string
  atm_blobKey :: "string option"
  atm_extractedTextBlobKey :: "string option"

record audit_entry =
  ale_uid :: string
  ale_mailboxUid :: "string option"
  ale_dateCreated :: js_time

record mail_store =
  st_messages :: "message list"
  st_attachments :: "attachment list"
  st_auditLog :: "audit_entry list"
  st_matters :: "Matter list"
  st_quarantine :: "blob_row list"
  st_ingest :: "blob_row list"
  st_blobs :: "string set"
  st_search :: "string set"
  st_affectedFolders :: "string list"
  st_purgeRecords :: "(string \<times> nat \<times> nat) list"

record faults =
  blob_fails :: "string \<Rightarrow> bool"
  row_fails :: "string \<Rightarrow> bool"

definition field_if :: "string \<Rightarrow> string option \<Rightarrow> blob_row" where
  "field_if name v = (case v of None \<Rightarrow> [] | Some x \<Rightarrow> [(name, x)])"

definition message_row :: "message \<Rightarrow> blob_row" where
  "message_row m = (''uid'', msg_uid m) # field_if ''bodyBlobKey'' (msg_bodyBlobKey m) @
     field_if ''sanitizedHtmlBlobKey'' (msg_sanitizedHtmlBlobKey m)"

definition attachment_row :: "attachment \<Rightarrow> blob_row" where
  "attachment_row a = (''uid'', atm_uid a) # field_if ''blobKey'' (atm_blobKey a) @
     field_if ''extractedTextBlobKey'' (atm_extractedTextBlobKey a)"

definition database_of :: "mail_store \<Rightarrow> database" where
  "database_of st repo =
     (if repo = ''Message'' then map message_row (st_messages st)
      else if repo = ''Attachment'' then map attachment_row (st_attachments st)
      else if repo = ''QuarantineEntry'' then st_quarantine st
      else if repo = ''IngestQueueEntry'' then st_ingest st
      else [])"

definition holds_of :: "mail_store \<Rightarrow> LegalHoldIndex" where
  "holds_of st = holdIndexOf (sort_key matter_uid (st_matters st))"

text \<open>\<^verbatim>\<open>deleteBlobsIfUnreferenced(blobStore, blobSources, keys, exclude)\<close> on the store.\<close>

definition delete_blobs :: "faults \<Rightarrow> string option list \<Rightarrow> BlobReferenceExclusion option \<Rightarrow> mail_store \<Rightarrow> mail_store \<times> unit result" where
  "delete_blobs f keys exclude st =
     (case deleteBlobsIfUnreferenced (blob_fails f) (\<lambda>_. database_of st) (st_blobs st)
             (messageBlobReferenceSources all_repos) keys exclude of
        (blobs, r) \<Rightarrow> (st\<lparr>st_blobs := blobs\<rparr>, rbind r (\<lambda>_. Inr ())))"

text \<open>Sequencing: the next step runs only if the one before did not throw.\<close>

definition andthen :: "('s \<Rightarrow> 's \<times> unit result) \<Rightarrow> ('s \<Rightarrow> 's \<times> unit result) \<Rightarrow> 's \<Rightarrow> 's \<times> unit result" where
  "andthen f g st = (case f st of (st', Inl e) \<Rightarrow> (st', Inl e) | (st', Inr _) \<Rightarrow> g st')"

section \<open>Purging one message\<close>

definition delete_attachment_row :: "faults \<Rightarrow> attachment \<Rightarrow> mail_store \<Rightarrow> mail_store \<times> unit result" where
  "delete_attachment_row f a st =
     (if row_fails f (atm_uid a) then (st, Inl (OtherError ''delete''))
      else (st\<lparr>st_attachments := filter (\<lambda>b. atm_uid b \<noteq> atm_uid a) (st_attachments st)\<rparr>, Inr ()))"

definition purge_attachment :: "faults \<Rightarrow> attachment \<Rightarrow> mail_store \<Rightarrow> mail_store \<times> unit result" where
  "purge_attachment f a =
     andthen
       (delete_blobs f [atm_blobKey a, atm_extractedTextBlobKey a]
         (Some \<lparr>excl_repo = Some ''Attachment'', excl_entityType = None, excl_uid = atm_uid a\<rparr>))
       (delete_attachment_row f a)"

text \<open>The attachments of a message in the order the pages bring them: deleting a row the cursor has
  passed does not change the pages that follow.\<close>

fun purge_attachments :: "faults \<Rightarrow> attachment list \<Rightarrow> mail_store \<Rightarrow> mail_store \<times> unit result" where
  "purge_attachments f [] st = (st, Inr ())"
| "purge_attachments f (a # as) st = andthen (purge_attachment f a) (purge_attachments f as) st"

definition message_retained :: "message \<Rightarrow> string list" where
  "message_retained m =
     retainedBodyBlobKeysOf \<lparr>rbd_retainedBodyBlobKeys = msg_retainedBodyBlobKeys m, rbd_mailboxUid = JStr (msg_mailboxUid m)\<rparr>"

definition delete_message_row :: "faults \<Rightarrow> message \<Rightarrow> mail_store \<Rightarrow> mail_store \<times> unit result" where
  "delete_message_row f m st =
     (if row_fails f (msg_uid m) then (st, Inl (OtherError ''delete''))
      else (st\<lparr>st_messages := filter (\<lambda>x. msg_uid x \<noteq> msg_uid m) (st_messages st)\<rparr>, Inr ()))"

text \<open>What follows the deletion of the row throws no more: the folder to recount, the search
  document, and the sanitized body once more, its failure only logged.\<close>

definition after_delete :: "faults \<Rightarrow> message \<Rightarrow> mail_store \<Rightarrow> mail_store \<times> unit result" where
  "after_delete f m st =
     (let st1 = (if msg_deleted m then st
                 else st\<lparr>st_affectedFolders := set_add (st_affectedFolders st) (msg_folderUid m)\<rparr>);
          st2 = st1\<lparr>st_search := st_search st1 - {msg_uid m}\<rparr>
      in (fst (delete_blobs f [msg_sanitizedHtmlBlobKey m] None st2), Inr ()))"

definition purgeMessage :: "faults \<Rightarrow> message \<Rightarrow> mail_store \<Rightarrow> mail_store \<times> unit result" where
  "purgeMessage f m st =
     andthen (purge_attachments f (sort_key atm_uid (filter (\<lambda>a. atm_messageUid a = msg_uid m) (st_attachments st))))
    (andthen (delete_blobs f (msg_bodyBlobKey m # msg_sanitizedHtmlBlobKey m # map Some (message_retained m))
               (Some \<lparr>excl_repo = Some ''Message'', excl_entityType = None, excl_uid = msg_uid m\<rparr>))
    (andthen (delete_message_row f m) (after_delete f m))) st"

section \<open>Pages\<close>

text \<open>The rows of one page: how many were purged and examined so far.\<close>

fun purge_rows ::
  "LegalHoldIndex \<Rightarrow> (LegalHoldIndex \<Rightarrow> 'r \<Rightarrow> bool) \<Rightarrow> ('r \<Rightarrow> 's \<Rightarrow> 's \<times> unit result) \<Rightarrow> nat \<Rightarrow> 'r list \<Rightarrow>
   's \<times> nat \<times> nat \<Rightarrow> 's \<times> nat \<times> nat" where
  "purge_rows holds held purge budget [] acc = acc"
| "purge_rows holds held purge budget (row # rows) (st, purged, examined) =
     (if purged \<ge> budget then (st, purged, examined)
      else if held holds row then purge_rows holds held purge budget rows (st, purged, Suc examined)
      else case purge row st of
        (st', Inr _) \<Rightarrow> purge_rows holds held purge budget rows (st', Suc purged, Suc examined)
      | (st', Inl _) \<Rightarrow> purge_rows holds held purge budget rows (st', purged, Suc examined))"

lemma purge_rows_bounds:
  "case purge_rows holds held purge budget rows (st, purged, examined) of (st', purged', examined') \<Rightarrow>
     examined \<le> examined' \<and> examined' \<le> examined + length rows \<and> purged \<le> purged' \<and>
     (purged \<le> budget \<longrightarrow> purged' \<le> budget)"
proof (induction rows arbitrary: st purged examined)
  case (Cons row rows)
  note IH = Cons.IH [where st = st and purged = purged and examined = "Suc examined"]
    Cons.IH [where st = "fst (purge row st)" and purged = purged and examined = "Suc examined"]
    Cons.IH [where st = "fst (purge row st)" and purged = "Suc purged" and examined = "Suc examined"]
  show ?case
    using IH by (cases "purge row st"; cases "snd (purge row st)") (auto split: prod.splits)
qed simp

lemma purge_rows_progress:
  assumes "rows \<noteq> []" "purged < budget"
  shows "examined < snd (snd (purge_rows holds held purge budget rows (st, purged, examined)))"
proof (cases rows)
  case (Cons row rest)
  have later: "n < snd (snd (purge_rows holds held purge budget rest (s, p, Suc n)))" for s p n
    using purge_rows_bounds [where holds = holds and held = held and purge = purge and budget = budget and rows = rest
        and st = s and purged = p and examined = "Suc n"] by (auto split: prod.splits)
  show ?thesis
    using later assms(2) by (auto simp: Cons split: prod.split sum.split)
qed (use assms in simp)

record ('r, 's) purge_job =
  pj_fetch :: "'s \<Rightarrow> LegalHoldIndex \<Rightarrow> string option \<Rightarrow> nat \<Rightarrow> 'r list"
  pj_uid :: "'r \<Rightarrow> string"
  pj_isHeld :: "LegalHoldIndex \<Rightarrow> 'r \<Rightarrow> bool"
  pj_purge :: "'r \<Rightarrow> 's \<Rightarrow> 's \<times> unit result"
  pj_holds :: "'s \<Rightarrow> LegalHoldIndex"

function purge_pages ::
  "('r, 's) purge_job \<Rightarrow> nat \<Rightarrow> nat \<Rightarrow> nat \<Rightarrow> string option \<Rightarrow> 's \<Rightarrow> nat \<Rightarrow> nat \<Rightarrow> 's \<times> nat" where
  "purge_pages job pageSize maxExamined budget after st purged examined =
     (if \<not> (purged < budget \<and> examined < maxExamined) then (st, purged)
      else
        let holds = pj_holds job st;
            rows = pj_fetch job st holds after pageSize
        in if rows = [] then (st, purged)
           else
             case purge_rows holds (pj_isHeld job) (pj_purge job) budget rows (st, purged, examined) of
               (st', purged', examined') \<Rightarrow>
                 let last = pj_uid job (last rows)
                 in if length rows < pageSize \<or> \<not> (after = None \<or> last > the after) then (st', purged')
                    else purge_pages job pageSize maxExamined budget (Some last) st' purged' examined')"
  by pat_completeness auto
termination
proof (relation "measure (\<lambda>(job, pageSize, maxExamined, budget, after, st, purged, examined). maxExamined - examined)")
  fix job :: "('r, 's) purge_job" and pageSize maxExamined budget purged examined purged' examined' :: nat
    and after st st' holds rows last y
  assume "\<not> \<not> (purged < budget \<and> examined < maxExamined)" "rows \<noteq> []"
    "(st', y) = purge_rows holds (pj_isHeld job) (pj_purge job) budget rows (st, purged, examined)" "(purged', examined') = y"
  moreover from this have "examined < examined'"
    using purge_rows_progress [where rows = rows and purged = purged and budget = budget and examined = examined
        and holds = holds and held = "pj_isHeld job" and purge = "pj_purge job" and st = st] by (metis snd_conv)
  ultimately have lt: "maxExamined - examined' < maxExamined - examined"
    by linarith
  show "((job, pageSize, maxExamined, budget, Some last, st', purged', examined'),
      job, pageSize, maxExamined, budget, after, st, purged, examined)
      \<in> measure (\<lambda>(job, pageSize, maxExamined, budget, after, st, purged, examined). maxExamined - examined)"
    using lt by (simp only: in_measure case_prod_conv)
qed simp

declare purge_pages.simps [simp del]

definition purgeSortedBatches :: "('r, 's) purge_job \<Rightarrow> nat \<Rightarrow> nat \<Rightarrow> 's \<Rightarrow> 's \<times> nat" where
  "purgeSortedBatches job batchSize budget st =
     (let pageSize = max 1 (min batchSize 1000)
      in purge_pages job pageSize (pageSize * 20) budget None st 0 0)"

section \<open>The job\<close>

definition MS_PER_DAY :: int where "MS_PER_DAY = 24 * 60 * 60 * 1000"

definition find_page :: "('r \<Rightarrow> string) \<Rightarrow> 'r list \<Rightarrow> string option \<Rightarrow> nat \<Rightarrow> 'r list" where
  "find_page uid rows after limit = table_find uid rows after limit"

definition message_job :: "faults \<Rightarrow> int \<Rightarrow> bool \<Rightarrow> (message, mail_store) purge_job" where
  "message_job f cutoff soft_deleted =
     \<lparr>pj_fetch = (\<lambda>st holds after limit. find_page msg_uid
        (filter (\<lambda>m. msg_mailboxUid m \<notin> set (heldMailboxUids holds) \<and> time_less (msg_sentDate m) (Some cutoff) \<and>
                     msg_deleted m = soft_deleted) (st_messages st)) after limit),
      pj_uid = msg_uid,
      pj_isHeld = (\<lambda>holds m. isHeld holds (msg_mailboxUid m) (Some (msg_sentDate m))),
      pj_purge = purgeMessage f,
      pj_holds = holds_of\<rparr>"

definition purgeExpiredMessages :: "faults \<Rightarrow> nat \<Rightarrow> int \<Rightarrow> nat \<Rightarrow> mail_store \<Rightarrow> mail_store \<times> nat" where
  "purgeExpiredMessages f batchSize now maxAgeDays st =
     (let cutoff = now - int maxAgeDays * MS_PER_DAY;
          st0 = st\<lparr>st_affectedFolders := []\<rparr>
      in case purgeSortedBatches (message_job f cutoff False) batchSize batchSize st0 of
           (st1, live) \<Rightarrow>
             (case (if live \<ge> batchSize then (st1, 0)
                    else purgeSortedBatches (message_job f cutoff True) batchSize (batchSize - live) st1) of
                (st2, recovered) \<Rightarrow>
                  let purgedCount = live + recovered
                  in (if purgedCount > 0
                      then st2\<lparr>st_purgeRecords := st_purgeRecords st2 @ [(''Message'', purgedCount, maxAgeDays)]\<rparr>
                      else st2, purgedCount)))"

text \<open>The audit log: an entry without a mailbox is read by a pass of its own when any mailbox is held,
  because \<^verbatim>\<open>NOT IN\<close> drops it on one backend and keeps it on the other (\<open>nin_keeps_null\<close>).\<close>

datatype audit_scope = All_Entries | Org_Wide | Not_Held

definition in_scope :: "bool \<Rightarrow> LegalHoldIndex \<Rightarrow> audit_scope \<Rightarrow> audit_entry \<Rightarrow> bool" where
  "in_scope nin_keeps_null holds scope e =
     (case scope of
        All_Entries \<Rightarrow> True
      | Org_Wide \<Rightarrow> ale_mailboxUid e = None
      | Not_Held \<Rightarrow>
          if heldMailboxUids holds = [] then True
          else (case ale_mailboxUid e of None \<Rightarrow> nin_keeps_null | Some u \<Rightarrow> u \<notin> set (heldMailboxUids holds)))"

definition purge_audit_entry :: "faults \<Rightarrow> audit_entry \<Rightarrow> mail_store \<Rightarrow> mail_store \<times> unit result" where
  "purge_audit_entry f e st =
     (if row_fails f (ale_uid e) then (st, Inl (OtherError ''delete''))
      else (st\<lparr>st_auditLog := filter (\<lambda>x. ale_uid x \<noteq> ale_uid e) (st_auditLog st)\<rparr>, Inr ()))"

definition audit_job :: "faults \<Rightarrow> bool \<Rightarrow> int \<Rightarrow> audit_scope \<Rightarrow> (audit_entry, mail_store) purge_job" where
  "audit_job f nin_keeps_null cutoff scope =
     \<lparr>pj_fetch = (\<lambda>st holds after limit. find_page ale_uid
        (filter (\<lambda>e. in_scope nin_keeps_null holds scope e \<and> time_less (ale_dateCreated e) (Some cutoff)) (st_auditLog st)) after limit),
      pj_uid = ale_uid,
      pj_isHeld = (\<lambda>holds e. case ale_mailboxUid e of
          None \<Rightarrow> False
        | Some u \<Rightarrow> u \<noteq> [] \<and> isHeld holds u (Some (ale_dateCreated e))),
      pj_purge = purge_audit_entry f,
      pj_holds = holds_of\<rparr>"

fun purge_scopes :: "faults \<Rightarrow> bool \<Rightarrow> int \<Rightarrow> nat \<Rightarrow> audit_scope list \<Rightarrow> mail_store \<Rightarrow> nat \<Rightarrow> mail_store \<times> nat" where
  "purge_scopes f keeps cutoff batchSize [] st purged = (st, purged)"
| "purge_scopes f keeps cutoff batchSize (scope # scopes) st purged =
     (case purgeSortedBatches (audit_job f keeps cutoff scope) batchSize (batchSize - purged) st of
        (st', n) \<Rightarrow>
          if purged + n \<ge> batchSize then (st', purged + n)
          else purge_scopes f keeps cutoff batchSize scopes st' (purged + n))"

definition purgeExpiredAuditLogEntries :: "faults \<Rightarrow> bool \<Rightarrow> nat \<Rightarrow> int \<Rightarrow> nat \<Rightarrow> mail_store \<Rightarrow> mail_store \<times> nat" where
  "purgeExpiredAuditLogEntries f keeps batchSize now maxAgeDays st =
     (let cutoff = now - int maxAgeDays * MS_PER_DAY;
          scopes = (if heldMailboxUids (holds_of st) \<noteq> [] then [Org_Wide, Not_Held] else [All_Entries])
      in case purge_scopes f keeps cutoff batchSize scopes st 0 of
           (st', n) \<Rightarrow> (if n > 0 then st'\<lparr>st_purgeRecords := st_purgeRecords st' @ [(''AuditLogEntry'', n, maxAgeDays)]\<rparr> else st', n))"

text \<open>Draft bodies kept for a hold, released when no open matter holds the mailbox any more. A message
  whose version-checked update or blob deletion fails is left for the next run. The rows come
  in the order of the pages; holds do not change while the job runs alone.\<close>

definition release_message :: "faults \<Rightarrow> message \<Rightarrow> mail_store \<Rightarrow> mail_store \<times> unit result" where
  "release_message f m =
     andthen (delete_blobs f (map Some (filter (\<lambda>k. Some k \<noteq> msg_bodyBlobKey m) (message_retained m))) None)
       (\<lambda>st. if row_fails f (msg_uid m) then (st, Inl (ApiError 409 ''version''))
             else (st\<lparr>st_messages := map (\<lambda>x. if msg_uid x = msg_uid m then x\<lparr>msg_retainedBodyBlobKeys := JNull\<rparr> else x) (st_messages st)\<rparr>,
                   Inr ()))"

fun release_rows :: "faults \<Rightarrow> nat \<Rightarrow> nat \<Rightarrow> message list \<Rightarrow> mail_store \<times> nat \<times> nat \<Rightarrow> mail_store \<times> nat \<times> nat" where
  "release_rows f batchSize maxExamined [] acc = acc"
| "release_rows f batchSize maxExamined (m # ms) (st, released, examined) =
     (if released \<ge> batchSize \<or> examined \<ge> maxExamined then (st, released, examined)
      else if isHeld (holds_of st) (msg_mailboxUid m) None
      then release_rows f batchSize maxExamined ms (st, released, Suc examined)
      else case release_message f m st of
        (st', Inr _) \<Rightarrow> release_rows f batchSize maxExamined ms (st', Suc released, Suc examined)
      | (st', Inl _) \<Rightarrow> release_rows f batchSize maxExamined ms (st', released, Suc examined))"

definition retaining_rows :: "mail_store \<Rightarrow> bool \<Rightarrow> message list" where
  "retaining_rows st soft_deleted =
     sort_key msg_uid (filter (\<lambda>m. msg_retainedBodyBlobKeys m \<notin> {JUndefined, JNull} \<and> msg_deleted m = soft_deleted) (st_messages st))"

definition releaseRetainedDraftBodies :: "faults \<Rightarrow> nat \<Rightarrow> mail_store \<Rightarrow> mail_store" where
  "releaseRetainedDraftBodies f batchSize st =
     (let maxExamined = max 1 (min batchSize 1000) * 20
      in case release_rows f batchSize maxExamined (retaining_rows st False) (st, 0, 0) of
           (st1, released, examined) \<Rightarrow>
             fst (release_rows f batchSize maxExamined (retaining_rows st1 True) (st1, released, examined)))"

record RetentionPolicy =
  messageRetentionDays :: "nat option"
  auditLogRetentionDays :: "nat option"

definition days_of :: "nat option \<Rightarrow> nat" where
  "days_of d = (case d of None \<Rightarrow> 0 | Some n \<Rightarrow> n)"

definition run :: "faults \<Rightarrow> bool \<Rightarrow> nat \<Rightarrow> int \<Rightarrow> RetentionPolicy option \<Rightarrow> mail_store \<Rightarrow> mail_store" where
  "run f keeps batchSize now policy st =
     (let messageDays = (case policy of None \<Rightarrow> 0 | Some p \<Rightarrow> days_of (messageRetentionDays p));
          auditDays = (case policy of None \<Rightarrow> 0 | Some p \<Rightarrow> days_of (auditLogRetentionDays p));
          st1 = (if messageDays \<noteq> 0 then fst (purgeExpiredMessages f batchSize now messageDays st) else st);
          st2 = (if auditDays \<noteq> 0 then fst (purgeExpiredAuditLogEntries f keeps batchSize now auditDays st1) else st1)
      in releaseRetainedDraftBodies f batchSize st2)"

section \<open>Invariants of the loops\<close>

lemma purge_rows_invariant:
  assumes "\<And>row st. row \<in> set rows \<Longrightarrow> \<not> held holds row \<Longrightarrow> P st \<Longrightarrow> P (fst (purge row st))"
  shows "P st \<Longrightarrow> P (fst (purge_rows holds held purge budget rows (st, purged, examined)))"
  using assms
proof (induction rows arbitrary: st purged examined)
  case (Cons row rows)
  then have "\<not> held holds row \<Longrightarrow> P (fst (purge row st))"
    by simp
  then show ?case
    using Cons by (cases "purge row st"; cases "snd (purge row st)") auto
qed simp

lemma purge_pages_invariant:
  assumes "\<And>row st0 st after. P st0 \<Longrightarrow> row \<in> set (pj_fetch job st0 (pj_holds job st0) after pageSize) \<Longrightarrow>
      \<not> pj_isHeld job (pj_holds job st0) row \<Longrightarrow> P st \<Longrightarrow> P (fst (pj_purge job row st))"
  shows "P st \<Longrightarrow> P (fst (purge_pages job pageSize maxExamined budget after st purged examined))"
  using assms
proof (induction job pageSize maxExamined budget after st purged examined rule: purge_pages.induct)
  case (1 job pageSize maxExamined budget after st purged examined)
  let ?rows = "pj_fetch job st (pj_holds job st) after pageSize"
  obtain st' purged' examined' where page:
    "purge_rows (pj_holds job st) (pj_isHeld job) (pj_purge job) budget ?rows (st, purged, examined) = (st', purged', examined')"
    by (metis prod_cases3)
  have "P st'"
    using purge_rows_invariant [where P = P and rows = ?rows and held = "pj_isHeld job" and holds = "pj_holds job st"
        and purge = "pj_purge job" and st = st and budget = budget and purged = purged and examined = examined]
      1(2,3) page by simp
  then have next_page: "P (fst (purge_pages job pageSize maxExamined budget (Some (pj_uid job (last ?rows))) st' purged' examined'))"
    if "purged < budget" "examined < maxExamined" "?rows \<noteq> []"
      "\<not> (length ?rows < pageSize \<or> \<not> (after = None \<or> pj_uid job (last ?rows) > the after))"
    using 1(1) [OF _ refl refl _ page [symmetric] refl refl] that 1(3) by simp
  show ?case
    using \<open>P st'\<close> next_page 1(2) by (subst purge_pages.simps) (simp add: page Let_def)
qed

definition preserves :: "('s \<Rightarrow> bool) \<Rightarrow> ('s \<Rightarrow> 's \<times> unit result) \<Rightarrow> bool" where
  "preserves P f \<longleftrightarrow> (\<forall>st. P st \<longrightarrow> P (fst (f st)))"

lemma preserves_andthen [intro]: "preserves P f \<Longrightarrow> preserves P g \<Longrightarrow> preserves P (andthen f g)"
  by (auto simp: preserves_def andthen_def split: prod.splits sum.splits)

section \<open>What a hold protects\<close>

definition held_mailbox :: "mail_store \<Rightarrow> string \<Rightarrow> bool" where
  "held_mailbox st mailboxUid \<longleftrightarrow> (\<exists>matter\<in>set (st_matters st). matter_holds mailboxUid None matter)"

definition keys_of :: "string option list \<Rightarrow> string set" where
  "keys_of ks = {k. Some k \<in> set ks}"

definition attachments_of :: "mail_store \<Rightarrow> message \<Rightarrow> attachment set" where
  "attachments_of st m = {a \<in> set (st_attachments st). atm_messageUid a = msg_uid m}"

definition content_keys :: "mail_store \<Rightarrow> message \<Rightarrow> string set" where
  "content_keys st m = keys_of [msg_bodyBlobKey m, msg_sanitizedHtmlBlobKey m] \<union>
     (\<Union>a\<in>attachments_of st m. keys_of [atm_blobKey a, atm_extractedTextBlobKey a])"

definition store_ok :: "mail_store \<Rightarrow> bool" where
  "store_ok st \<longleftrightarrow> distinct (map msg_uid (st_messages st)) \<and> distinct (map atm_uid (st_attachments st))"

definition protects :: "mail_store \<Rightarrow> mail_store \<Rightarrow> bool" where
  "protects st0 st \<longleftrightarrow>
     st_matters st = st_matters st0 \<and> set (st_messages st) \<subseteq> set (st_messages st0) \<and>
     set (st_attachments st) \<subseteq> set (st_attachments st0) \<and>
     (\<forall>m\<in>set (st_messages st0). held_mailbox st0 (msg_mailboxUid m) \<longrightarrow>
        m \<in> set (st_messages st) \<and> attachments_of st0 m \<subseteq> set (st_attachments st) \<and>
        content_keys st0 m \<inter> st_blobs st0 \<subseteq> st_blobs st)"

lemma query_answers:
  assumes "s \<in> set sources" "fld \<in> set (src_fields s)" "row \<in> set (db (src_repo s))" "extraCriteria s = []"
    and "map_of row fld = Some key" "\<forall>u. excluded_uid exclude s = Some u \<longrightarrow> map_of row ''uid'' \<noteq> Some u"
  shows "\<exists>q\<in>set (queries_of sources key exclude). answers db q"
proof -
  let ?q = "(src_repo s, extraCriteria s @ (case excluded_uid exclude s of None \<Rightarrow> [] | Some u \<Rightarrow> [Ne ''uid'' u]) @ [Eq fld key])"
  have "?q \<in> set (queries_of sources key exclude)"
    using assms(1,2) by (auto simp: queries_of_def)
  moreover have "answers db ?q"
    using assms(3-6) by (auto simp: answers_def split: option.split intro!: bexI [of _ row])
  ultimately show ?thesis by blast
qed

lemma map_of_field_if [simp]: "map_of (field_if n v) = (\<lambda>k. if k = n then v else None)"
  by (auto simp: field_if_def split: option.split)

abbreviation excluding :: "string \<Rightarrow> string \<Rightarrow> BlobReferenceExclusion option" where
  "excluding repo u \<equiv> Some \<lparr>excl_repo = Some repo, excl_entityType = None, excl_uid = u\<rparr>"

lemmas source_defs = messageBlobReferenceSources_def all_repos_def source_if_def excluded_uid_def

text \<open>A message or an attachment that is not the excluded row is a reference to its keys.\<close>

lemma message_references:
  assumes "m \<in> set (st_messages st)" "k \<in> keys_of [msg_bodyBlobKey m, msg_sanitizedHtmlBlobKey m]"
    and "exclude = None \<or> (\<exists>r u. exclude = excluding r u \<and> (r = ''Message'' \<longrightarrow> msg_uid m \<noteq> u))"
  shows "\<exists>q\<in>set (queries_of (messageBlobReferenceSources all_repos) k exclude). answers (database_of st) q"
proof -
  let ?s = "\<lparr>src_repo = ''Message'', src_entityType = Some ''message'', src_fields = [''bodyBlobKey'', ''sanitizedHtmlBlobKey''], extraCriteria = []\<rparr>"
  have s: "?s \<in> set (messageBlobReferenceSources all_repos)"
    by (simp add: source_defs)
  have "\<exists>fld\<in>set (src_fields ?s). map_of (message_row m) fld = Some k"
    using assms(2) by (simp add: keys_of_def message_row_def map_add_def eq_commute split: option.split) auto
  then obtain fld where fld: "fld \<in> set (src_fields ?s)" "map_of (message_row m) fld = Some k"
    by (elim bexE)
  have row: "message_row m \<in> set (database_of st (src_repo ?s))"
    using assms(1) by (simp add: database_of_def)
  have excl: "\<forall>u. excluded_uid exclude ?s = Some u \<longrightarrow> map_of (message_row m) ''uid'' \<noteq> Some u"
    using assms(3) by (auto simp: excluded_uid_def message_row_def split: if_splits)
  show ?thesis
    by (rule query_answers [where db = "database_of st", OF s fld(1) row _ fld(2) excl]) simp
qed

lemma attachment_references:
  assumes "a \<in> set (st_attachments st)" "k \<in> keys_of [atm_blobKey a, atm_extractedTextBlobKey a]"
    and "exclude = None \<or> (\<exists>r u. exclude = excluding r u \<and> (r = ''Attachment'' \<longrightarrow> atm_uid a \<noteq> u))"
  shows "\<exists>q\<in>set (queries_of (messageBlobReferenceSources all_repos) k exclude). answers (database_of st) q"
proof -
  let ?s = "\<lparr>src_repo = ''Attachment'', src_entityType = Some ''attachment'', src_fields = [''blobKey'', ''extractedTextBlobKey''], extraCriteria = []\<rparr>"
  have s: "?s \<in> set (messageBlobReferenceSources all_repos)"
    by (simp add: source_defs)
  have "\<exists>fld\<in>set (src_fields ?s). map_of (attachment_row a) fld = Some k"
    using assms(2) by (simp add: keys_of_def attachment_row_def map_add_def eq_commute split: option.split) auto
  then obtain fld where fld: "fld \<in> set (src_fields ?s)" "map_of (attachment_row a) fld = Some k"
    by (elim bexE)
  have row: "attachment_row a \<in> set (database_of st (src_repo ?s))"
    using assms(1) by (simp add: database_of_def)
  have excl: "\<forall>u. excluded_uid exclude ?s = Some u \<longrightarrow> map_of (attachment_row a) ''uid'' \<noteq> Some u"
    using assms(3) by (auto simp: excluded_uid_def attachment_row_def split: if_splits)
  show ?thesis
    by (rule query_answers [where db = "database_of st", OF s fld(1) row _ fld(2) excl]) simp
qed

lemma delete_blobs_fields:
  "\<exists>bs. fst (delete_blobs f keys exclude st) = st\<lparr>st_blobs := bs\<rparr>"
  by (auto simp: delete_blobs_def split: prod.split)

lemma delete_blobs_keep:
  assumes "\<exists>q\<in>set (queries_of (messageBlobReferenceSources all_repos) k exclude). answers (database_of st) q" "k \<in> st_blobs st"
  shows "k \<in> st_blobs (fst (delete_blobs f keys exclude st))"
proof -
  have "fst (isBlobKeyReferenced (\<lambda>_. database_of st) t (messageBlobReferenceSources all_repos) k exclude)" for t
    using assms(1) by (simp add: isBlobKeyReferenced_run run_queries_still)
  note keeps = delete_keys_keeps [where db = "\<lambda>_. database_of st" and deleted = "[]" and fails = "blob_fails f" and t = 0
      and blobs = "st_blobs st", OF this]
  have "st_blobs (fst (delete_blobs f keys exclude st)) =
      fst (deleteBlobsIfUnreferenced (blob_fails f) (\<lambda>_. database_of st) (st_blobs st) (messageBlobReferenceSources all_repos) keys exclude)"
    by (simp add: delete_blobs_def split: prod.split)
  with keeps assms(2) show ?thesis
    by (simp add: deleteBlobsIfUnreferenced_def)
qed

text \<open>A row of a mailbox no open matter holds; the row excluded from the reference check belongs to it.\<close>

definition unheld :: "mail_store \<Rightarrow> message \<Rightarrow> bool" where
  "unheld st0 r \<longleftrightarrow> r \<in> set (st_messages st0) \<and> \<not> held_mailbox st0 (msg_mailboxUid r)"

lemma unheld_other:
  assumes "store_ok st0" "unheld st0 r" "m \<in> set (st_messages st0)" "held_mailbox st0 (msg_mailboxUid m)"
  shows "msg_uid m \<noteq> msg_uid r"
  using assms by (auto simp: store_ok_def unheld_def distinct_map inj_on_def)

lemma unheld_other_attachment:
  assumes "store_ok st0" "a \<in> attachments_of st0 r" "b \<in> attachments_of st0 m" "msg_uid m \<noteq> msg_uid r"
  shows "atm_uid b \<noteq> atm_uid a"
  using assms by (auto simp: store_ok_def attachments_of_def distinct_map inj_on_def)

lemma protects_delete_blobs:
  assumes ok: "store_ok st0" and P: "protects st0 st" and r: "unheld st0 r"
    and excl: "exclude = None \<or> exclude = excluding ''Message'' (msg_uid r) \<or>
      (\<exists>a\<in>attachments_of st0 r. exclude = excluding ''Attachment'' (atm_uid a))"
  shows "protects st0 (fst (delete_blobs f keys exclude st))"
proof -
  have keep: "k \<in> st_blobs (fst (delete_blobs f keys exclude st))"
    if m: "m \<in> set (st_messages st0)" "held_mailbox st0 (msg_mailboxUid m)" and k: "k \<in> content_keys st0 m" "k \<in> st_blobs st0" for m k
  proof (rule delete_blobs_keep)
    have other: "msg_uid m \<noteq> msg_uid r"
      using ok r m by (rule unheld_other)
    from k(1) consider "k \<in> keys_of [msg_bodyBlobKey m, msg_sanitizedHtmlBlobKey m]"
      | b where "b \<in> attachments_of st0 m" "k \<in> keys_of [atm_blobKey b, atm_extractedTextBlobKey b]"
      by (auto simp: content_keys_def)
    then show "\<exists>q\<in>set (queries_of (messageBlobReferenceSources all_repos) k exclude). answers (database_of st) q"
    proof cases
      case 1
      then show ?thesis
        using m P excl other by (intro message_references [of m]) (auto simp: protects_def)
    next
      case 2
      then show ?thesis
        using m P excl unheld_other_attachment [OF ok _ 2(1) other]
        by (intro attachment_references [of b]) (auto simp: protects_def)
    qed
    show "k \<in> st_blobs st"
      using P m k by (auto simp: protects_def)
  qed
  obtain bs where "fst (delete_blobs f keys exclude st) = st\<lparr>st_blobs := bs\<rparr>"
    using delete_blobs_fields by blast
  with keep P show ?thesis
    by (auto simp: protects_def)
qed

lemma protects_purge_attachment:
  assumes "store_ok st0" "unheld st0 r" "a \<in> attachments_of st0 r"
  shows "preserves (protects st0) (purge_attachment f a)"
  unfolding purge_attachment_def
proof (rule preserves_andthen)
  show "preserves (protects st0) (delete_blobs f [atm_blobKey a, atm_extractedTextBlobKey a] (excluding ''Attachment'' (atm_uid a)))"
    unfolding preserves_def
  proof (intro allI impI)
    fix st assume "protects st0 st"
    from protects_delete_blobs [OF assms(1) this assms(2)] assms(3)
    show "protects st0 (fst (delete_blobs f [atm_blobKey a, atm_extractedTextBlobKey a] (excluding ''Attachment'' (atm_uid a)) st))"
      by blast
  qed
  have "atm_uid b \<noteq> atm_uid a" if "m \<in> set (st_messages st0)" "held_mailbox st0 (msg_mailboxUid m)" "b \<in> attachments_of st0 m" for m b
    using unheld_other_attachment [OF assms(1,3) that(3)] unheld_other [OF assms(1,2) that(1,2)] by blast
  then show "preserves (protects st0) (delete_attachment_row f a)"
    by (auto simp: preserves_def delete_attachment_row_def protects_def attachments_of_def)
qed

lemma protects_purge_attachments:
  assumes "store_ok st0" "unheld st0 r"
  shows "set as \<subseteq> attachments_of st0 r \<Longrightarrow> preserves (protects st0) (purge_attachments f as)"
proof (induction "as")
  case Nil
  then show ?case by (simp add: preserves_def)
next
  case (Cons a "as")
  then have "preserves (protects st0) (andthen (purge_attachment f a) (purge_attachments f as))"
    using protects_purge_attachment [OF assms] by (intro preserves_andthen) simp_all
  then show ?case
    by (simp add: preserves_def)
qed

lemma protects_after_delete:
  assumes "store_ok st0" "unheld st0 r"
  shows "preserves (protects st0) (after_delete f r)"
  unfolding preserves_def
proof (intro allI impI)
  fix st assume P: "protects st0 st"
  define st2 where "st2 = (let st1 = (if msg_deleted r then st
                 else st\<lparr>st_affectedFolders := set_add (st_affectedFolders st) (msg_folderUid r)\<rparr>)
     in st1\<lparr>st_search := st_search st1 - {msg_uid r}\<rparr>)"
  have "protects st0 st2"
    using P by (simp add: protects_def st2_def Let_def)
  from protects_delete_blobs [OF assms(1) this assms(2), of None]
  show "protects st0 (fst (after_delete f r st))"
    by (simp add: after_delete_def st2_def Let_def)
qed

lemma protects_delete_message:
  assumes "store_ok st0" "unheld st0 r"
  shows "preserves (protects st0) (delete_message_row f r)"
proof -
  have "msg_uid m \<noteq> msg_uid r" if "m \<in> set (st_messages st0)" "held_mailbox st0 (msg_mailboxUid m)" for m
    using unheld_other [OF assms that] .
  then show ?thesis
    by (auto simp: preserves_def delete_message_row_def protects_def)
qed

lemma protects_purgeMessage:
  assumes "store_ok st0" "unheld st0 r"
  shows "preserves (protects st0) (purgeMessage f r)"
  unfolding preserves_def
proof (intro allI impI)
  fix st assume P: "protects st0 st"
  let ?as = "sort_key atm_uid (filter (\<lambda>a. atm_messageUid a = msg_uid r) (st_attachments st))"
  let ?keys = "msg_bodyBlobKey r # msg_sanitizedHtmlBlobKey r # map Some (message_retained r)"
  have "set ?as \<subseteq> attachments_of st0 r"
    using P by (auto simp: protects_def attachments_of_def)
  then have "preserves (protects st0) (purge_attachments f ?as)"
    by (rule protects_purge_attachments [OF assms])
  moreover have "preserves (protects st0) (delete_blobs f ?keys (excluding ''Message'' (msg_uid r)))"
    using protects_delete_blobs [OF assms(1) _ assms(2)] by (simp add: preserves_def)
  ultimately have "preserves (protects st0)
      (andthen (purge_attachments f ?as) (andthen (delete_blobs f ?keys (excluding ''Message'' (msg_uid r)))
        (andthen (delete_message_row f r) (after_delete f r))))"
    by (intro preserves_andthen protects_delete_message [OF assms] protects_after_delete [OF assms])
  with P show "protects st0 (fst (purgeMessage f r st))"
    by (simp add: preserves_def purgeMessage_def)
qed

lemma protects_message_job:
  assumes "store_ok st0" "protects st0 st"
  shows "protects st0 (fst (purgeSortedBatches (message_job f cutoff d) batchSize budget st))"
  unfolding purgeSortedBatches_def Let_def
proof (rule purge_pages_invariant [where P = "protects st0"])
  show "protects st0 st" by (rule assms(2))
  fix row st1 st' after
  assume P: "protects st0 st1" "protects st0 st'"
    and row: "row \<in> set (pj_fetch (message_job f cutoff d) st1 (pj_holds (message_job f cutoff d) st1) after (max 1 (min batchSize 1000)))"
  from row have "row \<in> set (st_messages st1)" "msg_mailboxUid row \<notin> set (heldMailboxUids (holds_of st1))"
    by (auto simp: message_job_def find_page_def table_find_def after_cursor_def dest!: in_set_takeD)
  then have "unheld st0 row"
    using P(1) by (auto simp: unheld_def protects_def held_mailbox_def holds_of_def heldMailboxUids_index)
  with P(2) assms(1) show "protects st0 (fst (pj_purge (message_job f cutoff d) row st'))"
    using protects_purgeMessage [OF assms(1)] by (simp add: message_job_def preserves_def)
qed

lemma protects_refl: "protects st st"
  by (auto simp: protects_def attachments_of_def)

lemma protects_other_fields:
  "protects st0 (st\<lparr>st_purgeRecords := rs\<rparr>) = protects st0 st" "protects st0 (st\<lparr>st_affectedFolders := fs\<rparr>) = protects st0 st"
  "protects st0 (st\<lparr>st_auditLog := al\<rparr>) = protects st0 st"
  by (simp_all add: protects_def)

section \<open>Properties\<close>


definition example_msg :: "string \<Rightarrow> string \<Rightarrow> message" where
  "example_msg uid mailbox =
     \<lparr>msg_uid = uid, msg_mailboxUid = mailbox, msg_folderUid = ''inbox'', msg_sentDate = Some 0, msg_deleted = False,
      msg_bodyBlobKey = Some ''raw/1'', msg_sanitizedHtmlBlobKey = None, msg_retainedBodyBlobKeys = JUndefined\<rparr>"

definition example_store :: mail_store where
  "example_store =
     \<lparr>st_messages = [example_msg ''1'' ''box'', example_msg ''2'' ''other''], st_attachments = [], st_auditLog = [],
      st_matters = example_matters, st_quarantine = [], st_ingest = [], st_blobs = {''raw/1''}, st_search = {},
      st_affectedFolders = [], st_purgeRecords = []\<rparr>"


lemma purge_attachments_rows:
  "fst (purge_attachments f as st) = st' \<Longrightarrow>
     st_messages st' = st_messages st \<and> st_search st' = st_search st \<and>
     (\<forall>u. snd (purge_attachments f as st) = Inr u \<longrightarrow>
        set (st_attachments st') = {a \<in> set (st_attachments st). atm_uid a \<notin> atm_uid ` set as})"
proof (induction "as" arbitrary: st st')
  case (Cons a "as")
  let ?del = "delete_blobs f [atm_blobKey a, atm_extractedTextBlobKey a] (excluding ''Attachment'' (atm_uid a)) st"
  obtain bs r where del: "?del = (st\<lparr>st_blobs := bs\<rparr>, r)"
    using delete_blobs_fields [of f _ _ st] by (metis prod.collapse)
  let ?st2 = "st\<lparr>st_blobs := bs, st_attachments := filter (\<lambda>b. atm_uid b \<noteq> atm_uid a) (st_attachments st)\<rparr>"
  show ?case
  proof (cases "(\<exists>e. r = Inl e) \<or> row_fails f (atm_uid a)")
    case True
    then obtain e where "purge_attachments f (a # as) st = (st\<lparr>st_blobs := bs\<rparr>, Inl e)"
      by (cases r) (auto simp: andthen_def purge_attachment_def delete_attachment_row_def del)
    then show ?thesis
      using Cons.prems by auto
  next
    case False
    then have "purge_attachments f (a # as) st = purge_attachments f as ?st2"
      by (cases r) (auto simp: andthen_def purge_attachment_def delete_attachment_row_def del)
    then show ?thesis
      using Cons.prems Cons.IH [of ?st2 "fst (purge_attachments f as ?st2)"] by auto
  qed
qed simp


lemma purge_pages_budget:
  "purged \<le> budget \<Longrightarrow> snd (purge_pages job pageSize maxExamined budget after st purged examined) \<le> budget"
proof (induction job pageSize maxExamined budget after st purged examined rule: purge_pages.induct)
  case (1 job pageSize maxExamined budget after st purged examined)
  let ?rows = "pj_fetch job st (pj_holds job st) after pageSize"
  obtain st' purged' examined' where page:
    "purge_rows (pj_holds job st) (pj_isHeld job) (pj_purge job) budget ?rows (st, purged, examined) = (st', purged', examined')"
    by (metis prod_cases3)
  then have "purged' \<le> budget"
    using purge_rows_bounds [where holds = "pj_holds job st" and held = "pj_isHeld job" and purge = "pj_purge job"
        and budget = budget and rows = ?rows and st = st and purged = purged and examined = examined] 1(2) by simp
  then show ?case
    using 1(1) [OF _ refl refl _ page [symmetric] refl refl] 1(2)
    by (subst purge_pages.simps) (simp add: page Let_def)
qed

text \<open>A run stays within its batch. The number of messages purged in a run is at most the batch size.\<close>

theorem purgeExpiredMessages_budget:
  "snd (purgeExpiredMessages f batchSize now maxAgeDays st) \<le> batchSize"
proof -
  have le: "snd (purgeSortedBatches job batchSize budget s) \<le> budget" for job budget and s :: mail_store
    using purge_pages_budget [of 0 budget] by (simp add: purgeSortedBatches_def Let_def)
  let ?job = "message_job f (now - int maxAgeDays * MS_PER_DAY)"
  obtain st1 live where 1: "purgeSortedBatches (?job False) batchSize batchSize (st\<lparr>st_affectedFolders := []\<rparr>) = (st1, live)"
    by fastforce
  obtain st2 recovered where 2: "purgeSortedBatches (?job True) batchSize (batchSize - live) st1 = (st2, recovered)"
    by fastforce
  have "live \<le> batchSize" "recovered \<le> batchSize - live"
    using le [of "?job False" batchSize] le [of "?job True" "batchSize - live" st1] 1 2 by (metis snd_conv)+
  then show ?thesis
    by (auto simp: purgeExpiredMessages_def Let_def 1 2)
qed

end
