(* ===== verification/Scheduled_Send.thy ===== *)
theory Scheduled_Send
  imports Addresses
begin

text \<open>
  Scheduled sends (\<^verbatim>\<open>src/src/jobs/ScheduledSendJob.ts\<close>): the checks before a relay, the writes to the
  message row (claim, relayed marker, filing, refusal, failed attempt) as functions on the
  row, and the handler \<^verbatim>\<open>relayDueMessage()\<close> as a transition system: several workers and the
  user act on one row, each repository call one step. A version-checked update succeeds only
  on the row that was read, so it is applied to that row. The relay itself is irreversible
  and only counted.
\<close>

section \<open>Rows\<close>

record scheduled_row =
  sr_version :: nat
  sr_folderUid :: string
  sr_mailboxUid :: string
  sr_from :: "string option"
  sr_recipients :: "string option list"
  scheduledSendTime :: "int option"
  scheduledSendLeaseExpiresAt :: "int option"
  scheduledSendAttempts :: "nat option"
  scheduledSendError :: "string option"
  scheduledSendRelayedAt :: "int option"

record send_folder =
  sf_isOutbox :: bool
  sf_mailboxUid :: string

record send_mailbox =
  primarySmtpAddress :: string
  aliasAddresses :: "string list option"

record send_env =
  folder_of :: "string \<Rightarrow> send_folder option"
  mailbox_of :: "string \<Rightarrow> send_mailbox option"

record send_config =
  maxAttempts :: nat
  retryBackoffMs :: nat
  leaseMs :: nat

section \<open>Checks before a relay\<close>

text \<open>A refusal, or the mailbox's own addresses (none for a message that only needs filing).\<close>

definition validateForRelay :: "send_env \<Rightarrow> scheduled_row \<Rightarrow> bool \<Rightarrow> string + string list" where
  "validateForRelay env message folderOnly =
     (case (if sr_folderUid message = [] then None else folder_of env (sr_folderUid message)) of
        None \<Rightarrow> Inl (''Message is not in its mailbox'' @ [CHR 0x27] @ ''s Outbox folder.'')
      | Some folder \<Rightarrow>
          if \<not> sf_isOutbox folder \<or> sf_mailboxUid folder \<noteq> sr_mailboxUid message
          then Inl (''Message is not in its mailbox'' @ [CHR 0x27] @ ''s Outbox folder.'')
          else if folderOnly then Inr []
          else (case mailbox_of env (sr_mailboxUid message) of
                  None \<Rightarrow> Inl ''The sending mailbox no longer exists.''
                | Some mailbox \<Rightarrow>
                    let ownAddresses = map normalizeAddress (filter (\<lambda>a. a \<noteq> [])
                          (primarySmtpAddress mailbox # nullish (aliasAddresses mailbox)))
                    in if \<not> list_ex (\<lambda>r. case r of Some a \<Rightarrow> js_trim a \<noteq> [] | None \<Rightarrow> False) (sr_recipients message)
                       then Inl ''The message has no To, Cc or Bcc recipients.''
                       else let fromAddress = (case sr_from message of Some a \<Rightarrow> normalizeAddress a | None \<Rightarrow> [])
                            in if fromAddress = [] \<or> fromAddress \<notin> set ownAddresses
                               then Inl (''The From address is not one of the sending mailbox'' @ [CHR 0x27] @ ''s own addresses.'')
                               else Inr ownAddresses))"

definition stillClaimed :: "scheduled_row \<Rightarrow> scheduled_row \<Rightarrow> bool" where
  "stillClaimed current claimed \<longleftrightarrow>
     sr_folderUid current = sr_folderUid claimed \<and> scheduledSendLeaseExpiresAt claimed \<noteq> None \<and>
     scheduledSendLeaseExpiresAt current = scheduledSendLeaseExpiresAt claimed"

section \<open>The writes\<close>

definition bump :: "scheduled_row \<Rightarrow> scheduled_row" where
  "bump r = r\<lparr>sr_version := Suc (sr_version r)\<rparr>"

definition claim_row :: "send_config \<Rightarrow> int \<Rightarrow> scheduled_row \<Rightarrow> scheduled_row" where
  "claim_row cfg now r =
     bump (r\<lparr>scheduledSendTime := Some (now + int (leaseMs cfg)), scheduledSendLeaseExpiresAt := Some (now + int (leaseMs cfg))\<rparr>)"

definition mark_relayed :: "int \<Rightarrow> scheduled_row \<Rightarrow> scheduled_row" where
  "mark_relayed relayedAt r = bump (r\<lparr>scheduledSendRelayedAt := Some relayedAt\<rparr>)"

definition file_row :: "string \<Rightarrow> scheduled_row \<Rightarrow> scheduled_row" where
  "file_row sentFolder r =
     bump (r\<lparr>sr_folderUid := sentFolder, scheduledSendTime := None, scheduledSendLeaseExpiresAt := None,
             scheduledSendAttempts := None, scheduledSendError := None, scheduledSendRelayedAt := None\<rparr>)"

definition refuse_row :: "string \<Rightarrow> scheduled_row \<Rightarrow> scheduled_row" where
  "refuse_row reason r =
     bump (r\<lparr>scheduledSendTime := None, scheduledSendLeaseExpiresAt := None, scheduledSendAttempts := None,
             scheduledSendError := Some reason\<rparr>)"

definition MAX_ERROR_LENGTH :: nat where "MAX_ERROR_LENGTH = 1000"

definition FILING_ATTEMPTS :: nat where "FILING_ATTEMPTS = 3"

fun js_nat :: "nat \<Rightarrow> string" where
  "js_nat n = (if n < 10 then [char_of (48 + n)] else js_nat (n div 10) @ [char_of (48 + n mod 10)])"

declare js_nat.simps [simp del]

text \<open>\<open>extra\<close> is the marker a failed filing stamps once more.\<close>

definition attempts_of :: "scheduled_row \<Rightarrow> nat" where
  "attempts_of r = (case scheduledSendAttempts r of None \<Rightarrow> 0 | Some n \<Rightarrow> n)"

definition fail_row :: "send_config \<Rightarrow> int \<Rightarrow> int \<Rightarrow> bool \<Rightarrow> string \<Rightarrow> int option \<Rightarrow> scheduled_row \<Rightarrow> scheduled_row" where
  "fail_row cfg now dueAt permanent message extra current =
     (let attempts = attempts_of current + 1;
          reason = take MAX_ERROR_LENGTH message;
          exhausted = (permanent \<or> attempts \<ge> maxAttempts cfg);
          finalReason = (if permanent \<and> attempts < maxAttempts cfg then reason
                         else ''Gave up after '' @ js_nat attempts @ '' attempts: '' @ reason);
          nextAttemptAt = max now dueAt + int attempts * int (retryBackoffMs cfg)
      in bump (current\<lparr>
           scheduledSendRelayedAt := (case extra of None \<Rightarrow> scheduledSendRelayedAt current | Some t \<Rightarrow> Some t),
           scheduledSendTime := (if exhausted then None else Some nextAttemptAt),
           scheduledSendLeaseExpiresAt := None,
           scheduledSendAttempts := (if exhausted then None else Some attempts),
           scheduledSendError := Some (if exhausted then finalReason else reason)\<rparr>))"

lemmas row_writes = bump_def claim_row_def mark_relayed_def file_row_def refuse_row_def fail_row_def

section \<open>The handler as a transition system\<close>

text \<open>Where a worker is in \<^verbatim>\<open>relayDueMessage()\<close>: it has read a due row; it holds a claim and is relaying;
  the transport has accepted and \<^verbatim>\<open>recordRelayed()\<close> is at its n-th attempt with the row it last
  read; it is filing a relayed message; or it is recording a failed attempt, of a message that
  had been relayed or not.\<close>

datatype worker =
    Idle
  | Picked scheduled_row
  | Relaying scheduled_row
  | Recording scheduled_row scheduled_row nat
  | Filing scheduled_row
  | Failing scheduled_row bool

fun claim_of :: "worker \<Rightarrow> scheduled_row option" where
  "claim_of (Relaying c) = Some c"
| "claim_of (Recording c cur n) = Some c"
| "claim_of (Filing c) = Some c"
| "claim_of (Failing c relayed) = Some c"
| "claim_of _ = None"

fun past_relay :: "worker \<Rightarrow> bool" where
  "past_relay (Recording c cur n) = True"
| "past_relay (Filing c) = True"
| "past_relay (Failing c relayed) = relayed"
| "past_relay _ = False"

text \<open>\<open>lost\<close> records that a worker went away after the transport accepted the message, leaving it
  due and unmarked.\<close>

record system =
  sys_now :: int
  sys_row :: scheduled_row
  sys_workers :: "nat \<Rightarrow> worker"
  sys_relays :: nat
  sys_lost :: bool

text \<open>Still to be sent and not marked as relayed.\<close>

definition open_row :: "scheduled_row \<Rightarrow> bool" where
  "open_row r \<longleftrightarrow> scheduledSendTime r \<noteq> None \<and> scheduledSendRelayedAt r = None"

abbreviation set_worker :: "nat \<Rightarrow> worker \<Rightarrow> system \<Rightarrow> system" where
  "set_worker w p s \<equiv> s\<lparr>sys_workers := (sys_workers s)(w := p)\<rparr>"

definition leave :: "nat \<Rightarrow> system \<Rightarrow> system" where
  "leave w s = s\<lparr>sys_workers := (sys_workers s)(w := Idle),
     sys_lost := (sys_lost s \<or> past_relay (sys_workers s w) \<and> open_row (sys_row s))\<rparr>"

inductive sched_step :: "send_config \<Rightarrow> send_env \<Rightarrow> system \<Rightarrow> system \<Rightarrow> bool" for cfg env where
  tick: "0 \<le> d \<Longrightarrow> sched_step cfg env s (s\<lparr>sys_now := sys_now s + d\<rparr>)"
| user_touches: "sched_step cfg env s (s\<lparr>sys_row := bump (sys_row s)\<rparr>)"
| user_cancels:
    "(case scheduledSendLeaseExpiresAt (sys_row s) of None \<Rightarrow> True | Some t \<Rightarrow> t \<le> sys_now s) \<Longrightarrow>
     sched_step cfg env s (s\<lparr>sys_row := bump ((sys_row s)\<lparr>sr_folderUid := f, scheduledSendTime := None, scheduledSendLeaseExpiresAt := None\<rparr>)\<rparr>)"
| pick:
    "sys_workers s w = Idle \<Longrightarrow> scheduledSendTime (sys_row s) = Some t \<Longrightarrow> t \<le> sys_now s \<Longrightarrow>
     sched_step cfg env s (set_worker w (Picked (sys_row s)) s)"
| refuse:
    "sys_workers s w = Picked r \<Longrightarrow> validateForRelay env r (scheduledSendRelayedAt r \<noteq> None) = Inl reason \<Longrightarrow>
     sr_version (sys_row s) = sr_version r \<Longrightarrow>
     sched_step cfg env s (set_worker w Idle (s\<lparr>sys_row := refuse_row reason (sys_row s)\<rparr>))"
| claim:
    "sys_workers s w = Picked r \<Longrightarrow> validateForRelay env r (scheduledSendRelayedAt r \<noteq> None) = Inr own \<Longrightarrow>
     sr_version (sys_row s) = sr_version r \<Longrightarrow> c = claim_row cfg (sys_now s) (sys_row s) \<Longrightarrow>
     sched_step cfg env s (set_worker w (if scheduledSendRelayedAt r \<noteq> None then Filing c else Relaying c) (s\<lparr>sys_row := c\<rparr>))"
| conflict:
    "sys_workers s w = Picked r \<Longrightarrow> sr_version (sys_row s) \<noteq> sr_version r \<Longrightarrow> sched_step cfg env s (set_worker w Idle s)"
| refuse_claimed:
    "sys_workers s w = Relaying c \<Longrightarrow> sr_version (sys_row s) = sr_version c \<Longrightarrow>
     sched_step cfg env s (set_worker w Idle (s\<lparr>sys_row := refuse_row reason (sys_row s)\<rparr>))"
| relay_fails: "sys_workers s w = Relaying c \<Longrightarrow> sched_step cfg env s (set_worker w (Failing c False) s)"
| relay_accepted:
    "sys_workers s w = Relaying c \<Longrightarrow>
     sched_step cfg env s (set_worker w (Recording c c 1) (s\<lparr>sys_relays := Suc (sys_relays s)\<rparr>))"
| already_marked:
    "sys_workers s w = Recording c cur n \<Longrightarrow> scheduledSendRelayedAt cur \<noteq> None \<Longrightarrow>
     sched_step cfg env s (set_worker w (Filing c) s)"
| record_relayed:
    "sys_workers s w = Recording c cur n \<Longrightarrow> scheduledSendRelayedAt cur = None \<Longrightarrow> sr_version (sys_row s) = sr_version cur \<Longrightarrow>
     sched_step cfg env s (set_worker w (Filing c) (s\<lparr>sys_row := mark_relayed relayedAt (sys_row s)\<rparr>))"
| record_again:
    "sys_workers s w = Recording c cur n \<Longrightarrow> scheduledSendRelayedAt cur = None \<Longrightarrow> n < 3 \<Longrightarrow>
     sched_step cfg env s (set_worker w (Recording c (sys_row s) (Suc n)) s)"
| record_gives_up:
    "sys_workers s w = Recording c cur n \<Longrightarrow> scheduledSendRelayedAt cur = None \<Longrightarrow> 3 \<le> n \<Longrightarrow>
     sched_step cfg env s (set_worker w (Filing c) s)"
| files:
    "sys_workers s w = Filing c \<Longrightarrow> stillClaimed (sys_row s) c \<Longrightarrow>
     sched_step cfg env s (set_worker w Idle (s\<lparr>sys_row := file_row sentFolder (sys_row s)\<rparr>))"
| not_claimed:
    "sys_workers s w = Filing c \<Longrightarrow> \<not> stillClaimed (sys_row s) c \<Longrightarrow> sched_step cfg env s (leave w s)"
| filing_fails: "sys_workers s w = Filing c \<Longrightarrow> sched_step cfg env s (set_worker w (Failing c True) s)"
| attempt_recorded:
    "sys_workers s w = Failing c relayed \<Longrightarrow> stillClaimed (sys_row s) c \<Longrightarrow>
     sched_step cfg env s (set_worker w Idle (s\<lparr>sys_row :=
       fail_row cfg (sys_now s) dueAt permanent message (if relayed then Some relayedAt else None) (sys_row s)\<rparr>))"
| attempt_not_recorded: "sys_workers s w = Failing c relayed \<Longrightarrow> sched_step cfg env s (leave w s)"
| crash: "sched_step cfg env s (leave w s)"

text \<open>The condition the configuration states: a lease outlasts the work done under it. While the message
  is open, every claim held is within its lease.\<close>

definition in_lease :: "system \<Rightarrow> bool" where
  "in_lease s \<longleftrightarrow>
     (open_row (sys_row s) \<longrightarrow>
       (\<forall>w c. claim_of (sys_workers s w) = Some c \<longrightarrow>
          (\<exists>t. scheduledSendLeaseExpiresAt c = Some t \<and> sys_now s < t)))"

definition initial :: "system \<Rightarrow> bool" where
  "initial s \<longleftrightarrow> (\<forall>w. sys_workers s w = Idle) \<and> sys_relays s = 0 \<and> \<not> sys_lost s \<and>
     scheduledSendLeaseExpiresAt (sys_row s) = None"

inductive reachable :: "send_config \<Rightarrow> send_env \<Rightarrow> system \<Rightarrow> bool" for cfg env where
  start: "initial s \<Longrightarrow> reachable cfg env s"
| step: "reachable cfg env s \<Longrightarrow> sched_step cfg env s s' \<Longrightarrow> in_lease s' \<Longrightarrow> reachable cfg env s'"

inductive_cases sched_stepE: "sched_step cfg env s s'"

section \<open>The invariant\<close>

fun row_read :: "worker \<Rightarrow> scheduled_row option" where
  "row_read (Picked r) = Some r"
| "row_read (Relaying c) = Some c"
| "row_read (Recording c cur n) = Some cur"
| "row_read _ = None"

text \<open>What a worker read is the row, or an older version of it.\<close>

definition older :: "scheduled_row \<Rightarrow> scheduled_row \<Rightarrow> bool" where
  "older row r \<longleftrightarrow> sr_version r \<le> sr_version row \<and> (sr_version r = sr_version row \<longrightarrow> r = row)"

definition reads_ok :: "system \<Rightarrow> bool" where
  "reads_ok s \<longleftrightarrow> (\<forall>w r. row_read (sys_workers s w) = Some r \<longrightarrow> older (sys_row s) r)"

lemma older_refl [simp]: "older r r"
  by (simp add: older_def)

lemma older_write: "older row r \<Longrightarrow> sr_version row' = Suc (sr_version row) \<Longrightarrow> older row' r"
  by (simp add: older_def)

definition picks_due :: "system \<Rightarrow> bool" where
  "picks_due s \<longleftrightarrow>
     (\<forall>w r. sys_workers s w = Picked r \<longrightarrow> (\<exists>t. scheduledSendTime r = Some t \<and> t \<le> sys_now s)) \<and>
     (scheduledSendTime (sys_row s) = None \<longrightarrow> scheduledSendLeaseExpiresAt (sys_row s) = None)"

text \<open>An open row carries the lease of the one worker that holds a claim, if any does.\<close>

definition one_claim :: "system \<Rightarrow> bool" where
  "one_claim s \<longleftrightarrow>
     (open_row (sys_row s) \<longrightarrow>
       (\<forall>w c. claim_of (sys_workers s w) = Some c \<longrightarrow>
          scheduledSendLeaseExpiresAt (sys_row s) = scheduledSendLeaseExpiresAt c \<and>
          scheduledSendTime (sys_row s) = scheduledSendLeaseExpiresAt c) \<and>
       (\<forall>w w' c c'. claim_of (sys_workers s w) = Some c \<longrightarrow> claim_of (sys_workers s w') = Some c' \<longrightarrow> w = w'))"

definition relays_ok :: "system \<Rightarrow> bool" where
  "relays_ok s \<longleftrightarrow>
     (\<forall>w c. sys_workers s w = Relaying c \<longrightarrow> open_row (sys_row s) \<and> (sys_relays s = 0 \<or> sys_lost s)) \<and>
     (sys_relays s \<le> 1 \<or> sys_lost s) \<and>
     (1 \<le> sys_relays s \<longrightarrow> \<not> sys_lost s \<longrightarrow> open_row (sys_row s) \<longrightarrow> (\<exists>w. past_relay (sys_workers s w)))"

lemma open_row_writes [simp]:
  "open_row (bump r) = open_row r"
  "open_row (claim_row cfg now r) = (scheduledSendRelayedAt r = None)"
  "\<not> open_row (mark_relayed t r)" "\<not> open_row (file_row f r)" "\<not> open_row (refuse_row reason r)"
  "\<not> open_row (r\<lparr>sr_folderUid := f, scheduledSendTime := None, scheduledSendLeaseExpiresAt := None\<rparr>)"
  "open_row (fail_row cfg now dueAt permanent message extra r) \<longleftrightarrow>
     extra = None \<and> scheduledSendRelayedAt r = None \<and> \<not> permanent \<and> attempts_of r + 1 < maxAttempts cfg"
  by (auto simp: open_row_def row_writes Let_def split: option.splits)

lemma bump_fields [simp]:
  "scheduledSendTime (bump r) = scheduledSendTime r"
  "scheduledSendLeaseExpiresAt (bump r) = scheduledSendLeaseExpiresAt r"
  by (simp_all add: bump_def)

lemma version_writes [simp]:
  "sr_version (bump r) = Suc (sr_version r)" "sr_version (claim_row cfg now r) = Suc (sr_version r)"
  "sr_version (mark_relayed t r) = Suc (sr_version r)" "sr_version (file_row f r) = Suc (sr_version r)"
  "sr_version (refuse_row reason r) = Suc (sr_version r)"
  "sr_version (fail_row cfg now dueAt permanent message extra r) = Suc (sr_version r)"
  by (simp_all add: row_writes Let_def)

lemma reads_okD: "reads_ok s \<Longrightarrow> row_read (sys_workers s w) = Some r \<Longrightarrow> older (sys_row s) r"
  by (simp add: reads_ok_def)

lemma reads_ok_keep:
  "reads_ok s \<Longrightarrow> sys_row s' = sys_row s \<Longrightarrow>
   (\<And>w. row_read (sys_workers s' w) \<in> {None, Some (sys_row s), row_read (sys_workers s w)}) \<Longrightarrow> reads_ok s'"
  unfolding reads_ok_def by (metis empty_iff insert_iff older_refl option.distinct(1) option.inject)

lemma reads_ok_write:
  "reads_ok s \<Longrightarrow> sr_version (sys_row s') = Suc (sr_version (sys_row s)) \<Longrightarrow>
   (\<And>w. row_read (sys_workers s' w) \<in> {None, Some (sys_row s'), row_read (sys_workers s w)}) \<Longrightarrow> reads_ok s'"
  unfolding reads_ok_def by (metis empty_iff insert_iff older_refl older_write option.distinct(1) option.inject)

lemma reads_ok_step:
  assumes "sched_step cfg env s s'" "reads_ok s"
  shows "reads_ok s'"
  using assms(1)
proof cases
  case tick
  then show ?thesis using assms(2) by (simp add: reads_ok_def)
next
  case user_touches
  then show ?thesis by (intro reads_ok_write [OF assms(2)]) auto
next
  case user_cancels
  then show ?thesis by (intro reads_ok_write [OF assms(2)]) auto
next
  case refuse
  then show ?thesis by (intro reads_ok_write [OF assms(2)]) auto
next
  case (claim w r own c)
  show ?thesis
    unfolding claim(1) by (rule reads_ok_write [OF assms(2)]) (simp_all add: claim(5))
next
  case refuse_claimed
  then show ?thesis by (intro reads_ok_write [OF assms(2)]) auto
next
  case record_relayed
  then show ?thesis by (intro reads_ok_write [OF assms(2)]) auto
next
  case files
  then show ?thesis by (intro reads_ok_write [OF assms(2)]) auto
next
  case attempt_recorded
  then show ?thesis by (intro reads_ok_write [OF assms(2)]) auto
qed (auto intro!: reads_ok_keep [OF assms(2)] simp: leave_def split: if_splits)

lemma picks_due_step:
  assumes "sched_step cfg env s s'" "picks_due s"
  shows "picks_due s'"
  using assms(1)
proof cases
  case tick
  then show ?thesis using assms(2) by (fastforce simp: picks_due_def)
next
  case (attempt_recorded w c relayed dueAt permanent message relayedAt)
  then show ?thesis using assms(2) by (auto simp: picks_due_def row_writes Let_def)
qed (use assms(2) in \<open>auto simp: picks_due_def row_writes leave_def\<close>)

text \<open>While the row is open and a worker holds a claim within its lease, the row is not due, so a
  worker that read it when it was due read an older version.\<close>

lemma claimed_not_due:
  assumes "one_claim s" "in_lease s" "open_row (sys_row s)" "claim_of (sys_workers s w) = Some c"
    and "scheduledSendTime (sys_row s) = Some t"
  shows "sys_now s < t"
  using assms by (fastforce simp: one_claim_def in_lease_def)

lemma due_unclaimed:
  assumes "reads_ok s" "picks_due s" "one_claim s" "in_lease s" "sys_workers s w = Picked r"
    and "sr_version (sys_row s) = sr_version r" "open_row (sys_row s)"
  shows "claim_of (sys_workers s w') = None"
proof (rule ccontr)
  assume "claim_of (sys_workers s w') \<noteq> None"
  then obtain c where c: "claim_of (sys_workers s w') = Some c"
    by blast
  have "r = sys_row s"
    using reads_okD [OF assms(1), of w r] assms(5,6) by (simp add: older_def)
  then obtain t where t: "scheduledSendTime (sys_row s) = Some t" "t \<le> sys_now s"
    using assms(2,5) by (auto simp: picks_due_def)
  with claimed_not_due [OF assms(3,4,7) c t(1)] show False
    by simp
qed

lemma claim_facts:
  assumes "reads_ok s" "picks_due s" "one_claim s" "in_lease s"
    and "sys_workers s w = Picked r" "sr_version (sys_row s) = sr_version r"
  shows "r = sys_row s" and "scheduledSendRelayedAt r = None \<Longrightarrow> open_row (sys_row s) \<and> (\<forall>w'. claim_of (sys_workers s w') = None)"
proof -
  show r: "r = sys_row s"
    using reads_okD [OF assms(1), of w r] assms(5,6) by (simp add: older_def)
  assume "scheduledSendRelayedAt r = None"
  then have "open_row (sys_row s)"
    using assms(2,5) r by (auto simp: open_row_def picks_due_def)
  then show "open_row (sys_row s) \<and> (\<forall>w'. claim_of (sys_workers s w') = None)"
    using due_unclaimed [OF assms] by blast
qed

lemma claim_row_lease [simp]:
  "scheduledSendLeaseExpiresAt (claim_row cfg now r) = scheduledSendTime (claim_row cfg now r)"
  by (simp add: row_writes)

lemma fail_row_open:
  assumes "picks_due s" "stillClaimed (sys_row s) c"
    and "open_row (fail_row cfg now dueAt permanent message extra (sys_row s))"
  shows "open_row (sys_row s)"
proof -
  have "scheduledSendRelayedAt (sys_row s) = None"
    using assms(3) by simp
  then show ?thesis
    using assms(1,2) by (auto simp: open_row_def picks_due_def stillClaimed_def)
qed

lemma one_claim_keep:
  assumes "one_claim s" "\<And>w. claim_of (sys_workers s' w) \<in> {None, claim_of (sys_workers s w)}"
    and "open_row (sys_row s') \<Longrightarrow> open_row (sys_row s) \<and>
      scheduledSendLeaseExpiresAt (sys_row s') = scheduledSendLeaseExpiresAt (sys_row s) \<and>
      scheduledSendTime (sys_row s') = scheduledSendTime (sys_row s)"
  shows "one_claim s'"
  using assms unfolding one_claim_def by (metis empty_iff insert_iff option.distinct(1))

lemma one_claim_step:
  assumes "sched_step cfg env s s'" "reads_ok s" "picks_due s" "one_claim s" "in_lease s"
  shows "one_claim s'"
  using assms(1)
proof cases
  case (claim w r own c)
  note facts = claim_facts [OF assms(2-5) claim(2,4)]
  show ?thesis
  proof (cases "scheduledSendRelayedAt r = None")
    case True
    then have "claim_of (sys_workers s w') = None" for w'
      using facts by blast
    then show ?thesis
      unfolding claim(1) one_claim_def by (simp add: claim(5))
  next
    case False
    then show ?thesis
      unfolding claim(1) one_claim_def using facts(1) by (auto simp: claim(5))
  qed
next
  case (attempt_recorded w c relayed dueAt permanent message relayedAt)
  have row': "sys_row s' = fail_row cfg (sys_now s) dueAt permanent message (if relayed then Some relayedAt else None) (sys_row s)"
    by (simp add: attempt_recorded(1))
  have "claim_of (sys_workers s w') = None" if "open_row (sys_row s')" "w' \<noteq> w" for w'
  proof (rule ccontr)
    assume "claim_of (sys_workers s w') \<noteq> None"
    moreover have "open_row (sys_row s)"
      by (rule fail_row_open [OF assms(3) attempt_recorded(3)]) (use that(1) in \<open>simp only: row'\<close>)
    ultimately show False
      using assms(4) that(2) attempt_recorded(2) by (auto simp: one_claim_def)
  qed
  then show ?thesis
    using attempt_recorded(1) by (auto simp: one_claim_def)
qed (auto intro!: one_claim_keep [OF assms(4)] simp: leave_def split: if_splits)

lemma relays_ok_keep:
  assumes "relays_ok s" "sys_relays s' = sys_relays s" "sys_lost s \<Longrightarrow> sys_lost s'"
    and "open_row (sys_row s') \<Longrightarrow> open_row (sys_row s)"
    and "\<And>w c. sys_workers s' w = Relaying c \<Longrightarrow> sys_workers s w = Relaying c \<and> open_row (sys_row s')"
    and "\<And>w. open_row (sys_row s') \<Longrightarrow> \<not> sys_lost s' \<Longrightarrow> past_relay (sys_workers s w) \<Longrightarrow> past_relay (sys_workers s' w)"
  shows "relays_ok s'"
  using assms unfolding relays_ok_def by metis

lemma other_not_relaying:
  assumes "one_claim s" "relays_ok s" "claim_of (sys_workers s w) = Some c" "w' \<noteq> w"
  shows "sys_workers s w' \<noteq> Relaying c'"
proof
  assume relaying: "sys_workers s w' = Relaying c'"
  then have "open_row (sys_row s)"
    using assms(2) by (auto simp: relays_ok_def)
  with assms relaying show False
    by (auto simp: one_claim_def)
qed

lemma relaying_lease:
  assumes "one_claim s" "relays_ok s" "in_lease s" "sys_workers s w = Relaying c"
  shows "\<exists>t. scheduledSendLeaseExpiresAt (sys_row s) = Some t \<and> sys_now s < t"
proof -
  have "open_row (sys_row s)"
    using assms(2,4) by (auto simp: relays_ok_def)
  moreover have "claim_of (sys_workers s w) = Some c"
    using assms(4) by simp
  ultimately show ?thesis
    using assms(1,3) unfolding one_claim_def in_lease_def by metis
qed

lemma relays_ok_step:
  assumes "sched_step cfg env s s'" "reads_ok s" "picks_due s" "one_claim s" "in_lease s" "relays_ok s"
  shows "relays_ok s'"
  using assms(1)
proof cases
  case (claim w r own c)
  note facts = claim_facts [OF assms(2-5) claim(2,4)]
  show ?thesis
  proof (cases "scheduledSendRelayedAt r = None")
    case True
    moreover have "\<not> past_relay p" if "claim_of p = None" for p
      using that by (cases p) auto
    ultimately have "sys_relays s = 0 \<or> sys_lost s"
      using facts(2) assms(6) by (auto simp: relays_ok_def)
    moreover have "sys_workers s w' \<noteq> Relaying c'" for w' c'
      using facts(2) [OF True] by (metis claim_of.simps(1) option.distinct(1))
    ultimately show ?thesis
      unfolding claim(1) relays_ok_def using True facts(1) by (auto simp: claim(5))
  next
    case False
    then have "sys_workers s w' \<noteq> Relaying c'" for w' c'
      using facts(1) assms(6) by (auto simp: relays_ok_def open_row_def)
    then show ?thesis
      unfolding claim(1) relays_ok_def using False facts(1) assms(6) by (auto simp: claim(5) relays_ok_def)
  qed
next
  case (user_cancels f)
  then have "sys_workers s w \<noteq> Relaying c" for w c
    using relaying_lease [OF assms(4,6,5), of w c] by auto
  then show ?thesis
    using user_cancels(1) by (intro relays_ok_keep [OF assms(6)]) auto
next
  case (refuse w r reason)
  have "sys_workers s w' \<noteq> Relaying c'" for w' c'
  proof
    assume relaying: "sys_workers s w' = Relaying c'"
    then have "open_row (sys_row s)"
      using assms(6) by (auto simp: relays_ok_def)
    with due_unclaimed [OF assms(2-5) refuse(2,4), of w'] relaying show False
      by simp
  qed
  then show ?thesis
    using refuse(1) by (intro relays_ok_keep [OF assms(6)]) (auto split: if_splits)
next
  case (refuse_claimed w c reason)
  then show ?thesis
    using other_not_relaying [OF assms(4,6), of w] by (intro relays_ok_keep [OF assms(6)]) (auto split: if_splits)
next
  case (relay_accepted w c)
  then have "sys_relays s = 0 \<or> sys_lost s"
    using assms(6) by (auto simp: relays_ok_def)
  moreover have "sys_workers s w' \<noteq> Relaying c'" if "w' \<noteq> w" for w' c'
    using other_not_relaying [OF assms(4,6) _ that] relay_accepted(2) by simp
  ultimately show ?thesis
    unfolding relays_ok_def relay_accepted(1) by (auto intro!: exI [of _ w])
next
  case (record_relayed w c cur n relayedAt)
  then show ?thesis
    using other_not_relaying [OF assms(4,6), of w] by (intro relays_ok_keep [OF assms(6)]) (auto split: if_splits)
next
  case (files w c sentFolder)
  then show ?thesis
    using other_not_relaying [OF assms(4,6), of w] by (intro relays_ok_keep [OF assms(6)]) (auto split: if_splits)
next
  case (attempt_recorded w c relayed dueAt permanent message relayedAt)
  have row': "sys_row s' = fail_row cfg (sys_now s) dueAt permanent message (if relayed then Some relayedAt else None) (sys_row s)"
    by (simp add: attempt_recorded(1))
  have "open_row (sys_row s)" if "open_row (sys_row s')"
    by (rule fail_row_open [OF assms(3) attempt_recorded(3)]) (use that in \<open>simp only: row'\<close>)
  then show ?thesis
    using attempt_recorded other_not_relaying [OF assms(4,6), of w]
    by (intro relays_ok_keep [OF assms(6)]) (auto split: if_splits)
next
  case tick
  then show ?thesis using assms(6) by (simp add: relays_ok_def)
next
  case user_touches
  then show ?thesis using assms(6) by (simp add: relays_ok_def)
next
  case (not_claimed w c)
  then show ?thesis
    using assms(6) by (intro relays_ok_keep [OF assms(6)]) (auto simp: leave_def relays_ok_def split: if_splits)
next
  case (attempt_not_recorded w c relayed)
  then show ?thesis
    using assms(6) by (intro relays_ok_keep [OF assms(6)]) (auto simp: leave_def relays_ok_def split: if_splits)
next
  case (relay_fails w c)
  then show ?thesis
    using assms(6) by (intro relays_ok_keep [OF assms(6)]) (auto simp: relays_ok_def split: if_splits)
next
  case (pick w t)
  then show ?thesis
    using assms(6) by (intro relays_ok_keep [OF assms(6)]) (auto simp: relays_ok_def split: if_splits)
next
  case (conflict w r)
  then show ?thesis
    using assms(6) by (intro relays_ok_keep [OF assms(6)]) (auto simp: relays_ok_def split: if_splits)
next
  case (already_marked w c cur n)
  then show ?thesis
    using assms(6) by (intro relays_ok_keep [OF assms(6)]) (auto simp: relays_ok_def split: if_splits)
next
  case (record_again w c cur n)
  then show ?thesis
    using assms(6) by (intro relays_ok_keep [OF assms(6)]) (auto simp: relays_ok_def split: if_splits)
next
  case (record_gives_up w c cur n)
  then show ?thesis
    using assms(6) by (intro relays_ok_keep [OF assms(6)]) (auto simp: relays_ok_def split: if_splits)
next
  case (filing_fails w c)
  then show ?thesis
    using assms(6) by (intro relays_ok_keep [OF assms(6)]) (auto simp: relays_ok_def split: if_splits)
next
  case (crash w)
  then show ?thesis
    using assms(6) by (intro relays_ok_keep [OF assms(6)]) (auto simp: leave_def relays_ok_def split: if_splits)
qed

lemma reachable_invariant:
  "reachable cfg env s \<Longrightarrow> reads_ok s \<and> picks_due s \<and> one_claim s \<and> relays_ok s \<and> in_lease s"
proof (induction rule: reachable.induct)
  case (start s)
  then show ?case
    by (simp add: initial_def reads_ok_def picks_due_def one_claim_def relays_ok_def in_lease_def)
next
  case (step s s')
  then show ?case
    using reads_ok_step picks_due_step one_claim_step relays_ok_step by blast
qed

section \<open>Properties\<close>


text \<open>Two workers never relay at once, and none relays a message that is marked as relayed, cancelled
  or filed.\<close>

theorem relaying_exclusive:
  assumes "reachable cfg env s" "sys_workers s w = Relaying c" "claim_of (sys_workers s w') = Some c'"
  shows "w' = w \<and> scheduledSendTime (sys_row s) \<noteq> None \<and> scheduledSendRelayedAt (sys_row s) = None"
proof -
  note inv = reachable_invariant [OF assms(1)]
  then have "open_row (sys_row s)"
    using assms(2) by (auto simp: relays_ok_def)
  moreover from this have "w' = w"
    using inv assms(2,3) by (auto simp: one_claim_def)
  ultimately show ?thesis
    by (simp add: open_row_def)
qed

definition example_cfg :: send_config where
  "example_cfg = \<lparr>maxAttempts = 5, retryBackoffMs = 60000, leaseMs = 900000\<rparr>"

definition example_env :: send_env where
  "example_env =
     \<lparr>folder_of = (\<lambda>u. if u = ''outbox'' then Some \<lparr>sf_isOutbox = True, sf_mailboxUid = ''box''\<rparr> else None),
      mailbox_of = (\<lambda>u. if u = ''box'' then Some \<lparr>primarySmtpAddress = ''ann@example.com'', aliasAddresses = None\<rparr> else None)\<rparr>"

definition example_row :: scheduled_row where
  "example_row =
     \<lparr>sr_version = 0, sr_folderUid = ''outbox'', sr_mailboxUid = ''box'', sr_from = Some ''ann@example.com '',
      sr_recipients = [Some ''bob@example.com''], scheduledSendTime = Some 0, scheduledSendLeaseExpiresAt = None,
      scheduledSendAttempts = None, scheduledSendError = None, scheduledSendRelayedAt = None\<rparr>"

definition example_system :: system where
  "example_system = \<lparr>sys_now = 1, sys_row = example_row, sys_workers = (\<lambda>_. Idle), sys_relays = 0, sys_lost = False\<rparr>"

definition claimed_example :: system where
  "claimed_example =
     (let c = claim_row example_cfg 1 example_row
      in example_system\<lparr>sys_row := c, sys_workers := (\<lambda>_. Idle)(0 := Relaying c)\<rparr>)"

lemma example_valid: "validateForRelay example_env example_row False = Inr [''ann@example.com'']"
  by (simp add: validateForRelay_def example_env_def example_row_def normalizeAddress_def js_trim_def js_is_ws_def js_lower_def
      js_lower_char_def)

lemma claimed_reachable: "reachable example_cfg example_env claimed_example"
proof -
  let ?picked = "set_worker 0 (Picked example_row) example_system"
  have "reachable example_cfg example_env example_system"
    by (rule reachable.start) (simp add: initial_def example_system_def example_row_def)
  moreover have "sched_step example_cfg example_env example_system ?picked"
    using sched_step.pick [of example_system 0 0 example_cfg example_env] by (simp add: example_system_def example_row_def)
  moreover have "in_lease ?picked"
    by (simp add: in_lease_def example_system_def)
  ultimately have picked: "reachable example_cfg example_env ?picked"
    by (rule reachable.step)
  let ?c = "claim_row example_cfg (sys_now ?picked) (sys_row ?picked)"
  have unmarked: "scheduledSendRelayedAt example_row = None"
    by (simp add: example_row_def)
  have "sched_step example_cfg example_env ?picked
      (set_worker 0 (if scheduledSendRelayedAt example_row \<noteq> None then Filing ?c else Relaying ?c) (?picked\<lparr>sys_row := ?c\<rparr>))"
    by (rule sched_step.claim [where own = "[''ann@example.com'']"])
      (simp_all add: example_valid unmarked example_system_def)
  moreover have "set_worker 0 (if scheduledSendRelayedAt example_row \<noteq> None then Filing ?c else Relaying ?c) (?picked\<lparr>sys_row := ?c\<rparr>) =
      claimed_example"
    by (simp add: unmarked claimed_example_def example_system_def Let_def)
  ultimately have "sched_step example_cfg example_env ?picked claimed_example"
    by simp
  moreover have "in_lease claimed_example"
    by (simp add: in_lease_def claimed_example_def example_system_def claim_row_def bump_def example_cfg_def Let_def)
  ultimately show ?thesis
    using picked by (blast intro: reachable.step)
qed

definition relayed_example :: system where
  "relayed_example =
     (let c = claim_row example_cfg 1 example_row
      in set_worker 0 (Recording c c 1) (claimed_example\<lparr>sys_relays := Suc (sys_relays claimed_example)\<rparr>))"

lemma relayed_reachable: "reachable example_cfg example_env relayed_example"
proof (rule reachable.step [OF claimed_reachable])
  show "sched_step example_cfg example_env claimed_example relayed_example"
    unfolding relayed_example_def Let_def
    by (rule sched_step.relay_accepted) (simp add: claimed_example_def Let_def)
  show "in_lease relayed_example"
    by (simp add: in_lease_def relayed_example_def claimed_example_def example_system_def claim_row_def bump_def example_cfg_def Let_def)
qed


theorem relaying_exclusive_witness:
  "scheduledSendRelayedAt (sys_row claimed_example) = None"
  using relaying_exclusive [OF claimed_reachable, of 0 "claim_row example_cfg 1 example_row" 0 "claim_row example_cfg 1 example_row"]
  by (simp add: claimed_example_def Let_def)

section \<open>Retries end\<close>

text \<open>A failure: when it happened, when the send was due, whether it is permanent, its message, and the
  marker stamped with it.\<close>

type_synonym failure = "int \<times> int \<times> bool \<times> string \<times> int option"

definition fail_once :: "send_config \<Rightarrow> scheduled_row \<Rightarrow> failure \<Rightarrow> scheduled_row" where
  "fail_once cfg r f = (case f of (now, dueAt, permanent, message, extra) \<Rightarrow> fail_row cfg now dueAt permanent message extra r)"

lemma fail_row_exhausted:
  "permanent \<or> maxAttempts cfg \<le> attempts_of r + 1 \<Longrightarrow>
   scheduledSendTime (fail_row cfg now dueAt permanent message extra r) = None"
  by (auto simp: row_writes Let_def)

lemma fail_row_retry:
  assumes "\<not> permanent" "attempts_of r + 1 < maxAttempts cfg"
  shows "attempts_of (fail_row cfg now dueAt permanent message extra r) = attempts_of r + 1 \<and>
    scheduledSendTime (fail_row cfg now dueAt permanent message extra r) =
      Some (max now dueAt + int (attempts_of r + 1) * int (retryBackoffMs cfg))"
proof -
  have "\<not> maxAttempts cfg \<le> attempts_of r + 1" "\<not> permanent"
    using assms by simp_all
  then show ?thesis
    unfolding fail_row_def bump_def attempts_of_def Let_def by (cases "scheduledSendAttempts r") simp_all
qed

lemma attempts_leave_queue:
  "fs \<noteq> [] \<Longrightarrow> maxAttempts cfg \<le> attempts_of r + length fs \<Longrightarrow>
   \<exists>k. 0 < k \<and> k \<le> length fs \<and> scheduledSendTime (foldl (fail_once cfg) r (take k fs)) = None"
proof (induction fs arbitrary: r)
  case (Cons f fs)
  obtain now dueAt permanent message extra where f: "f = (now, dueAt, permanent, message, extra)"
    by (metis prod_cases5)
  show ?case
  proof (cases "permanent \<or> maxAttempts cfg \<le> attempts_of r + 1")
    case True
    then have "scheduledSendTime (foldl (fail_once cfg) r (take 1 (f # fs))) = None"
      by (simp add: f fail_once_def fail_row_exhausted)
    then show ?thesis
      by (intro exI [of _ 1]) simp
  next
    case False
    then have "attempts_of (fail_once cfg r f) = attempts_of r + 1"
      using fail_row_retry [of permanent r cfg now dueAt message extra] by (simp add: f fail_once_def)
    moreover have "fs \<noteq> []"
      using False Cons.prems(2) by auto
    ultimately obtain k where "0 < k" "k \<le> length fs"
      "scheduledSendTime (foldl (fail_once cfg) (fail_once cfg r f) (take k fs)) = None"
      using Cons.IH [of "fail_once cfg r f"] Cons.prems(2) by auto
    then show ?thesis
      by (intro exI [of _ "Suc k"]) simp
  qed
qed simp



section \<open>Slots\<close>

text \<open>\<^verbatim>\<open>withSlot()\<close> and \<^verbatim>\<open>track()\<close>: the work running, by message, and the work waiting for a slot. A slot
  is handed to the first waiting, so \<^verbatim>\<open>active\<close> is counted down only when none waits.\<close>

record slots =
  slot_active :: nat
  slot_running :: "string list"
  slotWaiters :: "string list"

definition maxParallel :: "int \<Rightarrow> nat" where
  "maxParallel concurrency = nat (max 1 concurrency)"

definition pending :: "slots \<Rightarrow> string set" where
  "pending sl = set (slot_running sl) \<union> set (slotWaiters sl)"

definition track :: "int \<Rightarrow> string \<Rightarrow> slots \<Rightarrow> slots" where
  "track concurrency uid sl =
     (if uid \<in> pending sl then sl
      else if slot_active sl \<ge> maxParallel concurrency then sl\<lparr>slotWaiters := slotWaiters sl @ [uid]\<rparr>
      else sl\<lparr>slot_active := Suc (slot_active sl), slot_running := uid # slot_running sl\<rparr>)"

definition finish :: "string \<Rightarrow> slots \<Rightarrow> slots" where
  "finish uid sl =
     (if uid \<notin> set (slot_running sl) then sl
      else case slotWaiters sl of
        next # rest \<Rightarrow> sl\<lparr>slot_running := next # remove1 uid (slot_running sl), slotWaiters := rest\<rparr>
      | [] \<Rightarrow> sl\<lparr>slot_active := slot_active sl - 1, slot_running := remove1 uid (slot_running sl)\<rparr>)"

definition slots_ok :: "int \<Rightarrow> slots \<Rightarrow> bool" where
  "slots_ok concurrency sl \<longleftrightarrow>
     slot_active sl = length (slot_running sl) \<and> slot_active sl \<le> maxParallel concurrency \<and>
     distinct (slot_running sl @ slotWaiters sl) \<and>
     (slotWaiters sl \<noteq> [] \<longrightarrow> slot_active sl = maxParallel concurrency)"

lemma slots_ok_track: "slots_ok concurrency sl \<Longrightarrow> slots_ok concurrency (track concurrency uid sl)"
  by (auto simp: slots_ok_def track_def pending_def)

lemma slots_ok_finish:
  assumes "slots_ok concurrency sl"
  shows "slots_ok concurrency (finish uid sl)"
proof (cases "uid \<in> set (slot_running sl)")
  case True
  then have "length (remove1 uid (slot_running sl)) = length (slot_running sl) - 1" "0 < length (slot_running sl)"
    by (auto simp: length_remove1)
  moreover have "set (remove1 uid (slot_running sl)) \<subseteq> set (slot_running sl)"
    by (rule set_remove1_subset)
  ultimately show ?thesis
    using assms True by (cases "slotWaiters sl") (auto simp: slots_ok_def finish_def)
qed (use assms in \<open>simp add: finish_def\<close>)

text \<open>The slots. In any sequence of messages queued and finished, never more relays run than the
  configured number, no message is worked on twice at a time, and no slot is left free while a
  message waits.\<close>

theorem slots_invariant:
  "slots_ok concurrency
     (fold (\<lambda>(queued, uid). if queued then track concurrency uid else finish uid) ops
       \<lparr>slot_active = 0, slot_running = [], slotWaiters = []\<rparr>)"
proof -
  have "slots_ok concurrency sl \<Longrightarrow> slots_ok concurrency (fold (\<lambda>(queued, uid). if queued then track concurrency uid else finish uid) ops sl)" for sl
    by (induction ops arbitrary: sl) (auto simp: slots_ok_track slots_ok_finish)
  moreover have "slots_ok concurrency \<lparr>slot_active = 0, slot_running = [], slotWaiters = []\<rparr>"
    by (simp add: slots_ok_def)
  ultimately show ?thesis
    by blast
qed

end
