(* ===== verification/Json_Text.thy ===== *)
theory Json_Text
  imports Prelude
begin

text \<open>
  The texts the digests are taken over: \<^verbatim>\<open>JSON.stringify()\<close> of a plain value and
  \<^verbatim>\<open>Date.prototype.toISOString()\<close>. Numbers are integers below \<open>10^21\<close>, which \<^verbatim>\<open>JSON.stringify\<close> prints
  in decimal; an object is given in its property order.
\<close>

section \<open>Decimal numbers\<close>

definition digit_char :: "nat \<Rightarrow> char" where
  "digit_char d = char_of (48 + d)"

fun nat_text :: "nat \<Rightarrow> string" where
  "nat_text n = (if n < 10 then [digit_char n] else nat_text (n div 10) @ [digit_char (n mod 10)])"

declare nat_text.simps [simp del]

definition int_text :: "int \<Rightarrow> string" where
  "int_text i = (if i < 0 then CHR ''-'' # nat_text (nat (- i)) else nat_text (nat i))"

text \<open>Decimal and hexadecimal digits.\<close>

definition is_digit :: "char \<Rightarrow> bool" where
  "is_digit c \<longleftrightarrow> 48 \<le> (of_char c :: nat) \<and> (of_char c :: nat) \<le> 57"

definition hex_value :: "char \<Rightarrow> nat option" where
  "hex_value c =
     (let n = (of_char c :: nat)
      in if 48 \<le> n \<and> n \<le> 57 then Some (n - 48)
         else if 97 \<le> n \<and> n \<le> 102 then Some (n - 87)
         else if 65 \<le> n \<and> n \<le> 70 then Some (n - 55)
         else None)"

text \<open>The number read back, most significant digit first.\<close>

definition read_digits :: "string \<Rightarrow> nat" where
  "read_digits s = foldl (\<lambda>n c. 10 * n + (of_char c - 48)) 0 s"

lemma of_digit_char: "d < 10 \<Longrightarrow> of_char (digit_char d) = 48 + d"
  by (simp add: digit_char_def)

lemma read_nat_text [simp]: "read_digits (nat_text n) = n"
proof (induction n rule: nat_text.induct)
  case (1 n)
  show ?case
  proof (cases "n < 10")
    case True
    then show ?thesis
      by (simp add: nat_text.simps [of n] read_digits_def of_digit_char)
  next
    case False
    then have "foldl (\<lambda>n c. 10 * n + (of_char c - 48)) 0 (nat_text (n div 10)) = n div 10"
      using 1 by (simp add: read_digits_def)
    then show ?thesis
      using False by (simp add: nat_text.simps [of n] read_digits_def of_digit_char)
  qed
qed

lemma nat_text_inject [simp]: "nat_text m = nat_text n \<longleftrightarrow> m = n"
  by (metis read_nat_text)

lemma nat_text_digits: "c \<in> set (nat_text n) \<Longrightarrow> 48 \<le> (of_char c :: nat) \<and> (of_char c :: nat) \<le> 57"
proof (induction n rule: nat_text.induct)
  case (1 n)
  have "n mod 10 < 10"
    by simp
  then show ?case
    using 1 by (cases "n < 10") (auto simp: nat_text.simps [of n] of_digit_char)
qed

lemma nat_text_ne [simp]: "nat_text n \<noteq> []"
  by (simp add: nat_text.simps [of n])

text \<open>\<^verbatim>\<open>padStart(w, "0")\<close>.\<close>

definition pad_zero :: "nat \<Rightarrow> string \<Rightarrow> string" where
  "pad_zero w s = replicate (w - length s) (CHR ''0'') @ s"

lemma length_pad_zero: "length (pad_zero w s) = max w (length s)"
  by (simp add: pad_zero_def)

section \<open>Dates\<close>

text \<open>The civil date of a day number (days since 1970-01-01) in the proleptic Gregorian calendar,
  by eras of 400 years counted from March 1st of the year 0.\<close>

definition civil_date :: "int \<Rightarrow> int \<times> int \<times> int" where
  "civil_date days =
     (let z = days + 719468;
          era = z div 146097;
          doe = z mod 146097;
          yoe = (doe - doe div 1460 + doe div 36524 - doe div 146096) div 365;
          doy = doe - (365 * yoe + yoe div 4 - yoe div 100);
          mp = (5 * doy + 2) div 153;
          d = doy - (153 * mp + 2) div 5 + 1;
          m = (if mp < 10 then mp + 3 else mp - 9);
          y = yoe + era * 400 + (if m \<le> 2 then 1 else 0)
      in (y, m, d))"

definition two :: "int \<Rightarrow> string" where
  "two i = pad_zero 2 (int_text i)"

definition year_text :: "int \<Rightarrow> string" where
  "year_text y =
     (if 0 \<le> y \<and> y \<le> 9999 then pad_zero 4 (int_text y)
      else if y < 0 then CHR ''-'' # pad_zero 6 (nat_text (nat (- y)))
      else CHR ''+'' # pad_zero 6 (nat_text (nat y)))"

text \<open>\<^verbatim>\<open>toISOString()\<close> throws a \<^verbatim>\<open>RangeError\<close> on an invalid date.\<close>

definition to_iso_string :: "js_time \<Rightarrow> string result" where
  "to_iso_string t =
     (case t of
        None \<Rightarrow> Inl (OtherError ''Invalid time value'')
      | Some ms \<Rightarrow>
          (case civil_date (ms div 86400000) of (y, m, d) \<Rightarrow>
             let r = ms mod 86400000 in
             Inr (year_text y @ ''-'' @ two m @ ''-'' @ two d @ ''T'' @
                  two (r div 3600000) @ '':'' @ two (r div 60000 mod 60) @ '':'' @ two (r div 1000 mod 60) @
                  ''.'' @ pad_zero 3 (int_text (r mod 1000)) @ ''Z'')))"

section \<open>JSON\<close>

definition hex_digit :: "nat \<Rightarrow> char" where
  "hex_digit d = (if d < 10 then char_of (48 + d) else char_of (87 + d))"

text \<open>\<^verbatim>\<open>QuoteJSONString\<close>: the two-character escapes, \<^verbatim>\<open>\u00XX\<close> for the other control characters.\<close>

definition json_char :: "char \<Rightarrow> string" where
  "json_char c =
     (let n = (of_char c :: nat) in
      if n = 34 then [CHR 0x5C, CHR 0x22]
      else if n = 92 then [CHR 0x5C, CHR 0x5C]
      else if n = 8 then [CHR 0x5C, CHR ''b'']
      else if n = 12 then [CHR 0x5C, CHR ''f'']
      else if n = 10 then [CHR 0x5C, CHR ''n'']
      else if n = 13 then [CHR 0x5C, CHR ''r'']
      else if n = 9 then [CHR 0x5C, CHR ''t'']
      else if n < 32 then [CHR 0x5C, CHR ''u'', CHR ''0'', CHR ''0'', hex_digit (n div 16), hex_digit (n mod 16)]
      else [c])"

definition json_quote :: "string \<Rightarrow> string" where
  "json_quote s = [CHR 0x22] @ concat (map json_char s) @ [CHR 0x22]"

text \<open>\<^const>\<open>None\<close> is \<^verbatim>\<open>undefined\<close>: such a property is left out of its object and printed as \<^verbatim>\<open>null\<close> in an
  array.\<close>

fun json_text :: "js_value \<Rightarrow> string option" where
  "json_text JUndefined = None"
| "json_text JNull = Some ''null''"
| "json_text (JBool b) = Some (if b then ''true'' else ''false'')"
| "json_text (JNum i) = Some (int_text i)"
| "json_text (JStr s) = Some (json_quote s)"
| "json_text (JArr vs) =
     Some (''['' @ js_join '','' (map (\<lambda>v. case json_text v of None \<Rightarrow> ''null'' | Some t \<Rightarrow> t) vs) @ '']'')"
| "json_text (JObj fs) =
     Some (''{'' @ js_join '',''
       (concat (map (\<lambda>(k, v). case json_text v of None \<Rightarrow> [] | Some t \<Rightarrow> [json_quote k @ '':'' @ t]) fs)) @ ''}'')"

definition json_stringify :: "js_value \<Rightarrow> string" where
  "json_stringify v = (case json_text v of None \<Rightarrow> ''undefined'' | Some t \<Rightarrow> t)"

end
