(* ===== verification/Escrow_Audit.thy ===== *)
theory Escrow_Audit
  imports Json_Text
begin

text \<open>
  The hash-chained escrow audit log (\<^verbatim>\<open>src/src/util/EscrowAuditUtils.ts\<close>): the digest of an entry, the
  append loop with its sequence-number race, the head record, and the verification walk with every
  failure it reports. The two digests of Node's \<^verbatim>\<open>crypto\<close> are parameters (\<open>escrow_crypto\<close>), functions from the
  key and the text to the hex digest. Appenders run concurrently as a transition system whose steps are
  the repository calls; the unique index on \<^verbatim>\<open>sequence\<close> and the version check of the head are the
  guards of the writes.
\<close>

section \<open>Rows\<close>

record escrow_crypto =
  sha256_hex :: "string \<Rightarrow> string"
  hmac_sha256_hex :: "string \<Rightarrow> string \<Rightarrow> string"

record chain_context =
  cc_crypto :: escrow_crypto
  cc_hmacKey :: string
  cc_hasHeadRepo :: bool

record audit_params =
  ap_action :: string
  ap_holderUserUid :: string
  ap_matterId :: string
  ap_mailboxUid :: string
  ap_requestId :: string
  ap_details :: js_value

record escrow_entry =
  ae_sequence :: int
  ae_previousHash :: "string option"
  ae_hash :: string
  ae_hashAlgorithm :: "string option"
  ae_params :: audit_params
  ae_occurredAt :: js_time

record audit_head =
  ah_version :: nat
  ah_chainId :: string
  ah_sequence :: int
  ah_hash :: string
  ah_hashAlgorithm :: "string option"
  ah_mac :: "string option"

definition SHA256 :: string where
  "SHA256 = ''sha256''"

definition HMAC_SHA256 :: string where
  "HMAC_SHA256 = ''hmac-sha256''"

definition ESCROW_AUDIT_HEAD_CHAIN_ID :: string where
  "ESCROW_AUDIT_HEAD_CHAIN_ID = ''global''"

definition MAX_APPEND_ATTEMPTS :: nat where
  "MAX_APPEND_ATTEMPTS = 5"

definition MAX_HEAD_ATTEMPTS :: nat where
  "MAX_HEAD_ATTEMPTS = 5"

definition VERIFY_PAGE_SIZE :: nat where
  "VERIFY_PAGE_SIZE = 500"

section \<open>Digests\<close>

text \<open>The object literal an entry's digest covers, in its fixed order.\<close>

definition audit_payload :: "int \<Rightarrow> string option \<Rightarrow> audit_params \<Rightarrow> string \<Rightarrow> js_value" where
  "audit_payload sequence previousHash p occurredAt =
     JObj [(''sequence'', JNum sequence),
           (''previousHash'', JStr (case previousHash of None \<Rightarrow> [] | Some h \<Rightarrow> h)),
           (''action'', JStr (ap_action p)),
           (''holderUserUid'', JStr (ap_holderUserUid p)),
           (''matterId'', JStr (ap_matterId p)),
           (''mailboxUid'', JStr (ap_mailboxUid p)),
           (''requestId'', JStr (ap_requestId p)),
           (''occurredAt'', JStr occurredAt),
           (''details'', if ap_details p \<in> {JUndefined, JNull} then JObj [] else ap_details p)]"

definition payload_digest :: "escrow_crypto \<Rightarrow> string \<Rightarrow> bool \<Rightarrow> js_value \<Rightarrow> string" where
  "payload_digest cr hmacKey keyed payload =
     (if keyed then hmac_sha256_hex cr hmacKey (json_stringify payload) else sha256_hex cr (json_stringify payload))"

definition computeEscrowAuditHash ::
  "escrow_crypto \<Rightarrow> int \<Rightarrow> string option \<Rightarrow> audit_params \<Rightarrow> js_time \<Rightarrow> string option \<Rightarrow> string \<Rightarrow> string result" where
  "computeEscrowAuditHash cr sequence previousHash p occurredAt algorithm hmacKey =
     rbind (to_iso_string occurredAt) (\<lambda>stamp.
       Inr (payload_digest cr hmacKey (algorithm = Some HMAC_SHA256) (audit_payload sequence previousHash p stamp)))"

definition computeHeadMac :: "escrow_crypto \<Rightarrow> string \<Rightarrow> int \<Rightarrow> string \<Rightarrow> string \<Rightarrow> string" where
  "computeHeadMac cr chainId sequence hash hmacKey =
     hmac_sha256_hex cr hmacKey
       (json_stringify (JObj [(''chainId'', JStr chainId), (''sequence'', JNum sequence), (''hash'', JStr hash)]))"

text \<open>\<^verbatim>\<open>crypto.timingSafeEqual\<close> throws when the two buffers (the strings in UTF-8) differ in length, which strings
  of the same length can.\<close>

definition utf8_length :: "string \<Rightarrow> nat" where
  "utf8_length s = sum_list (map (\<lambda>c. if (of_char c :: nat) < 128 then 1 else 2) s)"

definition safeEqual :: "string option \<Rightarrow> string \<Rightarrow> bool result" where
  "safeEqual a b =
     (case a of
        None \<Rightarrow> Inr False
      | Some s \<Rightarrow>
          if length s \<noteq> length b then Inr False
          else if utf8_length s \<noteq> utf8_length b then Inl (OtherError ''Input buffers must have the same byte length'')
          else Inr (s = b))"

lemma safeEqual_refl [simp]: "safeEqual (Some s) s = Inr True"
  by (simp add: safeEqual_def)

lemma safeEqual_TrueD: "safeEqual a b = Inr True \<Longrightarrow> a = Some b"
  by (auto simp: safeEqual_def split: option.splits if_splits)

section \<open>Appending\<close>

text \<open>\<^verbatim>\<open>find({ sort: "-sequence", limit: 1 })\<close>.\<close>

fun latestEntry :: "escrow_entry list \<Rightarrow> escrow_entry option" where
  "latestEntry [] = None"
| "latestEntry (e # es) =
     (case latestEntry es of
        None \<Rightarrow> Some e
      | Some l \<Rightarrow> Some (if ae_sequence e \<le> ae_sequence l then l else e))"

definition hash_algorithm :: "chain_context \<Rightarrow> string" where
  "hash_algorithm cx = (if cc_hmacKey cx \<noteq> [] then HMAC_SHA256 else SHA256)"

text \<open>The entry one attempt of \<^verbatim>\<open>appendEntry()\<close> builds from the latest entry it read.\<close>

definition draft_entry :: "chain_context \<Rightarrow> audit_params \<Rightarrow> escrow_entry option \<Rightarrow> js_time \<Rightarrow> escrow_entry result" where
  "draft_entry cx p latest occurredAt =
     (let sequence = (case latest of None \<Rightarrow> 0 | Some l \<Rightarrow> ae_sequence l + 1);
          previousHash = map_option ae_hash latest;
          algorithm = hash_algorithm cx
      in rbind (computeEscrowAuditHash (cc_crypto cx) sequence previousHash p occurredAt (Some algorithm) (cc_hmacKey cx))
           (\<lambda>hash. Inr \<lparr>ae_sequence = sequence, ae_previousHash = previousHash, ae_hash = hash,
                        ae_hashAlgorithm = Some algorithm, ae_params = p, ae_occurredAt = occurredAt\<rparr>))"

text \<open>The insert, under the unique index on \<^verbatim>\<open>sequence\<close>.\<close>

definition create_entry :: "escrow_entry list \<Rightarrow> escrow_entry \<Rightarrow> escrow_entry list result" where
  "create_entry rows e =
     (if \<exists>r\<in>set rows. ae_sequence r = ae_sequence e then Inl (ApiError 409 ''duplicate'') else Inr (rows @ [e]))"

definition head_fields :: "chain_context \<Rightarrow> escrow_entry \<Rightarrow> nat \<Rightarrow> audit_head" where
  "head_fields cx e version =
     \<lparr>ah_version = version, ah_chainId = ESCROW_AUDIT_HEAD_CHAIN_ID, ah_sequence = ae_sequence e, ah_hash = ae_hash e,
      ah_hashAlgorithm = (if cc_hmacKey cx \<noteq> [] then Some HMAC_SHA256 else None),
      ah_mac = (if cc_hmacKey cx \<noteq> []
                then Some (computeHeadMac (cc_crypto cx) ESCROW_AUDIT_HEAD_CHAIN_ID (ae_sequence e) (ae_hash e) (cc_hmacKey cx))
                else None)\<rparr>"

text \<open>The write of \<^verbatim>\<open>advanceHead()\<close>: a create fails when a head exists (unique \<^verbatim>\<open>chainId\<close>), an update when the head is
  no longer at the version read.\<close>

definition write_head :: "chain_context \<Rightarrow> audit_head option \<Rightarrow> audit_head option \<Rightarrow> escrow_entry \<Rightarrow> audit_head result" where
  "write_head cx current seen e =
     (case (seen, current) of
        (None, None) \<Rightarrow> Inr (head_fields cx e 0)
      | (Some h, Some c) \<Rightarrow>
          if ah_version c = ah_version h then Inr (head_fields cx e (Suc (ah_version h)))
          else Inl (ApiError 409 ''conflict'')
      | _ \<Rightarrow> Inl (ApiError 409 ''conflict''))"

section \<open>Verification\<close>

datatype verification_failure =
    link_mismatch
  | hash_mismatch
  | unknown_algorithm
  | algorithm_downgrade
  | hmac_key_unavailable
  | truncated
  | head_mismatch
  | head_mac_mismatch
  | head_missing

datatype verification_result = Valid | Broken "int option" verification_failure

record walk =
  expectedPreviousHash :: "string option"
  sawHmac :: bool
  sawExplicitAlgorithm :: bool
  last_entry :: "escrow_entry option"
  headEntry :: "escrow_entry option"

definition walk_start :: walk where
  "walk_start = \<lparr>expectedPreviousHash = None, sawHmac = False, sawExplicitAlgorithm = False, last_entry = None, headEntry = None\<rparr>"

text \<open>The digest of a stored entry, recomputed with its own algorithm.\<close>

definition entry_hash :: "chain_context \<Rightarrow> escrow_entry \<Rightarrow> string result" where
  "entry_hash cx e =
     computeEscrowAuditHash (cc_crypto cx) (ae_sequence e) (ae_previousHash e) (ae_params e) (ae_occurredAt e)
       (ae_hashAlgorithm e) (cc_hmacKey cx)"

definition algorithm_failure :: "chain_context \<Rightarrow> walk \<Rightarrow> string option \<Rightarrow> verification_failure option" where
  "algorithm_failure cx w algorithm =
     (if algorithm = Some HMAC_SHA256 then (if cc_hmacKey cx = [] then Some hmac_key_unavailable else None)
      else if algorithm \<noteq> None \<and> algorithm \<noteq> Some SHA256 then Some unknown_algorithm
      else if sawHmac w then Some algorithm_downgrade
      else None)"

definition verify_entry :: "chain_context \<Rightarrow> audit_head option \<Rightarrow> walk \<Rightarrow> escrow_entry \<Rightarrow> (verification_result + walk) result" where
  "verify_entry cx head w e =
     (if ae_previousHash e \<noteq> expectedPreviousHash w then Inr (Inl (Broken (Some (ae_sequence e)) link_mismatch))
      else case algorithm_failure cx w (ae_hashAlgorithm e) of
        Some f \<Rightarrow> Inr (Inl (Broken (Some (ae_sequence e)) f))
      | None \<Rightarrow>
          rbind (entry_hash cx e) (\<lambda>h. rbind (safeEqual (Some (ae_hash e)) h) (\<lambda>eq.
            if \<not> eq then Inr (Inl (Broken (Some (ae_sequence e)) hash_mismatch))
            else Inr (Inr
              \<lparr>expectedPreviousHash = Some (ae_hash e),
               sawHmac = (sawHmac w \<or> ae_hashAlgorithm e = Some HMAC_SHA256),
               sawExplicitAlgorithm = (sawExplicitAlgorithm w \<or> ae_hashAlgorithm e \<noteq> None),
               last_entry = Some e,
               headEntry = (case head of Some h \<Rightarrow> if ae_sequence e = ah_sequence h then Some e else headEntry w
                                       | None \<Rightarrow> headEntry w)\<rparr>))))"

fun verify_batch :: "chain_context \<Rightarrow> audit_head option \<Rightarrow> walk \<Rightarrow> escrow_entry list \<Rightarrow> (verification_result + walk) result" where
  "verify_batch cx head w [] = Inr (Inr w)"
| "verify_batch cx head w (e # es) =
     rbind (verify_entry cx head w e) (\<lambda>r. case r of Inl b \<Rightarrow> Inr (Inl b) | Inr w' \<Rightarrow> verify_batch cx head w' es)"

function verify_pages ::
  "chain_context \<Rightarrow> audit_head option \<Rightarrow> escrow_entry list \<Rightarrow> nat \<Rightarrow> walk \<Rightarrow> (verification_result + walk) result" where
  "verify_pages cx head sorted_rows page w =
     (let batch = take VERIFY_PAGE_SIZE (drop (page * VERIFY_PAGE_SIZE) sorted_rows) in
      rbind (verify_batch cx head w batch) (\<lambda>r. case r of
          Inl b \<Rightarrow> Inr (Inl b)
        | Inr w' \<Rightarrow> if length batch < VERIFY_PAGE_SIZE then Inr (Inr w') else verify_pages cx head sorted_rows (Suc page) w'))"
  by pat_completeness auto
termination
  by (relation "measure (\<lambda>(_, _, rows, page, _). length rows - page * VERIFY_PAGE_SIZE)") (auto simp: VERIFY_PAGE_SIZE_def)

declare verify_pages.simps [simp del]

text \<open>The comparison with the head record, once every entry has passed.\<close>

definition verify_head :: "chain_context \<Rightarrow> audit_head option \<Rightarrow> walk \<Rightarrow> verification_result result" where
  "verify_head cx head w =
     (if \<not> cc_hasHeadRepo cx then Inr Valid
      else case head of
        None \<Rightarrow> Inr (if sawExplicitAlgorithm w then Broken (map_option ae_sequence (last_entry w)) head_missing else Valid)
      | Some h \<Rightarrow>
          let no_mac = (ah_mac h = None \<or> ah_mac h = Some []);
              no_algorithm = (ah_hashAlgorithm h = None \<or> ah_hashAlgorithm h = Some []);
              rest = (case last_entry w of
                  None \<Rightarrow> Broken (Some 0) truncated
                | Some l \<Rightarrow>
                    if ah_sequence h > ae_sequence l then Broken (Some (ae_sequence l + 1)) truncated
                    else if map_option ae_hash (headEntry w) \<noteq> Some (ah_hash h) then Broken (Some (ah_sequence h)) head_mismatch
                    else Valid)
          in if cc_hmacKey cx \<noteq> [] \<and> no_mac then Inr (Broken (Some (ah_sequence h)) head_mac_mismatch)
             else if no_mac \<and> no_algorithm then Inr rest
             else if cc_hmacKey cx = [] then Inr (Broken (Some (ah_sequence h)) hmac_key_unavailable)
             else rbind (safeEqual (ah_mac h) (computeHeadMac (cc_crypto cx) (ah_chainId h) (ah_sequence h) (ah_hash h) (cc_hmacKey cx)))
                    (\<lambda>eq. Inr (if \<not> eq then Broken (Some (ah_sequence h)) head_mac_mismatch else rest)))"

definition verifyChain :: "chain_context \<Rightarrow> escrow_entry list \<Rightarrow> audit_head option \<Rightarrow> verification_result result" where
  "verifyChain cx rows stored_head =
     (let head = (if cc_hasHeadRepo cx then stored_head else None) in
      rbind (verify_pages cx head (sort_key ae_sequence rows) 0 walk_start) (\<lambda>r. case r of
          Inl b \<Rightarrow> Inr b
        | Inr w \<Rightarrow> verify_head cx head w))"

section \<open>The pages are the whole log\<close>

lemma verify_batch_append:
  "verify_batch cx head w (xs @ ys) =
     rbind (verify_batch cx head w xs) (\<lambda>r. case r of Inl b \<Rightarrow> Inr (Inl b) | Inr w' \<Rightarrow> verify_batch cx head w' ys)"
proof (induction xs arbitrary: w)
  case Nil
  then show ?case by simp
next
  case (Cons e es)
  show ?case
    using Cons.IH by (cases "verify_entry cx head w e") (auto split: sum.split)
qed

lemma verify_pages_batch:
  "verify_pages cx head rows page w = verify_batch cx head w (drop (page * VERIFY_PAGE_SIZE) rows)"
proof (induction cx head rows page w rule: verify_pages.induct)
  case (1 cx head rows page w)
  let ?rest = "drop (page * VERIFY_PAGE_SIZE) rows"
  let ?batch = "take VERIFY_PAGE_SIZE ?rest"
  have split: "verify_batch cx head w ?rest =
      rbind (verify_batch cx head w ?batch) (\<lambda>r. case r of Inl b \<Rightarrow> Inr (Inl b)
        | Inr w' \<Rightarrow> verify_batch cx head w' (drop VERIFY_PAGE_SIZE ?rest))"
    by (metis append_take_drop_id verify_batch_append)
  have next_page: "drop VERIFY_PAGE_SIZE ?rest = drop (Suc page * VERIFY_PAGE_SIZE) rows"
    by (simp add: add.commute)
  show ?case
  proof (cases "length ?batch < VERIFY_PAGE_SIZE")
    case True
    then have "?batch = ?rest"
      by simp
    then show ?thesis
      using True
      by (subst verify_pages.simps)
        (cases "verify_batch cx head w ?rest", auto simp: Let_def split: sum.split)
  next
    case False
    have IH: "verify_pages cx head rows (Suc page) w' = verify_batch cx head w' (drop (Suc page * VERIFY_PAGE_SIZE) rows)" for w'
      using 1 [OF refl False] .
    show ?thesis
      by (subst verify_pages.simps) (simp only: split next_page Let_def False if_False IH)
  qed
qed

section \<open>What a passed walk establishes\<close>

fun linked :: "chain_context \<Rightarrow> string option \<Rightarrow> escrow_entry list \<Rightarrow> bool" where
  "linked cx prev [] = True"
| "linked cx prev (e # es) =
     (ae_previousHash e = prev \<and> entry_hash cx e = Inr (ae_hash e) \<and> linked cx (Some (ae_hash e)) es)"

definition tail_hash :: "string option \<Rightarrow> escrow_entry list \<Rightarrow> string option" where
  "tail_hash prev es = (if es = [] then prev else Some (ae_hash (last es)))"

lemma linked_append: "linked cx prev (xs @ ys) \<longleftrightarrow> linked cx prev xs \<and> linked cx (tail_hash prev xs) ys"
  by (induction xs arbitrary: prev) (auto simp: tail_hash_def)

lemma verify_entryD:
  assumes "verify_entry cx head w e = Inr (Inr w')"
  shows "ae_previousHash e = expectedPreviousHash w" "entry_hash cx e = Inr (ae_hash e)"
    and "expectedPreviousHash w' = Some (ae_hash e)" "last_entry w' = Some e"
    and "headEntry w' = (case head of Some h \<Rightarrow> if ae_sequence e = ah_sequence h then Some e else headEntry w | None \<Rightarrow> headEntry w)"
  using assms
  by (auto simp: verify_entry_def result_simps dest!: safeEqual_TrueD split: if_splits option.splits)

lemma verify_batch_ConsE:
  assumes "verify_batch cx head w (e # es) = Inr (Inr w')"
  obtains w1 where "verify_entry cx head w e = Inr (Inr w1)" "verify_batch cx head w1 es = Inr (Inr w')"
proof (cases "verify_entry cx head w e")
  case (Inr r)
  then show ?thesis
    using assms that by (cases r) auto
qed (use assms in simp)

lemma verify_entry_broken: "verify_entry cx head w e = Inr (Inl b) \<Longrightarrow> b \<noteq> Valid"
  by (auto simp: verify_entry_def result_simps split: if_splits option.splits)

lemma verify_batch_broken: "verify_batch cx head w es = Inr (Inl b) \<Longrightarrow> b \<noteq> Valid"
proof (induction es arbitrary: w)
  case Nil
  then show ?case by simp
next
  case (Cons e es)
  show ?case
  proof (cases "verify_entry cx head w e")
    case (Inr r)
    then show ?thesis
      using Cons verify_entry_broken [of cx head w e] by (cases r) auto
  qed (use Cons.prems in simp)
qed

lemma verify_batch_linked:
  "verify_batch cx head w es = Inr (Inr w') \<Longrightarrow> linked cx (expectedPreviousHash w) es"
proof (induction es arbitrary: w)
  case Nil
  then show ?case by simp
next
  case (Cons e es)
  then obtain w1 where "verify_entry cx head w e = Inr (Inr w1)" "verify_batch cx head w1 es = Inr (Inr w')"
    using verify_batch_ConsE by metis
  then show ?case
    using Cons.IH verify_entryD by fastforce
qed

lemma verify_batch_headEntry:
  "verify_batch cx (Some h) w es = Inr (Inr w') \<Longrightarrow> headEntry w' = Some e \<Longrightarrow>
   headEntry w = Some e \<or> e \<in> set es \<and> ae_sequence e = ah_sequence h"
proof (induction es arbitrary: w)
  case Nil
  then show ?case by simp
next
  case (Cons d es)
  then obtain w1 where "verify_entry cx (Some h) w d = Inr (Inr w1)" "verify_batch cx (Some h) w1 es = Inr (Inr w')"
    using verify_batch_ConsE by metis
  then show ?case
    using Cons.IH [of w1] Cons.prems(2) by (auto dest!: verify_entryD(5) split: if_splits)
qed

lemma verify_head_ValidD:
  assumes "verify_head cx (Some h) w = Inr Valid" "cc_hasHeadRepo cx"
  shows "\<exists>e. headEntry w = Some e \<and> ae_hash e = ah_hash h"
  using assms
  by (auto simp: verify_head_def Let_def result_simps split: if_splits option.splits)

lemma verifyChain_ValidD:
  assumes "verifyChain cx rows (Some h) = Inr Valid" "cc_hasHeadRepo cx"
  obtains e where "linked cx None (sort_key ae_sequence rows)" "e \<in> set rows"
    "ae_sequence e = ah_sequence h" "ae_hash e = ah_hash h"
proof -
  obtain w where w: "verify_batch cx (Some h) walk_start (sort_key ae_sequence rows) = Inr (Inr w)"
      "verify_head cx (Some h) w = Inr Valid"
  proof (cases "verify_batch cx (Some h) walk_start (sort_key ae_sequence rows)")
    case (Inr r)
    then show ?thesis
      using assms that
      by (cases r) (auto simp: verifyChain_def verify_pages_batch Let_def dest: verify_batch_broken)
  qed (use assms in \<open>simp add: verifyChain_def verify_pages_batch Let_def\<close>)
  then obtain e where e: "headEntry w = Some e" "ae_hash e = ah_hash h"
    using verify_head_ValidD assms(2) by blast
  have "linked cx None (sort_key ae_sequence rows)"
    using verify_batch_linked [OF w(1)] by (simp add: walk_start_def)
  moreover have "e \<in> set rows \<and> ae_sequence e = ah_sequence h"
    using verify_batch_headEntry [OF w(1) e(1)] by (simp add: walk_start_def)
  ultimately show ?thesis
    using that e(2) by blast
qed

section \<open>Tamper evidence\<close>

text \<open>What an entry's hash covers: the scheme and the payload object.\<close>

definition covered :: "escrow_entry \<Rightarrow> (bool \<times> js_value) option" where
  "covered e =
     (case to_iso_string (ae_occurredAt e) of
        Inl _ \<Rightarrow> None
      | Inr stamp \<Rightarrow> Some (ae_hashAlgorithm e = Some HMAC_SHA256, audit_payload (ae_sequence e) (ae_previousHash e) (ae_params e) stamp))"

definition digest_of :: "chain_context \<Rightarrow> bool \<times> js_value \<Rightarrow> string" where
  "digest_of cx c = payload_digest (cc_crypto cx) (cc_hmacKey cx) (fst c) (snd c)"

lemma entry_hash_covered: "entry_hash cx e = Inr h \<longleftrightarrow> (\<exists>c. covered e = Some c \<and> h = digest_of cx c)"
  by (auto simp: entry_hash_def computeEscrowAuditHash_def covered_def digest_of_def split: sum.split)

text \<open>No two different payloads among the entries at hand have the same digest, and a hex digest is not empty.\<close>

definition collision_free :: "chain_context \<Rightarrow> escrow_entry list \<Rightarrow> bool" where
  "collision_free cx es \<longleftrightarrow> inj_on (digest_of cx) {c. Some c \<in> covered ` set es}"

definition hex_digests :: "escrow_crypto \<Rightarrow> bool" where
  "hex_digests cr \<longleftrightarrow> (\<forall>t. sha256_hex cr t \<noteq> []) \<and> (\<forall>k t. hmac_sha256_hex cr k t \<noteq> [])"

lemma digest_of_ne: "hex_digests (cc_crypto cx) \<Longrightarrow> digest_of cx c \<noteq> []"
  by (simp add: hex_digests_def digest_of_def payload_digest_def)

lemma linked_nth:
  assumes "linked cx prev es" "i < length es"
  shows "ae_previousHash (es ! i) = (if i = 0 then prev else Some (ae_hash (es ! (i - 1))))"
    and "entry_hash cx (es ! i) = Inr (ae_hash (es ! i))"
  using assms by (induction es arbitrary: prev i) (auto simp: nth_Cons split: nat.splits)

lemma linked_hash_ne:
  assumes "linked cx prev es" "hex_digests (cc_crypto cx)" "i < length es"
  shows "ae_hash (es ! i) \<noteq> []"
  using linked_nth(2) [OF assms(1,3)] digest_of_ne [OF assms(2)] by (metis entry_hash_covered)

lemma covered_previousHash:
  assumes "covered e = covered e'" "covered e \<noteq> None"
  shows "(case ae_previousHash e of None \<Rightarrow> [] | Some h \<Rightarrow> h) = (case ae_previousHash e' of None \<Rightarrow> [] | Some h \<Rightarrow> h)"
  using assms by (auto simp: covered_def audit_payload_def split: sum.splits)

lemma collision_freeD:
  assumes "collision_free cx es" "e \<in> set es" "e' \<in> set es"
    and "entry_hash cx e = Inr h" "entry_hash cx e' = Inr h"
  shows "covered e = covered e'"
proof -
  obtain c c' where "covered e = Some c" "covered e' = Some c'" "digest_of cx c = digest_of cx c'"
    using assms(4,5) by (auto simp: entry_hash_covered)
  moreover have "Some c \<in> covered ` set es" "Some c' \<in> covered ` set es"
    using assms(2,3) calculation by (metis imageI)+
  ultimately show ?thesis
    using assms(1) by (auto simp: collision_free_def dest: inj_onD)
qed

text \<open>Two linked chains with one hash in common are the same up to that entry.\<close>

lemma linked_common_prefix:
  assumes "linked cx None xs" "linked cx None ys" "collision_free cx (xs @ ys)" "hex_digests (cc_crypto cx)"
    and "i < length xs" "j < length ys" "ae_hash (xs ! i) = ae_hash (ys ! j)"
  shows "i = j \<and> map covered (take (Suc i) xs) = map covered (take (Suc i) ys)"
  using assms(5-7)
proof (induction i arbitrary: j)
  case 0
  note x = linked_nth [OF assms(1) 0(1)] and y = linked_nth [OF assms(2) 0(2)]
  have same: "covered (xs ! 0) = covered (ys ! j)"
    using collision_freeD [OF assms(3)] x(2) y(2) 0 by (metis Un_iff nth_mem set_append)
  moreover have "covered (xs ! 0) \<noteq> None"
    using x(2) by (auto simp: entry_hash_covered)
  ultimately have "j = 0 \<or> ae_hash (ys ! (j - 1)) = []"
    using covered_previousHash [of "xs ! 0" "ys ! j"] x(1) y(1) by (auto split: if_splits)
  moreover have "ae_hash (ys ! (j - 1)) \<noteq> []"
    using linked_hash_ne [OF assms(2,4), of "j - 1"] 0(2) by simp
  ultimately show ?case
    using same 0 by (auto simp: take_Suc_conv_app_nth)
next
  case (Suc i)
  note x = linked_nth [OF assms(1) Suc.prems(1)] and y = linked_nth [OF assms(2) Suc.prems(2)]
  have same: "covered (xs ! Suc i) = covered (ys ! j)"
    using collision_freeD [OF assms(3)] x(2) y(2) Suc.prems by (metis Un_iff nth_mem set_append)
  moreover have "covered (xs ! Suc i) \<noteq> None"
    using x(2) by (auto simp: entry_hash_covered)
  ultimately have prev: "ae_hash (xs ! i) = (if j = 0 then [] else ae_hash (ys ! (j - 1)))"
    using covered_previousHash [of "xs ! Suc i" "ys ! j"] x(1) y(1) by (auto split: if_splits)
  have "ae_hash (xs ! i) \<noteq> []"
    using linked_hash_ne [OF assms(1,4), of i] Suc.prems(1) by simp
  with prev obtain m where m: "j = Suc m" "ae_hash (xs ! i) = ae_hash (ys ! m)"
    by (cases j) auto
  have "i = m \<and> map covered (take (Suc i) xs) = map covered (take (Suc i) ys)"
    using m Suc.prems by (intro Suc.IH) simp_all
  then have im: "i = m" and "map covered (take (Suc i) xs) = map covered (take (Suc i) ys)"
    by (rule conjunct1, rule conjunct2)
  then have "map covered (take (Suc m) xs) = map covered (take (Suc m) ys)"
    by (simp only: im)
  with m(1) im same Suc.prems(1,2) show ?case
    by (simp add: take_Suc_conv_app_nth [of "Suc m"])
qed

text \<open>C11: Tamper evidence. If two contents of the log table both verify against one head record, they agree,
  entry by entry and in everything an entry's hash covers, from the first entry up to the one the head names:
  no entry at or before the head can be edited, removed, inserted or moved without verification failing.
  Assumed of the digests: no collision among the payloads at hand.\<close>

theorem verifyChain_tamper_evident:
  assumes "verifyChain cx rows (Some h) = Inr Valid" "verifyChain cx rows' (Some h) = Inr Valid" "cc_hasHeadRepo cx"
    and "collision_free cx (rows @ rows')" "hex_digests (cc_crypto cx)"
  shows "\<exists>n. 0 < n \<and> n \<le> length rows \<and> n \<le> length rows' \<and>
             ae_sequence (sort_key ae_sequence rows ! (n - 1)) = ah_sequence h \<and>
             map covered (take n (sort_key ae_sequence rows)) = map covered (take n (sort_key ae_sequence rows'))"
proof -
  let ?xs = "sort_key ae_sequence rows" and ?ys = "sort_key ae_sequence rows'"
  obtain e where e: "linked cx None ?xs" "e \<in> set ?xs" "ae_sequence e = ah_sequence h" "ae_hash e = ah_hash h"
    using verifyChain_ValidD [OF assms(1,3)] by (metis set_sort)
  obtain e' where e': "linked cx None ?ys" "e' \<in> set ?ys" "ae_hash e' = ah_hash h"
    using verifyChain_ValidD [OF assms(2,3)] by (metis set_sort)
  obtain i j where ij: "i < length ?xs" "?xs ! i = e" "j < length ?ys" "?ys ! j = e'"
    using e(2) e'(2) by (metis in_set_conv_nth)
  have "collision_free cx (?xs @ ?ys)"
    using assms(4) by (simp add: collision_free_def)
  with linked_common_prefix [OF e(1) e'(1) _ assms(5) ij(1,3)] ij e e'
  have "i = j" "map covered (take (Suc i) ?xs) = map covered (take (Suc i) ?ys)"
    by auto
  with ij e(3) show ?thesis
    by (intro exI [of _ "Suc i"]) auto
qed

section \<open>Concurrent appenders\<close>

text \<open>Where a call of \<^verbatim>\<open>record()\<close> stands: about to read the latest entry, about to insert the entry it built,
  about to read the head, about to write it over the head it saw; the number is the attempt.\<close>

datatype appender =
    Resting
  | ReadingLatest audit_params nat
  | Creating audit_params nat escrow_entry
  | ReadingHead escrow_entry nat
  | WritingHead escrow_entry nat "audit_head option"
  | Returned escrow_entry
  | Threw

record audit_system =
  as_rows :: "escrow_entry list"
  as_head :: "audit_head option"
  as_procs :: "nat \<Rightarrow> appender"

definition set_proc :: "nat \<Rightarrow> appender \<Rightarrow> audit_system \<Rightarrow> audit_system" where
  "set_proc i a s = s\<lparr>as_procs := (as_procs s)(i := a)\<rparr>"

definition after_create :: "chain_context \<Rightarrow> escrow_entry \<Rightarrow> appender" where
  "after_create cx e = (if cc_hasHeadRepo cx then ReadingHead e 0 else Returned e)"

definition retry_append :: "audit_params \<Rightarrow> nat \<Rightarrow> appender" where
  "retry_append p n = (if Suc n < MAX_APPEND_ATTEMPTS then ReadingLatest p (Suc n) else Threw)"

definition retry_head :: "escrow_entry \<Rightarrow> nat \<Rightarrow> appender" where
  "retry_head e n = (if Suc n < MAX_HEAD_ATTEMPTS then ReadingHead e (Suc n) else Returned e)"

text \<open>A failing create is retried whether the index refused it (\<open>create_fails\<close>) or the row was written and
  only the answer was lost (\<open>create_lost\<close>); a failing head read or write is retried, then logged.\<close>

inductive append_step :: "chain_context \<Rightarrow> audit_system \<Rightarrow> audit_system \<Rightarrow> bool" for cx where
  call: "as_procs s i = Resting \<Longrightarrow> append_step cx s (set_proc i (ReadingLatest p 0) s)"
| draft:
    "as_procs s i = ReadingLatest p n \<Longrightarrow> draft_entry cx p (latestEntry (as_rows s)) now = Inr e \<Longrightarrow>
     append_step cx s (set_proc i (Creating p n e) s)"
| read_throws: "as_procs s i = ReadingLatest p n \<Longrightarrow> append_step cx s (set_proc i Threw s)"
| created:
    "as_procs s i = Creating p n e \<Longrightarrow> create_entry (as_rows s) e = Inr rows \<Longrightarrow>
     append_step cx s (set_proc i (after_create cx e) (s\<lparr>as_rows := rows\<rparr>))"
| create_fails: "as_procs s i = Creating p n e \<Longrightarrow> append_step cx s (set_proc i (retry_append p n) s)"
| create_lost:
    "as_procs s i = Creating p n e \<Longrightarrow> create_entry (as_rows s) e = Inr rows \<Longrightarrow>
     append_step cx s (set_proc i (retry_append p n) (s\<lparr>as_rows := rows\<rparr>))"
| head_current:
    "as_procs s i = ReadingHead e n \<Longrightarrow> as_head s = Some h \<Longrightarrow> ah_sequence h \<ge> ae_sequence e \<Longrightarrow>
     append_step cx s (set_proc i (Returned e) s)"
| head_seen:
    "as_procs s i = ReadingHead e n \<Longrightarrow> \<forall>h. as_head s = Some h \<longrightarrow> ah_sequence h < ae_sequence e \<Longrightarrow>
     append_step cx s (set_proc i (WritingHead e n (as_head s)) s)"
| head_read_fails: "as_procs s i = ReadingHead e n \<Longrightarrow> append_step cx s (set_proc i (retry_head e n) s)"
| head_written:
    "as_procs s i = WritingHead e n seen \<Longrightarrow> write_head cx (as_head s) seen e = Inr h \<Longrightarrow>
     append_step cx s (set_proc i (Returned e) (s\<lparr>as_head := Some h\<rparr>))"
| head_write_fails: "as_procs s i = WritingHead e n seen \<Longrightarrow> append_step cx s (set_proc i (retry_head e n) s)"
| crash: "append_step cx s (set_proc i Resting s)"

definition fresh_system :: "audit_system \<Rightarrow> bool" where
  "fresh_system s \<longleftrightarrow> as_rows s = [] \<and> as_head s = None \<and> (\<forall>i. as_procs s i = Resting)"

inductive append_reachable :: "chain_context \<Rightarrow> audit_system \<Rightarrow> bool" for cx where
  start: "fresh_system s \<Longrightarrow> append_reachable cx s"
| step: "append_reachable cx s \<Longrightarrow> append_step cx s s' \<Longrightarrow> append_reachable cx s'"

section \<open>The log is a chain at every moment\<close>

definition numbered :: "escrow_entry list \<Rightarrow> bool" where
  "numbered es \<longleftrightarrow> map ae_sequence es = map int [0..<length es]"

definition chain_rows :: "chain_context \<Rightarrow> escrow_entry list \<Rightarrow> bool" where
  "chain_rows cx es \<longleftrightarrow> numbered es \<and> linked cx None es \<and> (\<forall>e\<in>set es. ae_hashAlgorithm e = Some (hash_algorithm cx))"

text \<open>The entry about to be inserted extends the chain as it was when its predecessor was read.\<close>

fun proc_ok :: "chain_context \<Rightarrow> audit_system \<Rightarrow> appender \<Rightarrow> bool" where
  "proc_ok cx s (Creating p n e) \<longleftrightarrow> (\<exists>k\<le>length (as_rows s). chain_rows cx (take k (as_rows s) @ [e]))"
| "proc_ok cx s (ReadingHead e n) \<longleftrightarrow> e \<in> set (as_rows s)"
| "proc_ok cx s (WritingHead e n seen) \<longleftrightarrow>
     e \<in> set (as_rows s) \<and>
     (\<forall>h. seen = Some h \<longrightarrow> ah_sequence h < ae_sequence e \<and>
        (\<exists>c. as_head s = Some c \<and> ah_version h \<le> ah_version c \<and> (ah_version h = ah_version c \<longrightarrow> h = c)))"
| "proc_ok cx s _ \<longleftrightarrow> True"

definition head_ok :: "chain_context \<Rightarrow> audit_system \<Rightarrow> bool" where
  "head_ok cx s \<longleftrightarrow> (\<forall>h. as_head s = Some h \<longrightarrow> (\<exists>e\<in>set (as_rows s). h = head_fields cx e (ah_version h)))"

definition audit_inv :: "chain_context \<Rightarrow> audit_system \<Rightarrow> bool" where
  "audit_inv cx s \<longleftrightarrow> chain_rows cx (as_rows s) \<and> head_ok cx s \<and> (\<forall>i. proc_ok cx s (as_procs s i))"

lemma numbered_snoc: "numbered (es @ [e]) \<longleftrightarrow> numbered es \<and> ae_sequence e = int (length es)"
  by (simp add: numbered_def)

lemma numbered_take: "numbered es \<Longrightarrow> numbered (take k es)"
  by (simp add: numbered_def flip: take_map) (simp add: take_map take_upt min_def)

lemma numbered_nth: "numbered es \<Longrightarrow> i < length es \<Longrightarrow> ae_sequence (es ! i) = int i"
  by (metis (no_types, lifting) add_0 diff_zero length_map length_upt nth_map nth_upt numbered_def)

lemma latestEntry_numbered:
  assumes "numbered es"
  shows "latestEntry es = (if es = [] then None else Some (last es))"
proof -
  have "latestEntry es = (if es = [] then None else Some (last es))" if "map ae_sequence es = map int [m..<m + length es]" for m
    using that
  proof (induction es arbitrary: m)
    case Nil
    then show ?case by simp
  next
    case (Cons e es)
    then have rest: "map ae_sequence es = map int [Suc m..<Suc m + length es]" and e: "ae_sequence e = int m"
      by (simp_all add: upt_rec)
    have "ae_sequence (last es) = int (m + length es)" if "es \<noteq> []"
      using arg_cong [OF rest, of last] that by (cases "length es") (simp_all add: last_map)
    with Cons.IH [OF rest] e show ?case
      by auto
  qed
  from this [of 0] assms show ?thesis
    by (simp add: numbered_def)
qed

lemma draft_extends:
  assumes "chain_rows cx rows" "draft_entry cx p (latestEntry rows) now = Inr e"
  shows "chain_rows cx (rows @ [e])"
proof -
  have latest: "latestEntry rows = (if rows = [] then None else Some (last rows))"
    using assms(1) latestEntry_numbered by (simp add: chain_rows_def)
  have seq: "rows \<noteq> [] \<Longrightarrow> ae_sequence (last rows) = int (length rows - 1)"
    using assms(1) numbered_nth [of rows "length rows - 1"] by (simp add: chain_rows_def last_conv_nth)
  show ?thesis
    using assms seq unfolding chain_rows_def draft_entry_def latest
    by (auto simp: numbered_snoc linked_append tail_hash_def entry_hash_def result_simps Let_def of_nat_diff
        Suc_le_eq split: if_splits)
qed

lemma create_extends:
  assumes "chain_rows cx rows" "k \<le> length rows" "chain_rows cx (take k rows @ [e])" "create_entry rows e = Inr rows'"
  shows "rows' = rows @ [e]" and "chain_rows cx rows'"
proof -
  show "rows' = rows @ [e]"
    using assms(4) by (simp add: create_entry_def split: if_splits)
  have "ae_sequence e = int k"
    using assms(2,3) by (simp add: chain_rows_def numbered_snoc)
  moreover have "ae_sequence r \<noteq> ae_sequence e" if "r \<in> set rows" for r
    using assms(4) that by (auto simp: create_entry_def split: if_splits)
  ultimately have "\<not> k < length rows"
    using numbered_nth assms(1) by (metis chain_rows_def nth_mem)
  with assms(2,3) \<open>rows' = rows @ [e]\<close> show "chain_rows cx rows'"
    by simp
qed

lemma proc_ok_grow:
  assumes "proc_ok cx s a" "as_rows s' = as_rows s @ es" "as_head s' = as_head s"
  shows "proc_ok cx s' a"
proof (cases a)
  case (Creating p n e)
  with assms obtain k where "k \<le> length (as_rows s)" "chain_rows cx (take k (as_rows s) @ [e])"
    by auto
  with Creating assms(2) show ?thesis
    by (auto intro!: exI [of _ k])
qed (use assms in auto)

lemma proc_ok_rows_head: "proc_ok cx s a \<Longrightarrow> as_rows s' = as_rows s \<Longrightarrow> as_head s' = as_head s \<Longrightarrow> proc_ok cx s' a"
  using proc_ok_grow [of cx s a s' "[]"] by simp

lemma set_proc_fields [simp]:
  "as_rows (set_proc i a s) = as_rows s" "as_head (set_proc i a s) = as_head s"
  "as_procs (set_proc i a s) = (as_procs s)(i := a)"
  by (simp_all add: set_proc_def)

lemma audit_inv_proc:
  assumes "audit_inv cx s" "proc_ok cx s a"
  shows "audit_inv cx (set_proc i a s)"
  using assms proc_ok_rows_head [of cx s _ "set_proc i a s"] by (simp add: audit_inv_def head_ok_def)

lemma audit_inv_insert:
  assumes inv: "audit_inv cx s" and proc: "as_procs s i = Creating p n e" and created: "create_entry (as_rows s) e = Inr rows"
    and after: "proc_ok cx (s\<lparr>as_rows := rows\<rparr>) a"
  shows "audit_inv cx (set_proc i a (s\<lparr>as_rows := rows\<rparr>))"
proof (rule audit_inv_proc [OF _ after])
  have "proc_ok cx s (Creating p n e)"
    using inv proc by (metis audit_inv_def)
  then obtain k where "k \<le> length (as_rows s)" "chain_rows cx (take k (as_rows s) @ [e])"
    by auto
  moreover have "chain_rows cx (as_rows s)"
    using inv by (simp add: audit_inv_def)
  ultimately have "rows = as_rows s @ [e]" "chain_rows cx rows"
    using create_extends [OF _ _ _ created] by simp_all
  moreover from this have "proc_ok cx (s\<lparr>as_rows := rows\<rparr>) (as_procs s j)" for j
    using inv by (rule_tac s = s and es = "[e]" in proc_ok_grow) (simp_all add: audit_inv_def)
  ultimately show "audit_inv cx (s\<lparr>as_rows := rows\<rparr>)"
    using inv by (simp add: audit_inv_def head_ok_def)
qed

lemma write_head_cases:
  assumes "write_head cx c seen e = Inr h"
  shows "seen = None \<and> c = None \<and> h = head_fields cx e 0 \<or>
    (\<exists>s0 c'. seen = Some s0 \<and> c = Some c' \<and> ah_version c' = ah_version s0 \<and> h = head_fields cx e (Suc (ah_version s0)))"
  using assms by (auto simp: write_head_def split: option.splits if_splits)

lemma head_fields_sel [simp]:
  "ah_version (head_fields cx e v) = v" "ah_sequence (head_fields cx e v) = ae_sequence e"
  "ah_hash (head_fields cx e v) = ae_hash e" "ah_chainId (head_fields cx e v) = ESCROW_AUDIT_HEAD_CHAIN_ID"
  by (simp_all add: head_fields_def)

text \<open>A head written over the one read gets the next version, so every other reader's copy is now older.\<close>

lemma proc_ok_newer_head:
  assumes "proc_ok cx s a" "as_rows s' = as_rows s" "as_head s' = Some h"
    and "\<And>c. as_head s = Some c \<Longrightarrow> ah_version h = Suc (ah_version c)"
  shows "proc_ok cx s' a"
proof (cases a)
  case (WritingHead e n seen)
  with assms show ?thesis
    by (cases seen) auto
qed (use assms in auto)

lemma audit_inv_head:
  assumes inv: "audit_inv cx s" and proc: "as_procs s i = WritingHead e n seen"
    and written: "write_head cx (as_head s) seen e = Inr h"
  shows "audit_inv cx (s\<lparr>as_head := Some h\<rparr>)" and "\<And>c. as_head s = Some c \<Longrightarrow> ah_sequence c < ah_sequence h"
proof -
  have ok: "proc_ok cx s (WritingHead e n seen)"
    using inv proc by (metis audit_inv_def)
  have h: "h = head_fields cx e (ah_version h)"
    and version: "\<And>c. as_head s = Some c \<Longrightarrow> ah_version h = Suc (ah_version c)"
    using write_head_cases [OF written] by auto
  have "proc_ok cx (s\<lparr>as_head := Some h\<rparr>) (as_procs s j)" for j
    by (rule proc_ok_newer_head [of cx s, OF _ _ _ version]) (use inv in \<open>simp_all add: audit_inv_def\<close>)
  with inv ok h show "audit_inv cx (s\<lparr>as_head := Some h\<rparr>)"
    by (auto simp: audit_inv_def head_ok_def)
  show "ah_sequence c < ah_sequence h" if "as_head s = Some c" for c
    using write_head_cases [OF written] ok that by auto
qed

lemma audit_inv_step:
  assumes "append_step cx s s'" "audit_inv cx s"
  shows "audit_inv cx s'"
  using assms(1)
proof cases
  case (draft i p n now e)
  have "proc_ok cx s (Creating p n e)"
    using draft_extends [OF _ draft(3)] assms(2) by (auto simp: audit_inv_def intro!: exI [of _ "length (as_rows s)"])
  then show ?thesis
    using draft(1) assms(2) by (simp add: audit_inv_proc)
next
  case (created i p n e rows)
  have "e \<in> set rows"
    using created(3) by (auto simp: create_entry_def split: if_splits)
  then have "proc_ok cx (s\<lparr>as_rows := rows\<rparr>) (after_create cx e)"
    by (simp add: after_create_def)
  then show ?thesis
    using audit_inv_insert [OF assms(2) created(2,3)] created(1) by simp
next
  case (create_lost i p n e rows)
  have "proc_ok cx (s\<lparr>as_rows := rows\<rparr>) (retry_append p n)"
    by (simp add: retry_append_def)
  then show ?thesis
    using audit_inv_insert [OF assms(2) create_lost(2,3)] create_lost(1) by simp
next
  case (head_seen i e n)
  have "proc_ok cx s (ReadingHead e n)"
    using assms(2) head_seen(2) by (metis audit_inv_def)
  then have "proc_ok cx s (WritingHead e n (as_head s))"
    using head_seen(3) by simp
  then show ?thesis
    using head_seen(1) assms(2) by (simp add: audit_inv_proc)
next
  case (head_read_fails i e n)
  then have "proc_ok cx s (ReadingHead e n)"
    using assms(2) by (metis audit_inv_def)
  then have "proc_ok cx s (retry_head e n)"
    by (simp add: retry_head_def)
  then show ?thesis
    using head_read_fails(1) assms(2) by (simp add: audit_inv_proc)
next
  case (head_written i e n seen h)
  show ?thesis
    using audit_inv_proc [OF audit_inv_head(1) [OF assms(2) head_written(2,3)], of "Returned e" i] head_written(1) by simp
next
  case (head_write_fails i e n seen)
  then have "proc_ok cx s (WritingHead e n seen)"
    using assms(2) by (metis audit_inv_def)
  then have "proc_ok cx s (retry_head e n)"
    by (simp add: retry_head_def)
  then show ?thesis
    using head_write_fails(1) assms(2) by (simp add: audit_inv_proc)
qed (use assms(2) in \<open>simp_all add: audit_inv_proc retry_append_def\<close>)

lemma audit_inv_reachable: "append_reachable cx s \<Longrightarrow> audit_inv cx s"
proof (induction rule: append_reachable.induct)
  case (start s)
  then show ?case
    by (simp add: fresh_system_def audit_inv_def chain_rows_def numbered_def head_ok_def)
next
  case (step s s')
  then show ?case
    by (metis audit_inv_step)
qed

section \<open>A chain the appenders wrote verifies\<close>

lemma verify_batch_chain:
  assumes "linked cx (expectedPreviousHash w) es" "\<forall>e\<in>set es. ae_hashAlgorithm e = Some (hash_algorithm cx)"
    and "sawHmac w \<Longrightarrow> cc_hmacKey cx \<noteq> []"
  shows "\<exists>w'. verify_batch cx head w es = Inr (Inr w') \<and>
      last_entry w' = (if es = [] then last_entry w else Some (last es)) \<and>
      sawExplicitAlgorithm w' = (sawExplicitAlgorithm w \<or> es \<noteq> []) \<and>
      headEntry w' = foldl (\<lambda>f e. case head of Some h \<Rightarrow> if ae_sequence e = ah_sequence h then Some e else f | None \<Rightarrow> f)
        (headEntry w) es"
  using assms
proof (induction es arbitrary: w)
  case Nil
  then show ?case by simp
next
  case (Cons e es)
  have algorithm: "algorithm_failure cx w (ae_hashAlgorithm e) = None"
    using Cons.prems(2,3) by (auto simp: algorithm_failure_def hash_algorithm_def HMAC_SHA256_def SHA256_def)
  have "\<exists>w1. verify_entry cx head w e = Inr (Inr w1)"
    using Cons.prems(1) algorithm by (simp add: verify_entry_def)
  then obtain w1 where step: "verify_entry cx head w e = Inr (Inr w1)"
    by blast
  then have w1: "expectedPreviousHash w1 = Some (ae_hash e)" "last_entry w1 = Some e" "sawExplicitAlgorithm w1"
      "sawHmac w1 \<longleftrightarrow> sawHmac w \<or> ae_hashAlgorithm e = Some HMAC_SHA256"
      "headEntry w1 = (case head of Some h \<Rightarrow> if ae_sequence e = ah_sequence h then Some e else headEntry w | None \<Rightarrow> headEntry w)"
    using Cons.prems(1,2) algorithm by (auto simp: verify_entry_def)
  have "sawHmac w1 \<Longrightarrow> cc_hmacKey cx \<noteq> []"
    using w1(4) Cons.prems(2,3) by (auto simp: hash_algorithm_def HMAC_SHA256_def SHA256_def split: if_splits)
  with Cons.IH [of w1] Cons.prems w1 step show ?case
    by (auto split: if_splits)
qed

lemma foldl_head_entry:
  assumes "distinct (map ae_sequence es)" "e \<in> set es" "ah_sequence h = ae_sequence e"
  shows "foldl (\<lambda>f d. case Some h of Some h \<Rightarrow> if ae_sequence d = ah_sequence h then Some d else f | None \<Rightarrow> f) f0 es = Some e"
  using assms
proof (induction es arbitrary: f0 rule: rev_induct)
  case Nil
  then show ?case by simp
next
  case (snoc x es)
  then show ?case
    by (auto simp: image_iff)
qed

lemma numbered_distinct: "numbered es \<Longrightarrow> distinct (map ae_sequence es)"
  unfolding numbered_def by (simp add: distinct_map)

lemma numbered_sort: "numbered es \<Longrightarrow> sort_key ae_sequence es = es"
  unfolding numbered_def by (intro sort_key_id_if_sorted) (simp add: sorted_map)

text \<open>The check of a head the appenders wrote. Its MAC is a digest, so not empty.\<close>

lemma verify_head_fields:
  assumes "hex_digests (cc_crypto cx)" "last_entry w = Some l" "ae_sequence e \<le> ae_sequence l" "headEntry w = Some e"
  shows "verify_head cx (Some (head_fields cx e v)) w = Inr Valid"
proof -
  have "computeHeadMac (cc_crypto cx) c q h k \<noteq> []" for c q h k
    using assms(1) by (simp add: hex_digests_def computeHeadMac_def)
  with assms show ?thesis
    by (simp add: verify_head_def head_fields_def Let_def)
qed

lemma chain_rows_verifies:
  assumes rows: "chain_rows cx rows" and hex: "hex_digests (cc_crypto cx)"
    and head: "\<And>h. head = Some h \<Longrightarrow> \<exists>e\<in>set rows. h = head_fields cx e (ah_version h)"
    and present: "rows = [] \<or> head \<noteq> None \<or> \<not> cc_hasHeadRepo cx"
  shows "verifyChain cx rows head = Inr Valid"
proof -
  define hd' where "hd' = (if cc_hasHeadRepo cx then head else None)"
  have links: "linked cx (expectedPreviousHash walk_start) rows" "\<not> sawHmac walk_start"
    using rows by (simp_all add: chain_rows_def walk_start_def)
  obtain w where w: "verify_batch cx hd' walk_start rows = Inr (Inr w)"
      "last_entry w = (if rows = [] then None else Some (last rows))" "sawExplicitAlgorithm w = (rows \<noteq> [])"
      "headEntry w = foldl (\<lambda>f e. case hd' of Some h \<Rightarrow> if ae_sequence e = ah_sequence h then Some e else f | None \<Rightarrow> f) None rows"
    using verify_batch_chain [OF links(1), of hd'] rows links(2) by (auto simp: chain_rows_def walk_start_def)
  have "verify_head cx hd' w = Inr Valid"
  proof (cases hd')
    case None
    then show ?thesis
      using present w(3) by (auto simp: verify_head_def hd'_def split: if_splits)
  next
    case (Some h)
    then have "head = Some h"
      by (simp add: hd'_def split: if_splits)
    then obtain e v where e: "e \<in> set rows" "h = head_fields cx e v"
      using head by blast
    then obtain i where i: "i < length rows" "rows ! i = e"
      by (metis in_set_conv_nth)
    have num: "numbered rows"
      using rows by (simp add: chain_rows_def)
    have "ae_sequence e \<le> ae_sequence (last rows)"
      using numbered_nth [OF num, of i] numbered_nth [OF num, of "length rows - 1"] i
      by (cases "rows = []") (simp_all add: last_conv_nth)
    moreover have "headEntry w = Some e"
      using w(4) foldl_head_entry [OF numbered_distinct [OF num] e(1), of h None] e(2) Some by simp
    ultimately have "verify_head cx (Some (head_fields cx e v)) w = Inr Valid"
      using w(2) e(1) by (intro verify_head_fields [OF hex]) auto
    then show ?thesis
      using Some e(2) by simp
  qed
  moreover have "sort_key ae_sequence rows = rows"
    using rows by (simp add: chain_rows_def numbered_sort)
  ultimately show ?thesis
    using w(1) by (simp add: verifyChain_def verify_pages_batch Let_def flip: hd'_def)
qed

text \<open>C12: No interleaving of concurrent appenders, lost answers, failed head writes or crashes forks or breaks the
  chain: in every state reached from an empty log, verification succeeds whenever the head record exists (or
  nothing was appended yet, or head maintenance is off). In between the first insert and the first head
  write there is no head, which the walk reports as \<^const>\<open>head_missing\<close>.\<close>

theorem concurrent_appends_verify:
  assumes "append_reachable cx s" "hex_digests (cc_crypto cx)"
    and "as_rows s = [] \<or> as_head s \<noteq> None \<or> \<not> cc_hasHeadRepo cx"
  shows "verifyChain cx (as_rows s) (as_head s) = Inr Valid"
  using audit_inv_reachable [OF assms(1)] assms(2,3)
  by (intro chain_rows_verifies) (auto simp: audit_inv_def head_ok_def)

text \<open>The head record only moves forward: a step of any appender leaves it alone or replaces it by one at
  a later entry of the log.\<close>

theorem head_moves_forward:
  assumes "append_reachable cx s" "append_step cx s s'" "as_head s' \<noteq> as_head s"
  shows "\<exists>h. as_head s' = Some h \<and> (\<exists>e\<in>set (as_rows s'). ah_sequence h = ae_sequence e \<and> ah_hash h = ae_hash e) \<and>
             (\<forall>c. as_head s = Some c \<longrightarrow> ah_sequence c < ah_sequence h)"
proof -
  have inv: "audit_inv cx s"
    by (rule audit_inv_reachable [OF assms(1)])
  have "audit_inv cx s'"
    by (rule audit_inv_step [OF assms(2) inv])
  from assms(2,3) obtain i e n seen h where "as_procs s i = WritingHead e n seen"
      and h: "write_head cx (as_head s) seen e = Inr h" "as_head s' = Some h"
    by cases auto
  with inv have "\<forall>c. as_head s = Some c \<longrightarrow> ah_sequence c < ah_sequence h"
    using audit_inv_head(2) by blast
  moreover have "\<exists>e\<in>set (as_rows s'). ah_sequence h = ae_sequence e \<and> ah_hash h = ae_hash e"
    using \<open>audit_inv cx s'\<close> h(2) unfolding audit_inv_def head_ok_def by (metis head_fields_sel(2,3))
  ultimately show ?thesis
    using h(2) by blast
qed

definition example_crypto :: escrow_crypto where
  "example_crypto = \<lparr>sha256_hex = (\<lambda>t. CHR ''s'' # t), hmac_sha256_hex = (\<lambda>k t. CHR ''h'' # k @ t)\<rparr>"

definition example_context :: chain_context where
  "example_context = \<lparr>cc_crypto = example_crypto, cc_hmacKey = ''k'', cc_hasHeadRepo = True\<rparr>"

definition example_params :: audit_params where
  "example_params = \<lparr>ap_action = ''a'', ap_holderUserUid = ''u'', ap_matterId = ''m'', ap_mailboxUid = ''b'',
     ap_requestId = ''r'', ap_details = JUndefined\<rparr>"

definition example_entry :: "escrow_entry option \<Rightarrow> int \<Rightarrow> escrow_entry" where
  "example_entry latest now = projr (draft_entry example_context example_params latest (Some now))"

abbreviation (input) "entry0 \<equiv> example_entry None 0"
abbreviation (input) "entry1 \<equiv> example_entry (Some entry0) 1000"
abbreviation (input) "head0 \<equiv> head_fields example_context entry0 0"

lemma example_crypto_hex: "hex_digests (cc_crypto example_context)"
  by (simp add: hex_digests_def example_context_def example_crypto_def)

lemma example_draft: "draft_entry example_context example_params latest (Some now) = Inr (example_entry latest now)"
  by (simp add: example_entry_def draft_entry_def computeEscrowAuditHash_def to_iso_string_def Let_def split: prod.split)

lemma example_chain: "chain_rows example_context [entry0]" "chain_rows example_context [entry0, entry1]"
proof -
  show one: "chain_rows example_context [entry0]"
    using draft_extends [of example_context "[]" example_params "Some 0" entry0]
    by (simp add: example_draft chain_rows_def numbered_def)
  show "chain_rows example_context [entry0, entry1]"
    using draft_extends [OF one, of example_params "Some 1000" entry1] by (simp add: example_draft)
qed

lemma example_verifies:
  "verifyChain example_context [entry0, entry1] (Some head0) = Inr Valid"
  "verifyChain example_context [entry0] (Some head0) = Inr Valid"
  by (rule chain_rows_verifies [OF _ example_crypto_hex]; use example_chain in auto)+

lemma example_covered:
  "\<exists>stamp. covered (example_entry latest now) =
     Some (True, audit_payload (case latest of None \<Rightarrow> 0 | Some l \<Rightarrow> ae_sequence l + 1) (map_option ae_hash latest) example_params stamp)"
  by (auto simp: example_entry_def draft_entry_def covered_def computeEscrowAuditHash_def to_iso_string_def Let_def
      hash_algorithm_def example_context_def split: prod.split)

lemma example_sequence: "ae_sequence entry0 = 0"
  by (simp add: example_entry_def draft_entry_def computeEscrowAuditHash_def to_iso_string_def Let_def split: prod.split)

lemma example_collision_free: "collision_free example_context ([entry0, entry1] @ [entry0])"
proof -
  obtain s0 s1 where "covered entry0 = Some (True, audit_payload 0 None example_params s0)"
      and "covered entry1 = Some (True, audit_payload 1 (Some (ae_hash entry0)) example_params s1)"
    using example_covered [of None 0] example_covered [of "Some entry0" 1000] example_sequence by auto
  moreover have "digest_of example_context (True, audit_payload 0 None example_params s0) \<noteq>
      digest_of example_context (True, audit_payload 1 (Some (ae_hash entry0)) example_params s1)"
    by (simp add: digest_of_def payload_digest_def example_context_def example_crypto_def audit_payload_def
        json_stringify_def int_text_def nat_text.simps digit_char_def)
  ultimately show ?thesis
    by (auto simp: collision_free_def inj_on_def)
qed

theorem verifyChain_tamper_evident_witness:
  "\<exists>n. 0 < n \<and> n \<le> length [entry0, entry1] \<and> n \<le> length [entry0] \<and>
       ae_sequence (sort_key ae_sequence [entry0, entry1] ! (n - 1)) = ah_sequence head0 \<and>
       map covered (take n (sort_key ae_sequence [entry0, entry1])) = map covered (take n (sort_key ae_sequence [entry0]))"
  by (rule verifyChain_tamper_evident [OF example_verifies(1) example_verifies(2) _ example_collision_free example_crypto_hex])
    (simp add: example_context_def)

text \<open>One appender from an empty log to the written head.\<close>

definition example_start :: audit_system where
  "example_start = \<lparr>as_rows = [], as_head = None, as_procs = (\<lambda>_. Resting)\<rparr>"

definition example_before_head :: audit_system where
  "example_before_head = \<lparr>as_rows = [entry0], as_head = None, as_procs = (\<lambda>_. Resting)(0 := WritingHead entry0 0 None)\<rparr>"

definition example_final :: audit_system where
  "example_final = \<lparr>as_rows = [entry0], as_head = Some head0, as_procs = (\<lambda>_. Resting)(0 := Returned entry0)\<rparr>"

lemma example_before_head_reachable: "append_reachable example_context example_before_head"
proof -
  let ?s1 = "set_proc 0 (ReadingLatest example_params 0) example_start"
  let ?s2 = "set_proc 0 (Creating example_params 0 entry0) ?s1"
  let ?s3 = "set_proc 0 (after_create example_context entry0) (?s2\<lparr>as_rows := [entry0]\<rparr>)"
  have "append_reachable example_context example_start"
    by (rule append_reachable.start) (simp add: fresh_system_def example_start_def)
  then have "append_reachable example_context ?s1"
    by (rule append_reachable.step) (rule append_step.call, simp add: example_start_def)
  then have "append_reachable example_context ?s2"
    by (rule append_reachable.step) (rule append_step.draft [where now = "Some 0"], auto simp: example_start_def example_draft)
  then have "append_reachable example_context ?s3"
    by (rule append_reachable.step) (rule append_step.created, auto simp: example_start_def create_entry_def)
  then have "append_reachable example_context (set_proc 0 (WritingHead entry0 0 (as_head ?s3)) ?s3)"
    by (rule append_reachable.step)
      (rule append_step.head_seen, auto simp: example_start_def after_create_def example_context_def)
  then show ?thesis
    by (simp add: example_before_head_def example_start_def set_proc_def)
qed

lemma example_last_step: "append_step example_context example_before_head example_final"
proof -
  have "append_step example_context example_before_head
      (set_proc 0 (Returned entry0) (example_before_head\<lparr>as_head := Some head0\<rparr>))"
    by (rule append_step.head_written) (auto simp: example_before_head_def write_head_def)
  then show ?thesis
    by (simp add: example_before_head_def example_final_def set_proc_def)
qed

theorem concurrent_appends_verify_witness:
  "verifyChain example_context (as_rows example_final) (as_head example_final) = Inr Valid"
  by (rule concurrent_appends_verify
      [OF append_reachable.step [OF example_before_head_reachable example_last_step] example_crypto_hex])
    (simp add: example_final_def)

theorem head_moves_forward_witness:
  "\<exists>h. as_head example_final = Some h \<and>
       (\<exists>e\<in>set (as_rows example_final). ah_sequence h = ae_sequence e \<and> ah_hash h = ae_hash e) \<and>
       (\<forall>c. as_head example_before_head = Some c \<longrightarrow> ah_sequence c < ah_sequence h)"
  by (rule head_moves_forward [OF example_before_head_reachable example_last_step])
    (simp add: example_final_def example_before_head_def)

end
