(* ===== verification/Plugin_Ui.thy ===== *)
theory Plugin_Ui
  imports Json_Text
begin

text \<open>
  The \<^verbatim>\<open>ui\<close> block of a plugin's manifest (\<^verbatim>\<open>src/src/plugins/PluginUiUtils.ts\<close>): the checks of an app and of a
  navigation entry, the reader of a list of either, and the mount conflicts between plugins. The
  block is untrusted JSON, a \<^typ>\<open>js_value\<close>; an answer is the error message or the checked block. The regular
  expressions are written out as predicates on the parts of the string.
\<close>

section \<open>Patterns\<close>

definition slug_char :: "char \<Rightarrow> bool" where
  "slug_char c \<longleftrightarrow> (let n = (of_char c :: nat) in (97 \<le> n \<and> n \<le> 122) \<or> (48 \<le> n \<and> n \<le> 57))"

definition upper_char :: "char \<Rightarrow> bool" where
  "upper_char c \<longleftrightarrow> (let n = (of_char c :: nat) in 65 \<le> n \<and> n \<le> 90)"

definition SLUG_PATTERN :: "string \<Rightarrow> bool" where
  "SLUG_PATTERN s \<longleftrightarrow> (\<forall>p\<in>set (js_split (CHR ''-'') s). p \<noteq> [] \<and> (\<forall>c\<in>set p. slug_char c))"

definition SLUG_PATH_PATTERN :: "string \<Rightarrow> bool" where
  "SLUG_PATH_PATTERN s \<longleftrightarrow> (case s of [] \<Rightarrow> False | c # r \<Rightarrow> c = CHR ''/'' \<and> (\<forall>p\<in>set (js_split (CHR ''/'') r). SLUG_PATTERN p))"

definition DIR_SEGMENT_PATTERN :: "string \<Rightarrow> bool" where
  "DIR_SEGMENT_PATTERN s \<longleftrightarrow>
     (case s of
        [] \<Rightarrow> False
      | c # r \<Rightarrow> (slug_char c \<or> upper_char c \<or> c = CHR ''_'' \<or> c = CHR ''-'') \<and>
                 (\<forall>d\<in>set r. slug_char d \<or> upper_char d \<or> d = CHR ''_'' \<or> d = CHR ''-'' \<or> d = CHR ''.''))"

definition RESOLVE_FROM_PATTERN :: "string \<Rightarrow> bool" where
  "RESOLVE_FROM_PATTERN s \<longleftrightarrow> SLUG_PATH_PATTERN s \<and> length (js_split (CHR ''/'') (tl s)) \<le> 6"

definition ICON_PATTERN :: "string \<Rightarrow> bool" where
  "ICON_PATTERN s \<longleftrightarrow>
     (case s of
        h # i # u # r \<Rightarrow> h = CHR ''H'' \<and> i = CHR ''i'' \<and> upper_char u \<and> (\<forall>d\<in>set r. slug_char d \<or> upper_char d)
      | _ \<Rightarrow> False)"

definition MAX_PLUGIN_UI_APPS :: nat where
  "MAX_PLUGIN_UI_APPS = 16"

definition MAX_PLUGIN_UI_NAV_ITEMS :: nat where
  "MAX_PLUGIN_UI_NAV_ITEMS = 8"

definition MAX_PLUGIN_UI_LABEL_LENGTH :: nat where
  "MAX_PLUGIN_UI_LABEL_LENGTH = 64"

definition MAX_SLUG_LENGTH :: nat where
  "MAX_SLUG_LENGTH = 64"

definition MAX_PATH_LENGTH :: nat where
  "MAX_PATH_LENGTH = 200"

definition PLUGIN_UI_HOSTS :: "string list" where
  "PLUGIN_UI_HOSTS = [''public'', ''www'', ''admin'', ''escrow'']"

definition RESERVED_PLUGIN_UI_MOUNTS :: "string list" where
  "RESERVED_PLUGIN_UI_MOUNTS =
     [''/api'', ''/assets'', ''/__rapidrest__'', ''/.well-known'', ''/internal'', ''/push'',
      ''/favicon.ico'', ''/fonts'', ''/images'', ''/styles'',
      ''/calendar'', ''/contacts'', ''/messages'', ''/tasks'', ''/settings'', ''/settings/appearance'',
      ''/settings/auto-reply'', ''/settings/blocked-senders'', ''/settings/encryption'', ''/settings/filters'',
      ''/settings/focused-inbox'', ''/settings/labels'', ''/settings/privacy'', ''/settings/profile'',
      ''/settings/read-receipts'', ''/settings/sharing'', ''/settings/signatures'',
      ''/admin'', ''/admin/audit-log'', ''/admin/branding'', ''/admin/data-requests'', ''/admin/diagnostics'',
      ''/admin/distribution-lists'', ''/admin/domains'', ''/admin/encryption-policy'', ''/admin/escrow-scopes'',
      ''/admin/ingest-queue'', ''/admin/mailbox-policy'', ''/admin/mailboxes'', ''/admin/plugins'',
      ''/admin/quarantine'', ''/admin/retention-policy'', ''/admin/setup'', ''/admin/signing-certificates'',
      ''/admin/transport-rules'',
      ''/escrow'', ''/escrow/audit-log'', ''/escrow/matters'']"

text \<open>The segments before an app's own name, per host, and how they read.\<close>

definition MOUNT_BASES :: "string \<Rightarrow> string list list \<times> string" where
  "MOUNT_BASES host =
     (if host = ''public'' then ([[]], ''/<name>'')
      else if host = ''www'' then ([[], [''settings'']], ''/<name> or /settings/<name>'')
      else if host = ''admin'' then ([[''admin'']], ''/admin/<name>'')
      else ([[''escrow'']], ''/escrow/<name>''))"

section \<open>Data\<close>

record PluginUiApp =
  pa_id :: string
  pa_host :: string
  pa_mount :: string
  pa_dir :: string

record PluginUiNavItem =
  ni_id :: string
  ni_label :: string
  ni_href :: string
  ni_icon :: "string option"
  ni_resolveFrom :: "string option"

record PluginUi =
  pu_apps :: "PluginUiApp list option"
  pu_settingsSections :: "PluginUiNavItem list option"
  pu_adminNav :: "PluginUiNavItem list option"
  pu_appRail :: "PluginUiNavItem list option"

record nav_list =
  nl_key :: string
  nl_accepts :: "string list \<Rightarrow> bool"
  nl_rule :: string

definition settings_list :: nav_list where
  "settings_list = \<lparr>nl_key = ''settingsSections'', nl_accepts = (\<lambda>s. length s \<ge> 2 \<and> s ! 0 = ''settings''), nl_rule = ''under /settings/''\<rparr>"

definition admin_list :: nav_list where
  "admin_list = \<lparr>nl_key = ''adminNav'', nl_accepts = (\<lambda>s. length s \<ge> 2 \<and> s ! 0 = ''admin''), nl_rule = ''under /admin/''\<rparr>"

definition rail_list :: nav_list where
  "rail_list = \<lparr>nl_key = ''appRail'', nl_accepts = (\<lambda>s. hd s \<noteq> ''admin'' \<and> hd s \<noteq> ''escrow''), nl_rule = ''outside /admin and /escrow''\<rparr>"

section \<open>Checks\<close>

definition apos :: string where
  "apos = [CHR 0x27]"

definition in_quotes :: "string \<Rightarrow> string" where
  "in_quotes s = apos @ s @ apos"

fun str_val :: "js_value \<Rightarrow> string option" where
  "str_val (JStr s) = Some s"
| "str_val _ = None"

definition isSlug :: "js_value \<Rightarrow> bool" where
  "isSlug v \<longleftrightarrow> (case str_val v of None \<Rightarrow> False | Some s \<Rightarrow> length s \<le> MAX_SLUG_LENGTH \<and> SLUG_PATTERN s)"

definition slugPathSegments :: "js_value \<Rightarrow> string list option" where
  "slugPathSegments v =
     (case str_val v of
        None \<Rightarrow> None
      | Some s \<Rightarrow> if length s \<le> MAX_PATH_LENGTH \<and> SLUG_PATH_PATTERN s then Some (js_split (CHR ''/'') (tl s)) else None)"

definition isPackageDir :: "js_value \<Rightarrow> bool" where
  "isPackageDir v \<longleftrightarrow>
     (case str_val v of
        None \<Rightarrow> False
      | Some s \<Rightarrow> length s \<le> MAX_PATH_LENGTH \<and> (\<forall>p\<in>set (js_split (CHR ''/'') s). DIR_SEGMENT_PATTERN p))"

definition pluginUiMountsOverlap :: "string \<Rightarrow> string \<Rightarrow> bool" where
  "pluginUiMountsOverlap a b \<longleftrightarrow> a = b \<or> prefix (b @ ''/'') a \<or> prefix (a @ ''/'') b"

text \<open>A property of an object, \<^const>\<open>JUndefined\<close> when it has none of that name.\<close>

definition own_prop :: "(string \<times> js_value) list \<Rightarrow> string \<Rightarrow> js_value" where
  "own_prop fs k = (case map_of fs k of None \<Rightarrow> JUndefined | Some v \<Rightarrow> v)"

definition fits_base :: "string list \<Rightarrow> string list \<Rightarrow> bool" where
  "fits_base segments base \<longleftrightarrow> length segments = length base + 1 \<and> take (length base) segments = base"

definition the_str :: "js_value \<Rightarrow> string" where
  "the_str v = (case str_val v of None \<Rightarrow> [] | Some s \<Rightarrow> s)"

fun checkApp :: "js_value \<Rightarrow> PluginUiApp list \<Rightarrow> string + PluginUiApp" where
  "checkApp (JObj app) apps =
     (let appId = the_str (own_prop app ''id'');
          host = the_str (own_prop app ''host'');
          mount = the_str (own_prop app ''mount'') in
      if \<not> isSlug (own_prop app ''id'') then
        Inl (json_stringify (own_prop app ''id'') @ '' isn'' @ apos @ ''t a valid app id (a lowercase slug such as booking-types).'')
      else if \<exists>other\<in>set apps. pa_id other = appId then Inl (in_quotes appId @ '' is declared more than once.'')
      else if own_prop app ''host'' \<notin> JStr ` set PLUGIN_UI_HOSTS then
        Inl (in_quotes appId @ '' has an unknown host '' @ json_stringify (own_prop app ''host'') @ ''. It must be one of: '' @
             js_join '', '' PLUGIN_UI_HOSTS @ ''.'')
      else if \<not> isPackageDir (own_prop app ''dir'') then
        Inl (in_quotes appId @ '' has dir '' @ json_stringify (own_prop app ''dir'') @ '', which isn'' @ apos @
             ''t a relative path inside the package.'')
      else if \<not> (case slugPathSegments (own_prop app ''mount'') of None \<Rightarrow> False
                 | Some segments \<Rightarrow> \<exists>base\<in>set (fst (MOUNT_BASES host)). fits_base segments base) then
        Inl (in_quotes appId @ '' mounts at '' @ json_stringify (own_prop app ''mount'') @ '', but a '' @ host @ '' app must mount at '' @
             snd (MOUNT_BASES host) @ '' (lowercase letters, digits and dashes).'')
      else if mount \<in> set RESERVED_PLUGIN_UI_MOUNTS then
        Inl (in_quotes appId @ '' mounts at '' @ mount @ '', which is reserved for the server'' @ apos @ ''s own pages.'')
      else case find (\<lambda>other. pluginUiMountsOverlap (pa_mount other) mount) apps of
          Some clash \<Rightarrow> Inl (in_quotes appId @ '' mounts at '' @ mount @ '', which overlaps '' @ in_quotes (pa_id clash) @ '' at '' @ pa_mount clash @ ''.'')
        | None \<Rightarrow> Inr \<lparr>pa_id = appId, pa_host = host, pa_mount = mount, pa_dir = the_str (own_prop app ''dir'')\<rparr>)"
| "checkApp _ apps = Inl ''every app needs an id, host, mount and dir.''"

definition optional_str :: "js_value \<Rightarrow> string option" where
  "optional_str v = (if v = JUndefined then None else Some (the_str v))"

fun checkNavItem :: "nav_list \<Rightarrow> js_value \<Rightarrow> PluginUiNavItem list \<Rightarrow> string + PluginUiNavItem" where
  "checkNavItem l (JObj item) items =
     (let itemId = the_str (own_prop item ''id'');
          label = the_str (own_prop item ''label'') in
      if \<not> isSlug (own_prop item ''id'') then
        Inl (json_stringify (own_prop item ''id'') @ '' isn'' @ apos @ ''t a valid entry id (a lowercase slug such as booking-types).'')
      else if \<exists>other\<in>set items. ni_id other = itemId then Inl (in_quotes itemId @ '' is declared more than once.'')
      else if str_val (own_prop item ''label'') = None \<or> js_trim label = [] \<or> length label > MAX_PLUGIN_UI_LABEL_LENGTH then
        Inl (in_quotes itemId @ '' needs a label of 1 to 64 characters.'')
      else if \<not> (case slugPathSegments (own_prop item ''href'') of None \<Rightarrow> False | Some segments \<Rightarrow> nl_accepts l segments) then
        Inl (in_quotes itemId @ '' links to '' @ json_stringify (own_prop item ''href'') @ '', but its href must be a path '' @ nl_rule l @
             '' (lowercase letters, digits and dashes).'')
      else if own_prop item ''icon'' \<noteq> JUndefined \<and>
              (case str_val (own_prop item ''icon'') of None \<Rightarrow> True | Some i \<Rightarrow> length i > MAX_SLUG_LENGTH \<or> \<not> ICON_PATTERN i) then
        Inl (in_quotes itemId @ '' has icon '' @ json_stringify (own_prop item ''icon'') @ '', which isn'' @ apos @
             ''t a react-icons/hi2 icon name such as HiOutlineCalendarDays.'')
      else if own_prop item ''resolveFrom'' \<noteq> JUndefined \<and>
              (nl_key l \<noteq> ''appRail'' \<or> (case str_val (own_prop item ''resolveFrom'') of None \<Rightarrow> True | Some r \<Rightarrow> \<not> RESOLVE_FROM_PATTERN r)) then
        Inl (in_quotes itemId @ '' has resolveFrom '' @ json_stringify (own_prop item ''resolveFrom'') @
             '', which must be an API path such as /mail/video-meetings/personal-room and is only allowed on appRail entries.'')
      else Inr \<lparr>ni_id = itemId, ni_label = label, ni_href = the_str (own_prop item ''href''),
                ni_icon = optional_str (own_prop item ''icon''), ni_resolveFrom = optional_str (own_prop item ''resolveFrom'')\<rparr>)"
| "checkNavItem l _ items = Inl ''every entry needs an id, label and href.''"

section \<open>Lists of entries\<close>

definition this_manifest :: "string \<Rightarrow> string" where
  "this_manifest rest = ''This plugin'' @ apos @ ''s manifest '' @ rest"

fun parse_entries :: "(js_value \<Rightarrow> 'e list \<Rightarrow> string + 'e) \<Rightarrow> 'e list \<Rightarrow> js_value list \<Rightarrow> string + 'e list" where
  "parse_entries check accepted [] = Inr accepted"
| "parse_entries check accepted (v # vs) =
     (case check v accepted of Inl m \<Rightarrow> Inl m | Inr e \<Rightarrow> parse_entries check (accepted @ [e]) vs)"

fun parseList ::
  "js_value \<Rightarrow> string \<Rightarrow> string \<times> string \<Rightarrow> nat \<Rightarrow> (js_value \<Rightarrow> 'e list \<Rightarrow> string + 'e) \<Rightarrow> string + 'e list" where
  "parseList (JArr vs) key (noun, plural) limit check =
     (if length vs > limit then
        Inl (this_manifest (''ui.'' @ key @ '' may list at most '' @ nat_text limit @ '' '' @ plural @ ''.''))
      else case parse_entries check [] vs of
          Inl m \<Rightarrow> Inl (this_manifest (''has an invalid ui.'' @ key @ '' '' @ noun @ '': '' @ m))
        | Inr es \<Rightarrow> Inr es)"
| "parseList _ key _ limit check = Inl (this_manifest (''ui.'' @ key @ '' must be a list.''))"

text \<open>\<^const>\<open>None\<close> for a list the block does not have.\<close>

definition parse_optional ::
  "js_value \<Rightarrow> string \<Rightarrow> string \<times> string \<Rightarrow> nat \<Rightarrow> (js_value \<Rightarrow> 'e list \<Rightarrow> string + 'e) \<Rightarrow> string + 'e list option" where
  "parse_optional v key nouns limit check =
     (if v = JUndefined then Inr None
      else case parseList v key nouns limit check of Inl m \<Rightarrow> Inl m | Inr es \<Rightarrow> Inr (Some es))"

definition parse_nav :: "(string \<times> js_value) list \<Rightarrow> nav_list \<Rightarrow> string + PluginUiNavItem list option" where
  "parse_nav given l = parse_optional (own_prop given (nl_key l)) (nl_key l) (''entry'', ''entries'') MAX_PLUGIN_UI_NAV_ITEMS (checkNavItem l)"

fun parsePluginUi :: "js_value \<Rightarrow> string + PluginUi" where
  "parsePluginUi (JObj given) =
     (case parse_optional (own_prop given ''apps'') ''apps'' (''app'', ''apps'') MAX_PLUGIN_UI_APPS checkApp of
        Inl m \<Rightarrow> Inl m
      | Inr apps \<Rightarrow>
     (case parse_nav given settings_list of
        Inl m \<Rightarrow> Inl m
      | Inr settingsSections \<Rightarrow>
     (case parse_nav given admin_list of
        Inl m \<Rightarrow> Inl m
      | Inr adminNav \<Rightarrow>
     (case parse_nav given rail_list of
        Inl m \<Rightarrow> Inl m
      | Inr appRail \<Rightarrow>
          Inr \<lparr>pu_apps = apps, pu_settingsSections = settingsSections, pu_adminNav = adminNav, pu_appRail = appRail\<rparr>))))"
| "parsePluginUi _ = Inl (this_manifest ''ui must be an object.'')"

section \<open>Conflicts between plugins\<close>

record PluginUiMountConflict =
  mc_name :: string
  mc_mount :: string
  mc_otherName :: string
  mc_otherMount :: string
  mc_message :: string

record mounted_plugin =
  mp_name :: string
  mp_label :: string
  mp_mounts :: "string list"

definition conflict_message :: "string \<Rightarrow> string \<Rightarrow> string \<Rightarrow> string \<Rightarrow> string" where
  "conflict_message label mount otherLabel otherMount =
     (if mount = otherMount then label @ '' and '' @ otherLabel @ '' both serve pages at '' @ mount @ ''.''
      else label @ apos @ ''s pages at '' @ mount @ '' overlap '' @ otherLabel @ apos @ ''s pages at '' @ otherMount @ ''.'')"

text \<open>The claims so far are triples of a plugin's name, its label and one mount.\<close>

definition conflicts_at :: "mounted_plugin \<Rightarrow> (string \<times> string \<times> string) list \<Rightarrow> string \<Rightarrow> PluginUiMountConflict list" where
  "conflicts_at plugin claimed mount =
     map (\<lambda>(otherName, otherLabel, otherMount).
            \<lparr>mc_name = mp_name plugin, mc_mount = mount, mc_otherName = otherName, mc_otherMount = otherMount,
             mc_message = conflict_message (mp_label plugin) mount otherLabel otherMount\<rparr>)
       (filter (\<lambda>(otherName, otherLabel, otherMount). otherName \<noteq> mp_name plugin \<and> pluginUiMountsOverlap mount otherMount) claimed)"

fun mount_conflicts :: "(string \<times> string \<times> string) list \<Rightarrow> mounted_plugin list \<Rightarrow> PluginUiMountConflict list" where
  "mount_conflicts claimed [] = []"
| "mount_conflicts claimed (p # ps) =
     concat (map (conflicts_at p claimed) (mp_mounts p)) @
     mount_conflicts (claimed @ map (\<lambda>m. (mp_name p, mp_label p, m)) (mp_mounts p)) ps"

definition findPluginUiMountConflicts :: "mounted_plugin list \<Rightarrow> PluginUiMountConflict list" where
  "findPluginUiMountConflicts plugins = mount_conflicts [] plugins"

lemma pluginUiMountsOverlap_sym: "pluginUiMountsOverlap a b = pluginUiMountsOverlap b a"
  by (auto simp: pluginUiMountsOverlap_def)

section \<open>The reader of a list, for any check\<close>

text \<open>A check that accepts an entry establishes what \<open>ok\<close> says of it and the entries before it, and accepts the
  entry again once it is written out.\<close>

locale checked_list =
  fixes check :: "js_value \<Rightarrow> 'e list \<Rightarrow> string + 'e"
    and ok :: "'e list \<Rightarrow> 'e \<Rightarrow> bool"
    and render :: "'e \<Rightarrow> js_value"
  assumes check_ok: "check v acc = Inr e \<Longrightarrow> ok acc e"
    and reread: "check v acc = Inr e \<Longrightarrow> check (render e) acc = Inr e"
begin

lemma entries_spec:
  "parse_entries check acc vs = Inr es \<Longrightarrow>
   \<exists>new. es = acc @ new \<and> length new = length vs \<and> (\<forall>i<length new. ok (acc @ take i new) (new ! i)) \<and>
         parse_entries check acc (map render new) = Inr es"
proof (induction vs arbitrary: acc)
  case Nil
  then show ?case by simp
next
  case (Cons v vs)
  then obtain e where e: "check v acc = Inr e" and rest: "parse_entries check (acc @ [e]) vs = Inr es"
    by (auto split: sum.splits)
  from Cons.IH [OF rest] obtain new where new: "es = (acc @ [e]) @ new" "length new = length vs"
      "\<forall>i<length new. ok ((acc @ [e]) @ take i new) (new ! i)"
      "parse_entries check (acc @ [e]) (map render new) = Inr es"
    by blast
  have "\<forall>i<length (e # new). ok (acc @ take i (e # new)) ((e # new) ! i)"
    using new(3) check_ok [OF e] by (auto simp: nth_Cons take_Cons split: nat.splits)
  with new reread [OF e] show ?case
    by (intro exI [of _ "e # new"]) simp
qed

lemma list_spec:
  assumes "parseList v key nouns limit check = Inr es"
  shows "length es \<le> limit" "\<And>i. i < length es \<Longrightarrow> ok (take i es) (es ! i)"
    and "parseList (JArr (map render es)) key nouns limit check = Inr es"
proof -
  obtain vs where vs: "v = JArr vs" "length vs \<le> limit" "parse_entries check [] vs = Inr es"
    using assms by (cases v; cases nouns) (auto split: if_splits sum.splits)
  with entries_spec [OF vs(3)] show "length es \<le> limit" "\<And>i. i < length es \<Longrightarrow> ok (take i es) (es ! i)"
      "parseList (JArr (map render es)) key nouns limit check = Inr es"
    by (cases nouns; auto)+
qed

lemma optional_reread:
  assumes "parse_optional v key nouns limit check = Inr o'"
  shows "parse_optional (case o' of None \<Rightarrow> JUndefined | Some es \<Rightarrow> JArr (map render es)) key nouns limit check = Inr o'"
  using assms list_spec(3) [of v key nouns limit]
  by (auto simp: parse_optional_def split: if_splits sum.splits)

end

section \<open>What an accepted app or entry satisfies\<close>

lemma str_val_Some [simp]: "str_val v = Some s \<longleftrightarrow> v = JStr s"
  by (cases v) auto

lemma the_str_JStr [simp]: "the_str (JStr s) = s"
  by (simp add: the_str_def)

definition app_ok :: "PluginUiApp list \<Rightarrow> PluginUiApp \<Rightarrow> bool" where
  "app_ok apps a \<longleftrightarrow>
     isSlug (JStr (pa_id a)) \<and> pa_id a \<notin> pa_id ` set apps \<and> pa_host a \<in> set PLUGIN_UI_HOSTS \<and> isPackageDir (JStr (pa_dir a)) \<and>
     (\<exists>segments base. slugPathSegments (JStr (pa_mount a)) = Some segments \<and> base \<in> set (fst (MOUNT_BASES (pa_host a))) \<and> fits_base segments base) \<and>
     pa_mount a \<notin> set RESERVED_PLUGIN_UI_MOUNTS \<and> (\<forall>other\<in>set apps. \<not> pluginUiMountsOverlap (pa_mount other) (pa_mount a))"

definition render_app :: "PluginUiApp \<Rightarrow> js_value" where
  "render_app a = JObj [(''id'', JStr (pa_id a)), (''host'', JStr (pa_host a)), (''mount'', JStr (pa_mount a)), (''dir'', JStr (pa_dir a))]"

lemma find_None: "List.find p xs = None \<longleftrightarrow> (\<forall>x\<in>set xs. \<not> p x)"
  by (auto simp: find_None_iff)

lemma isSlug_str: "isSlug v \<Longrightarrow> isSlug (JStr (the_str v))"
  and isPackageDir_str: "isPackageDir v \<Longrightarrow> isPackageDir (JStr (the_str v))"
  and slugPathSegments_str: "slugPathSegments v = Some g \<Longrightarrow> slugPathSegments (JStr (the_str v)) = Some g"
  by (auto simp: isSlug_def isPackageDir_def slugPathSegments_def split: option.splits if_splits)

lemma checkApp_accepts:
  assumes "checkApp v apps = Inr a"
  shows "app_ok apps a"
proof -
  obtain app where v: "v = JObj app"
    using assms by (cases v) auto
  show ?thesis
    using assms unfolding v app_ok_def
    by (auto simp: Let_def find_None image_iff dest: isSlug_str isPackageDir_str split: if_splits option.splits)
      (blast dest: slugPathSegments_str)
qed

lemma checkApp_render:
  assumes "app_ok apps a"
  shows "checkApp (render_app a) apps = Inr a"
proof -
  have "List.find (\<lambda>other. pluginUiMountsOverlap (pa_mount other) (pa_mount a)) apps = None"
    using assms by (simp add: app_ok_def find_None)
  with assms show ?thesis
    by (auto simp: app_ok_def render_app_def own_prop_def Let_def image_iff)
qed

definition nav_ok :: "nav_list \<Rightarrow> PluginUiNavItem list \<Rightarrow> PluginUiNavItem \<Rightarrow> bool" where
  "nav_ok l items e \<longleftrightarrow>
     isSlug (JStr (ni_id e)) \<and> ni_id e \<notin> ni_id ` set items \<and>
     js_trim (ni_label e) \<noteq> [] \<and> length (ni_label e) \<le> MAX_PLUGIN_UI_LABEL_LENGTH \<and>
     (\<exists>segments. slugPathSegments (JStr (ni_href e)) = Some segments \<and> nl_accepts l segments) \<and>
     (\<forall>i. ni_icon e = Some i \<longrightarrow> length i \<le> MAX_SLUG_LENGTH \<and> ICON_PATTERN i) \<and>
     (\<forall>r. ni_resolveFrom e = Some r \<longrightarrow> nl_key l = ''appRail'' \<and> RESOLVE_FROM_PATTERN r)"

definition render_nav :: "PluginUiNavItem \<Rightarrow> js_value" where
  "render_nav e =
     JObj ([(''id'', JStr (ni_id e)), (''label'', JStr (ni_label e)), (''href'', JStr (ni_href e))] @
           (case ni_icon e of None \<Rightarrow> [] | Some i \<Rightarrow> [(''icon'', JStr i)]) @
           (case ni_resolveFrom e of None \<Rightarrow> [] | Some r \<Rightarrow> [(''resolveFrom'', JStr r)]))"

lemma checkNavItem_accepts:
  assumes "checkNavItem l v items = Inr e"
  shows "nav_ok l items e"
proof -
  obtain item where v: "v = JObj item"
    using assms by (cases v) auto
  show ?thesis
    using assms unfolding v nav_ok_def
    by (auto simp: Let_def image_iff optional_str_def dest: isSlug_str slugPathSegments_str split: if_splits option.splits)
qed

lemma checkNavItem_render: "nav_ok l items e \<Longrightarrow> checkNavItem l (render_nav e) items = Inr e"
  by (cases "ni_icon e"; cases "ni_resolveFrom e")
    (auto simp: nav_ok_def render_nav_def own_prop_def Let_def image_iff optional_str_def)

interpretation ui_apps: checked_list checkApp app_ok render_app
  by unfold_locales (auto intro: checkApp_accepts checkApp_render)

interpretation ui_nav: checked_list "checkNavItem l" "nav_ok l" render_nav for l
  by unfold_locales (auto intro: checkNavItem_accepts checkNavItem_render)

section \<open>The block written out and read again\<close>

definition render_list :: "('e \<Rightarrow> js_value) \<Rightarrow> string \<Rightarrow> 'e list option \<Rightarrow> (string \<times> js_value) list" where
  "render_list render key es = (case es of None \<Rightarrow> [] | Some es \<Rightarrow> [(key, JArr (map render es))])"

definition render_ui :: "PluginUi \<Rightarrow> js_value" where
  "render_ui u =
     JObj (render_list render_app ''apps'' (pu_apps u) @
           render_list render_nav ''settingsSections'' (pu_settingsSections u) @
           render_list render_nav ''adminNav'' (pu_adminNav u) @
           render_list render_nav ''appRail'' (pu_appRail u))"

lemma own_prop_append [simp]:
  "own_prop (fs @ gs) k = (if k \<in> fst ` set fs then own_prop fs k else own_prop gs k)"
proof -
  have "k \<in> fst ` set fs \<longleftrightarrow> map_of fs k \<noteq> None"
    by (simp add: map_of_eq_None_iff)
  then show ?thesis
    by (cases "map_of fs k") (auto simp: own_prop_def map_add_def)
qed

lemma render_list_prop [simp]:
  "fst ` set (render_list render key es) = (if es = None then {} else {key})"
  "own_prop (render_list render key es) key = (case es of None \<Rightarrow> JUndefined | Some es \<Rightarrow> JArr (map render es))"
  by (auto simp: render_list_def own_prop_def split: option.splits)

lemma own_prop_render_list: "k \<noteq> key \<Longrightarrow> own_prop (render_list render key es) k = JUndefined"
  by (simp add: render_list_def own_prop_def split: option.split)

lemma render_ui_props:
  assumes "render_ui u = JObj given"
  shows "own_prop given ''apps'' = (case pu_apps u of None \<Rightarrow> JUndefined | Some es \<Rightarrow> JArr (map render_app es))"
    and "own_prop given ''settingsSections'' = (case pu_settingsSections u of None \<Rightarrow> JUndefined | Some es \<Rightarrow> JArr (map render_nav es))"
    and "own_prop given ''adminNav'' = (case pu_adminNav u of None \<Rightarrow> JUndefined | Some es \<Rightarrow> JArr (map render_nav es))"
    and "own_prop given ''appRail'' = (case pu_appRail u of None \<Rightarrow> JUndefined | Some es \<Rightarrow> JArr (map render_nav es))"
  using assms unfolding render_ui_def by (auto simp: own_prop_render_list split: option.splits)

lemma list_keys [simp]:
  "nl_key settings_list = ''settingsSections''" "nl_key admin_list = ''adminNav''" "nl_key rail_list = ''appRail''"
  by (simp_all add: settings_list_def admin_list_def rail_list_def)

lemma parsePluginUiE:
  assumes "parsePluginUi v = Inr u"
  obtains given where "v = JObj given"
    "parse_optional (own_prop given ''apps'') ''apps'' (''app'', ''apps'') MAX_PLUGIN_UI_APPS checkApp = Inr (pu_apps u)"
    "parse_nav given settings_list = Inr (pu_settingsSections u)" "parse_nav given admin_list = Inr (pu_adminNav u)"
    "parse_nav given rail_list = Inr (pu_appRail u)"
proof (cases v)
  case (JObj given)
  with assms that show ?thesis
    by (auto split: sum.splits)
qed (use assms in auto)

text \<open>What the reader accepts is canonical: the checked block, written out as JSON and read again, is
  accepted as it is, on every server that stores it and reads it back.\<close>

theorem parsePluginUi_roundtrip:
  assumes "parsePluginUi v = Inr u"
  shows "parsePluginUi (render_ui u) = Inr u"
proof -
  obtain given' where given': "render_ui u = JObj given'"
    by (simp add: render_ui_def)
  from assms obtain given where
      apps: "parse_optional (own_prop given ''apps'') ''apps'' (''app'', ''apps'') MAX_PLUGIN_UI_APPS checkApp = Inr (pu_apps u)"
      and navs: "parse_nav given settings_list = Inr (pu_settingsSections u)" "parse_nav given admin_list = Inr (pu_adminNav u)"
        "parse_nav given rail_list = Inr (pu_appRail u)"
    by (rule parsePluginUiE)
  have "parse_optional (own_prop given' ''apps'') ''apps'' (''app'', ''apps'') MAX_PLUGIN_UI_APPS checkApp = Inr (pu_apps u)"
    unfolding render_ui_props(1) [OF given'] by (rule ui_apps.optional_reread [OF apps])
  moreover have "parse_nav given' settings_list = Inr (pu_settingsSections u)" "parse_nav given' admin_list = Inr (pu_adminNav u)"
      "parse_nav given' rail_list = Inr (pu_appRail u)"
    using navs ui_nav.optional_reread unfolding parse_nav_def list_keys render_ui_props [OF given'] by blast+
  ultimately show ?thesis
    unfolding given' by simp
qed

section \<open>What an accepted block may serve\<close>

lemma pairwise_of_nth:
  assumes "\<And>i. i < length xs \<Longrightarrow> \<forall>y\<in>set (take i xs). R y (xs ! i)"
  shows "sorted_wrt R xs"
  unfolding sorted_wrt_iff_nth_less
proof (intro allI impI)
  fix i j
  assume "i < j" "j < length xs"
  then have "xs ! i \<in> set (take j xs)"
    by (auto simp: in_set_conv_nth intro!: exI [of _ i])
  with assms \<open>j < length xs\<close> show "R (xs ! i) (xs ! j)"
    by blast
qed

text \<open>A path of one segment, and the two-segment paths under a base.\<close>

lemma slug_path_segments:
  assumes "slugPathSegments (JStr m) = Some segments"
  shows "m = CHR ''/'' # js_join ''/'' segments" "segments \<noteq> []" "\<And>p. p \<in> set segments \<Longrightarrow> SLUG_PATTERN p \<and> CHR ''/'' \<notin> set p"
proof -
  from assms obtain r where r: "m = CHR ''/'' # r" "segments = js_split (CHR ''/'') r" "\<forall>p\<in>set segments. SLUG_PATTERN p"
    by (auto simp: slugPathSegments_def SLUG_PATH_PATTERN_def split: if_splits list.splits)
  then show "m = CHR ''/'' # js_join ''/'' segments" "segments \<noteq> []"
      "\<And>p. p \<in> set segments \<Longrightarrow> SLUG_PATTERN p \<and> CHR ''/'' \<notin> set p"
    by (auto dest: js_split_no_sep)
qed

lemma mount_shape:
  assumes "app_ok apps a"
  obtains p where "CHR ''/'' \<notin> set p" "p \<noteq> []" "pa_mount a = ''/'' @ p" "pa_host a \<in> {''public'', ''www''}"
  | base p where "CHR ''/'' \<notin> set p" "p \<noteq> []" "pa_mount a = base @ ''/'' @ p" "base \<in> {''/settings'', ''/admin'', ''/escrow''}"
      "(base, pa_host a) \<in> {(''/settings'', ''www''), (''/admin'', ''admin''), (''/escrow'', ''escrow'')}"
proof -
  from assms obtain segments base where seg: "slugPathSegments (JStr (pa_mount a)) = Some segments"
      and base: "base \<in> set (fst (MOUNT_BASES (pa_host a)))" "fits_base segments base" and host: "pa_host a \<in> set PLUGIN_UI_HOSTS"
    by (auto simp: app_ok_def)
  note m = slug_path_segments [OF seg]
  have ne: "p \<noteq> []" if "p \<in> set segments" for p
    using m(3) [OF that] by (auto simp: SLUG_PATTERN_def)
  have "segments = base @ drop (length base) segments" "length (drop (length base) segments) = 1"
    using base(2) append_take_drop_id [of "length base" segments] by (simp_all add: fits_base_def)
  then obtain p where p: "segments = base @ [p]"
    by (metis One_nat_def length_0_conv length_Suc_conv)
  then have "p \<noteq> []" "CHR ''/'' \<notin> set p"
    using m(3) ne by auto
  with p m(1) base(1) host that show ?thesis
    by (auto simp: MOUNT_BASES_def PLUGIN_UI_HOSTS_def split: if_splits)
qed

definition segments_of :: "string \<Rightarrow> string list" where
  "segments_of m = js_split (CHR ''/'') (tl m)"

lemma beneath_segments:
  assumes "prefix (b @ ''/'') a" "b \<noteq> []"
  obtains rest where "segments_of a = segments_of b @ rest" "rest \<noteq> []"
proof -
  from assms obtain t where "a = b @ CHR ''/'' # t"
    by (auto simp: prefix_def)
  with assms(2) that [of "js_split (CHR ''/'') t"] show ?thesis
    by (cases b) (simp_all add: segments_of_def js_split_sep)
qed

text \<open>A reserved path has one segment, or is a page under one of the three bases.\<close>

definition reserved_shape :: "string \<Rightarrow> bool" where
  "reserved_shape r \<longleftrightarrow>
     (case r of [] \<Rightarrow> False | c # _ \<Rightarrow> c = CHR ''/'') \<and>
     (case segments_of r of [a] \<Rightarrow> True | [a, b] \<Rightarrow> ''/'' @ a \<in> {''/settings'', ''/admin'', ''/escrow''} | _ \<Rightarrow> False)"

lemma reserved_shapes: "r \<in> set RESERVED_PLUGIN_UI_MOUNTS \<Longrightarrow> reserved_shape r"
proof -
  have "list_all reserved_shape RESERVED_PLUGIN_UI_MOUNTS"
    by code_simp
  then show "r \<in> set RESERVED_PLUGIN_UI_MOUNTS \<Longrightarrow> reserved_shape r"
    by (simp add: list_all_iff)
qed

lemma bases_reserved: "{''/settings'', ''/admin'', ''/escrow''} \<subseteq> set RESERVED_PLUGIN_UI_MOUNTS"
  by (simp add: RESERVED_PLUGIN_UI_MOUNTS_def)

lemma split_one [simp]: "c \<notin> set p \<Longrightarrow> js_split c p = [p]"
  by (rule js_split_absent)

text \<open>An accepted mount meets a reserved page only as a page of its own under the base of its host.\<close>

lemma mount_reserved:
  assumes ok: "app_ok apps a" and r: "r \<in> set RESERVED_PLUGIN_UI_MOUNTS" and overlap: "pluginUiMountsOverlap (pa_mount a) r"
  shows "(r, pa_host a) \<in> {(''/settings'', ''www''), (''/admin'', ''admin''), (''/escrow'', ''escrow'')}"
proof -
  have free: "pa_mount a \<notin> set RESERVED_PLUGIN_UI_MOUNTS"
    using ok by (simp add: app_ok_def)
  have shape: "reserved_shape r" and "r \<noteq> []"
    using reserved_shapes [OF r] by (auto simp: reserved_shape_def)
  have beneath: "prefix (r @ ''/'') (pa_mount a) \<or> prefix (pa_mount a @ ''/'') r"
    using overlap free r by (auto simp: pluginUiMountsOverlap_def)
  from ok show ?thesis
  proof (cases rule: mount_shape)
    case (1 p)
    then have one: "segments_of (pa_mount a) = [p]"
      by (simp add: segments_of_def)
    have "segments_of r \<noteq> []"
      by (simp add: segments_of_def)
    then have "\<not> prefix (r @ ''/'') (pa_mount a)"
      using beneath_segments [of r "pa_mount a"] one \<open>r \<noteq> []\<close> by (metis append_eq_Cons_conv append_is_Nil_conv)
    then obtain rest where "segments_of r = [p] @ rest" "rest \<noteq> []"
      using beneath beneath_segments [of "pa_mount a" r] one 1(3) by auto
    then have "pa_mount a \<in> {''/settings'', ''/admin'', ''/escrow''}"
      using shape 1(3) by (auto simp: reserved_shape_def split: list.splits)
    with bases_reserved free show ?thesis
      by blast
  next
    case (2 base p)
    then have two: "segments_of (pa_mount a) = [tl base, p]"
      by (auto simp: segments_of_def)
    have short: "length (segments_of r) \<le> 2"
      using shape by (auto simp: reserved_shape_def split: list.splits)
    have "\<not> prefix (pa_mount a @ ''/'') r"
    proof
      assume "prefix (pa_mount a @ ''/'') r"
      then obtain rest where "segments_of r = [tl base, p] @ rest" "rest \<noteq> []"
        using beneath_segments [of "pa_mount a" r] two 2(3) by auto
      with short show False
        by (cases rest) simp_all
    qed
    then have "prefix (r @ ''/'') (pa_mount a)"
      using beneath by blast
    then obtain rest where "[tl base, p] = segments_of r @ rest" "rest \<noteq> []"
      using beneath_segments [of r "pa_mount a"] two \<open>r \<noteq> []\<close> by metis
    then have "segments_of r = [tl base]"
      by (auto simp: segments_of_def Cons_eq_append_conv)
    then have "tl r = tl base"
      by (metis js_join.simps(2) js_join_split segments_of_def)
    then have "r = base"
      using shape 2(4) by (auto simp: reserved_shape_def split: list.splits)
    with 2(5) show ?thesis
      by simp
  qed
qed

lemma app_ok_earlier:
  assumes "app_ok apps a" "y \<in> set apps"
  shows "pa_id y \<noteq> pa_id a" "\<not> pluginUiMountsOverlap (pa_mount y) (pa_mount a)"
  using assms by (auto simp: app_ok_def image_iff)

lemma dir_segment_start: "DIR_SEGMENT_PATTERN p \<Longrightarrow> p \<noteq> [] \<and> hd p \<noteq> CHR ''.''"
  by (cases p) (auto simp: DIR_SEGMENT_PATTERN_def slug_char_def upper_char_def)

text \<open>C31: What an accepted block may serve. At most 16 apps, with distinct ids and mounts none of which
  is, or lies beneath, another's; none takes over a page of the server, and the only reserved page one
  may lie beneath is the base its host allows; and no directory has a segment starting with a dot, so none
  leaves the package.\<close>

theorem parsePluginUi_safe:
  assumes "parsePluginUi v = Inr u" "pu_apps u = Some apps"
  shows "length apps \<le> MAX_PLUGIN_UI_APPS \<and> distinct (map pa_id apps) \<and>
         sorted_wrt (\<lambda>a b. \<not> pluginUiMountsOverlap (pa_mount a) (pa_mount b)) apps \<and>
         (\<forall>a\<in>set apps.
            (\<forall>r\<in>set RESERVED_PLUGIN_UI_MOUNTS. pluginUiMountsOverlap (pa_mount a) r \<longrightarrow>
               (r, pa_host a) \<in> {(''/settings'', ''www''), (''/admin'', ''admin''), (''/escrow'', ''escrow'')} \<and> r \<noteq> pa_mount a) \<and>
            (\<forall>p\<in>set (js_split (CHR ''/'') (pa_dir a)). p \<noteq> [] \<and> hd p \<noteq> CHR ''.''))"
proof -
  from assms obtain given where
      "parse_optional (own_prop given ''apps'') ''apps'' (''app'', ''apps'') MAX_PLUGIN_UI_APPS checkApp = Inr (Some apps)"
    by (metis parsePluginUiE)
  then have list: "parseList (own_prop given ''apps'') ''apps'' (''app'', ''apps'') MAX_PLUGIN_UI_APPS checkApp = Inr apps"
    by (auto simp: parse_optional_def split: if_splits sum.splits)
  note ok = ui_apps.list_spec(2) [OF list]
  have each: "\<exists>before. app_ok before a" if "a \<in> set apps" for a
    using ok that by (metis in_set_conv_nth)
  have "sorted_wrt (\<lambda>a b. pa_id a \<noteq> pa_id b) apps"
    using app_ok_earlier(1) [OF ok] by (intro pairwise_of_nth) blast
  then have "distinct (map pa_id apps)"
    by (simp add: distinct_conv_nth sorted_wrt_iff_nth_less) (metis linorder_neqE_nat)
  moreover have "sorted_wrt (\<lambda>a b. \<not> pluginUiMountsOverlap (pa_mount a) (pa_mount b)) apps"
    using app_ok_earlier(2) [OF ok] by (intro pairwise_of_nth) blast
  moreover have "p \<noteq> [] \<and> hd p \<noteq> CHR ''.''" if "a \<in> set apps" "p \<in> set (js_split (CHR ''/'') (pa_dir a))" for a p
    using each [OF that(1)] that(2)
    by (auto simp: app_ok_def isPackageDir_def dest: dir_segment_start)
  moreover have "r \<noteq> pa_mount a" if "a \<in> set apps" "r \<in> set RESERVED_PLUGIN_UI_MOUNTS" for a r
    using each [OF that(1)] that(2) by (auto simp: app_ok_def)
  ultimately show ?thesis
    using ui_apps.list_spec(1) [OF list] each mount_reserved by metis
qed

section \<open>The conflicts reported\<close>

definition conflict_key :: "PluginUiMountConflict \<Rightarrow> string \<times> string \<times> string \<times> string" where
  "conflict_key c = (mc_name c, mc_mount c, mc_otherName c, mc_otherMount c)"

definition claims_of :: "mounted_plugin list \<Rightarrow> (string \<times> string) set" where
  "claims_of ps = {(mp_name p, m) | p m. p \<in> set ps \<and> m \<in> set (mp_mounts p)}"

definition claim_set :: "(string \<times> string \<times> string) list \<Rightarrow> (string \<times> string) set" where
  "claim_set claimed = {(n, m). \<exists>l. (n, l, m) \<in> set claimed}"

lemma claims_of_decomp: "(n, m) \<in> claims_of ps \<longleftrightarrow> (\<exists>pre q mid. ps = pre @ q # mid \<and> n = mp_name q \<and> m \<in> set (mp_mounts q))"
  by (auto simp: claims_of_def in_set_conv_decomp)

lemma conflicts_at_keys:
  "conflict_key ` set (conflicts_at p claimed m) =
     {(mp_name p, m, otherName, otherMount) | otherName otherMount.
        (otherName, otherMount) \<in> claim_set claimed \<and> otherName \<noteq> mp_name p \<and> pluginUiMountsOverlap m otherMount}"
  by (force simp: conflicts_at_def conflict_key_def image_iff claim_set_def)

lemma mount_conflicts_keys:
  "conflict_key ` set (mount_conflicts claimed ps) =
     {(mp_name p, m, otherName, otherMount) | pre p post m otherName otherMount.
        ps = pre @ p # post \<and> m \<in> set (mp_mounts p) \<and> otherName \<noteq> mp_name p \<and> pluginUiMountsOverlap m otherMount \<and>
        (otherName, otherMount) \<in> claim_set claimed \<union> claims_of pre}"
proof (induction ps arbitrary: claimed)
  case Nil
  then show ?case by simp
next
  case (Cons q ps)
  have claims: "claim_set (claimed @ map (\<lambda>m. (mp_name q, mp_label q, m)) (mp_mounts q)) \<union> claims_of pre =
      claim_set claimed \<union> claims_of (q # pre)" for pre
    by (auto simp: claims_of_def claim_set_def)
  have here: "conflict_key ` set (concat (map (conflicts_at q claimed) (mp_mounts q))) =
      {(mp_name q, m, otherName, otherMount) | m otherName otherMount. m \<in> set (mp_mounts q) \<and> otherName \<noteq> mp_name q \<and>
         pluginUiMountsOverlap m otherMount \<and> (otherName, otherMount) \<in> claim_set claimed \<union> claims_of []}"
    by (simp add: image_UN conflicts_at_keys) (auto simp: claims_of_def)
  show ?case
    unfolding mount_conflicts.simps set_append image_Un here Cons.IH claims
    by (simp only: Cons_eq_append_conv) blast
qed

text \<open>The conflicts reported are exactly the pairs of mounts of two differently named plugins that are the
  same path or one beneath the other, each under the name of the plugin listed later.\<close>

theorem findPluginUiMountConflicts_exact:
  "conflict_key ` set (findPluginUiMountConflicts plugins) =
     {(mp_name p, m, mp_name q, n) | pre q mid p post m n.
        plugins = pre @ q # mid @ p # post \<and> mp_name q \<noteq> mp_name p \<and> m \<in> set (mp_mounts p) \<and> n \<in> set (mp_mounts q) \<and>
        pluginUiMountsOverlap m n}" (is "?L = ?R")
proof -
  have "?L = {(mp_name p, m, otherName, otherMount) | pre p post m otherName otherMount.
        plugins = pre @ p # post \<and> m \<in> set (mp_mounts p) \<and> otherName \<noteq> mp_name p \<and> pluginUiMountsOverlap m otherMount \<and>
        (otherName, otherMount) \<in> claims_of pre}"
    by (simp add: findPluginUiMountConflicts_def mount_conflicts_keys claim_set_def)
  also have "\<dots> = ?R"
  proof (intro set_eqI iffI)
    fix x
    assume "x \<in> {(mp_name p, m, otherName, otherMount) | pre p post m otherName otherMount.
        plugins = pre @ p # post \<and> m \<in> set (mp_mounts p) \<and> otherName \<noteq> mp_name p \<and> pluginUiMountsOverlap m otherMount \<and>
        (otherName, otherMount) \<in> claims_of pre}"
    then obtain p post m n pre q mid where "x = (mp_name p, m, mp_name q, n)" "plugins = (pre @ q # mid) @ p # post"
        "m \<in> set (mp_mounts p)" "mp_name q \<noteq> mp_name p" "pluginUiMountsOverlap m n" "n \<in> set (mp_mounts q)"
      by (auto simp: claims_of_decomp)
    then show "x \<in> ?R"
      unfolding mem_Collect_eq by (intro exI [of _ pre] exI [of _ q] exI [of _ mid] exI [of _ p] exI [of _ post]) auto
  next
    fix x
    assume "x \<in> ?R"
    then obtain pre q mid p post m n where x: "x = (mp_name p, m, mp_name q, n)" "plugins = pre @ q # mid @ p # post"
        "m \<in> set (mp_mounts p)" "mp_name q \<noteq> mp_name p" "pluginUiMountsOverlap m n" "n \<in> set (mp_mounts q)"
      by auto
    then have "(mp_name q, n) \<in> claims_of (pre @ q # mid)"
      by (auto simp: claims_of_def)
    with x show "x \<in> {(mp_name p, m, otherName, otherMount) | pre p post m otherName otherMount.
        plugins = pre @ p # post \<and> m \<in> set (mp_mounts p) \<and> otherName \<noteq> mp_name p \<and> pluginUiMountsOverlap m otherMount \<and>
        (otherName, otherMount) \<in> claims_of pre}"
      unfolding mem_Collect_eq by (intro exI [of _ "pre @ q # mid"] exI [of _ p] exI [of _ post]) auto
  qed
  finally show ?thesis .
qed

definition example_ui :: js_value where
  "example_ui = JObj [(''apps'', JArr [JObj [(''id'', JStr ''book''), (''host'', JStr ''public''), (''mount'', JStr ''/book''), (''dir'', JStr ''apps/book'')],
     JObj [(''id'', JStr ''types''), (''host'', JStr ''www''), (''mount'', JStr ''/settings/types''), (''dir'', JStr ''apps/types'')]])]"

definition example_ui_read :: PluginUi where
  "example_ui_read = \<lparr>pu_apps = Some [\<lparr>pa_id = ''book'', pa_host = ''public'', pa_mount = ''/book'', pa_dir = ''apps/book''\<rparr>,
      \<lparr>pa_id = ''types'', pa_host = ''www'', pa_mount = ''/settings/types'', pa_dir = ''apps/types''\<rparr>],
     pu_settingsSections = None, pu_adminNav = None, pu_appRail = None\<rparr>"

lemma example_ui_accepted: "parsePluginUi example_ui = Inr example_ui_read"
  by code_simp

theorem parsePluginUi_roundtrip_witness: "parsePluginUi (render_ui example_ui_read) = Inr example_ui_read"
  by (rule parsePluginUi_roundtrip [OF example_ui_accepted])

theorem parsePluginUi_safe_witness:
  "distinct (map pa_id (the (pu_apps example_ui_read))) \<and> length (the (pu_apps example_ui_read)) \<le> MAX_PLUGIN_UI_APPS"
  using parsePluginUi_safe [OF example_ui_accepted, of "the (pu_apps example_ui_read)"] by (simp add: example_ui_read_def)

end
