(* ===== verification/Plugin_Dependencies.thy ===== *)
theory Plugin_Dependencies
  imports Plugin_Ui "HOL-Library.Multiset"
begin

text \<open>
  The plugin dependency planner (\<^verbatim>\<open>src/src/plugins/PluginDependencies.ts\<close>): what adding a plugin or changing
  its version takes, the unmet requirements and the dependents of a plugin, the load order and the pruning
  of plugins whose requirements are not loaded. The \<^verbatim>\<open>semver\<close> package and the plugin registry are
  parameters. A JavaScript \<^verbatim>\<open>Map\<close> or object is the list of its entries in insertion order. The planner follows
  the requirements of whatever the registry publishes, so its recursion carries a fuel; so does the load
  order, whose fuel is shown to be enough.
\<close>

section \<open>Data\<close>

record semver =
  sv_valid :: "string \<Rightarrow> bool"
  sv_clean :: "string \<Rightarrow> string option"
  sv_satisfies :: "string \<Rightarrow> string \<Rightarrow> bool"
  sv_maxSatisfying :: "string list \<Rightarrow> string \<Rightarrow> string option"

record PluginSettingDefinition =
  st_key :: string
  st_label :: string
  st_required :: bool
  st_default :: js_value

record PluginManifest =
  pm_displayName :: "string option"
  pm_settings :: "PluginSettingDefinition list option"
  pm_requires :: "(string \<times> string) list option"
  pm_ui :: "PluginUi option"

record PlannerInstalledPlugin =
  pi_name :: string
  pi_packageVersion :: string
  pi_enabled :: bool
  pi_removed :: bool
  pi_manifest :: "PluginManifest option"
  pi_settings :: "(string \<times> js_value) list option"

record PlannerPackageVersion =
  pv_version :: string
  pv_integrity :: "string option"
  pv_manifest :: "string + PluginManifest"

record PlannerRegistry =
  reg_versions :: "string \<Rightarrow> string list option"
  reg_version :: "string \<Rightarrow> string \<Rightarrow> PlannerPackageVersion option"

record PlannedPluginChange =
  ch_name :: string
  ch_version :: string
  ch_manifest :: PluginManifest

record PlannedPluginInstall =
  in_name :: string
  in_version :: string
  in_integrity :: "string option"
  in_manifest :: PluginManifest

record PluginChangePlan =
  pl_install :: "PlannedPluginInstall list"
  pl_enable :: "string list"
  pl_conflicts :: "string list"

record PluginRequirementNode =
  rn_name :: string
  rn_version :: string
  rn_manifest :: "PluginManifest option"

definition empty_manifest :: PluginManifest where
  "empty_manifest = \<lparr>pm_displayName = None, pm_settings = None, pm_requires = None, pm_ui = None\<rparr>"

text \<open>\<^verbatim>\<open>map.set(k, v)\<close>: in place, or at the end.\<close>

fun map_set :: "('k \<times> 'v) list \<Rightarrow> 'k \<Rightarrow> 'v \<Rightarrow> ('k \<times> 'v) list" where
  "map_set [] k v = [(k, v)]"
| "map_set ((k', v') # m) k v = (if k' = k then (k', v) # m else (k', v') # map_set m k v)"

definition js_map :: "('k \<times> 'v) list \<Rightarrow> ('k \<times> 'v) list" where
  "js_map es = foldl (\<lambda>m (k, v). map_set m k v) [] es"

section \<open>Requirements\<close>

definition requiresOf :: "PluginManifest option \<Rightarrow> (string \<times> string) list" where
  "requiresOf m = (case m of None \<Rightarrow> [] | Some m \<Rightarrow> nullish (pm_requires m))"

definition requiredRange :: "PluginManifest option \<Rightarrow> string \<Rightarrow> string option" where
  "requiredRange m name = map_of (requiresOf m) name"

definition isExactVersion :: "semver \<Rightarrow> string \<Rightarrow> bool" where
  "isExactVersion sv version \<longleftrightarrow> sv_valid sv version \<and> sv_clean sv version = Some version"

definition satisfies :: "semver \<Rightarrow> string \<Rightarrow> string \<Rightarrow> bool" where
  "satisfies sv version wanted \<longleftrightarrow> isExactVersion sv version \<and> sv_satisfies sv version wanted"

definition missingRequiredSettings :: "PluginManifest option \<Rightarrow> (string \<times> js_value) list \<Rightarrow> PluginSettingDefinition list" where
  "missingRequiredSettings m given =
     filter (\<lambda>s. st_required s \<and> st_default s = JUndefined \<and>
               (case map_of given (st_key s) of None \<Rightarrow> True | Some v \<Rightarrow> v \<in> {JUndefined, JNull, JStr []}))
       (case m of None \<Rightarrow> [] | Some m \<Rightarrow> nullish (pm_settings m))"

definition missingSettingsConflict :: "string \<Rightarrow> PluginManifest option \<Rightarrow> (string \<times> js_value) list \<Rightarrow> string option" where
  "missingSettingsConflict label m given =
     (let missing = map st_label (missingRequiredSettings m given) in
      if missing \<noteq> [] then Some (label @ '' requires settings: '' @ js_join '', '' missing @ ''.'') else None)"

definition display_name :: "PluginManifest option \<Rightarrow> string option" where
  "display_name m = (case m of None \<Rightarrow> None | Some m \<Rightarrow> pm_displayName m)"

definition plugin_label :: "(string \<times> PlannerInstalledPlugin) list \<Rightarrow> string \<Rightarrow> PluginManifest option \<Rightarrow> string" where
  "plugin_label rows name m =
     (case display_name m of
        Some l \<Rightarrow> l
      | None \<Rightarrow> (case Option.bind (map_of rows name) (\<lambda>row. display_name (pi_manifest row)) of Some l \<Rightarrow> l | None \<Rightarrow> name))"

section \<open>Planning a change\<close>

record plan_state =
  ps_planned :: "(string \<times> string) list"
  ps_install :: "PlannedPluginInstall list"
  ps_enable :: "string list"
  ps_conflicts :: "string list"

record planner =
  pr_semver :: semver
  pr_registry :: PlannerRegistry
  pr_allowed :: "string \<Rightarrow> bool"
  pr_rows :: "(string \<times> PlannerInstalledPlugin) list"

definition add_conflict :: "string \<Rightarrow> plan_state \<Rightarrow> plan_state" where
  "add_conflict m st = st\<lparr>ps_conflicts := ps_conflicts st @ [m]\<rparr>"

definition plan_name :: "string \<Rightarrow> string \<Rightarrow> plan_state \<Rightarrow> plan_state" where
  "plan_name name version st = st\<lparr>ps_planned := map_set (ps_planned st) name version\<rparr>"

text \<open>What one requirement leads to: it is settled, or the dependency is visited and then enabled or installed.\<close>

datatype dependency_finish = Enabling string | Installing PlannedPluginInstall

datatype resolution = Settled plan_state | Enter plan_state PluginManifest dependency_finish

fun finish_dependency :: "dependency_finish \<Rightarrow> plan_state \<Rightarrow> plan_state" where
  "finish_dependency (Enabling name) st = st\<lparr>ps_enable := ps_enable st @ [name]\<rparr>"
| "finish_dependency (Installing i) st = st\<lparr>ps_install := ps_install st @ [i]\<rparr>"

definition resolve_installed ::
  "planner \<Rightarrow> string \<Rightarrow> string \<Rightarrow> string \<Rightarrow> PlannerInstalledPlugin \<Rightarrow> plan_state \<Rightarrow> resolution" where
  "resolve_installed pr requirer dependency wanted row st =
     (if \<not> satisfies (pr_semver pr) (pi_packageVersion row) wanted then
        Settled (add_conflict (requirer @ '' requires '' @ plugin_label (pr_rows pr) dependency None @ '' '' @ wanted @ '', but '' @
          pi_packageVersion row @ '' is installed.'') st)
      else if pi_enabled row then Settled st
      else if \<not> pr_allowed pr dependency then
        Settled (add_conflict (requirer @ '' requires '' @ dependency @ '', which isn'' @ apos @ ''t an allowed plugin package on this server.'') st)
      else case missingSettingsConflict (plugin_label (pr_rows pr) dependency None) (pi_manifest row) (nullish (pi_settings row)) of
          Some m \<Rightarrow> Settled (add_conflict m st)
        | None \<Rightarrow> Enter (plan_name dependency (pi_packageVersion row) st)
                    (case pi_manifest row of None \<Rightarrow> empty_manifest | Some m \<Rightarrow> m) (Enabling dependency))"

definition resolve_published :: "planner \<Rightarrow> string \<Rightarrow> string \<Rightarrow> string \<Rightarrow> plan_state \<Rightarrow> resolution" where
  "resolve_published pr requirer dependency wanted st =
     (if \<not> pr_allowed pr dependency then
        Settled (add_conflict (requirer @ '' requires '' @ dependency @ '', which isn'' @ apos @ ''t an allowed plugin package on this server.'') st)
      else case reg_versions (pr_registry pr) dependency of
        None \<Rightarrow> Settled (add_conflict (requirer @ '' requires '' @ dependency @ '', which isn'' @ apos @ ''t in the plugin registry.'') st)
      | Some versions \<Rightarrow>
          (let best = sv_maxSatisfying (pr_semver pr) (filter (isExactVersion (pr_semver pr)) versions) wanted in
           case (if best = None \<or> best = Some [] then None else reg_version (pr_registry pr) dependency (the best)) of
             None \<Rightarrow> Settled (add_conflict (requirer @ '' requires '' @ dependency @ '' '' @ wanted @ '', but no published version satisfies it.'') st)
           | Some found \<Rightarrow>
               (case pv_manifest found of
                  Inl problem \<Rightarrow>
                    Settled (add_conflict (requirer @ '' requires '' @ dependency @ '', which can'' @ apos @ ''t be installed: '' @ problem) st)
                | Inr m \<Rightarrow>
                    (case missingSettingsConflict (case pm_displayName m of None \<Rightarrow> ''undefined'' | Some l \<Rightarrow> l) (Some m) [] of
                       Some c \<Rightarrow> Settled (add_conflict c st)
                     | None \<Rightarrow>
                         Enter (plan_name dependency (pv_version found) st) m
                           (Installing \<lparr>in_name = dependency, in_version = pv_version found, in_integrity = pv_integrity found, in_manifest = m\<rparr>)))))"

definition resolve :: "planner \<Rightarrow> string \<Rightarrow> PluginManifest \<Rightarrow> string list \<Rightarrow> string \<Rightarrow> string \<Rightarrow> plan_state \<Rightarrow> resolution" where
  "resolve pr name m path dependency wanted st =
     (let requirer = plugin_label (pr_rows pr) name (Some m) in
      if dependency \<in> set path then
        Settled (add_conflict (js_join '' requires '' (path @ [dependency]) @ '', which is a circular requirement.'') st)
      else case map_of (ps_planned st) dependency of
        Some version \<Rightarrow>
          Settled (if satisfies (pr_semver pr) version wanted then st
                   else add_conflict (requirer @ '' requires '' @ dependency @ '' '' @ wanted @ '', but '' @ version @ '' is being installed.'') st)
      | None \<Rightarrow>
          (case map_of (pr_rows pr) dependency of
             Some row \<Rightarrow> resolve_installed pr requirer dependency wanted row st
           | None \<Rightarrow> resolve_published pr requirer dependency wanted st))"

text \<open>\<^const>\<open>None\<close>: the fuel, a bound on the length of a path of requirements, ran out.\<close>

function visit_requirements ::
  "nat \<Rightarrow> planner \<Rightarrow> string \<Rightarrow> PluginManifest \<Rightarrow> string list \<Rightarrow> (string \<times> string) list \<Rightarrow> plan_state \<Rightarrow> plan_state option" where
  "visit_requirements fuel pr name m path [] st = Some st"
| "visit_requirements fuel pr name m path ((dependency, wanted) # rest) st =
     (case resolve pr name m path dependency wanted st of
        Settled st' \<Rightarrow> visit_requirements fuel pr name m path rest st'
      | Enter st' m' fin \<Rightarrow>
          (case fuel of
             0 \<Rightarrow> None
           | Suc fuel' \<Rightarrow>
               (case visit_requirements fuel' pr dependency m' (path @ [dependency]) (requiresOf (Some m')) st' of
                  None \<Rightarrow> None
                | Some st'' \<Rightarrow> visit_requirements fuel pr name m path rest (finish_dependency fin st''))))"
  by pat_completeness auto
termination
  by (relation "(\<lambda>(fuel, _, _, _, _, reqs, _). fuel) <*mlex*> measure (\<lambda>(_, _, _, _, _, reqs, _). length reqs)")
    (auto simp: wf_mlex mlex_less mlex_leq)

definition installed_rows :: "PlannerInstalledPlugin list \<Rightarrow> (string \<times> PlannerInstalledPlugin) list" where
  "installed_rows installed = js_map (map (\<lambda>row. (pi_name row, row)) (filter (\<lambda>row. \<not> pi_removed row) installed))"

text \<open>The conflicts of the enabled plugins that require the changed one.\<close>

definition dependents_conflicts :: "semver \<Rightarrow> (string \<times> PlannerInstalledPlugin) list \<Rightarrow> PlannedPluginChange \<Rightarrow> string list" where
  "dependents_conflicts sv rows change =
     concat (map (\<lambda>(_, row).
       case requiredRange (pi_manifest row) (ch_name change) of
         None \<Rightarrow> []
       | Some wanted \<Rightarrow>
           if pi_name row \<noteq> ch_name change \<and> pi_enabled row \<and> \<not> satisfies sv (ch_version change) wanted
           then [plugin_label rows (pi_name row) None @ '' requires '' @ ch_name change @ '' '' @ wanted @ '', which '' @ ch_version change @
                 '' doesn'' @ apos @ ''t satisfy.'']
           else []) rows)"

definition mounted :: "string \<Rightarrow> PluginManifest option \<Rightarrow> mounted_plugin" where
  "mounted name m =
     \<lparr>mp_name = name, mp_label = (case display_name m of None \<Rightarrow> name | Some l \<Rightarrow> l),
      mp_mounts = (case m of None \<Rightarrow> [] | Some m \<Rightarrow> (case pm_ui m of None \<Rightarrow> [] | Some u \<Rightarrow> map pa_mount (nullish (pu_apps u))))\<rparr>"

definition changed_names :: "PlannedPluginChange \<Rightarrow> plan_state \<Rightarrow> string list" where
  "changed_names change st = ch_name change # map in_name (ps_install st) @ ps_enable st"

text \<open>What would be enabled afterwards: the rest, then what is installed and enabled, then the changed plugin.\<close>

definition mounted_after :: "(string \<times> PlannerInstalledPlugin) list \<Rightarrow> PlannedPluginChange \<Rightarrow> plan_state \<Rightarrow> mounted_plugin list" where
  "mounted_after rows change st =
     map (\<lambda>(_, row). mounted (pi_name row) (pi_manifest row))
       (filter (\<lambda>(_, row). pi_enabled row \<and> pi_name row \<notin> set (changed_names change st)) rows) @
     map (\<lambda>i. mounted (in_name i) (Some (in_manifest i))) (ps_install st) @
     map (\<lambda>name. mounted name (Option.bind (map_of rows name) pi_manifest)) (ps_enable st) @
     [mounted (ch_name change) (Some (ch_manifest change))]"

definition planPluginChange ::
  "nat \<Rightarrow> semver \<Rightarrow> PlannerRegistry \<Rightarrow> (string \<Rightarrow> bool) \<Rightarrow> PlannerInstalledPlugin list \<Rightarrow> PlannedPluginChange \<Rightarrow> PluginChangePlan option" where
  "planPluginChange fuel sv registry allowed installed change =
     (let rows = installed_rows installed;
          pr = \<lparr>pr_semver = sv, pr_registry = registry, pr_allowed = allowed, pr_rows = rows\<rparr>;
          start = \<lparr>ps_planned = [(ch_name change, ch_version change)], ps_install = [], ps_enable = [],
                   ps_conflicts = dependents_conflicts sv rows change\<rparr> in
      map_option (\<lambda>st.
        \<lparr>pl_install = ps_install st, pl_enable = ps_enable st,
         pl_conflicts = ps_conflicts st @
           map mc_message (filter (\<lambda>c. mc_name c \<in> set (changed_names change st)) (findPluginUiMountConflicts (mounted_after rows change st)))\<rparr>)
        (visit_requirements fuel pr (ch_name change) (ch_manifest change) [ch_name change] (requiresOf (Some (ch_manifest change))) start))"

section \<open>Unmet requirements and dependents\<close>

definition unmet_of :: "semver \<Rightarrow> string list option \<Rightarrow> (string \<times> PlannerInstalledPlugin) list \<Rightarrow> PlannerInstalledPlugin \<Rightarrow> string list" where
  "unmet_of sv names enabled row =
     (let label = (\<lambda>r. case display_name (pi_manifest r) of None \<Rightarrow> pi_name r | Some l \<Rightarrow> l) in
      concat (map (\<lambda>(dependency, wanted).
        if (case names of None \<Rightarrow> False | Some ns \<Rightarrow> pi_name row \<notin> set ns \<and> dependency \<notin> set ns) then []
        else case map_of enabled dependency of
            None \<Rightarrow> [label row @ '' requires '' @ dependency @ '' '' @ wanted @ '', which isn'' @ apos @ ''t enabled.'']
          | Some required \<Rightarrow>
              if \<not> satisfies sv (pi_packageVersion required) wanted
              then [label row @ '' requires '' @ label required @ '' '' @ wanted @ '', but '' @ pi_packageVersion required @ '' is installed.'']
              else []) (requiresOf (pi_manifest row))))"

definition findUnmetRequirements :: "semver \<Rightarrow> PlannerInstalledPlugin list \<Rightarrow> string list option \<Rightarrow> string list" where
  "findUnmetRequirements sv installed involving =
     (let enabled = js_map (map (\<lambda>row. (pi_name row, row)) (filter (\<lambda>row. pi_enabled row \<and> \<not> pi_removed row) installed)) in
      concat (map (\<lambda>(_, row). unmet_of sv involving enabled row) enabled))"

definition findDependents :: "PlannerInstalledPlugin list \<Rightarrow> string \<Rightarrow> PlannerInstalledPlugin list" where
  "findDependents installed name =
     filter (\<lambda>row. pi_enabled row \<and> \<not> pi_removed row \<and> pi_name row \<noteq> name \<and> requiredRange (pi_manifest row) name \<noteq> None) installed"

section \<open>Load order\<close>

text \<open>The depth-first visit: the names seen and the plugins ordered so far. A path of the visit meets a new name at
  every step, so the number of plugins bounds its depth.\<close>

function order_visit ::
  "nat \<Rightarrow> (string \<times> PluginRequirementNode) list \<Rightarrow> PluginRequirementNode list \<Rightarrow> string list \<times> PluginRequirementNode list \<Rightarrow>
   (string list \<times> PluginRequirementNode list) option" where
  "order_visit fuel byName [] st = Some st"
| "order_visit fuel byName (p # ps) (seen, ordered) =
     (if rn_name p \<in> set seen then order_visit fuel byName ps (seen, ordered)
      else (case fuel of
          0 \<Rightarrow> None
        | Suc fuel' \<Rightarrow>
            (case order_visit fuel' byName (List.map_filter (\<lambda>(d, _). map_of byName d) (requiresOf (rn_manifest p)))
                   (seen @ [rn_name p], ordered) of
               None \<Rightarrow> None
             | Some (seen', ordered') \<Rightarrow> order_visit fuel byName ps (seen', ordered' @ [p]))))"
  by pat_completeness auto
termination
  by (relation "(\<lambda>(fuel, _, _, _). fuel) <*mlex*> measure (\<lambda>(_, _, ps, _). length ps)") (auto simp: wf_mlex mlex_less mlex_leq)

definition orderByDependencies :: "PluginRequirementNode list \<Rightarrow> PluginRequirementNode list option" where
  "orderByDependencies plugins =
     map_option snd (order_visit (length plugins) (js_map (map (\<lambda>p. (rn_name p, p)) plugins)) plugins ([], []))"

section \<open>Pruning\<close>

text \<open>The first requirement of a plugin that the versions at hand do not meet.\<close>

definition first_unmet :: "semver \<Rightarrow> (string \<times> string) list \<Rightarrow> PluginRequirementNode \<Rightarrow> string option" where
  "first_unmet sv versions p =
     map_option (\<lambda>(dependency, wanted).
         ''It requires '' @ dependency @ '' '' @ wanted @ '', '' @
         (case map_of versions dependency of None \<Rightarrow> ''which isn'' @ apos @ ''t loaded'' | Some v \<Rightarrow> ''but '' @ v @ '' is loaded'') @ ''.'')
       (List.find (\<lambda>(dependency, wanted). case map_of versions dependency of None \<Rightarrow> True | Some v \<Rightarrow> \<not> satisfies sv v wanted)
         (requiresOf (rn_manifest p)))"

definition node_versions :: "PluginRequirementNode list \<Rightarrow> (string \<times> string) list" where
  "node_versions kept = js_map (map (\<lambda>p. (rn_name p, rn_version p)) kept)"

definition prune_round :: "semver \<Rightarrow> PluginRequirementNode list \<Rightarrow> PluginRequirementNode list \<times> (string \<times> string) list" where
  "prune_round sv kept =
     (filter (\<lambda>p. first_unmet sv (node_versions kept) p = None) kept,
      List.map_filter (\<lambda>p. map_option (\<lambda>m. (rn_name p, m)) (first_unmet sv (node_versions kept) p)) kept)"

function prune_loop :: "semver \<Rightarrow> PluginRequirementNode list \<Rightarrow> (string \<times> string) list \<Rightarrow> PluginRequirementNode list \<times> (string \<times> string) list" where
  "prune_loop sv kept dropped =
     (case prune_round sv kept of (survivors, gone) \<Rightarrow>
        if length survivors = length kept then (kept, dropped @ gone) else prune_loop sv survivors (dropped @ gone))"
  by pat_completeness auto
termination
proof (relation "measure (\<lambda>(_, kept, _). length kept)")
  show "wf (measure (\<lambda>(_, kept, _). length kept))"
    by simp
next
  fix sv kept dropped survivors gone
  assume "(survivors, gone) = prune_round sv kept" "length survivors \<noteq> length kept"
  then have "length survivors < length kept"
    by (simp add: prune_round_def) (metis length_filter_le nat_less_le)
  then show "((sv, survivors, dropped @ gone), sv, kept, dropped) \<in> measure (\<lambda>(_, kept, _). length kept)"
    by simp
qed

declare prune_loop.simps [simp del]

definition pruneUnmetRequirements :: "semver \<Rightarrow> PluginRequirementNode list \<Rightarrow> PluginRequirementNode list \<times> (string \<times> string) list" where
  "pruneUnmetRequirements sv plugins = prune_loop sv plugins []"

section \<open>Maps\<close>

lemma map_of_map_set [simp]: "map_of (map_set m k v) = (map_of m)(k \<mapsto> v)"
  by (induction m k v rule: map_set.induct) (auto simp: fun_eq_iff)

lemma fst_map_set: "fst ` set (map_set m k v) = insert k (fst ` set m)"
  by (induction m k v rule: map_set.induct) auto

lemma map_set_new: "k \<notin> fst ` set m \<Longrightarrow> map_set m k v = m @ [(k, v)]"
  by (induction m k v rule: map_set.induct) auto

lemma js_map_distinct: "distinct (map fst es) \<Longrightarrow> js_map es = es"
proof -
  have "foldl (\<lambda>m (k, v). map_set m k v) acc es = acc @ es" if "distinct (map fst (acc @ es))" for acc
    using that
  proof (induction es arbitrary: acc)
    case Nil
    then show ?case by simp
  next
    case (Cons e es)
    then show ?case
      using Cons.IH [of "acc @ [e]"] by (cases e) (auto simp: map_set_new)
  qed
  from this [of "[]"] show "distinct (map fst es) \<Longrightarrow> js_map es = es"
    by (simp add: js_map_def)
qed

lemma js_map_named: "distinct (map f xs) \<Longrightarrow> js_map (map (\<lambda>x. (f x, g x)) xs) = map (\<lambda>x. (f x, g x)) xs"
  by (rule js_map_distinct) (simp add: comp_def)

lemma map_of_named:
  assumes "distinct (map f xs)"
  shows "map_of (map (\<lambda>x. (f x, g x)) xs) k = Some v \<longleftrightarrow> (\<exists>x\<in>set xs. f x = k \<and> g x = v)"
proof -
  have "distinct (map fst (map (\<lambda>x. (f x, g x)) xs))"
    using assms by (simp add: comp_def)
  then show ?thesis
    by (auto simp: map_of_eq_Some_iff)
qed

section \<open>The planner\<close>

text \<open>What is assumed of \<^verbatim>\<open>semver\<close> and of the registry: \<^verbatim>\<open>maxSatisfying\<close> answers with one of the versions given, in the
  range, and \<^verbatim>\<open>version(name, v)\<close> describes that version.\<close>

definition planner_contract :: "planner \<Rightarrow> bool" where
  "planner_contract pr \<longleftrightarrow>
     (\<forall>vs wanted v. sv_maxSatisfying (pr_semver pr) vs wanted = Some v \<longrightarrow> v \<in> set vs \<and> sv_satisfies (pr_semver pr) v wanted) \<and>
     (\<forall>n v f. reg_version (pr_registry pr) n v = Some f \<longrightarrow> pv_version f = v)"

definition finished :: "plan_state \<Rightarrow> string set" where
  "finished st = in_name ` set (ps_install st) \<union> set (ps_enable st)"

definition enabled_row :: "planner \<Rightarrow> string \<Rightarrow> PlannerInstalledPlugin \<Rightarrow> bool" where
  "enabled_row pr d row \<longleftrightarrow> map_of (pr_rows pr) d = Some row \<and> pi_enabled row"

text \<open>A requirement the plan meets: by something it installs, enables or changes, or by an enabled plugin.\<close>

definition req_met :: "planner \<Rightarrow> plan_state \<Rightarrow> string \<times> string \<Rightarrow> bool" where
  "req_met pr st req \<longleftrightarrow>
     (case req of (d, wanted) \<Rightarrow>
        d \<in> finished st \<and> (\<exists>v. map_of (ps_planned st) d = Some v \<and> satisfies (pr_semver pr) v wanted) \<or>
        map_of (ps_planned st) d = None \<and> (\<exists>row. enabled_row pr d row \<and> satisfies (pr_semver pr) (pi_packageVersion row) wanted))"

definition extends :: "planner \<Rightarrow> plan_state \<Rightarrow> plan_state \<Rightarrow> bool" where
  "extends pr st st' \<longleftrightarrow>
     map_of (ps_planned st) \<subseteq>\<^sub>m map_of (ps_planned st') \<and> finished st \<subseteq> finished st' \<and>
     (\<forall>d row. enabled_row pr d row \<longrightarrow> map_of (ps_planned st) d = None \<longrightarrow> map_of (ps_planned st') d = None)"

definition install_ok :: "planner \<Rightarrow> plan_state \<Rightarrow> PlannedPluginInstall \<Rightarrow> bool" where
  "install_ok pr st i \<longleftrightarrow>
     map_of (pr_rows pr) (in_name i) = None \<and> map_of (ps_planned st) (in_name i) = Some (in_version i) \<and>
     (\<forall>req\<in>set (requiresOf (Some (in_manifest i))). req_met pr st req)"

definition enable_ok :: "planner \<Rightarrow> plan_state \<Rightarrow> string \<Rightarrow> bool" where
  "enable_ok pr st n \<longleftrightarrow>
     (\<exists>row. map_of (pr_rows pr) n = Some row \<and> \<not> pi_enabled row \<and> map_of (ps_planned st) n = Some (pi_packageVersion row) \<and>
        (\<forall>req\<in>set (requiresOf (pi_manifest row)). req_met pr st req))"

text \<open>Whatever is installed comes after what it requires.\<close>

definition install_order :: "plan_state \<Rightarrow> bool" where
  "install_order st \<longleftrightarrow>
     (\<forall>pre i post. ps_install st = pre @ i # post \<longrightarrow>
        (\<forall>d\<in>fst ` set (requiresOf (Some (in_manifest i))). d \<notin> in_name ` set (i # post)))"

definition plan_inv :: "planner \<Rightarrow> string list \<Rightarrow> plan_state \<Rightarrow> bool" where
  "plan_inv pr path st \<longleftrightarrow>
     dom (map_of (ps_planned st)) = set path \<union> finished st \<and> set path \<inter> finished st = {} \<and>
     (\<forall>i\<in>set (ps_install st). install_ok pr st i) \<and> (\<forall>n\<in>set (ps_enable st). enable_ok pr st n) \<and>
     distinct (map in_name (ps_install st) @ ps_enable st) \<and> install_order st"

lemma extends_refl [simp]: "extends pr st st"
  by (simp add: extends_def)

lemma extends_trans: "extends pr a b \<Longrightarrow> extends pr b c \<Longrightarrow> extends pr a c"
  unfolding extends_def by (blast intro: map_le_trans)

lemma req_met_extends:
  assumes "req_met pr st req" "extends pr st st'"
  shows "req_met pr st' req"
proof -
  obtain d wanted where req: "req = (d, wanted)"
    by (cases req)
  from assms(1) show ?thesis
    unfolding req req_met_def prod.case
  proof
    assume "d \<in> finished st \<and> (\<exists>v. map_of (ps_planned st) d = Some v \<and> satisfies (pr_semver pr) v wanted)"
    then show "d \<in> finished st' \<and> (\<exists>v. map_of (ps_planned st') d = Some v \<and> satisfies (pr_semver pr) v wanted) \<or>
        map_of (ps_planned st') d = None \<and> (\<exists>row. enabled_row pr d row \<and> satisfies (pr_semver pr) (pi_packageVersion row) wanted)"
      using assms(2) unfolding extends_def by (metis domI map_le_def subsetD)
  next
    assume "map_of (ps_planned st) d = None \<and> (\<exists>row. enabled_row pr d row \<and> satisfies (pr_semver pr) (pi_packageVersion row) wanted)"
    then show "d \<in> finished st' \<and> (\<exists>v. map_of (ps_planned st') d = Some v \<and> satisfies (pr_semver pr) v wanted) \<or>
        map_of (ps_planned st') d = None \<and> (\<exists>row. enabled_row pr d row \<and> satisfies (pr_semver pr) (pi_packageVersion row) wanted)"
      using assms(2) unfolding extends_def by blast
  qed
qed

lemma install_ok_extends: "install_ok pr st i \<Longrightarrow> extends pr st st' \<Longrightarrow> install_ok pr st' i"
  unfolding install_ok_def using req_met_extends by (metis (no_types, lifting) domI extends_def map_le_def)

lemma enable_ok_extends: "enable_ok pr st n \<Longrightarrow> extends pr st st' \<Longrightarrow> enable_ok pr st' n"
  unfolding enable_ok_def using req_met_extends by (metis (no_types, lifting) domI extends_def map_le_def)

lemma add_conflict_sel [simp]:
  "ps_conflicts (add_conflict m st) = ps_conflicts st @ [m]" "ps_planned (add_conflict m st) = ps_planned st"
  by (simp_all add: add_conflict_def)

lemma plan_name_sel [simp]:
  "ps_planned (plan_name d v st) = map_set (ps_planned st) d v" "ps_install (plan_name d v st) = ps_install st"
  "ps_enable (plan_name d v st) = ps_enable st" "ps_conflicts (plan_name d v st) = ps_conflicts st"
  "finished (plan_name d v st) = finished st"
  by (simp_all add: plan_name_def finished_def)

lemma finish_dependency_sel [simp]:
  "ps_planned (finish_dependency f st) = ps_planned st" "ps_conflicts (finish_dependency f st) = ps_conflicts st"
  by (cases f; simp)+

text \<open>A requirement settled without a conflict changes nothing and is met.\<close>

lemma resolve_settled:
  assumes "resolve pr name m path d wanted st = Settled st'"
  shows "ps_planned st' = ps_planned st" and "ps_conflicts st' = [] \<Longrightarrow> st' = st"
    and "ps_conflicts st' = [] \<Longrightarrow> plan_inv pr path st \<Longrightarrow> d \<notin> set path \<and> req_met pr st (d, wanted)"
proof -
  show "ps_planned st' = ps_planned st" "ps_conflicts st' = [] \<Longrightarrow> st' = st"
    using assms
    by (auto simp: resolve_def resolve_installed_def resolve_published_def Let_def split: if_splits option.splits sum.splits)
  assume clean: "ps_conflicts st' = []" and inv: "plan_inv pr path st"
  show "d \<notin> set path \<and> req_met pr st (d, wanted)"
  proof (cases "map_of (ps_planned st) d")
    case (Some v)
    then have "d \<in> set path \<union> finished st"
      using inv by (auto simp: plan_inv_def)
    then show ?thesis
      using assms clean Some by (auto simp: resolve_def req_met_def Let_def split: if_splits)
  next
    case None
    then show ?thesis
      using assms clean
      by (auto simp: resolve_def resolve_installed_def resolve_published_def req_met_def enabled_row_def Let_def
          split: if_splits option.splits sum.splits)
  qed
qed

text \<open>A dependency that is entered is new to the plan, at a version in range.\<close>

definition enters :: "planner \<Rightarrow> string \<Rightarrow> string \<Rightarrow> PluginManifest \<Rightarrow> dependency_finish \<Rightarrow> bool" where
  "enters pr d v m fin \<longleftrightarrow>
     (case fin of
        Enabling n \<Rightarrow> n = d \<and> (\<exists>row. map_of (pr_rows pr) d = Some row \<and> \<not> pi_enabled row \<and> pi_packageVersion row = v \<and>
                         requiresOf (Some m) = requiresOf (pi_manifest row))
      | Installing i \<Rightarrow> map_of (pr_rows pr) d = None \<and> in_name i = d \<and> in_version i = v \<and> in_manifest i = m)"

lemma resolve_enter:
  assumes "resolve pr name m path d wanted st = Enter st' m' fin"
  obtains v where "d \<notin> set path" "map_of (ps_planned st) d = None" "st' = plan_name d v st" "enters pr d v m' fin"
    "planner_contract pr \<Longrightarrow> satisfies (pr_semver pr) v wanted"
    "map_of (pr_rows pr) d \<noteq> None \<or> reg_versions (pr_registry pr) d \<noteq> None"
proof (cases "map_of (pr_rows pr) d")
  case None
  from assms None obtain vs best found where
      r: "d \<notin> set path" "map_of (ps_planned st) d = None" "reg_versions (pr_registry pr) d = Some vs"
        "sv_maxSatisfying (pr_semver pr) (filter (isExactVersion (pr_semver pr)) vs) wanted = Some best"
        "reg_version (pr_registry pr) d best = Some found" "st' = plan_name d (pv_version found) st"
        "fin = Installing \<lparr>in_name = d, in_version = pv_version found, in_integrity = pv_integrity found, in_manifest = m'\<rparr>"
    by (auto simp: resolve_def resolve_published_def Let_def split: if_splits option.splits sum.splits)
  have "satisfies (pr_semver pr) (pv_version found) wanted" if "planner_contract pr"
  proof -
    have "best \<in> set (filter (isExactVersion (pr_semver pr)) vs)" "sv_satisfies (pr_semver pr) best wanted" "pv_version found = best"
      using that r(4,5) unfolding planner_contract_def by blast+
    then show ?thesis
      by (simp add: satisfies_def)
  qed
  with r None that [of "pv_version found"] show ?thesis
    by (simp add: enters_def)
next
  case (Some row)
  with assms have r: "d \<notin> set path" "map_of (ps_planned st) d = None" "st' = plan_name d (pi_packageVersion row) st"
      "satisfies (pr_semver pr) (pi_packageVersion row) wanted" "\<not> pi_enabled row" "fin = Enabling d"
      "m' = (case pi_manifest row of None \<Rightarrow> empty_manifest | Some m \<Rightarrow> m)"
    by (auto simp: resolve_def resolve_installed_def Let_def split: if_splits option.splits)
  then have "requiresOf (Some m') = requiresOf (pi_manifest row)"
    by (simp add: requiresOf_def empty_manifest_def split: option.split)
  with r Some that [of "pi_packageVersion row"] show ?thesis
    by (simp add: enters_def)
qed

lemma extends_plan_name:
  assumes "map_of (ps_planned st) d = None" "enters pr d v m fin"
  shows "extends pr st (plan_name d v st)"
  using assms by (auto simp: extends_def enters_def enabled_row_def map_le_def split: dependency_finish.splits)

lemma plan_inv_enter:
  assumes inv: "plan_inv pr path st" and new: "map_of (ps_planned st) d = None" and e: "enters pr d v m fin"
  shows "plan_inv pr (path @ [d]) (plan_name d v st)"
proof -
  have ext: "extends pr st (plan_name d v st)"
    by (rule extends_plan_name [OF new e])
  have "d \<notin> finished st"
    using inv new by (auto simp: plan_inv_def)
  with inv install_ok_extends [OF _ ext] enable_ok_extends [OF _ ext] show ?thesis
    by (auto simp: plan_inv_def install_order_def)
qed

lemma extends_finish: "extends pr st (finish_dependency fin st)"
  by (cases fin) (auto simp: extends_def finished_def)

lemma install_order_snoc:
  assumes "install_order st" "\<And>j. j \<in> set (ps_install st) \<Longrightarrow> in_name i \<notin> fst ` set (requiresOf (Some (in_manifest j)))"
    and "in_name i \<notin> fst ` set (requiresOf (Some (in_manifest i)))"
  shows "install_order (st\<lparr>ps_install := ps_install st @ [i]\<rparr>)"
  unfolding install_order_def
proof (intro allI impI ballI)
  fix pre j post d
  assume split: "ps_install (st\<lparr>ps_install := ps_install st @ [i]\<rparr>) = pre @ j # post"
    and d: "d \<in> fst ` set (requiresOf (Some (in_manifest j)))"
  show "d \<notin> in_name ` set (j # post)"
  proof (cases post rule: rev_cases)
    case Nil
    with split have "j = i"
      by simp
    with Nil d assms(3) show ?thesis
      by (simp add: image_iff) blast
  next
    case (snoc post' x)
    with split have "ps_install st = pre @ j # post'" "x = i"
      by auto
    then have "d \<notin> in_name ` set (j # post')"
      using assms(1) d unfolding install_order_def by blast
    moreover have "d \<noteq> in_name i"
      using assms(2) [of j] d \<open>ps_install st = pre @ j # post'\<close> by (metis in_set_conv_decomp)
    ultimately show ?thesis
      using snoc \<open>x = i\<close> by simp
  qed
qed

lemma plan_inv_finish:
  assumes inv: "plan_inv pr (path @ [d]) st" and fresh: "d \<notin> set path" and e: "enters pr d v m fin"
    and v: "map_of (ps_planned st) d = Some v"
    and reqs: "\<And>req. req \<in> set (requiresOf (Some m)) \<Longrightarrow> fst req \<notin> set (path @ [d]) \<and> req_met pr st req"
  shows "plan_inv pr path (finish_dependency fin st)"
proof -
  let ?st' = "finish_dependency fin st"
  have ext: "extends pr st ?st'"
    by (rule extends_finish)
  have d: "d \<notin> finished st"
    using inv by (auto simp: plan_inv_def)
  have fin: "finished ?st' = insert d (finished st)"
    using e by (cases fin) (auto simp: enters_def finished_def)
  have installs: "\<forall>i\<in>set (ps_install ?st'). install_ok pr ?st' i"
    using inv install_ok_extends [OF _ ext] e v reqs req_met_extends [OF _ ext]
    by (cases fin) (auto simp: plan_inv_def enters_def install_ok_def)
  have enables: "\<forall>n\<in>set (ps_enable ?st'). enable_ok pr ?st' n"
    using inv enable_ok_extends [OF _ ext] e v reqs req_met_extends [OF _ ext]
    by (cases fin) (auto simp: plan_inv_def enters_def enable_ok_def)
  have distinct: "distinct (map in_name (ps_install ?st') @ ps_enable ?st')"
    using inv d e by (cases fin) (auto simp: plan_inv_def enters_def finished_def)
  have order: "install_order ?st'"
  proof (cases fin)
    case (Enabling n)
    then show ?thesis
      using inv by (simp add: plan_inv_def install_order_def)
  next
    case (Installing i)
    have name: "in_name i = d" "map_of (pr_rows pr) d = None" "in_manifest i = m"
      using e Installing by (auto simp: enters_def)
    have "in_name i \<notin> fst ` set (requiresOf (Some (in_manifest j)))" if "j \<in> set (ps_install st)" for j
      using inv that d name unfolding plan_inv_def install_ok_def req_met_def enabled_row_def by fastforce
    moreover have "in_name i \<notin> fst ` set (requiresOf (Some (in_manifest i)))"
      using reqs name by fastforce
    ultimately show ?thesis
      using inv Installing install_order_snoc by (simp add: plan_inv_def)
  qed
  have "dom (map_of (ps_planned ?st')) = set path \<union> finished ?st'" "set path \<inter> finished ?st' = {}"
    using inv fresh fin by (auto simp: plan_inv_def)
  with installs enables distinct order show ?thesis
    unfolding plan_inv_def by blast
qed

lemma visit_ConsE:
  assumes "visit_requirements fuel pr name m path ((d, wanted) # rest) st = Some st'"
  obtains s1 where "resolve pr name m path d wanted st = Settled s1" "visit_requirements fuel pr name m path rest s1 = Some st'"
  | s1 m' fin fuel' s2 where "resolve pr name m path d wanted st = Enter s1 m' fin" "fuel = Suc fuel'"
      "visit_requirements fuel' pr d m' (path @ [d]) (requiresOf (Some m')) s1 = Some s2"
      "visit_requirements fuel pr name m path rest (finish_dependency fin s2) = Some st'"
proof (cases "resolve pr name m path d wanted st")
  case (Settled s1)
  with assms that(1) show ?thesis
    by simp
next
  case (Enter s1 m' fin)
  show ?thesis
  proof (cases fuel)
    case 0
    with assms Enter show ?thesis
      by simp
  next
    case (Suc fuel')
    with assms Enter that(2) show ?thesis
      by (cases "visit_requirements fuel' pr d m' (path @ [d]) (requiresOf (Some m')) s1") simp_all
  qed
qed

lemma visit_conflicts:
  "visit_requirements fuel pr name m path reqs st = Some st' \<Longrightarrow> ps_conflicts st' = [] \<Longrightarrow> ps_conflicts st = []"
proof (induction fuel pr name m path reqs st arbitrary: st' rule: visit_requirements.induct)
  case (1 fuel pr name m path st)
  then show ?case by simp
next
  case (2 fuel pr name m path d wanted rest st)
  from 2(4) show ?case
  proof (cases rule: visit_ConsE)
    case (1 s1)
    then have "ps_conflicts s1 = []"
      using 2(1) [OF 1] 2(5) by simp
    with resolve_settled(2) [OF 1(1)] show ?thesis
      by simp
  next
    case (2 s1 m' fin fuel' s2)
    note found = 2
    have "ps_conflicts s2 = []"
      using "2.IH"(3) [OF found(1,2,3,4)] "2.prems"(2) by simp
    then have "ps_conflicts s1 = []"
      using "2.IH"(2) [OF found(1,2,3)] by simp
    with resolve_enter [OF found(1)] show ?thesis
      by (metis plan_name_sel(4))
  qed
qed

text \<open>A visit without a conflict keeps the invariant and meets every requirement it was given.\<close>

lemma visit_inv:
  "visit_requirements fuel pr name m path reqs st = Some st' \<Longrightarrow> ps_conflicts st' = [] \<Longrightarrow> plan_inv pr path st \<Longrightarrow>
   planner_contract pr \<Longrightarrow>
   plan_inv pr path st' \<and> extends pr st st' \<and> (\<forall>req\<in>set reqs. fst req \<notin> set path \<and> req_met pr st' req)"
proof (induction fuel pr name m path reqs st arbitrary: st' rule: visit_requirements.induct)
  case (1 fuel pr name m path st)
  then show ?case by simp
next
  case (2 fuel pr name m path d wanted rest st)
  from "2.prems"(1) show ?case
  proof (cases rule: visit_ConsE)
    case (1 s1)
    have clean: "ps_conflicts s1 = []"
      by (rule visit_conflicts [OF 1(2) "2.prems"(2)])
    note here = resolve_settled(2,3) [OF 1(1) clean]
    then have rest: "plan_inv pr path st'" "extends pr st st'" "\<forall>req\<in>set rest. fst req \<notin> set path \<and> req_met pr st' req"
      using "2.IH"(1) [OF 1(1,2) "2.prems"(2)] "2.prems"(3,4) by simp_all
    with here(2) [OF "2.prems"(3)] show ?thesis
      using req_met_extends by auto
  next
    case (2 s1 m' fin fuel' s2)
    note found = 2
    have clean: "ps_conflicts s2 = []"
      using visit_conflicts [OF found(4) "2.prems"(2)] by simp
    obtain v where e: "d \<notin> set path" "map_of (ps_planned st) d = None" "s1 = plan_name d v st" "enters pr d v m' fin"
        "satisfies (pr_semver pr) v wanted"
      using resolve_enter [OF found(1)] "2.prems"(4) by metis
    have s1: "plan_inv pr (path @ [d]) s1" "extends pr st s1"
      using plan_inv_enter [OF "2.prems"(3) e(2,4)] extends_plan_name [OF e(2,4)] e(3) by simp_all
    have s2: "plan_inv pr (path @ [d]) s2" "extends pr s1 s2"
        "\<forall>req\<in>set (requiresOf (Some m')). fst req \<notin> set (path @ [d]) \<and> req_met pr s2 req"
      using "2.IH"(2) [OF found(1,2,3) clean s1(1) "2.prems"(4)] by simp_all
    have v: "map_of (ps_planned s2) d = Some v"
      using s2(2) e(3) unfolding extends_def map_le_def by (auto dest: bspec [of _ _ d])
    let ?s3 = "finish_dependency fin s2"
    have s3: "plan_inv pr path ?s3"
      using plan_inv_finish [OF s2(1) e(1,4) v] s2(3) by blast
    have "d \<in> finished ?s3"
      using e(4) by (cases fin) (auto simp: enters_def finished_def)
    with v e(5) have met: "req_met pr ?s3 (d, wanted)"
      by (auto simp: req_met_def)
    have rest: "plan_inv pr path st'" "extends pr ?s3 st'" "\<forall>req\<in>set rest. fst req \<notin> set path \<and> req_met pr st' req"
      using "2.IH"(3) [OF found "2.prems"(2) s3 "2.prems"(4)] by simp_all
    have "extends pr st st'"
      using s1(2) s2(2) extends_finish rest(2) extends_trans by metis
    with rest e(1) req_met_extends [OF met rest(2)] show ?thesis
      by simp
  qed
qed

section \<open>Enough fuel\<close>

definition known_names :: "planner \<Rightarrow> string list \<Rightarrow> string set" where
  "known_names pr published = fst ` set (pr_rows pr) \<union> set published"

lemma visit_grows:
  "visit_requirements fuel pr name m path reqs st = Some st' \<Longrightarrow> dom (map_of (ps_planned st)) \<subseteq> dom (map_of (ps_planned st'))"
proof (induction fuel pr name m path reqs st arbitrary: st' rule: visit_requirements.induct)
  case (1 fuel pr name m path st)
  then show ?case by simp
next
  case (2 fuel pr name m path d wanted rest st)
  from "2.prems" show ?case
  proof (cases rule: visit_ConsE)
    case (1 s1)
    then show ?thesis
      using "2.IH"(1) [OF 1] resolve_settled(1) [OF 1(1)] by simp
  next
    case (2 s1 m' fin fuel' s2)
    note found = 2
    have "dom (map_of (ps_planned s1)) \<subseteq> dom (map_of (ps_planned s2))"
      using "2.IH"(2) [OF found(1,2,3)] .
    moreover have "dom (map_of (ps_planned s2)) \<subseteq> dom (map_of (ps_planned st'))"
      using "2.IH"(3) [OF found(1,2,3,4)] by simp
    moreover have "dom (map_of (ps_planned st)) \<subseteq> dom (map_of (ps_planned s1))"
      using resolve_enter [OF found(1)] by (metis dom_fun_upd map_of_map_set option.distinct(1) plan_name_sel(1) subset_insertI)
    ultimately show ?thesis
      by blast
  qed
qed

lemma visit_fuel:
  assumes "\<And>n. reg_versions (pr_registry pr) n \<noteq> None \<Longrightarrow> n \<in> set published"
  shows "card (known_names pr published - dom (map_of (ps_planned st))) \<le> fuel \<Longrightarrow>
    \<exists>st'. visit_requirements fuel pr name m path reqs st = Some st'"
  using assms
proof (induction fuel pr name m path reqs st rule: visit_requirements.induct)
  case (1 fuel pr name m path st)
  then show ?case by simp
next
  case (2 fuel pr name m path d wanted rest st)
  let ?open = "\<lambda>s. known_names pr published - dom (map_of (ps_planned s))"
  have fin: "finite (known_names pr published)"
    by (simp add: known_names_def)
  show ?case
  proof (cases "resolve pr name m path d wanted st")
    case (Settled s1)
    then show ?thesis
      using "2.IH"(1) [OF Settled] "2.prems" resolve_settled(1) [OF Settled] by simp
  next
    case (Enter s1 m' f)
    then obtain v where e: "map_of (ps_planned st) d = None" "s1 = plan_name d v st"
        "map_of (pr_rows pr) d \<noteq> None \<or> reg_versions (pr_registry pr) d \<noteq> None"
      by (rule resolve_enter)
    have "d \<in> known_names pr published"
      using e(3) "2.prems"(2) [of d] by (auto simp: known_names_def map_of_eq_None_iff)
    with e(1) have "d \<in> ?open st"
      by auto
    moreover have less: "?open s1 = ?open st - {d}"
      using e(2) by auto
    ultimately have smaller: "card (?open s1) < card (?open st)"
      using fin by (metis card_Diff1_less finite_Diff)
    then obtain fuel' where fuel: "fuel = Suc fuel'"
      using "2.prems"(1) by (cases fuel) auto
    then have "card (?open s1) \<le> fuel'"
      using smaller "2.prems"(1) by simp
    then obtain s2 where s2: "visit_requirements fuel' pr d m' (path @ [d]) (requiresOf (Some m')) s1 = Some s2"
      using "2.IH"(2) [OF Enter fuel _ "2.prems"(2)] by blast
    have "?open (finish_dependency f s2) \<subseteq> ?open st"
      using visit_grows [OF s2] e(2) by auto
    then have "card (?open (finish_dependency f s2)) \<le> fuel"
      using "2.prems"(1) fin by (meson card_mono finite_Diff le_trans)
    then show ?thesis
      using "2.IH"(3) [OF Enter fuel s2 _ "2.prems"(2)] Enter fuel s2 by simp
  qed
qed

section \<open>What a plan without conflicts gives\<close>

text \<open>The plugins enabled once the plan is applied: the enabled ones the change leaves alone, what it installs, what it
  enables, and the changed plugin at its new version.\<close>

definition enabled_after :: "PlannerInstalledPlugin list \<Rightarrow> PlannedPluginChange \<Rightarrow> PluginChangePlan \<Rightarrow> PlannerInstalledPlugin list" where
  "enabled_after installed change plan =
     filter (\<lambda>row. pi_enabled row \<and> \<not> pi_removed row \<and>
               pi_name row \<notin> insert (ch_name change) (in_name ` set (pl_install plan) \<union> set (pl_enable plan))) installed @
     map (\<lambda>i. \<lparr>pi_name = in_name i, pi_packageVersion = in_version i, pi_enabled = True, pi_removed = False,
               pi_manifest = Some (in_manifest i), pi_settings = None\<rparr>) (pl_install plan) @
     map (\<lambda>row. row\<lparr>pi_enabled := True\<rparr>) (filter (\<lambda>row. \<not> pi_removed row \<and> pi_name row \<in> set (pl_enable plan)) installed) @
     [\<lparr>pi_name = ch_name change, pi_packageVersion = ch_version change, pi_enabled = True, pi_removed = False,
       pi_manifest = Some (ch_manifest change), pi_settings = None\<rparr>]"

definition planner_of :: "semver \<Rightarrow> PlannerRegistry \<Rightarrow> (string \<Rightarrow> bool) \<Rightarrow> PlannerInstalledPlugin list \<Rightarrow> planner" where
  "planner_of sv registry allowed installed =
     \<lparr>pr_semver = sv, pr_registry = registry, pr_allowed = allowed, pr_rows = installed_rows installed\<rparr>"

definition plan_start :: "semver \<Rightarrow> PlannerInstalledPlugin list \<Rightarrow> PlannedPluginChange \<Rightarrow> plan_state" where
  "plan_start sv installed change =
     \<lparr>ps_planned = [(ch_name change, ch_version change)], ps_install = [], ps_enable = [],
      ps_conflicts = dependents_conflicts sv (installed_rows installed) change\<rparr>"

text \<open>The stored rows: one per plugin name, each with a requirement object.\<close>

definition rows_ok :: "PlannerInstalledPlugin list \<Rightarrow> bool" where
  "rows_ok installed \<longleftrightarrow> distinct (map pi_name installed) \<and> (\<forall>row\<in>set installed. distinct (map fst (requiresOf (pi_manifest row))))"

lemma planPluginChangeE:
  assumes "planPluginChange fuel sv registry allowed installed change = Some plan" "pl_conflicts plan = []"
  obtains st where "visit_requirements fuel (planner_of sv registry allowed installed) (ch_name change) (ch_manifest change) [ch_name change]
      (requiresOf (Some (ch_manifest change))) (plan_start sv installed change) = Some st"
    "ps_conflicts st = []" "pl_install plan = ps_install st" "pl_enable plan = ps_enable st"
  using assms by (auto simp: planPluginChange_def Let_def planner_of_def plan_start_def)

lemma plan_start_inv: "plan_inv pr [ch_name change] (plan_start sv installed change)"
  by (simp add: plan_inv_def plan_start_def finished_def install_order_def)

lemma clean_plan:
  assumes "planPluginChange fuel sv registry allowed installed change = Some plan" "pl_conflicts plan = []"
    and "planner_contract (planner_of sv registry allowed installed)"
  obtains st where "plan_inv (planner_of sv registry allowed installed) [ch_name change] st"
    "map_of (ps_planned st) (ch_name change) = Some (ch_version change)"
    "\<forall>req\<in>set (requiresOf (Some (ch_manifest change))). fst req \<noteq> ch_name change \<and> req_met (planner_of sv registry allowed installed) st req"
    "dependents_conflicts sv (installed_rows installed) change = []" "pl_install plan = ps_install st" "pl_enable plan = ps_enable st"
proof -
  from assms(1,2) obtain st where
      v: "visit_requirements fuel (planner_of sv registry allowed installed) (ch_name change) (ch_manifest change) [ch_name change]
        (requiresOf (Some (ch_manifest change))) (plan_start sv installed change) = Some st" "ps_conflicts st = []"
      and plan: "pl_install plan = ps_install st" "pl_enable plan = ps_enable st"
    by (rule planPluginChangeE)
  note r = visit_inv [OF v plan_start_inv assms(3)]
  have "map_of (ps_planned st) (ch_name change) = Some (ch_version change)"
    using r unfolding extends_def map_le_def plan_start_def by auto
  moreover have "dependents_conflicts sv (installed_rows installed) change = []"
    using visit_conflicts [OF v] by (simp add: plan_start_def)
  ultimately show ?thesis
    using that [of st] r plan by simp
qed

lemma js_map_Some: "map_of (js_map es) k = Some v \<Longrightarrow> (k, v) \<in> set es"
proof -
  have "map_of (foldl (\<lambda>m (k, v). map_set m k v) acc es) k = Some v \<Longrightarrow> map_of acc k = Some v \<or> (k, v) \<in> set es" for acc
  proof (induction es arbitrary: acc)
    case Nil
    then show ?case by simp
  next
    case (Cons e es)
    then show ?case
      by (cases e) (fastforce split: if_splits)
  qed
  from this [of "[]"] show "map_of (js_map es) k = Some v \<Longrightarrow> (k, v) \<in> set es"
    by (simp add: js_map_def)
qed

lemma installed_rows_Some:
  "map_of (installed_rows installed) d = Some row \<Longrightarrow> row \<in> set installed \<and> \<not> pi_removed row \<and> pi_name row = d"
  unfolding installed_rows_def by (drule js_map_Some) auto

text \<open>A plan without conflicts lists what it installs in an order in which everything comes after what it
  requires, and nothing it installs requires itself or the plugin being changed.\<close>

theorem plan_install_order:
  assumes "planPluginChange fuel sv registry allowed installed change = Some plan" "pl_conflicts plan = []"
    and "planner_contract (planner_of sv registry allowed installed)"
    and "pl_install plan = pre @ i # post" "(d, wanted) \<in> set (requiresOf (Some (in_manifest i)))"
  shows "d \<notin> in_name ` set (i # post) \<and> d \<noteq> ch_name change \<and>
         (d \<in> in_name ` set pre \<or> d \<in> set (pl_enable plan) \<or> (\<exists>row\<in>set installed. pi_name row = d \<and> pi_enabled row \<and> \<not> pi_removed row))"
proof -
  obtain st where inv: "plan_inv (planner_of sv registry allowed installed) [ch_name change] st"
      "map_of (ps_planned st) (ch_name change) = Some (ch_version change)"
      and plan: "pl_install plan = ps_install st" "pl_enable plan = ps_enable st"
    using clean_plan [OF assms(1-3)] by metis
  have "i \<in> set (ps_install st)"
    using assms(4) plan(1) by simp
  then have met: "req_met (planner_of sv registry allowed installed) st (d, wanted)"
    using inv(1) assms(5) by (auto simp: plan_inv_def install_ok_def)
  have order: "d \<notin> in_name ` set (i # post)"
    using inv(1) assms(4,5) plan(1) unfolding plan_inv_def install_order_def by (metis fst_conv imageI)
  have "d \<in> finished st \<and> d \<noteq> ch_name change \<or>
      d \<noteq> ch_name change \<and> (\<exists>row\<in>set installed. pi_name row = d \<and> pi_enabled row \<and> \<not> pi_removed row)"
  proof -
    have "ch_name change \<notin> finished st"
      using inv(1) by (auto simp: plan_inv_def)
    moreover have "\<exists>row\<in>set installed. pi_name row = d \<and> pi_enabled row \<and> \<not> pi_removed row"
      if "enabled_row (planner_of sv registry allowed installed) d row" for row
      using that by (auto simp: enabled_row_def planner_of_def dest!: installed_rows_Some)
    ultimately show ?thesis
      using met inv(2) unfolding req_met_def by auto
  qed
  with order assms(4) plan show ?thesis
    by (auto simp: finished_def)
qed

text \<open>C34: The planner ends. With finitely many packages published, a fuel of the number of installed and published
  names always gives a plan, whatever they require of each other, circular requirements included.\<close>

theorem planPluginChange_terminates:
  assumes "\<And>n. reg_versions registry n \<noteq> None \<Longrightarrow> n \<in> set published" "length installed + length published \<le> fuel"
  shows "\<exists>plan. planPluginChange fuel sv registry allowed installed change = Some plan"
proof -
  let ?pr = "planner_of sv registry allowed installed"
  have "fst ` set (installed_rows installed) \<subseteq> pi_name ` set installed"
  proof
    fix n
    assume "n \<in> fst ` set (installed_rows installed)"
    then obtain row where "map_of (installed_rows installed) n = Some row"
      by (metis map_of_eq_None_iff option.exhaust)
    then show "n \<in> pi_name ` set installed"
      using installed_rows_Some by blast
  qed
  then have "known_names ?pr published \<subseteq> set (map pi_name installed @ published)"
    by (auto simp: known_names_def planner_of_def)
  then have "card (known_names ?pr published - dom (map_of (ps_planned (plan_start sv installed change))))
      \<le> card (set (map pi_name installed @ published))"
    by (intro card_mono) auto
  moreover have "card (set (map pi_name installed @ published)) \<le> length installed + length published"
    using card_length [of "map pi_name installed @ published"] by simp
  ultimately have "card (known_names ?pr published - dom (map_of (ps_planned (plan_start sv installed change)))) \<le> fuel"
    using assms(2) by linarith
  then show ?thesis
    using visit_fuel [of ?pr published "plan_start sv installed change"] assms(1)
    by (simp add: planPluginChange_def planner_of_def plan_start_def Let_def)
qed

lemma installed_rows_conv:
  assumes "rows_ok installed"
  shows "map_of (installed_rows installed) d = Some row \<longleftrightarrow> row \<in> set installed \<and> \<not> pi_removed row \<and> pi_name row = d"
proof -
  have "distinct (map pi_name (filter (\<lambda>row. \<not> pi_removed row) installed))"
    using assms by (simp add: rows_ok_def distinct_map_filter)
  then show ?thesis
    unfolding installed_rows_def by (auto simp: js_map_named map_of_named)
qed

definition live :: "PlannerInstalledPlugin \<Rightarrow> bool" where
  "live row \<longleftrightarrow> pi_enabled row \<and> \<not> pi_removed row"

definition meets :: "semver \<Rightarrow> PlannerInstalledPlugin list \<Rightarrow> string \<times> string \<Rightarrow> bool" where
  "meets sv rows req \<longleftrightarrow> (\<exists>r\<in>set rows. live r \<and> pi_name r = fst req \<and> satisfies sv (pi_packageVersion r) (snd req))"

lemma unmet_of_none:
  "unmet_of sv None enabled row = [] \<longleftrightarrow>
     (\<forall>(d, w)\<in>set (requiresOf (pi_manifest row)). case map_of enabled d of None \<Rightarrow> False | Some r \<Rightarrow> satisfies sv (pi_packageVersion r) w)"
  unfolding unmet_of_def Let_def concat_eq_Nil_conv set_map ball_simps
  by (intro ball_cong refl) (auto split: option.splits if_splits)

lemma findUnmetRequirements_none:
  assumes "distinct (map pi_name (filter live rows))"
  shows "findUnmetRequirements sv rows None = [] \<longleftrightarrow>
    (\<forall>row\<in>set rows. live row \<longrightarrow> (\<forall>req\<in>set (requiresOf (pi_manifest row)). meets sv rows req))"
proof -
  let ?enabled = "map (\<lambda>row. (pi_name row, row)) (filter live rows)"
  have enabled: "map_of ?enabled d = Some r \<longleftrightarrow> r \<in> set rows \<and> live r \<and> pi_name r = d" for d r
    using map_of_named [OF assms, of "\<lambda>x. x"] by auto
  have one: "unmet_of sv None ?enabled row = [] \<longleftrightarrow> (\<forall>req\<in>set (requiresOf (pi_manifest row)). meets sv rows req)" for row
  proof -
    have "(case map_of ?enabled d of None \<Rightarrow> False | Some r \<Rightarrow> satisfies sv (pi_packageVersion r) w) \<longleftrightarrow> meets sv rows (d, w)" for d w
    proof -
      have "(case map_of ?enabled d of None \<Rightarrow> False | Some r \<Rightarrow> satisfies sv (pi_packageVersion r) w) \<longleftrightarrow>
          (\<exists>r. map_of ?enabled d = Some r \<and> satisfies sv (pi_packageVersion r) w)"
        by (auto split: option.split)
      then show ?thesis
        unfolding enabled meets_def by auto
    qed
    then show ?thesis
      unfolding unmet_of_none by auto
  qed
  have "findUnmetRequirements sv rows None = [] \<longleftrightarrow> (\<forall>row\<in>set (filter live rows). unmet_of sv None ?enabled row = [])"
    using js_map_named [OF assms, of "\<lambda>x. x"] by (simp add: findUnmetRequirements_def Let_def live_def [abs_def])
  with one show ?thesis
    by auto
qed

lemma dependents_conflicts_none:
  assumes "dependents_conflicts sv rows change = []" "(n, row) \<in> set rows" "pi_enabled row" "pi_name row \<noteq> ch_name change"
    and "requiredRange (pi_manifest row) (ch_name change) = Some wanted"
  shows "satisfies sv (ch_version change) wanted"
  using assms unfolding dependents_conflicts_def by (auto split: option.splits if_splits)

lemma enabled_after_sets:
  assumes "pl_install plan = ps_install st" "pl_enable plan = ps_enable st"
  shows "row \<in> set (enabled_after installed change plan) \<longleftrightarrow>
      row \<in> set installed \<and> live row \<and> pi_name row \<noteq> ch_name change \<and> pi_name row \<notin> finished st \<or>
      (\<exists>i\<in>set (ps_install st). row = \<lparr>pi_name = in_name i, pi_packageVersion = in_version i, pi_enabled = True, pi_removed = False,
         pi_manifest = Some (in_manifest i), pi_settings = None\<rparr>) \<or>
      (\<exists>r\<in>set installed. \<not> pi_removed r \<and> pi_name r \<in> set (ps_enable st) \<and> row = r\<lparr>pi_enabled := True\<rparr>) \<or>
      row = \<lparr>pi_name = ch_name change, pi_packageVersion = ch_version change, pi_enabled = True, pi_removed = False,
         pi_manifest = Some (ch_manifest change), pi_settings = None\<rparr>"
  using assms by (auto simp: enabled_after_def live_def finished_def)

lemma enabled_after_live: "row \<in> set (enabled_after installed change plan) \<Longrightarrow> live row"
  by (auto simp: enabled_after_def live_def)

lemma enabled_after_distinct:
  assumes "rows_ok installed" "plan_inv pr [ch_name change] st" "pl_install plan = ps_install st" "pl_enable plan = ps_enable st"
  shows "distinct (map pi_name (filter live (enabled_after installed change plan)))"
proof -
  have all: "filter live (enabled_after installed change plan) = enabled_after installed change plan"
    using enabled_after_live by (intro filter_True) blast
  have "distinct (map pi_name (filter p installed))" for p
    using assms(1) by (simp add: rows_ok_def distinct_map_filter)
  moreover have "distinct (map in_name (ps_install st) @ ps_enable st)" "ch_name change \<notin> finished st"
    using assms(2) by (auto simp: plan_inv_def)
  ultimately show ?thesis
    unfolding all unfolding enabled_after_def assms(3,4) by (auto simp: comp_def finished_def)
qed

text \<open>A requirement the plan meets is met by what is enabled afterwards.\<close>

lemma req_met_after:
  assumes ok: "rows_ok installed" and pr: "pr = planner_of sv registry allowed installed" and inv: "plan_inv pr [ch_name change] st"
    and plan: "pl_install plan = ps_install st" "pl_enable plan = ps_enable st" and met: "req_met pr st req"
  shows "meets sv (enabled_after installed change plan) req"
proof -
  obtain d wanted where req: "req = (d, wanted)"
    by (cases req)
  have sv: "pr_semver pr = sv" "pr_rows pr = installed_rows installed"
    using pr by (simp_all add: planner_of_def)
  have after: "meets sv (enabled_after installed change plan) req"
    if "row \<in> set (enabled_after installed change plan)" "pi_name row = d" "satisfies sv (pi_packageVersion row) wanted" for row
    using that enabled_after_live [OF that(1)] unfolding meets_def req by auto
  from met consider
      (installed) i v where "i \<in> set (ps_install st)" "in_name i = d" "map_of (ps_planned st) d = Some v" "satisfies sv v wanted"
    | (enable) v where "d \<in> set (ps_enable st)" "map_of (ps_planned st) d = Some v" "satisfies sv v wanted"
    | (kept) row where "map_of (ps_planned st) d = None" "enabled_row pr d row" "satisfies sv (pi_packageVersion row) wanted"
    unfolding req_met_def req finished_def sv by auto
  then show ?thesis
  proof cases
    case installed
    then have "in_version i = v"
      using inv by (auto simp: plan_inv_def install_ok_def)
    let ?row = "\<lparr>pi_name = in_name i, pi_packageVersion = in_version i, pi_enabled = True, pi_removed = False,
        pi_manifest = Some (in_manifest i), pi_settings = None\<rparr>"
    have "?row \<in> set (enabled_after installed change plan)"
      using installed(1) unfolding enabled_after_sets [OF plan] by blast
    then show ?thesis
      using after [of ?row] installed(2,4) \<open>in_version i = v\<close> by simp
  next
    case enable
    then obtain row where row: "map_of (installed_rows installed) d = Some row" "pi_packageVersion row = v"
      using inv sv(2) by (auto simp: plan_inv_def enable_ok_def)
    then have "row \<in> set installed" "\<not> pi_removed row" "pi_name row = d"
      using installed_rows_conv [OF ok] by simp_all
    then have "row\<lparr>pi_enabled := True\<rparr> \<in> set (enabled_after installed change plan)"
      using enable(1) unfolding enabled_after_sets [OF plan] by blast
    then show ?thesis
      using after [of "row\<lparr>pi_enabled := True\<rparr>"] row(2) enable(3) \<open>pi_name row = d\<close> by simp
  next
    case kept
    then have row: "row \<in> set installed" "live row" "pi_name row = d"
      using installed_rows_conv [OF ok] sv(2) by (auto simp: enabled_row_def live_def)
    have "d \<noteq> ch_name change" "d \<notin> finished st"
      using inv kept(1) by (auto simp: plan_inv_def)
    with row have "row \<in> set (enabled_after installed change plan)"
      unfolding enabled_after_sets [OF plan] by simp
    then show ?thesis
      using after kept(3) row(3) by simp
  qed
qed

text \<open>The requirements of the plugins that were there before: on the changed plugin, by the check of its dependents; on another, because that one
  is neither installed nor enabled again.\<close>

lemma old_requirement_met:
  assumes ok: "rows_ok installed" and pr_def: "pr = planner_of sv registry allowed installed" and inv: "plan_inv pr [ch_name change] st"
    and st: "pl_install plan = ps_install st" "pl_enable plan = ps_enable st"
    and deps: "dependents_conflicts sv (installed_rows installed) change = []"
    and before: "\<forall>row\<in>set installed. live row \<longrightarrow> (\<forall>req\<in>set (requiresOf (pi_manifest row)). meets sv installed req)"
    and row: "row \<in> set installed" "live row" "pi_name row \<noteq> ch_name change" and req: "req \<in> set (requiresOf (pi_manifest row))"
  shows "meets sv (enabled_after installed change plan) req"
proof -
  obtain r where r: "r \<in> set installed" "live r" "pi_name r = fst req" "satisfies sv (pi_packageVersion r) (snd req)"
    using before row(1,2) req unfolding meets_def by blast
  show ?thesis
  proof (cases "fst req = ch_name change")
    case True
    have "map_of (installed_rows installed) (pi_name row) = Some row"
      using row installed_rows_conv [OF ok] by (simp add: live_def)
    moreover have "requiredRange (pi_manifest row) (ch_name change) = Some (snd req)"
      using ok row(1) req True unfolding requiredRange_def rows_ok_def
      by (metis map_of_eq_Some_iff prod.collapse)
    ultimately have "satisfies sv (ch_version change) (snd req)"
      using dependents_conflicts_none [OF deps] row map_of_SomeD by (metis live_def)
    then show ?thesis
      unfolding meets_def using True
      by (intro bexI [of _ "\<lparr>pi_name = ch_name change, pi_packageVersion = ch_version change, pi_enabled = True,
            pi_removed = False, pi_manifest = Some (ch_manifest change), pi_settings = None\<rparr>"])
        (simp_all add: live_def enabled_after_sets [OF st])
  next
    case False
    have "map_of (installed_rows installed) (fst req) = Some r"
      using r installed_rows_conv [OF ok] by (simp add: live_def)
    then have "fst req \<notin> finished st"
      using inv r(2) by (auto simp: plan_inv_def finished_def install_ok_def enable_ok_def pr_def planner_of_def live_def)
    then have "r \<in> set (enabled_after installed change plan)"
      using r False unfolding enabled_after_sets [OF st] by simp
    then show ?thesis
      using r(2-4) unfolding meets_def by blast
  qed
qed

text \<open>C26: A plan without conflicts leaves nothing broken. If no enabled plugin had an unmet requirement, then once the
  plan is applied none has: not the changed plugin, not what is installed or enabled for it, and not the plugins
  that were there before.\<close>

theorem plan_meets_requirements:
  assumes plan: "planPluginChange fuel sv registry allowed installed change = Some plan" "pl_conflicts plan = []"
    and contract: "planner_contract (planner_of sv registry allowed installed)" and ok: "rows_ok installed"
    and before: "findUnmetRequirements sv installed None = []"
  shows "findUnmetRequirements sv (enabled_after installed change plan) None = []"
proof -
  define pr where "pr = planner_of sv registry allowed installed"
  obtain st where inv: "plan_inv pr [ch_name change] st"
      and reqs: "\<forall>req\<in>set (requiresOf (Some (ch_manifest change))). req_met pr st req"
      and deps: "dependents_conflicts sv (installed_rows installed) change = []"
      and st: "pl_install plan = ps_install st" "pl_enable plan = ps_enable st"
    using clean_plan [OF plan contract] unfolding pr_def by metis
  let ?after = "enabled_after installed change plan"
  have "distinct (map pi_name (filter live installed))"
    using ok by (simp add: rows_ok_def distinct_map_filter)
  then have before': "\<forall>row\<in>set installed. live row \<longrightarrow> (\<forall>req\<in>set (requiresOf (pi_manifest row)). meets sv installed req)"
    using before findUnmetRequirements_none by blast
  note met = req_met_after [OF ok pr_def inv st]
  have row_req: "req_met pr st req" if "r \<in> set installed" "\<not> pi_removed r" "pi_name r \<in> set (ps_enable st)"
      "req \<in> set (requiresOf (pi_manifest r))" for r req
    using inv that installed_rows_conv [OF ok, of "pi_name r" r]
    by (auto simp: plan_inv_def enable_ok_def pr_def planner_of_def)
  note old = old_requirement_met [OF ok pr_def inv st deps before']
  have "meets sv ?after req" if "row \<in> set ?after" "req \<in> set (requiresOf (pi_manifest row))" for row req
    using that(1) unfolding enabled_after_sets [OF st]
  proof (elim disjE bexE conjE)
    assume "row \<in> set installed" "live row" "pi_name row \<noteq> ch_name change"
    then show ?thesis
      using old that(2) by blast
  next
    fix i
    assume "i \<in> set (ps_install st)" "row = \<lparr>pi_name = in_name i, pi_packageVersion = in_version i, pi_enabled = True,
        pi_removed = False, pi_manifest = Some (in_manifest i), pi_settings = None\<rparr>"
    then show ?thesis
      using inv that(2) met by (auto simp: plan_inv_def install_ok_def)
  next
    fix r
    assume "r \<in> set installed" "\<not> pi_removed r" "pi_name r \<in> set (ps_enable st)" "row = r\<lparr>pi_enabled := True\<rparr>"
    then show ?thesis
      using row_req [of r req] that(2) met by simp
  next
    assume "row = \<lparr>pi_name = ch_name change, pi_packageVersion = ch_version change, pi_enabled = True, pi_removed = False,
        pi_manifest = Some (ch_manifest change), pi_settings = None\<rparr>"
    then show ?thesis
      using reqs that(2) met by simp
  qed
  then show ?thesis
    using findUnmetRequirements_none [OF enabled_after_distinct [OF ok inv st]] by blast
qed

section \<open>The pruned set is the largest closed one\<close>

text \<open>Every requirement of a plugin of the set is met within the set.\<close>

definition closed :: "semver \<Rightarrow> PluginRequirementNode set \<Rightarrow> bool" where
  "closed sv S \<longleftrightarrow> (\<forall>p\<in>S. \<forall>(d, w)\<in>set (requiresOf (rn_manifest p)). \<exists>q\<in>S. rn_name q = d \<and> satisfies sv (rn_version q) w)"

lemma node_versions_conv:
  assumes "distinct (map rn_name kept)"
  shows "map_of (node_versions kept) d = Some v \<longleftrightarrow> (\<exists>q\<in>set kept. rn_name q = d \<and> rn_version q = v)"
  unfolding node_versions_def js_map_named [OF assms] map_of_named [OF assms] by blast

lemma first_unmet_none:
  assumes "distinct (map rn_name kept)"
  shows "first_unmet sv (node_versions kept) p = None \<longleftrightarrow>
    (\<forall>(d, w)\<in>set (requiresOf (rn_manifest p)). \<exists>q\<in>set kept. rn_name q = d \<and> satisfies sv (rn_version q) w)"
proof -
  have unmet: "(case map_of (node_versions kept) d of None \<Rightarrow> True | Some v \<Rightarrow> \<not> satisfies sv v w) \<longleftrightarrow>
      \<not> (\<exists>q\<in>set kept. rn_name q = d \<and> satisfies sv (rn_version q) w)" for d w
  proof -
    have "(case map_of (node_versions kept) d of None \<Rightarrow> True | Some v \<Rightarrow> \<not> satisfies sv v w) \<longleftrightarrow>
        \<not> (\<exists>v. map_of (node_versions kept) d = Some v \<and> satisfies sv v w)"
      by (auto split: option.split)
    then show ?thesis
      unfolding node_versions_conv [OF assms] by blast
  qed
  show ?thesis
    unfolding first_unmet_def unmet option.map_disc_iff find_None by auto
qed

lemma mset_partition_map:
  "mset (map fst (List.map_filter (\<lambda>p. map_option (\<lambda>m. (f p, m)) (u p)) xs)) + mset (map f (filter (\<lambda>p. u p = None) xs)) = mset (map f xs)"
  by (induction xs) (auto split: option.splits)

lemma prune_loop_spec:
  assumes "distinct (map rn_name kept)" "prune_loop sv kept dropped = (kept', dropped')"
  shows "subseq kept' kept \<and> closed sv (set kept') \<and>
    (\<forall>S. S \<subseteq> set kept \<longrightarrow> closed sv S \<longrightarrow> S \<subseteq> set kept') \<and>
    (\<exists>gone. dropped' = dropped @ gone \<and> mset (map fst gone) + mset (map rn_name kept') = mset (map rn_name kept))"
  using assms
proof (induction sv kept dropped rule: prune_loop.induct)
  case (1 sv kept dropped)
  let ?unmet = "first_unmet sv (node_versions kept)"
  define survivors gone where "survivors = filter (\<lambda>p. ?unmet p = None) kept"
    and "gone = List.map_filter (\<lambda>p. map_option (\<lambda>m. (rn_name p, m)) (?unmet p)) kept"
  have round: "prune_round sv kept = (survivors, gone)"
    by (simp add: prune_round_def survivors_def gone_def)
  have split: "mset (map fst gone) + mset (map rn_name survivors) = mset (map rn_name kept)"
    unfolding survivors_def gone_def by (rule mset_partition_map)
  have keep: "S \<subseteq> set survivors" if "S \<subseteq> set kept" "closed sv S" for S
    using that unfolding survivors_def closed_def by (fastforce simp: first_unmet_none [OF "1.prems"(1)])
  show ?case
  proof (cases "length survivors = length kept")
    case True
    then have same: "survivors = kept"
      unfolding survivors_def by (metis filter_True filter_id_conv length_filter_less less_irrefl)
    then have "closed sv (set kept)"
      unfolding survivors_def closed_def by (auto simp: filter_id_conv first_unmet_none [OF "1.prems"(1)])
    moreover have "gone = []"
      using split same by simp
    ultimately show ?thesis
      using "1.prems"(2) True round by (simp add: prune_loop.simps [of sv kept])
  next
    case False
    have "prune_loop sv survivors (dropped @ gone) = (kept', dropped')"
      using "1.prems"(2) False round by (simp add: prune_loop.simps [of sv kept])
    moreover have "distinct (map rn_name survivors)"
      using "1.prems"(1) by (simp add: survivors_def distinct_map_filter)
    ultimately have IH: "subseq kept' survivors \<and> closed sv (set kept') \<and>
        (\<forall>S. S \<subseteq> set survivors \<longrightarrow> closed sv S \<longrightarrow> S \<subseteq> set kept') \<and>
        (\<exists>gone'. dropped' = (dropped @ gone) @ gone' \<and> mset (map fst gone') + mset (map rn_name kept') = mset (map rn_name survivors))"
      using "1.IH" [OF round [symmetric] False] by blast
    then obtain gone' where "dropped' = dropped @ (gone @ gone')"
        "mset (map fst gone') + mset (map rn_name kept') = mset (map rn_name survivors)"
      by auto
    then have "dropped' = dropped @ (gone @ gone')"
        "mset (map fst (gone @ gone')) + mset (map rn_name kept') = mset (map rn_name kept)"
      unfolding split [symmetric] by (simp_all add: ac_simps)
    moreover have "subseq kept' kept"
      using IH subseq_filter_left [of _ kept] unfolding survivors_def by (meson subseq_order.trans)
    ultimately show ?thesis
      using IH keep by blast
  qed
qed

text \<open>C32: Pruning keeps the largest set of plugins in which every requirement is met: what is kept is closed, in the order given,
  contains every closed set of the plugins, and every other plugin is reported as dropped exactly once.\<close>

theorem pruneUnmetRequirements_greatest:
  assumes "distinct (map rn_name plugins)" "pruneUnmetRequirements sv plugins = (kept, dropped)"
  shows "subseq kept plugins \<and> closed sv (set kept) \<and>
    (\<forall>S. S \<subseteq> set plugins \<longrightarrow> closed sv S \<longrightarrow> S \<subseteq> set kept) \<and>
    mset (map fst dropped) + mset (map rn_name kept) = mset (map rn_name plugins)"
  using prune_loop_spec [OF assms(1) assms(2) [unfolded pruneUnmetRequirements_def]] by auto

section \<open>The load order\<close>

lemma order_ConsE:
  assumes "order_visit fuel byName (p # ps) (seen, ordered) = Some r"
  obtains "rn_name p \<in> set seen" "order_visit fuel byName ps (seen, ordered) = Some r"
  | fuel' seen' ordered' where "rn_name p \<notin> set seen" "fuel = Suc fuel'"
      "order_visit fuel' byName (List.map_filter (\<lambda>(d, _). map_of byName d) (requiresOf (rn_manifest p))) (seen @ [rn_name p], ordered)
         = Some (seen', ordered')"
      "order_visit fuel byName ps (seen', ordered' @ [p]) = Some r"
proof (cases "rn_name p \<in> set seen")
  case True
  with assms that(1) show ?thesis
    by simp
next
  case False
  show ?thesis
  proof (cases fuel)
    case 0
    with assms False show ?thesis
      by simp
  next
    case (Suc fuel')
    with assms False that(2) show ?thesis
      by (cases "order_visit fuel' byName (List.map_filter (\<lambda>(d, _). map_of byName d) (requiresOf (rn_manifest p))) (seen @ [rn_name p], ordered)")
        auto
  qed
qed

text \<open>The map gives every name its plugin.\<close>

definition by_name :: "(string \<times> PluginRequirementNode) list \<Rightarrow> PluginRequirementNode set \<Rightarrow> bool" where
  "by_name byName S \<longleftrightarrow> (\<forall>d q. map_of byName d = Some q \<longleftrightarrow> q \<in> S \<and> rn_name q = d)"

lemma required_nodes: "by_name byName S \<Longrightarrow>
  q \<in> set (List.map_filter (\<lambda>(d, _). map_of byName d) (requiresOf m)) \<longleftrightarrow> q \<in> S \<and> rn_name q \<in> fst ` set (requiresOf m)"
  unfolding set_map_filter_iff case_prod_beta by_name_def by auto

lemma order_visit_perm:
  "order_visit fuel byName ps (seen, ordered) = Some (seen', ordered') \<Longrightarrow> by_name byName S \<Longrightarrow> set ps \<subseteq> S \<Longrightarrow>
   \<exists>new. ordered' = ordered @ new \<and> set new \<subseteq> S \<and> distinct (map rn_name new) \<and> set seen \<inter> rn_name ` set new = {} \<and>
         set seen' = set seen \<union> rn_name ` set new \<and> rn_name ` set ps \<subseteq> set seen'"
proof (induction fuel byName ps "(seen, ordered)" arbitrary: seen ordered seen' ordered' rule: order_visit.induct)
  case (1 fuel byName)
  then show ?case by auto
next
  case (2 fuel byName p ps seen ordered)
  from "2.prems"(1) show ?case
  proof (cases rule: order_ConsE)
    case 1
    then show ?thesis
      using "2.hyps"(1) [OF 1 "2.prems"(2)] "2.prems"(3) by auto
  next
    case (2 fuel' s1 o1)
    note found = 2
    have "set (List.map_filter (\<lambda>(d, _). map_of byName d) (requiresOf (rn_manifest p))) \<subseteq> S"
      using required_nodes [OF "2.prems"(2)] by blast
    from "2.hyps"(2) [OF found(1,2,3) "2.prems"(2) this] obtain n1 where n1: "o1 = ordered @ n1" "set n1 \<subseteq> S" "distinct (map rn_name n1)"
        "set (seen @ [rn_name p]) \<inter> rn_name ` set n1 = {}" "set s1 = set (seen @ [rn_name p]) \<union> rn_name ` set n1"
      by (elim exE conjE) (rule that, assumption+)
    have "set ps \<subseteq> S"
      using "2.prems"(3) by simp
    from "2.hyps"(3) [OF found(1,2,3) refl found(4) "2.prems"(2) this] obtain n2 where n2: "ordered' = (o1 @ [p]) @ n2" "set n2 \<subseteq> S"
        "distinct (map rn_name n2)" "set s1 \<inter> rn_name ` set n2 = {}" "set seen' = set s1 \<union> rn_name ` set n2" "rn_name ` set ps \<subseteq> set seen'"
      by (elim exE conjE) (rule that, assumption+)
    have "distinct (map rn_name (n1 @ p # n2))"
      using n1(3-5) n2(3,4) found(1) by auto
    with n1 n2 found(1) "2.prems"(3) show ?thesis
      by (intro exI [of _ "n1 @ p # n2"]) auto
  qed
qed

lemma order_visit_fuel:
  "by_name byName S \<Longrightarrow> finite S \<Longrightarrow> set ps \<subseteq> S \<Longrightarrow> card (rn_name ` S - set seen) \<le> fuel \<Longrightarrow>
   \<exists>r. order_visit fuel byName ps (seen, ordered) = Some r"
proof (induction fuel byName ps "(seen, ordered)" arbitrary: seen ordered rule: order_visit.induct)
  case (1 fuel byName)
  then show ?case by simp
next
  case (2 fuel byName p ps seen ordered)
  show ?case
  proof (cases "rn_name p \<in> set seen")
    case True
    then show ?thesis
      using "2.hyps"(1) [OF True "2.prems"(1,2)] "2.prems" by simp
  next
    case False
    let ?deps = "List.map_filter (\<lambda>(d, _). map_of byName d) (requiresOf (rn_manifest p))"
    have "rn_name p \<in> rn_name ` S - set seen"
      using False "2.prems"(3) by auto
    then have smaller: "card (rn_name ` S - set (seen @ [rn_name p])) < card (rn_name ` S - set seen)"
      using "2.prems"(2) by (intro psubset_card_mono) auto
    then obtain fuel' where fuel: "fuel = Suc fuel'"
      using "2.prems"(4) by (cases fuel) auto
    have "set ?deps \<subseteq> S"
      using required_nodes [OF "2.prems"(1)] by blast
    then obtain s1 o1 where deps: "order_visit fuel' byName ?deps (seen @ [rn_name p], ordered) = Some (s1, o1)"
      using "2.hyps"(2) [OF False fuel "2.prems"(1,2)] smaller "2.prems"(4) fuel by fastforce
    have "set seen \<subseteq> set s1"
      using order_visit_perm [OF deps "2.prems"(1) \<open>set ?deps \<subseteq> S\<close>] by auto
    then have "card (rn_name ` S - set s1) \<le> fuel"
      using "2.prems"(2,4) by (meson Diff_mono card_mono finite_Diff finite_imageI le_trans order_refl)
    then show ?thesis
      using "2.hyps"(3) [OF False fuel deps refl "2.prems"(1,2)] "2.prems"(3) False fuel deps by simp
  qed
qed

text \<open>The load order follows the requirements: everything a plugin requires within the set comes before it.\<close>

definition topological :: "PluginRequirementNode set \<Rightarrow> PluginRequirementNode list \<Rightarrow> bool" where
  "topological S out \<longleftrightarrow>
     (\<forall>a p b. out = a @ p # b \<longrightarrow> (\<forall>d\<in>fst ` set (requiresOf (rn_manifest p)). d \<in> rn_name ` S \<longrightarrow> d \<in> rn_name ` set a))"

lemma topological_snoc:
  assumes "topological S out" "\<And>d. d \<in> fst ` set (requiresOf (rn_manifest p)) \<Longrightarrow> d \<in> rn_name ` S \<Longrightarrow> d \<in> rn_name ` set out"
  shows "topological S (out @ [p])"
  unfolding topological_def
proof (intro allI impI)
  fix a q b
  assume split: "out @ [p] = a @ q # b"
  show "\<forall>d\<in>fst ` set (requiresOf (rn_manifest q)). d \<in> rn_name ` S \<longrightarrow> d \<in> rn_name ` set a"
  proof (cases b rule: rev_cases)
    case Nil
    with split assms(2) show ?thesis
      by auto
  next
    case (snoc b' x)
    with split have "out = a @ q # b'"
      by simp
    with assms(1) show ?thesis
      unfolding topological_def by blast
  qed
qed

text \<open>Requirements without a cycle have a rank that falls along them. Names seen but not yet ordered are
  on the path being visited, so above everything visited from there.\<close>

definition ranked :: "PluginRequirementNode set \<Rightarrow> (string \<Rightarrow> nat) \<Rightarrow> bool" where
  "ranked S rank \<longleftrightarrow> (\<forall>p\<in>S. \<forall>d\<in>fst ` set (requiresOf (rn_manifest p)). d \<in> rn_name ` S \<longrightarrow> rank d < rank (rn_name p))"

lemma order_visit_topological:
  "order_visit fuel byName ps (seen, ordered) = Some (seen', ordered') \<Longrightarrow> by_name byName S \<Longrightarrow> ranked S rank \<Longrightarrow> set ps \<subseteq> S \<Longrightarrow>
   topological S ordered \<Longrightarrow>
   (\<And>g p. g \<in> set seen - rn_name ` set ordered \<Longrightarrow> p \<in> set ps \<Longrightarrow> rank (rn_name p) < rank g) \<Longrightarrow> topological S ordered'"
proof (induction fuel byName ps "(seen, ordered)" arbitrary: seen ordered seen' ordered' rule: order_visit.induct)
  case (1 fuel byName)
  then show ?case by auto
next
  case (2 fuel byName p ps seen ordered)
  from "2.prems"(1) show ?case
  proof (cases rule: order_ConsE)
    case 1
    then show ?thesis
      using "2.hyps"(1) [OF 1 "2.prems"(2,3)] "2.prems"(4-6) by simp
  next
    case (2 fuel' s1 o1)
    note found = 2
    let ?deps = "List.map_filter (\<lambda>(d, _). map_of byName d) (requiresOf (rn_manifest p))"
    have deps: "q \<in> set ?deps \<longleftrightarrow> q \<in> S \<and> rn_name q \<in> fst ` set (requiresOf (rn_manifest p))" for q
      by (rule required_nodes [OF "2.prems"(2)])
    have sub: "set ?deps \<subseteq> S"
      using deps by blast
    have below: "rank (rn_name q) < rank (rn_name p)" if "q \<in> set ?deps" for q
      using "2.prems"(3,4) that deps unfolding ranked_def by (meson imageI list.set_intros(1) subsetD)
    have path: "rank (rn_name q) < rank g" if "g \<in> set (seen @ [rn_name p]) - rn_name ` set ordered" "q \<in> set ?deps" for g q
      using that below [OF that(2)] "2.prems"(6) [of g p] by (auto intro: less_trans)
    have o1: "topological S o1"
      by (rule "2.hyps"(2) [OF found(1,2,3) "2.prems"(2,3) sub "2.prems"(5) path])
    obtain n1 where n1: "o1 = ordered @ n1" "set s1 = set (seen @ [rn_name p]) \<union> rn_name ` set n1" "rn_name ` set ?deps \<subseteq> set s1"
      using order_visit_perm [OF found(3) "2.prems"(2) sub] by (elim exE conjE) (rule that, assumption+)
    have "d \<in> rn_name ` set o1" if d: "d \<in> fst ` set (requiresOf (rn_manifest p))" "d \<in> rn_name ` S" for d
    proof (rule ccontr)
      assume "d \<notin> rn_name ` set o1"
      obtain q where q: "q \<in> set ?deps" "rn_name q = d"
        using d deps by auto
      with n1(3) have "d \<in> set s1"
        by auto
      with \<open>d \<notin> rn_name ` set o1\<close> n1(1,2) have "d \<in> set (seen @ [rn_name p]) - rn_name ` set ordered"
        by auto
      with path [OF _ q(1)] q(2) show False
        by blast
    qed
    then have "topological S (o1 @ [p])"
      by (rule topological_snoc [OF o1])
    moreover have "rank (rn_name q) < rank g" if "g \<in> set s1 - rn_name ` set (o1 @ [p])" "q \<in> set ps" for g q
      using that n1(1,2) "2.prems"(6) [of g q] by auto
    ultimately show ?thesis
      using "2.hyps"(3) [OF found(1,2,3) refl found(4) "2.prems"(2,3)] "2.prems"(4) by simp
  qed
qed

lemma by_name_plugins: "distinct (map rn_name plugins) \<Longrightarrow> by_name (js_map (map (\<lambda>p. (rn_name p, p)) plugins)) (set plugins)"
  unfolding by_name_def by (auto simp: js_map_named map_of_named)

text \<open>C33: The load order. It always exists and is a permutation of the plugins; and when the requirements
  among them are not circular, every plugin comes after all the plugins it requires.\<close>

theorem orderByDependencies_topological:
  assumes "distinct (map rn_name plugins)"
  shows "\<exists>out. orderByDependencies plugins = Some out \<and> mset out = mset plugins \<and>
    ((\<exists>rank. ranked (set plugins) rank) \<longrightarrow> topological (set plugins) out)"
proof -
  let ?byName = "js_map (map (\<lambda>p. (rn_name p, p)) plugins)"
  note byName = by_name_plugins [OF assms]
  have "card (rn_name ` set plugins - set []) \<le> length plugins"
    using card_length [of "map rn_name plugins"] by simp
  then obtain seen out where visit: "order_visit (length plugins) ?byName plugins ([], []) = Some (seen, out)"
    using order_visit_fuel [OF byName, of plugins "[]"] by fastforce
  obtain new where new: "out = [] @ new" "set new \<subseteq> set plugins" "distinct (map rn_name new)" "set seen = set [] \<union> rn_name ` set new"
      "rn_name ` set plugins \<subseteq> set seen"
    using order_visit_perm [OF visit byName subset_refl] by (elim exE conjE) (rule that, assumption+)
  have "set out = set plugins"
  proof
    show "set plugins \<subseteq> set out"
    proof
      fix p
      assume p: "p \<in> set plugins"
      then obtain q where "q \<in> set out" "rn_name q = rn_name p"
        using new(1,4,5) by auto
      moreover from this have "q = p"
        using p new(1,2) assms by (auto simp: distinct_map dest: inj_onD)
      ultimately show "p \<in> set out"
        by simp
    qed
  qed (use new(1,2) in simp)
  then have "mset out = mset plugins"
    using new(1,3) assms by (simp add: set_eq_iff_mset_eq_distinct distinct_map)
  moreover have "topological (set plugins) out" if "ranked (set plugins) rank" for rank
    by (rule order_visit_topological [OF visit byName that]) (auto simp: topological_def)
  ultimately show ?thesis
    using visit by (auto simp: orderByDependencies_def)
qed

section \<open>An example\<close>

definition example_semver :: semver where
  "example_semver =
     \<lparr>sv_valid = (\<lambda>v. v \<noteq> []), sv_clean = (\<lambda>v. Some v), sv_satisfies = (\<lambda>v r. v = r),
      sv_maxSatisfying = (\<lambda>vs r. if r \<in> set vs then Some r else None)\<rparr>"

definition example_manifest :: "(string \<times> string) list \<Rightarrow> PluginManifest" where
  "example_manifest requires = \<lparr>pm_displayName = Some ''P'', pm_settings = None, pm_requires = Some requires, pm_ui = None\<rparr>"

definition example_registry :: PlannerRegistry where
  "example_registry =
     \<lparr>reg_versions = (\<lambda>n. if n \<in> {''b'', ''c''} then Some [''1''] else None),
      reg_version = (\<lambda>n v. if v = ''1'' \<and> n \<in> {''b'', ''c''}
        then Some \<lparr>pv_version = v, pv_integrity = None, pv_manifest = Inr (example_manifest (if n = ''b'' then [(''c'', ''1'')] else []))\<rparr>
        else None)\<rparr>"

definition example_installed :: "PlannerInstalledPlugin list" where
  "example_installed = [\<lparr>pi_name = ''a'', pi_packageVersion = ''1'', pi_enabled = True, pi_removed = False,
     pi_manifest = Some (example_manifest []), pi_settings = None\<rparr>]"

definition example_change :: PlannedPluginChange where
  "example_change = \<lparr>ch_name = ''x'', ch_version = ''1'', ch_manifest = example_manifest [(''a'', ''1''), (''b'', ''1'')]\<rparr>"

definition example_install :: "string \<Rightarrow> (string \<times> string) list \<Rightarrow> PlannedPluginInstall" where
  "example_install n requires = \<lparr>in_name = n, in_version = ''1'', in_integrity = None, in_manifest = example_manifest requires\<rparr>"

definition example_plan :: PluginChangePlan where
  "example_plan = \<lparr>pl_install = [example_install ''c'' [], example_install ''b'' [(''c'', ''1'')]], pl_enable = [], pl_conflicts = []\<rparr>"

definition example_planned :: "PluginChangePlan option" where
  "example_planned = planPluginChange 5 example_semver example_registry (\<lambda>_. True) example_installed example_change"

lemma example_planned: "planPluginChange 5 example_semver example_registry (\<lambda>_. True) example_installed example_change = Some example_plan"
  unfolding example_planned_def [symmetric] by code_simp

lemma example_contract: "planner_contract (planner_of example_semver example_registry (\<lambda>_. True) example_installed)"
  by (auto simp: planner_contract_def planner_of_def example_semver_def example_registry_def split: if_splits)

theorem plan_install_order_witness:
  "''c'' \<notin> in_name ` set [example_install ''b'' [(''c'', ''1'')]] \<and> ''c'' \<noteq> ch_name example_change \<and>
   (''c'' \<in> in_name ` set [example_install ''c'' []] \<or> ''c'' \<in> set (pl_enable example_plan) \<or>
     (\<exists>row\<in>set example_installed. pi_name row = ''c'' \<and> pi_enabled row \<and> \<not> pi_removed row))"
  by (rule plan_install_order [OF example_planned _ example_contract, where wanted = "''1''"])
    (simp_all add: example_plan_def example_install_def requiresOf_def example_manifest_def)

theorem planPluginChange_terminates_witness:
  "\<exists>plan. planPluginChange 3 example_semver example_registry (\<lambda>_. True) example_installed example_change = Some plan"
  by (rule planPluginChange_terminates [of _ "[''b'', ''c'']"])
    (auto simp: example_registry_def example_installed_def split: if_splits)

theorem plan_meets_requirements_witness:
  "findUnmetRequirements example_semver (enabled_after example_installed example_change example_plan) None = []"
  by (rule plan_meets_requirements [OF example_planned _ example_contract])
    (simp_all add: example_plan_def rows_ok_def example_installed_def requiresOf_def example_manifest_def
      findUnmetRequirements_def unmet_of_def js_map_def Let_def)

definition example_node :: "string \<Rightarrow> (string \<times> string) list \<Rightarrow> PluginRequirementNode" where
  "example_node n requires = \<lparr>rn_name = n, rn_version = ''1'', rn_manifest = Some (example_manifest requires)\<rparr>"

definition example_nodes :: "PluginRequirementNode list" where
  "example_nodes = [example_node ''x'' [(''y'', ''1'')], example_node ''y'' [(''z'', ''1'')], example_node ''z'' [], example_node ''w'' [(''x'', ''2'')]]"

definition example_kept :: "PluginRequirementNode list" where
  "example_kept = [example_node ''x'' [(''y'', ''1'')], example_node ''y'' [(''z'', ''1'')], example_node ''z'' []]"

lemma example_nodes_distinct: "distinct (map rn_name example_nodes)"
  by (simp add: example_nodes_def example_node_def)

lemma example_pruned: "fst (pruneUnmetRequirements example_semver example_nodes) = example_kept"
  by code_simp

theorem pruneUnmetRequirements_greatest_witness:
  "subseq example_kept example_nodes \<and> \<Union> {S. S \<subseteq> set example_nodes \<and> closed example_semver S} = set example_kept"
proof -
  have kept: "subseq example_kept example_nodes" "closed example_semver (set example_kept)"
    and greatest: "S \<subseteq> set example_nodes \<Longrightarrow> closed example_semver S \<Longrightarrow> S \<subseteq> set example_kept" for S
    using pruneUnmetRequirements_greatest [OF example_nodes_distinct, of example_semver example_kept]
      example_pruned by (metis prod.collapse)+
  have "set example_kept \<subseteq> set example_nodes"
    by (simp add: example_kept_def example_nodes_def)
  with kept greatest show ?thesis
    by (intro conjI equalityI Union_least Union_upper) auto
qed

definition example_rank :: "string \<Rightarrow> nat" where
  "example_rank n = (if n = ''z'' then 0 else if n = ''y'' then 1 else if n = ''x'' then 2 else 3)"

theorem orderByDependencies_topological_witness:
  "\<exists>out. orderByDependencies example_nodes = Some out \<and> mset out = mset example_nodes \<and> topological (set example_nodes) out"
proof -
  have "ranked (set example_nodes) example_rank"
    by (simp add: ranked_def example_nodes_def example_node_def example_rank_def requiresOf_def example_manifest_def nullish_def)
  then show ?thesis
    using orderByDependencies_topological [OF example_nodes_distinct] by blast
qed

end
