(* ===== verification/Enrollment.thy ===== *)
theory Enrollment
  imports Prelude
begin

text \<open>
  Signing-certificate enrollments: the stage report and the classification of failures
  (\<^verbatim>\<open>src/src/pki/EnrollmentStages.ts\<close>), and the limits on how many may be pending or started
  (\<^verbatim>\<open>src/src/pki/EnrollmentLimits.ts\<close>). A timestamp of a milestone is the stored string; what the limits compare is
  its time value (\<^verbatim>\<open>Date.parse()\<close>, \<^const>\<open>None\<close> for a string that is not a date).
\<close>

section \<open>Stages\<close>

datatype EnrollmentStage =
    submitted | awaiting_challenge | challenge_answered | validating | issuing | issued | failed

datatype stage_state = SDone | SActive | SPending | SFailed

datatype enrollment_status = Pending | Issued | Failed

record EnrollmentStageStatus =
  es_id :: EnrollmentStage
  es_label :: string
  es_state :: stage_state
  es_at :: "string option"

definition STAGE_LABELS :: "(EnrollmentStage \<times> string) list" where
  "STAGE_LABELS =
     [(submitted, ''Request submitted''), (awaiting_challenge, ''Verification e-mail sent by the CA''),
      (challenge_answered, ''Verification e-mail answered''), (validating, ''CA validating''),
      (issuing, ''Certificate being issued''), (issued, ''Certificate issued'')]"

fun STAGE_PROGRESS :: "EnrollmentStage \<Rightarrow> nat" where
  "STAGE_PROGRESS submitted = 5"
| "STAGE_PROGRESS awaiting_challenge = 15"
| "STAGE_PROGRESS challenge_answered = 40"
| "STAGE_PROGRESS validating = 60"
| "STAGE_PROGRESS issuing = 85"
| "STAGE_PROGRESS issued = 100"
| "STAGE_PROGRESS failed = 0"

record AcmeMilestones =
  am_status :: enrollment_status
  am_createdAt :: string
  am_challengeReceivedAt :: "string option"
  am_hasDigest :: bool
  am_replySentAt :: "string option"
  am_finalizedAt :: "string option"
  am_issuedAt :: "string option"
  am_failedAt :: "string option"
  am_orderStatus :: "string option"

record StageReport =
  sr_stage :: EnrollmentStage
  sr_stages :: "EnrollmentStageStatus list"
  sr_progress :: nat

definition was_issued :: "AcmeMilestones \<Rightarrow> bool" where
  "was_issued m \<longleftrightarrow> am_status m = Issued \<or> am_issuedAt m \<noteq> None"

definition was_finalized :: "AcmeMilestones \<Rightarrow> bool" where
  "was_finalized m \<longleftrightarrow> was_issued m \<or> am_finalizedAt m \<noteq> None \<or> am_orderStatus m = Some ''processing'' \<or> am_orderStatus m = Some ''valid''"

definition was_answered :: "AcmeMilestones \<Rightarrow> bool" where
  "was_answered m \<longleftrightarrow> was_finalized m \<or> am_replySentAt m \<noteq> None"

definition was_challenged :: "AcmeMilestones \<Rightarrow> bool" where
  "was_challenged m \<longleftrightarrow> was_answered m \<or> am_challengeReceivedAt m \<noteq> None \<or> am_hasDigest m"

definition done_list :: "AcmeMilestones \<Rightarrow> bool list" where
  "done_list m = [True, was_challenged m, was_answered m, was_finalized m, was_issued m, am_status m = Issued]"

definition at_list :: "AcmeMilestones \<Rightarrow> string option list" where
  "at_list m = [Some (am_createdAt m), am_challengeReceivedAt m, am_replySentAt m, am_finalizedAt m, am_issuedAt m, am_issuedAt m]"

text \<open>\<^verbatim>\<open>done.indexOf(false)\<close>, or the last stage.\<close>

definition reached_stage :: "AcmeMilestones \<Rightarrow> nat" where
  "reached_stage m =
     (let firstOpen = length (takeWhile (\<lambda>b. b) (done_list m)) in
      if firstOpen = length (done_list m) then length STAGE_LABELS - 1 else firstOpen)"

definition stage_state_at :: "AcmeMilestones \<Rightarrow> nat \<Rightarrow> stage_state" where
  "stage_state_at m i =
     (if am_status m = Failed \<and> i = reached_stage m then SFailed
      else if done_list m ! i then SDone
      else if am_status m \<noteq> Failed \<and> i = reached_stage m then SActive
      else SPending)"

definition stage_status :: "AcmeMilestones \<Rightarrow> nat \<Rightarrow> EnrollmentStageStatus" where
  "stage_status m i =
     (let stamp = (if stage_state_at m i = SFailed then am_failedAt m else at_list m ! i) in
      \<lparr>es_id = fst (STAGE_LABELS ! i), es_label = snd (STAGE_LABELS ! i), es_state = stage_state_at m i,
       es_at = (if stamp = Some [] then None else stamp)\<rparr>)"

definition computeStages :: "AcmeMilestones \<Rightarrow> StageReport" where
  "computeStages m =
     (let stage = fst (STAGE_LABELS ! reached_stage m); progress = STAGE_PROGRESS stage in
      \<lparr>sr_stage = (if am_status m = Failed then failed else stage),
       sr_stages = map (stage_status m) [0..<length STAGE_LABELS],
       sr_progress = (if am_status m = Failed then min progress 90 else progress)\<rparr>)"

definition given_stamp :: "string option \<Rightarrow> string option" where
  "given_stamp s = (if s = Some [] then None else s)"

definition computeManualStages :: "enrollment_status \<Rightarrow> string \<Rightarrow> string option \<Rightarrow> string option \<Rightarrow> StageReport" where
  "computeManualStages status createdAt issuedAt failedAt =
     (case status of
        Pending \<Rightarrow>
          \<lparr>sr_stage = submitted,
           sr_stages = [\<lparr>es_id = submitted, es_label = ''Waiting for an administrator to upload the certificate'', es_state = SActive, es_at = Some createdAt\<rparr>],
           sr_progress = STAGE_PROGRESS submitted\<rparr>
      | Issued \<Rightarrow>
          \<lparr>sr_stage = issued,
           sr_stages = [\<lparr>es_id = submitted, es_label = ''Request submitted'', es_state = SDone, es_at = Some createdAt\<rparr>,
                        \<lparr>es_id = issued, es_label = ''Certificate issued'', es_state = SDone, es_at = given_stamp issuedAt\<rparr>],
           sr_progress = STAGE_PROGRESS issued\<rparr>
      | Failed \<Rightarrow>
          \<lparr>sr_stage = failed,
           sr_stages = [\<lparr>es_id = submitted, es_label = ''Request submitted'', es_state = SDone, es_at = Some createdAt\<rparr>,
                        \<lparr>es_id = issued, es_label = ''Certificate issued'', es_state = SFailed, es_at = given_stamp failedAt\<rparr>],
           sr_progress = STAGE_PROGRESS submitted\<rparr>)"

section \<open>Failures\<close>

record FailureClass =
  errorCode :: string
  retryable :: bool

definition REFUSED_PROBLEMS :: "string list" where
  "REFUSED_PROBLEMS =
     [''rejectedIdentifier'', ''unsupportedIdentifier'', ''caa'', ''badCSR'', ''badPublicKey'', ''badSignatureAlgorithm'',
      ''invalidContact'', ''unsupportedContact'', ''compound'']"

definition CHALLENGE_PROBLEMS :: "string list" where
  "CHALLENGE_PROBLEMS = [''unauthorized'', ''incorrectResponse'', ''badCertificate'']"

definition UNREACHABLE_CODES :: "string list" where
  "UNREACHABLE_CODES =
     [''ECONNRESET'', ''ECONNREFUSED'', ''ETIMEDOUT'', ''ENOTFOUND'', ''EAI_AGAIN'', ''EPIPE'', ''UND_ERR_CONNECT_TIMEOUT'']"

text \<open>\<^verbatim>\<open>v?.k\<close>.\<close>

definition optional_get :: "js_value \<Rightarrow> string \<Rightarrow> js_value" where
  "optional_get v k = (case js_get v k of Inl _ \<Rightarrow> JUndefined | Inr x \<Rightarrow> x)"

definition PROBLEM_PREFIX :: string where
  "PROBLEM_PREFIX = ''urn:ietf:params:acme:error:''"

definition problemName :: "js_value \<Rightarrow> string option" where
  "problemName err =
     (case optional_get err ''type'' of
        JStr s \<Rightarrow> Some (if prefix PROBLEM_PREFIX s then drop (length PROBLEM_PREFIX) s else s)
      | _ \<Rightarrow> None)"

definition classifyOrderFailure :: "js_value \<Rightarrow> FailureClass" where
  "classifyOrderFailure err =
     (case problemName err of
        None \<Rightarrow> \<lparr>errorCode = ''order-invalid'', retryable = True\<rparr>
      | Some name \<Rightarrow>
          if name \<in> set REFUSED_PROBLEMS then \<lparr>errorCode = ''rejected'', retryable = False\<rparr>
          else if name \<in> set CHALLENGE_PROBLEMS then \<lparr>errorCode = ''challenge-failed'', retryable = True\<rparr>
          else if name \<in> {''serverInternal'', ''rateLimited'', ''connection'', ''dns'', ''tls''} then \<lparr>errorCode = ''ca-error'', retryable = True\<rparr>
          else \<lparr>errorCode = ''order-invalid'', retryable = True\<rparr>)"

definition classifyTransientFailure :: "js_value \<Rightarrow> bool \<Rightarrow> FailureClass" where
  "classifyTransientFailure err replyPhase =
     (if replyPhase then \<lparr>errorCode = ''reply-not-sent'', retryable = True\<rparr>
      else if optional_get err ''code'' \<in> JStr ` set UNREACHABLE_CODES \<or> optional_get err ''name'' \<in> {JStr ''AbortError'', JStr ''TimeoutError''}
      then \<lparr>errorCode = ''ca-unreachable'', retryable = True\<rparr>
      else \<lparr>errorCode = (if problemName err = Some ''rateLimited'' then ''rate-limited'' else ''ca-error''), retryable = True\<rparr>)"

section \<open>Limits\<close>

definition MAX_PENDING_ENROLLMENTS_PER_IDENTITY :: nat where
  "MAX_PENDING_ENROLLMENTS_PER_IDENTITY = 3"

definition MAX_PENDING_ENROLLMENTS :: nat where
  "MAX_PENDING_ENROLLMENTS = 1000"

definition MAX_ENROLLMENTS_PER_IDENTITY_PER_DAY :: nat where
  "MAX_ENROLLMENTS_PER_IDENTITY_PER_DAY = 10"

definition MAX_ENROLLMENTS_PER_DAY :: nat where
  "MAX_ENROLLMENTS_PER_DAY = 500"

definition ENROLLMENT_RATE_WINDOW_MS :: int where
  "ENROLLMENT_RATE_WINDOW_MS = 24 * 60 * 60 * 1000"

definition FINISHED_ENROLLMENT_RETENTION_MS :: int where
  "FINISHED_ENROLLMENT_RETENTION_MS = 30 * 24 * 60 * 60 * 1000"

record CountedEnrollment =
  ce_identity :: string
  ce_status :: enrollment_status
  ce_createdAt :: js_time

type_synonym enrollment_store = "(string \<times> CountedEnrollment) list"

definition of_identity :: "string \<Rightarrow> CountedEnrollment list \<Rightarrow> CountedEnrollment list" where
  "of_identity wanted es = filter (\<lambda>e. js_lower (ce_identity e) = js_lower wanted) es"

definition pending_of :: "enrollment_store \<Rightarrow> CountedEnrollment list" where
  "pending_of store = filter (\<lambda>e. ce_status e = Pending) (map snd store)"

definition recent_of :: "int \<Rightarrow> enrollment_store \<Rightarrow> CountedEnrollment list" where
  "recent_of now store =
     filter (\<lambda>e. case ce_createdAt e of None \<Rightarrow> False | Some t \<Rightarrow> t \<ge> now - ENROLLMENT_RATE_WINDOW_MS) (map snd store)"

definition enrollmentLimitProblem :: "enrollment_store \<Rightarrow> string \<Rightarrow> int \<Rightarrow> js_error option" where
  "enrollmentLimitProblem store identity now =
     (if length (pending_of store) \<ge> MAX_PENDING_ENROLLMENTS \<or>
         length (of_identity identity (pending_of store)) \<ge> MAX_PENDING_ENROLLMENTS_PER_IDENTITY
      then Some (ApiError 409 ''Too many certificate requests are already pending for this address. Wait for one to finish.'')
      else if length (recent_of now store) \<ge> MAX_ENROLLMENTS_PER_DAY \<or>
              length (of_identity identity (recent_of now store)) \<ge> MAX_ENROLLMENTS_PER_IDENTITY_PER_DAY
      then Some (ApiError 429 ''Too many certificate requests were made for this address today. Try again tomorrow.'')
      else None)"

definition past_retention :: "int \<Rightarrow> CountedEnrollment \<Rightarrow> bool" where
  "past_retention now e \<longleftrightarrow>
     ce_status e \<noteq> Pending \<and> (case ce_createdAt e of None \<Rightarrow> False | Some t \<Rightarrow> t < now - FINISHED_ENROLLMENT_RETENTION_MS)"

definition pruneFinishedEnrollments :: "enrollment_store \<Rightarrow> int \<Rightarrow> enrollment_store" where
  "pruneFinishedEnrollments store now = filter (\<lambda>(_, e). \<not> past_retention now e) store"

text \<open>The store update of \<^verbatim>\<open>startEnrollment()\<close> (\<^verbatim>\<open>ManualSigningCertificateEnrollment.ts\<close>): refused by the limits, or
  the finished records past retention are pruned and the new one is added.\<close>

definition start_enrollment :: "enrollment_store \<Rightarrow> string \<Rightarrow> string \<Rightarrow> int \<Rightarrow> enrollment_store result" where
  "start_enrollment store enrollmentId identity now =
     (case enrollmentLimitProblem store identity now of
        Some limit \<Rightarrow> Inl limit
      | None \<Rightarrow> Inr (pruneFinishedEnrollments store now @
          [(enrollmentId, \<lparr>ce_identity = identity, ce_status = Pending, ce_createdAt = Some now\<rparr>)]))"

section \<open>The report\<close>

lemma done_list_cases:
  obtains (open_at) k where "k = reached_stage m" "1 \<le> k" "k \<le> 5" "done_list m = replicate k True @ replicate (6 - k) False" "am_status m \<noteq> Issued"
  | (all_done) "reached_stage m = 5" "done_list m = replicate 6 True" "am_status m = Issued"
proof -
  have "reached_stage m \<in> {1..5} \<and> done_list m = replicate (reached_stage m) True @ replicate (6 - reached_stage m) False \<and> am_status m \<noteq> Issued \<or>
      reached_stage m = 5 \<and> done_list m = replicate 6 True \<and> am_status m = Issued"
    by (cases "am_status m = Issued"; cases "was_issued m"; cases "was_finalized m"; cases "was_answered m"; cases "was_challenged m")
      (auto simp: done_list_def reached_stage_def was_challenged_def was_answered_def was_finalized_def was_issued_def STAGE_LABELS_def
        numeral_eq_Suc Let_def)
  with that show ?thesis
    by auto
qed

lemma stage_states: "map es_state (sr_stages (computeStages m)) = map (stage_state_at m) [0..<6]"
proof -
  have "length STAGE_LABELS = 6"
    by (simp add: STAGE_LABELS_def)
  then show ?thesis
    by (simp add: computeStages_def stage_status_def Let_def)
qed

lemma stage_bar:
  assumes "done_list m = replicate k True @ replicate (6 - k) False" "reached_stage m = k" "k \<le> 5"
  shows "map (stage_state_at m) [0..<6] =
    replicate k SDone @ (if am_status m = Failed then SFailed else SActive) # replicate (5 - k) SPending"
  using assms by (intro nth_equalityI) (auto simp: stage_state_at_def nth_append nth_Cons' nth_replicate)

lemma stage_of_reached:
  "k \<in> {1, 2, 3, 4, 5} \<Longrightarrow> STAGE_PROGRESS (fst (STAGE_LABELS ! k)) = 100 \<longleftrightarrow> k = 5"
  by (auto simp: STAGE_LABELS_def)

text \<open>The stage report is a progress bar. The stages before the one reached are done, the one reached is active (failed
  for an enrollment that ended in failure) and the later ones are pending; all six are done exactly for an issued
  enrollment. A failed one reports the stage as failed and at most 90 percent; the progress is 100 exactly for one that is
  issued or has its certificate recorded.\<close>

theorem computeStages_bar:
  "\<exists>k. 1 \<le> k \<and> k \<le> 6 \<and>
     map es_state (sr_stages (computeStages m)) =
       (if k = 6 then replicate 6 SDone
        else replicate k SDone @ (if am_status m = Failed then SFailed else SActive) # replicate (5 - k) SPending) \<and>
     (k = 6 \<longleftrightarrow> am_status m = Issued) \<and>
     (sr_progress (computeStages m) = 100 \<longleftrightarrow> am_status m \<noteq> Failed \<and> was_issued m) \<and>
     (am_status m = Failed \<longrightarrow> sr_stage (computeStages m) = failed \<and> sr_progress (computeStages m) \<le> 90)"
proof (cases m rule: done_list_cases)
  case (open_at k)
  have "was_issued m = done_list m ! 4"
    by (simp add: done_list_def)
  also have "\<dots> \<longleftrightarrow> k = 5"
    using open_at by (auto simp: nth_append)
  finally have five: "was_issued m \<longleftrightarrow> k = 5" .
  have "sr_progress (computeStages m) = 100 \<longleftrightarrow> am_status m \<noteq> Failed \<and> was_issued m"
  proof -
    have "k \<in> {1, 2, 3, 4, 5}"
      using open_at(2,3) by auto
    then show ?thesis
      using stage_of_reached [of k] open_at(1) five by (auto simp: computeStages_def Let_def)
  qed
  moreover have "map es_state (sr_stages (computeStages m)) =
      replicate k SDone @ (if am_status m = Failed then SFailed else SActive) # replicate (5 - k) SPending"
    unfolding stage_states using stage_bar open_at by simp
  ultimately show ?thesis
    using open_at by (intro exI [of _ k]) (auto simp: computeStages_def Let_def)
next
  case all_done
  have "map (stage_state_at m) [0..<6] = replicate 6 SDone"
    using all_done by (intro nth_equalityI) (auto simp: stage_state_at_def)
  with all_done show ?thesis
    unfolding stage_states by (intro exI [of _ 6]) (auto simp: computeStages_def STAGE_LABELS_def was_issued_def Let_def)
qed

definition example_failed_milestones :: AcmeMilestones where
  "example_failed_milestones = \<lparr>am_status = Failed, am_createdAt = ''t0'', am_challengeReceivedAt = Some ''t1'', am_hasDigest = True,
     am_replySentAt = Some ''t2'', am_finalizedAt = None, am_issuedAt = None, am_failedAt = Some ''t3'', am_orderStatus = None\<rparr>"

theorem computeStages_bar_witness:
  "sr_stage (computeStages example_failed_milestones) = failed \<and> sr_progress (computeStages example_failed_milestones) \<le> 90"
  using computeStages_bar [of example_failed_milestones] by (auto simp: example_failed_milestones_def)

section \<open>Pruning does not loosen the limits\<close>

lemma pruned_pending: "pending_of (pruneFinishedEnrollments store now) = pending_of store"
  unfolding pending_of_def pruneFinishedEnrollments_def past_retention_def by (induction store) auto

lemma pruned_recent: "recent_of now (pruneFinishedEnrollments store now) = recent_of now store"
  unfolding recent_of_def pruneFinishedEnrollments_def past_retention_def
  by (induction store) (auto simp: ENROLLMENT_RATE_WINDOW_MS_def FINISHED_ENROLLMENT_RETENTION_MS_def split: option.split)

text \<open>Pruning finished enrollments never changes what the limits say: a record is kept as long as it can
  still count.\<close>

theorem prune_keeps_limits:
  "enrollmentLimitProblem (pruneFinishedEnrollments store now) identity now = enrollmentLimitProblem store identity now"
  by (simp add: enrollmentLimitProblem_def pruned_pending pruned_recent)

text \<open>A store as it develops: an enrollment is started when the limits allow it, ends, or is pruned.\<close>

definition ended :: "string \<Rightarrow> enrollment_status \<Rightarrow> enrollment_store \<Rightarrow> enrollment_store" where
  "ended i status store = map (\<lambda>(j, e). (j, if j = i then e\<lparr>ce_status := status\<rparr> else e)) store"

inductive enrollment_reachable :: "enrollment_store \<Rightarrow> bool" where
  none: "enrollment_reachable []"
| start: "enrollment_reachable store \<Longrightarrow> start_enrollment store i identity now = Inr store' \<Longrightarrow> enrollment_reachable store'"
| end_one: "enrollment_reachable store \<Longrightarrow> status \<noteq> Pending \<Longrightarrow> enrollment_reachable (ended i status store)"

lemma ended_pending:
  assumes "status \<noteq> Pending"
  shows "length (pending_of (ended i status store)) \<le> length (pending_of store)"
    and "length (of_identity identity (pending_of (ended i status store))) \<le> length (of_identity identity (pending_of store))"
  using assms unfolding pending_of_def of_identity_def ended_def by (induction store) (auto split: if_splits)

lemma pending_of_append: "pending_of (a @ b) = pending_of a @ pending_of b"
  and pending_of_single: "pending_of [(i, e)] = (if ce_status e = Pending then [e] else [])"
  by (simp_all add: pending_of_def)

lemma of_identity_append: "of_identity who (a @ b) = of_identity who a @ of_identity who b"
  and of_identity_single: "of_identity who [e] = (if js_lower (ce_identity e) = js_lower who then [e] else [])"
  by (simp_all add: of_identity_def)

text \<open>C39: The limits hold. However enrollments are started, end and are pruned, at most three are pending for an address,
  in any spelling, and at most a thousand in all.\<close>

theorem pending_limits:
  assumes "enrollment_reachable store"
  shows "length (pending_of store) \<le> MAX_PENDING_ENROLLMENTS \<and>
    length (of_identity identity (pending_of store)) \<le> MAX_PENDING_ENROLLMENTS_PER_IDENTITY"
  using assms
proof (induction rule: enrollment_reachable.induct)
  case none
  then show ?case by (simp add: pending_of_def of_identity_def)
next
  case (start store i who now store')
  then have free: "enrollmentLimitProblem store who now = None" and store': "store' = pruneFinishedEnrollments store now @
      [(i, \<lparr>ce_identity = who, ce_status = Pending, ce_createdAt = Some now\<rparr>)]"
    by (auto simp: start_enrollment_def split: option.splits)
  have "length (pending_of store) < MAX_PENDING_ENROLLMENTS"
      "length (of_identity who (pending_of store)) < MAX_PENDING_ENROLLMENTS_PER_IDENTITY"
    using free by (auto simp: enrollmentLimitProblem_def split: if_splits)
  moreover have "of_identity identity (pending_of store) = of_identity who (pending_of store)" if "js_lower who = js_lower identity"
    using that by (simp add: of_identity_def)
  ultimately show ?case
    using start.IH unfolding store' by (auto simp: pending_of_append pending_of_single of_identity_append of_identity_single pruned_pending)
next
  case (end_one store status i)
  then show ?case
    using ended_pending [where status = status and i = i and store = store] by (meson le_trans)
qed

definition example_enrollment :: CountedEnrollment where
  "example_enrollment = \<lparr>ce_identity = ''a@b.c'', ce_status = Pending, ce_createdAt = Some 5\<rparr>"

theorem pending_limits_witness:
  "length (pending_of [(''e1'', example_enrollment)]) \<le> MAX_PENDING_ENROLLMENTS \<and>
   length (of_identity ''a@b.c'' (pending_of [(''e1'', example_enrollment)])) \<le> MAX_PENDING_ENROLLMENTS_PER_IDENTITY"
proof (rule pending_limits)
  have "start_enrollment [] ''e1'' ''a@b.c'' 5 = Inr [(''e1'', example_enrollment)]"
    by (simp add: start_enrollment_def example_enrollment_def enrollmentLimitProblem_def pruneFinishedEnrollments_def pending_of_def
        recent_of_def of_identity_def MAX_PENDING_ENROLLMENTS_def MAX_PENDING_ENROLLMENTS_PER_IDENTITY_def
        MAX_ENROLLMENTS_PER_DAY_def MAX_ENROLLMENTS_PER_IDENTITY_PER_DAY_def)
  from start [OF none this] show "enrollment_reachable [(''e1'', example_enrollment)]" .
qed

end
