(* ===== verification/Mbox.thy ===== *)
theory Mbox
  imports Json_Text
begin

text \<open>
  The mbox files of exports and imports (\<^verbatim>\<open>src/src/util/MboxUtils.ts\<close>). A \<^verbatim>\<open>Buffer\<close> is the \<^typ>\<open>string\<close> of its bytes (the
  source reads and writes them as \<^verbatim>\<open>latin1\<close>). The reader is given as the list of the chunks the stream delivers and
  answers with the messages it yielded and the error it then threw, if any.

  The lemmas show that the streaming reader equals a reader of whole lines, whatever the chunks, and that every
  exported file is read back message by message.
\<close>

section \<open>Writing\<close>

abbreviation line_feed :: char where "line_feed \<equiv> CHR 0x0A"
abbreviation carriage_return :: char where "carriage_return \<equiv> CHR 0x0D"

text \<open>\<^verbatim>\<open>formatAsctime()\<close>; an invalid date prints what JavaScript interpolates for its missing parts.\<close>

definition asctime_days :: "string list" where
  "asctime_days = [''Sun'', ''Mon'', ''Tue'', ''Wed'', ''Thu'', ''Fri'', ''Sat'']"

definition asctime_months :: "string list" where
  "asctime_months = [''Jan'', ''Feb'', ''Mar'', ''Apr'', ''May'', ''Jun'', ''Jul'', ''Aug'', ''Sep'', ''Oct'', ''Nov'', ''Dec'']"

text \<open>\<^verbatim>\<open>`${names[i]}`\<close>.\<close>

definition name_at :: "string list \<Rightarrow> int \<Rightarrow> string" where
  "name_at names i = (if 0 \<le> i \<and> nat i < length names then names ! nat i else ''undefined'')"

definition pad_space :: "nat \<Rightarrow> string \<Rightarrow> string" where
  "pad_space w s = replicate (w - length s) (CHR '' '') @ s"

definition formatAsctime :: "js_time \<Rightarrow> string" where
  "formatAsctime date =
     (case date of
        None \<Rightarrow> ''undefined undefined NaN NaN:NaN:NaN NaN''
      | Some t \<Rightarrow>
          (let days = t div 86400000; ms = t mod 86400000; (y, m, d) = civil_date days
           in name_at asctime_days ((days + 4) mod 7) @ '' '' @ name_at asctime_months (m - 1) @ '' '' @
              pad_space 2 (int_text d) @ '' '' @
              two (ms div 3600000) @ '':'' @ two (ms div 60000 mod 60) @ '':'' @ two (ms div 1000 mod 60) @ '' '' @ int_text y))"

text \<open>\<^verbatim>\<open>s.replace(/^pat/gm, rep)\<close> for a non-empty \<open>pat\<close> that ends in no line break: \<^verbatim>\<open>^\<close> matches at the start (\<open>bol\<close>) and
  after a line feed or carriage return.\<close>

function replace_line_starts :: "string \<Rightarrow> string \<Rightarrow> bool \<Rightarrow> string \<Rightarrow> string" where
  "replace_line_starts pat rep bol [] = []"
| "replace_line_starts pat rep bol (c # s) =
     (if bol \<and> prefix pat (c # s) then rep @ replace_line_starts pat rep False (drop (length pat - 1) s)
      else c # replace_line_starts pat rep (c = line_feed \<or> c = carriage_return) s)"
  by pat_completeness auto
termination
  by (relation "measure (\<lambda>(pat, rep, bol, s). length s)") auto

definition escape_from :: "string \<Rightarrow> string" where
  "escape_from s = replace_line_starts ''From '' ''> From '' True s"

definition unescape_from :: "string \<Rightarrow> string" where
  "unescape_from s = replace_line_starts ''> From '' ''From '' True s"

definition mbox_separator_line :: "string \<Rightarrow> js_time \<Rightarrow> string" where
  "mbox_separator_line fromAddress date =
     (let safeFromAddress = filter (\<lambda>c. c \<noteq> carriage_return \<and> c \<noteq> line_feed) fromAddress
      in ''From '' @ (if safeFromAddress \<noteq> [] then safeFromAddress else ''MAILER-DAEMON'') @ '' '' @ formatAsctime date)"

definition buildMboxEntry :: "string \<Rightarrow> string \<Rightarrow> js_time \<Rightarrow> string" where
  "buildMboxEntry rawMime fromAddress date =
     mbox_separator_line fromAddress date @ [line_feed] @ escape_from rawMime @ [line_feed]"

section \<open>Reading\<close>

definition MAX_MBOX_MESSAGE_BYTES :: nat where
  "MAX_MBOX_MESSAGE_BYTES = 100 * 1024 * 1024"

definition MAX_MBOX_SEPARATOR_LINE :: nat where
  "MAX_MBOX_SEPARATOR_LINE = 4096"

definition finalizeMboxMessage :: "string \<Rightarrow> string" where
  "finalizeMboxMessage raw =
     (let unescaped = unescape_from raw
      in if unescaped \<noteq> [] \<and> last unescaped = line_feed then butlast unescaped else unescaped)"

text \<open>The local variables of \<^verbatim>\<open>parseMbox()\<close> and the messages yielded so far.\<close>

record mbox_state =
  mb_pieces :: "string list"
  mb_size :: nat
  mb_started :: bool
  mb_pending :: string
  mb_inLine :: bool
  mb_yielded :: "string list"

text \<open>A step either throws, with the messages yielded before, or goes on.\<close>

type_synonym mbox_run = "(string list \<times> js_error) + mbox_state"

fun mbox_then :: "mbox_run \<Rightarrow> (mbox_state \<Rightarrow> mbox_run) \<Rightarrow> mbox_run" where
  "mbox_then (Inl e) f = Inl e"
| "mbox_then (Inr st) f = f st"

definition mbox_too_large :: "nat \<Rightarrow> js_error" where
  "mbox_too_large maxMessageBytes =
     OtherError (''The mbox file holds a message larger than '' @ nat_text maxMessageBytes @ '' bytes.'')"

definition addText :: "nat \<Rightarrow> mbox_state \<Rightarrow> string \<Rightarrow> mbox_run" where
  "addText maxMessageBytes st t =
     (if \<not> mb_started st \<or> t = [] then Inr st
      else if mb_size st + length t > maxMessageBytes then Inl (mb_yielded st, mbox_too_large maxMessageBytes)
      else Inr (st\<lparr>mb_size := mb_size st + length t, mb_pieces := mb_pieces st @ [t]\<rparr>))"

definition mbox_separator :: "nat \<Rightarrow> mbox_state \<Rightarrow> mbox_run" where
  "mbox_separator maxMessageBytes st =
     (if mb_started st \<and> mb_size st = 0 then addText maxMessageBytes st (mb_pending st @ [line_feed])
      else Inr (st\<lparr>mb_yielded := mb_yielded st @ (if mb_started st then [finalizeMboxMessage (concat (mb_pieces st))] else []),
                   mb_pieces := [], mb_size := 0, mb_started := True\<rparr>))"

definition is_separator_line :: "string \<Rightarrow> bool" where
  "is_separator_line l \<longleftrightarrow> prefix ''From '' l \<and> length l \<le> MAX_MBOX_SEPARATOR_LINE"

definition couldBeSeparator :: "string \<Rightarrow> bool" where
  "couldBeSeparator p \<longleftrightarrow>
     (if prefix ''From '' p then length p \<le> MAX_MBOX_SEPARATOR_LINE else length p < 5 \<and> prefix p ''From '')"

text \<open>The loop over one chunk: \<open>rest\<close> is the chunk from \<^verbatim>\<open>pos\<close> on.\<close>

function read_chunk :: "nat \<Rightarrow> mbox_state \<Rightarrow> string \<Rightarrow> mbox_run" where
  "read_chunk maxMessageBytes st [] = Inr st"
| "read_chunk maxMessageBytes st (c # cs) =
     (let rest = c # cs
      in if mb_inLine st then
           (case js_index_of line_feed rest of
              None \<Rightarrow> mbox_then (addText maxMessageBytes st rest) (\<lambda>st. Inr (st\<lparr>mb_inLine := True\<rparr>))
            | Some i \<Rightarrow>
                mbox_then (addText maxMessageBytes st (take (Suc i) rest))
                  (\<lambda>st. read_chunk maxMessageBytes (st\<lparr>mb_inLine := False\<rparr>) (drop (Suc i) rest)))
         else
           (case js_index_of line_feed rest of
              None \<Rightarrow>
                (let st = st\<lparr>mb_pending := mb_pending st @ rest\<rparr>
                 in if couldBeSeparator (mb_pending st) then Inr st
                    else mbox_then (addText maxMessageBytes st (mb_pending st))
                           (\<lambda>st. Inr (st\<lparr>mb_pending := [], mb_inLine := True\<rparr>)))
            | Some i \<Rightarrow>
                (let st = st\<lparr>mb_pending := mb_pending st @ take i rest\<rparr>
                 in mbox_then
                      (if is_separator_line (mb_pending st) then mbox_separator maxMessageBytes st
                       else addText maxMessageBytes st (mb_pending st @ [line_feed]))
                      (\<lambda>st. read_chunk maxMessageBytes (st\<lparr>mb_pending := []\<rparr>) (drop (Suc i) rest)))))"
  by pat_completeness auto
termination
  by (relation "measure (\<lambda>(m, st, s). length s)") auto

definition mbox_start :: mbox_state where
  "mbox_start = \<lparr>mb_pieces = [], mb_size = 0, mb_started = False, mb_pending = [], mb_inLine = False, mb_yielded = []\<rparr>"

fun read_chunks :: "nat \<Rightarrow> mbox_state \<Rightarrow> string list \<Rightarrow> mbox_run" where
  "read_chunks maxMessageBytes st [] = addText maxMessageBytes st (mb_pending st)"
| "read_chunks maxMessageBytes st (chunk # chunks) =
     mbox_then (read_chunk maxMessageBytes st chunk) (\<lambda>st. read_chunks maxMessageBytes st chunks)"

definition parseMbox :: "string list \<Rightarrow> nat \<Rightarrow> string list \<times> js_error option" where
  "parseMbox chunks maxMessageBytes =
     (case read_chunks maxMessageBytes mbox_start chunks of
        Inl (yielded, e) \<Rightarrow> (yielded, Some e)
      | Inr st \<Rightarrow>
          (mb_yielded st @ (if mb_started st then [finalizeMboxMessage (concat (mb_pieces st))] else []), None))"

section \<open>The streaming reader is a reader of lines\<close>

text \<open>The reference: the file cut at its line feeds, the last part being the line that never ended. \<open>current\<close> is the text
  of the message being read (\<^const>\<open>None\<close> before the first separator); \<open>plain\<close> says that the first line is known to be text.\<close>

fun with_message :: "string \<Rightarrow> string list \<times> js_error option \<Rightarrow> string list \<times> js_error option" where
  "with_message m (ms, e) = (m # ms, e)"

definition grown :: "nat \<Rightarrow> string option \<Rightarrow> string \<Rightarrow> string option option" where
  "grown maxMessageBytes current t =
     (case current of
        None \<Rightarrow> Some None
      | Some u \<Rightarrow> if length u + length t > maxMessageBytes then None else Some (Some (u @ t)))"

fun read_lines :: "nat \<Rightarrow> string option \<Rightarrow> bool \<Rightarrow> string list \<Rightarrow> string list \<times> js_error option" where
  "read_lines m current plain [] = ([], None)"
| "read_lines m current plain [l] =
     (case grown m current l of
        None \<Rightarrow> ([], Some (mbox_too_large m))
      | Some None \<Rightarrow> ([], None)
      | Some (Some t) \<Rightarrow> ([finalizeMboxMessage t], None))"
| "read_lines m current plain (l # l' # ls) =
     (if \<not> plain \<and> is_separator_line l \<and> current \<noteq> Some [] then
        (case current of
           None \<Rightarrow> read_lines m (Some []) False (l' # ls)
         | Some t \<Rightarrow> with_message (finalizeMboxMessage t) (read_lines m (Some []) False (l' # ls)))
      else
        (case grown m current (l @ [line_feed]) of
           None \<Rightarrow> ([], Some (mbox_too_large m))
         | Some current' \<Rightarrow> read_lines m current' False (l' # ls)))"

definition mbox_reference :: "string \<Rightarrow> nat \<Rightarrow> string list \<times> js_error option" where
  "mbox_reference file maxMessageBytes = read_lines maxMessageBytes None False (js_split line_feed file)"

lemma js_split_prefix:
  assumes "c \<notin> set a"
  obtains p ps where "js_split c s = p # ps" "js_split c (a @ s) = (a @ p) # ps"
proof -
  obtain p ps where s: "js_split c s = p # ps"
    by (cases "js_split c s") auto
  have "js_split c (a @ s) = (a @ p) # ps"
    using assms by (induction a) (auto simp: s)
  with s show ?thesis
    by (rule that)
qed

lemma js_split_line: "c \<notin> set a \<Longrightarrow> js_split c (a @ c # s) = a # js_split c s"
  by (simp add: js_split_sep js_split_absent)

lemma grown_append:
  assumes "grown m current a = Some current'"
  shows "grown m current (a @ b) = grown m current' b"
  using assms by (auto simp: grown_def split: option.splits if_splits)

lemma grown_fails: "grown m current a = None \<Longrightarrow> grown m current (a @ b) = None"
  by (auto simp: grown_def split: option.splits if_splits)

text \<open>A line known to be text may be added in two parts.\<close>

lemma read_lines_part:
  assumes "line_feed \<notin> set a"
  shows "read_lines m current True (js_split line_feed (a @ s)) =
    (case grown m current a of
       None \<Rightarrow> ([], Some (mbox_too_large m))
     | Some current' \<Rightarrow> read_lines m current' True (js_split line_feed s))"
proof -
  obtain p ps where "js_split line_feed s = p # ps" "js_split line_feed (a @ s) = (a @ p) # ps"
    using assms by (rule js_split_prefix)
  then show ?thesis
    by (cases ps) (auto simp: grown_append grown_fails split: option.split)
qed

lemma not_separator_extended:
  assumes "\<not> couldBeSeparator p"
  shows "\<not> is_separator_line (p @ q)"
proof
  assume sep: "is_separator_line (p @ q)"
  then have "prefix ''From '' p \<or> strict_prefix p ''From ''"
    by (auto simp: is_separator_line_def prefix_order.less_le_not_le prefix_append dest: prefix_same_cases [of "''From ''" "p @ q" p])
  then show False
  proof
    assume "prefix ''From '' p"
    with assms sep show False
      by (simp add: couldBeSeparator_def is_separator_line_def)
  next
    assume p: "strict_prefix p ''From ''"
    then have "length p < 5"
      using prefix_length_less by fastforce
    with assms p show False
      by (auto simp: couldBeSeparator_def MAX_MBOX_SEPARATOR_LINE_def strict_prefix_def split: if_splits)
  qed
qed

lemma read_lines_plain:
  assumes "line_feed \<notin> set p" "\<not> couldBeSeparator p"
  shows "read_lines m current False (js_split line_feed (p @ s)) = read_lines m current True (js_split line_feed (p @ s))"
proof -
  obtain q qs where "js_split line_feed (p @ s) = (p @ q) # qs"
    using assms(1) by (rule js_split_prefix)
  moreover have "\<not> is_separator_line (p @ q)"
    using assms(2) by (rule not_separator_extended)
  ultimately show ?thesis
    by (cases qs) auto
qed

text \<open>What the reader still has to answer in a state, with the rest of the file.\<close>

definition mbox_current :: "mbox_state \<Rightarrow> string option" where
  "mbox_current st = (if mb_started st then Some (concat (mb_pieces st)) else None)"

definition mbox_rest :: "nat \<Rightarrow> mbox_state \<Rightarrow> string \<Rightarrow> string list \<times> js_error option" where
  "mbox_rest m st s =
     (case read_lines m (mbox_current st) (mb_inLine st) (js_split line_feed (mb_pending st @ s)) of
        (ms, e) \<Rightarrow> (mb_yielded st @ ms, e))"

fun mbox_answer :: "nat \<Rightarrow> mbox_run \<Rightarrow> string \<Rightarrow> string list \<times> js_error option" where
  "mbox_answer m (Inl (ms, e)) s = (ms, Some e)"
| "mbox_answer m (Inr st) s = mbox_rest m st s"

definition mbox_ok :: "nat \<Rightarrow> mbox_state \<Rightarrow> bool" where
  "mbox_ok m st \<longleftrightarrow> mb_size st = length (concat (mb_pieces st)) \<and> mb_size st \<le> m \<and>
     line_feed \<notin> set (mb_pending st) \<and> (mb_inLine st \<longrightarrow> mb_pending st = [])"

lemma addText_cases:
  assumes "mbox_ok m st"
  obtains (grew) st' where "addText m st t = Inr st'" "mbox_ok m st'" "grown m (mbox_current st) t = Some (mbox_current st')"
      "mb_inLine st' = mb_inLine st" "mb_pending st' = mb_pending st" "mb_yielded st' = mb_yielded st"
  | (failed) "addText m st t = Inl (mb_yielded st, mbox_too_large m)" "grown m (mbox_current st) t = None"
proof (cases "\<not> mb_started st \<or> t = []")
  case True
  then show ?thesis
    using assms by (intro grew [of st]) (auto simp: addText_def grown_def mbox_current_def mbox_ok_def)
next
  case False
  then show ?thesis
  proof (cases "mb_size st + length t > m")
    case True
    with False assms show ?thesis
      by (intro failed) (auto simp: addText_def grown_def mbox_current_def mbox_ok_def)
  next
    case fits: False
    show ?thesis
      using False fits assms
      by (intro grew [of "st\<lparr>mb_size := mb_size st + length t, mb_pieces := mb_pieces st @ [t]\<rparr>"])
        (auto simp: addText_def grown_def mbox_current_def mbox_ok_def)
  qed
qed

lemma mbox_current_update [simp]:
  "mbox_current (st\<lparr>mb_pending := p\<rparr>) = mbox_current st" "mbox_current (st\<lparr>mb_inLine := b\<rparr>) = mbox_current st"
  by (simp_all add: mbox_current_def)

lemma mbox_ok_update:
  "mbox_ok m st \<Longrightarrow> mbox_ok m (st\<lparr>mb_pending := []\<rparr>)" "mbox_ok m st \<Longrightarrow> mbox_ok m (st\<lparr>mb_inLine := False\<rparr>)"
  "mbox_ok m st \<Longrightarrow> mbox_ok m (st\<lparr>mb_pending := [], mb_inLine := True\<rparr>)"
  by (simp_all add: mbox_ok_def)

text \<open>The two things the loop does: a line ends, or the chunk does.\<close>

definition end_line :: "nat \<Rightarrow> mbox_state \<Rightarrow> string \<Rightarrow> mbox_run" where
  "end_line m st a =
     (if mb_inLine st then mbox_then (addText m st (a @ [line_feed])) (\<lambda>st. Inr (st\<lparr>mb_inLine := False\<rparr>))
      else (let st = st\<lparr>mb_pending := mb_pending st @ a\<rparr>
            in mbox_then
                 (if is_separator_line (mb_pending st) then mbox_separator m st else addText m st (mb_pending st @ [line_feed]))
                 (\<lambda>st. Inr (st\<lparr>mb_pending := []\<rparr>))))"

definition end_chunk :: "nat \<Rightarrow> mbox_state \<Rightarrow> string \<Rightarrow> mbox_run" where
  "end_chunk m st r =
     (if mb_inLine st then mbox_then (addText m st r) (\<lambda>st. Inr (st\<lparr>mb_inLine := True\<rparr>))
      else (let st = st\<lparr>mb_pending := mb_pending st @ r\<rparr>
            in if couldBeSeparator (mb_pending st) then Inr st
               else mbox_then (addText m st (mb_pending st)) (\<lambda>st. Inr (st\<lparr>mb_pending := [], mb_inLine := True\<rparr>))))"

lemma mbox_then_assoc: "mbox_then (mbox_then r f) g = mbox_then r (\<lambda>st. mbox_then (f st) g)"
  by (cases r) auto

lemma read_chunk_line:
  assumes "line_feed \<notin> set a"
  shows "read_chunk m st (a @ line_feed # b) = mbox_then (end_line m st a) (\<lambda>st. read_chunk m st b)"
proof -
  obtain c cs where chunk: "a @ line_feed # b = c # cs"
    by (cases a) auto
  have index: "js_index_of line_feed (c # cs) = Some (length a)"
    unfolding chunk [symmetric] using assms by (rule js_index_of_append)
  have parts: "take (length a) (c # cs) = a" "take (Suc (length a)) (c # cs) = a @ [line_feed]" "drop (Suc (length a)) (c # cs) = b"
    unfolding chunk [symmetric] by simp_all
  show ?thesis
    unfolding chunk read_chunk.simps Let_def index option.case parts end_line_def
    by (simp add: mbox_then_assoc)
qed

lemma read_chunk_tail:
  assumes "line_feed \<notin> set r" "r \<noteq> []"
  shows "read_chunk m st r = end_chunk m st r"
proof -
  obtain c cs where r: "r = c # cs"
    using assms(2) by (cases r) auto
  have "js_index_of line_feed (c # cs) = None"
    using assms(1) unfolding r by (rule js_index_of_absent)
  then show ?thesis
    unfolding r read_chunk.simps Let_def end_chunk_def by simp
qed

abbreviation mbox_sound :: "nat \<Rightarrow> mbox_run \<Rightarrow> string \<Rightarrow> string list \<times> js_error option \<Rightarrow> bool" where
  "mbox_sound m r s answer \<equiv> mbox_answer m r s = answer \<and> (\<forall>st. r = Inr st \<longrightarrow> mbox_ok m st)"

lemma end_chunk_sound:
  assumes ok: "mbox_ok m st" and free: "line_feed \<notin> set r"
  shows "mbox_sound m (end_chunk m st r) s (mbox_rest m st (r @ s))"
proof (cases "mb_inLine st")
  case True
  with ok have "mb_pending st = []"
    by (simp add: mbox_ok_def)
  with True free show ?thesis
    by (cases rule: addText_cases [OF ok, where t = r])
      (auto simp: end_chunk_def mbox_rest_def read_lines_part mbox_ok_def)
next
  case False
  let ?st = "st\<lparr>mb_pending := mb_pending st @ r\<rparr>"
  have ok': "mbox_ok m ?st" and line: "line_feed \<notin> set (mb_pending st @ r)"
    using ok free False by (auto simp: mbox_ok_def)
  show ?thesis
  proof (cases "couldBeSeparator (mb_pending st @ r)")
    case True
    with False ok' show ?thesis
      by (simp add: end_chunk_def mbox_rest_def)
  next
    case plain: False
    have "read_lines m (mbox_current st) False (js_split line_feed (mb_pending st @ r @ s)) =
        (case grown m (mbox_current st) (mb_pending st @ r) of
           None \<Rightarrow> ([], Some (mbox_too_large m))
         | Some current' \<Rightarrow> read_lines m current' True (js_split line_feed s))"
      using read_lines_plain [OF line plain, where s = s] read_lines_part [OF line, where s = s] by simp
    with False plain show ?thesis
      by (cases rule: addText_cases [OF ok', where t = "mb_pending st @ r"])
        (auto simp: end_chunk_def mbox_rest_def mbox_ok_update)
  qed
qed

lemma separator_sound:
  assumes ok: "mbox_ok m st" and sep: "is_separator_line (mb_pending st)" and line: "\<not> mb_inLine st"
  shows "mbox_sound m (mbox_then (mbox_separator m st) (\<lambda>st. Inr (st\<lparr>mb_pending := []\<rparr>))) s (mbox_rest m st (line_feed # s))"
proof -
  have split: "js_split line_feed (mb_pending st @ line_feed # s) = mb_pending st # js_split line_feed s"
    using ok by (simp add: mbox_ok_def js_split_line)
  obtain l ls where ls: "js_split line_feed s = l # ls"
    by (cases "js_split line_feed s") auto
  show ?thesis
  proof (cases "mb_started st \<and> mb_size st = 0")
    case True
    then have "mbox_current st = Some []"
      using ok by (simp add: mbox_current_def mbox_ok_def)
    with True line sep show ?thesis
      by (cases rule: addText_cases [OF ok, where t = "mb_pending st @ [line_feed]"])
        (auto simp: mbox_separator_def mbox_rest_def split ls mbox_ok_update)
  next
    case False
    have "mbox_current st \<noteq> Some []"
      using False ok by (auto simp: mbox_current_def mbox_ok_def)
    then show ?thesis
      using False line sep ok
      by (cases "mb_started st")
        (auto simp: mbox_separator_def mbox_rest_def split ls mbox_current_def mbox_ok_def split: prod.splits)
  qed
qed

lemma end_line_sound:
  assumes ok: "mbox_ok m st" and free: "line_feed \<notin> set a"
  shows "mbox_sound m (end_line m st a) s (mbox_rest m st (a @ line_feed # s))"
proof (cases "mb_inLine st")
  case True
  with ok have pending: "mb_pending st = []"
    by (simp add: mbox_ok_def)
  obtain l ls where "js_split line_feed s = l # ls"
    by (cases "js_split line_feed s") auto
  with True pending free show ?thesis
    by (cases rule: addText_cases [OF ok, where t = "a @ [line_feed]"])
      (auto simp: end_line_def mbox_rest_def js_split_line mbox_ok_update)
next
  case False
  let ?st = "st\<lparr>mb_pending := mb_pending st @ a\<rparr>"
  have ok': "mbox_ok m ?st" and line: "line_feed \<notin> set (mb_pending st @ a)"
    using ok free False by (auto simp: mbox_ok_def)
  have rest: "mbox_rest m st (a @ line_feed # s) = mbox_rest m ?st (line_feed # s)"
    by (simp add: mbox_rest_def)
  show ?thesis
  proof (cases "is_separator_line (mb_pending st @ a)")
    case True
    with False ok' show ?thesis
      unfolding rest by (simp add: end_line_def separator_sound)
  next
    case plain: False
    obtain l ls where "js_split line_feed s = l # ls"
      by (cases "js_split line_feed s") auto
    moreover have "js_split line_feed ((mb_pending st @ a) @ line_feed # s) = (mb_pending st @ a) # js_split line_feed s"
      using line by (rule js_split_line)
    ultimately show ?thesis
      using False plain
      by (cases rule: addText_cases [OF ok', where t = "(mb_pending st @ a) @ [line_feed]"])
        (auto simp: end_line_def mbox_rest_def mbox_ok_update)
  qed
qed

lemma read_chunk_sound:
  "mbox_ok m st \<Longrightarrow> mbox_sound m (read_chunk m st chunk) s (mbox_rest m st (chunk @ s))"
proof (induction chunk arbitrary: st rule: length_induct)
  case (1 chunk)
  show ?case
  proof (cases "line_feed \<in> set chunk")
    case True
    then obtain a b where chunk: "chunk = a @ line_feed # b" and free: "line_feed \<notin> set a"
      by (meson split_list_first)
    show ?thesis
    proof (cases "end_line m st a")
      case (Inl e)
      then show ?thesis
        using end_line_sound [OF "1.prems" free, where s = "b @ s"]
        by (cases e) (auto simp: chunk read_chunk_line [OF free])
    next
      case (Inr st')
      then have "mbox_sound m (read_chunk m st' b) s (mbox_rest m st' (b @ s))"
        using "1.IH" [rule_format, of b st'] end_line_sound [OF "1.prems" free, where s = "b @ s"] by (simp add: chunk)
      then show ?thesis
        using Inr end_line_sound [OF "1.prems" free, where s = "b @ s"] by (simp add: chunk read_chunk_line [OF free])
    qed
  next
    case False
    then show ?thesis
      using end_chunk_sound [OF "1.prems" False] "1.prems" by (cases "chunk = []") (auto simp: read_chunk_tail)
  qed
qed

definition mbox_result :: "mbox_run \<Rightarrow> string list \<times> js_error option" where
  "mbox_result r =
     (case r of
        Inl (yielded, e) \<Rightarrow> (yielded, Some e)
      | Inr st \<Rightarrow> (mb_yielded st @ (if mb_started st then [finalizeMboxMessage (concat (mb_pieces st))] else []), None))"

lemma end_of_file:
  assumes "mbox_ok m st"
  shows "mbox_result (addText m st (mb_pending st)) = mbox_rest m st []"
proof -
  have "js_split line_feed (mb_pending st) = [mb_pending st]"
    using assms by (simp add: js_split_absent mbox_ok_def)
  then show ?thesis
    by (cases rule: addText_cases [OF assms, where t = "mb_pending st"])
      (auto simp: mbox_result_def mbox_rest_def mbox_current_def split: if_splits)
qed

lemma read_chunks_answer:
  "mbox_ok m st \<Longrightarrow> mbox_result (read_chunks m st chunks) = mbox_rest m st (concat chunks)"
proof (induction chunks arbitrary: st)
  case Nil
  then show ?case by (simp add: end_of_file)
next
  case (Cons chunk chunks)
  note sound = read_chunk_sound [OF Cons.prems, where chunk = chunk and s = "concat chunks"]
  show ?case
  proof (cases "read_chunk m st chunk")
    case (Inl e)
    then show ?thesis
      using sound by (cases e) (auto simp: mbox_result_def)
  next
    case (Inr st')
    then show ?thesis
      using sound Cons.IH [of st'] by simp
  qed
qed

text \<open>C17: The streaming reader answers what the reader of whole lines does: the chunks in which a file arrives never
  change the messages read from it, or the error.\<close>

theorem parseMbox_chunks: "parseMbox chunks maxMessageBytes = mbox_reference (concat chunks) maxMessageBytes"
proof -
  have "parseMbox chunks maxMessageBytes = mbox_result (read_chunks maxMessageBytes mbox_start chunks)"
    by (simp add: parseMbox_def mbox_result_def)
  also have "\<dots> = mbox_rest maxMessageBytes mbox_start (concat chunks)"
    by (rule read_chunks_answer) (simp add: mbox_ok_def mbox_start_def)
  also have "\<dots> = mbox_reference (concat chunks) maxMessageBytes"
    by (simp add: mbox_rest_def mbox_reference_def mbox_start_def mbox_current_def)
  finally show ?thesis .
qed

section \<open>What is exported is read back\<close>

text \<open>Whether a line of the text, in the sense of \<^verbatim>\<open>^\<close>, starts with \<open>pat\<close>.\<close>

fun some_line_starts :: "string \<Rightarrow> bool \<Rightarrow> string \<Rightarrow> bool" where
  "some_line_starts pat bol [] = False"
| "some_line_starts pat bol (c # s) =
     (bol \<and> prefix pat (c # s) \<or> some_line_starts pat (c = line_feed \<or> c = carriage_return) s)"

definition no_break :: "string \<Rightarrow> bool" where
  "no_break p \<longleftrightarrow> line_feed \<notin> set p \<and> carriage_return \<notin> set p"

lemma prefix_replaced:
  assumes "prefix p (replace_line_starts pat rep False s @ [line_feed])" "no_break p"
  shows "prefix p s"
  using assms
proof (induction p arbitrary: s)
  case Nil
  then show ?case by simp
next
  case (Cons d p)
  then show ?case
    by (cases s) (auto simp: no_break_def)
qed

lemma prefix_replaced': "prefix p (replace_line_starts pat rep False s) \<Longrightarrow> no_break p \<Longrightarrow> prefix p s"
  by (meson prefix_prefix prefix_replaced)

lemma some_line_starts_skip: "no_break a \<Longrightarrow> \<not> some_line_starts pat False (a @ t) = (\<not> some_line_starts pat False t)"
  by (induction a) (auto simp: no_break_def)

lemma unescape_escape:
  "\<not> some_line_starts ''> From '' bol s \<Longrightarrow>
   replace_line_starts ''> From '' ''From '' bol (replace_line_starts ''From '' ''> From '' bol s @ [line_feed]) = s @ [line_feed]"
proof (induction s arbitrary: bol rule: length_induct)
  case (1 s)
  show ?case
  proof (cases s)
    case Nil
    then show ?thesis by simp
  next
    case (Cons c u)
    show ?thesis
    proof (cases "bol \<and> prefix ''From '' s")
      case True
      then obtain t where s: "s = ''From '' @ t"
        by (auto simp: prefix_def)
      have "\<not> some_line_starts ''> From '' False t"
        using "1.prems" unfolding s by simp
      then have "replace_line_starts ''> From '' ''From '' False (replace_line_starts ''From '' ''> From '' False t @ [line_feed]) = t @ [line_feed]"
        using "1.IH" [rule_format, of t False] by (simp add: s)
      with True show ?thesis
        by (simp add: s)
    next
      case False
      let ?b = "c = line_feed \<or> c = carriage_return"
      let ?e = "replace_line_starts ''From '' ''> From '' ?b u"
      have esc: "replace_line_starts ''From '' ''> From '' bol s = c # ?e"
        using False unfolding Cons by (simp only: replace_line_starts.simps if_False)
      have rest: "\<not> some_line_starts ''> From '' ?b u" and here: "\<not> (bol \<and> prefix ''> From '' (c # u))"
        using "1.prems" Cons by auto
      have "\<not> (bol \<and> prefix ''> From '' ((c # ?e) @ [line_feed]))"
      proof
        assume match: "bol \<and> prefix ''> From '' ((c # ?e) @ [line_feed])"
        then have "c = CHR ''>''" "prefix '' From '' (?e @ [line_feed])"
          by auto
        then have "prefix '' From '' u"
          using prefix_replaced [of "'' From ''"] by (simp add: no_break_def)
        with match here \<open>c = CHR ''>''\<close> show False
          by simp
      qed
      moreover have "replace_line_starts ''> From '' ''From '' ?b (?e @ [line_feed]) = u @ [line_feed]"
        using "1.IH" [rule_format, OF _ rest] Cons by simp
      ultimately show ?thesis
        unfolding esc unfolding Cons append_Cons replace_line_starts.simps(2) by (simp only: if_False)
    qed
  qed
qed

text \<open>No line of an escaped text starts like a separator.\<close>

lemma js_split_hd_prefix: "js_split c s = p # ps \<Longrightarrow> prefix p s"
proof -
  assume "js_split c s = p # ps"
  then have "js_join [c] (p # ps) = s"
    by (metis js_join_split)
  then show ?thesis
    by (cases ps) auto
qed

lemma escaped_lines:
  "js_split line_feed (replace_line_starts ''From '' ''> From '' bol s) = p # ps \<Longrightarrow>
   (\<forall>q\<in>set ps. \<not> prefix ''From '' q) \<and> (bol \<longrightarrow> \<not> prefix ''From '' p)"
proof (induction s arbitrary: bol p ps rule: length_induct)
  case (1 s)
  show ?case
  proof (cases s)
    case Nil
    with "1.prems" show ?thesis by simp
  next
    case (Cons c u)
    show ?thesis
    proof (cases "bol \<and> prefix ''From '' s")
      case True
      then obtain t where s: "s = ''From '' @ t"
        by (auto simp: prefix_def)
      obtain q qs where split: "js_split line_feed (replace_line_starts ''From '' ''> From '' False t) = q # qs"
        by (cases "js_split line_feed (replace_line_starts ''From '' ''> From '' False t)") auto
      then have "\<forall>q\<in>set qs. \<not> prefix ''From '' q"
        using "1.IH" [rule_format, OF _ split] by (auto simp: s)
      moreover have "p = ''> From '' @ q" "ps = qs"
        using "1.prems" True by (auto simp: s split)
      ultimately show ?thesis
        by simp
    next
      case False
      let ?b = "c = line_feed \<or> c = carriage_return"
      let ?e = "replace_line_starts ''From '' ''> From '' ?b u"
      obtain q qs where split: "js_split line_feed ?e = q # qs"
        by (cases "js_split line_feed ?e") auto
      have IH: "(\<forall>q\<in>set qs. \<not> prefix ''From '' q) \<and> (?b \<longrightarrow> \<not> prefix ''From '' q)"
        using "1.IH" [rule_format, OF _ split] Cons by simp
      have cut: "p # ps = (if c = line_feed then [] # q # qs else (c # q) # qs)"
        using "1.prems" False unfolding Cons replace_line_starts.simps by (simp only: if_False js_split.simps split list.case)
      have "\<not> prefix ''From '' (c # q)" if "bol"
      proof
        assume "prefix ''From '' (c # q)"
        then have c: "c = CHR ''F''" "prefix ''rom '' q"
          by auto
        then have "prefix ''rom '' ?e"
          using js_split_hd_prefix [OF split] prefix_order.trans by blast
        then have "prefix ''rom '' u"
          using prefix_replaced' [of "''rom ''"] c by (simp add: no_break_def)
        with False that Cons c show False
          by simp
      qed
      with IH cut show ?thesis
        by (auto split: if_splits)
    qed
  qed
qed

lemma text_lines:
  assumes "\<forall>l\<in>set ls. \<not> is_separator_line l" "length t + length (concat (map (\<lambda>l. l @ [line_feed]) ls)) \<le> m"
  shows "read_lines m (Some t) False (ls @ r # rs) = read_lines m (Some (t @ concat (map (\<lambda>l. l @ [line_feed]) ls))) False (r # rs)"
  using assms
proof (induction ls arbitrary: t)
  case Nil
  then show ?case by simp
next
  case (Cons l ls)
  obtain r' rs' where "ls @ r # rs = r' # rs'"
    by (cases ls) auto
  then show ?case
    using Cons.prems Cons.IH [of "t @ l @ [line_feed]"] by (simp add: grown_def)
qed

lemma concat_lines: "concat (map (\<lambda>l. l @ [line_feed]) (js_split line_feed s)) = s @ [line_feed]"
proof (induction s)
  case Nil
  then show ?case by simp
next
  case (Cons c s)
  then show ?case
    by (cases "js_split line_feed s") auto
qed

lemma int_text_no_break: "no_break (int_text i)"
proof -
  have "\<not> (48 \<le> (of_char line_feed :: nat))" "\<not> (48 \<le> (of_char carriage_return :: nat))"
    by simp_all
  then have "line_feed \<notin> set (nat_text n)" "carriage_return \<notin> set (nat_text n)" for n
    using nat_text_digits by blast+
  then show ?thesis
    by (simp add: int_text_def no_break_def)
qed

lemma no_break_append [simp]: "no_break (a @ b) \<longleftrightarrow> no_break a \<and> no_break b"
  by (auto simp: no_break_def)

lemma no_break_Nil [simp]: "no_break []"
  and no_break_Cons [simp]: "no_break (c # s) \<longleftrightarrow> c \<noteq> line_feed \<and> c \<noteq> carriage_return \<and> no_break s"
  by (auto simp: no_break_def)

lemma no_break_name_at: "\<forall>n\<in>set names. no_break n \<Longrightarrow> no_break (name_at names i)"
  by (auto simp: name_at_def)

lemma formatAsctime_no_break: "no_break (formatAsctime date)"
proof -
  have names: "\<forall>n\<in>set asctime_days. no_break n" "\<forall>n\<in>set asctime_months. no_break n"
    by (simp_all add: asctime_days_def asctime_months_def no_break_def)
  have pad: "no_break (pad_zero w (int_text i))" "no_break (pad_space w (int_text i))" for w i
    using int_text_no_break [of i] by (auto simp: pad_zero_def pad_space_def no_break_def)
  show ?thesis
    by (cases date)
      (simp_all add: formatAsctime_def Let_def two_def pad int_text_no_break no_break_name_at [OF names(1)] no_break_name_at [OF names(2)]
        split: prod.split)
qed

lemma separator_line_free: "line_feed \<notin> set (mbox_separator_line fromAddress date)"
  using formatAsctime_no_break [of date] by (simp add: mbox_separator_line_def Let_def no_break_def)

type_synonym mbox_message = "string \<times> string \<times> js_time"

definition build_mbox :: "mbox_message list \<Rightarrow> string" where
  "build_mbox msgs = concat (map (\<lambda>(raw, fromAddress, date). buildMboxEntry raw fromAddress date) msgs)"

text \<open>A message that fits, and that an mbox file can tell from an escaped one.\<close>

definition exportable :: "nat \<Rightarrow> mbox_message \<Rightarrow> bool" where
  "exportable m = (\<lambda>(raw, fromAddress, date).
     \<not> some_line_starts ''> From '' True raw \<and>
     length (mbox_separator_line fromAddress date) \<le> MAX_MBOX_SEPARATOR_LINE \<and>
     length (escape_from raw) < m)"

lemma read_entry:
  assumes ok: "exportable m (raw, fromAddress, date)" and current: "current \<noteq> Some []"
  shows "read_lines m current False (js_split line_feed (buildMboxEntry raw fromAddress date @ rest)) =
    (case current of
       None \<Rightarrow> read_lines m (Some (escape_from raw @ [line_feed])) False (js_split line_feed rest)
     | Some t \<Rightarrow> with_message (finalizeMboxMessage t)
         (read_lines m (Some (escape_from raw @ [line_feed])) False (js_split line_feed rest)))"
proof -
  let ?sep = "mbox_separator_line fromAddress date" and ?ls = "js_split line_feed (escape_from raw)"
  obtain r rs where rest: "js_split line_feed rest = r # rs"
    by (cases "js_split line_feed rest") auto
  have lines: "js_split line_feed (buildMboxEntry raw fromAddress date @ rest) = ?sep # ?ls @ r # rs"
    using js_split_line [OF separator_line_free] by (simp add: buildMboxEntry_def js_split_sep rest)
  obtain p ps where ls: "?ls = p # ps"
    by (cases ?ls) auto
  have "\<forall>l\<in>set ?ls. \<not> is_separator_line l"
    using escaped_lines [of True raw p ps] ls by (auto simp: is_separator_line_def escape_from_def)
  then have "read_lines m (Some []) False (?ls @ r # rs) = read_lines m (Some (escape_from raw @ [line_feed])) False (r # rs)"
    using text_lines [of ?ls "[]" m r rs] ok by (simp add: concat_lines exportable_def)
  moreover have "is_separator_line ?sep"
    using ok by (simp add: is_separator_line_def mbox_separator_line_def exportable_def Let_def)
  ultimately show ?thesis
    using current unfolding lines rest by (simp add: ls split: option.split)
qed

lemma finalize_exported: "exportable m (raw, fromAddress, date) \<Longrightarrow> finalizeMboxMessage (escape_from raw @ [line_feed]) = raw"
  using unescape_escape [of True raw]
  by (simp add: finalizeMboxMessage_def exportable_def escape_from_def unescape_from_def)

lemma read_built:
  assumes "\<forall>msg\<in>set msgs. exportable m msg" "exportable m (raw, fromAddress, date)"
  shows "read_lines m (Some (escape_from raw @ [line_feed])) False (js_split line_feed (build_mbox msgs)) =
    (raw # map fst msgs, None)"
  using assms
proof (induction msgs arbitrary: raw fromAddress date)
  case Nil
  then show ?case
    using finalize_exported [OF Nil(2)] by (simp add: build_mbox_def grown_def exportable_def)
next
  case (Cons msg msgs)
  obtain raw' from' date' where msg: "msg = (raw', from', date')"
    by (cases msg) auto
  have next': "exportable m (raw', from', date')"
    using Cons.prems(1) msg by simp
  have "build_mbox (msg # msgs) = buildMboxEntry raw' from' date' @ build_mbox msgs"
    by (simp add: build_mbox_def msg)
  then show ?case
    using Cons.prems Cons.IH [OF _ next'] finalize_exported [OF Cons.prems(2)]
    by (simp add: read_entry [OF next'] msg)
qed


definition example_messages :: "mbox_message list" where
  "example_messages =
     [(''Hi'' @ [line_feed] @ ''From here'', ''a@b'' @ [line_feed] @ ''From x'', Some 951782400000), ([], [], None)]"


end
