(* ===== verification/Dkim_Oversign.thy ===== *)
theory Dkim_Oversign
  imports Auth_Results "HOL-Library.Multiset"
begin

text \<open>
  The DKIM oversigning gate (\<^verbatim>\<open>src/src/util/DkimOversignUtils.ts\<close>): a replay-sensitive header is acted on only when a signature
  the trusted hop reported as passing, aligned with the sender, names the header more often than the message has it. The
  source keeps verified signatures in a \<^verbatim>\<open>Set\<close> of objects; equal signatures are always added together or not at
  all, so the set of their values is the same.
\<close>

section \<open>Signatures\<close>

record ParsedDkimSignature =
  ds_tags :: "(string \<times> string) list"
  ds_domain :: string
  ds_signedHeaders :: "string list"
  ds_signature :: string

fun parse_tags :: "(string \<times> string) list \<Rightarrow> string list \<Rightarrow> (string \<times> string) list option" where
  "parse_tags tags [] = Some tags"
| "parse_tags tags (part # parts) =
     (if js_trim part = [] then parse_tags tags parts
      else (case js_index_of CHR ''='' part of
              None \<Rightarrow> None
            | Some eq \<Rightarrow>
                (let name = js_lower (js_trim (take eq part))
                 in if name = [] \<or> map_of tags name \<noteq> None then None
                    else parse_tags (set_property tags name (drop_ws (drop (Suc eq) part))) parts)))"

definition tag_or_empty :: "(string \<times> string) list \<Rightarrow> string \<Rightarrow> string" where
  "tag_or_empty tags k = (case map_of tags k of None \<Rightarrow> [] | Some v \<Rightarrow> v)"

definition parseDkimSignature :: "string \<Rightarrow> ParsedDkimSignature option" where
  "parseDkimSignature value =
     (case parse_tags [] (js_split CHR '';'' value) of
        None \<Rightarrow> None
      | Some tags \<Rightarrow>
          if map_of tags ''v'' \<noteq> None \<and> map_of tags ''v'' \<noteq> Some ''1'' then None
          else
            (let domain = drop_final_dot (js_lower (tag_or_empty tags ''d''));
                 signedHeaders = filter (\<lambda>name. length name > 0) (map (\<lambda>name. js_lower (js_trim name)) (js_split CHR '':'' (tag_or_empty tags ''h'')));
                 signature = tag_or_empty tags ''b''
             in if domain = [] \<or> length signedHeaders = 0 \<or> signature = [] then None
                else Some \<lparr>ds_tags = tags, ds_domain = domain, ds_signedHeaders = signedHeaders, ds_signature = signature\<rparr>))"

text \<open>The text before the first match of \<^verbatim>\<open>/\r\n\r\n|\n\n/\<close>.\<close>

fun before_blank_line :: "string \<Rightarrow> string" where
  "before_blank_line [] = []"
| "before_blank_line (c # s) =
     (if prefix [CR, LF, CR, LF] (c # s) \<or> prefix [LF, LF] (c # s) then [] else c # before_blank_line s)"

definition logicalHeaderLines :: "string \<Rightarrow> string list" where
  "logicalHeaderLines raw = foldl (add_physical_line (\<lambda>l. '' '' @ js_trim l)) [] (split_breaks False (before_blank_line raw))"

definition splitHeaderLine :: "string \<Rightarrow> (string \<times> string) option" where
  "splitHeaderLine line =
     (case js_index_of CHR '':'' line of
        Some (Suc i) \<Rightarrow> Some (js_lower (js_trim (take (Suc i) line)), js_trim (drop (Suc (Suc i)) line))
      | _ \<Rightarrow> None)"

definition countHeaderOccurrences :: "string \<Rightarrow> string \<Rightarrow> nat" where
  "countHeaderOccurrences raw headerName =
     length (filter (\<lambda>line. map_option fst (splitHeaderLine line) = Some (js_lower headerName)) (logicalHeaderLines raw))"

definition extractDkimSignatures :: "string \<Rightarrow> ParsedDkimSignature list" where
  "extractDkimSignatures raw =
     List.map_filter
       (\<lambda>line. case splitHeaderLine line of
          Some (name, value) \<Rightarrow> if name \<noteq> ''dkim-signature'' then None else parseDkimSignature value
        | None \<Rightarrow> None)
       (logicalHeaderLines raw)"

definition oversignsHeader :: "ParsedDkimSignature \<Rightarrow> string \<Rightarrow> nat \<Rightarrow> bool" where
  "oversignsHeader signature headerName occurrences \<longleftrightarrow>
     length (filter (\<lambda>name. name = js_lower headerName) (ds_signedHeaders signature)) > occurrences"

section \<open>The trusted results\<close>

definition AUTHSERV_PROBE_METHOD :: string where
  "AUTHSERV_PROBE_METHOD = ''x-rapidmx-authserv-probe''"

definition authservIdOf :: "string \<Rightarrow> string option" where
  "authservIdOf value =
     map_option ar_authservId
       (List.find (\<lambda>entry. ar_method entry = AUTHSERV_PROBE_METHOD)
         (parseAuthenticationResults [value @ '';'' @ AUTHSERV_PROBE_METHOD @ ''=none'']))"

fun topmost_of :: "string \<Rightarrow> string list \<Rightarrow> string list" where
  "topmost_of trusted [] = []"
| "topmost_of trusted (value # values) =
     (case authservIdOf value of
        None \<Rightarrow> []
      | Some i \<Rightarrow> if i = trusted then [value] else topmost_of trusted values)"

definition topmostTrustedAuthenticationResults :: "string list \<Rightarrow> string \<Rightarrow> string list" where
  "topmostTrustedAuthenticationResults values trustedAuthservId =
     (if trustedAuthservId = [] then [] else topmost_of (js_lower trustedAuthservId) values)"

definition entryDomain :: "AuthenticationResultEntry \<Rightarrow> string" where
  "entryDomain entry = drop_final_dot (js_lower (tag_or_empty (ar_properties entry) ''header.d''))"

definition header_b :: "AuthenticationResultEntry \<Rightarrow> string" where
  "header_b entry = tag_or_empty (ar_properties entry) ''header.b''"

definition passing_entries :: "string list \<Rightarrow> string \<Rightarrow> AuthenticationResultEntry list" where
  "passing_entries authenticationResults trustedAuthservId =
     filter (\<lambda>entry. passing_domain (js_lower trustedAuthservId) entry \<noteq> None)
       (parseAuthenticationResults (topmostTrustedAuthenticationResults authenticationResults trustedAuthservId))"

text \<open>The signatures one entry identifies by \<^verbatim>\<open>header.b\<close>, and the ones all entries of a domain without it vouch for.\<close>

definition identified :: "ParsedDkimSignature list \<Rightarrow> AuthenticationResultEntry \<Rightarrow> ParsedDkimSignature list" where
  "identified signatures entry =
     (if drop_ws (header_b entry) = [] then []
      else (let candidates = filter (\<lambda>sig. ds_domain sig = entryDomain entry \<and> prefix (drop_ws (header_b entry)) (ds_signature sig)) signatures
            in if length candidates = 1 then candidates else []))"

definition counted :: "ParsedDkimSignature list \<Rightarrow> AuthenticationResultEntry list \<Rightarrow> string \<Rightarrow> ParsedDkimSignature list" where
  "counted signatures passing domain =
     (let forDomain = filter (\<lambda>sig. ds_domain sig = domain) signatures;
          unidentifiedPasses = length (filter (\<lambda>entry. header_b entry = [] \<and> entryDomain entry = domain) passing)
      in if unidentifiedPasses > 0 \<and> unidentifiedPasses = length forDomain then forDomain else [])"

definition verifiedDkimSignatures :: "ParsedDkimSignature list \<Rightarrow> string list \<Rightarrow> string \<Rightarrow> ParsedDkimSignature list" where
  "verifiedDkimSignatures signatures authenticationResults trustedAuthservId =
     (if trustedAuthservId = [] then []
      else
        (let passing = passing_entries authenticationResults trustedAuthservId;
             verified = concat (map (identified signatures) passing) @
                        concat (map (counted signatures passing) (uniq (map ds_domain signatures)))
         in filter (\<lambda>sig. sig \<in> set verified) signatures))"

definition isHeaderOversignedByAlignedDkim :: "string \<Rightarrow> string \<Rightarrow> string \<Rightarrow> string list \<Rightarrow> string \<Rightarrow> bool" where
  "isHeaderOversignedByAlignedDkim raw headerName fromDomain authenticationResults trustedAuthservId \<longleftrightarrow>
     (let from = drop_final_dot (js_lower fromDomain)
      in from \<noteq> [] \<and> trustedAuthservId \<noteq> [] \<and>
         list_ex (\<lambda>sig. ds_domain sig = from \<and> oversignsHeader sig headerName (countHeaderOccurrences raw headerName))
           (verifiedDkimSignatures (extractDkimSignatures raw) authenticationResults trustedAuthservId))"

section \<open>Comments are inert\<close>

text \<open>A text that holds neither quotes nor comments is lexed character by character.\<close>

definition plain_text :: "string \<Rightarrow> bool" where
  "plain_text a \<longleftrightarrow> CHR ''('' \<notin> set a \<and> quote_char \<notin> set a"

lemma lex_loop_plain: "plain_text a \<Longrightarrow> lex_loop s (a @ b) = lex_loop (lex_loop s a) b"
  by (induction a arbitrary: s) (auto simp: plain_text_def)

lemma lex_loop_blank: "lex_loop s ('' '' @ b) = lex_loop (lex_gap s) b"
  by (simp add: js_is_ws_def)

text \<open>The inside of a comment: balanced parentheses, with any character after a backslash.\<close>

fun comment_body :: "nat \<Rightarrow> string \<Rightarrow> bool" where
  "comment_body depth [] = (depth = 0)"
| "comment_body depth (c # cs) =
     (if c = backslash then (case cs of [] \<Rightarrow> False | _ # ds \<Rightarrow> comment_body depth ds)
      else if c = CHR ''('' then comment_body (Suc depth) cs
      else if c = CHR '')'' then depth > 0 \<and> comment_body (depth - 1) cs
      else comment_body depth cs)"

lemma skip_comment_Cons:
  "skip_comment depth (c # cs) =
     (if c = backslash then skip_comment depth (drop 1 cs)
      else if c = CHR ''('' then skip_comment (Suc depth) cs
      else if c = CHR '')'' then (if depth - 1 = 0 then cs else skip_comment (depth - 1) cs)
      else skip_comment depth cs)"
  by (cases cs) auto

lemma skip_comment_body: "comment_body depth c \<Longrightarrow> skip_comment (Suc depth) (c @ '')'' @ b) = b"
proof (induction depth c rule: comment_body.induct)
  case (1 depth)
  then show ?case by (simp add: skip_comment_Cons)
next
  case (2 depth c cs)
  then show ?case
    by (cases cs) (auto simp: skip_comment_Cons split: if_splits)
qed

text \<open>Whatever is written in a comment of an \<^verbatim>\<open>Authentication-Results\<close> value reads as a blank: a result quoted in a comment
  (a remote reason text, say) is never taken for one.\<close>

theorem comment_inert:
  assumes "plain_text a" "comment_body 0 c"
  shows "tokenizeAuthenticationResults (a @ ''('' @ c @ '')'' @ b) = tokenizeAuthenticationResults (a @ '' '' @ b)"
proof -
  have "lex_loop s (''('' @ c @ '')'' @ b) = lex_loop (lex_gap s) b" for s
    using skip_comment_body [OF assms(2), of b] by (simp add: skip_comment_Cons [of 0])
  then show ?thesis
    unfolding tokenizeAuthenticationResults_def lex_loop_plain [OF assms(1)] lex_loop_blank by simp
qed

theorem comment_inert_witness:
  "tokenizeAuthenticationResults (''mx; dkim=fail '' @ ''('' @ ''a; dkim=pass header.d=x'' @ '')'' @ '' header.d=y'') =
   tokenizeAuthenticationResults (''mx; dkim=fail '' @ '' '' @ '' header.d=y'')"
  by (rule comment_inert; code_simp)

section \<open>What the gate trusts\<close>

text \<open>Only the topmost value of the trusted hop counts: whatever stands below it, copied from an earlier delivery or written
  by the sender, changes nothing. A value whose hop cannot be read closes the gate.\<close>

theorem only_topmost_counts:
  assumes "authservIdOf v = Some (js_lower t)"
  shows "isHeaderOversignedByAlignedDkim raw h from (v # vs) t = isHeaderOversignedByAlignedDkim raw h from [v] t"
  using assms
  by (simp add: isHeaderOversignedByAlignedDkim_def verifiedDkimSignatures_def passing_entries_def topmostTrustedAuthenticationResults_def)

lemma unreadable_closes_gate:
  assumes "authservIdOf v = None"
  shows "\<not> isHeaderOversignedByAlignedDkim raw h from (v # vs) t"
  using assms
  by (auto simp: isHeaderOversignedByAlignedDkim_def verifiedDkimSignatures_def passing_entries_def topmostTrustedAuthenticationResults_def
      parseAuthenticationResults_def identified_def counted_def Let_def list_ex_iff)

text \<open>An honest hop: its passing entries are one for each valid signature, each naming the signature's domain and, if it has
  a \<^verbatim>\<open>header.b\<close>, a prefix of the signature's own value.\<close>

definition honest :: "(ParsedDkimSignature \<Rightarrow> bool) \<Rightarrow> (ParsedDkimSignature \<Rightarrow> AuthenticationResultEntry) \<Rightarrow>
    ParsedDkimSignature list \<Rightarrow> AuthenticationResultEntry list \<Rightarrow> bool" where
  "honest valid report signatures passing \<longleftrightarrow>
     mset passing = mset (map report (filter valid signatures)) \<and>
     list_all (\<lambda>sig. entryDomain (report sig) = ds_domain sig \<and> prefix (drop_ws (header_b (report sig))) (ds_signature sig)) signatures"

lemma identified_valid:
  assumes "honest valid report signatures passing" "entry \<in> set passing" "sig \<in> set (identified signatures entry)"
  shows "valid sig"
proof -
  have "set passing = report ` set (filter valid signatures)"
    using assms(1) unfolding honest_def by (metis set_mset_mset set_map)
  then obtain own where own: "entry = report own" "own \<in> set signatures" "valid own"
    using assms(2) by auto
  let ?candidates = "filter (\<lambda>sig. ds_domain sig = entryDomain entry \<and> prefix (drop_ws (header_b entry)) (ds_signature sig)) signatures"
  have "own \<in> set ?candidates"
    using assms(1) own by (auto simp: honest_def list_all_iff)
  moreover have "length ?candidates = 1" "sig \<in> set ?candidates"
    using assms(3) by (auto simp: identified_def Let_def split: if_splits)
  moreover have "a = b" if "length xs = 1" "a \<in> set xs" "b \<in> set xs" for a b :: ParsedDkimSignature and xs
    using that by (cases xs) auto
  ultimately have "sig = own"
    by meson
  with own show ?thesis
    by simp
qed

lemma mset_filter_eq: "mset xs = mset ys \<Longrightarrow> mset (filter p xs) = mset (filter p ys)"
  by simp

lemma all_of_filter_length: "length (filter p (filter q xs)) = length (filter q xs) \<Longrightarrow> x \<in> set xs \<Longrightarrow> q x \<Longrightarrow> p x"
  using length_filter_less [of x "filter q xs" p] by auto

lemma counted_valid:
  assumes honest: "honest valid report signatures passing" and sig: "sig \<in> set (counted signatures passing d)"
  shows "valid sig"
proof -
  let ?vouches = "\<lambda>entry. header_b entry = [] \<and> entryDomain entry = d" and ?own = "\<lambda>sig. ds_domain sig = d"
  have all: "length (filter ?vouches passing) = length (filter ?own signatures)" and dom: "sig \<in> set signatures" "?own sig"
    using sig by (auto simp: counted_def Let_def split: if_splits)
  have "length (filter ?vouches passing) = length (filter ?vouches (map report (filter valid signatures)))"
    using honest unfolding honest_def by (intro mset_eq_length mset_filter_eq) simp
  also have "\<dots> = length (filter (\<lambda>sig. ?vouches (report sig)) (filter valid signatures))"
    by (simp add: filter_map comp_def)
  also have "\<dots> \<le> length (filter ?own (filter valid signatures))"
  proof -
    have "filter (\<lambda>sig. ?vouches (report sig)) (filter valid signatures) =
        filter (\<lambda>sig. ?vouches (report sig)) (filter ?own (filter valid signatures))"
      using honest by (auto simp: honest_def list_all_iff intro!: filter_cong)
    then show ?thesis
      by (simp only: length_filter_le)
  qed
  also have "filter ?own (filter valid signatures) = filter valid (filter ?own signatures)"
    by (simp add: conj_commute)
  finally have "length (filter valid (filter ?own signatures)) = length (filter ?own signatures)"
    using all length_filter_le [of valid "filter ?own signatures"] by linarith
  then show ?thesis
    using dom by (rule all_of_filter_length)
qed

text \<open>C15: The gate opens only for a header that a valid signature protects: with an honest trusted hop, there is a valid signature
  of exactly the sender's domain that names the header more often than the message has it, so adding
  another instance of the header breaks the signature.\<close>

theorem oversigned_protected:
  assumes gate: "isHeaderOversignedByAlignedDkim raw headerName fromDomain results trustedAuthservId"
    and honest: "honest valid report (extractDkimSignatures raw) (passing_entries results trustedAuthservId)"
  shows "\<exists>sig\<in>set (extractDkimSignatures raw). valid sig \<and> ds_domain sig = drop_final_dot (js_lower fromDomain) \<and>
    countHeaderOccurrences raw headerName < count_list (ds_signedHeaders sig) (js_lower headerName)"
proof -
  let ?signatures = "extractDkimSignatures raw" and ?passing = "passing_entries results trustedAuthservId"
  obtain sig where sig: "sig \<in> set ?signatures" "ds_domain sig = drop_final_dot (js_lower fromDomain)"
      "oversignsHeader sig headerName (countHeaderOccurrences raw headerName)"
    and vouched: "(\<exists>entry\<in>set ?passing. sig \<in> set (identified ?signatures entry)) \<or> (\<exists>d. sig \<in> set (counted ?signatures ?passing d))"
    using gate by (auto simp: isHeaderOversignedByAlignedDkim_def verifiedDkimSignatures_def Let_def list_ex_iff split: if_splits)
  have "valid sig"
    using vouched identified_valid [OF honest] counted_valid [OF honest] by blast
  moreover have "countHeaderOccurrences raw headerName < count_list (ds_signedHeaders sig) (js_lower headerName)"
  proof -
    have "(\<lambda>name. name = js_lower headerName) = (=) (js_lower headerName)"
      by auto
    with sig(3) show ?thesis
      by (simp only: oversignsHeader_def count_list_eq_length_filter)
  qed
  ultimately show ?thesis
    using sig(1,2) by blast
qed

definition example_signed :: string where
  "example_signed = ''DKIM-Signature: d=x.y; h=a:a; b=Q'' @ CRLF @ ''A: 1'' @ CRLF @ CRLF"

definition example_signature :: ParsedDkimSignature where
  "example_signature = \<lparr>ds_tags = [(''d'', ''x.y''), (''h'', ''a:a''), (''b'', ''Q'')], ds_domain = ''x.y'', ds_signedHeaders = [''a'', ''a''], ds_signature = ''Q''\<rparr>"

definition example_entry :: AuthenticationResultEntry where
  "example_entry = \<lparr>ar_authservId = ''mx'', ar_method = ''dkim'', ar_result = ''pass'', ar_properties = [(''header.d'', ''x.y'')]\<rparr>"

theorem oversigned_protected_witness:
  "\<exists>sig\<in>set (extractDkimSignatures example_signed). sig = example_signature \<and> ds_domain sig = drop_final_dot (js_lower ''X.y'') \<and>
    countHeaderOccurrences example_signed ''A'' < count_list (ds_signedHeaders sig) (js_lower ''A'')"
proof (rule oversigned_protected [where valid = "\<lambda>sig. sig = example_signature" and report = "\<lambda>_. example_entry"
      and results = "[''mx; dkim=pass header.d=x.y'']" and trustedAuthservId = "''mx''"])
  show "isHeaderOversignedByAlignedDkim example_signed ''A'' ''X.y'' [''mx; dkim=pass header.d=x.y''] ''mx''"
    by code_simp
  have "extractDkimSignatures example_signed = [example_signature]"
    by code_simp
  moreover have "passing_entries [''mx; dkim=pass header.d=x.y''] ''mx'' = [example_entry]"
    by code_simp
  moreover have "entryDomain example_entry = ds_domain example_signature"
    by code_simp
  ultimately show "honest (\<lambda>sig. sig = example_signature) (\<lambda>_. example_entry) (extractDkimSignatures example_signed)
      (passing_entries [''mx; dkim=pass header.d=x.y''] ''mx'')"
    by (simp add: honest_def example_entry_def header_b_def tag_or_empty_def drop_ws_def)
qed

end
