(* ===== verification/Dkim_Rotation.thy ===== *)
theory Dkim_Rotation
  imports Json_Text
begin

text \<open>
  The rotation of a domain's DKIM key (\<^verbatim>\<open>src/src/util/DkimRotationUtils.ts\<close>, \<^verbatim>\<open>src/src/jobs/DkimRotationJob.ts\<close>, and the rotation
  routes of \<^verbatim>\<open>src/src/routes/BaseDomainRoute.ts\<close>): the domain row moves through the phases idle, pending, switching and
  overlap, each move one versioned update. A handler works on the row it read earlier (its snapshot) and on the stored
  row at the moment of each write: it is given the snapshot and the world, in which the stored row may have moved on.
  The answers of the key provider, the DNS resolver and the database are a record of functions; the calls a handler
  made are the trace \<open>w_calls\<close>.

  A stored date is its time value, \<^const>\<open>None\<close> when it is missing or not a date (what \<^verbatim>\<open>rotationDate()\<close> makes of it). The configured
  numbers are the ones \<^verbatim>\<open>configNumber()\<close> has read. The text of log lines and audit details beyond the selector is left out.
\<close>

section \<open>The data\<close>

datatype DkimRotationReason = Scheduled | Manual | Compromised

datatype rotation_phase = PIdle | PPending | PSwitching | POverlap

record next_key =
  nk_selector :: string
  nk_publicKey :: string
  nk_createdAt :: js_time
  nk_liveSince :: js_time
  nk_reason :: DkimRotationReason

record previous_key =
  pk_selector :: string
  pk_publicKey :: string
  pk_retireAt :: js_time

record DkimRotationState =
  rs_phase :: rotation_phase
  rs_next :: "next_key option"
  rs_previous :: "previous_key option"
  rs_reason :: "DkimRotationReason option"
  rs_switchedAt :: js_time
  rs_lastRotatedAt :: js_time
  rs_lastCancelledAt :: js_time
  rs_paused :: "bool option"
  rs_mintedSelectors :: "string list option"
  rs_lastError :: "string option"

text \<open>What the rotation uses of a \<^verbatim>\<open>Domain\<close> row; an unset selector or key is empty.\<close>

record RotatingDomain =
  dm_uid :: string
  dm_name :: string
  dm_version :: nat
  dm_enabled :: bool
  dm_verified :: bool
  dm_dateCreated :: js_time
  dm_dkimSelector :: string
  dm_dkimPublicKey :: string
  dm_dkimManaged :: "bool option"
  dm_dkimRotation :: "DkimRotationState option"

text \<open>The fields saved along with a state, each left alone when \<^const>\<open>None\<close>.\<close>

record domain_fields =
  df_dkimSelector :: "string option"
  df_dkimPublicKey :: "string option"
  df_dkimManaged :: "bool option"

definition no_fields :: domain_fields where
  "no_fields = \<lparr>df_dkimSelector = None, df_dkimPublicKey = None, df_dkimManaged = None\<rparr>"

text \<open>Which of its methods a key provider has.\<close>

record DkimKeyProvider =
  kp_supportsRotation :: bool
  kp_generateKeyPair :: bool
  kp_activate :: bool
  kp_signingSelector :: bool
  kp_findKeyPair :: bool
  kp_deleteKeyPair :: bool

datatype audit_action = DKIM_ROTATION_STARTED | DKIM_ROTATION_SWITCHED | DKIM_ROTATION_RETIRED | DKIM_ROTATION_CANCELLED | DKIM_ROTATION_PAUSED

datatype rotation_call =
    CSave RotatingDomain
  | CGenerate string
  | CActivate string
  | CDelete string
  | CAudit audit_action string
  | CAnnounce string

record rotation_world =
  w_stored :: "string \<Rightarrow> RotatingDomain option"
  w_unknownSince :: "string \<Rightarrow> int option"
  w_startsLeft :: "nat option"
  w_calls :: "rotation_call list"

text \<open>The answers: a failed lookup of TXT records says whether it means that there are none; an activation may answer
  differently each time it is called (the argument is the number of calls made before).\<close>

record rotation_answers =
  an_save :: "DkimRotationState option \<Rightarrow> js_error option"
  an_findOne :: "js_error option"
  an_generate :: "string \<Rightarrow> string result"
  an_find :: "string \<Rightarrow> string option result"
  an_activate :: "nat \<Rightarrow> string \<Rightarrow> js_error option"
  an_signing :: "string option result"
  an_delete :: "string \<Rightarrow> js_error option"
  an_txt :: "string \<Rightarrow> bool + string list list"

text \<open>A handler: it throws or answers, and leaves a world.\<close>

type_synonym 'a handler = "rotation_world \<Rightarrow> 'a result \<times> rotation_world"

definition h_return :: "'a \<Rightarrow> 'a handler" where
  "h_return x = (\<lambda>w. (Inr x, w))"

definition h_throw :: "js_error \<Rightarrow> 'a handler" where
  "h_throw e = (\<lambda>w. (Inl e, w))"

definition h_bind :: "'a handler \<Rightarrow> ('a \<Rightarrow> 'b handler) \<Rightarrow> 'b handler" where
  "h_bind m f = (\<lambda>w. case m w of (Inl e, w') \<Rightarrow> (Inl e, w') | (Inr x, w') \<Rightarrow> f x w')"

definition h_catch :: "'a handler \<Rightarrow> (js_error \<Rightarrow> 'a handler) \<Rightarrow> 'a handler" where
  "h_catch m f = (\<lambda>w. case m w of (Inl e, w') \<Rightarrow> f e w' | (Inr x, w') \<Rightarrow> (Inr x, w'))"

definition h_call :: "rotation_call \<Rightarrow> unit handler" where
  "h_call c = (\<lambda>w. (Inr (), w\<lparr>w_calls := w_calls w @ [c]\<rparr>))"

definition call_provider :: "js_error option \<Rightarrow> rotation_call \<Rightarrow> unit handler" where
  "call_provider failure c = (case failure of Some e \<Rightarrow> h_throw e | None \<Rightarrow> h_call c)"

definition activate :: "rotation_answers \<Rightarrow> string \<Rightarrow> unit handler" where
  "activate an selector = (\<lambda>w. call_provider (an_activate an (length (w_calls w)) selector) (CActivate selector) w)"

fun error_message :: "js_error \<Rightarrow> string" where
  "error_message (ApiError n m) = m"
| "error_message (OtherError m) = m"
| "error_message e = []"

fun is_conflict :: "js_error \<Rightarrow> bool" where
  "is_conflict (ApiError n m) = (n = 409)"
| "is_conflict e = False"

section \<open>Selectors\<close>

definition DKIM_ROTATION_SELECTOR_PREFIX :: string where
  "DKIM_ROTATION_SELECTOR_PREFIX = ''rmx''"

definition dkimSelectorBase :: "int \<Rightarrow> string" where
  "dkimSelectorBase now =
     DKIM_ROTATION_SELECTOR_PREFIX @
     (case to_iso_string (Some now) of Inr s \<Rightarrow> filter (\<lambda>c. c \<noteq> CHR ''-'') (take 10 s) | Inl _ \<Rightarrow> [])"

definition selector_candidate :: "string \<Rightarrow> nat \<Rightarrow> string" where
  "selector_candidate base i = (if i = 0 then base else base @ replicate (i div 26 + 1) (char_of (97 + i mod 26)))"

text \<open>The loop of \<^verbatim>\<open>newDkimSelector()\<close>, with a fuel; \<^const>\<open>None\<close> would be a loop that has not ended.\<close>

fun free_selector :: "nat \<Rightarrow> string \<Rightarrow> string list \<Rightarrow> nat \<Rightarrow> string option" where
  "free_selector 0 base used i = None"
| "free_selector (Suc fuel) base used i =
     (if selector_candidate base i \<notin> set used then Some (selector_candidate base i) else free_selector fuel base used (Suc i))"

text \<open>Empty and missing selectors are no entries of \<open>taken\<close>.\<close>

definition newDkimSelector :: "int \<Rightarrow> string list \<Rightarrow> string option" where
  "newDkimSelector now taken =
     (let used = uniq (filter (\<lambda>s. s \<noteq> []) taken) in free_selector (Suc (length used)) (dkimSelectorBase now) used 0)"

section \<open>Configuration and readings\<close>

definition DKIM_SWITCH_ACK_TIMEOUT_MS :: int where
  "DKIM_SWITCH_ACK_TIMEOUT_MS = 60 * 60 * 1000"

definition HOUR_MS :: int where
  "HOUR_MS = 60 * 60 * 1000"

definition DAY_MS :: int where
  "DAY_MS = 24 * HOUR_MS"

definition DKIM_UNKNOWN_LOOKUP_TOLERANCE_MS :: int where
  "DKIM_UNKNOWN_LOOKUP_TOLERANCE_MS = 6 * HOUR_MS"

definition MAX_TRANSITIONS_PER_RUN :: nat where
  "MAX_TRANSITIONS_PER_RUN = 5"

fun isConfigFlagOn :: "js_value \<Rightarrow> bool \<Rightarrow> bool" where
  "isConfigFlagOn JUndefined d = d"
| "isConfigFlagOn JNull d = d"
| "isConfigFlagOn (JStr s) d = (js_lower (js_trim s) \<notin> {''false'', ''0'', ''no'', ''off''})"
| "isConfigFlagOn v d = (v \<noteq> JBool False \<and> v \<noteq> JNum 0)"

record rotation_config =
  rc_enabled :: js_value
  rc_intervalDays :: int
  rc_overlapDays :: int
  rc_publishGraceHours :: int
  rc_maxStartsPerRun :: nat
  rc_transportProvider :: string

definition nextScheduledDkimRotation :: "RotatingDomain \<Rightarrow> int \<Rightarrow> int option" where
  "nextScheduledDkimRotation domain intervalDays =
     (let anchors = (case dm_dkimRotation domain of
            None \<Rightarrow> []
          | Some state \<Rightarrow> List.map_filter (\<lambda>t. t) [rs_lastRotatedAt state, rs_lastCancelledAt state]);
          anchor = (if anchors \<noteq> [] then Some (foldl max (hd anchors) (tl anchors)) else dm_dateCreated domain)
      in map_option (\<lambda>a. a + intervalDays * DAY_MS) anchor)"

datatype DkimKeyLiveness = Live | Absent | Unknown

definition isDkimKeyLive :: "rotation_answers \<Rightarrow> string \<Rightarrow> string \<Rightarrow> string \<Rightarrow> DkimKeyLiveness" where
  "isDkimKeyLive an domainName selector publicKey =
     (if publicKey = [] then Absent
      else (case an_txt an (selector @ ''._domainkey.'' @ domainName) of
              Inr records \<Rightarrow>
                (if list_ex (\<lambda>value. js_includes value (''p='' @ publicKey)) (map (\<lambda>chunks. drop_ws (concat chunks)) records)
                 then Live else Absent)
            | Inl noRecords \<Rightarrow> if noRecords then Absent else Unknown))"

datatype DkimRotationBlocker = Unsupported | Ses | No_Key | Imported | Unknown_Key

definition deploymentDkimRotationBlocker :: "DkimKeyProvider option \<Rightarrow> string \<Rightarrow> DkimRotationBlocker option" where
  "deploymentDkimRotationBlocker keyProvider transportProvider =
     (case keyProvider of
        None \<Rightarrow> Some Unsupported
      | Some kp \<Rightarrow>
          if \<not> kp_supportsRotation kp \<or> \<not> kp_generateKeyPair kp \<or> \<not> kp_activate kp \<or> \<not> kp_signingSelector kp then Some Unsupported
          else if js_lower (js_trim transportProvider) = ''ses'' then Some Ses else None)"

definition dkimRotationBlocker :: "DkimKeyProvider option \<Rightarrow> RotatingDomain \<Rightarrow> bool option \<Rightarrow> string \<Rightarrow> DkimRotationBlocker option" where
  "dkimRotationBlocker keyProvider domain managed transportProvider =
     (case deploymentDkimRotationBlocker keyProvider transportProvider of
        Some b \<Rightarrow> Some b
      | None \<Rightarrow>
          if dm_dkimSelector domain = [] \<or> dm_dkimPublicKey domain = [] then Some No_Key
          else (case managed of Some False \<Rightarrow> Some Imported | None \<Rightarrow> Some Unknown_Key | Some True \<Rightarrow> None))"

definition resolveDkimManaged :: "rotation_answers \<Rightarrow> DkimKeyProvider option \<Rightarrow> RotatingDomain \<Rightarrow> bool option" where
  "resolveDkimManaged an keyProvider domain =
     (case dm_dkimManaged domain of
        Some b \<Rightarrow> Some b
      | None \<Rightarrow>
          if dm_dkimSelector domain = [] \<or> dm_dkimPublicKey domain = [] \<or> (case keyProvider of None \<Rightarrow> True | Some kp \<Rightarrow> \<not> kp_findKeyPair kp)
          then None
          else (case an_find an (dm_dkimSelector domain) of
                  Inl _ \<Rightarrow> None
                | Inr held \<Rightarrow> Some (held = Some (dm_dkimPublicKey domain))))"

definition idle_state :: DkimRotationState where
  "idle_state = \<lparr>rs_phase = PIdle, rs_next = None, rs_previous = None, rs_reason = None, rs_switchedAt = None, rs_lastRotatedAt = None,
     rs_lastCancelledAt = None, rs_paused = None, rs_mintedSelectors = None, rs_lastError = None\<rparr>"

definition keptDkimRotationState :: "DkimRotationState option \<Rightarrow> DkimRotationState" where
  "keptDkimRotationState state =
     (case state of
        None \<Rightarrow> idle_state
      | Some st \<Rightarrow> idle_state\<lparr>rs_lastRotatedAt := rs_lastRotatedAt st, rs_lastCancelledAt := rs_lastCancelledAt st,
                     rs_paused := rs_paused st, rs_mintedSelectors := rs_mintedSelectors st\<rparr>)"

section \<open>Writing the row\<close>

text \<open>\<^verbatim>\<open>repo.update()\<close> with a \<^verbatim>\<open>version\<close>: refused with a 409 unless the stored row still has it, else the row gets the new values
  and the next version.\<close>

definition updated_row :: "RotatingDomain \<Rightarrow> DkimRotationState option \<Rightarrow> domain_fields \<Rightarrow> RotatingDomain" where
  "updated_row row state extra =
     row\<lparr>dm_version := Suc (dm_version row),
         dm_dkimRotation := (case state of None \<Rightarrow> dm_dkimRotation row | Some st \<Rightarrow> Some st),
         dm_dkimSelector := (case df_dkimSelector extra of None \<Rightarrow> dm_dkimSelector row | Some v \<Rightarrow> v),
         dm_dkimPublicKey := (case df_dkimPublicKey extra of None \<Rightarrow> dm_dkimPublicKey row | Some v \<Rightarrow> v),
         dm_dkimManaged := (case df_dkimManaged extra of None \<Rightarrow> dm_dkimManaged row | Some v \<Rightarrow> Some v)\<rparr>"

definition update_domain :: "rotation_answers \<Rightarrow> RotatingDomain \<Rightarrow> DkimRotationState option \<Rightarrow> domain_fields \<Rightarrow> RotatingDomain handler" where
  "update_domain an domain state extra = (\<lambda>w.
     case an_save an state of
       Some e \<Rightarrow> (Inl e, w)
     | None \<Rightarrow>
         (case w_stored w (dm_uid domain) of
            None \<Rightarrow> (Inl (ApiError 409 ''conflict''), w)
          | Some row \<Rightarrow>
              if dm_version row \<noteq> dm_version domain then (Inl (ApiError 409 ''conflict''), w)
              else (let row' = updated_row row state extra
                    in (Inr row', w\<lparr>w_stored := (w_stored w)(dm_uid domain \<mapsto> row'), w_calls := w_calls w @ [CSave row']\<rparr>))))"

definition saveDkimRotation :: "rotation_answers \<Rightarrow> RotatingDomain \<Rightarrow> DkimRotationState \<Rightarrow> domain_fields \<Rightarrow> RotatingDomain handler" where
  "saveDkimRotation an domain state extra = update_domain an domain (Some state) extra"

definition find_domain :: "rotation_answers \<Rightarrow> string \<Rightarrow> RotatingDomain option handler" where
  "find_domain an uid = (\<lambda>w. case an_findOne an of Some e \<Rightarrow> (Inl e, w) | None \<Rightarrow> (Inr (w_stored w uid), w))"

definition next_selector :: "DkimRotationState option \<Rightarrow> string" where
  "next_selector state = (case state of None \<Rightarrow> [] | Some st \<Rightarrow> (case rs_next st of None \<Rightarrow> [] | Some n \<Rightarrow> nk_selector n))"

definition previous_selector :: "DkimRotationState option \<Rightarrow> string" where
  "previous_selector state = (case state of None \<Rightarrow> [] | Some st \<Rightarrow> (case rs_previous st of None \<Rightarrow> [] | Some p \<Rightarrow> pk_selector p))"

text \<open>The deletion of a key is optional in a provider, and a failure only logged.\<close>

definition delete_key :: "rotation_answers \<Rightarrow> DkimKeyProvider \<Rightarrow> string \<Rightarrow> unit handler" where
  "delete_key an kp selector =
     (if kp_deleteKeyPair kp then h_catch (call_provider (an_delete an selector) (CDelete selector)) (\<lambda>_. h_return ())
      else h_return ())"

definition deleteUnrecordedDkimKey :: "rotation_answers \<Rightarrow> DkimKeyProvider \<Rightarrow> RotatingDomain \<Rightarrow> string \<Rightarrow> unit handler" where
  "deleteUnrecordedDkimKey an kp domain selector =
     h_catch
       (h_bind (find_domain an (dm_uid domain)) (\<lambda>current.
          case current of
            None \<Rightarrow> delete_key an kp selector
          | Some row \<Rightarrow>
              if selector \<in> {dm_dkimSelector row, next_selector (dm_dkimRotation row), previous_selector (dm_dkimRotation row)}
              then h_return () else delete_key an kp selector))
       (\<lambda>_. h_return ())"

text \<open>\<^verbatim>\<open>generateNextDkimKey()\<close> of a row whose state has a \<^verbatim>\<open>next\<close> (the source asserts it; without one, reading it throws).\<close>

definition generateNextDkimKey :: "rotation_answers \<Rightarrow> DkimKeyProvider \<Rightarrow> RotatingDomain \<Rightarrow> RotatingDomain handler" where
  "generateNextDkimKey an kp domain =
     (case dm_dkimRotation domain of
        None \<Rightarrow> h_throw TypeError
      | Some state \<Rightarrow>
          (case rs_next state of
             None \<Rightarrow> h_throw TypeError
           | Some nk \<Rightarrow>
               (case an_generate an (nk_selector nk) of
                  Inl err \<Rightarrow>
                    saveDkimRotation an domain (state\<lparr>rs_lastError := Some (''The new DKIM key could not be generated: '' @ error_message err)\<rparr>) no_fields
                | Inr publicKey \<Rightarrow>
                    h_bind (h_call (CGenerate (nk_selector nk))) (\<lambda>_.
                    h_bind
                      (h_catch (saveDkimRotation an domain (state\<lparr>rs_lastError := None, rs_next := Some (nk\<lparr>nk_publicKey := publicKey\<rparr>)\<rparr>) no_fields)
                         (\<lambda>err. h_bind (if is_conflict err then deleteUnrecordedDkimKey an kp domain (nk_selector nk) else h_return ()) (\<lambda>_. h_throw err)))
                      (\<lambda>updated. h_bind (h_call (CAnnounce (dm_uid domain))) (\<lambda>_. h_return updated))))))"

definition startDkimRotation :: "rotation_answers \<Rightarrow> DkimKeyProvider \<Rightarrow> RotatingDomain \<Rightarrow> DkimRotationReason \<Rightarrow> int \<Rightarrow> domain_fields \<Rightarrow> RotatingDomain handler" where
  "startDkimRotation an kp domain reason now extra =
     (let state = dm_dkimRotation domain;
          base = dkimSelectorBase now;
          mintedToday = filter (prefix base) (case state of None \<Rightarrow> [] | Some st \<Rightarrow> nullish (rs_mintedSelectors st))
      in case newDkimSelector now ([dm_dkimSelector domain, previous_selector state, next_selector state] @ mintedToday) of
           None \<Rightarrow> h_throw (OtherError ''no selector'')
         | Some selector \<Rightarrow>
             h_bind
               (saveDkimRotation an domain
                  ((keptDkimRotationState state)
                     \<lparr>rs_phase := PPending,
                      rs_next := Some \<lparr>nk_selector = selector, nk_publicKey = [], nk_createdAt = Some now, nk_liveSince = None, nk_reason = reason\<rparr>,
                      rs_mintedSelectors := Some (mintedToday @ [selector])\<rparr>)
                  extra)
               (\<lambda>started. h_bind (h_call (CAudit DKIM_ROTATION_STARTED selector)) (\<lambda>_. generateNextDkimKey an kp started)))"

definition retireDkimRotation :: "rotation_answers \<Rightarrow> DkimKeyProvider \<Rightarrow> RotatingDomain \<Rightarrow> int \<Rightarrow> RotatingDomain handler" where
  "retireDkimRotation an kp domain now =
     (let state = dm_dkimRotation domain; selector = previous_selector state
      in h_bind (saveDkimRotation an domain ((keptDkimRotationState state)\<lparr>rs_lastRotatedAt := Some now\<rparr>) no_fields) (\<lambda>retired.
         h_bind
           (if selector \<noteq> []
            then h_bind (h_call (CAudit DKIM_ROTATION_RETIRED selector)) (\<lambda>_. delete_key an kp selector)
            else h_return ()) (\<lambda>_.
         h_bind (h_call (CAnnounce (dm_uid domain))) (\<lambda>_. h_return retired))))"

section \<open>The job\<close>

definition start_budget_left :: "rotation_world \<Rightarrow> bool" where
  "start_budget_left w = (case w_startsLeft w of None \<Rightarrow> True | Some n \<Rightarrow> n > 0)"

definition take_start :: "unit handler" where
  "take_start = (\<lambda>w. (Inr (), w\<lparr>w_startsLeft := map_option (\<lambda>n. n - 1) (w_startsLeft w)\<rparr>))"

text \<open>A step answers the row when another step may follow at once.\<close>

definition stepIdle :: "rotation_config \<Rightarrow> rotation_answers \<Rightarrow> DkimKeyProvider \<Rightarrow> RotatingDomain \<Rightarrow> int \<Rightarrow> RotatingDomain option handler" where
  "stepIdle cfg an kp domain now = (\<lambda>w.
     if \<not> isConfigFlagOn (rc_enabled cfg) True \<or> \<not> start_budget_left w \<or>
        (case dm_dkimRotation domain of None \<Rightarrow> False | Some st \<Rightarrow> rs_paused st = Some True) \<or>
        \<not> dm_enabled domain \<or> \<not> dm_verified domain \<or> dm_dkimSelector domain = [] \<or> dm_dkimPublicKey domain = []
     then (Inr None, w)
     else (case nextScheduledDkimRotation domain (rc_intervalDays cfg) of
             None \<Rightarrow> (Inr None, w)
           | Some due \<Rightarrow>
               if due > now then (Inr None, w)
               else (let managed = resolveDkimManaged an (Some kp) domain
                     in h_bind
                          (if managed = Some False \<and> dm_dkimManaged domain \<noteq> Some False
                           then h_bind (update_domain an domain None (no_fields\<lparr>df_dkimManaged := Some False\<rparr>)) (\<lambda>_. h_return ())
                           else h_return ())
                          (\<lambda>_. if managed \<noteq> Some True then h_return None
                               else h_bind take_start (\<lambda>_.
                                    h_bind (startDkimRotation an kp domain Scheduled now (no_fields\<lparr>df_dkimManaged := Some True\<rparr>)) (\<lambda>row. h_return (Some row))))
                          w)))"

text \<open>The streak of unanswered lookups: the reading of a lookup that counts, \<^const>\<open>None\<close> to wait for the next run.\<close>

definition settled_liveness :: "DkimKeyLiveness \<Rightarrow> string \<Rightarrow> int \<Rightarrow> DkimKeyLiveness option handler" where
  "settled_liveness liveness uid now = (\<lambda>w.
     if liveness = Unknown then
       (let since = (case w_unknownSince w uid of None \<Rightarrow> now | Some t \<Rightarrow> t);
            w' = (if w_unknownSince w uid = None then w\<lparr>w_unknownSince := (w_unknownSince w)(uid \<mapsto> now)\<rparr> else w)
        in (Inr (if now - since < DKIM_UNKNOWN_LOOKUP_TOLERANCE_MS then None else Some Absent), w'))
     else (Inr (Some liveness), w\<lparr>w_unknownSince := (w_unknownSince w)(uid := None)\<rparr>))"

text \<open>The switch, with its audit entry and announcement.\<close>

definition switch_key :: "rotation_answers \<Rightarrow> RotatingDomain \<Rightarrow> DkimRotationState \<Rightarrow> next_key \<Rightarrow> int \<Rightarrow> RotatingDomain option handler" where
  "switch_key an domain state nk now =
     h_bind
       (saveDkimRotation an domain
          ((keptDkimRotationState (Some state))
             \<lparr>rs_phase := PSwitching,
              rs_previous := Some \<lparr>pk_selector = dm_dkimSelector domain, pk_publicKey = dm_dkimPublicKey domain, pk_retireAt = None\<rparr>,
              rs_reason := Some (nk_reason nk), rs_switchedAt := Some now\<rparr>)
          (no_fields\<lparr>df_dkimSelector := Some (nk_selector nk), df_dkimPublicKey := Some (nk_publicKey nk)\<rparr>))
       (\<lambda>switched.
          h_bind (h_call (CAudit DKIM_ROTATION_SWITCHED (nk_selector nk))) (\<lambda>_.
          h_bind (h_call (CAnnounce (dm_uid domain))) (\<lambda>_. h_return (Some switched))))"

text \<open>What a pending rotation does once it is known whether its record is live.\<close>

definition after_lookup :: "rotation_config \<Rightarrow> rotation_answers \<Rightarrow> RotatingDomain \<Rightarrow> DkimRotationState \<Rightarrow> next_key \<Rightarrow> int \<Rightarrow> DkimKeyLiveness option \<Rightarrow> RotatingDomain option handler" where
  "after_lookup cfg an domain state nk now settled =
     (if settled = None then h_return None
      else if settled \<noteq> Some Live then
        (if nk_liveSince nk \<noteq> None
         then h_bind (saveDkimRotation an domain (state\<lparr>rs_next := Some (nk\<lparr>nk_liveSince := None\<rparr>)\<rparr>) no_fields) (\<lambda>_. h_return None)
         else h_return None)
      else
        (case nk_liveSince nk of
           None \<Rightarrow> h_bind (saveDkimRotation an domain (state\<lparr>rs_next := Some (nk\<lparr>nk_liveSince := Some now\<rparr>)\<rparr>) no_fields) (\<lambda>row. h_return (Some row))
         | Some liveSince \<Rightarrow>
             if nk_reason nk \<noteq> Compromised \<and> now - liveSince < rc_publishGraceHours cfg * HOUR_MS then h_return None
             else switch_key an domain state nk now))"

definition stepPending :: "rotation_config \<Rightarrow> rotation_answers \<Rightarrow> DkimKeyProvider \<Rightarrow> RotatingDomain \<Rightarrow> DkimRotationState \<Rightarrow> int \<Rightarrow> RotatingDomain option handler" where
  "stepPending cfg an kp domain state now =
     (case rs_next state of
        None \<Rightarrow> h_bind (saveDkimRotation an domain (keptDkimRotationState (Some state)) no_fields) (\<lambda>_. h_return None)
      | Some nk \<Rightarrow>
          if nk_selector nk = [] then h_bind (saveDkimRotation an domain (keptDkimRotationState (Some state)) no_fields) (\<lambda>_. h_return None)
          else if nk_publicKey nk = [] then
            h_bind (generateNextDkimKey an kp domain) (\<lambda>generated.
              h_return (case dm_dkimRotation generated of
                          None \<Rightarrow> None
                        | Some st \<Rightarrow> (case rs_next st of None \<Rightarrow> None | Some n \<Rightarrow> if nk_publicKey n \<noteq> [] then Some generated else None)))
          else
            h_bind (settled_liveness (isDkimKeyLive an (dm_name domain) (nk_selector nk) (nk_publicKey nk)) (dm_uid domain) now)
              (after_lookup cfg an domain state nk now))"

definition ack_timeout_message :: string where
  "ack_timeout_message =
     ''The mail server hasn't confirmed it signs with the new DKIM selector; both selectors stay published until it does. '' @
     ''An older postfix-bridge doesn't acknowledge the switch.''"

text \<open>The \<^verbatim>\<open>try\<close> of \<^verbatim>\<open>stepSwitching()\<close>: \<^const>\<open>None\<close> when the row has moved back, else the error to record.\<close>

definition ask_to_switch :: "rotation_answers \<Rightarrow> RotatingDomain \<Rightarrow> DkimRotationState \<Rightarrow> int \<Rightarrow> string option option handler" where
  "ask_to_switch an domain state now =
     h_catch
       (h_bind (activate an (dm_dkimSelector domain)) (\<lambda>_.
        h_bind (find_domain an (dm_uid domain)) (\<lambda>current.
          case (case current of None \<Rightarrow> [] | Some row \<Rightarrow> dm_dkimSelector row) of
            [] \<Rightarrow> h_return (Some (if (case rs_switchedAt state of None \<Rightarrow> False | Some t \<Rightarrow> now - t \<ge> DKIM_SWITCH_ACK_TIMEOUT_MS)
                                 then Some ack_timeout_message else None))
          | c # cs \<Rightarrow>
              if c # cs \<noteq> dm_dkimSelector domain then h_bind (activate an (c # cs)) (\<lambda>_. h_return None)
              else h_return (Some (if (case rs_switchedAt state of None \<Rightarrow> False | Some t \<Rightarrow> now - t \<ge> DKIM_SWITCH_ACK_TIMEOUT_MS)
                                   then Some ack_timeout_message else None)))))
       (\<lambda>err. h_return (Some (Some (''Signing could not be switched to the new DKIM key: '' @ error_message err))))"

definition stepSwitching :: "rotation_config \<Rightarrow> rotation_answers \<Rightarrow> DkimKeyProvider \<Rightarrow> RotatingDomain \<Rightarrow> DkimRotationState \<Rightarrow> int \<Rightarrow> RotatingDomain option handler" where
  "stepSwitching cfg an kp domain state now =
     (case an_signing an of
        Inl e \<Rightarrow> h_throw e
      | Inr signing \<Rightarrow>
          if signing = Some (dm_dkimSelector domain) then
            (let overlapMs = (if rs_reason state = Some Compromised then 0 else rc_overlapDays cfg * DAY_MS)
             in case rs_previous state of
                  None \<Rightarrow>
                    h_bind (saveDkimRotation an domain
                              (state\<lparr>rs_lastError := None, rs_phase := POverlap,
                                     rs_previous := Some \<lparr>pk_selector = [], pk_publicKey = [], pk_retireAt = Some (now + overlapMs)\<rparr>\<rparr>) no_fields)
                      (\<lambda>row. h_return (Some row))
                | Some prev \<Rightarrow>
                    h_bind (saveDkimRotation an domain
                              (state\<lparr>rs_lastError := None, rs_phase := POverlap, rs_previous := Some (prev\<lparr>pk_retireAt := Some (now + overlapMs)\<rparr>)\<rparr>) no_fields)
                      (\<lambda>row. h_return (Some row)))
          else
            h_bind (ask_to_switch an domain state now) (\<lambda>outcome.
              case outcome of
                None \<Rightarrow> h_return None
              | Some lastError \<Rightarrow>
                  if lastError \<noteq> rs_lastError state
                  then h_bind (saveDkimRotation an domain (state\<lparr>rs_lastError := lastError\<rparr>) no_fields) (\<lambda>_. h_return None)
                  else h_return None))"

definition stepOverlap :: "rotation_answers \<Rightarrow> DkimKeyProvider \<Rightarrow> RotatingDomain \<Rightarrow> DkimRotationState \<Rightarrow> int \<Rightarrow> RotatingDomain option handler" where
  "stepOverlap an kp domain state now =
     (case (case rs_previous state of None \<Rightarrow> None | Some prev \<Rightarrow> pk_retireAt prev) of
        Some retireAt \<Rightarrow>
          if retireAt > now then h_return None else h_bind (retireDkimRotation an kp domain now) (\<lambda>_. h_return None)
      | None \<Rightarrow> h_bind (retireDkimRotation an kp domain now) (\<lambda>_. h_return None))"

definition forget_unknown :: "string \<Rightarrow> unit handler" where
  "forget_unknown uid = (\<lambda>w. (Inr (), w\<lparr>w_unknownSince := (w_unknownSince w)(uid := None)\<rparr>))"

definition job_step :: "rotation_config \<Rightarrow> rotation_answers \<Rightarrow> DkimKeyProvider \<Rightarrow> RotatingDomain \<Rightarrow> int \<Rightarrow> RotatingDomain option handler" where
  "job_step cfg an kp domain now =
     (case dm_dkimRotation domain of
        Some state \<Rightarrow>
          (case rs_phase state of
             PPending \<Rightarrow> stepPending cfg an kp domain state now
           | PSwitching \<Rightarrow> h_bind (forget_unknown (dm_uid domain)) (\<lambda>_. stepSwitching cfg an kp domain state now)
           | POverlap \<Rightarrow> h_bind (forget_unknown (dm_uid domain)) (\<lambda>_. stepOverlap an kp domain state now)
           | PIdle \<Rightarrow> h_bind (forget_unknown (dm_uid domain)) (\<lambda>_. stepIdle cfg an kp domain now))
      | None \<Rightarrow> h_bind (forget_unknown (dm_uid domain)) (\<lambda>_. stepIdle cfg an kp domain now))"

text \<open>The loop of \<^verbatim>\<open>advanceDomain()\<close>; the answers of each turn are its own. What it throws is only logged.\<close>

fun advance_loop :: "rotation_config \<Rightarrow> (nat \<Rightarrow> rotation_answers) \<Rightarrow> DkimKeyProvider \<Rightarrow> nat \<Rightarrow> RotatingDomain option \<Rightarrow> int \<Rightarrow> unit handler" where
  "advance_loop cfg ans kp 0 current now = h_return ()"
| "advance_loop cfg ans kp (Suc n) current now =
     (case current of
        None \<Rightarrow> h_return ()
      | Some domain \<Rightarrow> h_bind (job_step cfg (ans n) kp domain now) (\<lambda>row. advance_loop cfg ans kp n row now))"

definition advanceDomain :: "rotation_config \<Rightarrow> (nat \<Rightarrow> rotation_answers) \<Rightarrow> DkimKeyProvider \<Rightarrow> RotatingDomain \<Rightarrow> int \<Rightarrow> unit handler" where
  "advanceDomain cfg ans kp domain now =
     h_catch (advance_loop cfg ans kp MAX_TRANSITIONS_PER_RUN (Some domain) now) (\<lambda>_. h_return ())"

fun run_domains :: "rotation_config \<Rightarrow> (nat \<Rightarrow> nat \<Rightarrow> rotation_answers) \<Rightarrow> DkimKeyProvider \<Rightarrow> RotatingDomain list \<Rightarrow> int \<Rightarrow> unit handler" where
  "run_domains cfg ans kp [] now = h_return ()"
| "run_domains cfg ans kp (domain # domains) now =
     h_bind (advanceDomain cfg (ans (length domains)) kp domain now) (\<lambda>_. run_domains cfg ans kp domains now)"

text \<open>\<^verbatim>\<open>run()\<close> over the rows it read (\<open>rows\<close>).\<close>

definition run_rotation_job :: "rotation_config \<Rightarrow> (nat \<Rightarrow> nat \<Rightarrow> rotation_answers) \<Rightarrow> DkimKeyProvider option \<Rightarrow> RotatingDomain list \<Rightarrow> int \<Rightarrow> unit handler" where
  "run_rotation_job cfg ans keyProvider rows now = (\<lambda>w.
     case (deploymentDkimRotationBlocker keyProvider (rc_transportProvider cfg), keyProvider) of
       (None, Some kp) \<Rightarrow> run_domains cfg ans kp rows now (w\<lparr>w_startsLeft := Some (rc_maxStartsPerRun cfg)\<rparr>)
     | _ \<Rightarrow> (Inr (), w))"

section \<open>The routes\<close>

definition reportDkimKeyCompromised :: "rotation_answers \<Rightarrow> DkimKeyProvider \<Rightarrow> RotatingDomain \<Rightarrow> DkimRotationState \<Rightarrow> int \<Rightarrow> RotatingDomain handler" where
  "reportDkimKeyCompromised an kp domain state now =
     (let already = h_throw (ApiError 409 ''This DKIM key rotation already treats the key as compromised.'')
      in case rs_phase state of
           PPending \<Rightarrow>
             (case rs_next state of
                Some nk \<Rightarrow>
                  if nk_selector nk \<noteq> [] \<and> nk_reason nk \<noteq> Compromised
                  then h_bind (saveDkimRotation an domain (state\<lparr>rs_next := Some (nk\<lparr>nk_reason := Compromised\<rparr>)\<rparr>) no_fields) (\<lambda>updated.
                       h_bind (h_call (CAudit DKIM_ROTATION_STARTED (nk_selector nk))) (\<lambda>_. h_return updated))
                  else already
              | None \<Rightarrow> already)
         | PSwitching \<Rightarrow>
             if rs_reason state \<noteq> Some Compromised
             then h_bind (saveDkimRotation an domain (state\<lparr>rs_reason := Some Compromised\<rparr>) no_fields) (\<lambda>updated.
                  h_bind (h_call (CAudit DKIM_ROTATION_STARTED (dm_dkimSelector domain))) (\<lambda>_. h_return updated))
             else already
         | POverlap \<Rightarrow>
             h_bind (retireDkimRotation an kp domain now) (\<lambda>retired.
             h_bind (h_call (CAudit DKIM_ROTATION_STARTED (dm_dkimSelector domain))) (\<lambda>_. h_return retired))
         | PIdle \<Rightarrow> already)"

fun refusal :: "DkimRotationBlocker \<Rightarrow> string" where
  "refusal Unsupported = ''This deployment's DKIM key provider doesn't rotate keys.''"
| "refusal Ses = ''Outbound mail is signed by Amazon SES's Easy DKIM, which rotates its own keys.''"
| "refusal No_Key = ''This domain has no DKIM key yet.''"
| "refusal Imported = ''This domain's DKIM key was imported by hand, so RapidMX can't rotate it.''"
| "refusal Unknown_Key = ''The DKIM key provider can't tell whether it holds this domain's key, so it isn't rotated.''"

text \<open>\<^verbatim>\<open>rotateDkim()\<close> after its authorization and the check of its body, on the row \<open>domain\<close> it read.\<close>

definition rotateDkim :: "rotation_config \<Rightarrow> rotation_answers \<Rightarrow> DkimKeyProvider option \<Rightarrow> RotatingDomain \<Rightarrow> bool \<Rightarrow> int \<Rightarrow> RotatingDomain handler" where
  "rotateDkim cfg an keyProvider domain compromised now =
     (let reason = (if compromised then Compromised else Manual);
          managed = resolveDkimManaged an keyProvider domain
      in case (dkimRotationBlocker keyProvider domain managed (rc_transportProvider cfg), keyProvider) of
           (None, Some kp) \<Rightarrow>
             (case dm_dkimRotation domain of
                Some state \<Rightarrow>
                  if rs_phase state = PIdle
                  then startDkimRotation an kp domain reason now (if managed \<noteq> dm_dkimManaged domain then no_fields\<lparr>df_dkimManaged := managed\<rparr> else no_fields)
                  else if reason \<noteq> Compromised then h_throw (ApiError 409 ''A DKIM key rotation is already in progress for this domain.'')
                  else reportDkimKeyCompromised an kp domain state now
              | None \<Rightarrow>
                  startDkimRotation an kp domain reason now (if managed \<noteq> dm_dkimManaged domain then no_fields\<lparr>df_dkimManaged := managed\<rparr> else no_fields))
         | (Some b, _) \<Rightarrow> h_throw (ApiError 409 (refusal b))
         | (None, None) \<Rightarrow> h_throw TypeError)"

text \<open>\<^verbatim>\<open>current?.dkimSelector ?? domain.dkimSelector\<close>.\<close>

definition current_selector :: "RotatingDomain \<Rightarrow> RotatingDomain option \<Rightarrow> string" where
  "current_selector domain current =
     (case current of None \<Rightarrow> dm_dkimSelector domain
      | Some row \<Rightarrow> if dm_dkimSelector row = [] then dm_dkimSelector domain else dm_dkimSelector row)"

definition revertDkimSwitch :: "rotation_answers \<Rightarrow> DkimKeyProvider \<Rightarrow> RotatingDomain \<Rightarrow> DkimRotationState \<Rightarrow> DkimRotationState \<Rightarrow> RotatingDomain handler" where
  "revertDkimSwitch an kp domain state cancelled =
     (let gone = h_throw (ApiError 409 ''The previous DKIM key is gone, so signing can't go back to it; let the rotation finish.'')
      in case rs_previous state of
           None \<Rightarrow> gone
         | Some prev \<Rightarrow>
             if pk_selector prev = [] \<or> pk_publicKey prev = [] then gone
             else
               h_bind (if kp_findKeyPair kp then (case an_find an (pk_selector prev) of Inl e \<Rightarrow> h_throw e | Inr held \<Rightarrow> h_return (held = None)) else h_return False) (\<lambda>missing.
               if missing then gone
               else
                 h_bind (h_catch (activate an (pk_selector prev))
                           (\<lambda>err. h_throw (ApiError 503 (''Signing could not be switched back to the previous DKIM key: '' @ error_message err)))) (\<lambda>_.
                 h_bind
                   (h_catch
                      (saveDkimRotation an domain cancelled (no_fields\<lparr>df_dkimSelector := Some (pk_selector prev), df_dkimPublicKey := Some (pk_publicKey prev)\<rparr>))
                      (\<lambda>err.
                         h_bind (find_domain an (dm_uid domain)) (\<lambda>current.
                         h_bind (h_catch (activate an (current_selector domain current)) (\<lambda>_. h_return ())) (\<lambda>_.
                         h_throw err))))
                   (\<lambda>updated. h_bind (h_catch (activate an (pk_selector prev)) (\<lambda>_. h_return ())) (\<lambda>_. h_return updated)))))"

definition cancelDkimRotation :: "rotation_answers \<Rightarrow> DkimKeyProvider option \<Rightarrow> RotatingDomain \<Rightarrow> int \<Rightarrow> RotatingDomain handler" where
  "cancelDkimRotation an keyProvider domain now =
     (case dm_dkimRotation domain of
        None \<Rightarrow> h_return domain
      | Some state \<Rightarrow>
          if rs_phase state = PIdle then h_return domain
          else if rs_phase state = POverlap
          then h_throw (ApiError 409 ''The mail server has confirmed it signs with the new DKIM key; the rotation finishes on its own.'')
          else
            (let reverted = (rs_phase state = PSwitching);
                 selector = (if reverted then dm_dkimSelector domain else next_selector (Some state));
                 cancelled = (keptDkimRotationState (Some state))\<lparr>rs_lastCancelledAt := Some now\<rparr>
             in h_bind
                  (if reverted then (case keyProvider of None \<Rightarrow> h_throw TypeError | Some kp \<Rightarrow> revertDkimSwitch an kp domain state cancelled)
                   else saveDkimRotation an domain cancelled no_fields)
                  (\<lambda>updated.
                     h_bind (if selector \<noteq> [] then (case keyProvider of None \<Rightarrow> h_return () | Some kp \<Rightarrow> delete_key an kp selector) else h_return ()) (\<lambda>_.
                     h_bind (h_call (CAudit DKIM_ROTATION_CANCELLED selector)) (\<lambda>_.
                     h_bind (h_call (CAnnounce (dm_uid domain))) (\<lambda>_. h_return updated))))))"

text \<open>\<^verbatim>\<open>updateDkimRotation()\<close> on the row it read: pause or resume.\<close>

definition updateDkimRotation :: "rotation_answers \<Rightarrow> RotatingDomain \<Rightarrow> bool \<Rightarrow> RotatingDomain handler" where
  "updateDkimRotation an domain paused =
     (let state = (case dm_dkimRotation domain of None \<Rightarrow> idle_state | Some st \<Rightarrow> st)
      in if (rs_paused state = Some True) = paused then h_return domain
         else h_bind (saveDkimRotation an domain (state\<lparr>rs_paused := Some paused\<rparr>) no_fields) (\<lambda>updated.
              h_bind (h_call (CAudit DKIM_ROTATION_PAUSED [])) (\<lambda>_. h_return updated)))"

end
