(* ===== verification/Dkim_Rotation_Safety.thy ===== *)
theory Dkim_Rotation_Safety
  imports Dkim_Rotation
begin

text \<open>
  What the DKIM rotation guarantees: the search for a selector ends with a fresh one; every handler, started from a row
  that may be stale, moves the stored row along an abstract machine of keys; and in every reachable system the keys a
  row names are different and none is published less than mail that may still be signed with it needs.
\<close>

section \<open>The selectors minted\<close>

lemma selector_candidate_inject: "selector_candidate base i = selector_candidate base j \<Longrightarrow> i = j"
proof -
  assume eq: "selector_candidate base i = selector_candidate base j"
  show "i = j"
  proof (cases "i = 0 \<or> j = 0")
    case True
    with eq show ?thesis
      by (auto simp: selector_candidate_def split: if_splits)
  next
    case False
    with eq have same: "replicate (i div 26 + 1) (char_of (97 + i mod 26)) = replicate (j div 26 + 1) (char_of (97 + j mod 26) :: char)"
      by (simp add: selector_candidate_def)
    then have "i div 26 = j div 26"
      by (metis add_right_cancel length_replicate)
    moreover have "char_of (97 + i mod 26) = (char_of (97 + j mod 26) :: char)"
      using same by simp
    then have "(97 + i mod 26) mod 256 = (97 + j mod 26) mod 256"
      by (metis of_char_of)
    then have "i mod 26 = j mod 26"
      by simp
    ultimately show ?thesis
      by (metis div_mult_mod_eq)
  qed
qed

lemma free_selector_ends:
  assumes "card {k. i \<le> k \<and> k < i + fuel \<and> selector_candidate base k \<in> set used} < fuel"
  shows "\<exists>k. free_selector fuel base used i = Some (selector_candidate base k) \<and> selector_candidate base k \<notin> set used"
  using assms
proof (induction fuel arbitrary: i)
  case 0
  then show ?case by simp
next
  case (Suc fuel)
  show ?case
  proof (cases "selector_candidate base i \<in> set used")
    case True
    have "{k. i \<le> k \<and> k < i + Suc fuel \<and> selector_candidate base k \<in> set used} =
        insert i {k. Suc i \<le> k \<and> k < Suc i + fuel \<and> selector_candidate base k \<in> set used}"
      using True by (auto simp: Suc_le_eq le_less)
    then have "card {k. Suc i \<le> k \<and> k < Suc i + fuel \<and> selector_candidate base k \<in> set used} < fuel"
      using Suc.prems by (simp add: card_insert_if)
    from Suc.IH [OF this] True show ?thesis
      by simp
  next
    case False
    then show ?thesis
      by (auto intro!: exI [of _ i])
  qed
qed

text \<open>The search for a new selector always ends, with one that is not taken: a candidate of the day that no entry names.\<close>

theorem newDkimSelector_fresh:
  "\<exists>k selector. newDkimSelector now taken = Some selector \<and> selector = selector_candidate (dkimSelectorBase now) k \<and> selector \<notin> set taken"
proof -
  let ?used = "uniq (filter (\<lambda>s. s \<noteq> []) taken)" and ?base = "dkimSelectorBase now"
  let ?hits = "{k. 0 \<le> k \<and> k < 0 + Suc (length ?used) \<and> selector_candidate ?base k \<in> set ?used}"
  have "selector_candidate ?base ` ?hits \<subseteq> set ?used"
    by auto
  then have "card (selector_candidate ?base ` ?hits) \<le> card (set ?used)"
    by (rule card_mono [OF finite_set])
  moreover have "card (selector_candidate ?base ` ?hits) = card ?hits"
    by (rule card_image) (auto intro!: inj_onI dest: selector_candidate_inject)
  ultimately have "card ?hits < Suc (length ?used)"
    using distinct_card [OF distinct_uniq, of "filter (\<lambda>s. s \<noteq> []) taken"] by linarith
  then obtain k where k: "free_selector (Suc (length ?used)) ?base ?used 0 = Some (selector_candidate ?base k)"
      "selector_candidate ?base k \<notin> set ?used"
    using free_selector_ends by blast
  have "selector_candidate ?base k \<noteq> []"
    by (simp add: selector_candidate_def dkimSelectorBase_def DKIM_ROTATION_SELECTOR_PREFIX_def)
  with k show ?thesis
    by (auto simp: newDkimSelector_def Let_def)
qed

section \<open>The abstract machine\<close>

text \<open>What the row says of the keys: the active selector, and the phase with the other one.\<close>

datatype key_phase = AIdle | APending string | ASwitching string | AOverlap string

definition abs_phase :: "DkimRotationState option \<Rightarrow> key_phase" where
  "abs_phase state =
     (case state of
        None \<Rightarrow> AIdle
      | Some st \<Rightarrow>
          (case rs_phase st of
             PIdle \<Rightarrow> AIdle
           | PPending \<Rightarrow> APending (next_selector state)
           | PSwitching \<Rightarrow> ASwitching (previous_selector state)
           | POverlap \<Rightarrow> AOverlap (previous_selector state)))"

definition abs_keys :: "RotatingDomain \<Rightarrow> string \<times> key_phase" where
  "abs_keys row = (dm_dkimSelector row, abs_phase (dm_dkimRotation row))"

text \<open>The moves: \<open>ready\<close> says that the new record has been live long enough, \<open>confirmed\<close> that the mail server reports it signs
  with the active selector.\<close>

inductive key_move :: "bool \<Rightarrow> bool \<Rightarrow> string \<times> key_phase \<Rightarrow> string \<times> key_phase \<Rightarrow> bool" for ready confirmed where
  stay: "key_move ready confirmed keys keys"
| begun: "new \<noteq> active \<Longrightarrow> key_move ready confirmed (active, AIdle) (active, APending new)"
| switch: "ready \<Longrightarrow> key_move ready confirmed (active, APending new) (new, ASwitching active)"
| confirm: "confirmed \<Longrightarrow> key_move ready confirmed (active, ASwitching old) (active, AOverlap old)"
| retire: "key_move ready confirmed (active, AOverlap old) (active, AIdle)"
| abandon: "key_move ready confirmed (active, APending new) (active, AIdle)"
| revert: "key_move ready confirmed (active, ASwitching old) (old, AIdle)"

text \<open>A row as the rotation keeps it: the keys named by its phase and no others, all different.\<close>

definition rotation_ok :: "RotatingDomain \<Rightarrow> bool" where
  "rotation_ok row =
     (case dm_dkimRotation row of
        None \<Rightarrow> True
      | Some st \<Rightarrow>
          (case rs_phase st of
             PIdle \<Rightarrow> rs_next st = None \<and> rs_previous st = None
           | PPending \<Rightarrow> rs_previous st = None \<and> rs_next st \<noteq> None \<and> next_selector (Some st) \<noteq> dm_dkimSelector row
           | _ \<Rightarrow> rs_next st = None \<and> rs_previous st \<noteq> None \<and> previous_selector (Some st) \<noteq> dm_dkimSelector row))"

text \<open>The evidence the job has for a switch and for a confirmation.\<close>

definition record_ready :: "rotation_config \<Rightarrow> rotation_answers \<Rightarrow> int \<Rightarrow> RotatingDomain \<Rightarrow> bool" where
  "record_ready cfg an now row \<longleftrightarrow>
     (\<exists>st nk t. dm_dkimRotation row = Some st \<and> rs_next st = Some nk \<and> nk_liveSince nk = Some t \<and>
        isDkimKeyLive an (dm_name row) (nk_selector nk) (nk_publicKey nk) = Live \<and>
        (nk_reason nk = Compromised \<or> rc_publishGraceHours cfg * HOUR_MS \<le> now - t))"

definition row_move :: "rotation_config \<Rightarrow> rotation_answers set \<Rightarrow> int \<Rightarrow> RotatingDomain \<Rightarrow> RotatingDomain \<Rightarrow> bool" where
  "row_move cfg ans now r r' \<longleftrightarrow>
     dm_uid r' = dm_uid r \<and> dm_name r' = dm_name r \<and> dm_version r < dm_version r' \<and>
     (rotation_ok r \<longrightarrow> rotation_ok r' \<and>
        key_move (\<exists>an\<in>ans. record_ready cfg an now r) (\<exists>an\<in>ans. an_signing an = Inr (Some (dm_dkimSelector r))) (abs_keys r) (abs_keys r'))"

text \<open>A handler changes stored rows only by moves.\<close>

definition changed_by :: "(RotatingDomain \<Rightarrow> RotatingDomain \<Rightarrow> bool) \<Rightarrow> rotation_world \<Rightarrow> rotation_world \<Rightarrow> bool" where
  "changed_by R w w' \<longleftrightarrow> (\<forall>uid. rel_option R\<^sup>*\<^sup>* (w_stored w uid) (w_stored w' uid))"

definition seen :: "rotation_world \<Rightarrow> RotatingDomain \<Rightarrow> bool" where
  "seen w domain \<longleftrightarrow> (\<forall>row. w_stored w (dm_uid domain) = Some row \<longrightarrow> dm_version row = dm_version domain \<longrightarrow> row = domain)"

lemma changed_by_refl: "w_stored w' = w_stored w \<Longrightarrow> changed_by R w w'"
  by (auto simp: changed_by_def intro: option.rel_refl)

lemma changed_by_trans:
  assumes "changed_by R w w'" "changed_by R w' w''"
  shows "changed_by R w w''"
  unfolding changed_by_def
proof
  fix uid
  show "rel_option R\<^sup>*\<^sup>* (w_stored w uid) (w_stored w'' uid)"
    using assms unfolding changed_by_def by (auto simp: rel_option_iff split: option.splits dest!: spec [of _ uid])
qed

text \<open>Handlers that leave the stored rows alone.\<close>

definition quiet :: "'a handler \<Rightarrow> bool" where
  "quiet h \<longleftrightarrow> (\<forall>w. w_stored (snd (h w)) = w_stored w)"

lemma quiet_return: "quiet (h_return x)" and quiet_throw: "quiet (h_throw e)" and quiet_call: "quiet (h_call c)"
  by (simp_all add: quiet_def h_return_def h_throw_def h_call_def)

lemma quiet_bind: "quiet m \<Longrightarrow> (\<And>x. quiet (f x)) \<Longrightarrow> quiet (h_bind m f)"
  by (auto simp: quiet_def h_bind_def split: prod.splits sum.splits) (metis snd_conv)+

lemma quiet_catch: "quiet m \<Longrightarrow> (\<And>e. quiet (f e)) \<Longrightarrow> quiet (h_catch m f)"
  by (auto simp: quiet_def h_catch_def split: prod.splits sum.splits) (metis snd_conv)+

lemma quiet_find: "quiet (find_domain an uid)"
  by (simp add: quiet_def find_domain_def split: option.split)

lemma quiet_provider: "quiet (call_provider failure c)"
  by (simp add: call_provider_def quiet_throw quiet_call split: option.split)

lemma quiet_activate: "quiet (activate an selector)"
  using quiet_provider by (simp add: quiet_def activate_def)

lemma quiet_delete: "quiet (delete_key an kp selector)"
  by (simp add: delete_key_def quiet_catch quiet_provider quiet_return)

lemmas quiet_rules = quiet_return quiet_throw quiet_call quiet_bind quiet_catch quiet_find quiet_provider quiet_activate quiet_delete

lemma quiet_unrecorded: "quiet (deleteUnrecordedDkimKey an kp domain selector)"
  unfolding deleteUnrecordedDkimKey_def
  by (intro quiet_catch quiet_bind quiet_find quiet_return) (auto simp: quiet_rules split: option.split)

lemma quiet_ask: "quiet (ask_to_switch an domain state now)"
  unfolding ask_to_switch_def
  by (intro quiet_catch quiet_bind quiet_find quiet_activate quiet_return) (auto simp: quiet_rules intro!: quiet_bind split: list.split option.split)

lemma quiet_forget: "quiet (forget_unknown uid)" and quiet_take_start: "quiet take_start"
  and quiet_settled: "quiet (settled_liveness l uid now)"
  by (simp_all add: quiet_def forget_unknown_def take_start_def settled_liveness_def Let_def)

text \<open>The effect of a handler from a snapshot.\<close>

definition sound :: "(RotatingDomain \<Rightarrow> RotatingDomain \<Rightarrow> bool) \<Rightarrow> rotation_world \<Rightarrow> 'a handler \<Rightarrow> bool" where
  "sound R w h \<longleftrightarrow> changed_by R w (snd (h w))"

lemma sound_quiet: "quiet h \<Longrightarrow> sound R w h"
  by (simp add: sound_def quiet_def changed_by_refl)

lemma sound_return: "sound R w (h_return x)" and sound_throw: "sound R w (h_throw e)"
  by (simp_all add: sound_quiet quiet_return quiet_throw)

lemma sound_bind:
  assumes "sound R w m" "\<And>x w'. m w = (Inr x, w') \<Longrightarrow> sound R w' (f x)"
  shows "sound R w (h_bind m f)"
proof -
  obtain r w' where m: "m w = (r, w')"
    by (cases "m w") auto
  then have "changed_by R w w'"
    using assms(1) by (simp add: sound_def)
  moreover have "changed_by R w' (snd (f x w'))" if "r = Inr x" for x
    using assms(2) m that by (simp add: sound_def)
  ultimately show ?thesis
    using m by (cases r) (auto simp: sound_def h_bind_def elim: changed_by_trans)
qed

lemma sound_catch:
  assumes "sound R w m" "\<And>e w'. m w = (Inl e, w') \<Longrightarrow> sound R w' (f e)"
  shows "sound R w (h_catch m f)"
proof -
  obtain r w' where m: "m w = (r, w')"
    by (cases "m w") auto
  then have "changed_by R w w'"
    using assms(1) by (simp add: sound_def)
  moreover have "changed_by R w' (snd (f e w'))" if "r = Inl e" for e
    using assms(2) m that by (simp add: sound_def)
  ultimately show ?thesis
    using m by (cases r) (auto simp: sound_def h_catch_def elim: changed_by_trans)
qed

lemma sound_bind_quiet: "sound R w m \<Longrightarrow> (\<And>x. quiet (f x)) \<Longrightarrow> sound R w (h_bind m f)"
  by (rule sound_bind) (auto intro: sound_quiet)

lemma quiet_sound_bind:
  assumes "quiet m" "\<And>x w'. w_stored w' = w_stored w \<Longrightarrow> sound R w' (f x)"
  shows "sound R w (h_bind m f)"
proof (rule sound_bind)
  show "sound R w m"
    using assms(1) by (rule sound_quiet)
next
  fix x w'
  assume "m w = (Inr x, w')"
  then have "w_stored w' = w_stored w"
    using assms(1) [unfolded quiet_def, rule_format, of w] by simp
  then show "sound R w' (f x)"
    by (rule assms(2))
qed

lemma seen_cong: "w_stored w' = w_stored w \<Longrightarrow> seen w domain \<Longrightarrow> seen w' domain"
  by (simp add: seen_def)

lemma update_sound:
  assumes "seen w domain" "R domain (updated_row domain state extra)"
  shows "sound R w (update_domain an domain state extra)"
  using assms
  by (auto simp: sound_def update_domain_def seen_def changed_by_def option.rel_refl Let_def split: option.split)

lemma update_result:
  assumes "seen w domain" "update_domain an domain state extra w = (Inr row, w')"
  shows "row = updated_row domain state extra \<and> w_stored w' (dm_uid domain) = Some row"
  using assms by (auto simp: update_domain_def seen_def Let_def split: option.splits if_splits)

section \<open>Every handler moves along the machine\<close>

lemma updated_row_simps [simp]:
  "dm_uid (updated_row r st ex) = dm_uid r" "dm_name (updated_row r st ex) = dm_name r"
  "dm_version (updated_row r st ex) = Suc (dm_version r)"
  "dm_dkimRotation (updated_row r (Some st') ex) = Some st'" "dm_dkimRotation (updated_row r None ex) = dm_dkimRotation r"
  "dm_dkimSelector (updated_row r st ex) = (case df_dkimSelector ex of None \<Rightarrow> dm_dkimSelector r | Some v \<Rightarrow> v)"
  by (simp_all add: updated_row_def)

lemma no_fields_simps [simp]: "df_dkimSelector no_fields = None"
  by (simp add: no_fields_def)

lemma kept_simps [simp]:
  "rs_phase (keptDkimRotationState st) = PIdle" "rs_next (keptDkimRotationState st) = None" "rs_previous (keptDkimRotationState st) = None"
  by (simp_all add: keptDkimRotationState_def idle_state_def split: option.split)

lemma stay_move:
  assumes "dm_dkimRotation r = Some st" "df_dkimSelector ex = None"
    and "rs_phase st' = rs_phase st" "rs_next st' = None \<longleftrightarrow> rs_next st = None" "rs_previous st' = None \<longleftrightarrow> rs_previous st = None"
    and "next_selector (Some st') = next_selector (Some st)" "previous_selector (Some st') = previous_selector (Some st)"
  shows "row_move cfg A now r (updated_row r (Some st') ex)"
proof -
  have "abs_keys (updated_row r (Some st') ex) = abs_keys r" "rotation_ok (updated_row r (Some st') ex) = rotation_ok r"
    using assms by (auto simp: abs_keys_def abs_phase_def rotation_ok_def split: rotation_phase.split)
  then show ?thesis
    by (simp add: row_move_def key_move.stay)
qed

lemma managed_move: "row_move cfg A now r (updated_row r None (no_fields\<lparr>df_dkimManaged := m\<rparr>))"
proof -
  have "abs_keys (updated_row r None (no_fields\<lparr>df_dkimManaged := m\<rparr>)) = abs_keys r"
      "rotation_ok (updated_row r None (no_fields\<lparr>df_dkimManaged := m\<rparr>)) = rotation_ok r"
    by (auto simp: abs_keys_def rotation_ok_def no_fields_def split: option.split rotation_phase.split)
  then show ?thesis
    by (simp add: row_move_def key_move.stay)
qed

lemma begin_move:
  assumes "abs_phase (dm_dkimRotation r) = AIdle" "rs_phase st' = PPending" "rs_next st' \<noteq> None" "rs_previous st' = None"
    and "next_selector (Some st') \<noteq> dm_dkimSelector r" "df_dkimSelector ex = None"
  shows "row_move cfg A now r (updated_row r (Some st') ex)"
  using assms by (simp add: row_move_def abs_keys_def abs_phase_def [of "Some st'"] rotation_ok_def [of "updated_row r (Some st') ex"] key_move.begun)

text \<open>Back to idle, from any phase that is not switching.\<close>

lemma idle_move:
  assumes "dm_dkimRotation r = Some st" "rs_phase st \<noteq> PSwitching"
    and "rs_phase st' = PIdle" "rs_next st' = None" "rs_previous st' = None" "df_dkimSelector ex = None"
  shows "row_move cfg A now r (updated_row r (Some st') ex)"
  using assms
  by (cases "rs_phase st")
    (auto simp: row_move_def abs_keys_def abs_phase_def rotation_ok_def intro: key_move.intros)

lemma revert_move:
  assumes "dm_dkimRotation r = Some st" "rs_phase st = PSwitching" "rs_previous st = Some p"
    and "rs_phase st' = PIdle" "rs_next st' = None" "rs_previous st' = None" "df_dkimSelector ex = Some (pk_selector p)"
  shows "row_move cfg A now r (updated_row r (Some st') ex)"
  using assms
  by (auto simp: row_move_def abs_keys_def abs_phase_def rotation_ok_def previous_selector_def intro: key_move.revert)

lemma switch_move:
  assumes "dm_dkimRotation r = Some st" "rs_phase st = PPending" "rs_next st = Some nk"
    and "an \<in> A" "record_ready cfg an now r"
    and "rs_phase st' = PSwitching" "rs_next st' = None" "rs_previous st' = Some p" "pk_selector p = dm_dkimSelector r"
    and "df_dkimSelector ex = Some (nk_selector nk)"
  shows "row_move cfg A now r (updated_row r (Some st') ex)"
proof -
  have "key_move (\<exists>an\<in>A. record_ready cfg an now r) c (dm_dkimSelector r, APending (nk_selector nk)) (nk_selector nk, ASwitching (dm_dkimSelector r))" for c
    using assms(4,5) by (intro key_move.switch) blast
  then show ?thesis
    using assms
    by (simp add: row_move_def abs_keys_def abs_phase_def rotation_ok_def next_selector_def previous_selector_def eq_commute [of "dm_dkimSelector r"])
qed

lemma confirm_move:
  assumes "dm_dkimRotation r = Some st" "rs_phase st = PSwitching"
    and "an \<in> A" "an_signing an = Inr (Some (dm_dkimSelector r))"
    and "rs_phase st' = POverlap" "rs_next st' = rs_next st" "rs_previous st' \<noteq> None" "df_dkimSelector ex = None"
    and "previous_selector (Some st') = previous_selector (Some st)"
  shows "row_move cfg A now r (updated_row r (Some st') ex)"
proof -
  have "key_move c (\<exists>an\<in>A. an_signing an = Inr (Some (dm_dkimSelector r)))
      (dm_dkimSelector r, ASwitching (previous_selector (Some st))) (dm_dkimSelector r, AOverlap (previous_selector (Some st)))" for c
    using assms(3,4) by (intro key_move.confirm) blast
  then show ?thesis
    using assms
    by (simp add: row_move_def abs_keys_def abs_phase_def rotation_ok_def)
qed

lemma save_sound:
  assumes "seen w domain" "row_move cfg A now domain (updated_row domain (Some state) extra)"
  shows "sound (row_move cfg A now) w (saveDkimRotation an domain state extra)"
  unfolding saveDkimRotation_def using assms by (rule update_sound)

lemma save_result:
  assumes "seen w domain" "saveDkimRotation an domain state extra w = (Inr row, w')"
  shows "row = updated_row domain (Some state) extra \<and> w_stored w' (dm_uid domain) = Some row"
  using update_result [OF assms(1)] assms(2) by (simp add: saveDkimRotation_def)

lemma seen_stored: "w_stored w (dm_uid row) = Some row \<Longrightarrow> seen w row"
  by (simp add: seen_def)

lemma generate_sound:
  assumes seen: "seen w domain" and pending: "dm_dkimRotation domain = Some st"
  shows "sound (row_move cfg A now) w (generateNextDkimKey an kp domain)"
proof (cases "rs_next st")
  case None
  then show ?thesis
    by (simp add: generateNextDkimKey_def pending sound_quiet quiet_throw)
next
  case (Some nk)
  show ?thesis
  proof (cases "an_generate an (nk_selector nk)")
    case (Inl err)
    then show ?thesis
      unfolding generateNextDkimKey_def pending option.case Some
      using seen pending by (auto intro!: save_sound stay_move simp: next_selector_def previous_selector_def)
  next
    case (Inr key)
    let ?st = "st\<lparr>rs_lastError := None, rs_next := Some (nk\<lparr>nk_publicKey := key\<rparr>)\<rparr>"
    have save: "sound (row_move cfg A now) w' (saveDkimRotation an domain ?st no_fields)" if "w_stored w' = w_stored w" for w'
      using seen_cong [OF that seen] pending Some
      by (intro save_sound stay_move) (auto simp: next_selector_def previous_selector_def)
    show ?thesis
      unfolding generateNextDkimKey_def pending option.case Some Inr sum.case
      by (intro quiet_sound_bind quiet_call sound_bind_quiet sound_catch save sound_quiet quiet_bind quiet_return quiet_throw)
        (simp_all add: quiet_unrecorded quiet_return)
  qed
qed

lemma start_sound:
  assumes seen: "seen w domain" and idle: "abs_phase (dm_dkimRotation domain) = AIdle" and ex: "df_dkimSelector ex = None"
  shows "sound (row_move cfg A now) w (startDkimRotation an kp domain reason t ex)"
proof -
  let ?base = "dkimSelectorBase t" and ?state = "dm_dkimRotation domain"
  let ?minted = "filter (prefix ?base) (case ?state of None \<Rightarrow> [] | Some st \<Rightarrow> nullish (rs_mintedSelectors st))"
  let ?taken = "[dm_dkimSelector domain, previous_selector ?state, next_selector ?state] @ ?minted"
  obtain selector where selector: "newDkimSelector t ?taken = Some selector" "selector \<notin> set ?taken"
    using newDkimSelector_fresh [of t ?taken] by blast
  let ?st = "(keptDkimRotationState ?state)
      \<lparr>rs_phase := PPending,
       rs_next := Some \<lparr>nk_selector = selector, nk_publicKey = [], nk_createdAt = Some t, nk_liveSince = None, nk_reason = reason\<rparr>,
       rs_mintedSelectors := Some (?minted @ [selector])\<rparr>"
  have save: "sound (row_move cfg A now) w (saveDkimRotation an domain ?st ex)"
    using seen idle ex selector(2) by (intro save_sound begin_move) (auto simp: next_selector_def)
  have generate: "sound (row_move cfg A now) w' (h_bind (h_call (CAudit DKIM_ROTATION_STARTED selector)) (\<lambda>_. generateNextDkimKey an kp row))"
    if saved: "saveDkimRotation an domain ?st ex w = (Inr row, w')" for row w'
  proof -
    have row: "dm_dkimRotation row = Some ?st" "w_stored w' (dm_uid row) = Some row"
      using save_result [OF seen saved] by (simp_all del: append.simps)
    show ?thesis
      by (intro quiet_sound_bind quiet_call generate_sound [OF seen_stored row(1)]) (simp add: row(2))
  qed
  show ?thesis
    unfolding startDkimRotation_def Let_def selector(1) option.case using save generate by (rule sound_bind)
qed

lemma retire_sound:
  assumes "seen w domain" "dm_dkimRotation domain = Some st" "rs_phase st \<noteq> PSwitching"
  shows "sound (row_move cfg A now) w (retireDkimRotation an kp domain t)"
  unfolding retireDkimRotation_def Let_def
  using assms
  by (intro sound_bind_quiet save_sound idle_move) (auto intro!: quiet_bind simp: quiet_rules)

lemma stepIdle_sound:
  assumes "seen w domain" "abs_phase (dm_dkimRotation domain) = AIdle"
  shows "sound (row_move cfg A now) w (stepIdle cfg' an kp domain t)"
proof -
  let ?managed = "resolveDkimManaged an (Some kp) domain"
  let ?mark = "if ?managed = Some False \<and> dm_dkimManaged domain \<noteq> Some False
      then h_bind (update_domain an domain None (no_fields\<lparr>df_dkimManaged := Some False\<rparr>)) (\<lambda>_. h_return ()) else h_return ()"
  let ?starting = "if ?managed \<noteq> Some True then h_return None
      else h_bind take_start (\<lambda>_. h_bind (startDkimRotation an kp domain Scheduled t (no_fields\<lparr>df_dkimManaged := Some True\<rparr>)) (\<lambda>row. h_return (Some row)))"
  have starting: "sound (row_move cfg A now) w' ?starting" if "w_stored w' = w_stored w" for w'
  proof (cases "?managed = Some True")
    case True
    have "sound (row_move cfg A now) w'' (startDkimRotation an kp domain Scheduled t (no_fields\<lparr>df_dkimManaged := Some True\<rparr>))"
      if "w_stored w'' = w_stored w" for w''
      using seen_cong [OF that assms(1)] assms(2) by (intro start_sound) simp_all
    then show ?thesis
      unfolding True using that by (simp add: quiet_sound_bind [OF quiet_take_start] sound_bind_quiet quiet_return)
  next
    case False
    then show ?thesis
      by (simp add: sound_quiet quiet_return)
  qed
  have "sound (row_move cfg A now) w (h_bind ?mark (\<lambda>_. ?starting))"
  proof (cases "?managed = Some False \<and> dm_dkimManaged domain \<noteq> Some False")
    case True
    then show ?thesis
      using assms(1) by (auto intro!: sound_bind_quiet update_sound managed_move quiet_return)
  next
    case False
    then show ?thesis
      unfolding if_not_P [OF False] by (intro quiet_sound_bind quiet_return starting)
  qed
  then show ?thesis
    by (simp add: sound_def stepIdle_def Let_def changed_by_refl split: option.split)
qed

lemma after_lookup_sound:
  assumes seen: "seen w domain" and st: "dm_dkimRotation domain = Some st" "rs_phase st = PPending" "rs_next st = Some nk" and an: "an \<in> A"
    and live: "settled = Some Live \<Longrightarrow> isDkimKeyLive an (dm_name domain) (nk_selector nk) (nk_publicKey nk) = Live"
  shows "sound (row_move cfg A now) w (after_lookup cfg an domain st nk now settled)"
proof -
  have again: "sound (row_move cfg A now) w (saveDkimRotation an domain (st\<lparr>rs_next := Some (nk\<lparr>nk_liveSince := t\<rparr>)\<rparr>) no_fields)" for t
    using seen st by (intro save_sound stay_move) (auto simp: next_selector_def previous_selector_def)
  have "sound (row_move cfg A now) w (switch_key an domain st nk now)"
    if "settled = Some Live" "nk_liveSince nk = Some t" "\<not> (nk_reason nk \<noteq> Compromised \<and> now - t < rc_publishGraceHours cfg * HOUR_MS)" for t
  proof -
    have "record_ready cfg an now domain"
      using st live that by (auto simp: record_ready_def)
    then show ?thesis
      unfolding switch_key_def
      by (intro sound_bind_quiet save_sound [OF seen] switch_move [OF st an, where p =
            "\<lparr>pk_selector = dm_dkimSelector domain, pk_publicKey = dm_dkimPublicKey domain, pk_retireAt = None\<rparr>"] quiet_rules) simp_all
  qed
  then show ?thesis
    by (simp add: after_lookup_def sound_return sound_bind_quiet [OF again] quiet_return split: option.split)
qed

lemma stepPending_sound:
  assumes seen: "seen w domain" and st: "dm_dkimRotation domain = Some st" "rs_phase st = PPending" and an: "an \<in> A"
  shows "sound (row_move cfg A now) w (stepPending cfg an kp domain st now)"
proof (cases "rs_next st")
  case None
  with seen st show ?thesis
    unfolding stepPending_def None option.case by (intro sound_bind_quiet save_sound idle_move quiet_return) auto
next
  case (Some nk)
  let ?live = "isDkimKeyLive an (dm_name domain) (nk_selector nk) (nk_publicKey nk)"
  show ?thesis
  proof (cases "nk_selector nk = [] \<or> nk_publicKey nk = []")
    case True
    then show ?thesis
      unfolding stepPending_def Some option.case using seen st
      by (auto intro!: sound_bind_quiet save_sound idle_move generate_sound quiet_return)
  next
    case False
    have "sound (row_move cfg A now) w (h_bind (settled_liveness ?live (dm_uid domain) now) (after_lookup cfg an domain st nk now))"
    proof (rule sound_bind [OF sound_quiet [OF quiet_settled]])
      fix r w'
      assume r: "settled_liveness ?live (dm_uid domain) now w = (Inr r, w')"
      then have "w_stored w' = w_stored w" "r = Some Live \<Longrightarrow> ?live = Live"
        by (auto simp: settled_liveness_def Let_def split: if_splits)
      then show "sound (row_move cfg A now) w' (after_lookup cfg an domain st nk now r)"
        using seen_cong [OF _ seen] by (intro after_lookup_sound [OF _ st Some an]) auto
    qed
    with False show ?thesis
      by (simp add: stepPending_def Some)
  qed
qed

lemma stepSwitching_sound:
  assumes seen: "seen w domain" and st: "dm_dkimRotation domain = Some st" "rs_phase st = PSwitching" and an: "an \<in> A"
  shows "sound (row_move cfg A now) w (stepSwitching cfg' an kp domain st t)"
proof (cases "an_signing an = Inr (Some (dm_dkimSelector domain))")
  case True
  note confirm = confirm_move [OF st an True]
  have "sound (row_move cfg A now) w (saveDkimRotation an domain (st\<lparr>rs_lastError := None, rs_phase := POverlap, rs_previous := Some p\<rparr>) no_fields)"
    if "pk_selector p = previous_selector (Some st)" for p
    using that by (intro save_sound [OF seen] confirm) (simp_all add: previous_selector_def)
  then show ?thesis
    by (simp add: stepSwitching_def True Let_def sound_bind_quiet quiet_return previous_selector_def split: option.split)
next
  case False
  have again: "sound (row_move cfg A now) w' (saveDkimRotation an domain (st\<lparr>rs_lastError := e\<rparr>) no_fields)" if "w_stored w' = w_stored w" for w' e
    using seen_cong [OF that seen] st by (intro save_sound stay_move) (auto simp: next_selector_def previous_selector_def)
  have "sound (row_move cfg A now) w (h_bind (ask_to_switch an domain st t) (\<lambda>outcome.
      case outcome of
        None \<Rightarrow> h_return None
      | Some lastError \<Rightarrow>
          if lastError \<noteq> rs_lastError st then h_bind (saveDkimRotation an domain (st\<lparr>rs_lastError := lastError\<rparr>) no_fields) (\<lambda>_. h_return None)
          else h_return None))"
    by (rule quiet_sound_bind [OF quiet_ask]) (simp add: sound_return sound_bind_quiet [OF again] quiet_return split: option.split)
  with False show ?thesis
    by (auto simp: stepSwitching_def sound_throw split: sum.split)
qed

lemma stepOverlap_sound:
  assumes "seen w domain" "dm_dkimRotation domain = Some st" "rs_phase st = POverlap"
  shows "sound (row_move cfg A now) w (stepOverlap an kp domain st t)"
proof -
  have "sound (row_move cfg A now) w (retireDkimRotation an kp domain t)"
    using assms by (intro retire_sound) auto
  then show ?thesis
    by (simp add: stepOverlap_def sound_return sound_bind_quiet quiet_return split: option.split)
qed

lemma job_step_sound:
  assumes seen: "seen w domain" and an: "an \<in> A"
  shows "sound (row_move cfg A now) w (job_step cfg an kp domain now)"
proof (cases "dm_dkimRotation domain")
  case None
  then show ?thesis
    using seen_cong [OF _ seen] by (simp add: job_step_def quiet_sound_bind [OF quiet_forget] stepIdle_sound abs_phase_def)
next
  case (Some st)
  show ?thesis
    using seen_cong [OF _ seen] Some an
    by (cases "rs_phase st")
      (simp_all add: job_step_def quiet_sound_bind [OF quiet_forget] stepIdle_sound stepPending_sound [OF seen] stepSwitching_sound stepOverlap_sound abs_phase_def)
qed

text \<open>The row a step hands on is the stored one.\<close>

definition gives :: "('a \<Rightarrow> RotatingDomain option) \<Rightarrow> rotation_world \<Rightarrow> 'a handler \<Rightarrow> bool" where
  "gives g w h \<longleftrightarrow> (\<forall>x w' row. h w = (Inr x, w') \<longrightarrow> g x = Some row \<longrightarrow> w_stored w' (dm_uid row) = Some row)"

lemma gives_bind: "(\<And>x w'. m w = (Inr x, w') \<Longrightarrow> gives g w' (f x)) \<Longrightarrow> gives g w (h_bind m f)"
  by (auto simp: gives_def h_bind_def split: prod.splits sum.splits)

lemma gives_catch: "gives g w m \<Longrightarrow> (\<And>e w'. m w = (Inl e, w') \<Longrightarrow> gives g w' (f e)) \<Longrightarrow> gives g w (h_catch m f)"
  by (auto simp: gives_def h_catch_def split: prod.splits sum.splits)

lemma gives_throw: "gives g w (h_throw e)" and gives_none: "g x = None \<Longrightarrow> gives g w (h_return x)"
  by (simp_all add: gives_def h_throw_def h_return_def)

lemma gives_save: "seen w domain \<Longrightarrow> gives Some w (saveDkimRotation an domain state extra)"
  using save_result [of w domain an state extra] by (fastforce simp: gives_def)

lemma gives_then:
  assumes "gives Some w m" "\<And>x w' w'' y. f x w' = (Inr y, w'') \<Longrightarrow> w_stored w'' = w_stored w' \<and> (g y = None \<or> g y = Some x)"
  shows "gives g w (h_bind m f)"
  using assms by (fastforce simp: gives_def h_bind_def split: prod.splits sum.splits)

lemma gives_return: "gives Some w m \<Longrightarrow> (\<And>x. g (k x) = None \<or> g (k x) = Some x) \<Longrightarrow> gives g w (h_bind m (\<lambda>x. h_return (k x)))"
  by (rule gives_then) (auto simp: h_return_def)

lemma announced: "h_bind (h_call c) (\<lambda>_. h_return y) w = (Inr z, w') \<Longrightarrow> z = y \<and> w_stored w' = w_stored w"
  by (auto simp: h_bind_def h_call_def h_return_def)

lemma gives_generate:
  assumes "seen w domain"
  shows "gives Some w (generateNextDkimKey an kp domain)"
proof -
  have save: "gives Some w' (saveDkimRotation an domain st no_fields)" if "w_stored w' = w_stored w" for w' st
    using seen_cong [OF that assms] by (rule gives_save)
  have "gives Some w (h_bind (h_call c) (\<lambda>_. h_bind
      (h_catch (saveDkimRotation an domain st no_fields) (\<lambda>err. h_bind (quit err) (\<lambda>_. h_throw err)))
      (\<lambda>updated. h_bind (h_call c') (\<lambda>_. h_return updated))))" for c c' st and quit :: "js_error \<Rightarrow> unit handler"
  proof (rule gives_bind)
    fix u w'
    assume "h_call c w = (Inr u, w')"
    then have "w_stored w' = w_stored w"
      by (auto simp: h_call_def)
    then show "gives Some w' (h_bind
        (h_catch (saveDkimRotation an domain st no_fields) (\<lambda>err. h_bind (quit err) (\<lambda>_. h_throw err)))
        (\<lambda>updated. h_bind (h_call c') (\<lambda>_. h_return updated)))"
      by (intro gives_then gives_catch save gives_bind gives_throw) (auto dest: announced)
  qed
  then show ?thesis
    by (simp add: generateNextDkimKey_def gives_throw save split: option.split sum.split)
qed

lemma gives_start:
  assumes "seen w domain"
  shows "gives Some w (startDkimRotation an kp domain reason t ex)"
proof -
  have "gives Some w (h_bind (saveDkimRotation an domain st ex) (\<lambda>started. h_bind (h_call c) (\<lambda>_. generateNextDkimKey an kp started)))" for st c
  proof (rule gives_bind)
    fix row w'
    assume saved: "saveDkimRotation an domain st ex w = (Inr row, w')"
    then have "w_stored w' (dm_uid row) = Some row"
      using save_result [OF assms saved] by simp
    then show "gives Some w' (h_bind (h_call c) (\<lambda>_. generateNextDkimKey an kp row))"
      by (auto intro!: gives_bind gives_generate seen_stored simp: h_call_def)
  qed
  then show ?thesis
    by (simp add: startDkimRotation_def Let_def gives_throw split: option.split)
qed

lemma gives_stepIdle:
  assumes "seen w domain"
  shows "gives (\<lambda>x. x) w (stepIdle cfg an kp domain now)"
proof -
  let ?managed = "resolveDkimManaged an (Some kp) domain"
  have start: "gives (\<lambda>x. x) w (h_bind take_start (\<lambda>_. h_bind (startDkimRotation an kp domain Scheduled now ex) (\<lambda>row. h_return (Some row))))" for ex
  proof (rule gives_bind)
    fix u w'
    assume "take_start w = (Inr u, w')"
    then have "seen w' domain"
      using assms by (auto simp: take_start_def seen_def)
    then show "gives (\<lambda>x. x) w' (h_bind (startDkimRotation an kp domain Scheduled now ex) (\<lambda>row. h_return (Some row)))"
      by (intro gives_return gives_start) simp_all
  qed
  have "gives (\<lambda>x. x) w (h_bind
      (if ?managed = Some False \<and> dm_dkimManaged domain \<noteq> Some False then mark else h_return ())
      (\<lambda>_. if ?managed \<noteq> Some True then h_return None
           else h_bind take_start (\<lambda>_. h_bind (startDkimRotation an kp domain Scheduled now ex) (\<lambda>row. h_return (Some row)))))" for mark ex
  proof (cases "?managed = Some True")
    case True
    have "h_bind (h_return ()) (\<lambda>_. f) = f" for f :: "RotatingDomain option handler"
      by (simp add: h_bind_def h_return_def)
    with True start [of ex] show ?thesis
      by simp
  next
    case False
    then show ?thesis
      by (intro gives_bind) (simp add: gives_none)
  qed
  then show ?thesis
    by (simp add: gives_def stepIdle_def Let_def split: option.split)
qed

lemma gives_after_lookup: "seen w domain \<Longrightarrow> gives (\<lambda>x. x) w (after_lookup cfg an domain st nk now settled)"
  by (auto simp: after_lookup_def switch_key_def gives_none intro!: gives_return gives_save gives_then split: option.split)
    (auto simp: h_bind_def h_call_def h_return_def)

lemma gives_stepPending:
  assumes "seen w domain"
  shows "gives (\<lambda>x. x) w (stepPending cfg an kp domain st now)"
proof -
  have "gives (\<lambda>x. x) w (h_bind (settled_liveness l uid now) (after_lookup cfg an domain st nk now))" for l uid nk
  proof (rule gives_bind)
    fix r w'
    assume "settled_liveness l uid now w = (Inr r, w')"
    then have "seen w' domain"
      using assms by (auto simp: settled_liveness_def Let_def seen_def split: if_splits)
    then show "gives (\<lambda>x. x) w' (after_lookup cfg an domain st nk now r)"
      by (rule gives_after_lookup)
  qed
  moreover have "gives (\<lambda>x. x) w (h_bind (generateNextDkimKey an kp domain) (\<lambda>generated. h_return (f generated)))"
    if "\<And>x. f x = None \<or> f x = Some x" for f
    using assms that by (intro gives_return gives_generate)
  ultimately show ?thesis
    using assms by (auto simp: stepPending_def intro!: gives_return gives_save split: option.split)
qed

lemma gives_job_step:
  assumes seen: "seen w domain"
  shows "gives (\<lambda>x. x) w (job_step cfg an kp domain now)"
proof -
  have forget: "gives (\<lambda>x. x) w (h_bind (forget_unknown uid) (\<lambda>_. h))"
    if "\<And>w'. seen w' domain \<Longrightarrow> gives (\<lambda>x. x) w' h" for uid and h :: "RotatingDomain option handler"
    using seen by (auto intro!: gives_bind that simp: forget_unknown_def seen_def)
  have switching: "gives (\<lambda>x. x) w' (stepSwitching cfg an kp domain st now)" if "seen w' domain" for w' st
  proof -
    have save: "gives Some w'' (saveDkimRotation an domain st' no_fields)" if "seen w'' domain" for w'' st'
      using that by (rule gives_save)
    have "gives (\<lambda>x. x) w' (h_bind (ask_to_switch an domain st now) (\<lambda>outcome.
        case outcome of None \<Rightarrow> h_return None
        | Some lastError \<Rightarrow> if lastError \<noteq> rs_lastError st
            then h_bind (saveDkimRotation an domain (st\<lparr>rs_lastError := lastError\<rparr>) no_fields) (\<lambda>_. h_return None) else h_return None))"
      by (rule gives_bind) (auto intro!: gives_bind gives_none split: option.split)
    then show ?thesis
      using that by (auto simp: stepSwitching_def gives_throw Let_def intro!: gives_return gives_save split: sum.split option.split)
  qed
  have overlap: "gives (\<lambda>x. x) w' (stepOverlap an kp domain st now)" for w' st
    by (auto simp: stepOverlap_def gives_none intro!: gives_bind split: option.split)
  show ?thesis
    using seen by (auto simp: job_step_def intro!: forget gives_stepIdle gives_stepPending switching overlap split: option.split rotation_phase.split)
qed

lemma advance_loop_sound:
  assumes "range ans \<subseteq> A"
  shows "(\<forall>d. current = Some d \<longrightarrow> seen w d) \<Longrightarrow> sound (row_move cfg A now) w (advance_loop cfg ans kp n current now)"
proof (induction n arbitrary: current w)
  case 0
  then show ?case by (simp add: sound_return)
next
  case (Suc n)
  show ?case
  proof (cases current)
    case None
    then show ?thesis by (simp add: sound_return)
  next
    case (Some d)
    then have seen: "seen w d"
      using Suc.prems by simp
    have "sound (row_move cfg A now) w (h_bind (job_step cfg (ans n) kp d now) (\<lambda>row. advance_loop cfg ans kp n row now))"
    proof (rule sound_bind)
      show "sound (row_move cfg A now) w (job_step cfg (ans n) kp d now)"
        using seen assms by (intro job_step_sound) auto
    next
      fix row w'
      assume step: "job_step cfg (ans n) kp d now w = (Inr row, w')"
      then have "\<forall>d'. row = Some d' \<longrightarrow> seen w' d'"
        using gives_job_step [OF seen] by (auto simp: gives_def intro: seen_stored)
      then show "sound (row_move cfg A now) w' (advance_loop cfg ans kp n row now)"
        by (rule Suc.IH)
    qed
    with Some show ?thesis by simp
  qed
qed

lemma advanceDomain_sound: "seen w domain \<Longrightarrow> sound (row_move cfg (range ans) now) w (advanceDomain cfg ans kp domain now)"
  unfolding advanceDomain_def by (intro sound_catch advance_loop_sound sound_return) auto

text \<open>The routes have no evidence, and neither switch nor confirm.\<close>

lemma report_sound:
  assumes seen: "seen w domain" and st: "dm_dkimRotation domain = Some st"
  shows "sound (row_move cfg {} now) w (reportDkimKeyCompromised an kp domain st t)"
proof -
  have pending: "sound (row_move cfg {} now) w (saveDkimRotation an domain (st\<lparr>rs_next := Some (nk\<lparr>nk_reason := Compromised\<rparr>)\<rparr>) no_fields)"
    if "rs_next st = Some nk" for nk
    using seen st that by (intro save_sound stay_move) (auto simp: next_selector_def previous_selector_def)
  have switching: "sound (row_move cfg {} now) w (saveDkimRotation an domain (st\<lparr>rs_reason := Some Compromised\<rparr>) no_fields)"
    using seen st by (intro save_sound stay_move) (auto simp: next_selector_def previous_selector_def)
  have overlap: "sound (row_move cfg {} now) w (retireDkimRotation an kp domain t)" if "rs_phase st = POverlap"
    using seen st that by (intro retire_sound) auto
  show ?thesis
    by (cases "rs_phase st")
      (auto simp: reportDkimKeyCompromised_def Let_def sound_throw pending switching overlap quiet_rules intro!: sound_bind_quiet split: option.split)
qed

lemma rotateDkim_sound:
  assumes seen: "seen w domain"
  shows "sound (row_move cfg {} now) w (rotateDkim cfg' an keyProvider domain compromised t)"
proof -
  have start: "sound (row_move cfg {} now) w (startDkimRotation an kp domain reason t ex)"
    if "abs_phase (dm_dkimRotation domain) = AIdle" "df_dkimSelector ex = None" for kp reason ex
    using seen that by (rule start_sound)
  show ?thesis
    unfolding rotateDkim_def Let_def
    by (auto simp: sound_throw report_sound [OF seen] intro!: start split: option.split rotation_phase.split simp: abs_phase_def)
qed

lemma revert_sound:
  assumes seen: "seen w domain" and st: "dm_dkimRotation domain = Some st" "rs_phase st = PSwitching"
    and idle: "rs_phase st' = PIdle" "rs_next st' = None" "rs_previous st' = None"
  shows "sound (row_move cfg {} now) w (revertDkimSwitch an kp domain st st')"
proof (cases "rs_previous st")
  case None
  then show ?thesis by (simp add: revertDkimSwitch_def sound_throw)
next
  case (Some prev)
  let ?ex = "no_fields\<lparr>df_dkimSelector := Some (pk_selector prev), df_dkimPublicKey := Some (pk_publicKey prev)\<rparr>"
  have save: "sound (row_move cfg {} now) w' (saveDkimRotation an domain st' ?ex)" if "w_stored w' = w_stored w" for w'
    using seen_cong [OF that seen] st idle Some by (intro save_sound revert_move) auto
  have find: "quiet (if kp_findKeyPair kp then (case an_find an s of Inl e \<Rightarrow> h_throw e | Inr held \<Rightarrow> h_return (held = None)) else h_return False)" for s
    by (simp add: quiet_rules split: sum.split)
  have catching: "sound (row_move cfg {} now) w' (h_bind (h_catch (saveDkimRotation an domain st' ?ex) f) g)"
    if "w_stored w' = w_stored w" "\<And>e. quiet (f e)" "\<And>x. quiet (g x)" for w' f and g :: "RotatingDomain \<Rightarrow> RotatingDomain handler"
    using that by (intro sound_bind_quiet sound_catch save sound_quiet)
  note writing = catching [OF _ quiet_bind [OF quiet_find quiet_bind [OF quiet_catch [OF quiet_activate quiet_return] quiet_throw]]
      quiet_bind [OF quiet_catch [OF quiet_activate quiet_return] quiet_return]]
  have activating: "sound (row_move cfg {} now) w' (h_bind (h_catch (activate an s) (\<lambda>err. h_throw (e err))) (\<lambda>_. f))"
    if "w_stored w' = w_stored w" "\<And>w''. w_stored w'' = w_stored w \<Longrightarrow> sound (row_move cfg {} now) w'' f" for w' s e and f :: "RotatingDomain handler"
    using that by (intro quiet_sound_bind [OF quiet_catch [OF quiet_activate quiet_throw]]) simp
  show ?thesis
    unfolding revertDkimSwitch_def Let_def Some option.case
    by (simp add: sound_throw quiet_sound_bind [OF find] activating writing)
qed

lemma cancel_sound:
  assumes seen: "seen w domain"
  shows "sound (row_move cfg {} now) w (cancelDkimRotation an keyProvider domain t)"
proof (cases "dm_dkimRotation domain")
  case None
  then show ?thesis by (simp add: cancelDkimRotation_def sound_return)
next
  case (Some st)
  let ?st' = "(keptDkimRotationState (Some st))\<lparr>rs_lastCancelledAt := Some t\<rparr>"
  have pending: "sound (row_move cfg {} now) w (saveDkimRotation an domain ?st' no_fields)" if "rs_phase st \<noteq> PSwitching"
    using seen Some that by (intro save_sound idle_move) auto
  have switching: "sound (row_move cfg {} now) w (revertDkimSwitch an kp domain st ?st')" if "rs_phase st = PSwitching" for kp
    using seen Some that by (intro revert_sound) auto
  show ?thesis
    unfolding cancelDkimRotation_def Some option.case Let_def
    by (auto simp: sound_return sound_throw pending switching quiet_rules intro!: sound_bind_quiet quiet_bind split: option.split)
qed

lemma pause_sound:
  assumes seen: "seen w domain"
  shows "sound (row_move cfg {} now) w (updateDkimRotation an domain paused)"
proof (cases "dm_dkimRotation domain")
  case None
  have "row_move cfg {} now domain (updated_row domain (Some (idle_state\<lparr>rs_paused := Some paused\<rparr>)) no_fields)"
    using None by (simp add: row_move_def rotation_ok_def abs_keys_def abs_phase_def idle_state_def key_move.stay)
  then show ?thesis
    using None seen by (auto simp: updateDkimRotation_def sound_return quiet_rules intro!: sound_bind_quiet save_sound)
next
  case (Some st)
  then have "sound (row_move cfg {} now) w (saveDkimRotation an domain (st\<lparr>rs_paused := Some paused\<rparr>) no_fields)"
    using seen by (intro save_sound stay_move) (auto simp: next_selector_def previous_selector_def)
  with Some show ?thesis
    by (simp add: updateDkimRotation_def sound_return sound_bind_quiet quiet_rules)
qed

section \<open>The reachable systems\<close>

text \<open>The rows as they develop, with every row a job run or a request has read so far: each handler may run later, from a row that
  is no longer the stored one, and with any answers.\<close>

inductive rotation_reach :: "rotation_world \<Rightarrow> RotatingDomain set \<Rightarrow> bool" where
  initial: "(\<And>uid row. w_stored w uid = Some row \<Longrightarrow> dm_uid row = uid \<and> rotation_ok row) \<Longrightarrow> rotation_reach w {}"
| read: "rotation_reach w S \<Longrightarrow> w_stored w uid = Some row \<Longrightarrow> rotation_reach w (insert row S)"
| job: "rotation_reach w S \<Longrightarrow> domain \<in> S \<Longrightarrow> rotation_reach (snd (advanceDomain cfg ans kp domain now w)) S"
| rotate: "rotation_reach w S \<Longrightarrow> domain \<in> S \<Longrightarrow> rotation_reach (snd (rotateDkim cfg an keyProvider domain compromised now w)) S"
| cancel: "rotation_reach w S \<Longrightarrow> domain \<in> S \<Longrightarrow> rotation_reach (snd (cancelDkimRotation an keyProvider domain now w)) S"
| pause: "rotation_reach w S \<Longrightarrow> domain \<in> S \<Longrightarrow> rotation_reach (snd (updateDkimRotation an domain paused w)) S"

lemma moves_keep:
  assumes "(row_move cfg A now)\<^sup>*\<^sup>* r r'"
  shows "dm_uid r' = dm_uid r \<and> (r' = r \<or> dm_version r < dm_version r') \<and> (rotation_ok r \<longrightarrow> rotation_ok r')"
  using assms by (induction rule: rtranclp_induct) (auto simp: row_move_def)

definition world_ok :: "rotation_world \<Rightarrow> RotatingDomain set \<Rightarrow> bool" where
  "world_ok w S \<longleftrightarrow>
     (\<forall>uid row. w_stored w uid = Some row \<longrightarrow> dm_uid row = uid \<and> rotation_ok row) \<and>
     (\<forall>d\<in>S. \<forall>row. w_stored w (dm_uid d) = Some row \<longrightarrow> d = row \<or> dm_version d < dm_version row)"

lemma world_ok_seen: "world_ok w S \<Longrightarrow> domain \<in> S \<Longrightarrow> seen w domain"
  unfolding world_ok_def seen_def by (metis less_irrefl)

lemma world_ok_step:
  assumes ok: "world_ok w S" and step: "sound (row_move cfg A now) w h"
  shows "world_ok (snd (h w)) S"
proof -
  have moved: "\<exists>r. w_stored w uid = Some r \<and> (row_move cfg A now)\<^sup>*\<^sup>* r r'" if "w_stored (snd (h w)) uid = Some r'" for uid r'
  proof -
    have "rel_option (row_move cfg A now)\<^sup>*\<^sup>* (w_stored w uid) (Some r')"
      using step that unfolding sound_def changed_by_def by metis
    then show ?thesis
      by (simp only: option_rel_Some2)
  qed
  show ?thesis
    unfolding world_ok_def
  proof (intro conjI allI impI ballI)
    fix uid r'
    assume "w_stored (snd (h w)) uid = Some r'"
    then obtain r where "w_stored w uid = Some r" "(row_move cfg A now)\<^sup>*\<^sup>* r r'"
      using moved by blast
    then show "dm_uid r' = uid" "rotation_ok r'"
      using ok moves_keep unfolding world_ok_def by metis+
  next
    fix d r'
    assume d: "d \<in> S" and "w_stored (snd (h w)) (dm_uid d) = Some r'"
    then obtain r where r: "w_stored w (dm_uid d) = Some r" "(row_move cfg A now)\<^sup>*\<^sup>* r r'"
      using moved by blast
    have "d = r \<or> dm_version d < dm_version r"
      using ok d r(1) unfolding world_ok_def by blast
    then show "d = r' \<or> dm_version d < dm_version r'"
      using moves_keep [OF r(2)] by auto
  qed
qed

lemma reach_ok: "rotation_reach w S \<Longrightarrow> world_ok w S"
proof (induction rule: rotation_reach.induct)
  case (initial w)
  then show ?case by (simp add: world_ok_def)
next
  case (read w S uid row)
  then show ?case by (auto simp: world_ok_def)
next
  case (job w S domain cfg ans kp now)
  then show ?case using world_ok_step advanceDomain_sound world_ok_seen by blast
next
  case (rotate w S domain cfg an kp compromised now)
  then show ?case using world_ok_step rotateDkim_sound world_ok_seen by blast
next
  case (cancel w S domain an kp now)
  then show ?case using world_ok_step cancel_sound world_ok_seen by blast
next
  case (pause w S domain an paused)
  then show ?case using world_ok_step pause_sound world_ok_seen by blast
qed

text \<open>C14: However job runs and requests interleave, and however stale the rows they started from, every stored row names
  the keys of its phase and no others, and the keys it names are different.\<close>

theorem rotation_keys_consistent:
  assumes "rotation_reach w S" "w_stored w uid = Some row"
  shows "rotation_ok row"
  using reach_ok [OF assms(1)] assms(2) by (simp add: world_ok_def)


text \<open>The selectors whose records a row publishes.\<close>

fun named_keys :: "string \<times> key_phase \<Rightarrow> string set" where
  "named_keys (active, AIdle) = {active}"
| "named_keys (active, APending new) = {active, new}"
| "named_keys (active, ASwitching old) = {active, old}"
| "named_keys (active, AOverlap old) = {active, old}"

inductive_cases key_moveE: "key_move ready confirmed k k'"

text \<open>A record is dropped in three ways only: a new key is abandoned before the switch, an unconfirmed switch is reverted,
  or an old key is retired after the mail server confirmed the new one. In particular the active key stays published
  through every step except the reversal, which makes the old key active again.\<close>

theorem records_dropped:
  assumes "row_move cfg A now r r'" "rotation_ok r" "s \<in> named_keys (abs_keys r)" "s \<notin> named_keys (abs_keys r')"
  shows "(\<exists>active. abs_keys r = (active, APending s) \<and> abs_keys r' = (active, AIdle)) \<or>
    (\<exists>old. abs_keys r = (s, ASwitching old) \<and> abs_keys r' = (old, AIdle)) \<or>
    (\<exists>active. abs_keys r = (active, AOverlap s) \<and> abs_keys r' = (active, AIdle))"
proof -
  have "key_move (\<exists>an\<in>A. record_ready cfg an now r) (\<exists>an\<in>A. an_signing an = Inr (Some (dm_dkimSelector r))) (abs_keys r) (abs_keys r')"
    using assms(1,2) by (simp add: row_move_def)
  then show ?thesis
    using assms(3,4) by (elim key_moveE) auto
qed

section \<open>An example\<close>

text \<open>A row in its switch, and a mail server that confirms it.\<close>

definition example_row :: RotatingDomain where
  "example_row = \<lparr>dm_uid = ''u'', dm_name = ''x.y'', dm_version = 3, dm_enabled = True, dm_verified = True, dm_dateCreated = Some 0,
     dm_dkimSelector = ''rmxb'', dm_dkimPublicKey = ''K2'', dm_dkimManaged = Some True,
     dm_dkimRotation = Some (idle_state\<lparr>rs_phase := PSwitching, rs_previous := Some \<lparr>pk_selector = ''rmx'', pk_publicKey = ''K1'', pk_retireAt = None\<rparr>,
       rs_reason := Some Compromised, rs_switchedAt := Some 5\<rparr>)\<rparr>"

definition example_world :: rotation_world where
  "example_world = \<lparr>w_stored = (\<lambda>uid. if uid = ''u'' then Some example_row else None), w_unknownSince = (\<lambda>_. None), w_startsLeft = Some 10, w_calls = []\<rparr>"

definition example_answers :: rotation_answers where
  "example_answers = \<lparr>an_save = (\<lambda>_. None), an_findOne = None, an_generate = (\<lambda>_. Inr ''K''), an_find = (\<lambda>_. Inr None), an_activate = (\<lambda>_ _. None),
     an_signing = Inr (Some ''rmxb''), an_delete = (\<lambda>_. None), an_txt = (\<lambda>_. Inl True)\<rparr>"

definition example_provider :: DkimKeyProvider where
  "example_provider = \<lparr>kp_supportsRotation = True, kp_generateKeyPair = True, kp_activate = True, kp_signingSelector = True, kp_findKeyPair = True, kp_deleteKeyPair = True\<rparr>"

definition example_config :: rotation_config where
  "example_config = \<lparr>rc_enabled = JBool False, rc_intervalDays = 180, rc_overlapDays = 7, rc_publishGraceHours = 48, rc_maxStartsPerRun = 10, rc_transportProvider = ''postfix''\<rparr>"

lemma example_reach: "rotation_reach example_world {example_row}"
proof -
  have "rotation_reach example_world {}"
    by (rule initial)
      (auto simp: example_world_def example_row_def rotation_ok_def idle_state_def previous_selector_def split: if_splits)
  then show ?thesis
    using read [of example_world "{}" "''u''" example_row] by (simp add: example_world_def)
qed


lemma example_finished:
  "w_stored (snd (advanceDomain example_config (\<lambda>_. example_answers) example_provider example_row 9 example_world)) ''u'' =
   Some (example_row\<lparr>dm_version := 5, dm_dkimRotation := Some (idle_state\<lparr>rs_lastRotatedAt := Some 9\<rparr>)\<rparr>)"
  by (simp add: advanceDomain_def MAX_TRANSITIONS_PER_RUN_def eval_nat_numeral h_catch_def h_bind_def h_return_def h_call_def job_step_def
      forget_unknown_def stepSwitching_def stepOverlap_def stepIdle_def retireDkimRotation_def saveDkimRotation_def update_domain_def updated_row_def
      delete_key_def call_provider_def previous_selector_def keptDkimRotationState_def idle_state_def no_fields_def Let_def
      example_world_def example_row_def example_answers_def example_provider_def example_config_def)

theorem rotation_keys_consistent_witness:
  "rotation_ok (example_row\<lparr>dm_version := 5, dm_dkimRotation := Some (idle_state\<lparr>rs_lastRotatedAt := Some 9\<rparr>)\<rparr>)"
proof (rule rotation_keys_consistent)
  show "rotation_reach (snd (advanceDomain example_config (\<lambda>_. example_answers) example_provider example_row 9 example_world)) {example_row}"
    by (rule job [OF example_reach]) simp
qed (rule example_finished)

definition example_reverted :: RotatingDomain where
  "example_reverted = updated_row example_row (Some idle_state) (no_fields\<lparr>df_dkimSelector := Some ''rmx''\<rparr>)"

theorem records_dropped_witness:
  "(\<exists>active. abs_keys example_row = (active, APending ''rmxb'') \<and> abs_keys example_reverted = (active, AIdle)) \<or>
   (\<exists>old. abs_keys example_row = (''rmxb'', ASwitching old) \<and> abs_keys example_reverted = (old, AIdle)) \<or>
   (\<exists>active. abs_keys example_row = (active, AOverlap ''rmxb'') \<and> abs_keys example_reverted = (active, AIdle))"
proof (rule records_dropped)
  show "row_move example_config {} 9 example_row example_reverted"
    unfolding example_reverted_def
    by (rule revert_move [where st = "the (dm_dkimRotation example_row)" and p = "\<lparr>pk_selector = ''rmx'', pk_publicKey = ''K1'', pk_retireAt = None\<rparr>"])
      (simp_all add: example_row_def idle_state_def)
qed (simp_all add: example_row_def example_reverted_def idle_state_def rotation_ok_def abs_keys_def abs_phase_def previous_selector_def)

end
