(* ===== verification/Ip_Text.thy ===== *)
theory Ip_Text
  imports Json_Text
begin

text \<open>
  IP addresses as text: \<^verbatim>\<open>net.isIPv4()\<close>, \<^verbatim>\<open>net.isIPv6()\<close> and \<^verbatim>\<open>net.isIP()\<close> of Node, the numbers the texts stand for, and
  \<^verbatim>\<open>net.BlockList\<close>, whose rules compare an IPv4 address by its IPv4-mapped IPv6 form.
\<close>

section \<open>Digits\<close>

text \<open>\<^verbatim>\<open>n.toString(16)\<close>, and \<^verbatim>\<open>parseInt(s, 16)\<close> of a text of hexadecimal digits.\<close>

fun hex_text :: "nat \<Rightarrow> string" where
  "hex_text n = (if n < 16 then [hex_digit n] else hex_text (n div 16) @ [hex_digit (n mod 16)])"

declare hex_text.simps [simp del]

definition read_hex :: "string \<Rightarrow> nat" where
  "read_hex s = foldl (\<lambda>n c. 16 * n + (case hex_value c of None \<Rightarrow> 0 | Some d \<Rightarrow> d)) 0 s"

lemma hex_value_digit: "d < 16 \<Longrightarrow> hex_value (hex_digit d) = Some d"
proof -
  assume "d < 16"
  then have "d \<in> {0, 1, 2, 3, 4, 5, 6, 7, 8, 9, 10, 11, 12, 13, 14, 15}"
    by (simp add: numeral_eq_Suc less_Suc_eq)
  then show ?thesis
    by (auto simp: hex_value_def hex_digit_def Let_def)
qed

lemma read_hex_text [simp]: "read_hex (hex_text n) = n"
proof (induction n rule: hex_text.induct)
  case (1 n)
  then show ?case
    by (cases "n < 16") (auto simp: hex_text.simps [of n] read_hex_def hex_value_digit)
qed

lemma hex_text_inject: "hex_text m = hex_text n \<longleftrightarrow> m = n"
  by (metis read_hex_text)

lemma hex_text_digits: "c \<in> set (hex_text n) \<Longrightarrow> hex_value c \<noteq> None"
proof (induction n rule: hex_text.induct)
  case (1 n)
  then show ?case
    by (cases "n < 16") (auto simp: hex_text.simps [of n] hex_value_digit)
qed

section \<open>Addresses\<close>

definition is_octet :: "string \<Rightarrow> bool" where
  "is_octet s \<longleftrightarrow> s \<noteq> [] \<and> length s \<le> 3 \<and> list_all is_digit s \<and> (length s > 1 \<longrightarrow> hd s \<noteq> CHR ''0'') \<and> read_digits s \<le> 255"

definition isIPv4 :: "string \<Rightarrow> bool" where
  "isIPv4 s \<longleftrightarrow> length (js_split CHR ''.'' s) = 4 \<and> list_all is_octet (js_split CHR ''.'' s)"

definition is_hex_group :: "string \<Rightarrow> bool" where
  "is_hex_group s \<longleftrightarrow> s \<noteq> [] \<and> length s \<le> 4 \<and> list_all (\<lambda>c. hex_value c \<noteq> None) s"

text \<open>The parts around the first \<^verbatim>\<open>::\<close>.\<close>

fun split_gap :: "string \<Rightarrow> (string \<times> string) option" where
  "split_gap (a # b # s) =
     (if a = CHR '':'' \<and> b = CHR '':'' then Some ([], s)
      else map_option (\<lambda>(h, t). (a # h, t)) (split_gap (b # s)))"
| "split_gap s = None"

definition colon_groups :: "string \<Rightarrow> string list" where
  "colon_groups s = (if s = [] then [] else js_split CHR '':'' s)"

text \<open>How many 16-bit groups a list of groups stands for, when it is well formed; its last one may be a dotted IPv4 address.\<close>

definition group_count :: "string list \<Rightarrow> nat option" where
  "group_count gs =
     (if list_all is_hex_group gs then Some (length gs)
      else if gs \<noteq> [] \<and> list_all is_hex_group (butlast gs) \<and> isIPv4 (last gs) then Some (Suc (length gs))
      else None)"

definition is_plain_ipv6 :: "string \<Rightarrow> bool" where
  "is_plain_ipv6 s =
     (case split_gap s of
        None \<Rightarrow> group_count (js_split CHR '':'' s) = Some 8
      | Some (h, t) \<Rightarrow>
          list_all is_hex_group (colon_groups h) \<and>
          (case group_count (colon_groups t) of None \<Rightarrow> False | Some n \<Rightarrow> length (colon_groups h) + n \<le> 7))"

definition is_zone_char :: "char \<Rightarrow> bool" where
  "is_zone_char c \<longleftrightarrow>
     (let n = (of_char c :: nat)
      in (48 \<le> n \<and> n \<le> 57) \<or> (97 \<le> n \<and> n \<le> 122) \<or> (65 \<le> n \<and> n \<le> 90) \<or> c \<in> {CHR ''-'', CHR ''.'', CHR '':''})"

definition isIPv6 :: "string \<Rightarrow> bool" where
  "isIPv6 s =
     (case js_index_of CHR ''%'' s of
        None \<Rightarrow> is_plain_ipv6 s
      | Some i \<Rightarrow> is_plain_ipv6 (take i s) \<and> drop (Suc i) s \<noteq> [] \<and> list_all is_zone_char (drop (Suc i) s))"

definition isIP :: "string \<Rightarrow> nat" where
  "isIP s = (if isIPv4 s then 4 else if isIPv6 s then 6 else 0)"

section \<open>Numbers and block lists\<close>

definition ipv4_number :: "string \<Rightarrow> nat" where
  "ipv4_number s = foldl (\<lambda>n part. 256 * n + read_digits part) 0 (js_split CHR ''.'' s)"

definition group_numbers :: "string list \<Rightarrow> nat list" where
  "group_numbers gs =
     (if gs \<noteq> [] \<and> isIPv4 (last gs)
      then map read_hex (butlast gs) @ [ipv4_number (last gs) div 65536, ipv4_number (last gs) mod 65536]
      else map read_hex gs)"

definition ipv6_groups :: "string \<Rightarrow> nat list" where
  "ipv6_groups s =
     (let p = takeWhile (\<lambda>c. c \<noteq> CHR ''%'') s
      in case split_gap p of
           None \<Rightarrow> group_numbers (js_split CHR '':'' p)
         | Some (h, t) \<Rightarrow>
             (let a = group_numbers (colon_groups h); b = group_numbers (colon_groups t)
              in a @ replicate (8 - length a - length b) 0 @ b))"

definition ipv6_number :: "string \<Rightarrow> nat" where
  "ipv6_number s = foldl (\<lambda>n g. 65536 * n + g) 0 (ipv6_groups s)"

text \<open>An address as the 128-bit number the rules compare.\<close>

definition mapped_number :: "string \<Rightarrow> nat" where
  "mapped_number s = (if isIPv4 s then 65535 * 2 ^ 32 + ipv4_number s else ipv6_number s)"

text \<open>A rule: a network number and how many of its leading bits count.\<close>

type_synonym block_rule = "nat \<times> nat"

definition address_rule :: "string \<Rightarrow> block_rule" where
  "address_rule s = (mapped_number s, 128)"

text \<open>\<^verbatim>\<open>addSubnet()\<close>; \<^const>\<open>None\<close> where it throws on an invalid prefix.\<close>

definition subnet_rule :: "string \<Rightarrow> nat \<Rightarrow> block_rule option" where
  "subnet_rule s bits =
     (if isIPv4 s then (if bits \<le> 32 then Some (mapped_number s, 96 + bits) else None)
      else (if bits \<le> 128 then Some (mapped_number s, bits) else None))"

definition rule_matches :: "nat \<Rightarrow> block_rule \<Rightarrow> bool" where
  "rule_matches n r = (n div 2 ^ (128 - snd r) = fst r div 2 ^ (128 - snd r))"

definition block_list_check :: "block_rule list \<Rightarrow> string \<Rightarrow> bool" where
  "block_list_check rules s = list_ex (rule_matches (mapped_number s)) rules"

section \<open>Facts about the groups\<close>

lemma read_hex_bound: "list_all (\<lambda>c. hex_value c \<noteq> None) s \<Longrightarrow> read_hex s < 16 ^ length s"
proof (induction s rule: rev_induct)
  case (snoc c s)
  then obtain d where d: "hex_value c = Some d"
    by auto
  then have "d < 16"
    by (auto simp: hex_value_def Let_def split: if_splits)
  moreover have "read_hex s < 16 ^ length s"
    using snoc by simp
  ultimately show ?case
    using d by (simp add: read_hex_def)
qed (simp add: read_hex_def)

lemma hex_group_bound: "is_hex_group s \<Longrightarrow> read_hex s < 65536"
proof -
  assume s: "is_hex_group s"
  then have "read_hex s < 16 ^ length s"
    by (simp add: is_hex_group_def read_hex_bound)
  also have "\<dots> \<le> 16 ^ 4"
    using s by (intro power_increasing) (auto simp: is_hex_group_def)
  finally show ?thesis
    by simp
qed

lemma hex_group_not_ipv4: "is_hex_group s \<Longrightarrow> \<not> isIPv4 s"
proof
  assume s: "is_hex_group s" and v4: "isIPv4 s"
  have "hex_value CHR ''.'' = None"
    by (simp add: hex_value_def)
  then have "CHR ''.'' \<notin> set s"
    using s by (auto simp: is_hex_group_def list_all_iff)
  then have "js_split CHR ''.'' s = [s]"
    by (rule js_split_absent)
  with v4 show False
    by (simp add: isIPv4_def)
qed

lemma ipv4_number_bound:
  assumes "isIPv4 s"
  shows "ipv4_number s < 65536 * 65536"
proof -
  obtain a b c d where "js_split CHR ''.'' s = [a, b, c, d]" "read_digits a \<le> 255" "read_digits b \<le> 255" "read_digits c \<le> 255" "read_digits d \<le> 255"
    using assms by (auto simp: isIPv4_def is_octet_def eval_nat_numeral length_Suc_conv)
  then show ?thesis
    by (simp add: ipv4_number_def)
qed

lemma group_numbers_count:
  assumes "group_count gs = Some n"
  shows "length (group_numbers gs) = n \<and> (\<forall>g\<in>set (group_numbers gs). g < 65536)"
proof (cases "list_all is_hex_group gs")
  case True
  then have "gs = [] \<or> \<not> isIPv4 (last gs)"
    using hex_group_not_ipv4 by (auto simp: list_all_iff)
  with True assms show ?thesis
    by (auto simp: group_numbers_def group_count_def list_all_iff hex_group_bound)
next
  case False
  then have gs: "gs \<noteq> []" "list_all is_hex_group (butlast gs)" "isIPv4 (last gs)" "n = Suc (length gs)"
    using assms by (auto simp: group_count_def split: if_splits)
  then show ?thesis
    using ipv4_number_bound [OF gs(3)]
    by (auto simp: group_numbers_def list_all_iff hex_group_bound less_mult_imp_div_less)
qed

text \<open>A valid IPv6 address stands for eight 16-bit groups.\<close>

lemma ipv6_groups_bound:
  assumes "isIPv6 s"
  shows "length (ipv6_groups s) = 8 \<and> (\<forall>g\<in>set (ipv6_groups s). g < 65536)"
proof -
  let ?p = "takeWhile (\<lambda>c. c \<noteq> CHR ''%'') s"
  have plain: "is_plain_ipv6 ?p"
  proof (cases "js_index_of CHR ''%'' s")
    case None
    then have "?p = s"
      by (auto simp: takeWhile_eq_all_conv)
    then show ?thesis
      using None assms by (simp only: isIPv6_def option.case)
  next
    case (Some i)
    then have "?p = take i s"
      by (auto simp: js_index_of_Some intro!: takeWhile_eq_take_P_nth) (metis in_set_conv_nth length_take min.absorb4 nth_take)
    then show ?thesis
      using Some assms by (simp only: isIPv6_def option.case)
  qed
  show ?thesis
  proof (cases "split_gap ?p")
    case None
    with plain show ?thesis
      using group_numbers_count by (simp add: is_plain_ipv6_def ipv6_groups_def Let_def)
  next
    case (Some ht)
    obtain h t n where ht: "ht = (h, t)" "list_all is_hex_group (colon_groups h)" "group_count (colon_groups t) = Some n"
        "length (colon_groups h) + n \<le> 7"
      using plain Some by (cases ht) (auto simp: is_plain_ipv6_def split: option.splits)
    have "group_count (colon_groups h) = Some (length (colon_groups h))"
      using ht(2) by (simp add: group_count_def)
    from group_numbers_count [OF this] group_numbers_count [OF ht(3)] ht show ?thesis
      by (auto simp: ipv6_groups_def Some Let_def)
  qed
qed

end
