(* ===== verification/Client_Ip.thy ===== *)
theory Client_Ip
  imports Ip_Text
begin

unbundle bit_operations_syntax

text \<open>
  \<^verbatim>\<open>util/ClientIpUtils.ts\<close>: which address a request counts under. A request comes from a socket peer; only when the
  peer is one of the configured proxies are its forwarding headers read. The module caches the block list it
  builds from a list of ranges; the cache is the state here, a list of its entries in insertion order.
\<close>

section \<open>Normalized addresses\<close>

definition all_digits :: "string \<Rightarrow> bool" where
  "all_digits s \<longleftrightarrow> s \<noteq> [] \<and> list_all is_digit s"

text \<open>\<^verbatim>\<open>\d+\.\d+\.\d+\.\d+\<close>, the whole text.\<close>

definition is_dotted :: "string \<Rightarrow> bool" where
  "is_dotted s \<longleftrightarrow> length (js_split CHR ''.'' s) = 4 \<and> list_all all_digits (js_split CHR ''.'' s)"

definition is_line_end :: "char \<Rightarrow> bool" where
  "is_line_end c \<longleftrightarrow> (of_char c :: nat) \<in> {10, 13}"

text \<open>\<^verbatim>\<open>/^\[([^\]]+)\](?::\d+)?$/\<close> and \<^verbatim>\<open>/^(\d+\.\d+\.\d+\.\d+):\d+$/\<close>, with their first group.\<close>

definition match_bracketed :: "string \<Rightarrow> string option" where
  "match_bracketed s =
     (case s of
        [] \<Rightarrow> None
      | c # r \<Rightarrow>
          if c \<noteq> CHR ''['' then None
          else (case js_index_of CHR '']'' r of
                  None \<Rightarrow> None
                | Some i \<Rightarrow>
                    (let port = drop (Suc i) r
                     in if i > 0 \<and> (port = [] \<or> (hd port = CHR '':'' \<and> all_digits (tl port))) then Some (take i r) else None)))"

definition match_v4_port :: "string \<Rightarrow> string option" where
  "match_v4_port s =
     (case js_split CHR '':'' s of
        [a, p] \<Rightarrow> if is_dotted a \<and> all_digits p then Some a else None
      | _ \<Rightarrow> None)"

text \<open>\<^verbatim>\<open>text.replace(/%.*$/, "")\<close>: from the first percent sign with no line end after it.\<close>

fun drop_zone :: "string \<Rightarrow> string" where
  "drop_zone [] = []"
| "drop_zone (c # s) = (if c = CHR ''%'' \<and> \<not> list_ex is_line_end s then [] else c # drop_zone s)"

definition drop_mapped_prefix :: "string \<Rightarrow> string" where
  "drop_mapped_prefix s = (if js_lower (take 7 s) = ''::ffff:'' \<and> is_dotted (drop 7 s) then drop 7 s else s)"

definition normalizeIp :: "string \<Rightarrow> string" where
  "normalizeIp address =
     (let s0 = js_trim address;
          s1 = (case match_bracketed s0 of
                  Some b \<Rightarrow> b
                | None \<Rightarrow> (case match_v4_port s0 of Some a \<Rightarrow> a | None \<Rightarrow> s0))
      in drop_mapped_prefix (drop_zone s1))"

section \<open>Ranges\<close>

datatype trusted_proxies = NoProxies | ProxyText string | ProxyList "string list"

definition toEntries :: "trusted_proxies \<Rightarrow> string list" where
  "toEntries cidrs =
     filter (\<lambda>e. e \<noteq> [])
       (map js_trim (case cidrs of NoProxies \<Rightarrow> [] | ProxyText s \<Rightarrow> if s = [] then [] else js_split CHR '','' s | ProxyList l \<Rightarrow> l))"

text \<open>One round of the loop of \<^verbatim>\<open>buildBlockList()\<close>: the rule an entry adds, if any.\<close>

definition entryRule :: "string \<Rightarrow> block_rule option" where
  "entryRule entry =
     (let slash = js_index_of CHR ''/'' entry;
          address = normalizeIp (case slash of Some i \<Rightarrow> take i entry | None \<Rightarrow> entry);
          prefixText = (case slash of Some i \<Rightarrow> Some (drop (Suc i) entry) | None \<Rightarrow> None)
      in if isIP address = 0 then None
         else (case prefixText of
                 None \<Rightarrow> Some (address_rule address)
               | Some p \<Rightarrow> if all_digits p then subnet_rule address (read_digits p) else None))"

definition blockRules :: "string list \<Rightarrow> block_rule list" where
  "blockRules entries = List.map_filter entryRule entries"

type_synonym block_cache = "(string \<times> block_rule list) list"

definition buildBlockList :: "string list \<Rightarrow> block_cache \<Rightarrow> block_rule list \<times> block_cache" where
  "buildBlockList entries cache =
     (let key = js_join '','' entries
      in case map_of cache key of
           Some l \<Rightarrow> (l, cache)
         | None \<Rightarrow>
             (let l = blockRules entries
              in (l, (if length cache > 64 then [] else cache) @ [(key, l)])))"

definition isIpInCidrs :: "string option \<Rightarrow> trusted_proxies \<Rightarrow> block_cache \<Rightarrow> bool \<times> block_cache" where
  "isIpInCidrs ip cidrs cache =
     (case ip of
        None \<Rightarrow> (False, cache)
      | Some s \<Rightarrow>
          if s = [] then (False, cache)
          else (let entries = toEntries cidrs; address = normalizeIp s
                in if entries = [] \<or> isIP address = 0 then (False, cache)
                   else (case buildBlockList entries cache of (l, cache') \<Rightarrow> (block_list_check l address, cache'))))"

section \<open>The client of a request\<close>

datatype header_field = NoHeader | HeaderText string | HeaderList "string list"

record http_request =
  socketAddress :: "string option"
  connectionAddress :: "string option"
  headerOf :: "string \<Rightarrow> header_field"

definition headerValue :: "http_request \<Rightarrow> string \<Rightarrow> string option" where
  "headerValue req name =
     (case headerOf req name of NoHeader \<Rightarrow> None | HeaderText s \<Rightarrow> Some s | HeaderList l \<Rightarrow> Some (js_join '','' l))"

text \<open>The walk over the hops, from the right: the list is reversed, its last element is hop 0.\<close>

fun nearestHop :: "trusted_proxies \<Rightarrow> string list \<Rightarrow> block_cache \<Rightarrow> string option \<times> block_cache" where
  "nearestHop tp [] cache = (None, cache)"
| "nearestHop tp [h] cache = (Some h, cache)"
| "nearestHop tp (h # g # hs) cache =
     (case isIpInCidrs (Some h) tp cache of
        (True, cache') \<Rightarrow> nearestHop tp (g # hs) cache'
      | (False, cache') \<Rightarrow> (Some h, cache'))"

definition forwardedHops :: "string \<Rightarrow> string list" where
  "forwardedHops xff = filter (\<lambda>a. isIP a \<noteq> 0) (map normalizeIp (js_split CHR '','' xff))"

definition resolveClientIp :: "http_request \<Rightarrow> trusted_proxies \<Rightarrow> block_cache \<Rightarrow> string option \<times> block_cache" where
  "resolveClientIp req tp cache =
     (let rawRemote = (case socketAddress req of Some s \<Rightarrow> Some s | None \<Rightarrow> connectionAddress req);
          remote = (case rawRemote of None \<Rightarrow> None | Some s \<Rightarrow> if s = [] then None else Some (normalizeIp s))
      in case isIpInCidrs remote tp cache of
           (False, cache1) \<Rightarrow> (remote, cache1)
         | (True, cache1) \<Rightarrow>
             (case nearestHop tp (rev (forwardedHops (case headerValue req ''x-forwarded-for'' of None \<Rightarrow> [] | Some v \<Rightarrow> v))) cache1 of
                (Some h, cache2) \<Rightarrow> (Some h, cache2)
              | (None, cache2) \<Rightarrow>
                  (let realIp = (case headerValue req ''x-real-ip'' of
                                   None \<Rightarrow> None
                                 | Some v \<Rightarrow> if v = [] then None else Some (normalizeIp (hd (js_split CHR '','' v))))
                   in (case realIp of Some r \<Rightarrow> if isIP r \<noteq> 0 then realIp else remote | None \<Rightarrow> remote, cache2))))"

section \<open>Rate-limit keys\<close>

text \<open>\<^verbatim>\<open>/^(.*:)(\d+\.\d+\.\d+\.\d+)$/\<close>, with its two groups.\<close>

definition match_v4_tail :: "string \<Rightarrow> (string \<times> string) option" where
  "match_v4_tail s =
     (case js_last_index_of CHR '':'' s of
        None \<Rightarrow> None
      | Some i \<Rightarrow> if \<not> list_ex is_line_end (take (Suc i) s) \<and> is_dotted (drop (Suc i) s)
                  then Some (take (Suc i) s, drop (Suc i) s) else None)"

definition octet_pair :: "string list \<Rightarrow> nat \<Rightarrow> string" where
  "octet_pair octets i = hex_text (push_bit 8 (read_digits (octets ! i)) OR read_digits (octets ! Suc i))"

definition ipv6Groups :: "string \<Rightarrow> nat list option" where
  "ipv6Groups address =
     (if isIP address \<noteq> 6 then None
      else (let text0 = js_lower address;
                text1 = (case match_v4_tail text0 of
                           None \<Rightarrow> text0
                         | Some (pre, v4) \<Rightarrow>
                             (let octets = js_split CHR ''.'' v4
                              in pre @ octet_pair octets 0 @ '':'' @ octet_pair octets 2));
                (head, tail) = (case split_gap text1 of
                                  None \<Rightarrow> (text1, None)
                                | Some (h, t) \<Rightarrow> (h, Some (case split_gap t of None \<Rightarrow> t | Some (u, _) \<Rightarrow> u)));
                headGroups = (if head = [] then [] else js_split CHR '':'' head);
                tailGroups = (case tail of None \<Rightarrow> [] | Some t \<Rightarrow> if t = [] then [] else js_split CHR '':'' t);
                missing = 8 - length headGroups - length tailGroups;
                groups = (if tail = None then headGroups else headGroups @ replicate missing ''0'' @ tailGroups)
            in Some (map read_hex groups)))"

definition rateLimitKeyForIp :: "string \<Rightarrow> string" where
  "rateLimitKeyForIp ip =
     (let address = normalizeIp ip
      in case ipv6Groups address of
           None \<Rightarrow> address
         | Some groups \<Rightarrow> js_join '':'' (map hex_text (take 4 groups)) @ ''::/64'')"


section \<open>The cache is transparent\<close>

text \<open>A bounded table of computed values: it answers as the computation does, as long as no two arguments it is asked for
  share a key without sharing their value.\<close>

locale memo_table =
  fixes key :: "'a \<Rightarrow> 'k" and compute :: "'a \<Rightarrow> 'v" and ok :: "'a \<Rightarrow> bool" and bound :: nat
  assumes key_determines: "\<lbrakk>ok x; ok y; key x = key y\<rbrakk> \<Longrightarrow> compute x = compute y"
begin

definition lookup_or_compute :: "'a \<Rightarrow> ('k \<times> 'v) list \<Rightarrow> 'v \<times> ('k \<times> 'v) list" where
  "lookup_or_compute x t =
     (case map_of t (key x) of
        Some v \<Rightarrow> (v, t)
      | None \<Rightarrow> (compute x, (if length t > bound then [] else t) @ [(key x, compute x)]))"

definition table_ok :: "('k \<times> 'v) list \<Rightarrow> bool" where
  "table_ok t \<longleftrightarrow> (\<forall>kv\<in>set t. \<exists>x. ok x \<and> kv = (key x, compute x)) \<and> length t \<le> Suc bound"

lemma lookup_value:
  assumes "table_ok t" "ok x"
  shows "fst (lookup_or_compute x t) = compute x"
proof (cases "map_of t (key x)")
  case (Some v)
  then have "(key x, v) \<in> set t"
    by (rule map_of_SomeD)
  then obtain y where "ok y" "key x = key y" "v = compute y"
    using assms by (auto simp: table_ok_def)
  with key_determines [of x y] assms Some show ?thesis
    by (simp add: lookup_or_compute_def)
qed (simp add: lookup_or_compute_def)

lemma lookup_table_ok: "\<lbrakk>table_ok t; ok x\<rbrakk> \<Longrightarrow> table_ok (snd (lookup_or_compute x t))"
  by (auto simp: lookup_or_compute_def table_ok_def split: option.splits)

lemma table_ok_Nil: "table_ok []"
  by (simp add: table_ok_def)

end

lemma js_split_join: "\<lbrakk>xs \<noteq> []; \<forall>x\<in>set xs. c \<notin> set x\<rbrakk> \<Longrightarrow> js_split c (js_join [c] xs) = xs"
  by (induction "[c]" xs rule: js_join.induct) (auto simp: js_split_absent js_split_sep)

definition comma_free :: "string list \<Rightarrow> bool" where
  "comma_free entries \<longleftrightarrow> entries \<noteq> [] \<and> list_all (\<lambda>e. CHR '','' \<notin> set e) entries"

interpretation block_memo: memo_table "js_join '',''" blockRules comma_free 64
proof
  fix x y
  assume "comma_free x" "comma_free y" "js_join '','' x = js_join '','' y"
  then have "x = y"
    unfolding comma_free_def list_all_iff by (metis js_split_join)
  then show "blockRules x = blockRules y"
    by simp
qed

lemma buildBlockList_memo: "buildBlockList entries cache = block_memo.lookup_or_compute entries cache"
  by (auto simp: buildBlockList_def block_memo.lookup_or_compute_def Let_def split: option.splits)

text \<open>The answer without a cache, and the caches that arise when no entry of a list has a comma in it.\<close>

definition in_ranges :: "string option \<Rightarrow> trusted_proxies \<Rightarrow> bool" where
  "in_ranges ip cidrs =
     (case ip of
        None \<Rightarrow> False
      | Some s \<Rightarrow> s \<noteq> [] \<and> isIP (normalizeIp s) \<noteq> 0 \<and> block_list_check (blockRules (toEntries cidrs)) (normalizeIp s))"

definition sound_cache :: "block_cache \<Rightarrow> bool" where
  "sound_cache cache \<longleftrightarrow>
     list_all (\<lambda>(k, l). l = blockRules (js_split CHR '','' k)) cache \<and> length cache \<le> 65"

definition plain_proxies :: "trusted_proxies \<Rightarrow> bool" where
  "plain_proxies tp \<longleftrightarrow> list_all (\<lambda>e. CHR '','' \<notin> set e) (toEntries tp)"

lemma js_trim_set: "set (js_trim s) \<subseteq> set s"
  unfolding js_trim_def by (metis set_dropWhileD set_rev subsetI)

lemma plain_ProxyText: "plain_proxies (ProxyText s)"
proof -
  have "CHR '','' \<notin> set (js_trim p)" if "p \<in> set (js_split CHR '','' s)" for p
    using js_split_no_sep [OF that] js_trim_set [of p] by auto
  then show ?thesis
    by (auto simp: plain_proxies_def toEntries_def list_all_iff)
qed

lemma table_ok_sound: "block_memo.table_ok cache \<longleftrightarrow> sound_cache cache"
proof -
  have "(\<exists>x. comma_free x \<and> kl = (js_join '','' x, blockRules x)) \<longleftrightarrow> snd kl = blockRules (js_split CHR '','' (fst kl))" for kl
  proof
    assume "\<exists>x. comma_free x \<and> kl = (js_join '','' x, blockRules x)"
    then show "snd kl = blockRules (js_split CHR '','' (fst kl))"
      by (auto simp: comma_free_def list_all_iff js_split_join)
  next
    assume "snd kl = blockRules (js_split CHR '','' (fst kl))"
    then have "kl = (js_join '','' (js_split CHR '','' (fst kl)), blockRules (js_split CHR '','' (fst kl)))"
      by (cases kl) simp
    moreover have "comma_free (js_split CHR '','' (fst kl))"
      using js_split_no_sep by (auto simp: comma_free_def list_all_iff)
    ultimately show "\<exists>x. comma_free x \<and> kl = (js_join '','' x, blockRules x)"
      by blast
  qed
  then show ?thesis
    by (simp add: block_memo.table_ok_def sound_cache_def list_all_iff case_prod_beta)
qed

lemma blockRules_Nil [simp]: "blockRules [] = []"
  by (simp add: blockRules_def)

lemma isIpInCidrs_cached:
  assumes "sound_cache cache" "plain_proxies cidrs"
  shows "fst (isIpInCidrs ip cidrs cache) = in_ranges ip cidrs \<and> sound_cache (snd (isIpInCidrs ip cidrs cache))"
proof (cases "toEntries cidrs = []")
  case True
  then show ?thesis
    using assms by (auto simp: isIpInCidrs_def in_ranges_def block_list_check_def split: option.splits)
next
  case False
  then have "comma_free (toEntries cidrs)"
    using assms by (simp add: comma_free_def plain_proxies_def)
  then show ?thesis
    using assms block_memo.lookup_value [of cache "toEntries cidrs"] block_memo.lookup_table_ok [of cache "toEntries cidrs"]
    by (auto simp: isIpInCidrs_def in_ranges_def Let_def buildBlockList_memo table_ok_sound False split: option.splits prod.splits)
qed

text \<open>The client without a cache.\<close>

fun nearest_untrusted :: "trusted_proxies \<Rightarrow> string list \<Rightarrow> string option" where
  "nearest_untrusted tp [] = None"
| "nearest_untrusted tp [h] = Some h"
| "nearest_untrusted tp (h # g # hs) = (if in_ranges (Some h) tp then nearest_untrusted tp (g # hs) else Some h)"

definition peer_of :: "http_request \<Rightarrow> string option" where
  "peer_of req =
     (case (case socketAddress req of Some s \<Rightarrow> Some s | None \<Rightarrow> connectionAddress req) of
        None \<Rightarrow> None
      | Some s \<Rightarrow> if s = [] then None else Some (normalizeIp s))"

definition hops_of :: "http_request \<Rightarrow> string list" where
  "hops_of req = forwardedHops (case headerValue req ''x-forwarded-for'' of None \<Rightarrow> [] | Some v \<Rightarrow> v)"

definition real_ip_of :: "http_request \<Rightarrow> string option" where
  "real_ip_of req =
     (case headerValue req ''x-real-ip'' of
        None \<Rightarrow> None
      | Some v \<Rightarrow>
          let r = normalizeIp (hd (js_split CHR '','' v)) in if v \<noteq> [] \<and> isIP r \<noteq> 0 then Some r else None)"

definition client_of :: "http_request \<Rightarrow> trusted_proxies \<Rightarrow> string option" where
  "client_of req tp =
     (if in_ranges (peer_of req) tp
      then (case nearest_untrusted tp (rev (hops_of req)) of
              Some h \<Rightarrow> Some h
            | None \<Rightarrow> (case real_ip_of req of Some r \<Rightarrow> Some r | None \<Rightarrow> peer_of req))
      else peer_of req)"

lemma nearestHop_cached:
  assumes "sound_cache cache" "plain_proxies tp"
  shows "fst (nearestHop tp hs cache) = nearest_untrusted tp hs \<and> sound_cache (snd (nearestHop tp hs cache))"
  using assms
proof (induction tp hs cache rule: nearestHop.induct)
  case (3 tp h g hs cache)
  from isIpInCidrs_cached [OF 3(2,3), of "Some h"] 3 show ?case
    by (auto split: prod.splits bool.splits)
qed auto

lemma resolveClientIp_cached:
  assumes "sound_cache cache" "plain_proxies tp"
  shows "fst (resolveClientIp req tp cache) = client_of req tp \<and> sound_cache (snd (resolveClientIp req tp cache))"
proof -
  obtain b cache1 where first: "isIpInCidrs (peer_of req) tp cache = (b, cache1)"
    by fastforce
  then have b: "b = in_ranges (peer_of req) tp" "sound_cache cache1"
    using isIpInCidrs_cached [OF assms, of "peer_of req"] by auto
  obtain h cache2 where walk: "nearestHop tp (rev (hops_of req)) cache1 = (h, cache2)"
    by fastforce
  then have h: "h = nearest_untrusted tp (rev (hops_of req))" "sound_cache cache2"
    using nearestHop_cached [OF b(2) assms(2), of "rev (hops_of req)"] by auto
  have eq: "resolveClientIp req tp cache =
      (case isIpInCidrs (peer_of req) tp cache of
         (False, cache1) \<Rightarrow> (peer_of req, cache1)
       | (True, cache1) \<Rightarrow>
           (case nearestHop tp (rev (hops_of req)) cache1 of
              (Some h, cache2) \<Rightarrow> (Some h, cache2)
            | (None, cache2) \<Rightarrow> (case real_ip_of req of Some r \<Rightarrow> Some r | None \<Rightarrow> peer_of req, cache2)))"
    unfolding resolveClientIp_def peer_of_def hops_of_def real_ip_of_def Let_def
    by (auto split: option.split prod.split bool.split)
  show ?thesis
    unfolding eq first prod.case walk
    using b h by (auto simp: client_of_def split: bool.splits option.splits)
qed

section \<open>Forged headers\<close>

lemma nearest_untrusted_prefix:
  assumes "list_ex (\<lambda>h. \<not> in_ranges (Some h) tp) xs"
  shows "nearest_untrusted tp (xs @ ys) = Some (hd (filter (\<lambda>h. \<not> in_ranges (Some h) tp) xs))"
  using assms
proof (induction xs)
  case (Cons h hs)
  show ?case
  proof (cases "in_ranges (Some h) tp")
    case True
    with Cons.prems have ex: "list_ex (\<lambda>h. \<not> in_ranges (Some h) tp) hs"
      by simp
    then obtain g gs where "hs = g # gs"
      by (cases hs) auto
    with Cons.IH [OF ex] True show ?thesis
      by simp
  next
    case False
    then show ?thesis
      by (cases "hs @ ys") auto
  qed
qed simp

lemma forwardedHops_append: "forwardedHops (s @ '','' @ t) = forwardedHops s @ forwardedHops t"
  by (simp add: forwardedHops_def js_split_sep)

text \<open>C0: Who the client is does not depend on what the client wrote. Whatever the cache holds (from lists without
  commas inside an entry): if the socket peer is not a trusted proxy the forwarding headers are ignored and the client
  is the peer; if it is, and the part of \<^verbatim>\<open>X-Forwarded-For\<close> the proxies appended has a hop outside the trusted
  ranges, the client is the last such hop, for every text \<open>C18: forged\<close> in front of it.\<close>

theorem resolveClientIp_unforgeable:
  assumes "sound_cache cache" "plain_proxies tp"
  shows "(\<not> in_ranges (peer_of req) tp \<longrightarrow> fst (resolveClientIp req tp cache) = peer_of req) \<and>
    (in_ranges (peer_of req) tp \<and> headerValue req ''x-forwarded-for'' = Some (forged @ '','' @ appended) \<and>
     list_ex (\<lambda>h. \<not> in_ranges (Some h) tp) (forwardedHops appended) \<longrightarrow>
     fst (resolveClientIp req tp cache) = Some (last (filter (\<lambda>h. \<not> in_ranges (Some h) tp) (forwardedHops appended))))"
proof -
  let ?u = "\<lambda>h. \<not> in_ranges (Some h) tp"
  have "client_of req tp = Some (last (filter ?u (forwardedHops appended)))"
    if trusted: "in_ranges (peer_of req) tp" and xff: "headerValue req ''x-forwarded-for'' = Some (forged @ '','' @ appended)"
      and ex: "list_ex ?u (forwardedHops appended)"
  proof -
    have hops: "rev (hops_of req) = rev (forwardedHops appended) @ rev (forwardedHops forged)"
      using xff forwardedHops_append [of forged appended] by (simp add: hops_of_def)
    have "list_ex ?u (rev (forwardedHops appended))"
      using ex by (simp add: list_ex_iff)
    from nearest_untrusted_prefix [OF this]
    have "nearest_untrusted tp (rev (hops_of req)) = Some (last (filter ?u (forwardedHops appended)))"
      unfolding hops by (simp add: rev_filter [symmetric] hd_rev)
    then show ?thesis
      using trusted by (simp add: client_of_def)
  qed
  moreover have "\<not> in_ranges (peer_of req) tp \<Longrightarrow> client_of req tp = peer_of req"
    by (simp add: client_of_def)
  ultimately show ?thesis
    using resolveClientIp_cached [OF assms, of req] by auto
qed

definition sample_proxies :: trusted_proxies where
  "sample_proxies = ProxyText ''10.0.0.0/8, ::1''"

definition sample_request :: "string \<Rightarrow> http_request" where
  "sample_request peer =
     \<lparr>socketAddress = Some peer, connectionAddress = None,
      headerOf = (\<lambda>n. if n = ''x-forwarded-for'' then HeaderText ''1.1.1.1,203.0.113.9, 10.1.2.3'' else NoHeader)\<rparr>"

lemma replicate_numeral: "replicate (numeral k) x = x # replicate (pred_numeral k) x"
  by (simp add: numeral_eq_Suc)

lemmas normalize_eval =
  normalizeIp_def js_trim_def js_is_ws_def match_bracketed_def match_v4_port_def is_dotted_def all_digits_def is_digit_def
  drop_mapped_prefix_def js_lower_def js_lower_char_def is_line_end_def Let_def

lemmas valid_eval =
  isIP_def isIPv4_def isIPv6_def is_octet_def is_digit_def is_plain_ipv6_def group_count_def is_hex_group_def hex_value_def
  colon_groups_def is_zone_char_def read_digits_def Let_def

lemmas number_eval =
  mapped_number_def ipv4_number_def ipv6_number_def ipv6_groups_def group_numbers_def colon_groups_def hex_value_def
  read_digits_def read_hex_def replicate_numeral Let_def

lemma sample_normalized:
  "normalizeIp ''10.0.0.0'' = ''10.0.0.0''" "normalizeIp ''::1'' = ''::1''" "normalizeIp ''198.51.100.7'' = ''198.51.100.7''"
  "normalizeIp ''::ffff:10.0.0.5'' = ''10.0.0.5''" "normalizeIp ''10.0.0.5'' = ''10.0.0.5''" "normalizeIp ''203.0.113.9'' = ''203.0.113.9''"
  "normalizeIp '' 10.1.2.3'' = ''10.1.2.3''" "normalizeIp ''10.1.2.3'' = ''10.1.2.3''" "normalizeIp ''10.0.0.1'' = ''10.0.0.1''"
  by (simp_all add: normalize_eval)

lemma sample_valid:
  "isIPv4 ''10.0.0.0''" "isIPv4 ''198.51.100.7''" "isIPv4 ''10.0.0.5''" "isIPv4 ''203.0.113.9''" "isIPv4 ''10.1.2.3''"
  "isIPv4 ''10.0.0.1''" "\<not> isIPv4 ''::1''" "isIPv6 ''::1''"
  by (simp_all add: valid_eval)

lemma sample_numbers:
  "mapped_number ''10.0.0.0'' = 281470849515520" "mapped_number ''198.51.100.7'' = 281474007000071"
  "mapped_number ''10.0.0.5'' = 281470849515525" "mapped_number ''203.0.113.9'' = 281474087547145"
  "mapped_number ''10.1.2.3'' = 281470849581571" "mapped_number ''10.0.0.1'' = 281470849515521" "mapped_number ''::1'' = 1"
  by (simp_all add: number_eval sample_valid)

lemma sample_rules:
  "entryRule ''10.0.0.0/8'' = Some (281470849515520, 104)" "entryRule ''::1'' = Some (1, 128)"
  by (simp_all add: entryRule_def Let_def sample_normalized isIP_def sample_valid all_digits_def is_digit_def read_digits_def
      subnet_rule_def address_rule_def sample_numbers)

lemma sample_range:
  "blockRules (toEntries sample_proxies) = [(281470849515520, 104), (1, 128)]"
  by (simp add: sample_proxies_def toEntries_def js_trim_def js_is_ws_def blockRules_def map_filter_simps sample_rules)

lemma sample_facts:
  "\<not> in_ranges (peer_of (sample_request ''198.51.100.7'')) sample_proxies"
  "in_ranges (peer_of (sample_request ''::ffff:10.0.0.5'')) sample_proxies"
  "list_ex (\<lambda>h. \<not> in_ranges (Some h) sample_proxies) (forwardedHops ''203.0.113.9, 10.1.2.3'')"
  "last (filter (\<lambda>h. \<not> in_ranges (Some h) sample_proxies) (forwardedHops ''203.0.113.9, 10.1.2.3'')) = ''203.0.113.9''"
  "peer_of (sample_request ''198.51.100.7'') = Some ''198.51.100.7''"
  by (simp_all add: in_ranges_def peer_of_def sample_request_def forwardedHops_def sample_normalized isIP_def sample_valid sample_range
      block_list_check_def rule_matches_def sample_numbers)

theorem resolveClientIp_unforgeable_witness:
  "fst (resolveClientIp (sample_request ''198.51.100.7'') sample_proxies []) = Some ''198.51.100.7'' \<and>
   fst (resolveClientIp (sample_request ''::ffff:10.0.0.5'') sample_proxies []) = Some ''203.0.113.9''"
proof -
  have cache: "sound_cache []" and plain: "plain_proxies sample_proxies"
    by (simp_all add: sound_cache_def sample_proxies_def plain_ProxyText)
  have xff: "headerValue (sample_request ''::ffff:10.0.0.5'') ''x-forwarded-for'' = Some (''1.1.1.1'' @ '','' @ ''203.0.113.9, 10.1.2.3'')"
    by (simp add: headerValue_def sample_request_def)
  show ?thesis
    using resolveClientIp_unforgeable [OF cache plain, THEN conjunct1, THEN mp, OF sample_facts(1)]
      resolveClientIp_unforgeable [OF cache plain, THEN conjunct2, THEN mp, OF conjI, OF sample_facts(2) conjI, OF xff sample_facts(3)]
    by (simp only: sample_facts simp_thms)
qed

text \<open>A list entry with a comma inside shares its cache key with the two entries it looks like: whether the peer is
  trusted then depends on what was asked before.\<close>

lemma comma_entry_rules:
  "entryRule ''10.0.0.0/8,192.168.0.0/16'' = None" "entryRule ''10.0.0.0/8'' = Some (281470849515520, 104)"
  "entryRule ''192.168.0.0/16'' = Some (281473913978880, 112)"
proof -
  have "normalizeIp ''192.168.0.0'' = ''192.168.0.0''" "isIPv4 ''192.168.0.0''" "mapped_number ''192.168.0.0'' = 281473913978880"
    by (simp_all add: normalize_eval valid_eval number_eval)
  then show "entryRule ''10.0.0.0/8,192.168.0.0/16'' = None" "entryRule ''10.0.0.0/8'' = Some (281470849515520, 104)"
    "entryRule ''192.168.0.0/16'' = Some (281473913978880, 112)"
    by (simp_all add: entryRule_def Let_def sample_normalized isIP_def sample_valid all_digits_def is_digit_def read_digits_def
        subnet_rule_def sample_numbers)
qed

lemma comma_entry_cache:
  "let tp = ProxyList [''10.0.0.0/8,192.168.0.0/16'']; cache = snd (isIpInCidrs (Some ''::1'') (ProxyText ''10.0.0.0/8,192.168.0.0/16'') [])
   in fst (isIpInCidrs (Some ''10.0.0.1'') tp []) = False \<and> fst (isIpInCidrs (Some ''10.0.0.1'') tp cache) = True"
  by (simp add: isIpInCidrs_def buildBlockList_def toEntries_def js_trim_def js_is_ws_def blockRules_def map_filter_simps Let_def
      sample_normalized isIP_def sample_valid comma_entry_rules block_list_check_def rule_matches_def sample_numbers)

section \<open>One key per network\<close>

lemma octet_pair_value: "b < 256 \<Longrightarrow> push_bit 8 a OR b = 256 * a + (b :: nat)"
proof -
  assume b: "b < 256"
  have "push_bit 8 a AND b = 0"
  proof (rule bit_eqI)
    fix n
    have "take_bit 8 b = b"
      using b by (simp add: take_bit_nat_eq_self_iff)
    then have "\<not> bit b n" if "8 \<le> n"
      using that by (metis bit_take_bit_iff not_less)
    then show "bit (push_bit 8 a AND b) n = bit 0 n"
      by (auto simp: bit_and_iff bit_push_bit_iff)
  qed
  then show ?thesis
    by (simp add: disjunctive_add_eq_or [symmetric] push_bit_eq_mult)
qed

lemma split_gap_append:
  "\<lbrakk>split_gap x = None; x = [] \<or> hd x \<noteq> CHR '':''\<rbrakk> \<Longrightarrow>
   split_gap (s @ x) = map_option (\<lambda>(h, t). (h, t @ x)) (split_gap s)"
proof (induction s rule: split_gap.induct [case_names two none one])
  case (two a b s)
  then show ?case
    by (auto simp: option.map_comp comp_def case_prod_beta)
next
  case (one a)
  then show ?case
    by (cases x rule: split_gap.cases) auto
qed auto

lemma split_gap_colon_free: "CHR '':'' \<notin> set x \<Longrightarrow> split_gap x = None"
  by (induction x rule: split_gap.induct) auto

lemma split_gap_colon_free_append: "\<lbrakk>CHR '':'' \<notin> set a; split_gap x = None; a \<noteq> []\<rbrakk> \<Longrightarrow> split_gap (a @ x) = None"
proof (induction a rule: split_gap.induct [case_names two none one])
  case (one c)
  then show ?case
    by (cases x) auto
qed auto

lemma split_gap_pair: "\<lbrakk>a \<noteq> []; CHR '':'' \<notin> set a; CHR '':'' \<notin> set b\<rbrakk> \<Longrightarrow> split_gap (a @ '':'' @ b) = None"
  by (rule split_gap_colon_free_append) (cases b; auto simp: split_gap_colon_free)+

lemma split_gap_Some:
  "split_gap x = Some (h, u) \<Longrightarrow> x = h @ ''::'' @ u"
  by (induction x arbitrary: h rule: split_gap.induct) (auto split: if_splits)

lemma js_split_last_append: "js_split c (s @ c # t) = js_split c s @ js_split c t \<and> last (js_split c (s @ c # t)) = last (js_split c t)"
  by (simp add: js_split_sep)

lemma split_gap_groups:
  assumes "split_gap x = Some (h, u)"
  shows "last (js_split CHR '':'' x) = last (js_split CHR '':'' u)" and "[] \<in> set (js_split CHR '':'' x)"
proof -
  have "js_split CHR '':'' x = js_split CHR '':'' h @ js_split CHR '':'' (CHR '':'' # u)"
    using js_split_sep [of "CHR '':''" h "CHR '':'' # u"] split_gap_Some [OF assms] by simp
  then show "last (js_split CHR '':'' x) = last (js_split CHR '':'' u)" "[] \<in> set (js_split CHR '':'' x)"
    by simp_all
qed

lemma group_count_no_gap:
  assumes "group_count (colon_groups u) = Some n"
  shows "split_gap u = None"
proof (rule ccontr)
  assume "split_gap u \<noteq> None"
  then obtain h v where gap: "split_gap u = Some (h, v)"
    by auto
  then have "[] \<in> set (colon_groups u)" "colon_groups u \<noteq> []"
    using split_gap_groups(2) [OF gap] by (auto simp: colon_groups_def)
  then have "[] \<in> set (butlast (colon_groups u)) \<or> [] = last (colon_groups u)"
    by (metis append_butlast_last_id in_set_conv_decomp set_ConsD set_append Un_iff empty_iff list.set(1) list.set(2) insert_iff)
  with \<open>[] \<in> set (colon_groups u)\<close> assms show False
    by (auto simp: group_count_def list_all_iff is_hex_group_def isIPv4_def split: if_splits)
qed

text \<open>The groups of a text after the dotted tail has been rewritten.\<close>

definition text_groups :: "string \<Rightarrow> string list" where
  "text_groups x =
     (case split_gap x of
        None \<Rightarrow> colon_groups x
      | Some (h, u) \<Rightarrow> colon_groups h @ replicate (8 - length (colon_groups h) - length (colon_groups u)) ''0'' @ colon_groups u)"

definition rewrite_tail :: "string \<Rightarrow> string" where
  "rewrite_tail x =
     (case match_v4_tail x of
        None \<Rightarrow> x
      | Some (pre, v4) \<Rightarrow>
          (let octets = js_split CHR ''.'' v4 in pre @ octet_pair octets 0 @ '':'' @ octet_pair octets 2))"

definition gap_free_tail :: "string \<Rightarrow> bool" where
  "gap_free_tail x = (case split_gap x of None \<Rightarrow> True | Some (h, u) \<Rightarrow> split_gap u = None)"

lemma ipv6Groups_text:
  assumes "isIP a = 6" "gap_free_tail (rewrite_tail (js_lower a))"
  shows "ipv6Groups a = Some (map read_hex (text_groups (rewrite_tail (js_lower a))))"
  using assms
  unfolding ipv6Groups_def text_groups_def rewrite_tail_def gap_free_tail_def colon_groups_def Let_def
  by (auto split: option.split prod.split)

text \<open>Only upper-case digits change under \<^verbatim>\<open>toLowerCase()\<close>, and their values do not.\<close>

lemma hex_value_lower [simp]: "hex_value (js_lower_char c) = hex_value c"
  using of_char_less_256 [of c] by (auto simp: hex_value_def js_lower_char_def Let_def)

lemma read_hex_lower [simp]: "read_hex (js_lower s) = read_hex s"
  by (induction s rule: rev_induct) (simp_all add: read_hex_def js_lower_def)

lemma is_hex_group_lower [simp]: "is_hex_group (js_lower s) = is_hex_group s"
  by (simp add: is_hex_group_def list_all_iff js_lower_def)

lemma js_lower_char_mark: "(of_char d :: nat) < 65 \<Longrightarrow> js_lower_char c = d \<longleftrightarrow> c = d"
  using of_char_less_256 [of c] by (auto simp: js_lower_char_def Let_def)

lemma js_split_lower: "(of_char d :: nat) < 65 \<Longrightarrow> js_split d (js_lower s) = map js_lower (js_split d s)"
  by (induction s) (auto simp: js_lower_def js_lower_char_mark split: list.splits)

lemma split_gap_lower: "split_gap (js_lower s) = map_option (map_prod js_lower js_lower) (split_gap s)"
  by (induction s rule: split_gap.induct)
    (auto simp: js_lower_def js_lower_char_mark option.map_comp comp_def case_prod_beta map_prod_def)

lemma is_digit_lower [simp]: "is_digit (js_lower_char c) = is_digit c"
  using of_char_less_256 [of c] by (auto simp: is_digit_def js_lower_char_def Let_def)

lemma digits_lower: "list_all is_digit s \<Longrightarrow> js_lower s = s"
  by (induction s) (auto simp: js_lower_def is_digit_def js_lower_char_def Let_def)

lemma is_octet_lower: "is_octet (js_lower s) = is_octet s"
proof (cases "list_all is_digit s")
  case False
  then have "\<not> list_all is_digit (js_lower s)"
    by (auto simp: js_lower_def list_all_iff)
  with False show ?thesis
    by (simp add: is_octet_def)
qed (simp add: digits_lower)

lemma isIPv4_lower [simp]: "isIPv4 (js_lower s) = isIPv4 s"
  by (simp add: isIPv4_def js_split_lower list_all_iff is_octet_lower)

lemma ipv4_number_lower: "isIPv4 s \<Longrightarrow> ipv4_number (js_lower s) = ipv4_number s"
proof -
  assume "isIPv4 s"
  then have "map js_lower (js_split CHR ''.'' s) = js_split CHR ''.'' s"
    by (auto simp: isIPv4_def list_all_iff is_octet_def digits_lower intro!: map_idI)
  then show ?thesis
    by (simp add: ipv4_number_def js_split_lower)
qed

lemma group_lower:
  "group_count (map js_lower gs) = group_count gs" "group_numbers (map js_lower gs) = group_numbers gs"
  by (cases "gs = []"; simp add: group_count_def group_numbers_def list_all_iff last_map map_butlast [symmetric] ipv4_number_lower comp_def)+

lemma colon_groups_lower: "colon_groups (js_lower s) = map js_lower (colon_groups s)"
  by (simp add: colon_groups_def js_split_lower)

lemma is_plain_ipv6_lower: "is_plain_ipv6 (js_lower s) = is_plain_ipv6 s"
  by (auto simp: is_plain_ipv6_def split_gap_lower js_split_lower colon_groups_lower group_lower list_all_iff split: option.splits)

lemma takeWhile_lower: "takeWhile (\<lambda>c. c \<noteq> CHR ''%'') (js_lower s) = js_lower (takeWhile (\<lambda>c. c \<noteq> CHR ''%'') s)"
  by (simp add: js_lower_def takeWhile_map comp_def js_lower_char_mark)

lemma ipv6_groups_lower: "ipv6_groups (js_lower s) = ipv6_groups s"
  by (auto simp: ipv6_groups_def Let_def takeWhile_lower split_gap_lower js_split_lower colon_groups_lower group_lower split: option.splits)

text \<open>The dotted tail.\<close>

lemma match_v4_tail_Some:
  assumes "match_v4_tail x = Some (pre, v4)"
  obtains q where "pre = q @ '':''" "x = q @ '':'' @ v4" "CHR '':'' \<notin> set v4" "is_dotted v4"
proof -
  obtain i where i: "js_last_index_of CHR '':'' x = Some i" "pre = take (Suc i) x" "v4 = drop (Suc i) x" "is_dotted v4"
    using assms by (auto simp: match_v4_tail_def split: option.splits if_splits)
  then obtain j where j: "js_index_of CHR '':'' (rev x) = Some j" "i = length x - 1 - j"
    by (auto simp: js_last_index_of_def)
  then have "j < length x" "rev x ! j = CHR '':''" "CHR '':'' \<notin> set (take j (rev x))"
    by (auto simp: js_index_of_Some)
  then have "i < length x" "x ! i = CHR '':''" "CHR '':'' \<notin> set (drop (Suc i) x)"
    using j by (auto simp: rev_nth take_rev Suc_diff_Suc)
  then show thesis
    using that [of "take i x"] i id_take_nth_drop [of i x] by (simp add: take_Suc_conv_app_nth)
qed

lemma match_v4_tail_ipv4:
  assumes "x = q @ CHR '':'' # g" "CHR '':'' \<notin> set g" "isIPv4 g" "\<not> list_ex is_line_end x"
  shows "match_v4_tail x \<noteq> None"
proof -
  have "is_dotted g"
    using assms(3) by (auto simp: is_dotted_def isIPv4_def list_all_iff all_digits_def is_octet_def)
  moreover have "js_last_index_of CHR '':'' x = Some (length q)"
    using assms(2) js_index_of_append [of "CHR '':''" "rev g" "rev q"] by (simp add: assms(1) js_last_index_of_def)
  ultimately show ?thesis
    using assms(1,4) by (simp add: match_v4_tail_def list_ex_iff)
qed


lemma isIPv4_chars: "\<lbrakk>isIPv4 s; c \<in> set s\<rbrakk> \<Longrightarrow> is_digit c \<or> c = CHR ''.''"
  using js_split_set [of c s "CHR ''.''"] by (auto simp: isIPv4_def list_all_iff is_octet_def)

lemma octet_pairs:
  assumes "isIPv4 v4"
  shows "read_hex (octet_pair (js_split CHR ''.'' v4) 0) = ipv4_number v4 div 65536"
    and "read_hex (octet_pair (js_split CHR ''.'' v4) 2) = ipv4_number v4 mod 65536"
proof -
  obtain a b c d where split: "js_split CHR ''.'' v4 = [a, b, c, d]"
      and bounds: "read_digits a \<le> 255" "read_digits b \<le> 255" "read_digits c \<le> 255" "read_digits d \<le> 255"
    using assms by (auto simp: isIPv4_def is_octet_def eval_nat_numeral length_Suc_conv)
  let ?hi = "256 * read_digits a + read_digits b" and ?lo = "256 * read_digits c + read_digits d"
  have number: "ipv4_number v4 = 65536 * ?hi + ?lo"
    by (simp add: split ipv4_number_def)
  have lo: "?lo < 65536"
    using bounds by linarith
  show "read_hex (octet_pair (js_split CHR ''.'' v4) 0) = ipv4_number v4 div 65536"
    unfolding number using bounds lo by (simp add: split octet_pair_def octet_pair_value)
  have "read_hex (octet_pair (js_split CHR ''.'' v4) 2) = ?lo"
    using bounds by (simp add: split octet_pair_def octet_pair_value nth_Cons')
  then show "read_hex (octet_pair (js_split CHR ''.'' v4) 2) = ipv4_number v4 mod 65536"
    unfolding number using lo by (simp only: mod_mult_self4 mod_less)
qed

lemma hex_text_facts: "hex_text n \<noteq> []" "CHR '':'' \<notin> set (hex_text n)"
  using hex_text_digits [of "CHR '':''" n] by (auto simp: hex_text.simps [of n] hex_value_def)

lemma octet_pair_facts: "octet_pair os i \<noteq> []" "CHR '':'' \<notin> set (octet_pair os i)"
  by (simp_all add: octet_pair_def hex_text_facts)

text \<open>Rewriting the last group of a text: what it does to the gap and to the groups.\<close>

lemma gap_last_group:
  assumes "CHR '':'' \<notin> set g" "g \<noteq> []"
  shows "split_gap (pre @ g) = map_option (\<lambda>(h, u). (h, u @ g)) (split_gap pre)"
proof (rule split_gap_append)
  show "split_gap g = None"
    by (rule split_gap_colon_free) (rule assms)
  show "g = [] \<or> hd g \<noteq> CHR '':''"
    using assms by (cases g) auto
qed

lemma gap_last_pair:
  assumes "CHR '':'' \<notin> set a" "a \<noteq> []" "CHR '':'' \<notin> set b"
  shows "split_gap (pre @ a @ '':'' @ b) = map_option (\<lambda>(h, u). (h, u @ a @ '':'' @ b)) (split_gap pre)"
proof (rule split_gap_append)
  show "split_gap (a @ '':'' @ b) = None"
    using assms by (intro split_gap_pair) auto
  show "a @ '':'' @ b = [] \<or> hd (a @ '':'' @ b) \<noteq> CHR '':''"
    using assms by (cases a) auto
qed

lemma last_groups:
  assumes "u = [] \<or> last u = CHR '':''" "CHR '':'' \<notin> set g" "g \<noteq> []" "CHR '':'' \<notin> set a" "a \<noteq> []" "CHR '':'' \<notin> set b"
  shows "\<exists>gs. colon_groups (u @ g) = gs @ [g] \<and> colon_groups (u @ a @ '':'' @ b) = gs @ [a, b]"
proof (cases "u = []")
  case True
  then show ?thesis
    using assms by (simp add: colon_groups_def js_split_absent js_split_sep)
next
  case False
  then have "u = butlast u @ [CHR '':'']"
    using assms(1) by (metis append_butlast_last_id)
  then obtain w where "u = w @ [CHR '':'']"
    by blast
  then show ?thesis
    using assms by (simp add: colon_groups_def js_split_absent js_split_sep)
qed

lemma group_numbers_hex: "list_all is_hex_group gs \<Longrightarrow> group_numbers gs = map read_hex gs"
  using hex_group_not_ipv4 [of "last gs"] by (auto simp: group_numbers_def list_all_iff)

lemma group_count_last:
  assumes "group_count gs = Some n" "gs \<noteq> []"
  shows "is_dotted (last gs) \<longleftrightarrow> isIPv4 (last gs)" and "isIPv4 (last gs) \<or> list_all is_hex_group gs" and "list_all is_hex_group (butlast gs)"
proof -
  have dot: "hex_value CHR ''.'' = None"
    by (simp add: hex_value_def)
  have "\<not> is_dotted g" if "is_hex_group g" for g
  proof -
    have "CHR ''.'' \<notin> set g"
      using that dot by (auto simp: is_hex_group_def list_all_iff)
    then show ?thesis
      by (simp add: is_dotted_def js_split_absent)
  qed
  moreover have "isIPv4 g \<Longrightarrow> is_dotted g" for g
    by (auto simp: is_dotted_def isIPv4_def list_all_iff all_digits_def is_octet_def)
  moreover show "isIPv4 (last gs) \<or> list_all is_hex_group gs" "list_all is_hex_group (butlast gs)"
    using assms by (auto simp: group_count_def list_all_iff dest: in_set_butlastD split: if_splits)
  ultimately show "is_dotted (last gs) \<longleftrightarrow> isIPv4 (last gs)"
    using assms(2) by (auto simp: list_all_iff)
qed

text \<open>A rewritten list of groups stands for the same numbers.\<close>

lemma rewritten_groups:
  assumes "group_count (gs @ [v4]) = Some n" "is_dotted v4"
  shows "map read_hex (gs @ [octet_pair (js_split CHR ''.'' v4) 0, octet_pair (js_split CHR ''.'' v4) 2]) = group_numbers (gs @ [v4])"
    and "length (group_numbers (gs @ [v4])) = length gs + 2"
  using group_count_last [OF assms(1)] assms(2) octet_pairs [of v4] by (simp_all add: group_numbers_def)

lemma js_join_snoc: "xs \<noteq> [] \<Longrightarrow> js_join sep (xs @ [x]) = js_join sep xs @ sep @ x"
  by (induction sep xs rule: js_join.induct) (auto simp: neq_Nil_conv)

lemma read_zero: "read_hex ''0'' = 0"
  by (simp add: read_hex_def hex_value_def)

lemma plain_groups:
  assumes "is_plain_ipv6 x" "match_v4_tail x = None" "\<not> list_ex is_line_end x"
  shows "gap_free_tail x" and "map read_hex (text_groups x) = (case split_gap x of
      None \<Rightarrow> group_numbers (js_split CHR '':'' x)
    | Some (h, u) \<Rightarrow> (let a = group_numbers (colon_groups h); b = group_numbers (colon_groups u) in a @ replicate (8 - length a - length b) 0 @ b))"
proof -
  have tail: "\<not> isIPv4 (last (js_split CHR '':'' x))"
  proof
    let ?gs = "js_split CHR '':'' x"
    assume v4: "isIPv4 (last ?gs)"
    have free: "CHR '':'' \<notin> set (last ?gs)"
      using js_split_no_sep [of "last ?gs" "CHR '':''" x] by simp
    have "butlast ?gs \<noteq> []"
    proof
      assume "butlast ?gs = []"
      then have "?gs = [last ?gs]"
        by (metis append_butlast_last_id append_Nil js_split_ne)
      then have "CHR '':'' \<notin> set x" "x = last ?gs"
        using free js_join_split [of "CHR '':''" x] by (metis js_join.simps(2))+
      then show False
        using assms(1) v4 by (simp add: is_plain_ipv6_def split_gap_colon_free js_split_absent group_count_def split: if_splits)
    qed
    then have "x = js_join '':'' (butlast ?gs) @ CHR '':'' # last ?gs"
      using js_join_snoc [of "butlast ?gs" "'':''" "last ?gs"] js_join_split [of "CHR '':''" x]
      by (simp add: append_butlast_last_id)
    with match_v4_tail_ipv4 [OF this free v4 assms(3)] assms(2) show False
      by simp
  qed
  show "gap_free_tail x"
    using assms(1) group_count_no_gap by (auto simp: gap_free_tail_def is_plain_ipv6_def split: option.splits)
  show "map read_hex (text_groups x) = (case split_gap x of
      None \<Rightarrow> group_numbers (js_split CHR '':'' x)
    | Some (h, u) \<Rightarrow> (let a = group_numbers (colon_groups h); b = group_numbers (colon_groups u) in a @ replicate (8 - length a - length b) 0 @ b))"
  proof (cases "split_gap x")
    case None
    with assms(1) have "group_count (js_split CHR '':'' x) = Some 8"
      by (simp add: is_plain_ipv6_def)
    then have "list_all is_hex_group (js_split CHR '':'' x)"
      using group_count_last(2) [of "js_split CHR '':'' x" 8] tail by simp
    moreover from this have "x \<noteq> []"
      by (auto simp: is_hex_group_def)
    ultimately show ?thesis
      by (simp add: None text_groups_def colon_groups_def group_numbers_hex)
  next
    case (Some hu)
    obtain h u where hu: "hu = (h, u)"
      by fastforce
    with Some assms(1) obtain n where h: "list_all is_hex_group (colon_groups h)" and n: "group_count (colon_groups u) = Some n"
      by (auto simp: is_plain_ipv6_def split: option.splits)
    have "u = [] \<or> \<not> isIPv4 (last (colon_groups u))"
      using tail split_gap_groups(1) [of x h u] Some hu by (auto simp: colon_groups_def)
    then have u: "list_all is_hex_group (colon_groups u)"
      using group_count_last(2) [OF n] by (cases "u = []") (auto simp: colon_groups_def)
    show ?thesis
      using h u by (simp add: Some hu text_groups_def group_numbers_hex Let_def read_zero)
  qed
qed

lemma plain_rewritten:
  assumes "is_plain_ipv6 x" "match_v4_tail x = Some (pre, v4)"
  shows "gap_free_tail (rewrite_tail x)" and "map read_hex (text_groups (rewrite_tail x)) = (case split_gap x of
      None \<Rightarrow> group_numbers (js_split CHR '':'' x)
    | Some (h, u) \<Rightarrow> (let a = group_numbers (colon_groups h); b = group_numbers (colon_groups u) in a @ replicate (8 - length a - length b) 0 @ b))"
proof -
  obtain q where q: "pre = q @ '':''" "x = q @ '':'' @ v4" and free: "CHR '':'' \<notin> set v4" and v4: "is_dotted v4"
    using assms(2) by (rule match_v4_tail_Some)
  then have ne: "v4 \<noteq> []"
    by (auto simp: is_dotted_def)
  let ?a = "octet_pair (js_split CHR ''.'' v4) 0" and ?b = "octet_pair (js_split CHR ''.'' v4) 2"
  have new: "rewrite_tail x = pre @ ?a @ '':'' @ ?b"
    by (simp add: rewrite_tail_def assms(2) Let_def)
  have x: "x = pre @ v4"
    using q by simp
  note gap_x = gap_last_group [OF free ne, of pre]
  have gap_new: "split_gap (p @ ?a @ '':'' @ ?b) = map_option (\<lambda>(h, u). (h, u @ ?a @ '':'' @ ?b)) (split_gap p)" for p
    by (rule gap_last_pair [OF octet_pair_facts(2,1) octet_pair_facts(2)])
  have groups: "\<exists>gs. colon_groups (u @ v4) = gs @ [v4] \<and> colon_groups (u @ ?a @ '':'' @ ?b) = gs @ [?a, ?b]"
    if "u = [] \<or> last u = CHR '':''" for u
    by (rule last_groups [OF that free ne octet_pair_facts(2,1) octet_pair_facts(2)])
  have "gap_free_tail (rewrite_tail x) \<and> map read_hex (text_groups (rewrite_tail x)) = (case split_gap x of
      None \<Rightarrow> group_numbers (js_split CHR '':'' x)
    | Some (h, u) \<Rightarrow> (let a = group_numbers (colon_groups h); b = group_numbers (colon_groups u) in a @ replicate (8 - length a - length b) 0 @ b))"
  proof (cases "split_gap pre")
    case None
    obtain gs where gs: "colon_groups (pre @ v4) = gs @ [v4]" "colon_groups (pre @ ?a @ '':'' @ ?b) = gs @ [?a, ?b]"
      using groups [of pre] q(1) by auto
    have none: "split_gap x = None" "split_gap (rewrite_tail x) = None"
      unfolding new unfolding x gap_x gap_new None by simp_all
    have js: "js_split CHR '':'' x = gs @ [v4]"
      using gs(1) ne by (simp add: x colon_groups_def)
    have "group_count (gs @ [v4]) = Some 8"
      using assms(1) none(1) js by (simp add: is_plain_ipv6_def)
    from rewritten_groups(1) [OF this v4] show ?thesis
      using none gs(2) js by (simp add: gap_free_tail_def text_groups_def new)
  next
    case (Some hu)
    obtain h u where hu: "hu = (h, u)"
      by fastforce
    have gaps: "split_gap x = Some (h, u @ v4)" "split_gap (rewrite_tail x) = Some (h, u @ ?a @ '':'' @ ?b)"
      unfolding new unfolding x gap_x gap_new Some hu by simp_all
    obtain n where h: "list_all is_hex_group (colon_groups h)" and n: "group_count (colon_groups (u @ v4)) = Some n"
      using assms(1) gaps(1) by (auto simp: is_plain_ipv6_def split: option.splits)
    have "split_gap (u @ v4) = None"
      using n by (rule group_count_no_gap)
    then have "split_gap u = None"
      using gap_last_group [OF free ne, of u] by simp
    then have free_tail: "split_gap (u @ ?a @ '':'' @ ?b) = None"
      using gap_new [of u] by simp
    have "q @ '':'' = h @ ''::'' @ u"
      using split_gap_Some [of pre h u] Some hu q(1) by simp
    then have "u = [] \<or> last u = CHR '':''"
      by (metis last_appendR last_snoc append_is_Nil_conv)
    then obtain gs where gs: "colon_groups (u @ v4) = gs @ [v4]" "colon_groups (u @ ?a @ '':'' @ ?b) = gs @ [?a, ?b]"
      using groups [of u] by auto
    have "group_count (gs @ [v4]) = Some n"
      using n gs(1) by simp
    note rg = rewritten_groups [OF this v4]
    show ?thesis
      unfolding gap_free_tail_def text_groups_def gaps option.case prod.case free_tail gs Let_def
      using rg h by (simp add: group_numbers_hex read_zero)
  qed
  then show "gap_free_tail (rewrite_tail x)" and "map read_hex (text_groups (rewrite_tail x)) = (case split_gap x of
      None \<Rightarrow> group_numbers (js_split CHR '':'' x)
    | Some (h, u) \<Rightarrow> (let a = group_numbers (colon_groups h); b = group_numbers (colon_groups u) in a @ replicate (8 - length a - length b) 0 @ b))"
    by blast+
qed

lemma group_count_member:
  assumes "group_count gs = Some n" "g \<in> set gs"
  shows "is_hex_group g \<or> isIPv4 g"
proof -
  have ne: "gs \<noteq> []"
    using assms(2) by auto
  have "g \<in> set (butlast gs @ [last gs])"
    using assms(2) append_butlast_last_id [OF ne] by simp
  then consider "g \<in> set (butlast gs)" | "g = last gs"
    by auto
  then show ?thesis
    using group_count_last(2,3) [OF assms(1) ne] assms(2) by cases (auto simp: list_all_iff)
qed

lemma valid_group_chars:
  assumes "group_count (js_split CHR '':'' s) = Some n \<or> group_count (colon_groups s) = Some n" "c \<in> set s"
  shows "\<not> is_line_end c"
proof (cases "c = CHR '':''")
  case False
  then obtain g where g: "g \<in> set (js_split CHR '':'' s)" "c \<in> set g"
    using js_split_set [OF assms(2), of "CHR '':''"] by blast
  have "s \<noteq> []"
    using assms(2) by auto
  then have "group_count (js_split CHR '':'' s) = Some n"
    using assms(1) by (auto simp: colon_groups_def)
  then have "is_hex_group g \<or> isIPv4 g"
    using g(1) by (intro group_count_member)
  then show ?thesis
    using g(2) isIPv4_chars [of g c]
    by (auto simp: is_hex_group_def list_all_iff is_line_end_def is_digit_def hex_value_def)
qed (simp add: is_line_end_def)

lemma plain_no_line_end:
  assumes "is_plain_ipv6 s"
  shows "\<not> list_ex is_line_end s"
proof (cases "split_gap s")
  case None
  with assms valid_group_chars show ?thesis
    by (auto simp: is_plain_ipv6_def list_ex_iff)
next
  case (Some hu)
  obtain h u n where hu: "hu = (h, u)" "list_all is_hex_group (colon_groups h)" and n: "group_count (colon_groups u) = Some n"
    using assms Some by (cases hu) (auto simp: is_plain_ipv6_def split: option.splits)
  have "group_count (colon_groups h) = Some (length (colon_groups h))"
    using hu(2) by (simp add: group_count_def)
  then have "\<not> is_line_end c" if "c \<in> set h \<union> set u" for c
    using that valid_group_chars [of h] valid_group_chars [of u] n by blast
  moreover have "\<not> is_line_end CHR '':''"
    by (simp add: is_line_end_def)
  ultimately show ?thesis
    using split_gap_Some [of s h u] Some hu by (auto simp: list_ex_iff)
qed

text \<open>The parser of \<^verbatim>\<open>ClientIpUtils.ts\<close> reads the groups an address stands for.\<close>

lemma ipv6Groups_correct:
  assumes "isIP a = 6" "CHR ''%'' \<notin> set a"
  shows "ipv6Groups a = Some (ipv6_groups a)"
proof -
  let ?x = "js_lower a"
  have plain: "is_plain_ipv6 ?x"
    using assms by (auto simp: isIP_def isIPv6_def is_plain_ipv6_lower split: if_splits)
  have "CHR ''%'' \<notin> set ?x"
  proof
    assume "CHR ''%'' \<in> set ?x"
    then obtain c where "c \<in> set a" "js_lower_char c = CHR ''%''"
      by (auto simp: js_lower_def)
    then show False
      using assms(2) by (simp add: js_lower_char_mark)
  qed
  then have zone: "takeWhile (\<lambda>c. c \<noteq> CHR ''%'') ?x = ?x"
    by (auto simp: takeWhile_eq_all_conv)
  have ref: "ipv6_groups a = (case split_gap ?x of
      None \<Rightarrow> group_numbers (js_split CHR '':'' ?x)
    | Some (h, u) \<Rightarrow> (let a = group_numbers (colon_groups h); b = group_numbers (colon_groups u) in a @ replicate (8 - length a - length b) 0 @ b))"
    unfolding ipv6_groups_lower [of a, symmetric] unfolding ipv6_groups_def zone by (simp only: Let_def)
  have "gap_free_tail (rewrite_tail ?x) \<and> map read_hex (text_groups (rewrite_tail ?x)) = ipv6_groups a"
  proof (cases "match_v4_tail ?x")
    case None
    then have "rewrite_tail ?x = ?x"
      by (simp add: rewrite_tail_def)
    with plain_groups [OF plain None plain_no_line_end [OF plain]] show ?thesis
      unfolding ref by simp
  next
    case (Some pv)
    with plain_rewritten [OF plain, of "fst pv" "snd pv"] show ?thesis
      unfolding ref by simp
  qed
  with ipv6Groups_text [OF assms(1)] show ?thesis
    by simp
qed

lemma drop_zone_line_end: "list_ex is_line_end (drop_zone s) = list_ex is_line_end s"
proof (induction s)
  case (Cons c s)
  have "\<not> is_line_end CHR ''%''"
    by (simp add: is_line_end_def)
  with Cons show ?case
    by auto
qed simp

lemma zone_char_not_line_end: "is_zone_char c \<Longrightarrow> \<not> is_line_end c"
  by (auto simp: is_zone_char_def is_line_end_def)

lemma drop_zone_percent: "js_index_of CHR ''%'' (drop_zone s) = Some i \<Longrightarrow> list_ex is_line_end (drop (Suc i) (drop_zone s))"
  by (induction s arbitrary: i) (auto simp: drop_zone_line_end split: if_splits)

lemma dotted_not_ipv6: "is_dotted s \<Longrightarrow> CHR ''%'' \<notin> set s"
proof
  assume s: "is_dotted s" "CHR ''%'' \<in> set s"
  then obtain p where "p \<in> set (js_split CHR ''.'' s)" "CHR ''%'' \<in> set p"
    using js_split_set [of "CHR ''%''" s "CHR ''.''"] by auto
  then have "is_digit CHR ''%''"
    using s(1) by (auto simp: is_dotted_def list_all_iff all_digits_def)
  then show False
    by (simp add: is_digit_def)
qed

lemma normalized_no_zone:
  assumes "isIP (normalizeIp a) = 6"
  shows "CHR ''%'' \<notin> set (normalizeIp a)"
proof -
  obtain s where s: "normalizeIp a = drop_mapped_prefix (drop_zone s)"
    by (simp add: normalizeIp_def Let_def)
  show ?thesis
  proof (cases "is_dotted (drop 7 (drop_zone s)) \<and> js_lower (take 7 (drop_zone s)) = ''::ffff:''")
    case True
    then show ?thesis
      unfolding s drop_mapped_prefix_def by (simp add: dotted_not_ipv6)
  next
    case False
    then have z: "normalizeIp a = drop_zone s"
      unfolding s drop_mapped_prefix_def by auto
    have "\<not> list_ex is_line_end (drop (Suc i) (drop_zone s))" if "js_index_of CHR ''%'' (drop_zone s) = Some i" for i
      using assms that unfolding z
      by (auto simp: isIP_def isIPv6_def list_all_iff list_ex_iff zone_char_not_line_end split: if_splits)
    then show ?thesis
      unfolding z using drop_zone_percent [of s] by (metis js_index_of_None not_None_eq)
  qed
qed


lemma sample_address_facts:
  "isIP (normalizeIp ''203.0.113.9:8080'') \<noteq> 6" "normalizeIp ''203.0.113.9:8080'' = ''203.0.113.9''"
  "isIP (normalizeIp ''[2001:DB8::1%eth0]:443'') = 6" "isIP (normalizeIp ''2001:db8:0:0:ffff::10.0.0.1'') = 6"
  "take 4 (ipv6_groups (normalizeIp ''[2001:DB8::1%eth0]:443'')) = take 4 (ipv6_groups (normalizeIp ''2001:db8:0:0:ffff::10.0.0.1''))"
proof -
  have addresses: "normalizeIp ''203.0.113.9:8080'' = ''203.0.113.9''" "normalizeIp ''[2001:DB8::1%eth0]:443'' = ''2001:DB8::1''"
      "normalizeIp ''2001:db8:0:0:ffff::10.0.0.1'' = ''2001:db8:0:0:ffff::10.0.0.1''"
    by (simp_all add: normalize_eval)
  show "isIP (normalizeIp ''203.0.113.9:8080'') \<noteq> 6" "normalizeIp ''203.0.113.9:8080'' = ''203.0.113.9''"
    by (simp_all add: addresses isIP_def sample_valid)
  show "isIP (normalizeIp ''[2001:DB8::1%eth0]:443'') = 6" "isIP (normalizeIp ''2001:db8:0:0:ffff::10.0.0.1'') = 6"
    by (simp_all add: addresses valid_eval)
  show "take 4 (ipv6_groups (normalizeIp ''[2001:DB8::1%eth0]:443'')) = take 4 (ipv6_groups (normalizeIp ''2001:db8:0:0:ffff::10.0.0.1''))"
    by (simp add: addresses sample_valid ipv6_groups_def group_numbers_def colon_groups_def hex_value_def read_hex_def replicate_numeral
        isIPv4_def Let_def)
qed


end
