(* ===== verification/Dns_Records.thy ===== *)
theory Dns_Records
  imports Dkim_Rotation Ip_Text
begin

text \<open>
  \<^verbatim>\<open>util/DnsSetupUtils.ts\<close> and \<^verbatim>\<open>util/DomainVerificationUtils.ts\<close>: the records a domain needs, the live check of each and
  whether it is published automatically. The DNS is read as it stands at one moment: a resolver is a record of functions from
  names to answers. A lookup that throws is the left side, with whether it means that there are no such records
  (NXDOMAIN, NODATA); what is read through \<^verbatim>\<open>try\<close> blocks carries a mark that some lookup could not be answered, which is
  what the tracking resolver of \<^verbatim>\<open>dns/DnsAutoTakeover.ts\<close> notes.
\<close>

section \<open>Lookups\<close>

type_synonym 'a dns_answer = "bool + 'a"

record dns_srv =
  srv_priority :: nat
  srv_weight :: nat
  srv_port :: nat
  srv_target :: string

text \<open>\<open>rz_random\<close> is the hex text of the random bytes a probe of a name is made with.\<close>

record dns_resolver =
  rz_txt :: "string \<Rightarrow> string list list dns_answer"
  rz_mx :: "string \<Rightarrow> (nat \<times> string) list dns_answer"
  rz_cname :: "string \<Rightarrow> string list dns_answer"
  rz_srv :: "string \<Rightarrow> dns_srv list dns_answer"
  rz_addresses :: "(string \<Rightarrow> string list dns_answer) option"
  rz_random :: "string \<Rightarrow> string"

type_synonym 'a looked = "'a \<times> bool"

definition l_return :: "'a \<Rightarrow> 'a looked" where
  "l_return x = (x, False)"

definition l_bind :: "'a looked \<Rightarrow> ('a \<Rightarrow> 'b looked) \<Rightarrow> 'b looked" where
  "l_bind m f = (fst (f (fst m)), snd m \<or> snd (f (fst m)))"

text \<open>A lookup in a \<^verbatim>\<open>try\<close> block: nothing when it throws.\<close>

definition ask :: "'a dns_answer \<Rightarrow> 'a option looked" where
  "ask a = (case a of Inr x \<Rightarrow> (Some x, False) | Inl noRecords \<Rightarrow> (None, \<not> noRecords))"

fun l_map :: "('a \<Rightarrow> 'b looked) \<Rightarrow> 'a list \<Rightarrow> 'b list looked" where
  "l_map f [] = l_return []"
| "l_map f (x # xs) = l_bind (f x) (\<lambda>y. l_bind (l_map f xs) (\<lambda>ys. l_return (y # ys)))"

lemma looked_simps [simp]:
  "fst (l_return x) = x" "snd (l_return x) = False"
  "fst (l_bind m f) = fst (f (fst m))" "snd (l_bind m f) = (snd m \<or> snd (f (fst m)))"
  by (simp_all add: l_return_def l_bind_def)

lemma fst_l_map [simp]: "fst (l_map f xs) = map (\<lambda>x. fst (f x)) xs"
  by (induction xs) simp_all

section \<open>Names and words\<close>

definition normalizeHost :: "string \<Rightarrow> string" where
  "normalizeHost host = drop_final_dot (js_lower (js_trim host))"

definition dnsName :: "string \<Rightarrow> string" where
  "dnsName v = drop_final_dot (js_lower v)"

definition isNameInZones :: "string \<Rightarrow> string list \<Rightarrow> bool" where
  "isNameInZones name zones = list_ex (\<lambda>zone. dnsName name = zone \<or> suffix (CHR ''.'' # zone) (dnsName name)) zones"

definition is_word_char :: "char \<Rightarrow> bool" where
  "is_word_char c \<longleftrightarrow>
     (let n = (of_char c :: nat) in (48 \<le> n \<and> n \<le> 57) \<or> (65 \<le> n \<and> n \<le> 90) \<or> (97 \<le> n \<and> n \<le> 122) \<or> n = 95)"

definition ends_word :: "string \<Rightarrow> bool" where
  "ends_word s \<longleftrightarrow> s = [] \<or> \<not> is_word_char (hd s)"

text \<open>A match of the lower-case word \<open>w\<close> at the start, up to case and with a word boundary after it, and anywhere between
  word boundaries.\<close>

definition starts_with_word :: "string \<Rightarrow> string \<Rightarrow> bool" where
  "starts_with_word w s \<longleftrightarrow> js_lower (take (length w) s) = w \<and> ends_word (drop (length w) s)"

fun has_word :: "string \<Rightarrow> bool \<Rightarrow> string \<Rightarrow> bool" where
  "has_word w inside [] = False"
| "has_word w inside (c # s) =
     ((\<not> inside \<and> starts_with_word w (c # s)) \<or> has_word w (is_word_char c) s)"

lemma length_drop_words: "dropWhile (\<lambda>c. \<not> p c) s \<noteq> [] \<Longrightarrow> length (dropWhile p (dropWhile (\<lambda>c. \<not> p c) s)) < length s"
proof -
  let ?r = "dropWhile (\<lambda>c. \<not> p c) s"
  assume ne: "?r \<noteq> []"
  then obtain c t where r: "?r = c # t"
    by (cases ?r) auto
  then have "p c"
    using hd_dropWhile [OF ne] by simp
  then have "length (dropWhile p ?r) \<le> length t"
    using length_dropWhile_le [of p t] by (simp add: r)
  also have "\<dots> < length ?r"
    by (simp add: r)
  also have "\<dots> \<le> length s"
    by (rule length_dropWhile_le)
  finally show ?thesis .
qed

text \<open>\<^verbatim>\<open>s.split(/\s+/)\<close>.\<close>

function split_ws :: "string \<Rightarrow> string list" where
  "split_ws s =
     (let w = takeWhile (\<lambda>c. \<not> js_is_ws c) s; r = dropWhile (\<lambda>c. \<not> js_is_ws c) s
      in if r = [] then [w] else w # split_ws (dropWhile js_is_ws r))"
  by auto

termination
  by (relation "measure length") (simp_all del: dropWhile_eq_Nil_conv add: length_drop_words)

declare split_ws.simps [simp del]

section \<open>Domain verification\<close>

definition DOMAIN_VERIFICATION_TXT_PREFIX :: string where
  "DOMAIN_VERIFICATION_TXT_PREFIX = ''rapidmx-domain-verification=''"

definition buildVerificationTxtValue :: "string \<Rightarrow> string" where
  "buildVerificationTxtValue token = DOMAIN_VERIFICATION_TXT_PREFIX @ token"

definition buildVerificationRecordName :: "string \<Rightarrow> string" where
  "buildVerificationRecordName domainName = ''_rapidmx-verify'' @ ''.'' @ domainName"

definition acceptsLegacyApex :: "js_value \<Rightarrow> bool" where
  "acceptsLegacyApex v =
     (case v of
        JUndefined \<Rightarrow> True
      | JNull \<Rightarrow> True
      | JStr s \<Rightarrow> js_lower (js_trim s) \<notin> {''false'', ''0'', ''no'', ''off''}
      | _ \<Rightarrow> v \<noteq> JBool False \<and> v \<noteq> JNum 0)"

definition hasTxtValue :: "dns_resolver \<Rightarrow> string \<Rightarrow> string \<Rightarrow> bool looked" where
  "hasTxtValue rz hostname expected =
     l_bind (ask (rz_txt rz hostname))
       (\<lambda>a. l_return (case a of None \<Rightarrow> False | Some records \<Rightarrow> list_ex (\<lambda>chunks. js_trim (concat chunks) = expected) records))"

datatype DomainVerificationLocation = VRecord | VLegacyApex

record DomainVerificationResult =
  vr_verified :: bool
  vr_location :: "DomainVerificationLocation option"
  vr_atRecord :: bool
  vr_atLegacyApex :: bool

datatype DmarcPolicy = DNone | DQuarantine | DReject

record ApexTxtSettings =
  at_managed :: bool
  at_keep :: "string list option"
  at_spf :: "string option"

text \<open>The \<^verbatim>\<open>Domain\<close> row: what the key rotation uses of it, and the fields the DNS code reads. An unset report address and
  an unset provider are empty.\<close>

record Domain = RotatingDomain +
  dm_verificationToken :: string
  dm_dmarcPolicy :: "DmarcPolicy option"
  dm_dmarcReportEmail :: string
  dm_dnsProviderUid :: string
  dm_apexTxt :: "ApexTxtSettings option"

definition findDomainVerification :: "dns_resolver \<Rightarrow> Domain \<Rightarrow> bool \<Rightarrow> DomainVerificationResult looked" where
  "findDomainVerification rz domain acceptLegacyApex =
     (let expected = buildVerificationTxtValue (dm_verificationToken domain)
      in l_bind (hasTxtValue rz (buildVerificationRecordName (dm_name domain)) expected) (\<lambda>atRecord.
         l_bind (hasTxtValue rz (dm_name domain) expected) (\<lambda>atLegacyApex.
         l_return
           (if atRecord then \<lparr>vr_verified = True, vr_location = Some VRecord, vr_atRecord = atRecord, vr_atLegacyApex = atLegacyApex\<rparr>
            else if atLegacyApex \<and> acceptsLegacyApex (JBool acceptLegacyApex)
            then \<lparr>vr_verified = True, vr_location = Some VLegacyApex, vr_atRecord = atRecord, vr_atLegacyApex = atLegacyApex\<rparr>
            else \<lparr>vr_verified = False, vr_location = None, vr_atRecord = atRecord, vr_atLegacyApex = atLegacyApex\<rparr>))))"

definition checkDomainVerification :: "dns_resolver \<Rightarrow> Domain \<Rightarrow> bool \<Rightarrow> bool looked" where
  "checkDomainVerification rz domain acceptLegacyApex =
     l_bind (findDomainVerification rz domain acceptLegacyApex) (\<lambda>r. l_return (vr_verified r))"

section \<open>The records a domain needs\<close>

datatype DnsRecordType =
    Ownership | Mx | Spf | Dkim | Dkim_next | Dkim_previous | Dmarc | Openpgpkey_cname | Autodiscover_cname | Autodiscover_srv

datatype record_kind = K_TXT | K_MX | K_CNAME | K_SRV | K_A | K_AAAA

fun kind_text :: "record_kind \<Rightarrow> string" where
  "kind_text K_TXT = ''TXT''"
| "kind_text K_MX = ''MX''"
| "kind_text K_CNAME = ''CNAME''"
| "kind_text K_SRV = ''SRV''"
| "kind_text K_A = ''A''"
| "kind_text K_AAAA = ''AAAA''"

definition DEFAULT_SPF_VALUE :: string where
  "DEFAULT_SPF_VALUE = ''v=spf1 mx ~all''"

record DesiredDnsRecordContext =
  cx_mxHostname :: string
  cx_autodiscoverHostname :: "string option"

record DesiredDnsRecord =
  dr_type :: DnsRecordType
  dr_kind :: record_kind
  dr_name :: string
  dr_configured :: bool
  dr_recommended :: "string option"
  dr_values :: "string list"

definition dkimValue :: "string \<Rightarrow> string" where
  "dkimValue publicKey = ''v=DKIM1; k=rsa; p='' @ publicKey"

definition shown_record :: "DnsRecordType \<Rightarrow> record_kind \<Rightarrow> string \<Rightarrow> string list \<Rightarrow> string \<Rightarrow> DesiredDnsRecord" where
  "shown_record t k name values recommended =
     \<lparr>dr_type = t, dr_kind = k, dr_name = name, dr_configured = True, dr_recommended = Some recommended, dr_values = values\<rparr>"

definition desired_record :: "DnsRecordType \<Rightarrow> record_kind \<Rightarrow> string \<Rightarrow> string list \<Rightarrow> DesiredDnsRecord" where
  "desired_record t k name values = shown_record t k name values (hd values)"

definition unconfigured :: "DnsRecordType \<Rightarrow> record_kind \<Rightarrow> string \<Rightarrow> DesiredDnsRecord" where
  "unconfigured t k name =
     \<lparr>dr_type = t, dr_kind = k, dr_name = name, dr_configured = False, dr_recommended = None, dr_values = []\<rparr>"

definition spf_record :: "Domain \<Rightarrow> DesiredDnsRecord" where
  "spf_record domain =
     (case dm_apexTxt domain of
        Some apex \<Rightarrow>
          if at_managed apex
          then (let spf = (case at_spf apex of Some s \<Rightarrow> if s = [] then DEFAULT_SPF_VALUE else s | None \<Rightarrow> DEFAULT_SPF_VALUE)
                in shown_record Spf K_TXT (dm_name domain) (spf # nullish (at_keep apex)) spf)
          else desired_record Spf K_TXT (dm_name domain) [DEFAULT_SPF_VALUE]
      | None \<Rightarrow> desired_record Spf K_TXT (dm_name domain) [DEFAULT_SPF_VALUE])"

definition key_record :: "DnsRecordType \<Rightarrow> string \<Rightarrow> string \<Rightarrow> string \<Rightarrow> DesiredDnsRecord" where
  "key_record t selector domainName publicKey = desired_record t K_TXT (selector @ ''._domainkey.'' @ domainName) [dkimValue publicKey]"

definition dkim_records :: "Domain \<Rightarrow> DesiredDnsRecord list" where
  "dkim_records domain =
     [if dm_dkimSelector domain \<noteq> [] \<and> dm_dkimPublicKey domain \<noteq> []
      then key_record Dkim (dm_dkimSelector domain) (dm_name domain) (dm_dkimPublicKey domain)
      else unconfigured Dkim K_TXT []] @
     (case dm_dkimRotation domain of
        None \<Rightarrow> []
      | Some rot \<Rightarrow>
          (case rs_next rot of
             Some k \<Rightarrow> if nk_selector k \<noteq> [] \<and> nk_publicKey k \<noteq> [] then [key_record Dkim_next (nk_selector k) (dm_name domain) (nk_publicKey k)] else []
           | None \<Rightarrow> []) @
          (case rs_previous rot of
             Some k \<Rightarrow> if pk_selector k \<noteq> [] \<and> pk_publicKey k \<noteq> [] then [key_record Dkim_previous (pk_selector k) (dm_name domain) (pk_publicKey k)] else []
           | None \<Rightarrow> []))"

fun policy_text :: "DmarcPolicy option \<Rightarrow> string" where
  "policy_text None = ''none''"
| "policy_text (Some DNone) = ''none''"
| "policy_text (Some DQuarantine) = ''quarantine''"
| "policy_text (Some DReject) = ''reject''"

definition dmarc_record :: "Domain \<Rightarrow> DesiredDnsRecord" where
  "dmarc_record domain =
     desired_record Dmarc K_TXT (''_dmarc.'' @ dm_name domain)
       [''v=DMARC1; p='' @ policy_text (dm_dmarcPolicy domain) @ '';'' @
        (if dm_dmarcReportEmail domain \<noteq> [] then '' rua=mailto:'' @ dm_dmarcReportEmail domain @ '';'' else [])]"

definition autodiscover_records :: "string \<Rightarrow> string option \<Rightarrow> DesiredDnsRecord list" where
  "autodiscover_records domainName hostname =
     (case hostname of
        None \<Rightarrow> []
      | Some host \<Rightarrow>
          (let cname = ''autodiscover.'' @ domainName; srv = ''_autodiscover._tcp.'' @ domainName
           in if host \<noteq> []
              then (let srvValue = ''0 0 443 '' @ host
                    in [desired_record Autodiscover_cname K_CNAME cname [host],
                        shown_record Autodiscover_srv K_SRV srv [srvValue @ ''.''] srvValue])
              else [unconfigured Autodiscover_cname K_CNAME cname, unconfigured Autodiscover_srv K_SRV srv]))"

definition buildDesiredDnsRecords :: "Domain \<Rightarrow> DesiredDnsRecordContext \<Rightarrow> DesiredDnsRecord list" where
  "buildDesiredDnsRecords domain ctx =
     (let name = dm_name domain; host = cx_mxHostname ctx; openpgpkey = ''openpgpkey.'' @ name
      in [desired_record Ownership K_TXT (buildVerificationRecordName name) [buildVerificationTxtValue (dm_verificationToken domain)]] @
         [if host \<noteq> [] then desired_record Mx K_MX name [''10 '' @ host] else unconfigured Mx K_MX name] @
         [spf_record domain] @
         dkim_records domain @
         [dmarc_record domain] @
         [if host \<noteq> [] then desired_record Openpgpkey_cname K_CNAME openpgpkey [host] else unconfigured Openpgpkey_cname K_CNAME openpgpkey] @
         autodiscover_records name (cx_autodiscoverHostname ctx))"

section \<open>Which records stay manual\<close>

text \<open>\<^verbatim>\<open>RFC2136_PLAIN_TXT\<close>.\<close>

definition plain_txt_char :: "char \<Rightarrow> bool" where
  "plain_txt_char c \<longleftrightarrow>
     (let n = (of_char c :: nat) in 33 \<le> n \<and> n \<le> 126 \<and> n \<notin> {34, 92, 59, 40, 41, 36, 64})"

definition RFC2136_PLAIN_TXT :: "string \<Rightarrow> bool" where
  "RFC2136_PLAIN_TXT s \<longleftrightarrow> s \<noteq> [] \<and> length s \<le> 255 \<and> list_all plain_txt_char s"

definition providerKeepsTxt :: "string \<Rightarrow> string list \<Rightarrow> bool" where
  "providerKeepsTxt t values =
     (if t = ''azure'' then length values \<le> 1
      else if t = ''rfc2136'' then list_all RFC2136_PLAIN_TXT values
      else True)"

text \<open>The kinds external-dns cannot manage through a provider type; an unknown type has none.\<close>

definition unsupportedRecordKinds :: "string \<Rightarrow> record_kind list" where
  "unsupportedRecordKinds t = (if t = ''rfc2136'' then [K_MX, K_SRV] else [])"

record DnsProvider =
  pv_uid :: string
  pv_type :: string
  pv_zones :: "string list"
  pv_options :: "(string \<times> js_value) list"
  pv_credentials :: "(string \<times> js_value) list option"
  pv_credentialsGeneration :: "nat option"
  pv_enabled :: bool
  pv_allowTakeover :: bool

datatype DnsManualReason = No_provider | Kind_unsupported | Outside_zones | Apex_txt_unmanaged

definition apex_managed :: "Domain \<Rightarrow> bool" where
  "apex_managed domain = (case dm_apexTxt domain of None \<Rightarrow> False | Some a \<Rightarrow> at_managed a)"

definition dnsManualReason :: "DesiredDnsRecord \<Rightarrow> Domain \<Rightarrow> DnsProvider option \<Rightarrow> DnsManualReason option" where
  "dnsManualReason r domain provider =
     (case provider of
        None \<Rightarrow> Some No_provider
      | Some p \<Rightarrow>
          if \<not> isNameInZones (dr_name r) (pv_zones p) then Some Outside_zones
          else if dr_kind r \<in> set (unsupportedRecordKinds (pv_type p)) \<or> (dr_kind r = K_TXT \<and> \<not> providerKeepsTxt (pv_type p) (dr_values r))
          then Some Kind_unsupported
          else if dr_type r = Spf \<and> \<not> apex_managed domain then Some Apex_txt_unmanaged
          else None)"

section \<open>Conflicts\<close>

lemma length_after_comma: "dropWhile p s = c # r \<Longrightarrow> length r < length s"
  using length_dropWhile_le [of p s] by simp

text \<open>A match of \<^verbatim>\<open>(^|,)needle(,|$)\<close>, and the text without a quote at either end.\<close>

function marked_with :: "string \<Rightarrow> string \<Rightarrow> bool" where
  "marked_with needle s =
     ((prefix needle s \<and> (length s = length needle \<or> s ! length needle = CHR '','')) \<or>
      (case dropWhile (\<lambda>c. c \<noteq> CHR '','') s of [] \<Rightarrow> False | c # r \<Rightarrow> marked_with needle r))"
  by auto

termination
  by (relation "measure (\<lambda>p. length (snd p))") (simp, simp add: length_after_comma)

declare marked_with.simps [simp del]

definition unquoted :: "string \<Rightarrow> string" where
  "unquoted s =
     (let t = (if s \<noteq> [] \<and> hd s = CHR 0x22 then tl s else s)
      in if t \<noteq> [] \<and> last t = CHR 0x22 then butlast t else t)"

definition isRecordOwned :: "dns_resolver \<Rightarrow> record_kind \<Rightarrow> string \<Rightarrow> string \<Rightarrow> bool looked" where
  "isRecordOwned rz kind name ownerId =
     l_bind (ask (rz_txt rz (''rmx-'' @ js_lower (kind_text kind) @ ''.'' @ name))) (\<lambda>a.
       l_return (case a of
                   None \<Rightarrow> False
                 | Some records \<Rightarrow> list_ex (\<lambda>chunks. marked_with (''external-dns/owner='' @ ownerId) (unquoted (concat chunks))) records))"

definition comparable :: "record_kind \<Rightarrow> string \<Rightarrow> string" where
  "comparable kind v =
     (if kind = K_TXT then js_trim v
      else (let parts = split_ws (js_trim v) in js_join '' '' (butlast parts @ [normalizeHost (last parts)])))"

definition sameValues :: "record_kind \<Rightarrow> string list \<Rightarrow> string list \<Rightarrow> bool" where
  "sameValues kind live desired =
     (let a = uniq (map (comparable kind) live); b = uniq (map (comparable kind) desired)
      in length a = length b \<and> list_all (\<lambda>v. v \<in> set b) a)"

type_synonym existing_record = "record_kind \<times> string"

datatype DnsConflictReason = Not_owned | Type_mismatch

datatype ConflictJudgement = Replacing | Conflict DnsConflictReason "existing_record list option"

text \<open>The records of one lookup; none when it throws.\<close>

definition existingOf :: "('a \<Rightarrow> existing_record list) \<Rightarrow> 'a dns_answer \<Rightarrow> existing_record list looked" where
  "existingOf f a = l_bind (ask a) (\<lambda>x. l_return (case x of None \<Rightarrow> [] | Some v \<Rightarrow> f v))"

definition mx_text :: "nat \<times> string \<Rightarrow> string" where
  "mx_text r = nat_text (fst r) @ '' '' @ snd r"

definition cnames_at :: "dns_resolver \<Rightarrow> string \<Rightarrow> existing_record list looked" where
  "cnames_at rz name = existingOf (map (Pair K_CNAME)) (rz_cname rz name)"

definition recordsNextTo :: "dns_resolver \<Rightarrow> string \<Rightarrow> existing_record list looked" where
  "recordsNextTo rz name =
     l_bind (existingOf (map (\<lambda>v. (if isIPv6 v then K_AAAA else K_A, v)))
               (case rz_addresses rz of None \<Rightarrow> Inr [] | Some f \<Rightarrow> f name)) (\<lambda>addresses.
     l_bind (existingOf (map (\<lambda>r. (K_MX, mx_text r))) (rz_mx rz name)) (\<lambda>mxs.
     l_bind (existingOf (map (\<lambda>chunks. (K_TXT, concat chunks))) (rz_txt rz name)) (\<lambda>txts.
     l_return (addresses @ mxs @ txts))))"

definition wildcardProbe :: "dns_resolver \<Rightarrow> string \<Rightarrow> string option" where
  "wildcardProbe rz name =
     (case js_index_of CHR ''.'' name of
        None \<Rightarrow> None
      | Some dot \<Rightarrow>
          if dot > 0 \<and> CHR ''.'' \<in> set (drop (Suc dot) name)
          then Some (''rmx-probe-'' @ rz_random rz name @ ''.'' @ drop (Suc dot) name)
          else None)"

definition withoutWildcard ::
    "dns_resolver \<Rightarrow> existing_record list \<Rightarrow> string \<Rightarrow> (string \<Rightarrow> existing_record list looked) \<Rightarrow> existing_record list looked" where
  "withoutWildcard rz records name look =
     (case (if records \<noteq> [] then wildcardProbe rz name else None) of
        None \<Rightarrow> l_return records
      | Some probe \<Rightarrow> l_bind (look probe) (\<lambda>wild. l_return (filter (\<lambda>r. r \<notin> set wild) records)))"

record conflict_subject =
  sj_kind :: record_kind
  sj_name :: string
  sj_found :: bool
  sj_ownerId :: string
  sj_checkCname :: bool

text \<open>The three stages of \<^verbatim>\<open>judgeConflict()\<close>: a CNAME in the way of another type, other types in the way of a CNAME, and a record of
  the type published.\<close>

definition judge_own :: "dns_resolver \<Rightarrow> conflict_subject \<Rightarrow> ConflictJudgement option looked" where
  "judge_own rz sj =
     (if sj_found sj
      then l_bind (isRecordOwned rz (sj_kind sj) (sj_name sj) (sj_ownerId sj))
             (\<lambda>owned. l_return (if owned then None else Some (Conflict Not_owned None)))
      else l_return None)"

definition judge_next_to :: "dns_resolver \<Rightarrow> conflict_subject \<Rightarrow> ConflictJudgement option looked" where
  "judge_next_to rz sj =
     (if sj_kind sj = K_CNAME \<and> \<not> sj_found sj
      then l_bind (recordsNextTo rz (sj_name sj)) (\<lambda>near0.
           l_bind (withoutWildcard rz near0 (sj_name sj) (recordsNextTo rz)) (\<lambda>near.
           l_bind (l_map (\<lambda>k. l_bind (isRecordOwned rz k (sj_name sj) (sj_ownerId sj)) (\<lambda>b. l_return (k, b))) (uniq (map fst near))) (\<lambda>owned.
             let foreign = filter (\<lambda>r. map_of owned (fst r) \<noteq> Some True) near
             in if foreign \<noteq> [] then l_return (Some (Conflict Type_mismatch (Some foreign))) else judge_own rz sj)))
      else judge_own rz sj)"

definition judgeConflict :: "dns_resolver \<Rightarrow> conflict_subject \<Rightarrow> ConflictJudgement option looked" where
  "judgeConflict rz sj =
     (if sj_ownerId sj = [] then l_return None
      else if sj_kind sj \<noteq> K_CNAME \<and> sj_checkCname sj
      then l_bind (cnames_at rz (sj_name sj)) (\<lambda>cnames0.
           l_bind (withoutWildcard rz cnames0 (sj_name sj) (cnames_at rz)) (\<lambda>cnames.
             if cnames \<noteq> []
             then l_bind (isRecordOwned rz K_CNAME (sj_name sj) (sj_ownerId sj))
                    (\<lambda>owned. l_return (Some (if owned then Replacing else Conflict Type_mismatch (Some cnames))))
             else judge_next_to rz sj))
      else judge_next_to rz sj)"

section \<open>The live checks\<close>

datatype publication_state = Published | Pending | In_conflict | Manual

record DnsRecordCheck =
  ck_type :: DnsRecordType
  ck_kind :: record_kind
  ck_name :: string
  ck_configured :: bool
  ck_recommended :: "string option"
  ck_found :: bool
  ck_matches :: bool
  ck_actual :: "string option"
  ck_publication :: "publication_state option"
  ck_manualReason :: "DnsManualReason option"
  ck_conflictReason :: "DnsConflictReason option"
  ck_existing :: "existing_record list option"
  ck_legacyApex :: bool

type_synonym live_check = "DnsRecordCheck \<times> string list option"

text \<open>\<^verbatim>\<open>base()\<close>.\<close>

definition base_check :: "DesiredDnsRecord \<Rightarrow> DnsRecordCheck" where
  "base_check d =
     \<lparr>ck_type = dr_type d, ck_kind = dr_kind d, ck_name = dr_name d, ck_configured = dr_configured d, ck_recommended = dr_recommended d,
      ck_found = False, ck_matches = False, ck_actual = None, ck_publication = None, ck_manualReason = None, ck_conflictReason = None,
      ck_existing = None, ck_legacyApex = False\<rparr>"

definition applyJudgement :: "DnsRecordCheck \<Rightarrow> ConflictJudgement option \<Rightarrow> DnsRecordCheck option" where
  "applyJudgement check judgement =
     (case judgement of
        None \<Rightarrow> None
      | Some Replacing \<Rightarrow> Some (check\<lparr>ck_publication := Some Pending\<rparr>)
      | Some (Conflict reason existing) \<Rightarrow>
          Some (check\<lparr>ck_publication := Some In_conflict, ck_conflictReason := Some reason,
                      ck_existing := (case existing of Some e \<Rightarrow> Some e | None \<Rightarrow> ck_existing check)\<rparr>))"

record DnsSetupPublication =
  sp_provider :: "DnsProvider option"
  sp_observed :: bool
  sp_ownerId :: string

definition publicationOf ::
    "dns_resolver \<Rightarrow> Domain \<Rightarrow> DesiredDnsRecord \<Rightarrow> live_check \<Rightarrow> DnsSetupPublication \<Rightarrow> DnsRecordCheck looked" where
  "publicationOf rz domain d live pub =
     (let check = fst live
      in case dnsManualReason d domain (sp_provider pub) of
           Some reason \<Rightarrow> l_return (check\<lparr>ck_publication := Some Manual, ck_manualReason := Some reason\<rparr>)
         | None \<Rightarrow>
             l_bind (judgeConflict rz \<lparr>sj_kind = dr_kind d, sj_name = dr_name d, sj_found = ck_found check, sj_ownerId = sp_ownerId pub,
                                       sj_checkCname = (dr_name d \<noteq> dm_name domain)\<rparr>) (\<lambda>judgement.
               l_return (case applyJudgement check judgement of
                           Some settled \<Rightarrow> settled
                         | None \<Rightarrow>
                             let current = (case snd live of None \<Rightarrow> True | Some vs \<Rightarrow> sameValues (dr_kind d) vs (dr_values d))
                             in check\<lparr>ck_publication := Some (if ck_matches check \<and> current \<and> sp_observed pub then Published else Pending)\<rparr>)))"

definition checkOwnership :: "dns_resolver \<Rightarrow> Domain \<Rightarrow> DesiredDnsRecord \<Rightarrow> bool \<Rightarrow> live_check looked" where
  "checkOwnership rz domain d acceptLegacyApex =
     l_bind (findDomainVerification rz domain acceptLegacyApex) (\<lambda>result.
     l_bind (if vr_atRecord result then l_return True
             else l_bind (ask (rz_txt rz (dr_name d))) (\<lambda>a. l_return (case a of None \<Rightarrow> False | Some rs \<Rightarrow> rs \<noteq> []))) (\<lambda>found.
     l_return ((base_check d)\<lparr>ck_found := found, ck_matches := vr_atRecord result, ck_legacyApex := vr_atLegacyApex result\<rparr>, None)))"

definition checkMx :: "dns_resolver \<Rightarrow> DesiredDnsRecord \<Rightarrow> string \<Rightarrow> live_check looked" where
  "checkMx rz d mxHostname =
     (if \<not> dr_configured d then l_return (base_check d, None)
      else l_bind (ask (rz_mx rz (dr_name d))) (\<lambda>a. l_return (case a of
             None \<Rightarrow> (base_check d, None)
           | Some rs \<Rightarrow>
               ((base_check d)\<lparr>ck_found := rs \<noteq> [], ck_matches := list_ex (\<lambda>r. normalizeHost (snd r) = normalizeHost mxHostname) rs,
                               ck_actual := Some (js_join '', '' (map mx_text rs))\<rparr>, Some (map mx_text rs)))))"

definition checkTxt ::
    "dns_resolver \<Rightarrow> DesiredDnsRecord \<Rightarrow> (string list \<Rightarrow> string option) \<Rightarrow> (string \<Rightarrow> bool) \<Rightarrow> live_check looked" where
  "checkTxt rz d pick matches =
     l_bind (ask (rz_txt rz (dr_name d))) (\<lambda>a. l_return (case a of
        None \<Rightarrow> (base_check d, None)
      | Some rs \<Rightarrow>
          (let values = map concat rs; v = pick values
           in ((base_check d)\<lparr>ck_found := v \<noteq> None, ck_matches := (case v of None \<Rightarrow> False | Some t \<Rightarrow> matches t), ck_actual := v\<rparr>, Some values))))"

definition checkDkim :: "dns_resolver \<Rightarrow> DesiredDnsRecord \<Rightarrow> live_check looked" where
  "checkDkim rz d =
     (if \<not> dr_configured d then l_return (base_check d, None)
      else (let key = drop (length ''v=DKIM1; k=rsa; p='') (hd (dr_values d))
            in l_bind (ask (rz_txt rz (dr_name d))) (\<lambda>a. l_return (case a of
                 None \<Rightarrow> (base_check d, None)
               | Some rs \<Rightarrow>
                   (let joined = map concat rs
                    in ((base_check d)\<lparr>ck_found := joined \<noteq> [], ck_matches := list_ex (\<lambda>v. js_includes v (''p='' @ key)) joined,
                                       ck_actual := Some (js_join '' | '' joined)\<rparr>, Some joined))))))"

definition checkCname :: "dns_resolver \<Rightarrow> DesiredDnsRecord \<Rightarrow> live_check looked" where
  "checkCname rz d =
     (if \<not> dr_configured d then l_return (base_check d, None)
      else l_bind (ask (rz_cname rz (dr_name d))) (\<lambda>a. l_return (case a of
             None \<Rightarrow> (base_check d, None)
           | Some rs \<Rightarrow>
               ((base_check d)\<lparr>ck_found := rs \<noteq> [], ck_matches := list_ex (\<lambda>r. normalizeHost r = normalizeHost (hd (dr_values d))) rs,
                               ck_actual := Some (js_join '', '' rs)\<rparr>, Some rs))))"

definition srv_text :: "dns_srv \<Rightarrow> string" where
  "srv_text r = nat_text (srv_priority r) @ '' '' @ nat_text (srv_weight r) @ '' '' @ nat_text (srv_port r) @ '' '' @ srv_target r"

definition checkSrv :: "dns_resolver \<Rightarrow> DesiredDnsRecord \<Rightarrow> string \<Rightarrow> live_check looked" where
  "checkSrv rz d host =
     (if \<not> dr_configured d then l_return (base_check d, None)
      else l_bind (ask (rz_srv rz (dr_name d))) (\<lambda>a. l_return (case a of
             None \<Rightarrow> (base_check d, None)
           | Some rs \<Rightarrow>
               ((base_check d)\<lparr>ck_found := rs \<noteq> [],
                               ck_matches := list_ex (\<lambda>r. srv_port r = 443 \<and> normalizeHost (srv_target r) = normalizeHost host) rs,
                               ck_actual := Some (js_join '', '' (map srv_text rs))\<rparr>, Some (map srv_text rs)))))"

definition checkRecord ::
    "dns_resolver \<Rightarrow> Domain \<Rightarrow> DesiredDnsRecord \<Rightarrow> DesiredDnsRecordContext \<Rightarrow> bool \<Rightarrow> live_check looked" where
  "checkRecord rz domain d ctx acceptLegacyApex =
     (case dr_type d of
        Ownership \<Rightarrow> checkOwnership rz domain d acceptLegacyApex
      | Mx \<Rightarrow> checkMx rz d (cx_mxHostname ctx)
      | Spf \<Rightarrow> checkTxt rz d (List.find (starts_with_word ''v=spf1'')) (has_word ''mx'' False)
      | Dmarc \<Rightarrow> checkTxt rz d (List.find (starts_with_word ''v=dmarc1'')) (\<lambda>_. True)
      | Dkim \<Rightarrow> checkDkim rz d
      | Dkim_next \<Rightarrow> checkDkim rz d
      | Dkim_previous \<Rightarrow> checkDkim rz d
      | Autodiscover_srv \<Rightarrow> checkSrv rz d (case cx_autodiscoverHostname ctx of None \<Rightarrow> [] | Some h \<Rightarrow> h)
      | _ \<Rightarrow> checkCname rz d)"

record DnsSetupOptions =
  so_acceptLegacyApex :: "bool option"
  so_publication :: "DnsSetupPublication option"

definition check_one ::
    "dns_resolver \<Rightarrow> Domain \<Rightarrow> DesiredDnsRecordContext \<Rightarrow> DnsSetupOptions \<Rightarrow> DesiredDnsRecord \<Rightarrow> DnsRecordCheck looked" where
  "check_one rz domain ctx options d =
     l_bind (checkRecord rz domain d ctx (case so_acceptLegacyApex options of None \<Rightarrow> True | Some b \<Rightarrow> b)) (\<lambda>live.
       case so_publication options of
         Some pub \<Rightarrow> if dr_configured d then publicationOf rz domain d live pub else l_return (fst live)
       | None \<Rightarrow> l_return (fst live))"

definition checkDnsSetup ::
    "dns_resolver \<Rightarrow> Domain \<Rightarrow> DesiredDnsRecordContext \<Rightarrow> DnsSetupOptions \<Rightarrow> DnsRecordCheck list looked" where
  "checkDnsSetup rz domain ctx options =
     l_map (check_one rz domain ctx options) (buildDesiredDnsRecords domain ctx)"

section \<open>What the states mean\<close>

text \<open>The values of a kind at a name, as they are published.\<close>

definition values_at :: "dns_resolver \<Rightarrow> record_kind \<Rightarrow> string \<Rightarrow> string list option" where
  "values_at rz kind name =
     (case kind of
        K_TXT \<Rightarrow> map_option (map concat) (fst (ask (rz_txt rz name)))
      | K_MX \<Rightarrow> map_option (map mx_text) (fst (ask (rz_mx rz name)))
      | K_CNAME \<Rightarrow> fst (ask (rz_cname rz name))
      | K_SRV \<Rightarrow> map_option (map srv_text) (fst (ask (rz_srv rz name)))
      | K_A \<Rightarrow> map_option (filter isIPv4) (fst (ask (case rz_addresses rz of None \<Rightarrow> Inr [] | Some f \<Rightarrow> f name)))
      | K_AAAA \<Rightarrow> map_option (filter isIPv6) (fst (ask (case rz_addresses rz of None \<Rightarrow> Inr [] | Some f \<Rightarrow> f name))))"

abbreviation live_values :: "dns_resolver \<Rightarrow> DesiredDnsRecord \<Rightarrow> string list option" where
  "live_values rz d \<equiv> values_at rz (dr_kind d) (dr_name d)"

definition live_as_desired :: "dns_resolver \<Rightarrow> DesiredDnsRecord \<Rightarrow> bool" where
  "live_as_desired rz d =
     (case live_values rz d of
        None \<Rightarrow> False
      | Some vs \<Rightarrow>
          if dr_type d = Ownership then list_ex (\<lambda>v. js_trim v \<in> set (dr_values d)) vs
          else comparable (dr_kind d) ` set vs = comparable (dr_kind d) ` set (dr_values d))"

fun kind_of :: "DnsRecordType \<Rightarrow> record_kind" where
  "kind_of Mx = K_MX"
| "kind_of Openpgpkey_cname = K_CNAME"
| "kind_of Autodiscover_cname = K_CNAME"
| "kind_of Autodiscover_srv = K_SRV"
| "kind_of _ = K_TXT"

lemma sameValues_iff: "sameValues k vs ws \<longleftrightarrow> comparable k ` set vs = comparable k ` set ws"
proof -
  let ?a = "uniq (map (comparable k) vs)" and ?b = "uniq (map (comparable k) ws)"
  have "length ?a = length ?b \<and> set ?a \<subseteq> set ?b \<longleftrightarrow> set ?a = set ?b"
    by (metis card_subset_eq distinct_card distinct_uniq List.finite_set order_refl)
  then show ?thesis
    by (simp add: sameValues_def Let_def list_all_iff image_subset_iff)
qed

lemmas record_defs = desired_record_def shown_record_def unconfigured_def key_record_def

lemma desired_kind:
  "d \<in> set (buildDesiredDnsRecords domain ctx) \<Longrightarrow> dr_kind d = kind_of (dr_type d)"
  by (auto simp: buildDesiredDnsRecords_def Let_def record_defs spf_record_def dkim_records_def dmarc_record_def autodiscover_records_def
      split: if_splits option.splits)

lemma desired_ownership:
  assumes "d \<in> set (buildDesiredDnsRecords domain ctx)" "dr_type d = Ownership"
  shows "dr_name d = buildVerificationRecordName (dm_name domain)" "dr_values d = [buildVerificationTxtValue (dm_verificationToken domain)]"
  using assms
  by (auto simp: buildDesiredDnsRecords_def Let_def record_defs spf_record_def dkim_records_def dmarc_record_def autodiscover_records_def
      split: if_splits option.splits)

lemma find_Some_ne: "List.find p xs = Some x \<Longrightarrow> xs \<noteq> []"
  by (cases xs) auto

text \<open>What every live check says: a record is found only where values of its kind are, a match is found, and the values reported are the
  live ones. Nothing is said about publication yet.\<close>

lemma checkRecord_live:
  assumes d: "d \<in> set (buildDesiredDnsRecords domain ctx)" and conf: "dr_configured d"
    and live: "fst (checkRecord rz domain d ctx legacy) = (check, live)"
  shows "ck_found check \<Longrightarrow> live_values rz d \<noteq> None \<and> live_values rz d \<noteq> Some []"
    and "ck_matches check \<Longrightarrow> ck_found check"
    and "live = Some vs \<Longrightarrow> live_values rz d = Some vs \<and> dr_type d \<noteq> Ownership"
    and "\<lbrakk>live = None; ck_matches check\<rbrakk> \<Longrightarrow> dr_type d = Ownership \<and> live_as_desired rz d"
proof -
  note kind = desired_kind [OF d]
  note own = desired_ownership [OF d]
  show "ck_found check \<Longrightarrow> live_values rz d \<noteq> None \<and> live_values rz d \<noteq> Some []"
    using kind conf own live unfolding checkRecord_def
    by (cases "dr_type d")
      (auto simp: checkOwnership_def findDomainVerification_def hasTxtValue_def checkMx_def checkTxt_def checkDkim_def checkCname_def checkSrv_def
        values_at_def base_check_def Let_def dest: find_Some_ne dest!: sym [of "Some x" for x] split: option.splits if_splits)
  show "ck_matches check \<Longrightarrow> ck_found check"
    using conf live unfolding checkRecord_def
    by (cases "dr_type d")
      (auto simp: checkOwnership_def findDomainVerification_def checkMx_def checkTxt_def checkDkim_def checkCname_def checkSrv_def
        base_check_def Let_def split: option.splits if_splits)
  show "live = Some vs \<Longrightarrow> live_values rz d = Some vs \<and> dr_type d \<noteq> Ownership"
    using kind conf live unfolding checkRecord_def
    by (cases "dr_type d")
      (auto simp: checkOwnership_def checkMx_def checkTxt_def checkDkim_def checkCname_def checkSrv_def
        values_at_def Let_def split: option.splits if_splits)
  show "\<lbrakk>live = None; ck_matches check\<rbrakk> \<Longrightarrow> dr_type d = Ownership \<and> live_as_desired rz d"
    using kind conf own live unfolding checkRecord_def
    by (cases "dr_type d")
      (auto simp: checkOwnership_def findDomainVerification_def hasTxtValue_def checkMx_def checkTxt_def checkDkim_def checkCname_def checkSrv_def
        values_at_def live_as_desired_def base_check_def Let_def list_ex_iff split: option.splits if_splits)
qed

lemma checkRecord_fresh:
  assumes "fst (checkRecord rz domain d ctx legacy) = (check, live)"
  shows "ck_type check = dr_type d" "ck_name check = dr_name d" "ck_publication check = None" "ck_conflictReason check = None"
  using assms unfolding checkRecord_def
  by (cases "dr_type d"; auto simp: checkOwnership_def checkMx_def checkTxt_def checkDkim_def checkCname_def checkSrv_def base_check_def Let_def
      split: option.splits if_splits)+

text \<open>A record nothing is in the way of: not found, or owned.\<close>

lemma judgeConflict_clear:
  assumes "fst (judgeConflict rz sj) = None" "sj_ownerId sj \<noteq> []" "sj_found sj"
  shows "fst (isRecordOwned rz (sj_kind sj) (sj_name sj) (sj_ownerId sj))"
  using assms by (auto simp: judgeConflict_def judge_next_to_def judge_own_def Let_def split: if_splits)

lemma judgeConflict_not_owned:
  assumes "fst (judgeConflict rz sj) = Some (Conflict Not_owned existing)"
  shows "sj_found sj \<and> \<not> fst (isRecordOwned rz (sj_kind sj) (sj_name sj) (sj_ownerId sj))"
  using assms by (auto simp: judgeConflict_def judge_next_to_def judge_own_def Let_def split: if_splits)

text \<open>The checks of a setup that were judged, with the desired record each is about.\<close>

lemma checked_record:
  assumes "c \<in> set (fst (checkDnsSetup rz domain ctx options))" "so_publication options = Some pub" "ck_publication c \<noteq> None"
  obtains d check live where "d \<in> set (buildDesiredDnsRecords domain ctx)" "dr_configured d"
    "fst (checkRecord rz domain d ctx (case so_acceptLegacyApex options of None \<Rightarrow> True | Some b \<Rightarrow> b)) = (check, live)"
    "c = fst (publicationOf rz domain d (check, live) pub)"
proof -
  obtain d where d: "d \<in> set (buildDesiredDnsRecords domain ctx)" and c: "c = fst (check_one rz domain ctx options d)"
    using assms(1) by (auto simp: checkDnsSetup_def)
  obtain check live where live: "fst (checkRecord rz domain d ctx (case so_acceptLegacyApex options of None \<Rightarrow> True | Some b \<Rightarrow> b)) = (check, live)"
    by fastforce
  have "dr_configured d"
    using c assms(2,3) live checkRecord_fresh(3) [OF live] by (auto simp: check_one_def split: if_splits)
  with that [OF d this live] show thesis
    using c assms(2) live by (simp add: check_one_def)
qed

lemma publicationOf_fields:
  assumes "ck_publication check = None" "ck_conflictReason check = None"
  shows "ck_type (fst (publicationOf rz domain d (check, live) pub)) = ck_type check"
    and "ck_name (fst (publicationOf rz domain d (check, live) pub)) = ck_name check"
    and "ck_publication (fst (publicationOf rz domain d (check, live) pub)) = Some Published \<Longrightarrow>
      dnsManualReason d domain (sp_provider pub) = None \<and> ck_matches check \<and> sp_observed pub \<and>
      (case live of None \<Rightarrow> True | Some vs \<Rightarrow> sameValues (dr_kind d) vs (dr_values d)) \<and>
      fst (judgeConflict rz \<lparr>sj_kind = dr_kind d, sj_name = dr_name d, sj_found = ck_found check, sj_ownerId = sp_ownerId pub,
                             sj_checkCname = (dr_name d \<noteq> dm_name domain)\<rparr>) = None"
    and "ck_conflictReason (fst (publicationOf rz domain d (check, live) pub)) = Some reason \<Longrightarrow>
      dnsManualReason d domain (sp_provider pub) = None \<and>
      (\<exists>existing. fst (judgeConflict rz \<lparr>sj_kind = dr_kind d, sj_name = dr_name d, sj_found = ck_found check, sj_ownerId = sp_ownerId pub,
                             sj_checkCname = (dr_name d \<noteq> dm_name domain)\<rparr>) = Some (Conflict reason existing))"
  using assms
  by (auto simp: publicationOf_def applyJudgement_def Let_def split: option.splits ConflictJudgement.splits if_splits)


definition example_domain :: Domain where
  "example_domain =
     \<lparr>dm_uid = ''example.com'', dm_name = ''example.com'', dm_version = 1, dm_enabled = True, dm_verified = True, dm_dateCreated = Some 0,
      dm_dkimSelector = ''s1'', dm_dkimPublicKey = ''KEY'', dm_dkimManaged = Some True, dm_dkimRotation = None,
      dm_verificationToken = ''tok'', dm_dmarcPolicy = None, dm_dmarcReportEmail = [], dm_dnsProviderUid = ''p'', dm_apexTxt = None\<rparr>"

definition example_dns_provider :: DnsProvider where
  "example_dns_provider =
     \<lparr>pv_uid = ''p'', pv_type = ''cloudflare'', pv_zones = [''example.com''], pv_options = [], pv_credentials = None,
      pv_credentialsGeneration = None, pv_enabled = True, pv_allowTakeover = True\<rparr>"

text \<open>A zone with an MX record of this deployment and an \<^verbatim>\<open>openpgpkey\<close> alias of somebody else.\<close>

definition example_resolver :: dns_resolver where
  "example_resolver =
     \<lparr>rz_txt = (\<lambda>n. if n = ''rmx-mx.example.com'' then Inr [[''heritage=external-dns,external-dns/owner=rapidmx-1'']] else Inl True),
      rz_mx = (\<lambda>n. if n = ''example.com'' then Inr [(10, ''Mail.example.com.'')] else Inl True),
      rz_cname = (\<lambda>n. if n = ''openpgpkey.example.com'' then Inr [''wkd.example.org''] else Inl True),
      rz_srv = (\<lambda>_. Inl True), rz_addresses = None, rz_random = (\<lambda>_. ''00'')\<rparr>"

definition example_context :: DesiredDnsRecordContext where
  "example_context = \<lparr>cx_mxHostname = ''mail.example.com'', cx_autodiscoverHostname = None\<rparr>"

definition example_publication :: DnsSetupPublication where
  "example_publication = \<lparr>sp_provider = Some example_dns_provider, sp_observed = True, sp_ownerId = ''rapidmx-1''\<rparr>"

definition example_options :: DnsSetupOptions where
  "example_options = \<lparr>so_acceptLegacyApex = None, so_publication = Some example_publication\<rparr>"

definition example_mx :: DesiredDnsRecord where
  "example_mx = desired_record Mx K_MX ''example.com'' [''10 mail.example.com'']"

definition example_openpgpkey :: DesiredDnsRecord where
  "example_openpgpkey = desired_record Openpgpkey_cname K_CNAME ''openpgpkey.example.com'' [''mail.example.com'']"

lemma example_desired: "{example_mx, example_openpgpkey} \<subseteq> set (buildDesiredDnsRecords example_domain example_context)"
  by (simp add: buildDesiredDnsRecords_def Let_def example_context_def example_domain_def example_mx_def example_openpgpkey_def)

lemmas check_eval =
  check_one_def checkRecord_def checkMx_def checkCname_def publicationOf_def dnsManualReason_def isNameInZones_def dnsName_def drop_final_dot_def
  unsupportedRecordKinds_def judgeConflict_def judge_next_to_def judge_own_def isRecordOwned_def applyJudgement_def
  ask_def base_check_def normalizeHost_def sameValues_iff comparable_def split_ws.simps marked_with.simps unquoted_def mx_text_def record_defs
  js_lower_def js_lower_char_def js_trim_def js_is_ws_def Let_def

lemma example_checks:
  "ck_type (fst (check_one example_resolver example_domain example_context example_options example_mx)) = Mx"
  "ck_publication (fst (check_one example_resolver example_domain example_context example_options example_mx)) = Some Published"
  "ck_type (fst (check_one example_resolver example_domain example_context example_options example_openpgpkey)) = Openpgpkey_cname"
  "ck_publication (fst (check_one example_resolver example_domain example_context example_options example_openpgpkey)) = Some In_conflict"
  "ck_conflictReason (fst (check_one example_resolver example_domain example_context example_options example_openpgpkey)) = Some Not_owned"
  by (simp_all add: check_eval example_mx_def example_openpgpkey_def example_resolver_def example_domain_def example_context_def
      example_options_def example_publication_def example_dns_provider_def nat_text.simps digit_char_def suffix_def char_of_eq_iff)


text \<open>A record is in conflict for want of ownership only when values of its kind are live at its name and its registry record does not name this
  deployment.\<close>

lemma not_owned_is_live:
  assumes "c \<in> set (fst (checkDnsSetup rz domain ctx options))" "so_publication options = Some pub" "ck_publication c \<noteq> None"
    "ck_conflictReason c = Some Not_owned"
  obtains d where "d \<in> set (buildDesiredDnsRecords domain ctx)" "dr_type d = ck_type c" "dr_configured d"
    "dnsManualReason d domain (sp_provider pub) = None" "live_values rz d \<noteq> None" "live_values rz d \<noteq> Some []"
    "\<not> fst (isRecordOwned rz (dr_kind d) (dr_name d) (sp_ownerId pub))"
proof -
  obtain d check live where d: "d \<in> set (buildDesiredDnsRecords domain ctx)" "dr_configured d"
      and live: "fst (checkRecord rz domain d ctx (case so_acceptLegacyApex options of None \<Rightarrow> True | Some b \<Rightarrow> b)) = (check, live)"
      and c: "c = fst (publicationOf rz domain d (check, live) pub)"
    using checked_record [OF assms(1-3)] by metis
  note fresh = checkRecord_fresh [OF live]
  note pub = publicationOf_fields [OF fresh(3,4), of rz domain d live pub]
  obtain existing where j: "dnsManualReason d domain (sp_provider pub) = None"
      "fst (judgeConflict rz \<lparr>sj_kind = dr_kind d, sj_name = dr_name d, sj_found = ck_found check, sj_ownerId = sp_ownerId pub,
                             sj_checkCname = (dr_name d \<noteq> dm_name domain)\<rparr>) = Some (Conflict Not_owned existing)"
    using pub(4) [of Not_owned] assms(4) c by auto
  have "ck_found check" "\<not> fst (isRecordOwned rz (dr_kind d) (dr_name d) (sp_ownerId pub))"
    using judgeConflict_not_owned [OF j(2)] by simp_all
  then show thesis
    using that [OF d(1) _ d(2) j(1)] checkRecord_live(1) [OF d live] fresh(1) pub(1) c by simp
qed

end
