(* ===== verification/Apex_Txt.thy ===== *)
theory Apex_Txt
  imports Dns_Records
begin

text \<open>
  \<^verbatim>\<open>util/ApexTxtUtils.ts\<close>: the values of the TXT set at the root of a domain, which the server manages only when the administrator has
  opted in. Owning the set means publishing every value in it: the one SPF record and the values kept.
\<close>

definition MAX_APEX_TXT_KEEP :: nat where
  "MAX_APEX_TXT_KEEP = 50"

definition MAX_APEX_TXT_VALUE_LENGTH :: nat where
  "MAX_APEX_TXT_VALUE_LENGTH = 2048"

definition CONTROL_CHARACTER :: "string \<Rightarrow> bool" where
  "CONTROL_CHARACTER s = list_ex (\<lambda>c. let n = (of_char c :: nat) in n \<le> 31 \<or> (127 \<le> n \<and> n \<le> 159)) s"

definition isSpfValue :: "string \<Rightarrow> bool" where
  "isSpfValue v =
     (let s = js_trim v in js_lower (take 6 s) = ''v=spf1'' \<and> (length s = 6 \<or> (length s > 6 \<and> js_is_ws (s ! 6))))"

definition isVerificationTokenValue :: "string \<Rightarrow> bool" where
  "isVerificationTokenValue v = prefix DOMAIN_VERIFICATION_TXT_PREFIX (js_trim v)"

definition suggestApexTxtKeep :: "string list \<Rightarrow> string list" where
  "suggestApexTxtKeep current =
     foldl (\<lambda>keep v. if \<not> isSpfValue v \<and> \<not> isVerificationTokenValue v \<and> v \<notin> set keep then keep @ [v] else keep) [] current"

text \<open>\<^verbatim>\<open>AUTHORIZES_OWN_MX\<close>: a word of the value (between blanks) that is \<^verbatim>\<open>mx\<close> or \<^verbatim>\<open>+mx\<close> with optional CIDR lengths.\<close>

definition cidr4_text :: "string \<Rightarrow> bool" where
  "cidr4_text s \<longleftrightarrow> s = [] \<or> (hd s = CHR ''/'' \<and> length s \<in> {2, 3} \<and> list_all is_digit (tl s))"

definition cidr6_text :: "string \<Rightarrow> bool" where
  "cidr6_text s \<longleftrightarrow> s = [] \<or> (take 2 s = ''//'' \<and> length s \<in> {3, 4, 5} \<and> list_all is_digit (drop 2 s))"

definition own_mx_word :: "string \<Rightarrow> bool" where
  "own_mx_word w =
     (let u = (if w \<noteq> [] \<and> hd w = CHR ''+'' then tl w else w); r = drop 2 u
      in js_lower (take 2 u) = ''mx'' \<and> list_ex (\<lambda>k. cidr4_text (take k r) \<and> cidr6_text (drop k r)) [0..<Suc (length r)])"

definition AUTHORIZES_OWN_MX :: "string \<Rightarrow> bool" where
  "AUTHORIZES_OWN_MX v = list_ex own_mx_word (split_ws v)"

definition chooseApexSpf :: "string list \<Rightarrow> string" where
  "chooseApexSpf current =
     (case List.find (\<lambda>v. isSpfValue v \<and> AUTHORIZES_OWN_MX v) current of Some v \<Rightarrow> v | None \<Rightarrow> DEFAULT_SPF_VALUE)"

definition invalid_keep :: "string \<Rightarrow> 'a result" where
  "invalid_keep message = Inl (ApiError 400 message)"

fun keep_entries :: "string list \<Rightarrow> js_value list \<Rightarrow> string list result" where
  "keep_entries keep [] = Inr keep"
| "keep_entries keep (entry # entries) =
     (let v = (case entry of JStr s \<Rightarrow> js_trim s | _ \<Rightarrow> [])
      in if v = [] \<or> length v > MAX_APEX_TXT_VALUE_LENGTH \<or> CONTROL_CHARACTER v
         then invalid_keep ''Each value in 'keep' must be text of 1 to 2048 characters without control characters.''
         else if isSpfValue v
         then invalid_keep (CHR 0x27 # ''keep' can't hold an SPF record: RapidMX publishes the domain's one SPF record itself.'')
         else keep_entries (if \<not> isVerificationTokenValue v \<and> v \<notin> set keep then keep @ [v] else keep) entries)"

definition normalizeApexTxtKeep :: "js_value \<Rightarrow> string list result" where
  "normalizeApexTxtKeep input =
     (case input of
        JUndefined \<Rightarrow> Inr []
      | JArr entries \<Rightarrow>
          if length entries > MAX_APEX_TXT_KEEP then invalid_keep (CHR 0x27 # ''keep' must be a list of at most 50 TXT values.'')
          else keep_entries [] entries
      | _ \<Rightarrow> invalid_keep (CHR 0x27 # ''keep' must be a list of at most 50 TXT values.''))"

section \<open>The set that is published\<close>

definition kept_value :: "string \<Rightarrow> bool" where
  "kept_value v \<longleftrightarrow>
     v \<noteq> [] \<and> length v \<le> MAX_APEX_TXT_VALUE_LENGTH \<and> \<not> CONTROL_CHARACTER v \<and> \<not> isSpfValue v \<and> \<not> isVerificationTokenValue v \<and> js_trim v = v"

lemma keep_entries_ok:
  assumes "keep_entries keep entries = Inr result" "list_all kept_value keep" "distinct keep"
  shows "list_all kept_value result \<and> distinct result \<and> length result \<le> length keep + length entries"
  using assms
proof (induction keep entries rule: keep_entries.induct)
  case (2 keep entry entries)
  let ?v = "case entry of JStr s \<Rightarrow> js_trim s | _ \<Rightarrow> []"
  let ?keep = "if \<not> isVerificationTokenValue ?v \<and> ?v \<notin> set keep then keep @ [?v] else keep"
  have v: "?v \<noteq> []" "length ?v \<le> MAX_APEX_TXT_VALUE_LENGTH" "\<not> CONTROL_CHARACTER ?v" "\<not> isSpfValue ?v"
      and rest: "keep_entries ?keep entries = Inr result"
    using "2.prems"(1) by (auto simp: Let_def invalid_keep_def split: if_splits)
  have "js_trim ?v = ?v"
    by (cases entry) (simp_all add: js_trim_fixed)
  then have "\<not> isVerificationTokenValue ?v \<Longrightarrow> kept_value ?v"
    using v by (simp add: kept_value_def)
  then have "list_all kept_value ?keep" "distinct ?keep" "length ?keep \<le> Suc (length keep)"
    using "2.prems"(2,3) by auto
  then show ?case
    using "2.IH" [OF refl _ _ rest] v by auto
qed simp

lemma keep_entries_fixed:
  "list_all kept_value (keep @ vs) \<Longrightarrow> distinct (keep @ vs) \<Longrightarrow> keep_entries keep (map JStr vs) = Inr (keep @ vs)"
proof (induction vs arbitrary: keep)
  case (Cons v vs)
  then have "keep_entries (keep @ [v]) (map JStr vs) = Inr ((keep @ [v]) @ vs)"
    by (intro Cons.IH) auto
  moreover have "kept_value v" "v \<notin> set keep"
    using Cons.prems by auto
  ultimately show ?case
    by (simp add: kept_value_def Let_def)
qed simp

lemma default_spf: "isSpfValue DEFAULT_SPF_VALUE" "AUTHORIZES_OWN_MX DEFAULT_SPF_VALUE"
  by code_simp+

lemma chooseApexSpf_ok: "isSpfValue (chooseApexSpf current) \<and> AUTHORIZES_OWN_MX (chooseApexSpf current)"
  using default_spf by (auto simp: chooseApexSpf_def find_Some_iff split: option.split)

text \<open>C38: A managed apex TXT set holds exactly one SPF record, which authorizes the mail hosts of the domain, next to at most fifty other values, each once
  and none of them a verification token; and the kept values are accepted unchanged when they are sent again.\<close>

theorem managed_apex_set:
  assumes "normalizeApexTxtKeep input = Inr keep"
    "dm_apexTxt domain = Some \<lparr>at_managed = True, at_keep = Some keep, at_spf = Some (chooseApexSpf current)\<rparr>"
  shows "filter isSpfValue (dr_values (spf_record domain)) = [chooseApexSpf current] \<and>
    AUTHORIZES_OWN_MX (chooseApexSpf current) \<and> distinct (dr_values (spf_record domain)) \<and>
    length (dr_values (spf_record domain)) \<le> Suc MAX_APEX_TXT_KEEP \<and>
    \<not> list_ex isVerificationTokenValue keep \<and> normalizeApexTxtKeep (JArr (map JStr keep)) = Inr keep"
proof -
  let ?spf = "chooseApexSpf current"
  have keep: "list_all kept_value keep" "distinct keep" "length keep \<le> MAX_APEX_TXT_KEEP"
    using assms(1) keep_entries_ok [of "[]" _ keep]
    by (auto simp: normalizeApexTxtKeep_def invalid_keep_def dest: order_trans not_less [THEN iffD1] split: js_value.splits if_splits)
  have spf: "isSpfValue ?spf" "AUTHORIZES_OWN_MX ?spf"
    using chooseApexSpf_ok by auto
  then have "?spf \<noteq> []"
    by (auto simp: isSpfValue_def js_trim_def)
  then have vs: "dr_values (spf_record domain) = ?spf # keep"
    by (simp add: spf_record_def assms(2) shown_record_def Let_def)
  have "?spf \<notin> set keep" "filter isSpfValue keep = []" "\<not> list_ex isVerificationTokenValue keep"
    using keep(1) spf(1) by (auto simp: list_all_iff kept_value_def list_ex_iff filter_empty_conv)
  then show ?thesis
    using keep spf keep_entries_fixed [of "[]" keep] by (simp add: vs normalizeApexTxtKeep_def)
qed

definition example_apex :: ApexTxtSettings where
  "example_apex =
     \<lparr>at_managed = True, at_keep = Some [''site=1''], at_spf = Some (chooseApexSpf [''v=spf1 -all'', ''v=spf1 +MX/24 ~all''])\<rparr>"

theorem managed_apex_set_witness:
  "filter isSpfValue (dr_values (spf_record (example_domain\<lparr>dm_apexTxt := Some example_apex\<rparr>))) = [''v=spf1 +MX/24 ~all'']"
proof -
  have input: "normalizeApexTxtKeep (JArr [JStr '' site=1'', JStr ''site=1'', JStr ''rapidmx-domain-verification=x'']) = Inr [''site=1'']"
    by code_simp
  have spf: "chooseApexSpf [''v=spf1 -all'', ''v=spf1 +MX/24 ~all''] = ''v=spf1 +MX/24 ~all''"
    by code_simp
  show ?thesis
    using managed_apex_set [OF input, of "example_domain\<lparr>dm_apexTxt := Some example_apex\<rparr>" "[''v=spf1 -all'', ''v=spf1 +MX/24 ~all'']"]
    by (simp add: example_apex_def spf)
qed

end
