(* ===== verification/Dns_Publishing.thy ===== *)
theory Dns_Publishing
  imports Dns_Records Mime_Headers Auth_Results "HOL-Library.List_Lexorder" "HOL-Library.Char_ord"
begin

text \<open>
  What the DNS controller is told to publish (\<^verbatim>\<open>dns/DnsDesiredState.ts\<close>), whether the hosts of the deployment are published
  (\<^verbatim>\<open>dns/DnsHostPublication.ts\<close>) and which records the server takes over by itself (\<^verbatim>\<open>dns/DnsAutoTakeover.ts\<close>). Outside
  functions are arguments: \<open>sha256\<close> and \<open>sha1\<close> of the runtime, and \<open>collate\<close>, the rank by which \<^verbatim>\<open>localeCompare()\<close> orders texts.
\<close>

section \<open>The desired state\<close>

datatype host_type = HAddress | HCname

record PublishHost =
  ph_name :: string
  ph_type :: host_type
  ph_target :: "string option"

datatype manual_host_reason = H_outside_zones | H_no_addresses | H_no_target

type_synonym ManualHost = "string \<times> manual_host_reason"

record DnsRecordV1 =
  v1_dnsName :: string
  v1_recordType :: record_kind
  v1_targets :: "string list"
  v1_ttl :: int

record EndpointSetV1 =
  es_id :: string
  es_providerUid :: string
  es_domainUid :: "string option"
  es_records :: "DnsRecordV1 list"

record DesiredDnsPublishContext = DesiredDnsRecordContext +
  cx_ttl :: int

definition MAX_ENDPOINT_SET_ID_LENGTH :: nat where
  "MAX_ENDPOINT_SET_ID_LENGTH = 180"

definition shortHash :: "(string \<Rightarrow> string) \<Rightarrow> string \<Rightarrow> string" where
  "shortHash sha256 s = take 8 (sha256 s)"

definition domainEndpointSetId :: "(string \<Rightarrow> string) \<Rightarrow> string \<Rightarrow> string" where
  "domainEndpointSetId sha256 domainUid =
     (let i = ''domain-'' @ map (\<lambda>c. if c = CHR ''.'' then CHR ''-'' else c) domainUid
      in if CHR ''-'' \<notin> set domainUid \<and> length i \<le> MAX_ENDPOINT_SET_ID_LENGTH then i
         else rev (dropWhile (\<lambda>c. c = CHR ''-'') (rev (take (MAX_ENDPOINT_SET_ID_LENGTH - 9) i))) @ ''-'' @ shortHash sha256 domainUid)"

definition hostsEndpointSetId :: "string \<Rightarrow> string" where
  "hostsEndpointSetId providerUid = ''hosts-'' @ providerUid"

definition non_global_ipv4 :: "block_rule list" where
  "non_global_ipv4 = List.map_filter (\<lambda>(p, b). subnet_rule p b)
     [(''0.0.0.0'', 8), (''10.0.0.0'', 8), (''100.64.0.0'', 10), (''127.0.0.0'', 8), (''169.254.0.0'', 16), (''172.16.0.0'', 12),
      (''192.0.0.0'', 24), (''192.168.0.0'', 16), (''198.18.0.0'', 15), (''224.0.0.0'', 4), (''240.0.0.0'', 4)]"

definition non_global_ipv6 :: "block_rule list" where
  "non_global_ipv6 = List.map_filter (\<lambda>(p, b). subnet_rule p b)
     [(''::'', 96), (''::ffff:0:0'', 96), (''64:ff9b:1::'', 48), (''fc00::'', 7), (''fe80::'', 10), (''ff00::'', 8)]"

definition isGlobalUnicastAddress :: "string \<Rightarrow> bool" where
  "isGlobalUnicastAddress ip =
     (if isIP ip = 4 then \<not> block_list_check non_global_ipv4 ip else isIP ip = 6 \<and> \<not> block_list_check non_global_ipv6 ip)"

definition zoneCoverage :: "string \<Rightarrow> string list \<Rightarrow> int" where
  "zoneCoverage name zones = foldl max (- 1) (map (\<lambda>zone. int (length zone)) (filter (\<lambda>zone. isNameInZones name [zone]) zones))"

definition moreSpecificProvider :: "string \<Rightarrow> DnsProvider \<Rightarrow> DnsProvider list \<Rightarrow> DnsProvider option" where
  "moreSpecificProvider name provider providers =
     List.find (\<lambda>other. pv_uid other \<noteq> pv_uid provider \<and> zoneCoverage name (pv_zones other) > zoneCoverage name (pv_zones provider)) providers"

definition better_provider :: "string \<Rightarrow> DnsProvider option \<times> int \<Rightarrow> DnsProvider \<Rightarrow> DnsProvider option \<times> int" where
  "better_provider name best provider =
     (let l = zoneCoverage name (pv_zones provider) in if l > snd best then (Some provider, l) else best)"

definition providerForName :: "string \<Rightarrow> DnsProvider list \<Rightarrow> DnsProvider option" where
  "providerForName name providers = fst (foldl (better_provider name) (None, - 1) providers)"

definition publishTtl :: "string \<Rightarrow> int \<Rightarrow> int" where
  "publishTtl t ttl = (if t = ''cloudflare'' then max ttl 120 else ttl)"

definition toRecordV1 :: "DesiredDnsRecord \<Rightarrow> int \<Rightarrow> DnsRecordV1" where
  "toRecordV1 r ttl = \<lparr>v1_dnsName = dr_name r, v1_recordType = dr_kind r, v1_targets = dr_values r, v1_ttl = ttl\<rparr>"

definition domainDnsRecordsV1 ::
    "Domain \<Rightarrow> DnsProvider \<Rightarrow> DesiredDnsPublishContext \<Rightarrow> DnsRecordType list option \<Rightarrow> DnsRecordV1 list" where
  "domainDnsRecordsV1 domain provider ctx types =
     map (\<lambda>r. toRecordV1 r (publishTtl (pv_type provider) (cx_ttl ctx)))
       (filter (\<lambda>r. dr_configured r \<and> dnsManualReason r domain (Some provider) = None \<and> (case types of None \<Rightarrow> True | Some ts \<Rightarrow> dr_type r \<in> set ts))
         (buildDesiredDnsRecords domain (DesiredDnsRecordContext.truncate ctx)))"

definition domainProvider :: "Domain \<Rightarrow> DnsProvider list \<Rightarrow> DnsProvider option" where
  "domainProvider domain providers =
     (case (if dm_dnsProviderUid domain \<noteq> [] then List.find (\<lambda>p. pv_uid p = dm_dnsProviderUid domain) providers else None) of
        None \<Rightarrow> None
      | Some p \<Rightarrow> if isNameInZones (dm_name domain) (pv_zones p) then Some p else None)"

definition collides :: "DnsRecordV1 \<Rightarrow> DnsRecordV1 list \<Rightarrow> bool" where
  "collides r taken =
     list_ex (\<lambda>other. v1_dnsName other = v1_dnsName r \<and>
       (v1_recordType other = v1_recordType r \<or> v1_recordType other = K_CNAME \<or> v1_recordType r = K_CNAME)) taken"

text \<open>One round of the loop over the hosts: the records the host wants through its provider, or why it stays manual.\<close>

definition host_records ::
    "PublishHost \<Rightarrow> string list \<Rightarrow> DnsProvider list \<Rightarrow> DesiredDnsPublishContext \<Rightarrow> manual_host_reason + (string \<times> DnsRecordV1 list)" where
  "host_records host addresses providers ctx =
     (case providerForName (ph_name host) providers of
        None \<Rightarrow> Inl H_outside_zones
      | Some provider \<Rightarrow>
          (let ttl = publishTtl (pv_type provider) (cx_ttl ctx); ipv4 = filter isIPv4 addresses; ipv6 = filter isIPv6 addresses;
               rec = (\<lambda>k targets. \<lparr>v1_dnsName = ph_name host, v1_recordType = k, v1_targets = targets, v1_ttl = ttl\<rparr>)
           in case ph_type host of
                HAddress \<Rightarrow>
                  if addresses = [] then Inl H_no_addresses
                  else Inr (pv_uid provider, (if ipv4 \<noteq> [] then [rec K_A ipv4] else []) @ (if ipv6 \<noteq> [] then [rec K_AAAA ipv6] else []))
              | HCname \<Rightarrow>
                  (let target = (case ph_target host of Some t \<Rightarrow> t | None \<Rightarrow> cx_mxHostname ctx)
                   in if target = [] then Inl H_no_target else Inr (pv_uid provider, [rec K_CNAME [target]]))))"

definition add_host ::
    "string list \<Rightarrow> DnsProvider list \<Rightarrow> DesiredDnsPublishContext \<Rightarrow> DnsRecordV1 list \<Rightarrow>
     (string \<times> DnsRecordV1 list) list \<times> ManualHost list \<Rightarrow> PublishHost \<Rightarrow> (string \<times> DnsRecordV1 list) list \<times> ManualHost list" where
  "add_host addresses providers ctx published acc host =
     (case host_records host addresses providers ctx of
        Inl reason \<Rightarrow> (fst acc, snd acc @ [(ph_name host, reason)])
      | Inr (uid, wanted) \<Rightarrow>
          (assign uid (nullish (map_of (fst acc) uid) @ filter (\<lambda>r. \<not> collides r published) wanted) (fst acc), snd acc))"

definition buildHostEndpointSets ::
    "(string \<Rightarrow> nat) \<Rightarrow> PublishHost list \<Rightarrow> string list \<Rightarrow> DnsProvider list \<Rightarrow> DesiredDnsPublishContext \<Rightarrow> DnsRecordV1 list \<Rightarrow>
     EndpointSetV1 list \<times> ManualHost list" where
  "buildHostEndpointSets collate hosts addresses providers ctx published =
     (let (byProvider, manual) = foldl (add_host addresses providers ctx published) ([], []) hosts
      in (map (\<lambda>(uid, records). \<lparr>es_id = hostsEndpointSetId uid, es_providerUid = uid, es_domainUid = None, es_records = records\<rparr>)
            (sort_key (\<lambda>e. collate (fst e)) (filter (\<lambda>(uid, records). records \<noteq> []) byProvider)),
          manual))"

record DnsProviderV1 =
  pv1_uid :: string
  pv1_type :: string
  pv1_zones :: "string list"
  pv1_options :: "(string \<times> js_value) list"
  pv1_credentials :: "(string list \<times> nat) option"
  pv1_enabled :: bool

definition savedCredentialKeys :: "(string \<times> js_value) list option \<Rightarrow> string list" where
  "savedCredentialKeys credentials = sort (map fst (filter (\<lambda>(k, v). v \<noteq> JUndefined \<and> v \<noteq> JNull) (nullish credentials)))"

definition toDnsProviderV1 :: "DnsProvider \<Rightarrow> DnsProviderV1" where
  "toDnsProviderV1 p =
     (let keys = savedCredentialKeys (pv_credentials p)
      in \<lparr>pv1_uid = pv_uid p, pv1_type = pv_type p, pv1_zones = pv_zones p, pv1_options = pv_options p,
          pv1_credentials = (if keys \<noteq> [] then Some (keys, case pv_credentialsGeneration p of None \<Rightarrow> 0 | Some g \<Rightarrow> g) else None),
          pv1_enabled = pv_enabled p\<rparr>)"

datatype DnsOperationType = OTest | OTakeover | ORestore

datatype DnsOperationState = OQueued | ORunning | OSucceeded | OFailed

text \<open>An unset endpoint set, domain or administrator is empty.\<close>

record DnsOperation =
  op_uid :: string
  op_type :: DnsOperationType
  op_providerUid :: string
  op_endpointSetId :: string
  op_records :: "DnsRecordV1 list option"
  op_state :: DnsOperationState
  op_requestedBy :: string

record OperationV1 =
  ov_id :: string
  ov_type :: DnsOperationType
  ov_providerUid :: string
  ov_endpointSetId :: "string option"
  ov_records :: "DnsRecordV1 list option"

definition toOperationV1 :: "DnsOperation \<Rightarrow> OperationV1" where
  "toOperationV1 op =
     \<lparr>ov_id = op_uid op, ov_type = op_type op, ov_providerUid = op_providerUid op,
      ov_endpointSetId = (if op_endpointSetId op \<noteq> [] then Some (op_endpointSetId op) else None),
      ov_records = (case op_records op of None \<Rightarrow> None | Some rs \<Rightarrow> if rs \<noteq> [] then Some rs else None)\<rparr>"

definition underway_state :: "DnsOperation \<Rightarrow> bool" where
  "underway_state op \<longleftrightarrow> op_state op = OQueued \<or> op_state op = ORunning"

definition buildDomainEndpointSets ::
    "(string \<Rightarrow> string) \<Rightarrow> Domain list \<Rightarrow> DnsProvider list \<Rightarrow> DesiredDnsPublishContext \<Rightarrow> EndpointSetV1 list" where
  "buildDomainEndpointSets sha256 domains providers ctx =
     List.map_filter (\<lambda>domain.
       case domainProvider domain providers of
         None \<Rightarrow> None
       | Some provider \<Rightarrow>
           (let records = domainDnsRecordsV1 domain provider ctx None
            in if records \<noteq> []
               then Some \<lparr>es_id = domainEndpointSetId sha256 (dm_uid domain), es_providerUid = pv_uid provider,
                          es_domainUid = Some (dm_uid domain), es_records = records\<rparr>
               else None)) domains"

record DesiredStateInput =
  in_version :: nat
  in_ownerId :: string
  in_externalDnsImage :: string
  in_providers :: "DnsProvider list"
  in_domains :: "Domain list"
  in_operations :: "DnsOperation list"
  in_hosts :: "PublishHost list"
  in_addresses :: "string list"
  in_context :: DesiredDnsPublishContext

record DesiredStateV1 =
  st_version :: nat
  st_ownerId :: string
  st_externalDnsImage :: string
  st_providers :: "DnsProviderV1 list"
  st_endpointSets :: "EndpointSetV1 list"
  st_operations :: "OperationV1 list"

definition buildDesiredState :: "(string \<Rightarrow> string) \<Rightarrow> (string \<Rightarrow> nat) \<Rightarrow> DesiredStateInput \<Rightarrow> DesiredStateV1" where
  "buildDesiredState sha256 collate inp =
     (let sets = buildDomainEndpointSets sha256 (in_domains inp) (in_providers inp) (in_context inp);
          published = concat (map es_records sets);
          hostSets = fst (buildHostEndpointSets collate (in_hosts inp) (in_addresses inp) (in_providers inp) (in_context inp) published)
      in \<lparr>st_version = in_version inp, st_ownerId = in_ownerId inp, st_externalDnsImage = in_externalDnsImage inp,
          st_providers = map toDnsProviderV1 (in_providers inp), st_endpointSets = sets @ hostSets,
          st_operations = map toOperationV1 (filter underway_state (in_operations inp))\<rparr>)"

section \<open>Whether the hosts are published\<close>

record HostPublicationInput =
  hp_hosts :: "PublishHost list"
  hp_addresses :: "string list"
  hp_providers :: "DnsProvider list"
  hp_domains :: "Domain list"
  hp_context :: DesiredDnsPublishContext
  hp_resolver :: dns_resolver
  hp_ownerId :: string
  hp_observed :: "string \<Rightarrow> bool"

record DnsRecordPublication =
  rp_type :: string
  rp_name :: string
  rp_kind :: record_kind
  rp_state :: publication_state
  rp_manualReason :: "manual_host_reason option"
  rp_conflictReason :: "DnsConflictReason option"
  rp_existing :: "existing_record list option"
  rp_providerUid :: "string option"

definition HOST_TYPES :: "record_kind \<Rightarrow> string" where
  "HOST_TYPES k = (case k of K_A \<Rightarrow> ''host_a'' | K_AAAA \<Rightarrow> ''host_aaaa'' | _ \<Rightarrow> ''host_cname'')"

definition hostEndpointSets ::
    "(string \<Rightarrow> string) \<Rightarrow> (string \<Rightarrow> nat) \<Rightarrow> HostPublicationInput \<Rightarrow> EndpointSetV1 list \<times> ManualHost list" where
  "hostEndpointSets sha256 collate inp =
     buildHostEndpointSets collate (hp_hosts inp) (hp_addresses inp) (hp_providers inp) (hp_context inp)
       (concat (map es_records (buildDomainEndpointSets sha256 (hp_domains inp) (hp_providers inp) (hp_context inp))))"

definition liveValues :: "dns_resolver \<Rightarrow> record_kind \<Rightarrow> string \<Rightarrow> string list looked" where
  "liveValues rz kind name =
     (if kind = K_CNAME then l_bind (ask (rz_cname rz name)) (\<lambda>a. l_return (nullish a))
      else l_bind (ask (case rz_addresses rz of None \<Rightarrow> Inr [] | Some f \<Rightarrow> f name)) (\<lambda>a.
             l_return (filter (\<lambda>v. if kind = K_A then isIPv4 v else isIPv6 v) (nullish a))))"

definition manualKinds :: "PublishHost \<Rightarrow> string list \<Rightarrow> record_kind list" where
  "manualKinds host addresses =
     (if ph_type host = HCname then [K_CNAME] else if list_ex isIPv6 addresses then [K_A, K_AAAA] else [K_A])"

definition recordPublication :: "HostPublicationInput \<Rightarrow> EndpointSetV1 \<Rightarrow> DnsRecordV1 \<Rightarrow> DnsRecordPublication looked" where
  "recordPublication inp es r =
     (let kind = v1_recordType r;
          entry = \<lparr>rp_type = HOST_TYPES kind, rp_name = v1_dnsName r, rp_kind = kind, rp_state = Pending, rp_manualReason = None,
                   rp_conflictReason = None, rp_existing = None, rp_providerUid = Some (es_providerUid es)\<rparr>
      in l_bind (liveValues (hp_resolver inp) kind (v1_dnsName r)) (\<lambda>live.
         l_bind (judgeConflict (hp_resolver inp)
                   \<lparr>sj_kind = kind, sj_name = v1_dnsName r, sj_found = (live \<noteq> []), sj_ownerId = hp_ownerId inp, sj_checkCname = True\<rparr>) (\<lambda>judgement.
           l_return (case judgement of
                       Some (Conflict reason existing) \<Rightarrow>
                         entry\<lparr>rp_state := In_conflict, rp_conflictReason := Some reason, rp_existing := existing\<rparr>
                     | Some Replacing \<Rightarrow> entry
                     | None \<Rightarrow>
                         if live \<noteq> [] \<and> sameValues kind live (v1_targets r) \<and> hp_observed inp (es_id es) then entry\<lparr>rp_state := Published\<rparr> else entry))))"

definition host_publication ::
    "HostPublicationInput \<Rightarrow> (string \<Rightarrow> bool) \<Rightarrow> EndpointSetV1 list \<Rightarrow> ManualHost list \<Rightarrow> PublishHost \<Rightarrow> DnsRecordPublication list looked" where
  "host_publication inp only sets manual host =
     (case map_of manual (ph_name host) of
        Some reason \<Rightarrow>
          (let providerUid = (if reason = H_outside_zones then None else map_option pv_uid (providerForName (ph_name host) (hp_providers inp)))
           in l_return (map (\<lambda>kind. \<lparr>rp_type = HOST_TYPES kind, rp_name = ph_name host, rp_kind = kind, rp_state = Manual, rp_manualReason = Some reason,
                                      rp_conflictReason = None, rp_existing = None,
                                      rp_providerUid = (case providerUid of Some u \<Rightarrow> if u = [] then None else Some u | None \<Rightarrow> None)\<rparr>)
                        (manualKinds host (hp_addresses inp))))
      | None \<Rightarrow>
          l_map (\<lambda>(es, r). recordPublication inp es r)
            (concat (map (\<lambda>es. map (Pair es) (filter (\<lambda>r. v1_dnsName r = ph_name host) (es_records es)))
              (filter (\<lambda>es. only (es_providerUid es)) sets))))"

definition checkHostPublication ::
    "(string \<Rightarrow> string) \<Rightarrow> (string \<Rightarrow> nat) \<Rightarrow> HostPublicationInput \<Rightarrow> (string \<Rightarrow> bool) \<Rightarrow> DnsRecordPublication list looked" where
  "checkHostPublication sha256 collate inp only =
     (case hostEndpointSets sha256 collate inp of (sets, manual) \<Rightarrow>
        l_bind (l_map (host_publication inp only sets manual) (hp_hosts inp)) (\<lambda>groups. l_return (concat groups)))"

section \<open>Automatic takeovers\<close>

definition recordKey :: "DnsRecordV1 \<Rightarrow> string" where
  "recordKey r = js_join ''|'' (kind_text (v1_recordType r) # js_lower (v1_dnsName r) # sort (v1_targets r))"

text \<open>\<^verbatim>\<open>nameBasedUuid()\<close> of \<^verbatim>\<open>util/UuidUtils.ts\<close>, over bytes as numbers: the SHA-1 of the namespace and the name, with the version and the
  variant set.\<close>

definition uuid_namespace :: "nat list" where
  "uuid_namespace = [0x6f, 0x6f, 0x3a, 0x52, 0x2b, 0x0c, 0x4d, 0x5e, 0x9a, 0x0b, 0x6d, 0x61, 0x69, 0x6c, 0x66, 0x6c]"

definition byte_hex :: "nat \<Rightarrow> string" where
  "byte_hex b = [hex_digit (b div 16), hex_digit (b mod 16)]"

definition nameBasedUuid :: "(nat list \<Rightarrow> nat list) \<Rightarrow> string \<Rightarrow> string" where
  "nameBasedUuid sha1 name =
     (let bytes0 = take 16 (sha1 (uuid_namespace @ concat (map utf8_char name)));
          bytes1 = bytes0[6 := (bytes0 ! 6 mod 16) + 0x50];
          bytes = bytes1[8 := (bytes1 ! 8 mod 64) + 0x80];
          hex = concat (map byte_hex bytes)
      in take 8 hex @ ''-'' @ take 4 (drop 8 hex) @ ''-'' @ take 4 (drop 12 hex) @ ''-'' @ take 4 (drop 16 hex) @ ''-'' @ drop 20 hex)"

definition takeoverUid :: "(nat list \<Rightarrow> nat list) \<Rightarrow> string \<Rightarrow> string \<Rightarrow> DnsRecordV1 list \<Rightarrow> string" where
  "takeoverUid sha1 providerUid endpointSetId records =
     nameBasedUuid sha1 (''dns-takeover:'' @ providerUid @ '':'' @ endpointSetId @ '':'' @ js_join [CHR 10] (sort (map recordKey records)))"

record AutoTakeoverInput = HostPublicationInput +
  ti_operations :: "DnsOperation list"
  ti_acceptLegacyApex :: "bool option"
  ti_unchanged :: "string \<Rightarrow> string \<Rightarrow> bool"

record PlannedTakeover =
  pt_uid :: string
  pt_provider :: DnsProvider
  pt_domain :: "Domain option"
  pt_endpointSetId :: string
  pt_records :: "DnsRecordV1 list"

text \<open>The sets that hold a takeover back, and the record keys a takeover was queued for, by provider and set.\<close>

definition underway_sets :: "DnsOperation list \<Rightarrow> string list" where
  "underway_sets ops =
     uniq (map op_endpointSetId
       (filter (\<lambda>op. op_endpointSetId op \<noteq> [] \<and> (op_type op = OTakeover \<or> op_type op = ORestore) \<and> underway_state op) ops))"

definition taken_key :: "string \<Rightarrow> string \<Rightarrow> string" where
  "taken_key providerUid endpointSetId = providerUid @ ''/'' @ endpointSetId"

definition counts_as_taken :: "DnsOperation \<Rightarrow> bool" where
  "counts_as_taken op \<longleftrightarrow>
     op_endpointSetId op \<noteq> [] \<and> op_type op = OTakeover \<and> \<not> (op_state op = OFailed \<and> op_requestedBy op \<noteq> [])"

definition note_taken :: "(string \<times> string list) list \<Rightarrow> DnsOperation \<Rightarrow> (string \<times> string list) list" where
  "note_taken taken op =
     (if counts_as_taken op
      then (let key = taken_key (op_providerUid op) (op_endpointSetId op)
            in assign key (foldl set_add (nullish (map_of taken key)) (map recordKey (nullish (op_records op)))) taken)
      else taken)"

definition taken_records :: "DnsOperation list \<Rightarrow> (string \<times> string list) list" where
  "taken_records ops = foldl note_taken [] ops"

definition fresh_records :: "DnsOperation list \<Rightarrow> DnsProvider \<Rightarrow> string \<Rightarrow> DnsRecordV1 list \<Rightarrow> DnsRecordV1 list" where
  "fresh_records ops provider endpointSetId records =
     filter (\<lambda>r. recordKey r \<notin> set (nullish (map_of (taken_records ops) (taken_key (pv_uid provider) endpointSetId)))) records"

definition plan_records ::
    "(nat list \<Rightarrow> nat list) \<Rightarrow> DnsProvider \<Rightarrow> Domain option \<Rightarrow> string \<Rightarrow> DnsRecordV1 list \<Rightarrow> PlannedTakeover list" where
  "plan_records sha1 provider domain endpointSetId records =
     (if records = [] then []
      else [\<lparr>pt_uid = takeoverUid sha1 (pv_uid provider) endpointSetId records, pt_provider = provider, pt_domain = domain,
             pt_endpointSetId = endpointSetId, pt_records = records\<rparr>])"

text \<open>\<^verbatim>\<open>inChunks()\<close>: the items five at a time, the results in their order.\<close>

definition DOMAIN_CONCURRENCY :: nat where
  "DOMAIN_CONCURRENCY = 5"

function in_chunks :: "('a \<Rightarrow> 'b) \<Rightarrow> 'a list \<Rightarrow> 'b list" where
  "in_chunks work items =
     (if items = [] then [] else map work (take DOMAIN_CONCURRENCY items) @ in_chunks work (drop DOMAIN_CONCURRENCY items))"
  by auto

termination
  by (relation "measure (\<lambda>p. length (snd p))") (auto simp: DOMAIN_CONCURRENCY_def)

declare in_chunks.simps [simp del]

text \<open>What is planned, and what the caller is told of each set looked up: provider, set, and whether a takeover could be planned.\<close>

type_synonym takeover_round = "PlannedTakeover list \<times> (string \<times> string \<times> bool) list"

definition takeover_candidates :: "AutoTakeoverInput \<Rightarrow> DnsProvider list" where
  "takeover_candidates inp = filter (\<lambda>p. pv_allowTakeover p \<and> pv_enabled p) (hp_providers inp)"

definition plan_domain ::
    "(string \<Rightarrow> string) \<Rightarrow> (nat list \<Rightarrow> nat list) \<Rightarrow> AutoTakeoverInput \<Rightarrow> Domain \<Rightarrow> takeover_round" where
  "plan_domain sha256 sha1 inp domain =
     (let setId = domainEndpointSetId sha256 (dm_uid domain)
      in case domainProvider domain (takeover_candidates inp) of
           None \<Rightarrow> ([], [])
         | Some provider \<Rightarrow>
             if setId \<in> set (underway_sets (ti_operations inp)) \<or> \<not> hp_observed inp setId \<or> ti_unchanged inp (pv_uid provider) setId then ([], [])
             else (let (checks, failed) =
                         checkDnsSetup (hp_resolver inp) domain (DesiredDnsRecordContext.truncate (hp_context inp))
                           \<lparr>so_acceptLegacyApex = ti_acceptLegacyApex inp,
                            so_publication = Some \<lparr>sp_provider = Some provider, sp_observed = True, sp_ownerId = hp_ownerId inp\<rparr>\<rparr>;
                       types = map ck_type (filter (\<lambda>c. ck_publication c = Some In_conflict \<and> ck_conflictReason c = Some Not_owned \<and> ck_type c \<noteq> Spf) checks);
                       records = (if types \<noteq> [] then fresh_records (ti_operations inp) provider setId (domainDnsRecordsV1 domain provider (hp_context inp) (Some types)) else [])
                   in (plan_records sha1 provider (Some domain) setId records,
                       if failed then [] else [(pv_uid provider, setId, records \<noteq> [])])))"

definition plan_set ::
    "(nat list \<Rightarrow> nat list) \<Rightarrow> AutoTakeoverInput \<Rightarrow> DnsRecordPublication list \<Rightarrow> bool \<Rightarrow> EndpointSetV1 \<Rightarrow> takeover_round" where
  "plan_set sha1 inp publications failed es =
     (case List.find (\<lambda>p. pv_uid p = es_providerUid es) (takeover_candidates inp) of
        None \<Rightarrow> ([], [])
      | Some provider \<Rightarrow>
          (let inConflict = filter (\<lambda>e. rp_state e = In_conflict \<and> rp_conflictReason e = Some Not_owned \<and> rp_providerUid e = Some (es_providerUid es)) publications;
               records = filter (\<lambda>r. list_ex (\<lambda>e. rp_name e = v1_dnsName r \<and> rp_kind e = v1_recordType r) inConflict) (es_records es);
               untaken = fresh_records (ti_operations inp) provider (es_id es) records
           in (plan_records sha1 provider None (es_id es) untaken,
               if failed then [] else [(pv_uid provider, es_id es, untaken \<noteq> [])])))"

definition takeover_sets :: "(string \<Rightarrow> string) \<Rightarrow> (string \<Rightarrow> nat) \<Rightarrow> AutoTakeoverInput \<Rightarrow> EndpointSetV1 list" where
  "takeover_sets sha256 collate inp =
     filter (\<lambda>es. es_providerUid es \<in> set (map pv_uid (takeover_candidates inp)) \<and> es_id es \<notin> set (underway_sets (ti_operations inp)) \<and>
                  hp_observed inp (es_id es) \<and> \<not> ti_unchanged inp (es_providerUid es) (es_id es))
       (fst (hostEndpointSets sha256 collate (HostPublicationInput.truncate inp)))"

definition planAutomaticTakeovers ::
    "(string \<Rightarrow> string) \<Rightarrow> (string \<Rightarrow> nat) \<Rightarrow> (nat list \<Rightarrow> nat list) \<Rightarrow> AutoTakeoverInput \<Rightarrow> takeover_round" where
  "planAutomaticTakeovers sha256 collate sha1 inp =
     (if takeover_candidates inp = [] then ([], [])
      else (let planned = in_chunks (plan_domain sha256 sha1 inp) (hp_domains inp);
                sets = takeover_sets sha256 collate inp;
                hostPlans = (if sets = [] then []
                             else (case checkHostPublication sha256 collate (HostPublicationInput.truncate inp) (\<lambda>uid. uid \<in> set (map es_providerUid sets)) of
                                     (publications, failed) \<Rightarrow> map (plan_set sha1 inp publications failed) sets))
            in (concat (map fst planned) @ concat (map fst hostPlans), concat (map snd planned) @ concat (map snd hostPlans))))"

section \<open>What the desired state publishes\<close>

lemma foldl_max_gr: "(c :: int) < foldl max a xs \<longleftrightarrow> c < a \<or> (\<exists>x\<in>set xs. c < x)"
  by (induction xs arbitrary: a) (auto simp: less_max_iff_disj)

lemma zoneCoverage_covered: "zoneCoverage name zones > - 1 \<longleftrightarrow> isNameInZones name zones"
  by (auto simp: zoneCoverage_def foldl_max_gr isNameInZones_def list_ex_iff)

text \<open>The provider chosen for a name covers it, and no other covers it more specifically.\<close>

lemma better_provider_fold:
  assumes "foldl (better_provider name) best providers = (p, l)"
  shows "snd best \<le> l \<and> (\<forall>q\<in>set providers. zoneCoverage name (pv_zones q) \<le> l) \<and>
    ((p, l) = best \<or> (\<exists>q\<in>set providers. p = Some q \<and> l = zoneCoverage name (pv_zones q) \<and> l > snd best))"
  using assms
proof (induction providers arbitrary: best)
  case (Cons q providers)
  let ?best = "better_provider name best q"
  have step: "snd best \<le> snd ?best" "zoneCoverage name (pv_zones q) \<le> snd ?best"
      "?best = best \<or> (?best = (Some q, zoneCoverage name (pv_zones q)) \<and> zoneCoverage name (pv_zones q) > snd best)"
    by (auto simp: better_provider_def Let_def)
  have "snd ?best \<le> l \<and> (\<forall>q\<in>set providers. zoneCoverage name (pv_zones q) \<le> l) \<and>
    ((p, l) = ?best \<or> (\<exists>q\<in>set providers. p = Some q \<and> l = zoneCoverage name (pv_zones q) \<and> l > snd ?best))"
    using Cons by simp
  with step show ?case
    by fastforce
qed auto

lemma providerForName_best:
  assumes "providerForName name providers = Some p"
  shows "p \<in> set providers" "isNameInZones name (pv_zones p)"
    "\<forall>q\<in>set providers. zoneCoverage name (pv_zones q) \<le> zoneCoverage name (pv_zones p)"
proof -
  obtain l where "foldl (better_provider name) (None, - 1) providers = (Some p, l)"
    using assms by (cases "foldl (better_provider name) (None, - 1) providers") (auto simp: providerForName_def)
  from better_provider_fold [OF this] show "p \<in> set providers" "isNameInZones name (pv_zones p)"
    "\<forall>q\<in>set providers. zoneCoverage name (pv_zones q) \<le> zoneCoverage name (pv_zones p)"
    by (auto simp: zoneCoverage_covered [symmetric])
qed

lemma host_records_zone:
  assumes "host_records host addresses providers ctx = Inr (uid, records)" "r \<in> set records"
  shows "v1_recordType r \<in> {K_A, K_AAAA, K_CNAME} \<and> (\<exists>p\<in>set providers. pv_uid p = uid \<and> isNameInZones (v1_dnsName r) (pv_zones p))"
proof -
  obtain p where p: "providerForName (ph_name host) providers = Some p"
    using assms(1) by (cases "providerForName (ph_name host) providers") (auto simp: host_records_def)
  then have "uid = pv_uid p" "v1_dnsName r = ph_name host" "v1_recordType r \<in> {K_A, K_AAAA, K_CNAME}"
    using assms by (auto simp: host_records_def Let_def split: host_type.splits if_splits option.splits)
  with providerForName_best [OF p] show ?thesis
    by auto
qed

text \<open>Every record collected for a provider lies in its zones and collides with nothing published before.\<close>

definition host_sets_ok :: "DnsProvider list \<Rightarrow> DnsRecordV1 list \<Rightarrow> (string \<times> DnsRecordV1 list) list \<Rightarrow> bool" where
  "host_sets_ok providers published sets \<longleftrightarrow>
     distinct (map fst sets) \<and>
     (\<forall>uid records r. (uid, records) \<in> set sets \<longrightarrow> r \<in> set records \<longrightarrow> \<not> collides r published \<and> v1_recordType r \<in> {K_A, K_AAAA, K_CNAME} \<and>
        (\<exists>p\<in>set providers. pv_uid p = uid \<and> isNameInZones (v1_dnsName r) (pv_zones p)))"

lemma set_assign: "distinct (map fst m) \<Longrightarrow> set (assign k v m) = insert (k, v) {e \<in> set m. fst e \<noteq> k}"
  by (induction m) force+

lemma fst_assign: "map fst (assign k v m) = (if k \<in> fst ` set m then map fst m else map fst m @ [k])"
  by (induction m) (auto, force)

lemma add_host_ok:
  assumes "host_sets_ok providers published (fst acc)"
  shows "host_sets_ok providers published (fst (add_host addresses providers ctx published acc host))"
proof (cases "host_records host addresses providers ctx")
  case (Inl reason)
  then show ?thesis
    using assms by (simp add: add_host_def)
next
  case (Inr w)
  obtain uid wanted where w: "w = (uid, wanted)"
    by fastforce
  let ?old = "nullish (map_of (fst acc) uid)" and ?new = "filter (\<lambda>r. \<not> collides r published) wanted"
  have d: "distinct (map fst (fst acc))"
    using assms by (simp add: host_sets_ok_def)
  have old: "\<not> collides r published \<and> v1_recordType r \<in> {K_A, K_AAAA, K_CNAME} \<and> (\<exists>p\<in>set providers. pv_uid p = uid \<and> isNameInZones (v1_dnsName r) (pv_zones p))" if r: "r \<in> set ?old" for r
  proof -
    obtain rs where "map_of (fst acc) uid = Some rs" "r \<in> set rs"
      using r by (cases "map_of (fst acc) uid") auto
    then show ?thesis
      using assms map_of_SomeD [of "fst acc" uid rs] unfolding host_sets_ok_def by blast
  qed
  have new: "v1_recordType r \<in> {K_A, K_AAAA, K_CNAME} \<and> (\<exists>p\<in>set providers. pv_uid p = uid \<and> isNameInZones (v1_dnsName r) (pv_zones p))" if "r \<in> set ?new" for r
    using host_records_zone [of host addresses providers ctx uid wanted r] Inr w that by simp
  have keys: "distinct (map fst (assign uid (?old @ ?new) (fst acc)))"
    using d by (auto simp: fst_assign)
  have "(\<forall>r\<in>set records. \<not> collides r published \<and> v1_recordType r \<in> {K_A, K_AAAA, K_CNAME} \<and> (\<exists>p\<in>set providers. pv_uid p = u \<and> isNameInZones (v1_dnsName r) (pv_zones p)))"
    if "(u, records) \<in> set (assign uid (?old @ ?new) (fst acc))" for u records
  proof (cases "u = uid")
    case True
    then have "records = ?old @ ?new"
      using that unfolding set_assign [OF d] by simp
    then show ?thesis
      unfolding True using old new by auto
  next
    case False
    then have "(u, records) \<in> set (fst acc)"
      using that unfolding set_assign [OF d] by simp
    then show ?thesis
      using assms unfolding host_sets_ok_def by blast
  qed
  moreover have "fst (add_host addresses providers ctx published acc host) = assign uid (?old @ ?new) (fst acc)"
    by (simp add: add_host_def Inr w)
  ultimately show ?thesis
    using keys unfolding host_sets_ok_def by (simp only:) blast
qed

lemma buildHostEndpointSets_ok:
  assumes "es \<in> set (fst (buildHostEndpointSets collate hosts addresses providers ctx published))" "r \<in> set (es_records es)"
  shows "\<not> collides r published \<and> v1_recordType r \<in> {K_A, K_AAAA, K_CNAME} \<and> (\<exists>p\<in>set providers. pv_uid p = es_providerUid es \<and> isNameInZones (v1_dnsName r) (pv_zones p)) \<and>
    es_domainUid es = None"
proof -
  let ?acc = "foldl (add_host addresses providers ctx published) ([], []) hosts"
  have "host_sets_ok providers published (fst ?acc)"
  proof (induction hosts rule: rev_induct)
    case (snoc host hosts)
    then show ?case
      by (simp add: add_host_ok)
  qed (simp add: host_sets_ok_def)
  moreover obtain uid where "(uid, es_records es) \<in> set (fst ?acc)" "es_providerUid es = uid" "es_domainUid es = None"
    using assms(1) by (auto simp: buildHostEndpointSets_def Let_def split: prod.splits)
  ultimately show ?thesis
    using assms(2) unfolding host_sets_ok_def by blast
qed

lemma domainProvider_Some:
  "domainProvider domain providers = Some p \<Longrightarrow> p \<in> set providers \<and> pv_uid p = dm_dnsProviderUid domain"
  by (auto simp: domainProvider_def find_Some_iff split: option.splits if_splits)

lemma domain_set_records:
  assumes "es \<in> set (buildDomainEndpointSets sha256 domains providers ctx)"
  obtains domain p where "domain \<in> set domains" "domainProvider domain providers = Some p" "es_providerUid es = pv_uid p"
    "es_domainUid es = Some (dm_uid domain)" "es_id es = domainEndpointSetId sha256 (dm_uid domain)"
    "es_records es = domainDnsRecordsV1 domain p ctx None"
  using assms by (auto simp: buildDomainEndpointSets_def set_map_filter_iff Let_def split: option.splits if_splits)

lemma domainDnsRecordsV1_zone:
  "r \<in> set (domainDnsRecordsV1 domain p ctx types) \<Longrightarrow> isNameInZones (v1_dnsName r) (pv_zones p)"
  by (auto simp: domainDnsRecordsV1_def toRecordV1_def dnsManualReason_def split: if_splits)

text \<open>C22: Every record of the desired state lies in the zones of a provider with the uid its endpoint set names, and a record of the hosts' sets never
  competes with one of a domain: no shared name and type, and no CNAME next to another record.\<close>

theorem desired_state_sound:
  assumes "es \<in> set (st_endpointSets (buildDesiredState sha256 collate inp))" "r \<in> set (es_records es)"
  shows "(\<exists>p. p \<in> set (in_providers inp) \<and> pv_uid p = es_providerUid es \<and> isNameInZones (v1_dnsName r) (pv_zones p)) \<and>
    (es_domainUid es = None \<longrightarrow>
      \<not> collides r (concat (map es_records (filter (\<lambda>other. es_domainUid other \<noteq> None) (st_endpointSets (buildDesiredState sha256 collate inp))))))"
proof -
  let ?sets = "buildDomainEndpointSets sha256 (in_domains inp) (in_providers inp) (in_context inp)"
  let ?published = "concat (map es_records ?sets)"
  let ?hosts = "fst (buildHostEndpointSets collate (in_hosts inp) (in_addresses inp) (in_providers inp) (in_context inp) ?published)"
  have all: "st_endpointSets (buildDesiredState sha256 collate inp) = ?sets @ ?hosts"
    by (simp add: buildDesiredState_def Let_def)
  have hosts: "filter (\<lambda>other. es_domainUid other \<noteq> None) ?hosts = []"
    by (auto simp: filter_empty_conv buildHostEndpointSets_def Let_def split: prod.splits)
  have domains: "filter (\<lambda>other. es_domainUid other \<noteq> None) ?sets = ?sets"
    by (rule filter_True) (auto elim!: domain_set_records)
  show ?thesis
  proof (cases "es \<in> set ?sets")
    case True
    then obtain domain p where p: "domainProvider domain (in_providers inp) = Some p" "es_providerUid es = pv_uid p"
        "es_domainUid es = Some (dm_uid domain)" "es_records es = domainDnsRecordsV1 domain p (in_context inp) None"
      by (rule domain_set_records)
    then show ?thesis
      using domainProvider_Some [OF p(1)] domainDnsRecordsV1_zone [of r domain p "in_context inp" None] assms(2) by auto
  next
    case False
    then have "es \<in> set ?hosts"
      using assms(1) all by simp
    from buildHostEndpointSets_ok [OF this assms(2)] show ?thesis
      unfolding all filter_append hosts domains by auto
  qed
qed

section \<open>What is taken over\<close>

lemma in_chunks_map: "in_chunks f xs = map f xs"
proof (induction f xs rule: in_chunks.induct)
  case (1 f xs)
  then show ?case
    by (subst in_chunks.simps) (simp add: map_append [symmetric] del: map_append)
qed

lemma taken_records_iff:
  "k \<in> set (nullish (map_of (taken_records ops) key)) \<longleftrightarrow>
   (\<exists>op\<in>set ops. counts_as_taken op \<and> taken_key (op_providerUid op) (op_endpointSetId op) = key \<and> k \<in> recordKey ` set (nullish (op_records op)))"
proof (induction ops rule: rev_induct)
  case (snoc op ops)
  have "taken_records (ops @ [op]) = note_taken (taken_records ops) op"
    by (simp add: taken_records_def)
  with snoc show ?case
    by (auto simp: note_taken_def Let_def)
qed (simp add: taken_records_def)

lemma domainEndpointSetId_ne: "domainEndpointSetId sha256 uid \<noteq> []"
  by (simp add: domainEndpointSetId_def Let_def)

lemma dkim_types:
  "map dr_type (dkim_records domain) \<in> {[Dkim], [Dkim, Dkim_next], [Dkim, Dkim_previous], [Dkim, Dkim_next, Dkim_previous]}"
  by (simp add: dkim_records_def record_defs split: option.split)

lemma autodiscover_types: "map dr_type (autodiscover_records name host) \<in> {[], [Autodiscover_cname, Autodiscover_srv]}"
  by (simp add: autodiscover_records_def record_defs Let_def split: option.split)

lemma single_types:
  "dr_type (desired_record t k n vs) = t" "dr_type (unconfigured t k n) = t" "dr_type (spf_record domain) = Spf" "dr_type (dmarc_record domain) = Dmarc"
  by (simp_all add: record_defs spf_record_def dmarc_record_def Let_def split: option.split)

lemma desired_types_distinct: "distinct (map dr_type (buildDesiredDnsRecords domain ctx))"
proof -
  have "map dr_type (buildDesiredDnsRecords domain ctx) =
      [Ownership, Mx, Spf] @ map dr_type (dkim_records domain) @ [Dmarc, Openpgpkey_cname] @
      map dr_type (autodiscover_records (dm_name domain) (cx_autodiscoverHostname ctx))"
    by (simp add: buildDesiredDnsRecords_def Let_def single_types if_distrib [of dr_type] cong: if_cong)
  then show ?thesis
    using dkim_types [of domain] autodiscover_types [of "dm_name domain" "cx_autodiscoverHostname ctx"] by auto
qed

lemma desired_type_unique:
  assumes "d \<in> set (buildDesiredDnsRecords domain ctx)" "d' \<in> set (buildDesiredDnsRecords domain ctx)" "dr_type d = dr_type d'"
  shows "d = d'"
  using desired_types_distinct [of domain ctx] assms by (auto simp: distinct_map inj_on_def)

definition below_name :: "string \<Rightarrow> string \<Rightarrow> bool" where
  "below_name name n \<longleftrightarrow> (\<exists>p. p \<noteq> [] \<and> n = p @ name)"

lemma below_name_simps: "below_name name (c # p @ name)" "p \<noteq> [] \<Longrightarrow> below_name name (p @ name)" "\<not> below_name name name"
  unfolding below_name_def by (metis append_Cons list.distinct(1), blast, simp)

lemma dkim_names: "d \<in> set (dkim_records domain) \<Longrightarrow> dr_configured d \<Longrightarrow> below_name (dm_name domain) (dr_name d)"
  using below_name_simps(2) [of "s @ ''._domainkey.''" "dm_name domain" for s]
  by (auto simp: dkim_records_def record_defs split: option.splits if_splits)

lemma apex_txt_is_spf:
  assumes "d \<in> set (buildDesiredDnsRecords domain ctx)" "dr_name d = dm_name domain" "dr_kind d = K_TXT" "dr_configured d"
  shows "dr_type d = Spf"
proof -
  have "dr_type d = Spf \<or> dr_kind d \<noteq> K_TXT \<or> d \<in> set (dkim_records domain) \<or> d = dmarc_record domain \<or>
      d = desired_record Ownership K_TXT (buildVerificationRecordName (dm_name domain)) [buildVerificationTxtValue (dm_verificationToken domain)]"
    using assms(1) unfolding buildDesiredDnsRecords_def Let_def
    by (auto simp: single_types autodiscover_records_def record_defs Let_def split: if_splits option.splits)
  moreover have "below_name (dm_name domain) (dr_name (dmarc_record domain))"
    using below_name_simps(2) [of "''_dmarc.''" "dm_name domain"] by (simp add: dmarc_record_def record_defs)
  moreover have "below_name (dm_name domain) (buildVerificationRecordName (dm_name domain))"
    using below_name_simps(2) [of "''_rapidmx-verify.''" "dm_name domain"] by (simp add: buildVerificationRecordName_def)
  ultimately show ?thesis
    using assms dkim_names [of d domain] below_name_simps(3) by (auto simp: record_defs)
qed

lemma liveValues_at:
  "k \<in> {K_A, K_AAAA, K_CNAME} \<Longrightarrow> fst (liveValues rz k name) \<noteq> [] \<longleftrightarrow> values_at rz k name \<noteq> None \<and> values_at rz k name \<noteq> Some []"
  by (auto simp: liveValues_def values_at_def nullish_def split: option.splits)

lemma host_conflict:
  assumes "e \<in> set (fst (checkHostPublication sha256 collate inp only))" "rp_state e = In_conflict" "rp_conflictReason e = Some Not_owned"
  shows "values_at (hp_resolver inp) (rp_kind e) (rp_name e) \<noteq> None \<and> values_at (hp_resolver inp) (rp_kind e) (rp_name e) \<noteq> Some [] \<and>
    \<not> fst (isRecordOwned (hp_resolver inp) (rp_kind e) (rp_name e) (hp_ownerId inp))"
proof -
  obtain sets manual where sets: "hostEndpointSets sha256 collate inp = (sets, manual)"
    by fastforce
  then obtain host where "e \<in> set (fst (host_publication inp only sets manual host))"
    using assms(1) by (auto simp: checkHostPublication_def)
  then obtain es r where es: "es \<in> set sets" "r \<in> set (es_records es)" "e = fst (recordPublication inp es r)"
    using assms(2) by (auto simp: host_publication_def Let_def split: option.splits)
  let ?live = "fst (liveValues (hp_resolver inp) (v1_recordType r) (v1_dnsName r))"
  obtain existing where j: "fst (judgeConflict (hp_resolver inp)
      \<lparr>sj_kind = v1_recordType r, sj_name = v1_dnsName r, sj_found = (?live \<noteq> []), sj_ownerId = hp_ownerId inp, sj_checkCname = True\<rparr>) =
      Some (Conflict Not_owned existing)" and e: "rp_kind e = v1_recordType r" "rp_name e = v1_dnsName r"
    using es(3) assms(2,3) by (auto simp: recordPublication_def Let_def split: option.splits ConflictJudgement.splits if_splits)
  have "es \<in> set (fst (hostEndpointSets sha256 collate inp))"
    using es(1) sets by simp
  then have "v1_recordType r \<in> {K_A, K_AAAA, K_CNAME}"
    using buildHostEndpointSets_ok es(2) unfolding hostEndpointSets_def by blast
  with judgeConflict_not_owned [OF j] show ?thesis
    by (simp add: e liveValues_at)
qed

text \<open>The desired state of the same deployment.\<close>

definition deployment_sets :: "(string \<Rightarrow> string) \<Rightarrow> (string \<Rightarrow> nat) \<Rightarrow> AutoTakeoverInput \<Rightarrow> EndpointSetV1 list" where
  "deployment_sets sha256 collate inp =
     st_endpointSets (buildDesiredState sha256 collate
       \<lparr>in_version = 0, in_ownerId = hp_ownerId inp, in_externalDnsImage = [], in_providers = hp_providers inp, in_domains = hp_domains inp,
        in_operations = ti_operations inp, in_hosts = hp_hosts inp, in_addresses = hp_addresses inp, in_context = hp_context inp\<rparr>)"

lemma deployment_sets_eq:
  "deployment_sets sha256 collate inp =
   buildDomainEndpointSets sha256 (hp_domains inp) (hp_providers inp) (hp_context inp) @ fst (hostEndpointSets sha256 collate (HostPublicationInput.truncate inp))"
  by (simp add: deployment_sets_def buildDesiredState_def hostEndpointSets_def Let_def HostPublicationInput.truncate_def)

definition takeover_record_ok :: "(string \<Rightarrow> string) \<Rightarrow> (string \<Rightarrow> nat) \<Rightarrow> AutoTakeoverInput \<Rightarrow> PlannedTakeover \<Rightarrow> DnsRecordV1 \<Rightarrow> bool" where
  "takeover_record_ok sha256 collate inp pt r \<longleftrightarrow>
     values_at (hp_resolver inp) (v1_recordType r) (v1_dnsName r) \<notin> {None, Some []} \<and>
     \<not> fst (isRecordOwned (hp_resolver inp) (v1_recordType r) (v1_dnsName r) (hp_ownerId inp)) \<and>
     \<not> list_ex (\<lambda>op. op_type op = OTakeover \<and> \<not> (op_state op = OFailed \<and> op_requestedBy op \<noteq> []) \<and>
                     op_providerUid op = pv_uid (pt_provider pt) \<and> op_endpointSetId op = pt_endpointSetId pt \<and>
                     recordKey r \<in> recordKey ` set (nullish (op_records op))) (ti_operations inp) \<and>
     (case pt_domain pt of None \<Rightarrow> True | Some d \<Rightarrow> v1_dnsName r \<noteq> dm_name d \<or> v1_recordType r \<noteq> K_TXT) \<and>
     list_ex (\<lambda>es. es_id es = pt_endpointSetId pt \<and> es_providerUid es = pv_uid (pt_provider pt) \<and> r \<in> set (es_records es))
       (deployment_sets sha256 collate inp)"

definition takeover_ok :: "(string \<Rightarrow> string) \<Rightarrow> (string \<Rightarrow> nat) \<Rightarrow> AutoTakeoverInput \<Rightarrow> PlannedTakeover \<Rightarrow> bool" where
  "takeover_ok sha256 collate inp pt \<longleftrightarrow>
     pt_provider pt \<in> set (hp_providers inp) \<and> pv_allowTakeover (pt_provider pt) \<and> pv_enabled (pt_provider pt) \<and>
     hp_observed inp (pt_endpointSetId pt) \<and>
     \<not> list_ex (\<lambda>op. op_endpointSetId op = pt_endpointSetId pt \<and> op_type op \<noteq> OTest \<and> underway_state op) (ti_operations inp) \<and>
     pt_records pt \<noteq> [] \<and> list_all (takeover_record_ok sha256 collate inp pt) (pt_records pt)"

lemma not_underway:
  assumes "s \<notin> set (underway_sets ops)" "s \<noteq> []"
  shows "\<not> list_ex (\<lambda>op. op_endpointSetId op = s \<and> op_type op \<noteq> OTest \<and> underway_state op) ops"
proof
  assume "list_ex (\<lambda>op. op_endpointSetId op = s \<and> op_type op \<noteq> OTest \<and> underway_state op) ops"
  then obtain op where op: "op \<in> set ops" "op_endpointSetId op = s" "op_type op \<noteq> OTest" "underway_state op"
    by (auto simp: list_ex_iff)
  then have "op_type op = OTakeover \<or> op_type op = ORestore"
    by (cases "op_type op") auto
  with op assms show False
    by (auto simp: underway_sets_def)
qed

lemma not_taken:
  assumes "r \<in> set (fresh_records ops provider s records)" "s \<noteq> []"
  shows "r \<in> set records \<and>
    \<not> list_ex (\<lambda>op. op_type op = OTakeover \<and> \<not> (op_state op = OFailed \<and> op_requestedBy op \<noteq> []) \<and> op_providerUid op = pv_uid provider \<and> op_endpointSetId op = s \<and> recordKey r \<in> recordKey ` set (nullish (op_records op))) ops"
  using assms by (auto simp: fresh_records_def taken_records_iff list_ex_iff counts_as_taken_def)

lemma find_filter_uid:
  assumes "distinct (map f xs)" "List.find (\<lambda>x. f x = u) (filter q xs) = Some p"
  shows "List.find (\<lambda>x. f x = u) xs = Some p"
proof -
  have p: "p \<in> set xs" "f p = u"
    using assms(2) by (auto simp: find_Some_iff dest: nth_mem)
  then obtain y where y: "List.find (\<lambda>x. f x = u) xs = Some y"
    by (cases "List.find (\<lambda>x. f x = u) xs") (auto simp: find_None_iff)
  then have "y \<in> set xs" "f y = u"
    by (auto simp: find_Some_iff)
  with p assms(1) have "y = p"
    by (auto simp: distinct_map inj_on_def)
  with y show ?thesis
    by simp
qed

lemma domainProvider_candidate:
  assumes "distinct (map pv_uid (hp_providers inp))" "domainProvider domain (takeover_candidates inp) = Some p"
  shows "domainProvider domain (hp_providers inp) = Some p" "p \<in> set (hp_providers inp)" "pv_allowTakeover p" "pv_enabled p"
proof -
  show "p \<in> set (hp_providers inp)" "pv_allowTakeover p" "pv_enabled p"
    using domainProvider_Some [OF assms(2)] by (auto simp: takeover_candidates_def)
  have "List.find (\<lambda>q. pv_uid q = dm_dnsProviderUid domain) (takeover_candidates inp) = Some p" "dm_dnsProviderUid domain \<noteq> []"
      "isNameInZones (dm_name domain) (pv_zones p)"
    using assms(2) by (auto simp: domainProvider_def split: option.splits if_splits)
  then show "domainProvider domain (hp_providers inp) = Some p"
    using find_filter_uid [OF assms(1)] by (simp add: domainProvider_def takeover_candidates_def)
qed

text \<open>A record planned for a domain belongs to a conflict found by its check.\<close>

lemma domain_record_conflict:
  assumes "r \<in> set (domainDnsRecordsV1 domain provider ctx (Some types))"
    and types: "types = map ck_type (filter (\<lambda>c. ck_publication c = Some In_conflict \<and> ck_conflictReason c = Some Not_owned \<and> ck_type c \<noteq> Spf)
        (fst (checkDnsSetup rz domain (DesiredDnsRecordContext.truncate ctx) options)))"
    and pub: "so_publication options = Some pub"
  shows "values_at rz (v1_recordType r) (v1_dnsName r) \<notin> {None, Some []} \<and>
    \<not> fst (isRecordOwned rz (v1_recordType r) (v1_dnsName r) (sp_ownerId pub)) \<and>
    (v1_dnsName r \<noteq> dm_name domain \<or> v1_recordType r \<noteq> K_TXT)"
proof -
  let ?ctx = "DesiredDnsRecordContext.truncate ctx"
  obtain d where d: "d \<in> set (buildDesiredDnsRecords domain ?ctx)" "dr_configured d" "dr_type d \<in> set types"
      and r: "v1_recordType r = dr_kind d" "v1_dnsName r = dr_name d"
    using assms(1) by (auto simp: domainDnsRecordsV1_def toRecordV1_def)
  then obtain c where c: "c \<in> set (fst (checkDnsSetup rz domain ?ctx options))" "ck_publication c = Some In_conflict"
      "ck_conflictReason c = Some Not_owned" "ck_type c \<noteq> Spf" "dr_type d = ck_type c"
    using types by auto
  obtain d' where d': "d' \<in> set (buildDesiredDnsRecords domain ?ctx)" "dr_type d' = ck_type c"
      "values_at rz (dr_kind d') (dr_name d') \<noteq> None" "values_at rz (dr_kind d') (dr_name d') \<noteq> Some []"
      "\<not> fst (isRecordOwned rz (dr_kind d') (dr_name d') (sp_ownerId pub))"
    using not_owned_is_live [OF c(1) pub] c(2,3) by (metis option.distinct(1))
  have "d' = d"
    using desired_type_unique [OF d'(1) d(1)] d'(2) c(5) by simp
  then show ?thesis
    using d' apex_txt_is_spf [OF d(1) _ _ d(2)] c(4,5) by (auto simp: r)
qed

lemma plan_recordsD: "pt \<in> set (plan_records sha1 provider domain s records) \<Longrightarrow>
    records \<noteq> [] \<and> pt_provider pt = provider \<and> pt_domain pt = domain \<and> pt_endpointSetId pt = s \<and> pt_records pt = records"
  by (auto simp: plan_records_def split: if_splits)

lemma plan_domain_ok:
  assumes "distinct (map pv_uid (hp_providers inp))" "domain \<in> set (hp_domains inp)" "pt \<in> set (fst (plan_domain sha256 sha1 inp domain))"
  shows "takeover_ok sha256 collate inp pt"
proof -
  let ?s = "domainEndpointSetId sha256 (dm_uid domain)"
  obtain provider where p: "domainProvider domain (takeover_candidates inp) = Some provider"
    using assms(3) by (cases "domainProvider domain (takeover_candidates inp)") (auto simp: plan_domain_def Let_def)
  let ?options = "\<lparr>so_acceptLegacyApex = ti_acceptLegacyApex inp,
      so_publication = Some \<lparr>sp_provider = Some provider, sp_observed = True, sp_ownerId = hp_ownerId inp\<rparr>\<rparr>"
  define types where "types = map ck_type (filter (\<lambda>c. ck_publication c = Some In_conflict \<and> ck_conflictReason c = Some Not_owned \<and> ck_type c \<noteq> Spf)
        (fst (checkDnsSetup (hp_resolver inp) domain (DesiredDnsRecordContext.truncate (hp_context inp)) ?options)))"
  have guards: "?s \<notin> set (underway_sets (ti_operations inp))" "hp_observed inp ?s"
    using assms(3) p by (auto simp: plan_domain_def Let_def split: if_splits)
  let ?records = "fresh_records (ti_operations inp) provider ?s (domainDnsRecordsV1 domain provider (hp_context inp) (Some types))"
  have "pt \<in> set (plan_records sha1 provider (Some domain) ?s (if types \<noteq> [] then ?records else []))"
    using assms(3) p guards unfolding types_def by (auto simp: plan_domain_def Let_def case_prod_beta split: if_splits)
  from plan_recordsD [OF this] have pt: "?records \<noteq> []" "pt_provider pt = provider" "pt_domain pt = Some domain" "pt_endpointSetId pt = ?s"
      "pt_records pt = ?records"
    by (auto split: if_splits)
  note cand = domainProvider_candidate [OF assms(1) p]
  have published: "r \<in> set (domainDnsRecordsV1 domain provider (hp_context inp) None)"
    if "r \<in> set (domainDnsRecordsV1 domain provider (hp_context inp) (Some types))" for r
    using that by (auto simp: domainDnsRecordsV1_def)
  have "takeover_record_ok sha256 collate inp pt r" if "r \<in> set ?records" for r
  proof -
    have fresh: "r \<in> set (domainDnsRecordsV1 domain provider (hp_context inp) (Some types))"
        "\<not> list_ex (\<lambda>op. op_type op = OTakeover \<and> \<not> (op_state op = OFailed \<and> op_requestedBy op \<noteq> []) \<and> op_providerUid op = pv_uid provider \<and> op_endpointSetId op = ?s \<and>
           recordKey r \<in> recordKey ` set (nullish (op_records op))) (ti_operations inp)"
      using not_taken [OF that domainEndpointSetId_ne] by auto
    let ?es = "\<lparr>es_id = ?s, es_providerUid = pv_uid provider, es_domainUid = Some (dm_uid domain),
        es_records = domainDnsRecordsV1 domain provider (hp_context inp) None\<rparr>"
    have "?es \<in> set (buildDomainEndpointSets sha256 (hp_domains inp) (hp_providers inp) (hp_context inp))"
      using assms(2) cand(1) published [OF fresh(1)]
      unfolding buildDomainEndpointSets_def set_map_filter_iff by (intro bexI [of _ domain]) (auto simp: Let_def)
    then have "list_ex (\<lambda>es. es_id es = ?s \<and> es_providerUid es = pv_uid provider \<and> r \<in> set (es_records es)) (deployment_sets sha256 collate inp)"
      unfolding deployment_sets_eq list_ex_iff using published [OF fresh(1)] by (intro bexI [of _ ?es]) auto
    then show ?thesis
      using fresh domain_record_conflict [OF fresh(1) types_def, of "\<lparr>sp_provider = Some provider, sp_observed = True, sp_ownerId = hp_ownerId inp\<rparr>"]
      unfolding takeover_record_ok_def pt by simp
  qed
  then show ?thesis
    unfolding takeover_ok_def pt list_all_iff using pt(1) cand guards not_underway [OF guards(1) domainEndpointSetId_ne] by blast
qed

lemma plan_set_ok:
  assumes "es \<in> set (takeover_sets sha256 collate inp)"
    "pt \<in> set (fst (plan_set sha1 inp (fst (checkHostPublication sha256 collate (HostPublicationInput.truncate inp) only)) failed es))"
  shows "takeover_ok sha256 collate inp pt"
proof -
  let ?pubs = "fst (checkHostPublication sha256 collate (HostPublicationInput.truncate inp) only)"
  have es: "es_id es \<notin> set (underway_sets (ti_operations inp))" "hp_observed inp (es_id es)"
      "es \<in> set (fst (hostEndpointSets sha256 collate (HostPublicationInput.truncate inp)))"
    using assms(1) by (auto simp: takeover_sets_def)
  obtain provider where p: "List.find (\<lambda>p. pv_uid p = es_providerUid es) (takeover_candidates inp) = Some provider"
    using assms(2) by (cases "List.find (\<lambda>p. pv_uid p = es_providerUid es) (takeover_candidates inp)") (auto simp: plan_set_def)
  have provider: "provider \<in> set (hp_providers inp)" "pv_allowTakeover provider" "pv_enabled provider" "es_providerUid es = pv_uid provider"
    using p by (auto simp: find_Some_iff takeover_candidates_def dest!: nth_mem)
  define inConflict where "inConflict = filter (\<lambda>e. rp_state e = In_conflict \<and> rp_conflictReason e = Some Not_owned \<and> rp_providerUid e = Some (es_providerUid es)) ?pubs"
  let ?records = "fresh_records (ti_operations inp) provider (es_id es)
      (filter (\<lambda>r. list_ex (\<lambda>e. rp_name e = v1_dnsName r \<and> rp_kind e = v1_recordType r) inConflict) (es_records es))"
  have "pt \<in> set (plan_records sha1 provider None (es_id es) ?records)"
    using assms(2) p unfolding inConflict_def by (simp add: plan_set_def Let_def)
  from plan_recordsD [OF this] have pt: "?records \<noteq> []" "pt_provider pt = provider" "pt_domain pt = None" "pt_endpointSetId pt = es_id es"
      "pt_records pt = ?records"
    by auto
  have ne: "es_id es \<noteq> []"
    using es(3) by (auto simp: hostEndpointSets_def buildHostEndpointSets_def hostsEndpointSetId_def Let_def split: prod.splits)
  have "takeover_record_ok sha256 collate inp pt r" if "r \<in> set ?records" for r
  proof -
    have fresh: "r \<in> set (es_records es)" "list_ex (\<lambda>e. rp_name e = v1_dnsName r \<and> rp_kind e = v1_recordType r) inConflict"
        "\<not> list_ex (\<lambda>op. op_type op = OTakeover \<and> \<not> (op_state op = OFailed \<and> op_requestedBy op \<noteq> []) \<and> op_providerUid op = pv_uid provider \<and> op_endpointSetId op = es_id es \<and>
           recordKey r \<in> recordKey ` set (nullish (op_records op))) (ti_operations inp)"
      using not_taken [OF that ne] by auto
    obtain e where e: "e \<in> set ?pubs" "rp_state e = In_conflict" "rp_conflictReason e = Some Not_owned" "rp_name e = v1_dnsName r" "rp_kind e = v1_recordType r"
      using fresh(2) by (auto simp: list_ex_iff inConflict_def)
    have "list_ex (\<lambda>es'. es_id es' = es_id es \<and> es_providerUid es' = pv_uid provider \<and> r \<in> set (es_records es')) (deployment_sets sha256 collate inp)"
      unfolding deployment_sets_eq list_ex_iff using es(3) fresh(1) provider(4) by auto
    then show ?thesis
      using fresh(3) host_conflict [OF e(1-3)] unfolding takeover_record_ok_def pt e by (simp add: HostPublicationInput.truncate_def)
  qed
  then show ?thesis
    unfolding takeover_ok_def pt list_all_iff using pt(1) provider es not_underway [OF es(1) ne] by blast
qed

text \<open>C19: What the server takes over by itself. Every planned takeover is of a provider that is enabled and allows it, for an endpoint set external-dns has observed
  and no takeover or restore of which is queued or running. Each record in it is one the desired state publishes in that set; values of its type
  are live at its name and the registry record does not name this deployment; it is never the TXT set at the root of
  a domain; and no takeover of the same name, type and values was queued before, except a manual one that failed.\<close>

theorem automatic_takeover_safe:
  assumes "distinct (map pv_uid (hp_providers inp))" "pt \<in> set (fst (planAutomaticTakeovers sha256 collate sha1 inp))"
  shows "takeover_ok sha256 collate inp pt"
proof -
  let ?sets = "takeover_sets sha256 collate inp"
  let ?check = "checkHostPublication sha256 collate (HostPublicationInput.truncate inp) (\<lambda>uid. uid \<in> set (map es_providerUid ?sets))"
  consider (domain) domain where "domain \<in> set (hp_domains inp)" "pt \<in> set (fst (plan_domain sha256 sha1 inp domain))"
    | (hosts) es where "es \<in> set ?sets" "pt \<in> set (fst (plan_set sha1 inp (fst ?check) (snd ?check) es))"
    using assms(2) by (auto simp: planAutomaticTakeovers_def in_chunks_map Let_def case_prod_beta split: if_splits)
  then show ?thesis
    by cases (rule plan_domain_ok [OF assms(1)] plan_set_ok; assumption)+
qed

section \<open>An example\<close>

text \<open>A deployment whose hosts are its mail host and the \<^verbatim>\<open>openpgpkey\<close> alias, which its domain publishes itself.\<close>

definition example_takeover :: AutoTakeoverInput where
  "example_takeover =
     \<lparr>hp_hosts = [\<lparr>ph_name = ''mail.example.com'', ph_type = HAddress, ph_target = None\<rparr>,
                  \<lparr>ph_name = ''openpgpkey.example.com'', ph_type = HCname, ph_target = None\<rparr>],
      hp_addresses = [''203.0.113.5''], hp_providers = [example_dns_provider], hp_domains = [example_domain],
      hp_context = \<lparr>cx_mxHostname = ''mail.example.com'', cx_autodiscoverHostname = None, cx_ttl = 60\<rparr>,
      hp_resolver = example_resolver, hp_ownerId = ''rapidmx-1'', hp_observed = (\<lambda>_. True),
      ti_operations = [], ti_acceptLegacyApex = None, ti_unchanged = (\<lambda>_ _. False)\<rparr>"

abbreviation example_round :: takeover_round where
  "example_round \<equiv> planAutomaticTakeovers (\<lambda>_. ''00000000'') length (\<lambda>_. replicate 20 0) example_takeover"

lemma example_provider_chosen: "domainProvider example_domain [example_dns_provider] = Some example_dns_provider"
  by (simp add: domainProvider_def example_domain_def example_dns_provider_def isNameInZones_def dnsName_def drop_final_dot_def js_lower_def js_lower_char_def Let_def)

lemma example_context_eq: "DesiredDnsRecordContext.truncate (hp_context example_takeover) = example_context"
  by (simp add: example_takeover_def example_context_def DesiredDnsRecordContext.truncate_def)

lemma example_openpgpkey_v1:
  "(case types of None \<Rightarrow> True | Some ts \<Rightarrow> Openpgpkey_cname \<in> set ts) \<Longrightarrow>
   toRecordV1 example_openpgpkey 120 \<in> set (domainDnsRecordsV1 example_domain example_dns_provider (hp_context example_takeover) types)"
proof -
  assume types: "case types of None \<Rightarrow> True | Some ts \<Rightarrow> Openpgpkey_cname \<in> set ts"
  have "example_openpgpkey \<in> set (buildDesiredDnsRecords example_domain example_context)"
    using example_desired by simp
  moreover have "dnsManualReason example_openpgpkey example_domain (Some example_dns_provider) = None" "dr_configured example_openpgpkey"
      "dr_type example_openpgpkey = Openpgpkey_cname"
    by (simp_all add: dnsManualReason_def example_openpgpkey_def record_defs example_dns_provider_def isNameInZones_def dnsName_def drop_final_dot_def
        js_lower_def js_lower_char_def unsupportedRecordKinds_def suffix_def Let_def)
  moreover have "publishTtl (pv_type example_dns_provider) (cx_ttl (hp_context example_takeover)) = 120"
    by (simp add: publishTtl_def example_dns_provider_def example_takeover_def)
  ultimately show ?thesis
    using types unfolding domainDnsRecordsV1_def example_context_eq
    by (auto intro!: image_eqI [of _ _ example_openpgpkey] split: option.splits)
qed

lemma example_takeover_planned: "fst (plan_domain (\<lambda>_. ''00000000'') (\<lambda>_. replicate 20 0) example_takeover example_domain) \<noteq> []"
proof -
  let ?options = "\<lparr>so_acceptLegacyApex = ti_acceptLegacyApex example_takeover,
      so_publication = Some \<lparr>sp_provider = Some example_dns_provider, sp_observed = True, sp_ownerId = hp_ownerId example_takeover\<rparr>\<rparr>"
  have options: "?options = example_options"
    by (simp add: example_takeover_def example_options_def example_publication_def)
  let ?checks = "fst (checkDnsSetup example_resolver example_domain example_context example_options)"
  let ?types = "map ck_type (filter (\<lambda>c. ck_publication c = Some In_conflict \<and> ck_conflictReason c = Some Not_owned \<and> ck_type c \<noteq> Spf) ?checks)"
  let ?c = "fst (check_one example_resolver example_domain example_context example_options example_openpgpkey)"
  have "?c \<in> set ?checks"
    using example_desired by (auto simp: checkDnsSetup_def)
  then have types: "Openpgpkey_cname \<in> set ?types"
    using example_checks(3-5) by force
  then have ne: "?types \<noteq> []"
    by (metis empty_iff list.set(1))
  have "toRecordV1 example_openpgpkey 120 \<in> set (domainDnsRecordsV1 example_domain example_dns_provider (hp_context example_takeover) (Some ?types))"
    using example_openpgpkey_v1 [of "Some ?types"] types by (simp only: option.case)
  then have "domainDnsRecordsV1 example_domain example_dns_provider (hp_context example_takeover) (Some ?types) \<noteq> []"
    by auto
  moreover have "takeover_candidates example_takeover = [example_dns_provider]" "ti_operations example_takeover = []"
      "hp_resolver example_takeover = example_resolver" "hp_observed example_takeover = (\<lambda>_. True)" "ti_unchanged example_takeover = (\<lambda>_ _. False)"
    by (simp_all add: takeover_candidates_def example_takeover_def example_dns_provider_def)
  ultimately show ?thesis
    using ne by (simp add: plan_domain_def Let_def case_prod_beta example_provider_chosen example_context_eq options fresh_records_def taken_records_def
        underway_sets_def uniq_def plan_records_def)
qed

theorem automatic_takeover_safe_witness:
  "\<exists>pt. pt \<in> set (fst example_round) \<and> takeover_ok (\<lambda>_. ''00000000'') length example_takeover pt"
proof -
  have "takeover_candidates example_takeover \<noteq> []" "example_domain \<in> set (hp_domains example_takeover)"
    by (simp_all add: takeover_candidates_def example_takeover_def example_dns_provider_def)
  then have "set (fst (plan_domain (\<lambda>_. ''00000000'') (\<lambda>_. replicate 20 0) example_takeover example_domain)) \<subseteq> set (fst example_round)"
    by (auto simp: planAutomaticTakeovers_def in_chunks_map Let_def)
  then obtain pt where pt: "pt \<in> set (fst example_round)"
    using example_takeover_planned by fastforce
  have "distinct (map pv_uid (hp_providers example_takeover))"
    by (simp add: example_takeover_def)
  from automatic_takeover_safe [OF this pt] pt show ?thesis
    by blast
qed

definition example_state_input :: DesiredStateInput where
  "example_state_input =
     \<lparr>in_version = 1, in_ownerId = ''rapidmx-1'', in_externalDnsImage = ''external-dns'', in_providers = [example_dns_provider],
      in_domains = [example_domain], in_operations = [], in_hosts = hp_hosts example_takeover, in_addresses = [''203.0.113.5''],
      in_context = hp_context example_takeover\<rparr>"

abbreviation example_sets :: "EndpointSetV1 list" where
  "example_sets \<equiv> st_endpointSets (buildDesiredState (\<lambda>_. ''00000000'') length example_state_input)"

theorem desired_state_sound_witness:
  "\<exists>es p. es \<in> set example_sets \<and> p \<in> set (in_providers example_state_input) \<and> pv_uid p = es_providerUid es \<and>
    isNameInZones ''openpgpkey.example.com'' (pv_zones p)"
proof -
  let ?r = "toRecordV1 example_openpgpkey 120"
  have r: "?r \<in> set (domainDnsRecordsV1 example_domain example_dns_provider (hp_context example_takeover) None)"
    using example_openpgpkey_v1 [of None] by simp
  then have "\<exists>es. es \<in> set (buildDomainEndpointSets (\<lambda>_. ''00000000'') [example_domain] [example_dns_provider] (hp_context example_takeover)) \<and>
      ?r \<in> set (es_records es)"
    by (auto simp: buildDomainEndpointSets_def set_map_filter_iff example_provider_chosen Let_def)
  then obtain es where es: "es \<in> set example_sets" "?r \<in> set (es_records es)"
    by (auto simp: buildDesiredState_def Let_def example_state_input_def)
  have "v1_dnsName ?r = ''openpgpkey.example.com''"
    by (simp add: toRecordV1_def example_openpgpkey_def record_defs)
  with desired_state_sound [OF es] es(1) show ?thesis
    by auto
qed

end
