(* ===== verification/Json_Parse.thy ===== *)
theory Json_Parse
  imports Json_Text
begin

text \<open>
  \<^verbatim>\<open>JSON.parse(text)\<close> and \<^verbatim>\<open>JSON.stringify(value, null, 2)\<close>, which the keyring and the sealed configuration
  values are read and written with. The parser follows the grammar of ECMA-404 on texts of the code units below
  256: a \<^verbatim>\<open>\u\<close> escape beyond them and a number with a fraction or an exponent are outside the values of the model
  and are refused like a syntax error; neither is ever written by the printers. The nesting is bounded by fuel; \<open>fuel_enough\<close>
  shows that the fuel \<open>json_parse\<close> starts with never runs out. \<open>pretty_roundtrip\<close> says that a printed value is read back.
\<close>

section \<open>Reading\<close>

definition json_ws :: "char \<Rightarrow> bool" where
  "json_ws c \<longleftrightarrow> (of_char c :: nat) \<in> {9, 10, 13, 32}"

text \<open>The character of a four-digit escape, and of a one-letter escape.\<close>

definition unicode_escape :: "char \<Rightarrow> char \<Rightarrow> char \<Rightarrow> char \<Rightarrow> char option" where
  "unicode_escape a b c d =
     (case (hex_value a, hex_value b, hex_value c, hex_value d) of
        (Some w, Some x, Some y, Some z) \<Rightarrow> (if w = 0 \<and> x = 0 then Some (char_of (16 * y + z)) else None)
      | _ \<Rightarrow> None)"

definition letter_escape :: "char \<Rightarrow> char option" where
  "letter_escape c =
     (if c \<in> {CHR 0x22, CHR 0x5C, CHR ''/''} then Some c
      else if c = CHR ''b'' then Some (CHR 0x08)
      else if c = CHR ''f'' then Some (CHR 0x0C)
      else if c = CHR ''n'' then Some (CHR 0x0A)
      else if c = CHR ''r'' then Some (CHR 0x0D)
      else if c = CHR ''t'' then Some (CHR 0x09)
      else None)"

definition add_char :: "char option \<Rightarrow> (string \<times> string) option \<Rightarrow> (string \<times> string) option" where
  "add_char c r = (case (c, r) of (Some x, Some (s, t)) \<Rightarrow> Some (x # s, t) | _ \<Rightarrow> None)"

text \<open>A string from behind its opening quote: its characters and what follows the closing quote.\<close>

fun parse_escape :: "string \<Rightarrow> (char option \<times> string)" where
  "parse_escape (CHR ''u'' # a # b # c # d # s) = (unicode_escape a b c d, s)"
| "parse_escape (c # s) = (letter_escape c, s)"
| "parse_escape [] = (None, [])"

lemma parse_escape_length: "length (snd (parse_escape s)) \<le> length s"
  by (induction s rule: parse_escape.induct) simp_all

function parse_chars :: "string \<Rightarrow> (string \<times> string) option" where
  "parse_chars s =
     (case s of
        [] \<Rightarrow> None
      | c # t \<Rightarrow>
          if c = CHR 0x22 then Some ([], t)
          else if c = CHR 0x5C then add_char (fst (parse_escape t)) (parse_chars (snd (parse_escape t)))
          else if (of_char c :: nat) < 32 then None
          else add_char (Some c) (parse_chars t))"
  by auto
termination
  by (relation "measure length") (auto simp: le_imp_less_Suc parse_escape_length)

declare parse_chars.simps [simp del]

definition parse_number :: "string \<Rightarrow> (js_value \<times> string) option" where
  "parse_number s =
     (let minus = (s \<noteq> [] \<and> hd s = CHR ''-''); t = (if minus then tl s else s);
          ds = takeWhile is_digit t; n = int (read_digits ds)
      in if ds = [] \<or> (hd ds = CHR ''0'' \<and> tl ds \<noteq> []) then None
         else Some (JNum (if minus then - n else n), dropWhile is_digit t))"

definition parse_literal :: "string \<Rightarrow> (js_value \<times> string) option" where
  "parse_literal s =
     (if prefix ''true'' s then Some (JBool True, drop 4 s)
      else if prefix ''false'' s then Some (JBool False, drop 5 s)
      else if prefix ''null'' s then Some (JNull, drop 4 s)
      else None)"

text \<open>Defining a property of an object: an existing one keeps its place and takes the new value.\<close>

fun obj_set :: "(string \<times> js_value) list \<Rightarrow> string \<Rightarrow> js_value \<Rightarrow> (string \<times> js_value) list" where
  "obj_set [] k v = [(k, v)]"
| "obj_set ((k', v') # fs) k v = (if k' = k then (k, v) # fs else (k', v') # obj_set fs k v)"

text \<open>A value, the elements of an array and the members of an object, each with what follows; the last two from behind
  the opening bracket or a comma to behind the closing bracket.\<close>

fun parse_value :: "nat \<Rightarrow> string \<Rightarrow> (js_value \<times> string) option"
and parse_items :: "nat \<Rightarrow> string \<Rightarrow> (js_value list \<times> string) option"
and parse_members :: "nat \<Rightarrow> (string \<times> js_value) list \<Rightarrow> string \<Rightarrow> ((string \<times> js_value) list \<times> string) option" where
  "parse_value 0 s = None"
| "parse_value (Suc n) s =
     (case dropWhile json_ws s of
        [] \<Rightarrow> None
      | c # t \<Rightarrow>
          if c = CHR 0x22 then map_option (\<lambda>(x, r). (JStr x, r)) (parse_chars t)
          else if c = CHR ''['' then
            (case dropWhile json_ws t of
               [] \<Rightarrow> None
             | d # r \<Rightarrow> if d = CHR '']'' then Some (JArr [], r) else map_option (\<lambda>(vs, q). (JArr vs, q)) (parse_items n t))
          else if c = CHR ''{'' then
            (case dropWhile json_ws t of
               [] \<Rightarrow> None
             | d # r \<Rightarrow> if d = CHR ''}'' then Some (JObj [], r) else map_option (\<lambda>(fs, q). (JObj fs, q)) (parse_members n [] t))
          else if c = CHR ''-'' \<or> is_digit c then parse_number (c # t)
          else parse_literal (c # t))"
| "parse_items 0 s = None"
| "parse_items (Suc n) s =
     (case parse_value n s of
        None \<Rightarrow> None
      | Some (v, r) \<Rightarrow>
          (case dropWhile json_ws r of
             [] \<Rightarrow> None
           | c # t \<Rightarrow>
               if c = CHR '','' then map_option (\<lambda>(vs, q). (v # vs, q)) (parse_items n t)
               else if c = CHR '']'' then Some ([v], t)
               else None))"
| "parse_members 0 fs s = None"
| "parse_members (Suc n) fs s =
     (case dropWhile json_ws s of
        [] \<Rightarrow> None
      | c # t \<Rightarrow>
          if c \<noteq> CHR 0x22 then None
          else
            (case parse_chars t of
               None \<Rightarrow> None
             | Some (k, r) \<Rightarrow>
                 (case dropWhile json_ws r of
                    [] \<Rightarrow> None
                  | d # u \<Rightarrow>
                      if d \<noteq> CHR '':'' then None
                      else
                        (case parse_value n u of
                           None \<Rightarrow> None
                         | Some (v, q) \<Rightarrow>
                             (case dropWhile json_ws q of
                                [] \<Rightarrow> None
                              | e # w \<Rightarrow>
                                  if e = CHR '','' then parse_members n (obj_set fs k v) w
                                  else if e = CHR ''}'' then Some (obj_set fs k v, w)
                                  else None)))))"

definition json_parse :: "string \<Rightarrow> js_value option" where
  "json_parse s =
     (case parse_value (2 * length s + 1) s of
        None \<Rightarrow> None
      | Some (v, r) \<Rightarrow> if dropWhile json_ws r = [] then Some v else None)"

section \<open>Writing\<close>

definition blanks :: "nat \<Rightarrow> string" where
  "blanks n = CHR 0x0A # replicate n (CHR '' '')"

text \<open>\<open>k\<close> is the indentation of the line the value stands on.\<close>

fun json_pretty :: "nat \<Rightarrow> js_value \<Rightarrow> string option" where
  "json_pretty k (JArr vs) =
     Some (if vs = [] then ''[]''
           else ''['' @ js_join '','' (map (\<lambda>v. blanks (k + 2) @ (case json_pretty (k + 2) v of None \<Rightarrow> ''null'' | Some t \<Rightarrow> t)) vs) @
                blanks k @ '']'')"
| "json_pretty k (JObj fs) =
     (let ps = concat (map (\<lambda>(f, v). case json_pretty (k + 2) v of None \<Rightarrow> [] | Some t \<Rightarrow> [blanks (k + 2) @ json_quote f @ '': '' @ t]) fs)
      in Some (if ps = [] then ''{}'' else ''{'' @ js_join '','' ps @ blanks k @ ''}''))"
| "json_pretty k v = json_text v"

text \<open>A value JSON can hold as it is: nothing undefined in it, and no property twice.\<close>

fun plain_json :: "js_value \<Rightarrow> bool" where
  "plain_json JUndefined = False"
| "plain_json (JArr vs) = list_all plain_json vs"
| "plain_json (JObj fs) = (distinct (map fst fs) \<and> list_all (\<lambda>(f, v). plain_json v) fs)"
| "plain_json v = True"

section \<open>The fuel is enough\<close>

lemma add_char_Some: "add_char c r = Some (s, t) \<longleftrightarrow> (\<exists>x s'. c = Some x \<and> r = Some (s', t) \<and> s = x # s')"
  by (auto simp: add_char_def split: option.splits)

lemma parse_chars_length: "parse_chars s = Some (x, r) \<Longrightarrow> length r < length s"
proof (induction s arbitrary: x rule: parse_chars.induct)
  case (1 s)
  show ?case
  proof (cases s)
    case Nil
    with 1(3) show ?thesis by (simp add: parse_chars.simps [of "[]"])
  next
    case (Cons c t)
    consider (quote) "r = t"
      | (escape) x' where "c \<noteq> CHR 0x22" "c = CHR 0x5C" "parse_chars (snd (parse_escape t)) = Some (x', r)"
      | (plain) x' where "c \<noteq> CHR 0x22" "c \<noteq> CHR 0x5C" "\<not> (of_char c :: nat) < 32" "parse_chars t = Some (x', r)"
      using 1(3) Cons by (auto simp: parse_chars.simps [of "c # t"] add_char_Some split: if_splits)
    then show ?thesis
    proof cases
      case escape
      then show ?thesis
        using 1(1) [OF Cons escape] parse_escape_length [of t] Cons by simp
    next
      case plain
      then show ?thesis
        using 1(2) [OF Cons plain] Cons by simp
    qed (simp add: Cons)
  qed
qed

lemma parse_number_length: "parse_number s = Some (v, r) \<Longrightarrow> length r \<le> length s"
  using length_dropWhile_le [of is_digit s] length_dropWhile_le [of is_digit "tl s"]
  by (auto simp: parse_number_def Let_def split: if_splits)

lemma parse_literal_length: "parse_literal s = Some (v, r) \<Longrightarrow> length r \<le> length s"
  by (auto simp: parse_literal_def split: if_splits)

lemma ws_rest: "dropWhile json_ws s = c # t \<Longrightarrow> length t < length s"
  using length_dropWhile_le [of json_ws s] by simp

lemma parse_length:
  "parse_value n s = Some (v, r) \<Longrightarrow> length r \<le> length s"
  "parse_items n s = Some (vs, r) \<Longrightarrow> length r \<le> length s"
  "parse_members n fs s = Some (fs', r) \<Longrightarrow> length r \<le> length s"
proof (induction n s and n s and n fs s arbitrary: v r and vs r and fs' r rule: parse_value_parse_items_parse_members.induct)
  case (2 n s)
  show ?case
  proof (cases "dropWhile json_ws s")
    case (Cons c t)
    then have t: "length t < length s" by (rule ws_rest)
    have d: "length u < length t" if "dropWhile json_ws t = d # u" for d u
      using that by (rule ws_rest)
    consider (str) x where "parse_chars t = Some (x, r)"
      | (arr) d u where "dropWhile json_ws t = d # u" "r = u"
      | (items) d u vs where "c = CHR ''[''" "dropWhile json_ws t = d # u" "d \<noteq> CHR '']''" "parse_items n t = Some (vs, r)"
      | (members) d u fs where "c = CHR ''{''" "dropWhile json_ws t = d # u" "d \<noteq> CHR ''}''" "parse_members n [] t = Some (fs, r)"
      | (number) "parse_number (c # t) = Some (v, r)"
      | (lit) "parse_literal (c # t) = Some (v, r)"
      using 2(3) Cons by (auto simp del: dropWhile_eq_Nil_conv split: list.splits if_splits)
    then show ?thesis
    proof cases
      case str
      then show ?thesis using parse_chars_length [OF str] t by simp
    next
      case arr
      then show ?thesis using d t by simp
    next
      case items
      then show ?thesis using 2(1) [OF Cons] t by fastforce
    next
      case members
      then show ?thesis using 2(2) [OF Cons] t by fastforce
    next
      case number
      then show ?thesis using parse_number_length [OF number] t by simp
    next
      case lit
      then show ?thesis using parse_literal_length [OF lit] t by simp
    qed
  qed (use 2(3) in \<open>simp del: dropWhile_eq_Nil_conv\<close>)
next
  case (4 n s)
  obtain v q c t where v: "parse_value n s = Some (v, q)" "dropWhile json_ws q = c # t"
    and rest: "r = t \<or> (\<exists>us. c = CHR '','' \<and> parse_items n t = Some (us, r))"
    using 4(3) by (auto split: list.splits if_splits option.splits)
  have "length q \<le> length s" "length t < length q"
    using 4(1) v ws_rest by auto
  moreover have "length r \<le> length t"
    using rest 4(2) v by fastforce
  ultimately show ?case by simp
next
  case (6 n fs s)
  obtain c t k u d w v q e x where eqs: "dropWhile json_ws s = c # t" "c = CHR 0x22" "parse_chars t = Some (k, u)"
      "dropWhile json_ws u = d # w" "d = CHR '':''" "parse_value n w = Some (v, q)" "dropWhile json_ws q = e # x"
    and rest: "r = x \<or> (e = CHR '','' \<and> parse_members n (obj_set fs k v) x = Some (fs', r))"
    using 6(3) by (auto split: list.splits if_splits option.splits)
  have "length t < length s" "length u < length t" "length w < length u" "length x < length q"
    using eqs ws_rest parse_chars_length by auto
  moreover have "length q \<le> length w"
    using 6(1) eqs by fastforce
  moreover have "length r \<le> length x"
    using rest 6(2) eqs by fastforce
  ultimately show ?case by simp
qed simp_all

lemma fuel_steps:
  "(\<forall>m s. 2 * length s + 1 \<le> n \<and> n \<le> m \<longrightarrow> parse_value m s = parse_value n s) \<and>
   (\<forall>m s. 2 * length s + 2 \<le> n \<and> n \<le> m \<longrightarrow> parse_items m s = parse_items n s) \<and>
   (\<forall>m fs s. 2 * length s + 2 \<le> n \<and> n \<le> m \<longrightarrow> parse_members m fs s = parse_members n fs s)"
proof (induction n)
  case (Suc n)
  note [simp del] = dropWhile_eq_Nil_conv
  from Suc have IHv: "parse_value m s = parse_value n s" if "2 * length s + 1 \<le> n" "n \<le> m" for m s
    using that by blast
  from Suc have IHi: "parse_items m s = parse_items n s" if "2 * length s + 2 \<le> n" "n \<le> m" for m s
    using that by blast
  from Suc have IHm: "parse_members m fs s = parse_members n fs s" if "2 * length s + 2 \<le> n" "n \<le> m" for m fs s
    using that by blast
  have V: "parse_value (Suc m) s = parse_value (Suc n) s" if "2 * length s + 1 \<le> Suc n" "n \<le> m" for m s
  proof (cases "dropWhile json_ws s")
    case (Cons c t)
    with ws_rest [OF Cons] that have "parse_items m t = parse_items n t" "parse_members m [] t = parse_members n [] t"
      using IHi [of t m] IHm [of t m "[]"] by simp_all
    then show ?thesis
      by (cases "dropWhile json_ws t") (simp_all add: Cons)
  qed simp
  have I: "parse_items (Suc m) s = parse_items (Suc n) s" if "2 * length s + 2 \<le> Suc n" "n \<le> m" for m s
  proof (cases "parse_value n s")
    case (Some p)
    obtain v r where p: "p = (v, r)" by (cases p)
    have eq: "parse_value m s = Some (v, r)"
      using IHv [of s m] that Some p by simp
    show ?thesis
    proof (cases "dropWhile json_ws r")
      case (Cons c t)
      with ws_rest [OF Cons] that parse_length(1) [of n s v r] Some p show ?thesis
        using IHi [of t m] by (simp add: eq)
    qed (simp add: Some p eq)
  qed (use that IHv [of s m] in simp)
  have M: "parse_members (Suc m) fs s = parse_members (Suc n) fs s" if "2 * length s + 2 \<le> Suc n" "n \<le> m" for m fs s
  proof (cases "dropWhile json_ws s")
    case (Cons c t)
    have t: "length t < length s" by (rule ws_rest [OF Cons])
    show ?thesis
    proof (cases "parse_chars t")
      case (Some p)
      obtain k r where p: "p = (k, r)" by (cases p)
      show ?thesis
      proof (cases "dropWhile json_ws r")
        case r: (Cons d u)
        have u: "2 * length u + 4 \<le> n"
          using ws_rest [OF r] parse_chars_length [of t k r] t Some p that by simp
        then have eq: "parse_value m u = parse_value n u"
          using that IHv [of u m] by simp
        show ?thesis
        proof (cases "parse_value n u")
          case v: (Some q)
          obtain x w where q: "q = (x, w)" by (cases q)
          show ?thesis
          proof (cases "dropWhile json_ws w")
            case w: (Cons e y)
            with ws_rest [OF w] that u parse_length(1) [of n u x w] v q show ?thesis
              using IHm [of y m] by (simp add: Cons Some p r eq)
          qed (simp add: Cons Some p r eq v q)
        qed (simp add: Cons Some p r eq)
      qed (simp add: Cons Some p)
    qed (simp add: Cons)
  qed simp
  have pred: "\<exists>k. m = Suc k \<and> n \<le> k" if "Suc n \<le> m" for m
    using that by (cases m) simp_all
  show ?case
  proof (intro conjI allI impI; elim conjE)
    fix m and s :: string
    assume "2 * length s + 1 \<le> Suc n" "Suc n \<le> m"
    then show "parse_value m s = parse_value (Suc n) s"
      using pred V by blast
  next
    fix m and s :: string
    assume "2 * length s + 2 \<le> Suc n" "Suc n \<le> m"
    then show "parse_items m s = parse_items (Suc n) s"
      using pred I by blast
  next
    fix m fs and s :: string
    assume "2 * length s + 2 \<le> Suc n" "Suc n \<le> m"
    then show "parse_members m fs s = parse_members (Suc n) fs s"
      using pred M by blast
  qed
qed simp

text \<open>More fuel than \<^const>\<open>json_parse\<close> gives changes nothing: a refusal is a refusal of the text.\<close>

lemma fuel_enough: "2 * length s + 1 \<le> n \<Longrightarrow> parse_value n s = parse_value (2 * length s + 1) s"
  using fuel_steps [of "2 * length s + 1"] by blast

section \<open>What is printed is read back\<close>

lemma hex_digit_value: "d < 16 \<Longrightarrow> hex_value (hex_digit d) = Some d"
  by (auto simp: hex_digit_def hex_value_def Let_def)

lemma char_by_code: "of_char c = (of_char d :: nat) \<Longrightarrow> c = d"
  by simp

lemma parse_json_char: "parse_chars (json_char c @ t) = add_char (Some c) (parse_chars t)"
proof -
  let ?n = "of_char c :: nat"
  consider (quote) "?n = 34" | (slash) "?n = 92" | (letter) "?n \<in> {8, 12, 10, 13, 9}"
    | (control) "?n < 32" "?n \<notin> {8, 12, 10, 13, 9}" | (other) "32 \<le> ?n" "?n \<noteq> 34" "?n \<noteq> 92"
    by fastforce
  then show ?thesis
  proof cases
    case quote
    then have c: "c = CHR 0x22" by (intro char_by_code) simp
    show ?thesis
      by (simp add: c json_char_def parse_chars.simps [of "CHR 0x5C # _"] letter_escape_def)
  next
    case slash
    then have c: "c = CHR 0x5C" by (intro char_by_code) simp
    show ?thesis
      by (simp add: c json_char_def parse_chars.simps [of "CHR 0x5C # _"] letter_escape_def)
  next
    case letter
    then have "c \<in> {CHR 0x08, CHR 0x0C, CHR 0x0A, CHR 0x0D, CHR 0x09}"
      using char_by_code [of c "CHR 0x08"] char_by_code [of c "CHR 0x0C"] char_by_code [of c "CHR 0x0A"] char_by_code [of c "CHR 0x0D"]
        char_by_code [of c "CHR 0x09"] by auto
    then show ?thesis
      by (auto simp: json_char_def parse_chars.simps [of "CHR 0x5C # _"] letter_escape_def)
  next
    case control
    have "unicode_escape (CHR ''0'') (CHR ''0'') (hex_digit (?n div 16)) (hex_digit (?n mod 16)) = Some c"
      using control by (simp add: unicode_escape_def hex_digit_value) (simp add: hex_value_def)
    then show ?thesis
      using control by (simp add: json_char_def Let_def parse_chars.simps [of "CHR 0x5C # _"])
  next
    case other
    then have "c \<noteq> CHR 0x22" "c \<noteq> CHR 0x5C" by auto
    with other show ?thesis
      by (simp add: json_char_def parse_chars.simps [of "c # _"])
  qed
qed

lemma parse_json_quote: "parse_chars (concat (map json_char s) @ CHR 0x22 # r) = Some (s, r)"
  by (induction s) (simp_all add: parse_json_char add_char_Some parse_chars.simps [of "CHR 0x22 # _"])

lemma nat_text_hd: "0 < n \<Longrightarrow> hd (nat_text n) \<noteq> CHR ''0''"
proof (induction n rule: nat_text.induct)
  case (1 n)
  show ?case
  proof (cases "n < 10")
    case True
    with 1(2) have "of_char (hd (nat_text n)) = 48 + n"
      by (simp add: nat_text.simps [of n] of_digit_char)
    with 1(2) show ?thesis by auto
  next
    case False
    with 1 show ?thesis by (simp add: nat_text.simps [of n])
  qed
qed

lemma nat_text_0: "nat_text 0 = ''0''"
  by (simp add: nat_text.simps [of 0] digit_char_def char_of_eq_iff)

lemma span_digits:
  assumes "rest = [] \<or> \<not> is_digit (hd rest)"
  shows "takeWhile is_digit (nat_text n @ rest) = nat_text n" "dropWhile is_digit (nat_text n @ rest) = rest"
proof -
  have "\<forall>c\<in>set (nat_text n). is_digit c"
    using nat_text_digits by (auto simp: is_digit_def)
  moreover have "takeWhile is_digit rest = []" "dropWhile is_digit rest = rest"
    using assms by (cases rest; simp)+
  ultimately show "takeWhile is_digit (nat_text n @ rest) = nat_text n" "dropWhile is_digit (nat_text n @ rest) = rest"
    by (simp_all add: takeWhile_append2 dropWhile_append2)
qed

lemma nat_text_minus: "hd (nat_text n @ rest) \<noteq> CHR ''-''"
  using nat_text_digits [of "hd (nat_text n)" n] nat_text_ne [of n] by (auto simp: hd_append)

lemma parse_int_text:
  assumes "rest = [] \<or> \<not> is_digit (hd rest)"
  shows "parse_number (int_text i @ rest) = Some (JNum i, rest)"
proof -
  have lead: "nat_text n \<noteq> [] \<and> \<not> (hd (nat_text n) = CHR ''0'' \<and> tl (nat_text n) \<noteq> [])" for n
    using nat_text_hd [of n] nat_text_0 by (cases n) auto
  show ?thesis
    using lead nat_text_minus [of "nat i" rest] by (auto simp: parse_number_def int_text_def Let_def span_digits [OF assms])
qed

lemma ws_blanks [simp]: "dropWhile json_ws (blanks k @ s) = dropWhile json_ws s"
proof -
  have "json_ws (CHR '' '')" "json_ws (CHR 0x0A)"
    by (simp_all add: json_ws_def)
  then show ?thesis
    by (induction k) (simp_all add: blanks_def)
qed

lemma dropWhile_at [simp]: "\<not> p c \<Longrightarrow> dropWhile p (c # s) = c # s"
  by simp

definition ends_number :: "string \<Rightarrow> bool" where
  "ends_number rest \<longleftrightarrow> rest = [] \<or> \<not> is_digit (hd rest)"

lemma parse_string: "parse_value (Suc n) (blanks k @ json_quote s @ rest) = Some (JStr s, rest)"
  "parse_value (Suc n) (json_quote s @ rest) = Some (JStr s, rest)"
  by (simp_all add: json_quote_def json_ws_def parse_json_quote)

lemma int_text_start: "\<exists>c t. int_text i = c # t \<and> (c = CHR ''-'' \<or> is_digit c)"
proof (cases "i < 0")
  case False
  then show ?thesis
    using nat_text_ne [of "nat i"] nat_text_digits [of "hd (nat_text (nat i))" "nat i"]
    by (cases "nat_text (nat i)") (auto simp: int_text_def is_digit_def)
qed (simp add: int_text_def)

lemma digit_codes: "is_digit c \<Longrightarrow> \<not> json_ws c \<and> c \<noteq> CHR 0x22 \<and> c \<noteq> CHR ''['' \<and> c \<noteq> CHR ''{''"
  by (auto simp: is_digit_def json_ws_def)

lemma parse_int:
  assumes "ends_number rest"
  shows "parse_value (Suc n) (int_text i @ rest) = Some (JNum i, rest)"
proof -
  obtain c t where ct: "int_text i = c # t" "c = CHR ''-'' \<or> is_digit c"
    using int_text_start by blast
  then have "\<not> json_ws c" "c \<noteq> CHR 0x22" "c \<noteq> CHR ''[''" "c \<noteq> CHR ''{''"
    using digit_codes by (auto simp: json_ws_def)
  then show ?thesis
    using parse_int_text [of rest i] assms ct by (simp add: ends_number_def)
qed

lemma not_digits: "\<not> is_digit (CHR ''t'')" "\<not> is_digit (CHR ''f'')" "\<not> is_digit (CHR ''n'')"
  "\<not> json_ws (CHR ''t'')" "\<not> json_ws (CHR ''f'')" "\<not> json_ws (CHR ''n'')"
  by (simp_all add: is_digit_def json_ws_def)

lemma parse_scalar:
  "parse_value (Suc n) (''true'' @ rest) = Some (JBool True, rest)"
  "parse_value (Suc n) (''false'' @ rest) = Some (JBool False, rest)"
  "parse_value (Suc n) (''null'' @ rest) = Some (JNull, rest)"
  by (simp_all add: not_digits parse_literal_def)

text \<open>The fuel a printed value needs, and its text.\<close>

fun json_need :: "js_value \<Rightarrow> nat" where
  "json_need (JArr vs) = Suc (sum_list (map (\<lambda>v. Suc (json_need v)) vs))"
| "json_need (JObj fs) = Suc (sum_list (map (\<lambda>(f, v). Suc (json_need v)) fs))"
| "json_need v = 1"

definition printed :: "nat \<Rightarrow> js_value \<Rightarrow> string" where
  "printed k v = (case json_pretty k v of None \<Rightarrow> ''null'' | Some t \<Rightarrow> t)"

definition reads_back :: "js_value \<Rightarrow> bool" where
  "reads_back v \<longleftrightarrow>
     (\<forall>k n rest. json_need v \<le> n \<longrightarrow> ends_number rest \<longrightarrow> parse_value n (printed k v @ rest) = Some (v, rest))"

lemma reads_backD: "reads_back v \<Longrightarrow> json_need v \<le> n \<Longrightarrow> ends_number rest \<Longrightarrow> parse_value n (printed k v @ rest) = Some (v, rest)"
  by (simp add: reads_back_def)

lemma parse_value_ws: "parse_value n (blanks k @ s) = parse_value n s" "parse_value n (CHR '' '' # s) = parse_value n s"
  by (cases n; simp add: json_ws_def)+

lemma ends_number_simps [simp]: "ends_number (blanks k @ s)" "ends_number (CHR '','' # s)"
  by (simp_all add: ends_number_def blanks_def is_digit_def)

lemma punctuation [simp]: "\<not> json_ws (CHR '','')" "\<not> json_ws (CHR '']'')" "\<not> json_ws (CHR ''}'')" "\<not> json_ws (CHR ''['')"
    "\<not> json_ws (CHR ''{'')" "\<not> json_ws (CHR '':'')" "\<not> json_ws (CHR 0x22)"
  by (simp_all add: json_ws_def)

lemma items_read_back:
  assumes "\<forall>v\<in>set vs. reads_back v" "vs \<noteq> []" "sum_list (map (\<lambda>v. Suc (json_need v)) vs) \<le> n"
  shows "parse_items n (js_join '','' (map (\<lambda>v. blanks (k + 2) @ printed (k + 2) v) vs) @ blanks k @ CHR '']'' # rest) = Some (vs, rest)"
  using assms
proof (induction vs arbitrary: n)
  case (Cons v vs)
  then obtain m where m: "n = Suc m" by (cases n) auto
  have v: "parse_value m (blanks (k + 2) @ printed (k + 2) v @ r) = Some (v, r)" if "ends_number r" for r
    unfolding parse_value_ws using Cons.prems m that by (intro reads_backD) auto
  show ?case
  proof (cases vs)
    case Nil
    with v [of "blanks k @ CHR '']'' # rest"] show ?thesis by (simp add: m del: dropWhile.simps)
  next
    case (Cons w ws)
    let ?t = "js_join '','' (map (\<lambda>v. blanks (k + 2) @ printed (k + 2) v) vs) @ blanks k @ CHR '']'' # rest"
    have "parse_items m ?t = Some (vs, rest)"
      using Cons.IH Cons.prems m Cons by simp
    with v [of "CHR '','' # ?t"] Cons show ?thesis by (simp add: m)
  qed
qed simp

lemma obj_set_new: "k \<notin> fst ` set fs \<Longrightarrow> obj_set fs k v = fs @ [(k, v)]"
  by (induction fs k v rule: obj_set.induct) auto

definition member_text :: "nat \<Rightarrow> string \<times> js_value \<Rightarrow> string" where
  "member_text k m = blanks k @ json_quote (fst m) @ '': '' @ printed k (snd m)"

lemma member_text_pair: "member_text k (f, v) = blanks k @ json_quote f @ '': '' @ printed k v"
  by (simp add: member_text_def)

lemma members_read_back:
  assumes "\<forall>v\<in>snd ` set fs. reads_back v" "fs \<noteq> []" "sum_list (map (\<lambda>(f, v). Suc (json_need v)) fs) \<le> n"
    "distinct (map fst (acc @ fs))"
  shows "parse_members n acc (js_join '','' (map (member_text (k + 2)) fs) @ blanks k @ CHR ''}'' # rest) = Some (acc @ fs, rest)"
  using assms
proof (induction fs arbitrary: n acc)
  case (Cons fv fs)
  obtain f v where fv: "fv = (f, v)" by (cases fv)
  with Cons obtain m where m: "n = Suc m" by (cases n) auto
  have v: "parse_value m (CHR '' '' # printed (k + 2) v @ r) = Some (v, r)" if "ends_number r" for r
    unfolding parse_value_ws using Cons.prems m that fv by (intro reads_backD) auto
  have set: "obj_set acc f v = acc @ [(f, v)]"
    using Cons.prems fv by (intro obj_set_new) auto
  have f: "parse_chars (concat (map json_char f) @ CHR 0x22 # r) = Some (f, r)" for r
    by (rule parse_json_quote)
  show ?case
  proof (cases fs)
    case Nil
    with v [of "blanks k @ CHR ''}'' # rest"] show ?thesis
      by (simp add: m fv member_text_pair json_quote_def f set)
  next
    case (Cons w ws)
    let ?t = "js_join '','' (map (member_text (k + 2)) fs) @ blanks k @ CHR ''}'' # rest"
    have "parse_members m (acc @ [(f, v)]) ?t = Some ((acc @ [(f, v)]) @ fs, rest)"
      using Cons.IH [of m "acc @ [(f, v)]"] Cons.prems m Cons fv by auto
    with v [of "CHR '','' # ?t"] Cons show ?thesis
      by (simp add: m fv member_text_pair json_quote_def f set)
  qed
qed simp

lemma items_start: "parse_items n t = Some x \<Longrightarrow> \<exists>c u. dropWhile json_ws t = c # u \<and> c \<noteq> CHR '']''"
proof (cases n)
  case (Suc m)
  assume "parse_items n t = Some x"
  with Suc obtain y where "parse_value m t = Some y"
    by (auto split: option.splits)
  then show ?thesis
    by (cases m; cases "dropWhile json_ws t") (auto simp: is_digit_def parse_literal_def simp del: dropWhile_eq_Nil_conv split: if_splits)
qed simp

lemma members_start: "parse_members n fs t = Some x \<Longrightarrow> \<exists>u. dropWhile json_ws t = CHR 0x22 # u"
  by (cases n; cases "dropWhile json_ws t") (auto simp del: dropWhile_eq_Nil_conv split: if_splits)

lemma plain_pretty: "plain_json v \<Longrightarrow> json_pretty k v = Some (printed k v)"
  by (cases v) (simp_all add: printed_def Let_def)

lemma printed_array: "list_all plain_json vs \<Longrightarrow> vs \<noteq> [] \<Longrightarrow>
    printed k (JArr vs) = ''['' @ js_join '','' (map (\<lambda>v. blanks (k + 2) @ printed (k + 2) v) vs) @ blanks k @ '']''"
  by (simp add: printed_def)

lemma printed_object:
  assumes "list_all (\<lambda>(f, v). plain_json v) fs" "fs \<noteq> []"
  shows "printed k (JObj fs) = ''{'' @ js_join '','' (map (member_text (k + 2)) fs) @ blanks k @ ''}''"
proof -
  have "concat (map (\<lambda>(f, v). case json_pretty (k + 2) v of None \<Rightarrow> [] | Some t \<Rightarrow> [blanks (k + 2) @ json_quote f @ '': '' @ t]) fs) =
        map (member_text (k + 2)) fs"
    using assms(1) by (induction fs) (auto simp: plain_pretty member_text_def)
  with assms(2) show ?thesis
    by (simp add: printed_def)
qed

lemma reads_back_scalar: "reads_back (JStr s)" "reads_back (JNum i)" "reads_back (JBool b)" "reads_back JNull"
proof -
  have "\<exists>m. n = Suc m" if "1 \<le> n" for n :: nat
    using that by (cases n) auto
  then show "reads_back (JStr s)" "reads_back (JNum i)" "reads_back (JBool b)" "reads_back JNull"
    using parse_string(2) parse_int parse_scalar by (fastforce simp: reads_back_def printed_def)+
qed

lemma pretty_reads_back: "plain_json v \<Longrightarrow> reads_back v"
proof (induction v rule: plain_json.induct)
  case (2 vs)
  show ?case
  proof (cases "vs = []")
    case True
    then show ?thesis
      by (auto simp: reads_back_def printed_def Suc_le_eq gr0_conv_Suc)
  next
    case False
    have vs: "\<forall>v\<in>set vs. reads_back v"
      using 2 by (auto simp: list_all_iff)
    show ?thesis
      unfolding reads_back_def
    proof (intro allI impI)
      fix k n rest
      assume n: "json_need (JArr vs) \<le> n"
      then obtain m where m: "n = Suc m" by (cases n) auto
      let ?t = "js_join '','' (map (\<lambda>v. blanks (k + 2) @ printed (k + 2) v) vs) @ blanks k @ CHR '']'' # rest"
      have items: "parse_items m ?t = Some (vs, rest)"
        using items_read_back [OF vs False, of m k rest] n m by simp
      obtain c u where "dropWhile json_ws ?t = c # u" "c \<noteq> CHR '']''"
        using items_start [OF items] by blast
      with items show "parse_value n (printed k (JArr vs) @ rest) = Some (JArr vs, rest)"
        using 2(2) False m by (simp add: printed_array)
    qed
  qed
next
  case (3 fs)
  show ?case
  proof (cases "fs = []")
    case True
    then show ?thesis
      by (auto simp: reads_back_def printed_def Suc_le_eq gr0_conv_Suc)
  next
    case False
    have fs: "\<forall>v\<in>snd ` set fs. reads_back v"
      using 3 by (fastforce simp: list_all_iff)
    show ?thesis
      unfolding reads_back_def
    proof (intro allI impI)
      fix k n rest
      assume n: "json_need (JObj fs) \<le> n"
      then obtain m where m: "n = Suc m" by (cases n) auto
      let ?t = "js_join '','' (map (member_text (k + 2)) fs) @ blanks k @ CHR ''}'' # rest"
      have members: "parse_members m [] ?t = Some (fs, rest)"
        using members_read_back [OF fs False, of m "[]" k rest] n m 3(2) by simp
      obtain u where "dropWhile json_ws ?t = CHR 0x22 # u"
        using members_start [OF members] by blast
      with members show "parse_value n (printed k (JObj fs) @ rest) = Some (JObj fs, rest)"
        using 3(2) False m by (simp add: printed_object)
    qed
  qed
qed (simp_all add: reads_back_scalar)

lemma json_parse_read:
  assumes "reads_back v" "list_all json_ws rest" "ends_number rest"
  shows "json_parse (printed k v @ rest) = Some v"
proof -
  let ?t = "printed k v @ rest" and ?n = "max (json_need v) (2 * length (printed k v @ rest) + 1)"
  have "parse_value ?n ?t = Some (v, rest)"
    using assms by (intro reads_backD) auto
  then have "parse_value (2 * length ?t + 1) ?t = Some (v, rest)"
    using fuel_enough [of ?t ?n] by simp
  then show ?thesis
    using assms(2) by (simp add: json_parse_def list_all_iff)
qed

lemma pretty_roundtrip: "plain_json v \<Longrightarrow> list_all json_ws rest \<Longrightarrow> ends_number rest \<Longrightarrow> json_parse (printed k v @ rest) = Some v"
  by (rule json_parse_read) (rule pretty_reads_back)

text \<open>A text, a number or a flag on one line.\<close>

lemma scalar_roundtrip:
  "json_parse (json_stringify (JStr s)) = Some (JStr s)" "json_parse (json_stringify (JNum i)) = Some (JNum i)"
  "json_parse (json_stringify (JBool b)) = Some (JBool b)"
  using pretty_roundtrip [of "JStr s" "[]" 0] pretty_roundtrip [of "JNum i" "[]" 0] pretty_roundtrip [of "JBool b" "[]" 0]
  by (simp_all add: printed_def json_stringify_def ends_number_def)

end
