(* ===== verification/Config_Keyring.thy ===== *)
theory Config_Keyring
  imports Json_Parse Mime_Headers
begin

text \<open>
  The configuration keyring (\<^verbatim>\<open>src/src/secrets/ConfigKeyring.ts\<close>): reading it from its JSON text or document with every refusal,
  printing it, its oldest and newest key, the sources it is configured from, the guard of a production start and the keyring of a
  development one; and the store a rotation changes it through (\<^verbatim>\<open>ConfigKeyringStore.ts\<close>) with its file form.

  A refusal is the message of the \<^verbatim>\<open>Error\<close> thrown. What \<^verbatim>\<open>Date.parse\<close> makes of a text is left to the JavaScript engine beyond one format,
  so it is the argument \<open>date_parse\<close>; random bytes, the clock and the digest of a file's content are arguments too. The locale
  \<open>keyring_store\<close> is the interface the rotation relies on, with the file store as its instance.
\<close>

section \<open>Base64\<close>

text \<open>\<^verbatim>\<open>Buffer.from(s, "base64")\<close>: the alphabets of base64 and base64url, up to the first \<^verbatim>\<open>=\<close>, other characters ignored; a
  character left alone at the end carries no byte.\<close>

definition b64_value :: "char \<Rightarrow> nat option" where
  "b64_value c =
     (let n = (of_char c :: nat) in
      if 65 \<le> n \<and> n \<le> 90 then Some (n - 65)
      else if 97 \<le> n \<and> n \<le> 122 then Some (n - 71)
      else if 48 \<le> n \<and> n \<le> 57 then Some (n + 4)
      else if n = 43 \<or> n = 45 then Some 62
      else if n = 47 \<or> n = 95 then Some 63
      else None)"

fun unbase64 :: "nat list \<Rightarrow> nat list" where
  "unbase64 (a # b # c # d # s) = (a * 4 + b div 16) # ((b mod 16) * 16 + c div 4) # ((c mod 4) * 64 + d) # unbase64 s"
| "unbase64 [a, b, c] = [a * 4 + b div 16, (b mod 16) * 16 + c div 4]"
| "unbase64 [a, b] = [a * 4 + b div 16]"
| "unbase64 [a] = []"
| "unbase64 [] = []"

definition from_base64 :: "string \<Rightarrow> nat list" where
  "from_base64 s = unbase64 (List.map_filter b64_value (takeWhile (\<lambda>c. c \<noteq> CHR ''='') s))"

text \<open>The two patterns: characters of the alphabet, then at most two \<^verbatim>\<open>=\<close>.\<close>

definition b64_letter :: "char \<Rightarrow> bool" where
  "b64_letter c \<longleftrightarrow> b64_value c \<noteq> None \<and> c \<noteq> CHR ''-'' \<and> c \<noteq> CHR ''_''"

definition base64_pattern :: "string \<Rightarrow> bool" where
  "base64_pattern s \<longleftrightarrow> dropWhile b64_letter s \<in> {[], ''='', ''==''}"

lemma b64_values: "list_all (\<lambda>k. b64_value (b64_char k) = Some k) [0..<64]"
  by (simp add: upt_rec [of _ "numeral _"] b64_char_def b64_value_def)

lemma b64_value_char: "b64_value (b64_char n) = Some (n mod 64)"
proof -
  have "b64_value (b64_char (n mod 64)) = Some (n mod 64)"
    using b64_values by (auto simp: list_all_iff)
  then show ?thesis
    by (simp add: b64_char_def)
qed

lemma b64_char_letter: "b64_letter (b64_char n)" "b64_char n \<noteq> CHR ''=''"
proof -
  have "list_all (\<lambda>k. b64_char k \<noteq> CHR ''='' \<and> b64_char k \<noteq> CHR ''-'' \<and> b64_char k \<noteq> CHR ''_'') [0..<64]"
    by (simp add: upt_rec [of _ "numeral _"] b64_char_def)
  moreover have "n mod 64 \<in> set [0..<64]" by simp
  moreover have "b64_char n = b64_char (n mod 64)" by (simp add: b64_char_def)
  ultimately show "b64_letter (b64_char n)" "b64_char n \<noteq> CHR ''=''"
    by (auto simp: b64_letter_def b64_value_char list_all_iff)
qed

text \<open>What \<^verbatim>\<open>toString("base64")\<close> printed is read back, and matches the pattern.\<close>

lemma sextets:
  "a < 256 \<Longrightarrow> a div 4 mod 64 = a div 4"
  "b < 256 \<Longrightarrow> (a mod 4 * 16 + b div 16) mod 64 = a mod 4 * 16 + b div 16"
  "b < 256 \<Longrightarrow> b div 16 div 16 = 0" "b < 256 \<Longrightarrow> b div 16 mod 16 = b div 16"
  "c < 256 \<Longrightarrow> (b mod 16 * 4 + c div 64) mod 64 = b mod 16 * 4 + c div 64"
  "c < 256 \<Longrightarrow> c div 64 div 4 = 0" "c < 256 \<Longrightarrow> c div 64 mod 4 = c div 64" for a b c :: nat
proof -
  have "a mod 4 < 4" "b mod 16 < 16" by simp_all
  moreover have "b div 16 < 16" if "b < 256" using that by (simp add: less_mult_imp_div_less)
  moreover have "c div 64 < 4" if "c < 256" using that by (simp add: less_mult_imp_div_less)
  moreover have "a div 4 < 64" if "a < 256" using that by (simp add: less_mult_imp_div_less)
  ultimately show "a < 256 \<Longrightarrow> a div 4 mod 64 = a div 4"
    "b < 256 \<Longrightarrow> (a mod 4 * 16 + b div 16) mod 64 = a mod 4 * 16 + b div 16"
    "b < 256 \<Longrightarrow> b div 16 div 16 = 0" "b < 256 \<Longrightarrow> b div 16 mod 16 = b div 16"
    "c < 256 \<Longrightarrow> (b mod 16 * 4 + c div 64) mod 64 = b mod 16 * 4 + c div 64"
    "c < 256 \<Longrightarrow> c div 64 div 4 = 0" "c < 256 \<Longrightarrow> c div 64 mod 4 = c div 64"
    by simp_all
qed

lemma values_base64:
  "list_all (\<lambda>b. b < 256) bs \<Longrightarrow> unbase64 (List.map_filter b64_value (takeWhile (\<lambda>c. c \<noteq> CHR ''='') (base64 bs))) = bs"
  using sextets(2-4) [of 0] sextets(5-7) [of 0]
  by (induction bs rule: base64.induct) (simp_all add: b64_char_letter b64_value_char map_filter_simps sextets)

lemma base64_roundtrip: "list_all (\<lambda>b. b < 256) bs \<Longrightarrow> from_base64 (base64 bs) = bs"
  by (simp add: from_base64_def values_base64)

lemma base64_matches: "base64_pattern (base64 bs)"
proof -
  have "\<not> b64_letter (CHR ''='')"
    by (simp add: b64_letter_def b64_value_def)
  then have "dropWhile b64_letter (base64 bs) \<in> {[], ''='', ''==''}"
    by (induction bs rule: base64.induct) (simp_all add: b64_char_letter)
  then show ?thesis
    by (simp add: base64_pattern_def)
qed

section \<open>The keyring\<close>

record ConfigKeyEntry =
  ck_kid :: string
  ck_key :: string
  ck_createdAt :: string

record ConfigKeyring =
  cr_keys :: "ConfigKeyEntry list"

type_synonym 'a checked = "string + 'a"

fun and_then :: "'a checked \<Rightarrow> ('a \<Rightarrow> 'b checked) \<Rightarrow> 'b checked" where
  "and_then (Inl e) f = Inl e"
| "and_then (Inr x) f = f x"

fun relabel :: "(string \<Rightarrow> string) \<Rightarrow> 'a checked \<Rightarrow> 'a checked" where
  "relabel f (Inl e) = Inl (f e)"
| "relabel f (Inr x) = Inr x"

definition KEY_BYTES :: nat where
  "KEY_BYTES = 32"

definition kid_char :: "char \<Rightarrow> bool" where
  "kid_char c \<longleftrightarrow> (let n = (of_char c :: nat) in (65 \<le> n \<and> n \<le> 90) \<or> (97 \<le> n \<and> n \<le> 122) \<or> is_digit c \<or> n = 95 \<or> n = 45)"

definition kid_pattern :: "string \<Rightarrow> bool" where
  "kid_pattern s \<longleftrightarrow> s \<noteq> [] \<and> length s \<le> 64 \<and> list_all kid_char s"

text \<open>\<^verbatim>\<open>Buffer.toString("hex")\<close>. The four bytes of a new kid and its 32 key bytes are drawn at random.\<close>

definition hex_bytes :: "nat list \<Rightarrow> string" where
  "hex_bytes bs = concat (map (\<lambda>b. [hex_digit (b div 16), hex_digit (b mod 16)]) bs)"

definition generateConfigKey :: "nat list \<Rightarrow> nat list \<Rightarrow> js_time \<Rightarrow> ConfigKeyEntry result" where
  "generateConfigKey kid_bytes key_bytes createdAt =
     rbind (to_iso_string createdAt) (\<lambda>date. Inr \<lparr>ck_kid = hex_bytes kid_bytes, ck_key = base64 key_bytes, ck_createdAt = date\<rparr>)"

definition generateConfigKeyring :: "nat list \<Rightarrow> nat list \<Rightarrow> js_time \<Rightarrow> ConfigKeyring result" where
  "generateConfigKeyring kid_bytes key_bytes now =
     rbind (generateConfigKey kid_bytes key_bytes now) (\<lambda>k. Inr \<lparr>cr_keys = [k]\<rparr>)"

definition keyring_json :: "ConfigKeyring \<Rightarrow> js_value" where
  "keyring_json ring =
     JObj [(''keys'', JArr (map (\<lambda>k. JObj [(''kid'', JStr (ck_kid k)), (''key'', JStr (ck_key k)), (''createdAt'', JStr (ck_createdAt k))])
       (cr_keys ring)))]"

definition serializeConfigKeyring :: "ConfigKeyring \<Rightarrow> string" where
  "serializeConfigKeyring ring = printed 0 (keyring_json ring) @ [CHR 0x0A]"

section \<open>Reading a keyring\<close>

definition member :: "(string \<times> js_value) list \<Rightarrow> string \<Rightarrow> js_value" where
  "member fs k = (case map_of fs k of None \<Rightarrow> JUndefined | Some v \<Rightarrow> v)"

definition key_label :: "nat \<Rightarrow> string" where
  "key_label pos = ''The configuration keyring's key '' @ nat_text (pos + 1)"

text \<open>One key, with the kids met before it.\<close>

definition parse_entry :: "(string \<Rightarrow> js_time) \<Rightarrow> nat \<Rightarrow> string list \<Rightarrow> js_value \<Rightarrow> ConfigKeyEntry checked" where
  "parse_entry date_parse pos kids item =
     (case item of
        JObj fs \<Rightarrow>
          (case member fs ''kid'' of
             JStr kid \<Rightarrow>
               if \<not> kid_pattern kid then Inl (key_label pos @ '' needs a kid of letters, digits, - and _, at most 64.'')
               else if kid \<in> set kids then Inl (''The configuration keyring holds the kid '' @ [CHR 0x27] @ kid @ [CHR 0x27] @ '' twice.'')
               else
                 (let label = key_label pos @ '' ('' @ [CHR 0x27] @ kid @ [CHR 0x27] @ '')'' in
                  (case member fs ''key'' of
                     JStr key \<Rightarrow>
                       if key \<noteq> [] \<and> hd key \<noteq> CHR ''='' \<and> base64_pattern key \<and> length (from_base64 key) = KEY_BYTES then
                         (case member fs ''createdAt'' of
                            JStr createdAt \<Rightarrow>
                              if date_parse createdAt = None then Inl (label @ '' needs a createdAt date.'')
                              else Inr \<lparr>ck_kid = kid, ck_key = key, ck_createdAt = createdAt\<rparr>
                          | _ \<Rightarrow> Inl (label @ '' needs a createdAt date.''))
                       else Inl (label @ '' must be 32 bytes in base64.'')
                   | _ \<Rightarrow> Inl (label @ '' must be 32 bytes in base64.'')))
           | _ \<Rightarrow> Inl (key_label pos @ '' needs a kid of letters, digits, - and _, at most 64.''))
      | _ \<Rightarrow> Inl (key_label pos @ '' must be an object.''))"

fun parse_keys :: "(string \<Rightarrow> js_time) \<Rightarrow> nat \<Rightarrow> string list \<Rightarrow> js_value list \<Rightarrow> ConfigKeyEntry list checked" where
  "parse_keys date_parse pos kids [] = Inr []"
| "parse_keys date_parse pos kids (item # items) =
     and_then (parse_entry date_parse pos kids item) (\<lambda>k.
       and_then (parse_keys date_parse (pos + 1) (kids @ [ck_kid k]) items) (\<lambda>ks. Inr (k # ks)))"

definition parse_document :: "(string \<Rightarrow> js_time) \<Rightarrow> js_value \<Rightarrow> ConfigKeyring checked" where
  "parse_document date_parse document =
     (case document of
        JObj fs \<Rightarrow>
          (case member fs ''keys'' of
             JArr items \<Rightarrow>
               if items = [] then Inl ''The configuration keyring must hold at least one key.''
               else and_then (parse_keys date_parse 0 [] items) (\<lambda>ks. Inr \<lparr>cr_keys = ks\<rparr>)
           | _ \<Rightarrow> Inl ''The configuration keyring must hold at least one key.'')
      | _ \<Rightarrow> Inl ''The configuration keyring must be a JSON object with a list of keys.'')"

definition parseConfigKeyring :: "(string \<Rightarrow> js_time) \<Rightarrow> js_value \<Rightarrow> ConfigKeyring checked" where
  "parseConfigKeyring date_parse input =
     (case input of
        JStr s \<Rightarrow>
          (case json_parse s of
             None \<Rightarrow> Inl ''The configuration keyring isn't valid JSON.''
           | Some document \<Rightarrow> parse_document date_parse document)
      | _ \<Rightarrow> parse_document date_parse input)"

text \<open>\<^verbatim>\<open>a >= b\<close> of two time values: false when either is not a date.\<close>

definition time_ge :: "js_time \<Rightarrow> js_time \<Rightarrow> bool" where
  "time_ge a b = (case (a, b) of (Some x, Some y) \<Rightarrow> y \<le> x | _ \<Rightarrow> False)"

definition pick_key :: "(ConfigKeyEntry \<Rightarrow> ConfigKeyEntry \<Rightarrow> bool) \<Rightarrow> ConfigKeyring \<Rightarrow> ConfigKeyEntry option" where
  "pick_key better ring =
     foldl (\<lambda>best entry. case best of None \<Rightarrow> Some entry | Some b \<Rightarrow> if better entry b then Some entry else Some b) None (cr_keys ring)"

definition oldestConfigKey :: "(string \<Rightarrow> js_time) \<Rightarrow> ConfigKeyring \<Rightarrow> ConfigKeyEntry option" where
  "oldestConfigKey date_parse = pick_key (\<lambda>e b. time_less (date_parse (ck_createdAt e)) (date_parse (ck_createdAt b)))"

definition newestConfigKey :: "(string \<Rightarrow> js_time) \<Rightarrow> ConfigKeyring \<Rightarrow> ConfigKeyEntry option" where
  "newestConfigKey date_parse = pick_key (\<lambda>e b. time_ge (date_parse (ck_createdAt e)) (date_parse (ck_createdAt b)))"

section \<open>What is printed is read back\<close>

text \<open>A ring that can be read: at least one key, no kid twice, every field well-formed.\<close>

definition usable_entry :: "(string \<Rightarrow> js_time) \<Rightarrow> ConfigKeyEntry \<Rightarrow> bool" where
  "usable_entry date_parse k \<longleftrightarrow>
     kid_pattern (ck_kid k) \<and> ck_key k \<noteq> [] \<and> hd (ck_key k) \<noteq> CHR ''='' \<and> base64_pattern (ck_key k) \<and>
     length (from_base64 (ck_key k)) = KEY_BYTES \<and> date_parse (ck_createdAt k) \<noteq> None"

definition usable_ring :: "(string \<Rightarrow> js_time) \<Rightarrow> ConfigKeyring \<Rightarrow> bool" where
  "usable_ring date_parse ring \<longleftrightarrow>
     cr_keys ring \<noteq> [] \<and> distinct (map ck_kid (cr_keys ring)) \<and> (\<forall>k\<in>set (cr_keys ring). usable_entry date_parse k)"

lemma and_then_Inr: "and_then m f = Inr y \<longleftrightarrow> (\<exists>x. m = Inr x \<and> f x = Inr y)"
  by (cases m) auto

lemma parse_entry_sound: "parse_entry date_parse pos kids item = Inr k \<Longrightarrow> usable_entry date_parse k \<and> ck_kid k \<notin> set kids"
  by (auto simp: parse_entry_def usable_entry_def Let_def split: js_value.splits if_splits)

lemma parse_keys_sound:
  "parse_keys date_parse pos kids items = Inr ks \<Longrightarrow>
   length ks = length items \<and> distinct (map ck_kid ks) \<and> ck_kid ` set ks \<inter> set kids = {} \<and> (\<forall>k\<in>set ks. usable_entry date_parse k)"
proof (induction items arbitrary: pos kids ks)
  case (Cons item items)
  then obtain k ks' where k: "parse_entry date_parse pos kids item = Inr k"
      "parse_keys date_parse (pos + 1) (kids @ [ck_kid k]) items = Inr ks'" "ks = k # ks'"
    by (auto simp: and_then_Inr)
  with Cons.IH [OF k(2)] parse_entry_sound [OF k(1)] show ?case
    by auto
qed simp

lemma parse_document_sound: "parse_document date_parse v = Inr ring \<Longrightarrow> usable_ring date_parse ring"
  by (auto simp: parse_document_def usable_ring_def and_then_Inr dest!: parse_keys_sound split: js_value.splits if_splits)

lemma parse_sound: "parseConfigKeyring date_parse v = Inr ring \<Longrightarrow> usable_ring date_parse ring"
  by (auto simp: parseConfigKeyring_def dest: parse_document_sound split: js_value.splits option.splits)

lemma parse_entry_printed:
  "usable_entry date_parse k \<Longrightarrow> ck_kid k \<notin> set kids \<Longrightarrow>
   parse_entry date_parse pos kids (JObj [(''kid'', JStr (ck_kid k)), (''key'', JStr (ck_key k)), (''createdAt'', JStr (ck_createdAt k))]) = Inr k"
  by (simp add: parse_entry_def usable_entry_def member_def Let_def)

lemma parse_keys_printed:
  "\<forall>k\<in>set ks. usable_entry date_parse k \<Longrightarrow> distinct (map ck_kid ks) \<Longrightarrow> ck_kid ` set ks \<inter> set kids = {} \<Longrightarrow>
   parse_keys date_parse pos kids
     (map (\<lambda>k. JObj [(''kid'', JStr (ck_kid k)), (''key'', JStr (ck_key k)), (''createdAt'', JStr (ck_createdAt k))]) ks) = Inr ks"
  by (induction ks arbitrary: pos kids) (auto simp: parse_entry_printed)

lemma parse_printed_document: "usable_ring date_parse ring \<Longrightarrow> parse_document date_parse (keyring_json ring) = Inr ring"
  by (simp add: parse_document_def keyring_json_def member_def usable_ring_def parse_keys_printed)

lemma keyring_json_plain: "plain_json (keyring_json ring)"
  by (simp add: keyring_json_def list_all_iff)

lemma json_parse_keyring: "json_parse (serializeConfigKeyring ring) = Some (keyring_json ring)"
  unfolding serializeConfigKeyring_def
  by (rule pretty_roundtrip) (simp_all add: keyring_json_plain json_ws_def ends_number_def is_digit_def)

lemma keyring_roundtrip_read: "usable_ring date_parse ring \<Longrightarrow> parseConfigKeyring date_parse (JStr (serializeConfigKeyring ring)) = Inr ring"
  by (simp add: parseConfigKeyring_def json_parse_keyring parse_printed_document)

text \<open>C9: A keyring printed for the Secret, the KV entry or the file is read back as it was, and nothing unusable is ever read: a text
  that is read holds at least one key, no kid twice, and 32 bytes under every kid.\<close>

theorem keyring_roundtrip:
  "usable_ring date_parse ring \<longleftrightarrow> parseConfigKeyring date_parse (JStr (serializeConfigKeyring ring)) = Inr ring"
  using keyring_roundtrip_read parse_sound by blast

section \<open>The oldest and the newest key\<close>

lemma pick_key_in: "pick_key better ring = Some k \<Longrightarrow> k \<in> set (cr_keys ring)"
proof -
  have "foldl (\<lambda>best entry. case best of None \<Rightarrow> Some entry | Some b \<Rightarrow> if better entry b then Some entry else Some b) best ks = Some k \<Longrightarrow>
        k \<in> set ks \<or> best = Some k" for ks best
    by (induction ks arbitrary: best) (fastforce split: option.splits if_splits)+
  then show "pick_key better ring = Some k \<Longrightarrow> k \<in> set (cr_keys ring)"
    by (fastforce simp: pick_key_def)
qed

lemma pick_key_None: "pick_key better ring = None \<longleftrightarrow> cr_keys ring = []"
proof -
  have "foldl (\<lambda>best entry. case best of None \<Rightarrow> Some entry | Some b \<Rightarrow> if better entry b then Some entry else Some b) (Some b) ks \<noteq> None" for ks b
    by (induction ks arbitrary: b) auto
  then show ?thesis
    by (cases "cr_keys ring") (simp_all add: pick_key_def)
qed

section \<open>Where the keyring comes from\<close>

text \<open>The files of the machine: their contents, and the error code of those that cannot be read.\<close>

record disk =
  dk_files :: "string \<Rightarrow> string option"
  dk_unreadable :: "string \<Rightarrow> string option"

definition readFileSync :: "disk \<Rightarrow> string \<Rightarrow> string checked" where
  "readFileSync d file =
     (case dk_unreadable d file of
        Some code \<Rightarrow> Inl code
      | None \<Rightarrow> (case dk_files d file of None \<Rightarrow> Inl ''ENOENT'' | Some t \<Rightarrow> Inr t))"

definition read_keyring_text :: "disk \<Rightarrow> string \<Rightarrow> string checked" where
  "read_keyring_text d file =
     relabel (\<lambda>code. ''config_encryption:keyring_file can't be read ('' @ code @ '').'') (readFileSync d file)"

record ConfigKeyringSource =
  ks_keyringFile :: js_value
  ks_keyring :: js_value

definition blank_inline :: "js_value \<Rightarrow> bool" where
  "blank_inline v = (case v of JUndefined \<Rightarrow> True | JNull \<Rightarrow> True | JStr s \<Rightarrow> js_trim s = [] | _ \<Rightarrow> False)"

definition readConfigKeyring :: "(string \<Rightarrow> js_time) \<Rightarrow> disk \<Rightarrow> ConfigKeyringSource \<Rightarrow> ConfigKeyring option checked" where
  "readConfigKeyring date_parse d src =
     (let file = (case ks_keyringFile src of JStr s \<Rightarrow> js_trim s | _ \<Rightarrow> [])
      in if file \<noteq> [] then
           and_then (read_keyring_text d file) (\<lambda>t.
             relabel (\<lambda>e. ''config_encryption:keyring_file isn't a usable keyring: '' @ e)
               (and_then (parseConfigKeyring date_parse (JStr t)) (\<lambda>ring. Inr (Some ring))))
         else if blank_inline (ks_keyring src) then Inr None
         else
           relabel (\<lambda>e. ''config_encryption:keyring isn't a usable keyring: '' @ e)
             (and_then (parseConfigKeyring date_parse (ks_keyring src)) (\<lambda>ring. Inr (Some ring))))"

definition assertProductionConfigKeyring :: "(string \<Rightarrow> js_time) \<Rightarrow> disk \<Rightarrow> ConfigKeyringSource \<Rightarrow> bool \<Rightarrow> unit checked" where
  "assertProductionConfigKeyring date_parse d src production =
     (if \<not> production then Inr ()
      else
        (case readConfigKeyring date_parse d src of
           Inl e \<Rightarrow> Inl (''A usable configuration keyring is required in production: '' @ e)
         | Inr None \<Rightarrow>
             Inl ''A configuration keyring is required in production: set config_encryption:keyring_file (or config_encryption:keyring).''
         | Inr (Some ring) \<Rightarrow> Inr ()))"

text \<open>\<^verbatim>\<open>createFileExclusive\<close> puts the text in place only where no file is, in one atomic step; it answers whether it did.\<close>

definition createFileExclusive :: "string \<Rightarrow> string \<Rightarrow> disk \<Rightarrow> bool \<times> disk" where
  "createFileExclusive file data d =
     (case dk_files d file of
        Some t \<Rightarrow> (False, d)
      | None \<Rightarrow> (True, d\<lparr>dk_files := (dk_files d)(file \<mapsto> data)\<rparr>))"

definition ensureDevelopmentConfigKeyring ::
    "(string \<Rightarrow> js_time) \<Rightarrow> ConfigKeyring \<Rightarrow> string \<Rightarrow> disk \<Rightarrow> ConfigKeyring option checked \<times> disk" where
  "ensureDevelopmentConfigKeyring date_parse generated file d =
     (let d1 = snd (createFileExclusive file (serializeConfigKeyring generated) d)
      in (readConfigKeyring date_parse d1 \<lparr>ks_keyringFile = JStr file, ks_keyring = JUndefined\<rparr>, d1))"

lemma read_source_usable: "readConfigKeyring date_parse d src = Inr (Some ring) \<Longrightarrow> usable_ring date_parse ring"
proof -
  have "relabel f (and_then (parseConfigKeyring date_parse v) (\<lambda>r. Inr (Some r))) = Inr (Some ring) \<Longrightarrow> usable_ring date_parse ring" for f v
    by (cases "parseConfigKeyring date_parse v") (auto dest: parse_sound)
  then show "readConfigKeyring date_parse d src = Inr (Some ring) \<Longrightarrow> usable_ring date_parse ring"
    by (fastforce simp: readConfigKeyring_def Let_def and_then_Inr split: if_splits)
qed

text \<open>The guard lets a production server start only with a keyring that can be read; the development keyring is generated once,
  and a second start that races the first ends up with the same one.\<close>

lemma production_guard:
  "assertProductionConfigKeyring date_parse d src True = Inr () \<longleftrightarrow> (\<exists>ring. readConfigKeyring date_parse d src = Inr (Some ring))"
  by (auto simp: assertProductionConfigKeyring_def split: sum.splits option.splits)

lemma development_ring_shared:
  assumes "ensureDevelopmentConfigKeyring date_parse g1 f d = (r1, d1)" "ensureDevelopmentConfigKeyring date_parse g2 f d1 = (r2, d2)"
  shows "d2 = d1 \<and> r2 = r1"
  using assms by (auto simp: ensureDevelopmentConfigKeyring_def createFileExclusive_def Let_def split: option.splits)

section \<open>The store\<close>

datatype store_error = Ring_Invalid string | Ring_Conflict | Ring_Unreachable string

record ConfigKeyringSnapshot =
  sn_keyring :: ConfigKeyring
  sn_version :: string

text \<open>The file store: the version is the digest of the text. \<open>blocked\<close> is the error code of the write or the rename, which leaves
  the file as it was and removes the sibling it wrote to.\<close>

definition store_path :: "string \<Rightarrow> store_error + string" where
  "store_path configured =
     (let file = js_trim configured
      in if file = [] then Inl (Ring_Unreachable ''config_encryption:keyring_file isn't set, so the keyring can't be read or changed.'')
         else Inr file)"

definition store_text :: "string \<Rightarrow> disk \<Rightarrow> store_error + string \<times> string" where
  "store_text configured d =
     (case store_path configured of
        Inl e \<Rightarrow> Inl e
      | Inr file \<Rightarrow> (case read_keyring_text d file of Inl e \<Rightarrow> Inl (Ring_Unreachable e) | Inr t \<Rightarrow> Inr (file, t)))"

definition store_read ::
    "(string \<Rightarrow> js_time) \<Rightarrow> (string \<Rightarrow> string) \<Rightarrow> string \<Rightarrow> disk \<Rightarrow> store_error + ConfigKeyringSnapshot" where
  "store_read date_parse sha256 configured d =
     (case store_text configured d of
        Inl e \<Rightarrow> Inl e
      | Inr (file, t) \<Rightarrow>
          (case parseConfigKeyring date_parse (JStr t) of
             Inl e \<Rightarrow> Inl (Ring_Invalid (''config_encryption:keyring_file isn't a usable keyring: '' @ e))
           | Inr ring \<Rightarrow> Inr \<lparr>sn_keyring = ring, sn_version = sha256 t\<rparr>))"

definition store_write ::
    "(string \<Rightarrow> js_time) \<Rightarrow> (string \<Rightarrow> string) \<Rightarrow> string \<Rightarrow> string option \<Rightarrow> ConfigKeyring \<Rightarrow> string \<Rightarrow> disk \<Rightarrow>
     (store_error + unit) \<times> disk" where
  "store_write date_parse sha256 configured blocked ring version d =
     (case store_path configured of
        Inl e \<Rightarrow> (Inl e, d)
      | Inr file \<Rightarrow>
          (case parseConfigKeyring date_parse (keyring_json ring) of
             Inl e \<Rightarrow> (Inl (Ring_Invalid (''The keyring to write isn't usable: '' @ e)), d)
           | Inr checked \<Rightarrow>
               (case read_keyring_text d file of
                  Inl e \<Rightarrow> (Inl (Ring_Unreachable e), d)
                | Inr t \<Rightarrow>
                    if sha256 t \<noteq> version then (Inl Ring_Conflict, d)
                    else
                      (case blocked of
                         Some code \<Rightarrow> (Inl (Ring_Unreachable (''config_encryption:keyring_file can't be written ('' @ code @ '').'')), d)
                       | None \<Rightarrow> (Inr (), d\<lparr>dk_files := (dk_files d)(file \<mapsto> serializeConfigKeyring checked)\<rparr>)))))"

text \<open>What a rotation relies on: a write goes through only over the version it names, what was written is what is read next, and a
  refused write changes nothing.\<close>

text \<open>A ring that passes the check is written as it is.\<close>

lemma parse_entry_same:
  "parse_entry date_parse pos kids (JObj [(''kid'', JStr (ck_kid k)), (''key'', JStr (ck_key k)), (''createdAt'', JStr (ck_createdAt k))]) = Inr k' \<Longrightarrow>
   k' = k"
  by (cases k) (auto simp: parse_entry_def member_def Let_def split: if_splits)

lemma parse_keys_same:
  "parse_keys date_parse pos kids
     (map (\<lambda>k. JObj [(''kid'', JStr (ck_kid k)), (''key'', JStr (ck_key k)), (''createdAt'', JStr (ck_createdAt k))]) ks) = Inr ks' \<Longrightarrow> ks' = ks"
  by (induction ks arbitrary: pos kids ks') (auto simp: and_then_Inr dest: parse_entry_same)

lemma parse_ring_same: "parseConfigKeyring date_parse (keyring_json ring) = Inr r \<longleftrightarrow> r = ring \<and> usable_ring date_parse ring"
proof
  assume r: "parseConfigKeyring date_parse (keyring_json ring) = Inr r"
  then have "usable_ring date_parse r" by (rule parse_sound)
  moreover have "r = ring"
    using r by (cases ring) (auto simp: parseConfigKeyring_def keyring_json_def parse_document_def member_def and_then_Inr
      dest!: parse_keys_same split: if_splits)
  ultimately show "r = ring \<and> usable_ring date_parse ring" by simp
next
  assume "r = ring \<and> usable_ring date_parse ring"
  then have "parse_document date_parse (keyring_json ring) = Inr r"
    by (simp add: parse_printed_document)
  then show "parseConfigKeyring date_parse (keyring_json ring) = Inr r"
    by (simp add: parseConfigKeyring_def keyring_json_def)
qed

locale keyring_store =
  fixes read_ring :: "'d \<Rightarrow> store_error + ConfigKeyringSnapshot"
    and write_ring :: "ConfigKeyring \<Rightarrow> string \<Rightarrow> 'd \<Rightarrow> (store_error + unit) \<times> 'd"
    and usable :: "ConfigKeyring \<Rightarrow> bool"
  assumes read_usable: "read_ring d = Inr s \<Longrightarrow> usable (sn_keyring s)"
    and write_versioned: "read_ring d = Inr s \<Longrightarrow> write_ring ring v d = (Inr (), d') \<Longrightarrow> v = sn_version s"
    and write_read: "write_ring ring v d = (Inr (), d') \<Longrightarrow> \<exists>s. read_ring d' = Inr s \<and> sn_keyring s = ring"
    and write_refused: "write_ring ring v d = (Inl e, d') \<Longrightarrow> d' = d"
begin

text \<open>Changing a ring by reading it and writing over what was read leaves the changed ring, or the one that was there.\<close>

lemma change_ring:
  assumes "read_ring d = Inr s" "write_ring (f (sn_keyring s)) (sn_version s) d1 = (r, d2)" "read_ring d1 = Inr s1"
    and same: "sn_version s1 = sn_version s \<Longrightarrow> sn_keyring s1 = sn_keyring s"
  shows "read_ring d2 = Inr s1 \<or> (\<exists>s2. read_ring d2 = Inr s2 \<and> sn_keyring s2 = f (sn_keyring s1))"
proof (cases r)
  case (Inl e)
  then show ?thesis using write_refused assms(2,3) by blast
next
  case (Inr u)
  then have w: "write_ring (f (sn_keyring s)) (sn_version s) d1 = (Inr (), d2)"
    using assms(2) by simp
  have "sn_version s1 = sn_version s"
    using write_versioned [OF assms(3) w] by simp
  with same write_read [OF w] show ?thesis by auto
qed

lemma written_usable: "write_ring ring v d = (Inr (), d') \<Longrightarrow> usable ring"
  using write_read read_usable by metis

end

lemma store_write_Inr:
  "store_write date_parse sha256 configured blocked ring version d = (Inr (), d') \<longleftrightarrow>
   (\<exists>file t. store_path configured = Inr file \<and> usable_ring date_parse ring \<and> read_keyring_text d file = Inr t \<and> sha256 t = version \<and>
      blocked = None \<and> d' = d\<lparr>dk_files := (dk_files d)(file \<mapsto> serializeConfigKeyring ring)\<rparr>)"
proof (cases "usable_ring date_parse ring")
  case True
  then have "parseConfigKeyring date_parse (keyring_json ring) = Inr ring"
    using parse_ring_same [of date_parse ring ring] by simp
  with True show ?thesis
    by (auto simp: store_write_def split: sum.splits option.splits if_splits)
next
  case False
  then obtain e where "parseConfigKeyring date_parse (keyring_json ring) = Inl e"
    using parse_ring_same [of date_parse ring] by (cases "parseConfigKeyring date_parse (keyring_json ring)") auto
  with False show ?thesis
    by (auto simp: store_write_def split: sum.splits)
qed

lemma read_keyring_text_Inr:
  "read_keyring_text d file = Inr t \<longleftrightarrow> dk_unreadable d file = None \<and> dk_files d file = Some t"
  by (auto simp: read_keyring_text_def readFileSync_def split: option.splits)

lemma store_read_Inr:
  "store_read date_parse sha256 configured d = Inr s \<longleftrightarrow>
   (\<exists>file t ring. store_path configured = Inr file \<and> read_keyring_text d file = Inr t \<and> parseConfigKeyring date_parse (JStr t) = Inr ring \<and>
      s = \<lparr>sn_keyring = ring, sn_version = sha256 t\<rparr>)"
  by (auto simp: store_read_def store_text_def split: sum.splits)

interpretation file_store: keyring_store "store_read date_parse sha256 configured" "store_write date_parse sha256 configured blocked"
    "usable_ring date_parse" for date_parse sha256 configured blocked
proof
  fix d s
  assume "store_read date_parse sha256 configured d = Inr s"
  then show "usable_ring date_parse (sn_keyring s)"
    by (auto simp: store_read_Inr dest: parse_sound)
next
  fix d s ring v d'
  assume "store_read date_parse sha256 configured d = Inr s" "store_write date_parse sha256 configured blocked ring v d = (Inr (), d')"
  then show "v = sn_version s"
    by (auto simp: store_read_Inr store_write_Inr)
next
  fix ring v d d'
  assume "store_write date_parse sha256 configured blocked ring v d = (Inr (), d')"
  then obtain f t where w: "store_path configured = Inr f" "usable_ring date_parse ring" "read_keyring_text d f = Inr t"
      "d' = d\<lparr>dk_files := (dk_files d)(f \<mapsto> serializeConfigKeyring ring)\<rparr>"
    by (auto simp: store_write_Inr)
  then have "read_keyring_text d' f = Inr (serializeConfigKeyring ring)"
    by (simp add: read_keyring_text_Inr)
  with w keyring_roundtrip_read [OF w(2)] show "\<exists>s. store_read date_parse sha256 configured d' = Inr s \<and> sn_keyring s = ring"
    by (auto simp: store_read_Inr)
next
  fix ring v d e d'
  assume "store_write date_parse sha256 configured blocked ring v d = (Inl e, d')"
  then show "d' = d"
    by (auto simp: store_write_def split: sum.splits option.splits if_splits)
qed

end
