(* ===== verification/Config_Cipher.thy ===== *)
theory Config_Cipher
  imports Config_Keyring "HOL-Library.List_Lexorder" "HOL-Library.Char_ord"
begin

text \<open>
  The sealing of configuration secrets (\<^verbatim>\<open>src/src/secrets/ConfigCipher.ts\<close>): the keys a process has loaded and how it reloads them, the
  choice of the key that encrypts, the data an envelope is bound to, encryption, and decryption with its three ways to fail.

  AES-256-GCM (\<^verbatim>\<open>node:crypto\<close>) is the argument \<open>gcm\<close>; \<open>aead_ok\<close> and \<open>aead_binds\<close> state what it promises: what was sealed
  is opened with the same key, nonce and associated data, and with no other key or associated data. Bytes are numbers below 256.
  A plaintext that is not the UTF-8 of characters of the model does not parse, as it does not when it is no JSON.
\<close>

section \<open>Bytes\<close>

definition utf8 :: "string \<Rightarrow> nat list" where
  "utf8 s = concat (map utf8_char s)"

fun utf8_decode :: "nat list \<Rightarrow> string option" where
  "utf8_decode [] = Some []"
| "utf8_decode (a # s) =
     (if a < 128 then map_option (\<lambda>t. char_of a # t) (utf8_decode s)
      else if a = 194 \<or> a = 195 then
        (case s of
           [] \<Rightarrow> None
         | b # t \<Rightarrow> if 128 \<le> b \<and> b < 192 then map_option (\<lambda>u. char_of ((a - 192) * 64 + (b - 128)) # u) (utf8_decode t) else None)
      else None)"

definition is_bytes :: "nat list \<Rightarrow> bool" where
  "is_bytes bs = list_all (\<lambda>b. b < 256) bs"

lemma utf8_simps [simp]: "utf8 [] = []" "utf8 (c # s) = utf8_char c @ utf8 s"
  by (simp_all add: utf8_def)

lemma utf8_bytes: "is_bytes (utf8 s)"
proof (induction s)
  case (Cons c s)
  have "of_char c < (256 :: nat)" by (rule of_char_less_256)
  then have "(of_char c :: nat) div 64 < 4" by (simp add: less_mult_imp_div_less)
  with Cons show ?case
    by (auto simp: is_bytes_def utf8_char_def Let_def)
qed (simp add: is_bytes_def)

lemma utf8_decode_char: "utf8_decode (utf8_char c @ t) = map_option (\<lambda>u. c # u) (utf8_decode t)"
proof (cases "(of_char c :: nat) < 128")
  case True
  then show ?thesis by (simp add: utf8_char_def Let_def)
next
  case False
  let ?n = "of_char c :: nat"
  have lt: "?n < 256" by (rule of_char_less_256)
  have "2 \<le> ?n div 64" using False div_le_mono [of 128 ?n 64] by simp
  moreover have "?n div 64 < 4" using lt by (simp add: less_mult_imp_div_less)
  ultimately have d: "?n div 64 = 2 \<or> ?n div 64 = 3" by linarith
  have "(192 + ?n div 64 - 192) * 64 + (128 + ?n mod 64 - 128) = ?n" by simp
  with d False show ?thesis
    by (auto simp: utf8_char_def Let_def)
qed

lemma utf8_roundtrip [simp]: "utf8_decode (utf8 s) = Some s"
  by (induction s) (simp_all add: utf8_decode_char)

lemma utf8_inject: "utf8 s = utf8 t \<longleftrightarrow> s = t"
  by (metis option.inject utf8_roundtrip)

section \<open>Envelopes and what they are bound to\<close>

record ConfigCipherContext =
  cx_record :: string
  cx_uid :: string
  cx_field :: string

record ConfigEnvelope =
  en_kid :: string
  en_iv :: string
  en_ct :: string
  en_tag :: string

definition CONFIG_ENVELOPE_FORMAT :: string where
  "CONFIG_ENVELOPE_FORMAT = ''rapidmx-config/1''"

definition CONFIG_RELOAD_INTERVAL_MS :: int where
  "CONFIG_RELOAD_INTERVAL_MS = 60000"

definition NONCE_BYTES :: nat where
  "NONCE_BYTES = 12"

definition TAG_BYTES :: nat where
  "TAG_BYTES = 16"

definition envelope_json :: "ConfigEnvelope \<Rightarrow> js_value" where
  "envelope_json e =
     JObj [(''$enc'', JNum 1), (''kid'', JStr (en_kid e)), (''iv'', JStr (en_iv e)), (''ct'', JStr (en_ct e)), (''tag'', JStr (en_tag e))]"

text \<open>\<^verbatim>\<open>isConfigEnvelope\<close>, with the envelope it finds.\<close>

definition as_envelope :: "js_value \<Rightarrow> ConfigEnvelope option" where
  "as_envelope v =
     (case v of
        JObj fs \<Rightarrow>
          if length fs = 5 \<and> member fs ''$enc'' = JNum 1 then
            (case (member fs ''kid'', member fs ''iv'', member fs ''ct'', member fs ''tag'') of
               (JStr kid, JStr iv, JStr ct, JStr tag) \<Rightarrow> Some \<lparr>en_kid = kid, en_iv = iv, en_ct = ct, en_tag = tag\<rparr>
             | _ \<Rightarrow> None)
          else None
      | _ \<Rightarrow> None)"

definition isConfigEnvelope :: "js_value \<Rightarrow> bool" where
  "isConfigEnvelope v \<longleftrightarrow> as_envelope v \<noteq> None"

text \<open>\<^verbatim>\<open>writeUInt32BE\<close> of a length (below \<open>2^32\<close>, which no text of the engine reaches).\<close>

definition uint32_be :: "nat \<Rightarrow> nat list" where
  "uint32_be n = [n div 16777216 mod 256, n div 65536 mod 256, n div 256 mod 256, n mod 256]"

definition length_prefixed :: "string \<Rightarrow> nat list" where
  "length_prefixed s = uint32_be (length (utf8 s)) @ utf8 s"

definition configAssociatedData :: "ConfigCipherContext \<Rightarrow> nat list" where
  "configAssociatedData ctx =
     concat (map length_prefixed [CONFIG_ENVELOPE_FORMAT, cx_record ctx, cx_uid ctx, cx_field ctx])"

definition decodeBase64 :: "string \<Rightarrow> nat option \<Rightarrow> nat list option" where
  "decodeBase64 s len =
     (if \<not> base64_pattern s then None
      else
        (let bytes = from_base64 s in
         case len of None \<Rightarrow> Some bytes | Some n \<Rightarrow> if length bytes = n then Some bytes else None))"

lemma as_envelope_json [simp]: "as_envelope (envelope_json e) = Some e"
  by (simp add: as_envelope_def envelope_json_def member_def)

text \<open>Two contexts never encode alike: the length in front of each part says where it ends.\<close>

definition short_text :: "string \<Rightarrow> bool" where
  "short_text s \<longleftrightarrow> length (utf8 s) < 4294967296"

definition short_context :: "ConfigCipherContext \<Rightarrow> bool" where
  "short_context ctx \<longleftrightarrow> short_text (cx_record ctx) \<and> short_text (cx_uid ctx) \<and> short_text (cx_field ctx)"

lemma uint32_be_inject:
  assumes "uint32_be m = uint32_be n" "m < 4294967296" "n < 4294967296"
  shows "m = n"
proof -
  have sum: "k = k div 16777216 mod 256 * 16777216 + k div 65536 mod 256 * 65536 + k div 256 mod 256 * 256 + k mod 256"
    if "k < 4294967296" for k :: nat
  proof -
    have "k div 16777216 < 256" using that by (simp add: less_mult_imp_div_less)
    then have "k div 16777216 mod 256 = k div 16777216" by simp
    moreover have "k div 65536 = k div 16777216 * 256 + k div 65536 mod 256"
      using div_mult_mod_eq [of "k div 65536" 256] by (simp add: div_mult2_eq [symmetric])
    moreover have "k div 256 = k div 65536 * 256 + k div 256 mod 256"
      using div_mult_mod_eq [of "k div 256" 256] by (simp add: div_mult2_eq [symmetric])
    moreover have "k = k div 256 * 256 + k mod 256" by simp
    ultimately show ?thesis by linarith
  qed
  show ?thesis
    using assms sum [of m] sum [of n] by (simp add: uint32_be_def)
qed

lemma length_prefixed_inject:
  assumes "length_prefixed s @ u = length_prefixed t @ v" "short_text s" "short_text t"
  shows "s = t \<and> u = v"
proof -
  have "uint32_be (length (utf8 s)) = uint32_be (length (utf8 t))" "utf8 s @ u = utf8 t @ v"
    using assms(1) by (simp_all add: length_prefixed_def uint32_be_def)
  moreover from this have "length (utf8 s) = length (utf8 t)"
    using uint32_be_inject assms(2,3) by (simp add: short_text_def)
  ultimately show ?thesis
    by (simp add: utf8_inject)
qed

lemma associated_data_inject:
  assumes "configAssociatedData a = configAssociatedData b" "short_context a" "short_context b"
  shows "a = (b :: ConfigCipherContext)"
proof -
  have short: "short_text (cx_record a)" "short_text (cx_uid a)" "short_text (cx_field a)"
      "short_text (cx_record b)" "short_text (cx_uid b)" "short_text (cx_field b)"
    using assms(2,3) by (simp_all add: short_context_def)
  have r: "length_prefixed (cx_record a) @ length_prefixed (cx_uid a) @ length_prefixed (cx_field a) @ [] =
        length_prefixed (cx_record b) @ length_prefixed (cx_uid b) @ length_prefixed (cx_field b) @ []"
    using assms(1) by (simp add: configAssociatedData_def)
  note u = length_prefixed_inject [OF r short(1,4)]
  note f = length_prefixed_inject [OF conjunct2 [OF u] short(2,5)]
  have "cx_field a = cx_field b"
    using length_prefixed_inject [OF conjunct2 [OF f] short(3,6)] by simp
  with u f have "cx_record a = cx_record b \<and> cx_uid a = cx_uid b \<and> cx_field a = cx_field b" by simp
  then show ?thesis by simp
qed

section \<open>The keys a process has\<close>

text \<open>The state of a \<^verbatim>\<open>ConfigCipher\<close>: the loaded keys by kid in the order of the ring, their dates, what the state row said last, and the
  bookkeeping of reloads. \<open>cc_notified\<close> counts how often the listeners were told of a change, \<open>cc_warnings\<close> is what was logged.\<close>

record ConfigCipher =
  cc_keys :: "(string \<times> nat list) list"
  cc_keyDates :: "(string \<times> string) list"
  cc_newestKid :: "string option"
  cc_oldestKid :: "string option"
  cc_activeKid :: "string option"
  cc_activeKidKnown :: bool
  cc_stateReads :: nat
  cc_lastUnknownKidReload :: int
  cc_lastKeyringError :: "string option"
  cc_lastStateError :: "string option"
  cc_lastSignature :: string
  cc_notified :: nat
  cc_warnings :: "string list"

definition new_cipher :: ConfigCipher where
  "new_cipher =
     \<lparr>cc_keys = [], cc_keyDates = [], cc_newestKid = None, cc_oldestKid = None, cc_activeKid = None, cc_activeKidKnown = True,
      cc_stateReads = 0, cc_lastUnknownKidReload = 0, cc_lastKeyringError = None, cc_lastStateError = None, cc_lastSignature = [],
      cc_notified = 0, cc_warnings = []\<rparr>"

text \<open>Where a process reads its keyring: the engine's dates, the disk and the configured source.\<close>

record keyring_place =
  kp_dates :: "string \<Rightarrow> js_time"
  kp_disk :: disk
  kp_source :: ConfigKeyringSource

definition active_kid_choice :: "ConfigCipher \<Rightarrow> string option" where
  "active_kid_choice c =
     (case cc_activeKid c of
        None \<Rightarrow> cc_oldestKid c
      | Some kid \<Rightarrow> if map_of (cc_keys c) kid \<noteq> None then Some kid else cc_newestKid c)"

definition activeKey :: "ConfigCipher \<Rightarrow> (string \<times> nat list) option" where
  "activeKey c =
     (if \<not> cc_activeKidKnown c then None
      else
        (case active_kid_choice c of
           None \<Rightarrow> None
         | Some kid \<Rightarrow> map_option (\<lambda>key. (kid, key)) (map_of (cc_keys c) kid)))"

definition currentKid :: "ConfigCipher \<Rightarrow> string option" where
  "currentKid c = map_option fst (activeKey c)"

definition loadedKids :: "ConfigCipher \<Rightarrow> string list" where
  "loadedKids c = map fst (cc_keys c)"

text \<open>What the key console lists: kid, date and whether this process encrypts with it, never the key.\<close>

definition keyInfo :: "ConfigCipher \<Rightarrow> (string \<times> string \<times> bool) list" where
  "keyInfo c = map (\<lambda>(kid, date). (kid, date, currentKid c = Some kid)) (cc_keyDates c)"

definition signature_of :: "ConfigCipher \<Rightarrow> string" where
  "signature_of c = js_join '','' (sort (loadedKids c)) @ ''|'' @ (case currentKid c of None \<Rightarrow> [] | Some kid \<Rightarrow> kid)"

definition notifyIfChanged :: "ConfigCipher \<Rightarrow> ConfigCipher" where
  "notifyIfChanged c =
     (if signature_of c = cc_lastSignature c then c
      else c\<lparr>cc_lastSignature := signature_of c, cc_notified := cc_notified c + 1\<rparr>)"

definition loadKeys :: "keyring_place \<Rightarrow> ConfigCipher \<Rightarrow> ConfigCipher" where
  "loadKeys place c =
     (case readConfigKeyring (kp_dates place) (kp_disk place) (kp_source place) of
        Inl e \<Rightarrow>
          if cc_lastKeyringError c = Some e then c
          else c\<lparr>cc_lastKeyringError := Some e,
                 cc_warnings := cc_warnings c @ [''ConfigCipher: '' @ e @ '' '' @
                   (if cc_keys c \<noteq> [] then ''Keeping the keyring already loaded.'' else ''No secret can be saved or read.'')]\<rparr>
      | Inr None \<Rightarrow> c\<lparr>cc_lastKeyringError := None\<rparr>
      | Inr (Some ring) \<Rightarrow>
          notifyIfChanged
            (c\<lparr>cc_lastKeyringError := None,
               cc_keys := map (\<lambda>k. (ck_kid k, from_base64 (ck_key k))) (cr_keys ring),
               cc_keyDates := map (\<lambda>k. (ck_kid k, ck_createdAt k)) (cr_keys ring),
               cc_newestKid := map_option ck_kid (newestConfigKey (kp_dates place) ring),
               cc_oldestKid := map_option ck_kid (oldestConfigKey (kp_dates place) ring)\<rparr>))"

text \<open>A read of the state row takes a ticket when it starts; its answer - the row's \<^verbatim>\<open>activeKid\<close>, or the message of the failure - counts
  only while no later read has started. Without a repository nothing is read.\<close>

definition start_state_read :: "ConfigCipher \<Rightarrow> nat \<times> ConfigCipher" where
  "start_state_read c = (cc_stateReads c + 1, c\<lparr>cc_stateReads := cc_stateReads c + 1\<rparr>)"

definition end_state_read :: "nat \<Rightarrow> string option checked \<Rightarrow> ConfigCipher \<Rightarrow> ConfigCipher" where
  "end_state_read ticket answer c =
     (case answer of
        Inr kid \<Rightarrow>
          if ticket \<noteq> cc_stateReads c then c
          else notifyIfChanged (c\<lparr>cc_activeKid := kid, cc_activeKidKnown := True, cc_lastStateError := None\<rparr>)
      | Inl e \<Rightarrow>
          if cc_lastStateError c = Some e then c
          else c\<lparr>cc_lastStateError := Some e,
                 cc_warnings := cc_warnings c @ [''ConfigCipher: the active key can't be read ('' @ e @ ''); '' @
                   (if cc_activeKidKnown c then ''keeping the one already known'' else ''encrypting nothing until it can be'') @ ''.'']\<rparr>)"

definition loadActiveKid :: "string option checked option \<Rightarrow> ConfigCipher \<Rightarrow> ConfigCipher" where
  "loadActiveKid repo_answer c =
     (case repo_answer of
        None \<Rightarrow> c
      | Some answer \<Rightarrow> (case start_state_read c of (ticket, c1) \<Rightarrow> end_state_read ticket answer c1))"

definition init_cipher :: "keyring_place \<Rightarrow> string option checked option \<Rightarrow> ConfigCipher" where
  "init_cipher place repo_answer =
     loadActiveKid repo_answer ((loadKeys place new_cipher)\<lparr>cc_activeKidKnown := repo_answer = None\<rparr>)"

definition reload :: "keyring_place \<Rightarrow> string option checked option \<Rightarrow> ConfigCipher \<Rightarrow> ConfigCipher" where
  "reload place repo_answer c = loadActiveKid repo_answer (loadKeys place c)"

section \<open>Sealing and opening\<close>

record aead =
  seal :: "nat list \<Rightarrow> nat list \<Rightarrow> nat list \<Rightarrow> nat list \<Rightarrow> nat list \<times> nat list"
  opened :: "nat list \<Rightarrow> nat list \<Rightarrow> nat list \<Rightarrow> nat list \<Rightarrow> nat list \<Rightarrow> nat list option"

definition is_secret_value :: "js_value \<Rightarrow> bool" where
  "is_secret_value v = (case v of JStr _ \<Rightarrow> True | JBool _ \<Rightarrow> True | JNum _ \<Rightarrow> True | _ \<Rightarrow> False)"

definition encrypt :: "aead \<Rightarrow> nat list \<Rightarrow> ConfigCipher \<Rightarrow> js_value \<Rightarrow> ConfigCipherContext \<Rightarrow> ConfigEnvelope result" where
  "encrypt gcm iv c v ctx =
     (if \<not> is_secret_value v then Inl TypeError
      else
        (case activeKey c of
           None \<Rightarrow>
             Inl (ApiError 503
               (if cc_keys c \<noteq> [] \<and> \<not> cc_activeKidKnown c
                then ''The active configuration key could not be read yet, so secrets can't be saved. Try again in a moment.''
                else ''No configuration keyring is loaded, so secrets can't be saved.''))
         | Some (kid, key) \<Rightarrow>
             (case seal gcm key iv (configAssociatedData ctx) (utf8 (json_stringify v)) of
                (ct, tag) \<Rightarrow> Inr \<lparr>en_kid = kid, en_iv = base64 iv, en_ct = base64 ct, en_tag = base64 tag\<rparr>)))"

datatype ConfigSecretUnavailableReason = Unknown_key | Invalid | Failed

record ConfigSecretUnavailableError =
  su_record :: string
  su_uid :: string
  su_field :: string
  su_reason :: ConfigSecretUnavailableReason

definition unavailable :: "ConfigCipherContext \<Rightarrow> ConfigSecretUnavailableReason \<Rightarrow> ConfigSecretUnavailableError" where
  "unavailable ctx reason = \<lparr>su_record = cx_record ctx, su_uid = cx_uid ctx, su_field = cx_field ctx, su_reason = reason\<rparr>"

text \<open>The key a kid names, after one re-read of the keyring at most every minute for a kid that is not loaded.\<close>

definition key_of_kid :: "keyring_place \<Rightarrow> int \<Rightarrow> string \<Rightarrow> ConfigCipher \<Rightarrow> nat list option \<times> ConfigCipher" where
  "key_of_kid place now kid c =
     (if map_of (cc_keys c) kid = None \<and> now - cc_lastUnknownKidReload c \<ge> CONFIG_RELOAD_INTERVAL_MS then
        (let c1 = loadKeys place (c\<lparr>cc_lastUnknownKidReload := now\<rparr>) in (map_of (cc_keys c1) kid, c1))
      else (map_of (cc_keys c) kid, c))"

text \<open>Opening an envelope with a key found for it.\<close>

definition open_envelope ::
    "aead \<Rightarrow> nat list \<Rightarrow> ConfigEnvelope \<Rightarrow> ConfigCipherContext \<Rightarrow> ConfigSecretUnavailableError + js_value" where
  "open_envelope gcm key e ctx =
     (case (decodeBase64 (en_iv e) (Some NONCE_BYTES), decodeBase64 (en_tag e) (Some TAG_BYTES), decodeBase64 (en_ct e) None) of
        (Some iv, Some tag, Some ct) \<Rightarrow>
          (case opened gcm key iv (configAssociatedData ctx) ct tag of
             None \<Rightarrow> Inl (unavailable ctx Failed)
           | Some bytes \<Rightarrow>
               (case Option.bind (utf8_decode bytes) json_parse of
                  None \<Rightarrow> Inl (unavailable ctx Invalid)
                | Some v \<Rightarrow> if is_secret_value v then Inr v else Inl (unavailable ctx Invalid)))
      | _ \<Rightarrow> Inl (unavailable ctx Invalid))"

definition decrypt ::
    "aead \<Rightarrow> keyring_place \<Rightarrow> int \<Rightarrow> ConfigCipher \<Rightarrow> js_value \<Rightarrow> ConfigCipherContext \<Rightarrow>
     (ConfigSecretUnavailableError + js_value) \<times> ConfigCipher" where
  "decrypt gcm place now c envelope ctx =
     (case as_envelope envelope of
        None \<Rightarrow> (Inl (unavailable ctx Invalid), c)
      | Some e \<Rightarrow>
          (case key_of_kid place now (en_kid e) c of
             (None, c1) \<Rightarrow> (Inl (unavailable ctx Unknown_key), c1)
           | (Some key, c1) \<Rightarrow> (open_envelope gcm key e ctx, c1)))"

definition decryptString ::
    "aead \<Rightarrow> keyring_place \<Rightarrow> int \<Rightarrow> ConfigCipher \<Rightarrow> js_value \<Rightarrow> ConfigCipherContext \<Rightarrow>
     (ConfigSecretUnavailableError + string) \<times> ConfigCipher" where
  "decryptString gcm place now c envelope ctx =
     (case decrypt gcm place now c envelope ctx of
        (Inl e, c1) \<Rightarrow> (Inl e, c1)
      | (Inr (JStr s), c1) \<Rightarrow> (Inr s, c1)
      | (Inr _, c1) \<Rightarrow> (Inl (unavailable ctx Invalid), c1))"

section \<open>The state of a cipher\<close>

text \<open>What every reload keeps: the loaded keys have 32 bytes, and with any key loaded the oldest and the newest are among them.\<close>

definition cipher_ok :: "ConfigCipher \<Rightarrow> bool" where
  "cipher_ok c \<longleftrightarrow>
     (\<forall>(kid, key)\<in>set (cc_keys c). length key = KEY_BYTES \<and> is_bytes key) \<and>
     (cc_keys c \<noteq> [] \<longrightarrow>
        (\<exists>kid. cc_oldestKid c = Some kid \<and> kid \<in> fst ` set (cc_keys c)) \<and>
        (\<exists>kid. cc_newestKid c = Some kid \<and> kid \<in> fst ` set (cc_keys c)))"

inductive cipher_reach :: "ConfigCipher \<Rightarrow> bool" where
  started: "cipher_reach (init_cipher place answer)"
| reloaded: "cipher_reach c \<Longrightarrow> cipher_reach (reload place answer c)"
| read_started: "cipher_reach c \<Longrightarrow> cipher_reach (snd (start_state_read c))"
| read_ended: "cipher_reach c \<Longrightarrow> cipher_reach (end_state_read ticket answer c)"
| decrypted: "cipher_reach c \<Longrightarrow> cipher_reach (snd (decrypt gcm place now c envelope ctx))"

lemma sextet_bytes:
  fixes a b :: nat
  shows "a < 64 \<Longrightarrow> b < 64 \<Longrightarrow> a * 4 + b div 16 < 256"
    and "b < 64 \<Longrightarrow> (a mod 16) * 16 + b div 4 < 256"
    and "b < 64 \<Longrightarrow> (a mod 4) * 64 + b < 256"
proof -
  have "b div 16 < 4" "b div 4 < 16" if "b < 64"
    using that by (simp_all add: less_mult_imp_div_less)
  moreover have "a mod 16 < 16" "a mod 4 < 4" by simp_all
  ultimately show "a < 64 \<Longrightarrow> b < 64 \<Longrightarrow> a * 4 + b div 16 < 256" "b < 64 \<Longrightarrow> (a mod 16) * 16 + b div 4 < 256"
    "b < 64 \<Longrightarrow> (a mod 4) * 64 + b < 256"
    by linarith+
qed

lemma unbase64_bytes: "list_all (\<lambda>v. v < 64) vs \<Longrightarrow> is_bytes (unbase64 vs)"
  by (induction vs rule: unbase64.induct) (simp_all add: is_bytes_def sextet_bytes)

lemma b64_value_less: "b64_value c = Some v \<Longrightarrow> v < 64"
  by (auto simp: b64_value_def Let_def split: if_splits)

lemma from_base64_bytes: "is_bytes (from_base64 s)"
  unfolding from_base64_def
  by (rule unbase64_bytes) (auto simp: list_all_iff set_map_filter_iff dest: b64_value_less)

lemma notify_simps [simp]:
  "cc_keys (notifyIfChanged c) = cc_keys c" "cc_oldestKid (notifyIfChanged c) = cc_oldestKid c"
  "cc_newestKid (notifyIfChanged c) = cc_newestKid c" "cc_activeKid (notifyIfChanged c) = cc_activeKid c"
  "cc_activeKidKnown (notifyIfChanged c) = cc_activeKidKnown c"
  by (simp_all add: notifyIfChanged_def)

lemma cipher_ok_cong:
  "cc_keys c' = cc_keys c \<Longrightarrow> cc_oldestKid c' = cc_oldestKid c \<Longrightarrow> cc_newestKid c' = cc_newestKid c \<Longrightarrow> cipher_ok c' = cipher_ok c"
  by (simp add: cipher_ok_def)

lemma picked_kid:
  assumes "cr_keys ring \<noteq> []"
  shows "\<exists>kid. map_option ck_kid (pick_key better ring) = Some kid \<and> kid \<in> ck_kid ` set (cr_keys ring)"
  using assms pick_key_in [of better ring] pick_key_None [of better ring] by (cases "pick_key better ring") auto

lemma loadKeys_ok:
  assumes "cipher_ok c"
  shows "cipher_ok (loadKeys place c)"
proof -
  consider (err) e where "readConfigKeyring (kp_dates place) (kp_disk place) (kp_source place) = Inl e"
    | (none) "readConfigKeyring (kp_dates place) (kp_disk place) (kp_source place) = Inr None"
    | (ring) ring where "readConfigKeyring (kp_dates place) (kp_disk place) (kp_source place) = Inr (Some ring)"
    by (metis old.sum.exhaust option.exhaust)
  then show ?thesis
  proof cases
    case ring
    then have "usable_ring (kp_dates place) ring" by (rule read_source_usable)
    then have "cr_keys ring \<noteq> []" "\<forall>k\<in>set (cr_keys ring). length (from_base64 (ck_key k)) = KEY_BYTES"
      by (auto simp: usable_ring_def usable_entry_def)
    with picked_kid [of ring] show ?thesis
      by (simp add: loadKeys_def ring cipher_ok_def oldestConfigKey_def newestConfigKey_def image_image from_base64_bytes)
  qed (use assms in \<open>simp_all add: loadKeys_def cipher_ok_def\<close>)
qed

lemma end_state_read_ok: "cipher_ok c \<Longrightarrow> cipher_ok (end_state_read ticket answer c)"
  by (simp add: end_state_read_def cipher_ok_def split: sum.split)

lemma loadActiveKid_ok: "cipher_ok c \<Longrightarrow> cipher_ok (loadActiveKid answer c)"
  by (auto simp: loadActiveKid_def start_state_read_def intro!: end_state_read_ok split: option.split) (simp add: cipher_ok_def)

lemma key_of_kid_ok: "cipher_ok c \<Longrightarrow> cipher_ok (snd (key_of_kid place now kid c))"
  by (auto simp: key_of_kid_def Let_def intro!: loadKeys_ok) (simp add: cipher_ok_def)

lemma decrypt_state:
  "snd (decrypt gcm place now c envelope ctx) = c \<or> (\<exists>kid. snd (decrypt gcm place now c envelope ctx) = snd (key_of_kid place now kid c))"
  by (auto simp: decrypt_def split: option.split prod.split) (metis snd_conv)+

lemma new_cipher_ok: "cipher_ok (new_cipher)"
  by (simp add: cipher_ok_def new_cipher_def)

lemma cipher_reach_ok: "cipher_reach c \<Longrightarrow> cipher_ok c"
proof (induction rule: cipher_reach.induct)
  case (started place answer)
  have "cipher_ok ((loadKeys place new_cipher)\<lparr>cc_activeKidKnown := answer = None\<rparr>)"
    using loadKeys_ok [OF new_cipher_ok] by (simp add: cipher_ok_def)
  then show ?case
    by (simp add: init_cipher_def loadActiveKid_ok)
next
  case (decrypted c gcm place now envelope ctx)
  then show ?case
    using decrypt_state [of gcm place now c envelope ctx] key_of_kid_ok by metis
next
  case (read_started c)
  then show ?case by (simp add: start_state_read_def cipher_ok_def)
qed (simp_all add: reload_def loadActiveKid_ok loadKeys_ok end_state_read_ok)

lemma activeKey_loaded: "activeKey c = Some (kid, key) \<Longrightarrow> map_of (cc_keys c) kid = Some key \<and> cc_activeKidKnown c"
  by (auto simp: activeKey_def split: if_splits option.splits)

lemma activeKey_exists:
  assumes "cipher_ok c" "cc_activeKidKnown c" "cc_keys c \<noteq> []"
  shows "\<exists>kid key. activeKey c = Some (kid, key)"
proof -
  obtain kid where kid: "active_kid_choice c = Some kid" "kid \<in> fst ` set (cc_keys c)"
  proof (cases "cc_activeKid c")
    case None
    with assms that show thesis by (auto simp: cipher_ok_def active_kid_choice_def)
  next
    case (Some k)
    show thesis
    proof (cases "map_of (cc_keys c) k = None")
      case True
      with Some assms that show thesis by (auto simp: cipher_ok_def active_kid_choice_def)
    next
      case False
      with Some that [of k] show thesis by (auto simp: active_kid_choice_def map_of_eq_None_iff)
    qed
  qed
  then have "map_of (cc_keys c) kid \<noteq> None" by (simp add: map_of_eq_None_iff)
  with kid assms(2) show ?thesis
    by (auto simp: activeKey_def)
qed

section \<open>What is sealed is opened, where it belongs and nowhere else\<close>

definition aead_ok :: "aead \<Rightarrow> bool" where
  "aead_ok gcm \<longleftrightarrow>
     (\<forall>key iv aad p. length key = KEY_BYTES \<and> is_bytes key \<and> length iv = NONCE_BYTES \<and> is_bytes iv \<and> is_bytes aad \<and> is_bytes p \<longrightarrow>
        (case seal gcm key iv aad p of
           (ct, tag) \<Rightarrow> is_bytes ct \<and> is_bytes tag \<and> length tag = TAG_BYTES \<and> opened gcm key iv aad ct tag = Some p))"

definition aead_binds :: "aead \<Rightarrow> bool" where
  "aead_binds gcm \<longleftrightarrow>
     (\<forall>key iv aad p key' iv' aad' p'.
        opened gcm key' iv' aad' (fst (seal gcm key iv aad p)) (snd (seal gcm key iv aad p)) = Some p' \<longrightarrow> key' = key \<and> aad' = aad)"

lemma aead_bindsD:
  assumes "aead_binds gcm" "seal gcm key iv aad p = (ct, tag)" "opened gcm key' iv' aad' ct tag = Some p'"
  shows "key' = key \<and> aad' = aad"
proof -
  have "opened gcm key' iv' aad' (fst (seal gcm key iv aad p)) (snd (seal gcm key iv aad p)) = Some p'"
    using assms(2,3) by simp
  then show ?thesis
    using assms(1) unfolding aead_binds_def by blast
qed

lemma associated_data_bytes: "is_bytes (configAssociatedData ctx)"
  using utf8_bytes by (simp add: configAssociatedData_def length_prefixed_def uint32_be_def is_bytes_def)

lemma secret_json: "is_secret_value v \<Longrightarrow> json_parse (json_stringify v) = Some v"
  by (cases v) (simp_all add: is_secret_value_def scalar_roundtrip)

lemma decode_base64: "is_bytes bs \<Longrightarrow> length bs = n \<Longrightarrow> decodeBase64 (base64 bs) (Some n) = Some bs"
  "is_bytes bs \<Longrightarrow> decodeBase64 (base64 bs) None = Some bs"
  by (simp_all add: decodeBase64_def base64_matches base64_roundtrip is_bytes_def)

lemma encrypt_Inr:
  assumes "encrypt gcm iv c v ctx = Inr e"
  obtains key ct tag where "is_secret_value v" "activeKey c = Some (en_kid e, key)" "map_of (cc_keys c) (en_kid e) = Some key"
    "seal gcm key iv (configAssociatedData ctx) (utf8 (json_stringify v)) = (ct, tag)"
    "en_iv e = base64 iv" "en_ct e = base64 ct" "en_tag e = base64 tag"
proof -
  obtain kid key where k: "is_secret_value v" "activeKey c = Some (kid, key)"
    using assms by (auto simp: encrypt_def split: if_splits option.splits)
  obtain ct tag where s: "seal gcm key iv (configAssociatedData ctx) (utf8 (json_stringify v)) = (ct, tag)"
    by (cases "seal gcm key iv (configAssociatedData ctx) (utf8 (json_stringify v))")
  have "e = \<lparr>en_kid = kid, en_iv = base64 iv, en_ct = base64 ct, en_tag = base64 tag\<rparr>"
    using assms k s by (simp add: encrypt_def)
  with k s activeKey_loaded [OF k(2)] show thesis
    by (intro that) simp_all
qed

lemma open_sealed:
  assumes "aead_ok gcm" "length iv = NONCE_BYTES" "is_bytes iv" "length key = KEY_BYTES" "is_bytes key" "is_secret_value v"
    "seal gcm key iv (configAssociatedData ctx) (utf8 (json_stringify v)) = (ct, tag)"
    "en_iv e = base64 iv" "en_ct e = base64 ct" "en_tag e = base64 tag"
  shows "open_envelope gcm key e ctx = Inr v"
proof -
  have "is_bytes ct \<and> is_bytes tag \<and> length tag = TAG_BYTES \<and>
        opened gcm key iv (configAssociatedData ctx) ct tag = Some (utf8 (json_stringify v))"
    using assms(1-5,7) associated_data_bytes [of ctx] utf8_bytes [of "json_stringify v"] unfolding aead_ok_def by fastforce
  with assms show ?thesis
    by (simp add: open_envelope_def decode_base64 secret_json)
qed

text \<open>C8: A secret sealed by any process is read back, for the same record, row and field, by every process that has the key it was sealed
  with, whatever else is in its ring and whichever key it encrypts with itself.\<close>

theorem encrypt_decrypt:
  assumes "aead_ok gcm" "length iv = NONCE_BYTES" "is_bytes iv" "cipher_reach c"
    and "encrypt gcm iv c v ctx = Inr e" "map_of (cc_keys c') (en_kid e) = map_of (cc_keys c) (en_kid e)"
  shows "decrypt gcm place now c' (envelope_json e) ctx = (Inr v, c')"
proof -
  obtain key ct tag where e: "is_secret_value v" "map_of (cc_keys c) (en_kid e) = Some key"
      "seal gcm key iv (configAssociatedData ctx) (utf8 (json_stringify v)) = (ct, tag)"
      "en_iv e = base64 iv" "en_ct e = base64 ct" "en_tag e = base64 tag"
    by (rule encrypt_Inr [OF assms(5)])
  have "length key = KEY_BYTES" "is_bytes key"
    using cipher_reach_ok [OF assms(4)] map_of_SomeD [OF e(2)] by (auto simp: cipher_ok_def)
  then have "open_envelope gcm key e ctx = Inr v"
    using open_sealed [OF assms(1-3) _ _ e(1,3-6)] by simp
  then show ?thesis
    by (simp add: decrypt_def key_of_kid_def assms(6) e(2))
qed

text \<open>C7: An envelope copied to another record, row or field is never opened there, by any process with any keys.\<close>

theorem envelope_stays_in_place:
  assumes "aead_ok gcm" "aead_binds gcm" "length iv = NONCE_BYTES" "is_bytes iv" "cipher_reach c"
    and "encrypt gcm iv c v ctx = Inr e" "ctx' \<noteq> ctx" "short_context ctx" "short_context ctx'"
  shows "isl (fst (decrypt gcm place now c' (envelope_json e) ctx'))"
proof -
  obtain key ct tag where e: "is_secret_value v" "map_of (cc_keys c) (en_kid e) = Some key"
      "seal gcm key iv (configAssociatedData ctx) (utf8 (json_stringify v)) = (ct, tag)"
      "en_iv e = base64 iv" "en_ct e = base64 ct" "en_tag e = base64 tag"
    by (rule encrypt_Inr [OF assms(6)])
  have key: "length key = KEY_BYTES" "is_bytes key"
    using cipher_reach_ok [OF assms(5)] map_of_SomeD [OF e(2)] by (auto simp: cipher_ok_def)
  have sealed: "is_bytes ct \<and> is_bytes tag \<and> length tag = TAG_BYTES"
    using assms(1,3,4) key e(3) associated_data_bytes [of ctx] utf8_bytes [of "json_stringify v"] unfolding aead_ok_def by fastforce
  have "configAssociatedData ctx' \<noteq> configAssociatedData ctx"
    using associated_data_inject assms(7-9) by blast
  then have "opened gcm k iv (configAssociatedData ctx') ct tag = None" for k
    using aead_bindsD [OF assms(2) e(3)] by (metis option.exhaust)
  then have "isl (open_envelope gcm k e ctx')" for k
    using sealed assms(3,4) by (simp add: open_envelope_def e decode_base64)
  then show ?thesis
    by (auto simp: decrypt_def split: prod.split option.split)
qed

text \<open>As soon as a process has loaded a ring and read the state row, it can save secrets; before it has read the row it saves none,
  so it never seals with a key a rotation is about to retire.\<close>

theorem sealing_available:
  assumes "cipher_reach c" "is_secret_value v" "cc_keys c \<noteq> []"
  shows "cc_activeKidKnown c \<longleftrightarrow> \<not> isl (encrypt gcm iv c v ctx)"
proof (cases "cc_activeKidKnown c")
  case True
  then show ?thesis
    using activeKey_exists [OF cipher_reach_ok [OF assms(1)] True assms(3)] assms(2)
    by (auto simp: encrypt_def case_prod_beta)
qed (simp add: encrypt_def activeKey_def assms(2))

section \<open>A process with one key\<close>

text \<open>A cipher that behaves as the hypotheses say: it writes key and associated data in front of the plaintext, each closed by a zero.\<close>

fun closed_list :: "nat list \<Rightarrow> nat list" where
  "closed_list [] = [0]"
| "closed_list (b # bs) = 1 # b # closed_list bs"

definition example_gcm :: aead where
  "example_gcm =
     \<lparr>seal = (\<lambda>key iv aad p. (closed_list key @ closed_list aad @ p, replicate TAG_BYTES 0)),
      opened = (\<lambda>key iv aad ct tag.
        if prefix (closed_list key @ closed_list aad) ct then Some (drop (length (closed_list key @ closed_list aad)) ct) else None)\<rparr>"

lemma closed_list_inject: "closed_list xs @ u = closed_list ys @ v \<Longrightarrow> xs = ys \<and> u = v"
proof (induction xs arbitrary: ys)
  case Nil
  then show ?case by (cases ys) simp_all
next
  case (Cons x xs)
  then show ?case by (cases ys) auto
qed

lemma closed_list_bytes: "is_bytes bs \<Longrightarrow> is_bytes (closed_list bs)"
  by (induction bs) (simp_all add: is_bytes_def)

lemma example_gcm_ok: "aead_ok example_gcm" "aead_binds example_gcm"
proof -
  show "aead_ok example_gcm"
    using closed_list_bytes by (auto simp: aead_ok_def example_gcm_def is_bytes_def TAG_BYTES_def list_all_iff)
  show "aead_binds example_gcm"
    unfolding aead_binds_def
  proof (intro allI impI)
    fix key iv aad p key' iv' aad' p'
    assume "opened example_gcm key' iv' aad' (fst (seal example_gcm key iv aad p)) (snd (seal example_gcm key iv aad p)) = Some p'"
    then obtain r where "closed_list key @ closed_list aad @ p = closed_list key' @ closed_list aad' @ r"
      by (simp add: example_gcm_def split: if_splits) (elim prefixE, simp)
    then have eq: "key = key' \<and> closed_list aad @ p = closed_list aad' @ r"
      by (rule closed_list_inject)
    have "aad = aad' \<and> p = r"
      using eq by (intro closed_list_inject) simp
    with eq show "key' = key \<and> aad' = aad" by simp
  qed
qed

definition example_key :: ConfigKeyEntry where
  "example_key = \<lparr>ck_kid = ''k1'', ck_key = base64 (replicate 32 7), ck_createdAt = ''2026-01-01''\<rparr>"

definition example_ring :: ConfigKeyring where
  "example_ring = \<lparr>cr_keys = [example_key]\<rparr>"

definition example_place :: keyring_place where
  "example_place =
     \<lparr>kp_dates = (\<lambda>s. Some 0),
      kp_disk = \<lparr>dk_files = [''ring.json'' \<mapsto> serializeConfigKeyring example_ring], dk_unreadable = Map.empty\<rparr>,
      kp_source = \<lparr>ks_keyringFile = JStr ''ring.json'', ks_keyring = JUndefined\<rparr>\<rparr>"

definition example_cipher :: ConfigCipher where
  "example_cipher = init_cipher example_place None"

definition example_secret_place :: ConfigCipherContext where
  "example_secret_place = \<lparr>cx_record = ''Plugin'', cx_uid = ''p'', cx_field = ''settings.token''\<rparr>"

definition example_nonce :: "nat list" where
  "example_nonce = replicate 12 5"

lemma example_ring_usable: "usable_ring (\<lambda>s. Some 0) example_ring"
proof -
  have "replicate 32 (7 :: nat) = 7 # 7 # 7 # replicate 29 7"
    by (simp add: numeral_eq_Suc)
  then have "base64 (replicate 32 7) \<noteq> [] \<and> hd (base64 (replicate 32 7)) \<noteq> CHR ''=''"
    by (simp only: base64.simps list.distinct list.sel b64_char_letter) simp
  moreover have "from_base64 (base64 (replicate 32 7)) = replicate 32 7"
    by (rule base64_roundtrip) (simp add: list_all_iff)
  moreover have "kid_pattern ''k1''"
    by (simp add: kid_pattern_def kid_char_def is_digit_def)
  ultimately show ?thesis
    by (simp add: usable_ring_def usable_entry_def example_ring_def example_key_def base64_matches KEY_BYTES_def)
qed

lemma example_read: "readConfigKeyring (kp_dates example_place) (kp_disk example_place) (kp_source example_place) = Inr (Some example_ring)"
proof -
  have "js_trim ''ring.json'' = ''ring.json''"
    by (simp add: js_trim_def js_is_ws_def)
  then show ?thesis
    using keyring_roundtrip_read [OF example_ring_usable]
    by (simp add: readConfigKeyring_def example_place_def read_keyring_text_def readFileSync_def)
qed

lemma example_cipher_keys:
  "cipher_reach example_cipher" "cc_keys example_cipher = [(''k1'', replicate 32 7)]" "activeKey example_cipher = Some (''k1'', replicate 32 7)"
proof -
  have bytes: "from_base64 (base64 (replicate 32 7)) = replicate 32 7"
    by (rule base64_roundtrip) (simp add: list_all_iff)
  show "cipher_reach example_cipher"
    unfolding example_cipher_def by (rule cipher_reach.started)
  show "cc_keys example_cipher = [(''k1'', replicate 32 7)]"
    unfolding example_cipher_def init_cipher_def loadKeys_def example_read
    by (simp add: loadActiveKid_def example_ring_def example_key_def bytes)
  show "activeKey example_cipher = Some (''k1'', replicate 32 7)"
    unfolding example_cipher_def init_cipher_def loadKeys_def example_read
    by (simp add: loadActiveKid_def example_ring_def example_key_def bytes new_cipher_def activeKey_def active_kid_choice_def
        oldestConfigKey_def pick_key_def)
qed

lemma example_nonce_ok: "length example_nonce = NONCE_BYTES" "is_bytes example_nonce"
  by (simp_all add: example_nonce_def NONCE_BYTES_def is_bytes_def list_all_iff)

lemma example_sealed: "\<exists>e. encrypt example_gcm example_nonce example_cipher (JStr ''s'') example_secret_place = Inr e \<and> en_kid e = ''k1''"
  by (simp add: encrypt_def is_secret_value_def example_cipher_keys case_prod_beta)

theorem encrypt_decrypt_witness:
  "\<exists>e. encrypt example_gcm example_nonce example_cipher (JStr ''s'') example_secret_place = Inr e \<and>
       decrypt example_gcm example_place 0 example_cipher (envelope_json e) example_secret_place = (Inr (JStr ''s''), example_cipher)"
  using example_sealed encrypt_decrypt [OF example_gcm_ok(1) example_nonce_ok example_cipher_keys(1)] by blast

lemma example_secret_place_short: "short_context example_secret_place" "short_context (example_secret_place\<lparr>cx_uid := ''q''\<rparr>)"
  by (simp_all add: short_context_def short_text_def example_secret_place_def utf8_char_def)

theorem envelope_stays_in_place_witness:
  "\<exists>e. encrypt example_gcm example_nonce example_cipher (JStr ''s'') example_secret_place = Inr e \<and>
       isl (fst (decrypt example_gcm example_place 0 example_cipher (envelope_json e) (example_secret_place\<lparr>cx_uid := ''q''\<rparr>)))"
proof -
  have "example_secret_place\<lparr>cx_uid := ''q''\<rparr> \<noteq> example_secret_place"
    by (simp add: example_secret_place_def)
  then show ?thesis
    using example_sealed
      envelope_stays_in_place [OF example_gcm_ok example_nonce_ok example_cipher_keys(1) _ _ example_secret_place_short] by blast
qed

theorem sealing_available_witness:
  "cc_activeKidKnown example_cipher \<longleftrightarrow> \<not> isl (encrypt example_gcm example_nonce example_cipher (JBool True) example_secret_place)"
  by (rule sealing_available [OF example_cipher_keys(1)]) (simp_all add: is_secret_value_def example_cipher_keys)

end
