(* ===== verification/Config_Sources.thy ===== *)
theory Config_Sources
  imports Config_Cipher
begin

text \<open>
  The record types whose rows hold envelopes (\<^verbatim>\<open>src/src/secrets/ConfigEnvelopeSource.ts\<close>): the DNS provider configs
  (\<^verbatim>\<open>dns/DnsProviderEnvelopeSource.ts\<close>), the plugins (\<^verbatim>\<open>plugins/PluginEnvelopeSource.ts\<close>) and the integration settings
  (\<^verbatim>\<open>util/IntegrationSettingsEnvelopeSource.ts\<close>), as what they list and what they replace in the fields of a row. The locale
  \<open>envelope_source\<close> is the interface a re-encryption pass relies on; the three sources are its instances.
\<close>

section \<open>The interface\<close>

text \<open>The fields of a row are its stored document.\<close>

record ConfigEnvelopeSource =
  es_record :: string
  es_envelopes :: "(string \<times> js_value) list \<Rightarrow> (string \<times> ConfigEnvelope) list"
  es_replace :: "(string \<times> js_value) list \<Rightarrow> (string \<times> ConfigEnvelope) list \<Rightarrow> (string \<times> js_value) list"

definition register_source :: "ConfigEnvelopeSource list \<Rightarrow> ConfigEnvelopeSource \<Rightarrow> ConfigEnvelopeSource list checked" where
  "register_source registry src =
     (if es_record src \<in> es_record ` set registry
      then Inl (''A source of '' @ [CHR 0x27] @ es_record src @ [CHR 0x27] @ '' envelopes is already registered.'')
      else Inr (registry @ [src]))"

definition merge_fields :: "(string \<times> js_value) list \<Rightarrow> (string \<times> js_value) list \<Rightarrow> (string \<times> js_value) list" where
  "merge_fields fs changes = foldl (\<lambda>acc (k, v). obj_set acc k v) fs changes"

definition object_entries :: "js_value \<Rightarrow> (string \<times> js_value) list" where
  "object_entries v = (case v of JObj fs \<Rightarrow> fs | _ \<Rightarrow> [])"

text \<open>A document: no property twice, at any depth.\<close>

fun doc_ok :: "js_value \<Rightarrow> bool" where
  "doc_ok (JArr vs) = list_all doc_ok vs"
| "doc_ok (JObj fs) = (distinct (map fst fs) \<and> list_all (\<lambda>(k, v). doc_ok v) fs)"
| "doc_ok v = True"

definition with_replacements :: "(string \<times> ConfigEnvelope) list \<Rightarrow> (string \<times> ConfigEnvelope) list \<Rightarrow> (string \<times> ConfigEnvelope) list" where
  "with_replacements reps es = map (\<lambda>(f, e). (f, case map_of reps f of None \<Rightarrow> e | Some e' \<Rightarrow> e')) es"

text \<open>What a pass relies on: replacing envelopes replaces those and nothing else a source lists, and leaves a document.\<close>

locale envelope_source =
  fixes src :: ConfigEnvelopeSource
  assumes replaced_envelopes:
    "doc_ok (JObj fs) \<Longrightarrow> distinct (map fst reps) \<Longrightarrow> fst ` set reps \<subseteq> fst ` set (es_envelopes src fs) \<Longrightarrow>
     es_envelopes src (merge_fields fs (es_replace src fs reps)) = with_replacements reps (es_envelopes src fs)"
  and replaced_doc:
    "doc_ok (JObj fs) \<Longrightarrow> doc_ok (JObj (merge_fields fs (es_replace src fs reps)))"
begin

text \<open>Every path stays, and an envelope is either the one it was or its replacement.\<close>

lemma replaced_paths:
  "doc_ok (JObj fs) \<Longrightarrow> distinct (map fst reps) \<Longrightarrow> fst ` set reps \<subseteq> fst ` set (es_envelopes src fs) \<Longrightarrow>
   map fst (es_envelopes src (merge_fields fs (es_replace src fs reps))) = map fst (es_envelopes src fs)"
  by (simp add: replaced_envelopes with_replacements_def case_prod_beta)

lemma replaced_at:
  assumes "doc_ok (JObj fs)" "distinct (map fst reps)" "fst ` set reps \<subseteq> fst ` set (es_envelopes src fs)"
    and "(f, e) \<in> set (es_envelopes src fs)"
  shows "(f, case map_of reps f of None \<Rightarrow> e | Some e' \<Rightarrow> e') \<in> set (es_envelopes src (merge_fields fs (es_replace src fs reps)))"
  using assms(4) by (force simp: replaced_envelopes [OF assms(1-3)] with_replacements_def)

end

section \<open>The DNS providers\<close>

definition envelope_entries :: "(string \<Rightarrow> string) \<Rightarrow> (string \<times> js_value) list \<Rightarrow> (string \<times> ConfigEnvelope) list" where
  "envelope_entries path entries = List.map_filter (\<lambda>(k, v). map_option (\<lambda>e. (path k, e)) (as_envelope v)) entries"

definition CREDENTIALS_PREFIX :: string where
  "CREDENTIALS_PREFIX = ''credentials.''"

definition put_credential :: "(string \<times> js_value) list \<Rightarrow> string \<times> ConfigEnvelope \<Rightarrow> (string \<times> js_value) list" where
  "put_credential credentials r =
     (let field = drop (length CREDENTIALS_PREFIX) (fst r)
      in if prefix CREDENTIALS_PREFIX (fst r) \<and> field \<in> fst ` set credentials then obj_set credentials field (envelope_json (snd r)) else credentials)"

definition dnsProviderEnvelopeSource :: ConfigEnvelopeSource where
  "dnsProviderEnvelopeSource =
     \<lparr>es_record = ''DnsProvider'',
      es_envelopes = (\<lambda>row. envelope_entries (\<lambda>k. CREDENTIALS_PREFIX @ k) (object_entries (member row ''credentials''))),
      es_replace = (\<lambda>row replacements. [(''credentials'', JObj (foldl put_credential (object_entries (member row ''credentials'')) replacements))])\<rparr>"

section \<open>The plugins\<close>

definition pluginSecretField :: "string \<Rightarrow> string" where
  "pluginSecretField key = ''settings.'' @ key"

text \<open>The envelope that replaces the value at a path, when that is an envelope and a replacement was made for it.\<close>

definition replacement :: "(string \<times> ConfigEnvelope) list \<Rightarrow> string \<Rightarrow> js_value \<Rightarrow> ConfigEnvelope option" where
  "replacement reps path v = (if isConfigEnvelope v then map_of reps path else None)"

definition replaced_value :: "(string \<times> ConfigEnvelope) list \<Rightarrow> string \<Rightarrow> js_value \<Rightarrow> js_value" where
  "replaced_value reps path v = (case replacement reps path v of None \<Rightarrow> v | Some e \<Rightarrow> envelope_json e)"

definition pluginEnvelopeSource :: ConfigEnvelopeSource where
  "pluginEnvelopeSource =
     \<lparr>es_record = ''Plugin'',
      es_envelopes = (\<lambda>row. envelope_entries pluginSecretField (object_entries (member row ''settings''))),
      es_replace = (\<lambda>row reps.
        let settings = object_entries (member row ''settings'')
        in if list_ex (\<lambda>(k, v). replacement reps (pluginSecretField k) v \<noteq> None) settings
           then [(''settings'', JObj (map (\<lambda>(k, v). (k, replaced_value reps (pluginSecretField k) v)) settings))]
           else [])\<rparr>"

section \<open>The integration settings\<close>

definition sub_member :: "js_value \<Rightarrow> string \<Rightarrow> js_value" where
  "sub_member v k = member (object_entries v) k"

definition array_items :: "js_value \<Rightarrow> js_value list" where
  "array_items v = (case v of JArr vs \<Rightarrow> vs | _ \<Rightarrow> [])"

definition text_of :: "js_value \<Rightarrow> string" where
  "text_of v = (case v of JStr s \<Rightarrow> s | _ \<Rightarrow> [])"

definition GIPHY_API_KEY_FIELD :: string where
  "GIPHY_API_KEY_FIELD = ''giphy.apiKey''"

definition PLUGIN_REGISTRY_TOKEN_FIELD :: string where
  "PLUGIN_REGISTRY_TOKEN_FIELD = ''pluginRegistry.token''"

definition pluginNamespaceTokenField :: "string \<Rightarrow> string" where
  "pluginNamespaceTokenField name = ''pluginRegistry.namespaces.'' @ name @ ''.token''"

definition namespace_path :: "js_value \<Rightarrow> string" where
  "namespace_path namespace = pluginNamespaceTokenField (text_of (sub_member namespace ''name''))"

definition registry_namespaces :: "(string \<times> js_value) list \<Rightarrow> js_value list" where
  "registry_namespaces row = array_items (sub_member (member row ''pluginRegistry'') ''namespaces'')"

definition next_namespace :: "(string \<times> ConfigEnvelope) list \<Rightarrow> js_value \<Rightarrow> js_value" where
  "next_namespace reps namespace =
     (case replacement reps (namespace_path namespace) (sub_member namespace ''token'') of
        None \<Rightarrow> namespace
      | Some e \<Rightarrow> JObj (obj_set (object_entries namespace) ''token'' (envelope_json e)))"

definition giphy_change :: "(string \<times> js_value) list \<Rightarrow> (string \<times> ConfigEnvelope) list \<Rightarrow> (string \<times> js_value) list" where
  "giphy_change row reps =
     (let giphy = member row ''giphy'' in
      case replacement reps GIPHY_API_KEY_FIELD (sub_member giphy ''apiKey'') of
        None \<Rightarrow> []
      | Some e \<Rightarrow> [(''giphy'', JObj (obj_set (object_entries giphy) ''apiKey'' (envelope_json e)))])"

definition registry_change :: "(string \<times> js_value) list \<Rightarrow> (string \<times> ConfigEnvelope) list \<Rightarrow> (string \<times> js_value) list" where
  "registry_change row reps =
     (let registry = member row ''pluginRegistry'';
          namespaces = registry_namespaces row;
          token = replacement reps PLUGIN_REGISTRY_TOKEN_FIELD (sub_member registry ''token'');
          renamed = (case token of None \<Rightarrow> object_entries registry | Some e \<Rightarrow> obj_set (object_entries registry) ''token'' (envelope_json e))
      in if token \<noteq> None \<or> list_ex (\<lambda>n. replacement reps (namespace_path n) (sub_member n ''token'') \<noteq> None) namespaces then
           [(''pluginRegistry'',
             JObj (case sub_member registry ''namespaces'' of
                     JArr ns \<Rightarrow> obj_set renamed ''namespaces'' (JArr (map (next_namespace reps) ns))
                   | _ \<Rightarrow> renamed))]
         else [])"

definition integrationSettingsEnvelopeSource :: ConfigEnvelopeSource where
  "integrationSettingsEnvelopeSource =
     \<lparr>es_record = ''IntegrationSettings'',
      es_envelopes = (\<lambda>row. List.map_filter (\<lambda>(path, v). map_option (\<lambda>e. (path, e)) (as_envelope v))
        ([(GIPHY_API_KEY_FIELD, sub_member (member row ''giphy'') ''apiKey''),
          (PLUGIN_REGISTRY_TOKEN_FIELD, sub_member (member row ''pluginRegistry'') ''token'')] @
         map (\<lambda>n. (namespace_path n, sub_member n ''token'')) (registry_namespaces row))),
      es_replace = (\<lambda>row reps. giphy_change row reps @ registry_change row reps)\<rparr>"

section \<open>They keep the interface\<close>

lemma member_obj_set: "member (obj_set fs k v) j = (if j = k then v else member fs j)"
  by (induction fs k v rule: obj_set.induct) (auto simp: member_def)

lemma fst_obj_set: "map fst (obj_set fs k v) = (if k \<in> fst ` set fs then map fst fs else map fst fs @ [k])"
  by (induction fs k v rule: obj_set.induct) auto

lemma obj_set_doc: "doc_ok (JObj fs) \<Longrightarrow> doc_ok v \<Longrightarrow> doc_ok (JObj (obj_set fs k v))"
proof -
  have "list_all (\<lambda>(k, v). doc_ok v) fs \<Longrightarrow> doc_ok v \<Longrightarrow> list_all (\<lambda>(k, v). doc_ok v) (obj_set fs k v)"
    by (induction fs k v rule: obj_set.induct) auto
  then show "doc_ok (JObj fs) \<Longrightarrow> doc_ok v \<Longrightarrow> doc_ok (JObj (obj_set fs k v))"
    by (auto simp: fst_obj_set)
qed

lemma envelope_doc: "doc_ok (envelope_json e)"
  by (simp add: envelope_json_def)

lemma member_doc: "doc_ok (JObj fs) \<Longrightarrow> doc_ok (member fs k)"
  by (auto simp: member_def list_all_iff dest!: map_of_SomeD split: option.split)

lemma object_entries_doc: "doc_ok v \<Longrightarrow> doc_ok (JObj (object_entries v))"
  by (cases v) (simp_all add: object_entries_def)

lemma object_entries_JObj [simp]: "object_entries (JObj fs) = fs"
  by (simp add: object_entries_def)

lemma merge_simps [simp]: "merge_fields fs [] = fs" "merge_fields fs ((k, v) # cs) = merge_fields (obj_set fs k v) cs"
  by (simp_all add: merge_fields_def)

lemma entries_replaced:
  assumes "\<And>k v. (k, v) \<in> set cs \<Longrightarrow>
    as_envelope (f k v) = map_option (\<lambda>e. case map_of reps (path k) of None \<Rightarrow> e | Some e' \<Rightarrow> e') (as_envelope v)"
  shows "envelope_entries path (map (\<lambda>(k, v). (k, f k v)) cs) = with_replacements reps (envelope_entries path cs)"
  using assms
proof (induction cs)
  case (Cons c cs)
  obtain k v where c: "c = (k, v)" by (cases c)
  have "as_envelope (f k v) = map_option (\<lambda>e. case map_of reps (path k) of None \<Rightarrow> e | Some e' \<Rightarrow> e') (as_envelope v)"
    using Cons.prems c by simp
  with Cons c show ?case
    by (cases "as_envelope v") (auto simp: envelope_entries_def with_replacements_def map_filter_simps)
qed (simp add: envelope_entries_def with_replacements_def map_filter_simps)

lemma replaced_value_envelope:
  "as_envelope (replaced_value reps p v) = map_option (\<lambda>e. case map_of reps p of None \<Rightarrow> e | Some e' \<Rightarrow> e') (as_envelope v)"
  by (auto simp: replaced_value_def replacement_def isConfigEnvelope_def split: option.split)

lemma replaced_value_same: "replacement reps p v = None \<Longrightarrow> replaced_value reps p v = v"
  by (simp add: replaced_value_def)

lemma replaced_value_doc: "doc_ok v \<Longrightarrow> doc_ok (replaced_value reps p v)"
  by (auto simp: replaced_value_def envelope_doc split: option.split)

text \<open>The credentials: one replacement after the other is all of them at once.\<close>

lemma put_credential_map:
  assumes "distinct (map fst cs)"
  shows "put_credential cs (p, e) = map (\<lambda>(k, v). (k, if CREDENTIALS_PREFIX @ k = p then envelope_json e else v)) cs"
proof (cases "prefix CREDENTIALS_PREFIX p")
  case True
  then obtain k where p: "p = CREDENTIALS_PREFIX @ k" by (auto simp: prefix_def)
  have "obj_set cs k x = map (\<lambda>(k', v). (k', if k' = k then x else v)) cs" if "k \<in> fst ` set cs" for x
    using assms that
  proof (induction cs)
    case (Cons c cs)
    then show ?case by (cases c) (force intro!: map_idI [symmetric] split: if_splits)
  qed simp
  moreover have "map (\<lambda>(k', v). (k', if k' = k then x else v)) cs = cs" if "k \<notin> fst ` set cs" for x
    using that by (intro map_idI) force
  ultimately show ?thesis
    by (simp add: put_credential_def p Let_def)
next
  case False
  then have "CREDENTIALS_PREFIX @ k \<noteq> p" for k by (auto simp: prefix_def)
  then show ?thesis
    using False by (simp add: put_credential_def case_prod_beta)
qed

lemma put_credentials_map:
  assumes "distinct (map fst cs)" "distinct (map fst reps)"
  shows "foldl put_credential cs reps =
    map (\<lambda>(k, v). (k, case map_of reps (CREDENTIALS_PREFIX @ k) of None \<Rightarrow> v | Some e \<Rightarrow> envelope_json e)) cs"
  using assms
proof (induction reps arbitrary: cs)
  case (Cons r reps)
  obtain p e where r: "r = (p, e)" by (cases r)
  let ?cs = "map (\<lambda>(k, v). (k, if CREDENTIALS_PREFIX @ k = p then envelope_json e else v)) cs"
  have "map fst ?cs = map fst cs" by (simp add: case_prod_beta)
  then have "distinct (map fst ?cs)" using Cons.prems(1) by (simp only:)
  then have "foldl put_credential ?cs reps =
      map (\<lambda>(k, v). (k, case map_of reps (CREDENTIALS_PREFIX @ k) of None \<Rightarrow> v | Some e \<Rightarrow> envelope_json e)) ?cs"
    using Cons.prems(2) by (intro Cons.IH) simp_all
  moreover have "map_of reps p = None"
    using Cons.prems r by (simp add: map_of_eq_None_iff)
  ultimately show ?case
    using Cons.prems(1) by (auto simp: r put_credential_map case_prod_beta split: option.split)
qed simp

lemma entries_distinct:
  assumes "distinct (map fst cs)" "path k \<in> fst ` set (envelope_entries path cs)" "(k, v) \<in> set cs" "inj path"
  shows "as_envelope v \<noteq> None"
proof -
  obtain k' v' where "(k', v') \<in> set cs" "path k' = path k" "as_envelope v' \<noteq> None"
    using assms(2) by (auto simp: envelope_entries_def set_map_filter_iff)
  moreover from this have "k' = k" using assms(4) by (simp add: inj_eq)
  ultimately show ?thesis
    using assms(1,3) by (metis eq_key_imp_eq_value)
qed

interpretation dns_source: envelope_source dnsProviderEnvelopeSource
proof
  fix fs reps
  let ?cs = "object_entries (member fs ''credentials'')" and ?path = "\<lambda>k. CREDENTIALS_PREFIX @ k"
  assume doc: "doc_ok (JObj fs)"
  then have cs: "distinct (map fst ?cs)" "list_all (\<lambda>(k, v). doc_ok v) ?cs"
    using object_entries_doc [OF member_doc] by simp_all
  have inj: "inj ?path" by (simp add: inj_def)
  show "es_envelopes dnsProviderEnvelopeSource (merge_fields fs (es_replace dnsProviderEnvelopeSource fs reps)) =
      with_replacements reps (es_envelopes dnsProviderEnvelopeSource fs)"
    if reps: "distinct (map fst reps)" "fst ` set reps \<subseteq> fst ` set (es_envelopes dnsProviderEnvelopeSource fs)"
  proof -
    have "as_envelope (case map_of reps (?path k) of None \<Rightarrow> v | Some e \<Rightarrow> envelope_json e) =
        map_option (\<lambda>e. case map_of reps (?path k) of None \<Rightarrow> e | Some e' \<Rightarrow> e') (as_envelope v)" if "(k, v) \<in> set ?cs" for k v
    proof (cases "map_of reps (?path k)")
      case (Some e)
      then have "?path k \<in> fst ` set (envelope_entries ?path ?cs)"
        using reps(2) by (force simp: dnsProviderEnvelopeSource_def dest: map_of_SomeD)
      then have "as_envelope v \<noteq> None"
        by (rule entries_distinct [OF cs(1) _ that inj])
      with Some show ?thesis by auto
    qed (simp add: option.map_id0 option.map_ident)
    then show ?thesis
      using entries_replaced [of ?cs _ reps ?path]
      by (simp add: dnsProviderEnvelopeSource_def member_obj_set put_credentials_map [OF cs(1) reps(1)])
  qed
  show "doc_ok (JObj (merge_fields fs (es_replace dnsProviderEnvelopeSource fs reps)))"
  proof -
    have "doc_ok (JObj (put_credential c r))" if "doc_ok (JObj c)" for c r
      using that obj_set_doc [OF that envelope_doc] by (simp add: put_credential_def Let_def del: doc_ok.simps)
    then have "doc_ok (JObj (foldl put_credential c reps))" if "doc_ok (JObj c)" for c
      using that by (induction reps arbitrary: c) (simp_all del: doc_ok.simps)
    then have "doc_ok (JObj (foldl put_credential ?cs reps))"
      using cs by simp
    then show ?thesis
      using obj_set_doc [OF doc] by (simp add: dnsProviderEnvelopeSource_def del: doc_ok.simps)
  qed
qed

interpretation plugin_source: envelope_source pluginEnvelopeSource
proof
  fix fs reps
  let ?cs = "object_entries (member fs ''settings'')"
  let ?new = "map (\<lambda>(k, v). (k, replaced_value reps (pluginSecretField k) v)) ?cs"
  assume doc: "doc_ok (JObj fs)"
  show "es_envelopes pluginEnvelopeSource (merge_fields fs (es_replace pluginEnvelopeSource fs reps)) =
      with_replacements reps (es_envelopes pluginEnvelopeSource fs)"
  proof -
    have new: "envelope_entries pluginSecretField ?new = with_replacements reps (envelope_entries pluginSecretField ?cs)"
      by (rule entries_replaced) (rule replaced_value_envelope)
    show ?thesis
    proof (cases "list_ex (\<lambda>(k, v). replacement reps (pluginSecretField k) v \<noteq> None) ?cs")
      case True
      then show ?thesis
        using new by (simp add: pluginEnvelopeSource_def member_obj_set)
    next
      case False
      then have "?new = ?cs"
        by (intro map_idI) (auto simp: list_ex_iff intro!: replaced_value_same)
      then show ?thesis
        using False new by (simp add: pluginEnvelopeSource_def)
    qed
  qed
  have "doc_ok (JObj ?new)"
    using object_entries_doc [OF member_doc [OF doc, of "''settings''"]] replaced_value_doc
    by (auto simp: case_prod_beta comp_def list_all_iff)
  then show "doc_ok (JObj (merge_fields fs (es_replace pluginEnvelopeSource fs reps)))"
    using doc obj_set_doc [OF doc] by (simp add: pluginEnvelopeSource_def Let_def del: doc_ok.simps)
qed

text \<open>The integration settings: every place keeps its path, and its value is replaced or stays.\<close>

lemma sub_member_JObj [simp]: "sub_member (JObj fs) k = member fs k"
  by (simp add: sub_member_def)

lemma next_namespace_members:
  "sub_member (next_namespace reps n) ''token'' = replaced_value reps (namespace_path n) (sub_member n ''token'')"
  "namespace_path (next_namespace reps n) = namespace_path n"
  by (auto simp: next_namespace_def replaced_value_def namespace_path_def member_obj_set sub_member_def split: option.split)

lemma next_namespace_doc: "doc_ok n \<Longrightarrow> doc_ok (next_namespace reps n)"
  using obj_set_doc [OF object_entries_doc envelope_doc, of n]
  by (auto simp: next_namespace_def simp del: doc_ok.simps split: option.split)

definition settings_places :: "(string \<times> js_value) list \<Rightarrow> (string \<times> js_value) list" where
  "settings_places row =
     [(GIPHY_API_KEY_FIELD, sub_member (member row ''giphy'') ''apiKey''),
      (PLUGIN_REGISTRY_TOKEN_FIELD, sub_member (member row ''pluginRegistry'') ''token'')] @
     map (\<lambda>n. (namespace_path n, sub_member n ''token'')) (registry_namespaces row)"

lemma settings_envelopes: "es_envelopes integrationSettingsEnvelopeSource row = envelope_entries (\<lambda>p. p) (settings_places row)"
  by (simp add: integrationSettingsEnvelopeSource_def settings_places_def envelope_entries_def)

lemma giphy_replaced:
  "sub_member (member (merge_fields row (giphy_change row reps)) ''giphy'') ''apiKey'' =
     replaced_value reps GIPHY_API_KEY_FIELD (sub_member (member row ''giphy'') ''apiKey'')"
  "member (merge_fields row (giphy_change row reps)) ''pluginRegistry'' = member row ''pluginRegistry''"
  by (auto simp: giphy_change_def replaced_value_def member_obj_set Let_def split: option.split)

lemma registry_replaced:
  assumes "row' = merge_fields row (registry_change row reps)"
  shows "member row' ''giphy'' = member row ''giphy''"
    and "sub_member (member row' ''pluginRegistry'') ''token'' =
      replaced_value reps PLUGIN_REGISTRY_TOKEN_FIELD (sub_member (member row ''pluginRegistry'') ''token'')"
    and "registry_namespaces row' = map (next_namespace reps) (registry_namespaces row)"
proof -
  let ?reg = "member row ''pluginRegistry''"
  let ?token = "replacement reps PLUGIN_REGISTRY_TOKEN_FIELD (sub_member ?reg ''token'')"
  let ?some = "list_ex (\<lambda>n. replacement reps (namespace_path n) (sub_member n ''token'') \<noteq> None) (registry_namespaces row)"
  have same: "map (next_namespace reps) (registry_namespaces row) = registry_namespaces row" if "\<not> ?some"
    using that by (intro map_idI) (auto simp: list_ex_iff next_namespace_def)
  show "member row' ''giphy'' = member row ''giphy''"
    by (simp add: assms registry_change_def Let_def member_obj_set)
  show "sub_member (member row' ''pluginRegistry'') ''token'' = replaced_value reps PLUGIN_REGISTRY_TOKEN_FIELD (sub_member ?reg ''token'')"
    by (auto simp: assms registry_change_def Let_def member_obj_set replaced_value_def sub_member_def split: option.split js_value.split)
  show "registry_namespaces row' = map (next_namespace reps) (registry_namespaces row)"
    using same
    by (auto simp: assms registry_change_def Let_def member_obj_set registry_namespaces_def sub_member_def array_items_def
        split: option.split js_value.split)
qed

interpretation settings_source: envelope_source integrationSettingsEnvelopeSource
proof
  fix fs reps
  let ?row1 = "merge_fields fs (giphy_change fs reps)"
  let ?row2 = "merge_fields ?row1 (registry_change ?row1 reps)"
  have change: "registry_change fs reps = registry_change ?row1 reps"
    by (simp add: registry_change_def registry_namespaces_def giphy_replaced)
  have row2: "merge_fields fs (es_replace integrationSettingsEnvelopeSource fs reps) = ?row2"
    by (simp add: integrationSettingsEnvelopeSource_def change merge_fields_def)
  assume doc: "doc_ok (JObj fs)"
  have namespaces: "registry_namespaces ?row2 = map (next_namespace reps) (registry_namespaces fs)"
    using registry_replaced(3) [OF refl, of ?row1 reps] by (simp add: registry_namespaces_def giphy_replaced)
  have "settings_places ?row2 = map (\<lambda>(p, v). (p, replaced_value reps p v)) (settings_places fs)"
    using registry_replaced(1,2) [OF refl, of ?row1 reps]
    by (simp add: settings_places_def namespaces giphy_replaced next_namespace_members comp_def)
  then show "es_envelopes integrationSettingsEnvelopeSource (merge_fields fs (es_replace integrationSettingsEnvelopeSource fs reps)) =
      with_replacements reps (es_envelopes integrationSettingsEnvelopeSource fs)"
    unfolding row2 settings_envelopes
    by (simp only:) (rule entries_replaced, rule replaced_value_envelope)
  have doc1: "doc_ok (JObj ?row1)"
    using doc obj_set_doc [OF doc obj_set_doc [OF object_entries_doc [OF member_doc [OF doc]] envelope_doc]]
    by (simp add: giphy_change_def Let_def del: doc_ok.simps split: option.split)
  have reg: "doc_ok (JObj (object_entries (member ?row1 ''pluginRegistry'')))"
    by (rule object_entries_doc [OF member_doc [OF doc1]])
  then have "doc_ok (sub_member (member ?row1 ''pluginRegistry'') ''namespaces'')"
    unfolding sub_member_def by (rule member_doc)
  then have ns: "doc_ok (JArr (map (next_namespace reps) ns))" if "sub_member (member ?row1 ''pluginRegistry'') ''namespaces'' = JArr ns" for ns
    using that next_namespace_doc by (simp add: list_all_iff)
  have "doc_ok (JObj (merge_fields ?row1 (registry_change ?row1 reps)))"
    using doc1 reg ns obj_set_doc envelope_doc
    by (auto simp: registry_change_def Let_def simp del: doc_ok.simps split: option.split js_value.split)
  then show "doc_ok (JObj (merge_fields fs (es_replace integrationSettingsEnvelopeSource fs reps)))"
    unfolding row2 .
qed

end
