(* ===== verification/Config_Rotation.thy ===== *)
theory Config_Rotation
  imports Config_Sources Paging
begin

text \<open>
  The rotation of the configuration key: the job (\<^verbatim>\<open>src/src/jobs/ConfigKeyRotationJob.ts\<close>) with its four steps, the re-encryption pass over the
  registered record types and the two requests of the console
  (\<^verbatim>\<open>routes/BaseConfigKeyRoute.ts\<close>).

  What the server copies share - the state row, the keyring store, the tables, the heartbeats - is a record that other writers
  may change before every call the job waits for: \<open>ce_others env n\<close> is what they do before its \<open>n\<close>-th call, and that call fails when
  \<open>ce_fails env n\<close> says so. A handler is a function from the world to its result and the next world, or \<^const>\<open>None\<close>
  if the paging of a pass never ends. Log lines and the once-a-key warning about a late copy are left out, the message of a \<^verbatim>\<open>TypeError\<close>
  is empty, and the building of the repositories does not fail. A run has its dependencies, the runs of one process do not overlap
  (\<^verbatim>\<open>running\<close>), and the requests of the console come from an elevated administrator with a keyring store and a channel configured.
\<close>

section \<open>The data\<close>

datatype ConfigKeyRotationPhase = Adding | Activating | Reencrypting | Retiring | Done | Gave_up

record ConfigKeyRotation =
  ro_kid :: "string option"
  ro_previousKids :: "string list"
  ro_keyringKids :: "string list option"
  ro_compromised :: bool
  ro_requestedBy :: string
  ro_requestedAt :: js_time
  ro_phase :: ConfigKeyRotationPhase
  ro_activationStartedAt :: "int option"
  ro_waitingFor :: "string list option"
  ro_activatedAt :: "int option"
  ro_activationForced :: "(string \<times> int \<times> string list) option"
  ro_finishedAt :: "int option"
  ro_lastError :: "string option"

record ConfigKeyUnreadableEnvelope =
  ue_record :: string
  ue_uid :: string
  ue_field :: string
  ue_kid :: string

record ConfigKeyReencryption =
  rx_targetKid :: string
  rx_complete :: bool
  rx_startedAt :: int
  rx_finishedAt :: "int option"
  rx_unreadable :: "ConfigKeyUnreadableEnvelope list option"

text \<open>The envelopes per kid (\<^verbatim>\<open>Record<string, number>\<close>), zero where nothing was counted. A kid that names a property every object
  inherits is outside the model.\<close>

type_synonym counts = "string \<Rightarrow> nat"

definition no_counts :: counts where
  "no_counts = (\<lambda>kid. 0)"

definition count_one :: "string \<Rightarrow> counts \<Rightarrow> counts" where
  "count_one kid cs = cs(kid := cs kid + 1)"

record ConfigKeyState =
  st_activeKid :: "string option"
  st_rotation :: "ConfigKeyRotation option"
  st_kidUsage :: "counts option"
  st_countedAt :: "int option"
  st_reencryption :: "ConfigKeyReencryption option"
  st_version :: nat

record ConfigKeyHeartbeatEntry =
  hb_copy :: string
  hb_kids :: "string list"
  hb_encrypting :: "string option"

text \<open>A row of a record type: its fields as the stored document.\<close>

record entity =
  e_uid :: string
  e_version :: nat
  e_fields :: "(string \<times> js_value) list"

section \<open>The world\<close>

datatype config_audit =
    Config_Key_Rotated string bool
  | Config_Key_Activated string nat
  | Config_Reencrypted string
  | Config_Key_Retired string
  | Config_Key_Rotation_Requested bool
  | Config_Key_Activation_Forced string "string list"

record 'd shared =
  sh_state :: "ConfigKeyState option"
  sh_store :: 'd
  sh_tables :: "string \<Rightarrow> entity list"
  sh_beats :: "ConfigKeyHeartbeatEntry list"
  sh_lock :: "nat option"

record 'd config_world =
  cw_shared :: "'d shared"
  cw_cipher :: ConfigCipher
  cw_audit :: "config_audit list"
  cw_notices :: nat
  cw_nonces :: nat
  cw_tick :: nat

record 'd ConfigKeyringStore =
  rs_read :: "'d \<Rightarrow> store_error + ConfigKeyringSnapshot"
  rs_write :: "ConfigKeyring \<Rightarrow> string \<Rightarrow> 'd \<Rightarrow> (store_error + unit) \<times> 'd"

record 'd config_env =
  ce_others :: "nat \<Rightarrow> 'd shared \<Rightarrow> 'd shared"
  ce_fails :: "nat \<Rightarrow> js_error option"
  ce_now :: "nat \<Rightarrow> int"
  ce_place :: "nat \<Rightarrow> keyring_place"
  ce_nonce :: "nat \<Rightarrow> nat list"
  ce_newKey :: "nat \<Rightarrow> ConfigKeyEntry"
  ce_store :: "'d ConfigKeyringStore"
  ce_gcm :: aead
  ce_sources :: "ConfigEnvelopeSource list"
  ce_limit :: nat

type_synonym ('d, 'x) job = "'d config_world \<Rightarrow> ('x result \<times> 'd config_world) option"

definition j_return :: "'x \<Rightarrow> ('d, 'x) job" where
  "j_return x = (\<lambda>w. Some (Inr x, w))"

definition j_throw :: "js_error \<Rightarrow> ('d, 'x) job" where
  "j_throw e = (\<lambda>w. Some (Inl e, w))"

definition j_bind :: "('d, 'x) job \<Rightarrow> ('x \<Rightarrow> ('d, 'y) job) \<Rightarrow> ('d, 'y) job" where
  "j_bind m f = (\<lambda>w. case m w of None \<Rightarrow> None | Some (Inl e, w1) \<Rightarrow> Some (Inl e, w1) | Some (Inr x, w1) \<Rightarrow> f x w1)"

definition j_catch :: "('d, 'x) job \<Rightarrow> (js_error \<Rightarrow> ('d, 'x) job) \<Rightarrow> ('d, 'x) job" where
  "j_catch m f = (\<lambda>w. case m w of None \<Rightarrow> None | Some (Inl e, w1) \<Rightarrow> f e w1 | Some (Inr x, w1) \<Rightarrow> Some (Inr x, w1))"

text \<open>A call another process answers: what it does to the shared state, and its own failure.\<close>

definition begin_call :: "'d config_env \<Rightarrow> 'd config_world \<Rightarrow> 'd config_world" where
  "begin_call env w = w\<lparr>cw_shared := ce_others env (cw_tick w) (cw_shared w), cw_tick := cw_tick w + 1\<rparr>"

definition j_call :: "'d config_env \<Rightarrow> ('d shared \<Rightarrow> 'x result \<times> 'd shared) \<Rightarrow> ('d, 'x) job" where
  "j_call env f = (\<lambda>w.
     let w1 = begin_call env w
     in case ce_fails env (cw_tick w) of
          Some e \<Rightarrow> Some (Inl e, w1)
        | None \<Rightarrow> (case f (cw_shared w1) of (r, sh) \<Rightarrow> Some (r, w1\<lparr>cw_shared := sh\<rparr>)))"

text \<open>What the process reads of itself without waiting.\<close>

definition j_now :: "'d config_env \<Rightarrow> ('d, int) job" where
  "j_now env = (\<lambda>w. Some (Inr (ce_now env (cw_tick w)), w))"

definition j_audit :: "config_audit \<Rightarrow> ('d, unit) job" where
  "j_audit a = (\<lambda>w. Some (Inr (), w\<lparr>cw_audit := cw_audit w @ [a]\<rparr>))"

fun message_of :: "js_error \<Rightarrow> string" where
  "message_of (ApiError s m) = m"
| "message_of (OtherError m) = m"
| "message_of e = []"

fun status_409 :: "js_error \<Rightarrow> bool" where
  "status_409 (ApiError s m) = (s = 409)"
| "status_409 e = False"

section \<open>Calls\<close>

definition load_state :: "'d config_env \<Rightarrow> ('d, ConfigKeyState option) job" where
  "load_state env = j_call env (\<lambda>sh. (Inr (sh_state sh), sh))"

text \<open>A versioned update of the row as it was read: \<open>s\<close> with the fields of the patch replaced.\<close>

definition save_state :: "'d config_env \<Rightarrow> ConfigKeyState \<Rightarrow> (ConfigKeyState \<Rightarrow> ConfigKeyState) \<Rightarrow> ('d, ConfigKeyState) job" where
  "save_state env s patch =
     j_call env (\<lambda>sh.
       case sh_state sh of
         None \<Rightarrow> (Inl (ApiError 404 ''Not found''), sh)
       | Some cur \<Rightarrow>
           if st_version cur \<noteq> st_version s then (Inl (ApiError 409 ''Invalid version''), sh)
           else (let s' = (patch s)\<lparr>st_version := st_version s + 1\<rparr> in (Inr s', sh\<lparr>sh_state := Some s'\<rparr>)))"

definition announce :: "'d config_env \<Rightarrow> ('d, unit) job" where
  "announce env =
     j_catch (j_bind (j_call env (\<lambda>sh. (Inr (), sh))) (\<lambda>_ w. Some (Inr (), w\<lparr>cw_notices := cw_notices w + 1\<rparr>))) (\<lambda>e. j_return ())"

definition find_entities :: "'d config_env \<Rightarrow> string \<Rightarrow> string option \<Rightarrow> ('d, entity list) job" where
  "find_entities env record after = j_call env (\<lambda>sh. (Inr (table_find e_uid (sh_tables sh record) after (ce_limit env)), sh))"

text \<open>A versioned update of a row of a table.\<close>

definition updated_entity :: "entity \<Rightarrow> (string \<times> js_value) list \<Rightarrow> entity" where
  "updated_entity r changes = r\<lparr>e_fields := merge_fields (e_fields r) changes, e_version := e_version r + 1\<rparr>"

definition update_row :: "'d config_env \<Rightarrow> string \<Rightarrow> entity \<Rightarrow> (string \<times> js_value) list \<Rightarrow> ('d, unit) job" where
  "update_row env record r changes =
     j_call env (\<lambda>sh.
       if \<exists>q\<in>set (sh_tables sh record). e_uid q = e_uid r \<and> e_version q = e_version r then
         (Inr (), sh\<lparr>sh_tables := (sh_tables sh)(record :=
            map (\<lambda>q. if e_uid q = e_uid r \<and> e_version q = e_version r then updated_entity r changes else q) (sh_tables sh record))\<rparr>)
       else (Inl (ApiError 409 ''Invalid version''), sh))"

definition reload_cipher :: "'d config_env \<Rightarrow> ('d, unit) job" where
  "reload_cipher env = (\<lambda>w.
     let w1 = begin_call env w;
         answer = (case ce_fails env (cw_tick w) of
                     Some e \<Rightarrow> Inl (message_of e)
                   | None \<Rightarrow> Inr (Option.bind (sh_state (cw_shared w1)) st_activeKid))
     in Some (Inr (), w1\<lparr>cw_cipher := reload (ce_place env (cw_tick w)) (Some answer) (cw_cipher w)\<rparr>))"

section \<open>A pass over the record types\<close>

definition MAX_UNREADABLE_LISTED :: nat where
  "MAX_UNREADABLE_LISTED = 50"

definition MAX_FAILED_LISTED :: nat where
  "MAX_FAILED_LISTED = 5"

record ReencryptionPass =
  ps_counts :: counts
  ps_reencrypted :: counts
  ps_unreadable :: "ConfigKeyUnreadableEnvelope list"
  ps_failed :: "string list"
  ps_complete :: bool

definition empty_pass :: ReencryptionPass where
  "empty_pass = \<lparr>ps_counts = no_counts, ps_reencrypted = no_counts, ps_unreadable = [], ps_failed = [], ps_complete = True\<rparr>"

definition pass_count :: "string \<Rightarrow> ReencryptionPass \<Rightarrow> ReencryptionPass" where
  "pass_count kid pass = pass\<lparr>ps_counts := count_one kid (ps_counts pass)\<rparr>"

definition note_unreadable :: "string \<Rightarrow> string \<Rightarrow> string \<Rightarrow> string \<Rightarrow> ReencryptionPass \<Rightarrow> ReencryptionPass" where
  "note_unreadable record uid field kid pass =
     (if length (ps_unreadable pass) < MAX_UNREADABLE_LISTED
      then pass\<lparr>ps_unreadable := ps_unreadable pass @ [\<lparr>ue_record = record, ue_uid = uid, ue_field = field, ue_kid = kid\<rparr>]\<rparr>
      else pass)"

text \<open>Decrypting and encrypting again in this process; \<^const>\<open>None\<close> for an envelope that cannot be decrypted.\<close>

definition reseal :: "'d config_env \<Rightarrow> ConfigCipherContext \<Rightarrow> ConfigEnvelope \<Rightarrow> ('d, ConfigEnvelope option) job" where
  "reseal env ctx e = (\<lambda>w.
     case decrypt (ce_gcm env) (ce_place env (cw_tick w)) (ce_now env (cw_tick w)) (cw_cipher w) (envelope_json e) ctx of
       (Inl u, c1) \<Rightarrow> Some (Inr None, w\<lparr>cw_cipher := c1\<rparr>)
     | (Inr v, c1) \<Rightarrow>
         (case encrypt (ce_gcm env) (ce_nonce env (cw_nonces w)) c1 v ctx of
            Inl err \<Rightarrow> Some (Inl err, w\<lparr>cw_cipher := c1\<rparr>)
          | Inr fresh \<Rightarrow> Some (Inr (Some fresh), w\<lparr>cw_cipher := c1, cw_nonces := cw_nonces w + 1\<rparr>)))"

text \<open>The envelopes of a row: those on the target are counted, the others replaced, or counted where they are. The result is the replacements
  and the kids they replaced.\<close>

fun reseal_all :: "'d config_env \<Rightarrow> string \<Rightarrow> string \<Rightarrow> string \<Rightarrow> (string \<times> ConfigEnvelope) list \<Rightarrow>
    (string \<times> ConfigEnvelope) list \<Rightarrow> string list \<Rightarrow> ReencryptionPass \<Rightarrow>
    ('d, (string \<times> ConfigEnvelope) list \<times> string list \<times> ReencryptionPass) job" where
  "reseal_all env record uid target [] replacements replaced pass = j_return (replacements, replaced, pass)"
| "reseal_all env record uid target ((field, e) # es) replacements replaced pass =
     (if en_kid e = target then reseal_all env record uid target es replacements replaced (pass_count target pass)
      else
        j_bind (reseal env \<lparr>cx_record = record, cx_uid = uid, cx_field = field\<rparr> e) (\<lambda>fresh.
          let noted = (if fresh = None then note_unreadable record uid field (en_kid e) pass else pass) in
          (case fresh of
             Some f \<Rightarrow>
               if en_kid f = target then
                 reseal_all env record uid target es (filter (\<lambda>p. fst p \<noteq> field) replacements @ [(field, f)]) (replaced @ [en_kid e]) noted
               else reseal_all env record uid target es replacements replaced (pass_count (en_kid e) noted)
           | None \<Rightarrow> reseal_all env record uid target es replacements replaced (pass_count (en_kid e) noted))))"

definition after_failure :: "string \<Rightarrow> string \<Rightarrow> string list \<Rightarrow> js_error \<Rightarrow> ReencryptionPass \<Rightarrow> ReencryptionPass" where
  "after_failure record uid replaced err pass =
     (let counted = foldl (\<lambda>p kid. pass_count kid p) (pass\<lparr>ps_complete := False\<rparr>) replaced
      in if status_409 err \<or> \<not> length (ps_failed counted) < MAX_FAILED_LISTED then counted
         else counted\<lparr>ps_failed := ps_failed counted @ [record @ '' '' @ [CHR 0x27] @ uid @ [CHR 0x27]]\<rparr>)"

definition after_update :: "string \<Rightarrow> string \<Rightarrow> string list \<Rightarrow> ReencryptionPass \<Rightarrow> ReencryptionPass" where
  "after_update record target replaced pass =
     (let counted = foldl (\<lambda>p kid. pass_count target p) pass replaced
      in counted\<lparr>ps_reencrypted := (ps_reencrypted counted)(record := ps_reencrypted counted record + length replaced)\<rparr>)"

definition reencryptRow :: "'d config_env \<Rightarrow> ConfigEnvelopeSource \<Rightarrow> string \<Rightarrow> entity \<Rightarrow> ReencryptionPass \<Rightarrow> ('d, ReencryptionPass) job" where
  "reencryptRow env src target row pass =
     j_bind (reseal_all env (es_record src) (e_uid row) target (es_envelopes src (e_fields row)) [] [] pass) (\<lambda>(replacements, replaced, pass1).
       if replaced = [] then j_return pass1
       else
         j_catch
           (j_bind (update_row env (es_record src) row (es_replace src (e_fields row) replacements)) (\<lambda>_.
              j_return (after_update (es_record src) target replaced pass1)))
           (\<lambda>err. j_return (after_failure (es_record src) (e_uid row) replaced err pass1)))"

text \<open>The loop both passes share: what is done with a row, page after page behind the uid of the last row.\<close>

fun visit_rows :: "(entity \<Rightarrow> 'p \<Rightarrow> ('d, 'p) job) \<Rightarrow> entity list \<Rightarrow> 'p \<Rightarrow> ('d, 'p) job" where
  "visit_rows visit [] p = j_return p"
| "visit_rows visit (row # rows) p = j_bind (visit row p) (visit_rows visit rows)"

partial_function (option) visit_pages ::
    "'d config_env \<Rightarrow> string \<Rightarrow> (entity \<Rightarrow> 'p \<Rightarrow> ('d, 'p) job) \<Rightarrow> string option \<Rightarrow> 'p \<Rightarrow> 'd config_world \<Rightarrow> ('p result \<times> 'd config_world) option" where
  "visit_pages env record visit last_uid p w =
     Option.bind (j_bind (find_entities env record last_uid) (\<lambda>rows. j_bind (visit_rows visit rows p) (\<lambda>q. j_return (rows, q))) w) (\<lambda>(r, w1).
       case r of
         Inl e \<Rightarrow> Some (Inl e, w1)
       | Inr (rows, q) \<Rightarrow>
           if length rows < ce_limit env then Some (Inr q, w1)
           else if rows = [] then Some (Inl TypeError, w1)
           else visit_pages env record visit (Some (e_uid (last rows))) q w1)"

fun visit_sources :: "'d config_env \<Rightarrow> (ConfigEnvelopeSource \<Rightarrow> entity \<Rightarrow> 'p \<Rightarrow> ('d, 'p) job) \<Rightarrow> ConfigEnvelopeSource list \<Rightarrow> 'p \<Rightarrow> ('d, 'p) job" where
  "visit_sources env visit [] p = j_return p"
| "visit_sources env visit (src # srcs) p =
     j_bind (visit_pages env (es_record src) (visit src) None p) (visit_sources env visit srcs)"

definition reencryptAll :: "'d config_env \<Rightarrow> string \<Rightarrow> ('d, ReencryptionPass) job" where
  "reencryptAll env target = visit_sources env (\<lambda>src. reencryptRow env src target) (ce_sources env) empty_pass"

definition count_row :: "ConfigEnvelopeSource \<Rightarrow> entity \<Rightarrow> counts \<Rightarrow> ('d, counts) job" where
  "count_row src row cs = j_return (foldl (\<lambda>c (field, e). count_one (en_kid e) c) cs (es_envelopes src (e_fields row)))"

definition countEnvelopes :: "'d config_env \<Rightarrow> ('d, counts) job" where
  "countEnvelopes env = visit_sources env count_row (ce_sources env) no_counts"

section \<open>The steps\<close>

text \<open>The fields the next state has no use for are dropped first.\<close>

definition advance :: "ConfigKeyRotation \<Rightarrow> (ConfigKeyRotation \<Rightarrow> ConfigKeyRotation) \<Rightarrow> ConfigKeyRotation" where
  "advance ro changes = changes (ro\<lparr>ro_lastError := None, ro_waitingFor := None\<rparr>)"

definition set_rotation :: "ConfigKeyRotation \<Rightarrow> ConfigKeyState \<Rightarrow> ConfigKeyState" where
  "set_rotation ro s = s\<lparr>st_rotation := Some ro\<rparr>"

definition recordError :: "'d config_env \<Rightarrow> ConfigKeyState \<Rightarrow> ConfigKeyRotation \<Rightarrow> string \<Rightarrow> ('d, bool) job" where
  "recordError env s ro message =
     (if ro_lastError ro = Some message then j_return False
      else j_bind (save_state env s (set_rotation (ro\<lparr>ro_lastError := Some message\<rparr>))) (\<lambda>_. j_return False))"

definition fail_rotation :: "'d config_env \<Rightarrow> ConfigKeyState \<Rightarrow> ConfigKeyRotation \<Rightarrow> string \<Rightarrow> ('d, bool) job" where
  "fail_rotation env s ro message =
     j_bind (j_now env) (\<lambda>now.
       j_bind (save_state env s (set_rotation (advance ro (\<lambda>r. r\<lparr>ro_phase := Gave_up, ro_lastError := Some message, ro_finishedAt := Some now\<rparr>))))
         (\<lambda>_. j_return False))"

text \<open>The store: a failure of the call itself is a store that cannot be reached.\<close>

definition store_call :: "'d config_env \<Rightarrow> ('d \<Rightarrow> (store_error + 'x) \<times> 'd) \<Rightarrow> ('d, store_error + 'x) job" where
  "store_call env f =
     j_catch (j_call env (\<lambda>sh. case f (sh_store sh) of (r, d) \<Rightarrow> (Inr r, sh\<lparr>sh_store := d\<rparr>)))
       (\<lambda>e. j_return (Inl (Ring_Unreachable (message_of e))))"

fun store_message :: "store_error \<Rightarrow> string" where
  "store_message (Ring_Invalid m) = m"
| "store_message (Ring_Unreachable m) = m"
| "store_message Ring_Conflict = ''The configuration keyring was changed by someone else.''"

definition readRing :: "'d config_env \<Rightarrow> ConfigKeyState \<Rightarrow> ConfigKeyRotation \<Rightarrow> ('d, ConfigKeyringSnapshot option) job" where
  "readRing env s ro =
     j_bind (store_call env (\<lambda>d. (rs_read (ce_store env) d, d))) (\<lambda>r.
       case r of
         Inr snap \<Rightarrow> j_return (Some snap)
       | Inl (Ring_Invalid m) \<Rightarrow> j_bind (fail_rotation env s ro m) (\<lambda>_. j_return None)
       | Inl e \<Rightarrow> j_bind (recordError env s ro (''The keyring can't be read: '' @ store_message e)) (\<lambda>_. j_return None))"

definition writeRing :: "'d config_env \<Rightarrow> ConfigKeyState \<Rightarrow> ConfigKeyRotation \<Rightarrow> ConfigKeyring \<Rightarrow> string \<Rightarrow> ('d, bool) job" where
  "writeRing env s ro ring version =
     j_bind (store_call env (rs_write (ce_store env) ring version)) (\<lambda>r.
       case r of
         Inr u \<Rightarrow> j_return True
       | Inl Ring_Conflict \<Rightarrow> recordError env s ro (store_message Ring_Conflict)
       | Inl e \<Rightarrow> recordError env s ro (''The keyring can't be updated: '' @ store_message e))"

definition ring_kids :: "ConfigKeyring \<Rightarrow> string list" where
  "ring_kids ring = map ck_kid (cr_keys ring)"

text \<open>Step 1. The key found in the ring that was not there when the rotation began is its own.\<close>

definition record_added ::
    "'d config_env \<Rightarrow> ConfigKeyState \<Rightarrow> ConfigKeyRotation \<Rightarrow> ConfigKeyring \<Rightarrow> ConfigKeyEntry \<Rightarrow> ('d, bool) job" where
  "record_added env s ro ring added =
     j_bind (j_now env) (\<lambda>now.
       j_bind (save_state env s (set_rotation (advance (ro\<lparr>ro_keyringKids := None\<rparr>) (\<lambda>r. r\<lparr>
           ro_kid := Some (ck_kid added),
           ro_previousKids := filter (\<lambda>k. k \<noteq> ck_kid added) (ring_kids ring),
           ro_phase := Activating,
           ro_activationStartedAt := Some now\<rparr>)))) (\<lambda>_.
         j_bind (j_audit (Config_Key_Rotated (ck_kid added) (ro_compromised ro))) (\<lambda>_.
           j_bind (announce env) (\<lambda>_. j_return True))))"

definition own_key :: "ConfigKeyring \<Rightarrow> string list \<Rightarrow> ConfigKeyEntry option" where
  "own_key ring before =
     (let ks = filter (\<lambda>k. ck_kid k \<notin> set before) (cr_keys ring) in if ks = [] then None else Some (last ks))"

definition add_key :: "'d config_env \<Rightarrow> ConfigKeyState \<Rightarrow> ConfigKeyRotation \<Rightarrow> ConfigKeyringSnapshot \<Rightarrow> ('d, bool) job" where
  "add_key env s ro snap =
     (case own_key (sn_keyring snap) (nullish (ro_keyringKids ro)) of
        Some own \<Rightarrow> record_added env s ro (sn_keyring snap) own
      | None \<Rightarrow> (\<lambda>w.
          let added = ce_newKey env (cw_tick w)
          in j_bind (writeRing env s ro \<lparr>cr_keys = cr_keys (sn_keyring snap) @ [added]\<rparr> (sn_version snap)) (\<lambda>written.
               if \<not> written then j_return False else record_added env s ro (sn_keyring snap) added) w))"

definition stepAdding :: "'d config_env \<Rightarrow> ConfigKeyState \<Rightarrow> ConfigKeyRotation \<Rightarrow> ('d, bool) job" where
  "stepAdding env s ro =
     j_bind (readRing env s ro) (\<lambda>snapshot.
       case snapshot of
         None \<Rightarrow> j_return False
       | Some snap \<Rightarrow>
           if ro_keyringKids ro = None then
             j_bind (save_state env s (set_rotation (ro\<lparr>ro_keyringKids := Some (ring_kids (sn_keyring snap))\<rparr>))) (\<lambda>s'.
               case st_rotation s' of None \<Rightarrow> j_throw TypeError | Some ro' \<Rightarrow> add_key env s' ro' snap)
           else add_key env s ro snap)"

definition liveCopies ::
    "'d config_env \<Rightarrow> ConfigKeyState \<Rightarrow> ConfigKeyRotation \<Rightarrow> string \<Rightarrow> ('d, ConfigKeyHeartbeatEntry list option) job" where
  "liveCopies env s ro goingOn =
     j_bind (j_catch (j_bind (j_call env (\<lambda>sh. (Inr (sh_beats sh), sh))) (\<lambda>beats. j_return (Inr beats))) (\<lambda>e. j_return (Inl (message_of e)))) (\<lambda>r.
       case r of
         Inl m \<Rightarrow>
           j_bind (recordError env s ro (''The server copies' heartbeats can't be read ('' @ m @ ''); '' @ goingOn)) (\<lambda>_. j_return None)
       | Inr beats \<Rightarrow>
           if beats = [] then
             j_bind (recordError env s ro (''No server copy is reporting the keys it has loaded yet; '' @ goingOn)) (\<lambda>_. j_return None)
           else j_return (Some beats))"

definition waiting_copies :: "(ConfigKeyHeartbeatEntry \<Rightarrow> bool) \<Rightarrow> ConfigKeyHeartbeatEntry list \<Rightarrow> string list" where
  "waiting_copies late beats = sort (map hb_copy (filter late beats))"

definition setWaiting :: "'d config_env \<Rightarrow> ConfigKeyState \<Rightarrow> ConfigKeyRotation \<Rightarrow> string list \<Rightarrow> ('d, bool) job" where
  "setWaiting env s ro waiting =
     (if nullish (ro_waitingFor ro) \<noteq> waiting \<or> (ro_lastError ro \<noteq> None \<and> ro_lastError ro \<noteq> Some []) then
        j_bind (save_state env s (set_rotation (advance ro (\<lambda>r. r\<lparr>ro_waitingFor := Some waiting\<rparr>)))) (\<lambda>_. j_return False)
      else j_return False)"

text \<open>An empty kid is no kid.\<close>

definition recorded_kid :: "string option \<Rightarrow> string option" where
  "recorded_kid k = (case k of None \<Rightarrow> None | Some kid \<Rightarrow> if kid = [] then None else Some kid)"

definition stepActivating :: "'d config_env \<Rightarrow> ConfigKeyState \<Rightarrow> ConfigKeyRotation \<Rightarrow> ('d, bool) job" where
  "stepActivating env s ro =
     (case recorded_kid (ro_kid ro) of
        None \<Rightarrow> fail_rotation env s ro ''The rotation has no new key recorded.''
      | Some kid \<Rightarrow>
          j_bind (liveCopies env s ro ''the new key isn't activated until they are.'') (\<lambda>live.
            case live of
              None \<Rightarrow> j_return False
            | Some beats \<Rightarrow>
                let waiting = waiting_copies (\<lambda>b. kid \<notin> set (hb_kids b)) beats in
                if waiting \<noteq> [] then setWaiting env s ro waiting
                else
                  j_bind (j_now env) (\<lambda>now.
                    j_bind (save_state env s (\<lambda>st. set_rotation (advance ro (\<lambda>r. r\<lparr>
                        ro_phase := Reencrypting,
                        ro_activatedAt := Some now,
                        ro_waitingFor := Some (waiting_copies (\<lambda>b. hb_encrypting b \<noteq> Some kid) beats)\<rparr>)) (st\<lparr>st_activeKid := Some kid\<rparr>))) (\<lambda>_.
                      j_bind (j_audit (Config_Key_Activated kid (length beats))) (\<lambda>_.
                        j_bind (announce env) (\<lambda>_. j_return True))))))"

definition save_failures_message :: "string list \<Rightarrow> string" where
  "save_failures_message failed =
     ''Re-encryption could not save '' @ js_join '', '' failed @ (if length failed \<ge> MAX_FAILED_LISTED then '' and maybe more'' else []) @
     ''; it is retried on every run, and the pod log says why.''"

definition save_pass :: "'d config_env \<Rightarrow> ConfigKeyState \<Rightarrow> ConfigKeyRotation \<Rightarrow> string \<Rightarrow> int \<Rightarrow> ReencryptionPass \<Rightarrow> ('d, bool) job" where
  "save_pass env s ro kid startedAt pass =
     j_bind (j_now env) (\<lambda>now.
       let started = (case st_reencryption s of
                        None \<Rightarrow> startedAt
                      | Some previous \<Rightarrow>
                          if rx_targetKid previous = kid \<and> \<not> rx_complete previous then rx_startedAt previous else startedAt);
           reencryption = \<lparr>rx_targetKid = kid, rx_complete = ps_complete pass, rx_startedAt = started,
             rx_finishedAt = (if ps_complete pass then Some now else None),
             rx_unreadable = (if ps_unreadable pass \<noteq> [] then Some (ps_unreadable pass) else None)\<rparr>
       in j_bind (save_state env s (\<lambda>st. set_rotation (advance ro (\<lambda>r. r\<lparr>
              ro_phase := (if ps_complete pass then Retiring else Reencrypting),
              ro_lastError := (if ps_failed pass \<noteq> [] then Some (save_failures_message (ps_failed pass)) else None)\<rparr>))
            (st\<lparr>st_kidUsage := Some (ps_counts pass), st_countedAt := Some now, st_reencryption := Some reencryption\<rparr>))) (\<lambda>_.
            if list_ex (\<lambda>src. ps_reencrypted pass (es_record src) > 0) (ce_sources env) then
              j_bind (j_audit (Config_Reencrypted kid)) (\<lambda>_. j_return (ps_complete pass))
            else j_return (ps_complete pass)))"

definition stepReencrypting :: "'d config_env \<Rightarrow> ConfigKeyState \<Rightarrow> ConfigKeyRotation \<Rightarrow> ('d, bool) job" where
  "stepReencrypting env s ro =
     (case recorded_kid (ro_kid ro) of
        None \<Rightarrow> fail_rotation env s ro ''The rotation's new key isn't the active key.''
      | Some kid \<Rightarrow>
          if st_activeKid s \<noteq> Some kid then fail_rotation env s ro ''The rotation's new key isn't the active key.''
          else
            j_bind (liveCopies env s ro ''no value is re-encrypted until they are.'') (\<lambda>live.
              case live of
                None \<Rightarrow> j_return False
              | Some beats \<Rightarrow>
                  let waiting = waiting_copies (\<lambda>b. kid \<notin> set (hb_kids b) \<or> hb_encrypting b \<noteq> Some kid) beats in
                  if waiting \<noteq> [] then setWaiting env s ro waiting
                  else
                    j_bind (reload_cipher env) (\<lambda>_ w.
                      if currentKid (cw_cipher w) \<noteq> Some kid then
                        recordError env s ro ''This server copy can't encrypt with the new key yet; no value is re-encrypted until it can.'' w
                      else
                        j_bind (j_now env) (\<lambda>startedAt.
                          j_bind (j_catch (j_bind (reencryptAll env kid) (\<lambda>pass. j_return (Inr pass))) (\<lambda>e. j_return (Inl (message_of e)))) (\<lambda>r.
                            case r of
                              Inl m \<Rightarrow> recordError env s ro (''A re-encryption pass could not finish and is retried: '' @ m)
                            | Inr pass \<Rightarrow> save_pass env s ro kid startedAt pass)) w)))"

definition in_quotes :: "string \<Rightarrow> string" where
  "in_quotes s = [CHR 0x27] @ s @ [CHR 0x27]"

definition retained_message :: "string list \<Rightarrow> string" where
  "retained_message retained =
     (if length retained = 1 then ''The key'' else ''The keys'') @ '' '' @ js_join '', '' retained @ '' still encrypt'' @
     (if length retained = 1 then ''s'' else []) @
     '' secrets that can't be decrypted, so they stay in the keyring; enter those secrets again to retire them.''"

definition finish_rotation :: "'d config_env \<Rightarrow> ConfigKeyState \<Rightarrow> ConfigKeyRotation \<Rightarrow> string list \<Rightarrow> ('d, bool) job" where
  "finish_rotation env s ro retained =
     j_bind (j_now env) (\<lambda>now.
       j_bind (save_state env s (set_rotation (advance ro (\<lambda>r. r\<lparr>ro_phase := Done, ro_finishedAt := Some now,
           ro_lastError := (if retained \<noteq> [] then Some (retained_message retained) else None)\<rparr>)))) (\<lambda>_. j_return False))"

fun audit_retired :: "string list \<Rightarrow> ('d, unit) job" where
  "audit_retired [] = j_return ()"
| "audit_retired (kid # kids) = j_bind (j_audit (Config_Key_Retired kid)) (\<lambda>_. audit_retired kids)"

definition remove_keys ::
    "'d config_env \<Rightarrow> ConfigKeyState \<Rightarrow> ConfigKeyRotation \<Rightarrow> ConfigKeyringSnapshot \<Rightarrow> string list \<Rightarrow> string list \<Rightarrow> ('d, bool) job" where
  "remove_keys env s ro snap removable retained =
     j_bind (j_catch (j_bind (countEnvelopes env) (\<lambda>recount. j_return (Inr recount))) (\<lambda>e. j_return (Inl (message_of e)))) (\<lambda>r.
       case r of
         Inl m \<Rightarrow> recordError env s ro (''The envelopes could not be recounted before removing a key and it is retried: '' @ m)
       | Inr recount \<Rightarrow>
           if filter (\<lambda>kid. recount kid > 0) removable \<noteq> [] then
             j_bind (j_now env) (\<lambda>now.
               j_bind (save_state env s (\<lambda>st. set_rotation (advance ro (\<lambda>r. r\<lparr>ro_phase := Reencrypting\<rparr>))
                   (st\<lparr>st_kidUsage := Some recount, st_countedAt := Some now\<rparr>))) (\<lambda>_. j_return True))
           else
             j_bind (writeRing env s ro \<lparr>cr_keys = filter (\<lambda>k. ck_kid k \<notin> set removable) (cr_keys (sn_keyring snap))\<rparr> (sn_version snap)) (\<lambda>written.
               if \<not> written then j_return False
               else
                 j_bind (audit_retired removable) (\<lambda>_.
                   j_bind (announce env) (\<lambda>_. finish_rotation env s ro retained))))"

definition stepRetiring :: "'d config_env \<Rightarrow> ConfigKeyState \<Rightarrow> ConfigKeyRotation \<Rightarrow> ('d, bool) job" where
  "stepRetiring env s ro =
     j_bind (readRing env s ro) (\<lambda>snapshot.
       case snapshot of
         None \<Rightarrow> j_return False
       | Some snap \<Rightarrow>
           let ring = ring_kids (sn_keyring snap) in
           (case recorded_kid (st_activeKid s) of
              None \<Rightarrow> recordError env s ro ''The active key isn't recorded, so no key was removed.''
            | Some active \<Rightarrow>
                if active \<notin> set ring then
                  recordError env s ro (''The active key '' @ in_quotes active @ '' isn't in the keyring, so no key was removed.'')
                else
                  (case st_kidUsage s of
                     None \<Rightarrow> recordError env s ro ''The envelopes haven't been counted yet, so no key was removed.''
                   | Some usage \<Rightarrow>
                       let others = filter (\<lambda>kid. kid \<noteq> active) ring;
                           removable = filter (\<lambda>kid. \<not> usage kid > 0) others;
                           retained = filter (\<lambda>kid. usage kid > 0) others
                       in if removable \<noteq> [] then remove_keys env s ro snap removable retained
                          else finish_rotation env s ro retained)))"

section \<open>A run\<close>

definition MAX_CONFIG_TRANSITIONS :: nat where
  "MAX_CONFIG_TRANSITIONS = 6"

definition finished_phase :: "ConfigKeyRotationPhase \<Rightarrow> bool" where
  "finished_phase ph \<longleftrightarrow> ph = Done \<or> ph = Gave_up"

definition rotation_step :: "'d config_env \<Rightarrow> ConfigKeyState \<Rightarrow> ConfigKeyRotation \<Rightarrow> ('d, bool) job" where
  "rotation_step env s ro =
     (case ro_phase ro of
        Adding \<Rightarrow> stepAdding env s ro
      | Activating \<Rightarrow> stepActivating env s ro
      | Reencrypting \<Rightarrow> stepReencrypting env s ro
      | Retiring \<Rightarrow> stepRetiring env s ro
      | _ \<Rightarrow> j_return False)"

definition state_rotation :: "ConfigKeyState option \<Rightarrow> (ConfigKeyState \<times> ConfigKeyRotation) option" where
  "state_rotation state = Option.bind state (\<lambda>s. map_option (\<lambda>ro. (s, ro)) (st_rotation s))"

fun transitions :: "'d config_env \<Rightarrow> nat \<Rightarrow> ('d, unit) job" where
  "transitions env 0 = j_return ()"
| "transitions env (Suc n) =
     j_bind (load_state env) (\<lambda>state.
       case state_rotation state of
         None \<Rightarrow> j_return ()
       | Some (s, ro) \<Rightarrow> j_bind (rotation_step env s ro) (\<lambda>another. if another then transitions env n else j_return ()))"

definition advanceRotation :: "'d config_env \<Rightarrow> ('d, unit) job" where
  "advanceRotation env =
     j_catch (transitions env MAX_CONFIG_TRANSITIONS) (\<lambda>e. if status_409 e then j_return () else j_throw e)"

text \<open>The lock: taken when nobody holds it, released only by the token that took it. That it runs out is something the others do.\<close>

definition acquireLock :: "'d config_env \<Rightarrow> ('d, nat option) job" where
  "acquireLock env = (\<lambda>w.
     let token = cw_tick w in
     j_call env (\<lambda>sh. if sh_lock sh \<noteq> None then (Inr None, sh) else (Inr (Some token), sh\<lparr>sh_lock := Some token\<rparr>)) w)"

definition releaseLock :: "'d config_env \<Rightarrow> nat \<Rightarrow> ('d, unit) job" where
  "releaseLock env token =
     j_catch (j_call env (\<lambda>sh. (Inr (), if sh_lock sh = Some token then sh\<lparr>sh_lock := None\<rparr> else sh))) (\<lambda>e. j_return ())"

definition j_finally :: "('d, 'x) job \<Rightarrow> ('d, unit) job \<Rightarrow> ('d, 'x) job" where
  "j_finally m after = j_bind (j_catch m (\<lambda>e. j_bind after (\<lambda>_. j_throw e))) (\<lambda>x. j_bind after (\<lambda>_. j_return x))"

definition run_under_lock :: "'d config_env \<Rightarrow> ('d, unit) job" where
  "run_under_lock env =
     j_bind (j_catch (acquireLock env) (\<lambda>e. j_return None)) (\<lambda>lock.
       case lock of
         None \<Rightarrow> j_return ()
       | Some token \<Rightarrow> j_finally (advanceRotation env) (releaseLock env token))"

definition run_config_job :: "'d config_env \<Rightarrow> ('d, unit) job" where
  "run_config_job env =
     j_catch
       (j_bind (load_state env) (\<lambda>state.
          case Option.bind state st_rotation of
            None \<Rightarrow> j_return ()
          | Some ro \<Rightarrow> if finished_phase (ro_phase ro) then j_return () else run_under_lock env))
       (\<lambda>e. j_return ())"

section \<open>The requests of the console\<close>

datatype console_answer = Accepted | Marked_compromised | Activated_anyway | Busy

definition MAX_CONSOLE_ATTEMPTS :: nat where
  "MAX_CONSOLE_ATTEMPTS = 3"

definition requested_rotation :: "string \<Rightarrow> int \<Rightarrow> bool \<Rightarrow> ConfigKeyRotation" where
  "requested_rotation user now compromised =
     \<lparr>ro_kid = None, ro_previousKids = [], ro_keyringKids = None, ro_compromised = compromised, ro_requestedBy = user,
      ro_requestedAt = Some now, ro_phase = Adding, ro_activationStartedAt = None, ro_waitingFor = None, ro_activatedAt = None,
      ro_activationForced = None, ro_finishedAt = None, ro_lastError = None\<rparr>"

definition create_state :: "'d config_env \<Rightarrow> ConfigKeyRotation \<Rightarrow> ('d, ConfigKeyState) job" where
  "create_state env ro =
     j_call env (\<lambda>sh.
       case sh_state sh of
         Some s \<Rightarrow> (Inl (ApiError 409 ''duplicate key''), sh)
       | None \<Rightarrow>
           (let s = \<lparr>st_activeKid = None, st_rotation = Some ro, st_kidUsage = None, st_countedAt = None, st_reencryption = None, st_version = 0\<rparr>
            in (Inr s, sh\<lparr>sh_state := Some s\<rparr>)))"

definition assertKeyringReadable :: "'d config_env \<Rightarrow> ('d, unit) job" where
  "assertKeyringReadable env =
     j_bind (store_call env (\<lambda>d. (rs_read (ce_store env) d, d))) (\<lambda>r.
       case r of
         Inr snap \<Rightarrow> j_return ()
       | Inl e \<Rightarrow> j_throw (ApiError 503 (''The configuration keyring can't be read from its store, so keys can't be rotated: '' @ store_message e)))"

text \<open>A write that lost a race is looked at again; any other failure ends the request.\<close>

definition or_again :: "('d, 'x) job \<Rightarrow> ('x \<Rightarrow> ('d, 'y) job) \<Rightarrow> ('d, 'y) job \<Rightarrow> ('d, 'y) job" where
  "or_again attempt k again =
     j_bind (j_catch (j_bind attempt (\<lambda>x. j_return (Inr x))) (\<lambda>e. if status_409 e then j_return (Inl e) else j_throw e)) (\<lambda>r.
       case r of Inl e \<Rightarrow> again | Inr x \<Rightarrow> k x)"

text \<open>The rotation put in the state row, once the store has been read; \<open>again\<close> is the next attempt.\<close>

definition place_rotation ::
    "'d config_env \<Rightarrow> string \<Rightarrow> bool \<Rightarrow> ConfigKeyState option \<Rightarrow> ('d, console_answer) job \<Rightarrow> ('d, console_answer) job" where
  "place_rotation env user compromised state again =
     j_bind (assertKeyringReadable env) (\<lambda>_.
       j_bind (j_now env) (\<lambda>now.
         let ro = requested_rotation user now compromised in
         or_again (case state of Some s \<Rightarrow> save_state env s (set_rotation ro) | None \<Rightarrow> create_state env ro)
           (\<lambda>_. j_bind (j_audit (Config_Key_Rotation_Requested compromised)) (\<lambda>_. j_bind (announce env) (\<lambda>_. j_return Accepted)))
           again))"

definition mark_compromised ::
    "'d config_env \<Rightarrow> ConfigKeyState \<Rightarrow> ConfigKeyRotation \<Rightarrow> ('d, console_answer) job \<Rightarrow> ('d, console_answer) job" where
  "mark_compromised env s running again =
     or_again (save_state env s (set_rotation (running\<lparr>ro_compromised := True\<rparr>)))
       (\<lambda>_. j_bind (j_audit (Config_Key_Rotation_Requested True)) (\<lambda>_. j_bind (announce env) (\<lambda>_. j_return Marked_compromised)))
       again"

fun rotate_attempts :: "'d config_env \<Rightarrow> string \<Rightarrow> bool \<Rightarrow> nat \<Rightarrow> ('d, console_answer) job" where
  "rotate_attempts env user compromised 0 = j_return Busy"
| "rotate_attempts env user compromised (Suc n) =
     j_bind (load_state env) (\<lambda>state.
       case state_rotation state of
         None \<Rightarrow> place_rotation env user compromised state (rotate_attempts env user compromised n)
       | Some (s, running) \<Rightarrow>
           if finished_phase (ro_phase running) then place_rotation env user compromised state (rotate_attempts env user compromised n)
           else if \<not> compromised \<or> ro_compromised running then j_return Busy
           else mark_compromised env s running (rotate_attempts env user compromised n))"

definition rotate_request :: "'d config_env \<Rightarrow> string \<Rightarrow> bool \<Rightarrow> ('d, console_answer) job" where
  "rotate_request env user compromised = rotate_attempts env user compromised MAX_CONSOLE_ATTEMPTS"

definition forced_rotation :: "string \<Rightarrow> string \<Rightarrow> int \<Rightarrow> ConfigKeyHeartbeatEntry list \<Rightarrow> ConfigKeyRotation \<Rightarrow> ConfigKeyRotation" where
  "forced_rotation user kid now beats ro =
     advance ro (\<lambda>r. r\<lparr>
       ro_phase := Reencrypting,
       ro_activatedAt := Some now,
       ro_waitingFor := Some (waiting_copies (\<lambda>b. kid \<notin> set (hb_kids b) \<or> hb_encrypting b \<noteq> Some kid) beats),
       ro_activationForced := Some (user, now, waiting_copies (\<lambda>b. kid \<notin> set (hb_kids b)) beats)\<rparr>)"

definition force_activation ::
    "'d config_env \<Rightarrow> string \<Rightarrow> string \<Rightarrow> ConfigKeyState \<Rightarrow> ConfigKeyRotation \<Rightarrow> ('d, console_answer) job \<Rightarrow> ('d, console_answer) job" where
  "force_activation env user kid s ro again =
     j_bind (j_catch (j_call env (\<lambda>sh. (Inr (sh_beats sh), sh))) (\<lambda>e. j_return [])) (\<lambda>beats.
       j_bind (j_now env) (\<lambda>now.
         or_again (save_state env s (\<lambda>st. set_rotation (forced_rotation user kid now beats ro) (st\<lparr>st_activeKid := Some kid\<rparr>)))
           (\<lambda>_. j_bind (j_audit (Config_Key_Activation_Forced kid (waiting_copies (\<lambda>b. kid \<notin> set (hb_kids b)) beats)))
             (\<lambda>_. j_bind (announce env) (\<lambda>_. j_return Activated_anyway)))
           again))"

fun activate_attempts :: "'d config_env \<Rightarrow> string \<Rightarrow> string \<Rightarrow> nat \<Rightarrow> ('d, console_answer) job" where
  "activate_attempts env user kid 0 = j_return Busy"
| "activate_attempts env user kid (Suc n) =
     j_bind (load_state env) (\<lambda>state.
       case state_rotation state of
         None \<Rightarrow> j_return Busy
       | Some (s, ro) \<Rightarrow>
           if ro_phase ro \<noteq> Activating \<or> ro_kid ro \<noteq> Some kid then j_return Busy
           else force_activation env user kid s ro (activate_attempts env user kid n))"

definition activate_request :: "'d config_env \<Rightarrow> string \<Rightarrow> string \<Rightarrow> ('d, console_answer) job" where
  "activate_request env user kid =
     (if kid = [] then j_throw (ApiError 400 (in_quotes ''kid'' @ '' must be the new key's id.''))
      else activate_attempts env user kid MAX_CONSOLE_ATTEMPTS)"

end
