(* ===== verification/Config_Rotation_Safety.thy ===== *)
theory Config_Rotation_Safety
  imports Config_Rotation
begin

text \<open>
  What a rotation of the configuration key keeps. A secret of one row is watched: \<open>rotation_safe\<close> says that it can be opened with a key of the
  stored ring, that the phase of the rotation fits the ring and the active key, and that this process has the right key under every kid it
  has loaded. Every step of the job and every request of the console keeps it, whatever calls fail, as long as the others leave the state row,
  the ring and the watched row alone (the rotation holds the lock); they may change everything else, also between the pages of a pass.

  The rules for \<open>triple\<close> are those of a Hoare logic for handlers with an exceptional outcome; \<open>ends\<close> is the total form that shows
  that a run returns.
\<close>

section \<open>Reasoning about handlers\<close>

definition triple :: "('d config_world \<Rightarrow> bool) \<Rightarrow> ('d, 'x) job \<Rightarrow> ('x \<Rightarrow> 'd config_world \<Rightarrow> bool) \<Rightarrow> ('d config_world \<Rightarrow> bool) \<Rightarrow> bool" where
  "triple P m Q E \<longleftrightarrow>
     (\<forall>w r w'. P w \<longrightarrow> m w = Some (r, w') \<longrightarrow> (case r of Inr x \<Rightarrow> Q x w' | Inl e \<Rightarrow> E w'))"

lemma triple_Inr: "triple P m Q E \<Longrightarrow> P w \<Longrightarrow> m w = Some (Inr x, w') \<Longrightarrow> Q x w'"
  and triple_Inl: "triple P m Q E \<Longrightarrow> P w \<Longrightarrow> m w = Some (Inl e, w') \<Longrightarrow> E w'"
  unfolding triple_def by (metis sum.simps(5,6))+

lemma tripleI:
  assumes "\<And>w x w'. P w \<Longrightarrow> m w = Some (Inr x, w') \<Longrightarrow> Q x w'" "\<And>w e w'. P w \<Longrightarrow> m w = Some (Inl e, w') \<Longrightarrow> E w'"
  shows "triple P m Q E"
  using assms by (auto simp: triple_def split: sum.split)

lemma triple_return: "(\<And>w. P w \<Longrightarrow> Q x w) \<Longrightarrow> triple P (j_return x) Q E"
  and triple_throw: "(\<And>w. P w \<Longrightarrow> E w) \<Longrightarrow> triple P (j_throw e) Q E"
  by (auto intro!: tripleI simp: j_return_def j_throw_def)

lemma triple_bind:
  assumes "triple P m R E" "\<And>x. triple (R x) (f x) Q E"
  shows "triple P (j_bind m f) Q E"
proof (rule tripleI)
  fix w y w'
  assume "P w" "j_bind m f w = Some (Inr y, w')"
  then obtain x w1 where "m w = Some (Inr x, w1)" "f x w1 = Some (Inr y, w')"
    by (auto simp: j_bind_def split: option.splits sum.splits)
  then show "Q y w'"
    using triple_Inr [OF assms(1) \<open>P w\<close>] triple_Inr [OF assms(2)] by blast
next
  fix w e w'
  assume "P w" "j_bind m f w = Some (Inl e, w')"
  then consider "m w = Some (Inl e, w')" | x w1 where "m w = Some (Inr x, w1)" "f x w1 = Some (Inl e, w')"
    by (auto simp: j_bind_def split: option.splits sum.splits)
  then show "E w'"
    using triple_Inl [OF assms(1) \<open>P w\<close>] triple_Inr [OF assms(1) \<open>P w\<close>] triple_Inl [OF assms(2)] by cases blast+
qed

lemma triple_catch:
  assumes "triple P m Q E'" "\<And>e. triple E' (f e) Q E"
  shows "triple P (j_catch m f) Q E"
proof (rule tripleI)
  fix w y w'
  assume "P w" "j_catch m f w = Some (Inr y, w')"
  then consider "m w = Some (Inr y, w')" | e w1 where "m w = Some (Inl e, w1)" "f e w1 = Some (Inr y, w')"
    by (auto simp: j_catch_def split: option.splits sum.splits)
  then show "Q y w'"
    using triple_Inr [OF assms(1) \<open>P w\<close>] triple_Inl [OF assms(1) \<open>P w\<close>] triple_Inr [OF assms(2)] by cases blast+
next
  fix w e w'
  assume "P w" "j_catch m f w = Some (Inl e, w')"
  then obtain e1 w1 where "m w = Some (Inl e1, w1)" "f e1 w1 = Some (Inl e, w')"
    by (auto simp: j_catch_def split: option.splits sum.splits)
  then show "E w'"
    using triple_Inl [OF assms(1) \<open>P w\<close>] triple_Inl [OF assms(2)] by blast
qed

lemma triple_weaken:
  "triple P m Q E \<Longrightarrow> (\<And>w. P' w \<Longrightarrow> P w) \<Longrightarrow> (\<And>x w. Q x w \<Longrightarrow> Q' x w) \<Longrightarrow> (\<And>w. E w \<Longrightarrow> E' w) \<Longrightarrow> triple P' m Q' E'"
  unfolding triple_def by (simp split: sum.splits) blast

lemma triple_pre: "triple P m Q E \<Longrightarrow> (\<And>w. P' w \<Longrightarrow> P w) \<Longrightarrow> triple P' m Q E"
  unfolding triple_def by blast

lemma triple_fix: "(\<And>w0. P w0 \<Longrightarrow> triple (\<lambda>w. P w \<and> w = w0) m Q E) \<Longrightarrow> triple P m Q E"
  unfolding triple_def by blast

lemma triple_at: "(\<And>w. P w \<Longrightarrow> triple P (m w) Q E) \<Longrightarrow> triple P (\<lambda>w. m w w) Q E"
  unfolding triple_def by blast

lemma triple_if:
  "(b \<Longrightarrow> triple P m Q E) \<Longrightarrow> (\<not> b \<Longrightarrow> triple P n Q E) \<Longrightarrow> triple P (if b then m else n) Q E"
  by simp

lemma triple_fact: "(F \<Longrightarrow> triple P m Q E) \<Longrightarrow> triple (\<lambda>w. F \<and> P w) m Q E"
  unfolding triple_def by blast

lemma triple_now: "(\<And>w x. P w \<Longrightarrow> Q x w) \<Longrightarrow> triple P (j_now env) Q E"
  by (auto intro!: tripleI simp: j_now_def)

text \<open>A caught failure as a value.\<close>

lemma triple_attempt:
  assumes "triple P m Q E'"
  shows "triple P (j_catch (j_bind m (\<lambda>x. j_return (Inr x))) (\<lambda>e. j_return (Inl (g e)))) (\<lambda>r w. case r of Inr x \<Rightarrow> Q x w | Inl m \<Rightarrow> E' w) E"
  by (rule triple_catch [where E' = E'], rule triple_bind, rule assms) (auto intro: triple_return)

section \<open>The watched secret\<close>

record watch =
  wa_src :: ConfigEnvelopeSource
  wa_uid :: string
  wa_field :: string
  wa_value :: js_value
  wa_material :: "string \<Rightarrow> nat list"

definition watch_context :: "watch \<Rightarrow> ConfigCipherContext" where
  "watch_context wt = \<lparr>cx_record = es_record (wa_src wt), cx_uid = wa_uid wt, cx_field = wa_field wt\<rparr>"

definition agrees :: "watch \<Rightarrow> ConfigKeyring \<Rightarrow> bool" where
  "agrees wt ring \<longleftrightarrow> (\<forall>k\<in>set (cr_keys ring). from_base64 (ck_key k) = wa_material wt (ck_kid k))"

definition watched_rows :: "watch \<Rightarrow> 'd shared \<Rightarrow> entity list" where
  "watched_rows wt sh = filter (\<lambda>r. e_uid r = wa_uid wt) (sh_tables sh (es_record (wa_src wt)))"

text \<open>The row holds the secret under one of the kids.\<close>

definition row_holds :: "'d config_env \<Rightarrow> watch \<Rightarrow> string set \<Rightarrow> entity \<Rightarrow> bool" where
  "row_holds env wt kids r \<longleftrightarrow>
     doc_ok (JObj (e_fields r)) \<and> distinct (map fst (es_envelopes (wa_src wt) (e_fields r))) \<and>
     (\<exists>e. (wa_field wt, e) \<in> set (es_envelopes (wa_src wt) (e_fields r)) \<and> en_kid e \<in> kids \<and>
        open_envelope (ce_gcm env) (wa_material wt (en_kid e)) e (watch_context wt) = Inr (wa_value wt))"

definition secret_kept :: "'d config_env \<Rightarrow> watch \<Rightarrow> string set \<Rightarrow> 'd shared \<Rightarrow> bool" where
  "secret_kept env wt kids sh \<longleftrightarrow> (\<exists>r. watched_rows wt sh = [r] \<and> row_holds env wt kids r)"

definition kids_of :: "'d config_env \<Rightarrow> 'd \<Rightarrow> string set" where
  "kids_of env d = (case rs_read (ce_store env) d of Inl e \<Rightarrow> {} | Inr snap \<Rightarrow> set (ring_kids (sn_keyring snap)))"

definition store_good :: "'d config_env \<Rightarrow> watch \<Rightarrow> 'd \<Rightarrow> bool" where
  "store_good env wt d \<longleftrightarrow> (\<exists>snap. rs_read (ce_store env) d = Inr snap \<and> agrees wt (sn_keyring snap))"

text \<open>A new key that is recorded is in the ring; once it is activated it is the active one.\<close>

definition rotation_fits :: "string option \<Rightarrow> ConfigKeyRotation \<Rightarrow> string set \<Rightarrow> bool" where
  "rotation_fits active ro kids \<longleftrightarrow>
     (ro_phase ro \<in> {Activating, Reencrypting, Retiring} \<longrightarrow> (\<exists>kid. ro_kid ro = Some kid \<and> kid \<in> kids)) \<and>
     (ro_phase ro \<in> {Reencrypting, Retiring} \<longrightarrow> active = ro_kid ro)"

definition state_fits :: "ConfigKeyState option \<Rightarrow> string set \<Rightarrow> bool" where
  "state_fits st kids \<longleftrightarrow>
     (case st of
        None \<Rightarrow> True
      | Some s \<Rightarrow> (case st_rotation s of None \<Rightarrow> True | Some ro \<Rightarrow> rotation_fits (st_activeKid s) ro kids))"

definition cipher_good :: "watch \<Rightarrow> ConfigCipher \<Rightarrow> bool" where
  "cipher_good wt c \<longleftrightarrow> cipher_ok c \<and> (\<forall>(kid, key)\<in>set (cc_keys c). key = wa_material wt kid)"

definition shared_safe :: "'d config_env \<Rightarrow> watch \<Rightarrow> 'd shared \<Rightarrow> bool" where
  "shared_safe env wt sh \<longleftrightarrow>
     store_good env wt (sh_store sh) \<and> state_fits (sh_state sh) (kids_of env (sh_store sh)) \<and>
     secret_kept env wt (kids_of env (sh_store sh)) sh"

definition rotation_safe :: "'d config_env \<Rightarrow> watch \<Rightarrow> 'd config_world \<Rightarrow> bool" where
  "rotation_safe env wt w \<longleftrightarrow> shared_safe env wt (cw_shared w) \<and> cipher_good wt (cw_cipher w)"

text \<open>What the process runs in: a store and sources that keep their interfaces, an honest cipher, one key under every kid, and others that
  leave the state row, the ring and the watched row alone.\<close>

definition env_ok :: "'d config_env \<Rightarrow> watch \<Rightarrow> (string \<Rightarrow> js_time) \<Rightarrow> bool" where
  "env_ok env wt dates \<longleftrightarrow>
     keyring_store (rs_read (ce_store env)) (rs_write (ce_store env)) (usable_ring dates) \<and>
     aead_ok (ce_gcm env) \<and> (\<forall>n. length (ce_nonce env n) = NONCE_BYTES \<and> is_bytes (ce_nonce env n)) \<and>
     (\<forall>src\<in>set (ce_sources env). envelope_source src) \<and> distinct (map es_record (ce_sources env)) \<and> wa_src wt \<in> set (ce_sources env) \<and>
     (\<forall>n. from_base64 (ck_key (ce_newKey env n)) = wa_material wt (ck_kid (ce_newKey env n))) \<and>
     (\<forall>n ring. readConfigKeyring (kp_dates (ce_place env n)) (kp_disk (ce_place env n)) (kp_source (ce_place env n)) = Inr (Some ring) \<longrightarrow>
        agrees wt ring) \<and>
     (\<forall>n sh. sh_state (ce_others env n sh) = sh_state sh \<and> sh_store (ce_others env n sh) = sh_store sh \<and>
        watched_rows wt (ce_others env n sh) = watched_rows wt sh)"

lemma env_okD:
  assumes "env_ok env wt dates"
  shows "keyring_store (rs_read (ce_store env)) (rs_write (ce_store env)) (usable_ring dates)"
    and "aead_ok (ce_gcm env)" and "length (ce_nonce env n) = NONCE_BYTES" and "is_bytes (ce_nonce env n)"
    and "src \<in> set (ce_sources env) \<Longrightarrow> envelope_source src" and "distinct (map es_record (ce_sources env))"
    and "wa_src wt \<in> set (ce_sources env)"
    and "from_base64 (ck_key (ce_newKey env n)) = wa_material wt (ck_kid (ce_newKey env n))"
    and "readConfigKeyring (kp_dates (ce_place env n)) (kp_disk (ce_place env n)) (kp_source (ce_place env n)) = Inr (Some ring) \<Longrightarrow> agrees wt ring"
    and "sh_state (ce_others env n sh) = sh_state sh" and "sh_store (ce_others env n sh) = sh_store sh"
    and "watched_rows wt (ce_others env n sh) = watched_rows wt sh"
  using assms unfolding env_ok_def by blast+

lemma secret_kept_cong: "watched_rows wt sh' = watched_rows wt sh \<Longrightarrow> secret_kept env wt kids sh' = secret_kept env wt kids sh"
  by (simp add: secret_kept_def)

lemma secret_kept_mono: "secret_kept env wt kids sh \<Longrightarrow> kids \<subseteq> kids' \<Longrightarrow> secret_kept env wt kids' sh"
  unfolding secret_kept_def row_holds_def by blast

lemma others_safe:
  assumes "env_ok env wt dates"
  shows "shared_safe env wt (ce_others env n sh) = shared_safe env wt sh"
  by (simp add: shared_safe_def env_okD [OF assms] secret_kept_cong [OF env_okD(12) [OF assms]])

text \<open>The situation of a step: safe, with \<open>s\<close> as the state row and \<open>d\<close> as the store, and with further kids enough for the secret.\<close>

definition at :: "'d config_env \<Rightarrow> watch \<Rightarrow> ConfigKeyState option \<Rightarrow> 'd \<Rightarrow> string set \<Rightarrow> 'd config_world \<Rightarrow> bool" where
  "at env wt s d kids w \<longleftrightarrow>
     rotation_safe env wt w \<and> sh_state (cw_shared w) = s \<and> sh_store (cw_shared w) = d \<and> secret_kept env wt kids (cw_shared w)"

lemma at_safe: "at env wt s d kids w \<Longrightarrow> rotation_safe env wt w"
  by (simp add: at_def)

lemma at_begin: "env_ok env wt dates \<Longrightarrow> at env wt s d kids (begin_call env w) = at env wt s d kids w"
  by (simp add: at_def rotation_safe_def begin_call_def others_safe env_okD secret_kept_cong [OF env_okD(12)])

section \<open>Calls\<close>

lemma triple_call:
  assumes "env_ok env wt dates"
    and "\<And>sh r sh'. f sh = (r, sh') \<Longrightarrow> sh_state sh' = sh_state sh \<and> sh_store sh' = sh_store sh \<and> watched_rows wt sh' = watched_rows wt sh"
  shows "triple (at env wt s d K) (j_call env f) (\<lambda>x. at env wt s d K) (at env wt s d K)"
proof -
  have "at env wt s d K w'" if at: "at env wt s d K w" and call: "j_call env f w = Some (r, w')" for w r w'
  proof -
    have b: "at env wt s d K (begin_call env w)" using at_begin [OF assms(1)] at by simp
    show ?thesis
    proof (cases "ce_fails env (cw_tick w)")
      case (Some e)
      with call b show ?thesis by (simp add: j_call_def)
    next
      case None
      obtain q sh' where f: "f (cw_shared (begin_call env w)) = (q, sh')" by (cases "f (cw_shared (begin_call env w))")
      then have w': "w' = (begin_call env w)\<lparr>cw_shared := sh'\<rparr>"
        using call None by (simp add: j_call_def)
      show ?thesis
        using b assms(2) [OF f] by (auto simp: w' at_def rotation_safe_def shared_safe_def secret_kept_def)
    qed
  qed
  then show ?thesis
    by (intro tripleI) blast+
qed

lemma triple_read:
  assumes "env_ok env wt dates" and "\<And>w. at env wt s d K w \<Longrightarrow> Q (g (cw_shared w)) w"
  shows "triple (at env wt s d K) (j_call env (\<lambda>sh. (Inr (g sh), sh))) Q (at env wt s d K)"
proof (rule tripleI)
  fix w x w'
  assume "at env wt s d K w" "j_call env (\<lambda>sh. (Inr (g sh), sh)) w = Some (Inr x, w')"
  then have "at env wt s d K (begin_call env w)" "x = g (cw_shared (begin_call env w))" "w' = begin_call env w"
    using at_begin [OF assms(1)] by (auto simp: j_call_def Let_def split: option.splits)
  then show "Q x w'" using assms(2) by simp
next
  fix w e w'
  assume "at env wt s d K w" "j_call env (\<lambda>sh. (Inr (g sh), sh)) w = Some (Inl e, w')"
  then show "at env wt s d K w'"
    using at_begin [OF assms(1)] by (auto simp: j_call_def Let_def split: option.splits)
qed

lemma at_audit [simp]: "at env wt s d K (w\<lparr>cw_audit := a\<rparr>) = at env wt s d K w"
  and at_notices [simp]: "at env wt s d K (w\<lparr>cw_notices := n\<rparr>) = at env wt s d K w"
  and at_nonces [simp]: "at env wt s d K (w\<lparr>cw_nonces := n\<rparr>) = at env wt s d K w"
  by (simp_all add: at_def rotation_safe_def)

lemma triple_audit: "triple (at env wt s d K) (j_audit a) (\<lambda>_. at env wt s d K) E"
  by (rule tripleI) (auto simp: j_audit_def)

lemma triple_announce:
  assumes "env_ok env wt dates"
  shows "triple (at env wt s d K) (announce env) (\<lambda>_. at env wt s d K) E"
  unfolding announce_def
proof (rule triple_catch [where E' = "at env wt s d K"])
  show "triple (at env wt s d K) (j_bind (j_call env (\<lambda>sh. (Inr (), sh))) (\<lambda>_ w. Some (Inr (), w\<lparr>cw_notices := cw_notices w + 1\<rparr>)))
      (\<lambda>_. at env wt s d K) (at env wt s d K)"
    by (rule triple_bind [where R = "\<lambda>_. at env wt s d K"], rule triple_read [OF assms]) (auto intro: tripleI)
qed (rule triple_return)

text \<open>A saved patch: the state row is the patched one. A failed save changes nothing.\<close>

lemma triple_save:
  assumes "env_ok env wt dates" "state_fits (Some (patch s)) (kids_of env d)"
  shows "triple (at env wt (Some s) d K) (save_state env s patch)
    (\<lambda>s' w. s' = (patch s)\<lparr>st_version := st_version s + 1\<rparr> \<and> at env wt (Some s') d K w) (at env wt (Some s) d K)"
proof -
  let ?s' = "(patch s)\<lparr>st_version := st_version s + 1\<rparr>"
  have fits: "state_fits (Some ?s') (kids_of env d)"
    using assms(2) by (cases "st_rotation (patch s)") (simp_all add: state_fits_def)
  have rows: "watched_rows wt (sh\<lparr>sh_state := x\<rparr>) = watched_rows wt sh" for sh x
    by (simp add: watched_rows_def)
  show ?thesis
  proof (rule tripleI)
    fix w x w'
    assume at: "at env wt (Some s) d K w" and save: "save_state env s patch w = Some (Inr x, w')"
    have b: "at env wt (Some s) d K (begin_call env w)" using at_begin [OF assms(1)] at by simp
    then have "sh_state (cw_shared (begin_call env w)) = Some s" by (simp add: at_def)
    then have "x = ?s'" "w' = (begin_call env w)\<lparr>cw_shared := (cw_shared (begin_call env w))\<lparr>sh_state := Some ?s'\<rparr>\<rparr>"
      using save by (auto simp: save_state_def j_call_def Let_def split: option.splits)
    then show "x = ?s' \<and> at env wt (Some x) d K w'"
      using b fits by (auto simp: at_def rotation_safe_def shared_safe_def secret_kept_def rows)
  next
    fix w e w'
    assume at: "at env wt (Some s) d K w" and save: "save_state env s patch w = Some (Inl e, w')"
    have b: "at env wt (Some s) d K (begin_call env w)" using at_begin [OF assms(1)] at by simp
    then have "sh_state (cw_shared (begin_call env w)) = Some s" by (simp add: at_def)
    then have "w' = begin_call env w"
      using save by (auto simp: save_state_def j_call_def Let_def split: option.splits)
    with b show "at env wt (Some s) d K w'" by simp
  qed
qed

abbreviation safe :: "'d config_env \<Rightarrow> watch \<Rightarrow> 'd config_world \<Rightarrow> bool" where
  "safe \<equiv> rotation_safe"

lemma triple_save_end:
  assumes "env_ok env wt dates" "state_fits (Some (patch s)) (kids_of env d)" "\<And>s' w. safe env wt w \<Longrightarrow> Q s' w"
  shows "triple (at env wt (Some s) d K) (save_state env s patch) Q (safe env wt)"
  by (rule triple_weaken [OF triple_save [where patch = patch and s = s, OF assms(1,2)]]) (auto intro: assms(3) at_safe)

lemma triple_save_bind:
  assumes "env_ok env wt dates" "state_fits (Some (patch s)) (kids_of env d)"
    and "\<And>s'. s' = (patch s)\<lparr>st_version := st_version s + 1\<rparr> \<Longrightarrow> triple (at env wt (Some s') d K) (f s') Q (safe env wt)"
  shows "triple (at env wt (Some s) d K) (j_bind (save_state env s patch) f) Q (safe env wt)"
proof (rule triple_bind)
  show "triple (at env wt (Some s) d K) (save_state env s patch)
      (\<lambda>s' w. s' = (patch s)\<lparr>st_version := st_version s + 1\<rparr> \<and> at env wt (Some s') d K w) (safe env wt)"
    by (rule triple_weaken [OF triple_save [where patch = patch and s = s, OF assms(1,2)]]) (auto intro: at_safe)
  show "triple (\<lambda>w. s' = (patch s)\<lparr>st_version := st_version s + 1\<rparr> \<and> at env wt (Some s') d K w) (f s') Q (safe env wt)" for s'
    by (rule triple_fact) (rule assms(3))
qed

text \<open>The pieces of the steps that only save the rotation.\<close>

lemma at_fits: "at env wt (Some s) d K w \<Longrightarrow> state_fits (Some s) (kids_of env d)"
  by (auto simp: at_def rotation_safe_def shared_safe_def)

definition quiet_change :: "ConfigKeyRotation \<Rightarrow> ConfigKeyRotation \<Rightarrow> bool" where
  "quiet_change ro ro' \<longleftrightarrow> (ro_phase ro' = ro_phase ro \<and> ro_kid ro' = ro_kid ro) \<or> ro_phase ro' \<in> {Adding, Done, Gave_up}"

lemma quiet_fits:
  "state_fits (Some s) kids \<Longrightarrow> st_rotation s = Some ro \<Longrightarrow> quiet_change ro ro' \<Longrightarrow> state_fits (Some (set_rotation ro' s)) kids"
  by (auto simp: state_fits_def set_rotation_def quiet_change_def rotation_fits_def)

lemma triple_recordError:
  assumes "env_ok env wt dates" "st_rotation s = Some ro" "state_fits (Some s) (kids_of env d)"
  shows "triple (at env wt (Some s) d K) (recordError env s ro m) (\<lambda>b w. \<not> b \<and> safe env wt w) (safe env wt)"
  unfolding recordError_def
  by (intro triple_if triple_return triple_bind [where R = "\<lambda>_. safe env wt"] triple_save_end [OF assms(1)])
    (auto intro: at_safe quiet_fits [OF assms(3,2)] simp: quiet_change_def)

lemma triple_fail:
  assumes "env_ok env wt dates" "st_rotation s = Some ro" "state_fits (Some s) (kids_of env d)"
  shows "triple (at env wt (Some s) d K) (fail_rotation env s ro m) (\<lambda>b w. \<not> b \<and> safe env wt w) (safe env wt)"
  unfolding fail_rotation_def
  by (intro triple_bind [where R = "\<lambda>_. at env wt (Some s) d K"] triple_now triple_bind [where R = "\<lambda>_. safe env wt"]
      triple_save_end [OF assms(1)] triple_return)
    (auto intro: quiet_fits [OF assms(3,2)] simp: quiet_change_def advance_def)

lemma triple_setWaiting:
  assumes "env_ok env wt dates" "st_rotation s = Some ro" "state_fits (Some s) (kids_of env d)"
  shows "triple (at env wt (Some s) d K) (setWaiting env s ro waiting) (\<lambda>b w. \<not> b \<and> safe env wt w) (safe env wt)"
  unfolding setWaiting_def
  by (intro triple_if triple_return triple_bind [where R = "\<lambda>_. safe env wt"] triple_save_end [OF assms(1)])
    (auto intro: at_safe quiet_fits [OF assms(3,2)] simp: quiet_change_def advance_def)

lemma triple_finish:
  assumes "env_ok env wt dates" "st_rotation s = Some ro" "state_fits (Some s) (kids_of env d)"
  shows "triple (at env wt (Some s) d K) (finish_rotation env s ro retained) (\<lambda>b w. \<not> b \<and> safe env wt w) (safe env wt)"
  unfolding finish_rotation_def
  by (intro triple_bind [where R = "\<lambda>_. at env wt (Some s) d K"] triple_now triple_bind [where R = "\<lambda>_. safe env wt"]
      triple_save_end [OF assms(1)] triple_return)
    (auto intro: quiet_fits [OF assms(3,2)] simp: quiet_change_def advance_def)

section \<open>The ring\<close>

lemma triple_ex: "(\<And>x. triple (P x) m Q E) \<Longrightarrow> triple (\<lambda>w. \<exists>x. P x w) m Q E"
  unfolding triple_def by blast

lemma triple_ignore: "(\<And>w. P w \<Longrightarrow> safe env wt w) \<Longrightarrow> (\<And>w. safe env wt w \<Longrightarrow> Q x w) \<Longrightarrow> triple P (j_return x) Q E"
  by (rule triple_return) blast

lemma triple_store_read:
  assumes "env_ok env wt dates"
  shows "triple (at env wt s d K) (store_call env (\<lambda>d. (rs_read (ce_store env) d, d)))
    (\<lambda>r w. (\<forall>snap. r = Inr snap \<longrightarrow> rs_read (ce_store env) d = Inr snap) \<and> at env wt s d K w) E"
proof -
  have eq: "(\<lambda>sh. case (rs_read (ce_store env) (sh_store sh), sh_store sh) of (r, d) \<Rightarrow> (Inr r, sh\<lparr>sh_store := d\<rparr>)) =
      (\<lambda>sh. (Inr (rs_read (ce_store env) (sh_store sh)), sh))"
    by (rule ext) simp
  show ?thesis
    unfolding store_call_def eq
    by (rule triple_catch [where E' = "at env wt s d K"], rule triple_read [OF assms]) (auto intro: triple_return simp: at_def)
qed

lemma triple_readRing:
  assumes "env_ok env wt dates" "st_rotation s = Some ro" "state_fits (Some s) (kids_of env d)"
  shows "triple (at env wt (Some s) d K) (readRing env s ro)
    (\<lambda>x w. case x of None \<Rightarrow> safe env wt w | Some snap \<Rightarrow> rs_read (ce_store env) d = Inr snap \<and> at env wt (Some s) d K w) (safe env wt)"
  unfolding readRing_def
proof (rule triple_bind)
  show "triple (at env wt (Some s) d K) (store_call env (\<lambda>d. (rs_read (ce_store env) d, d)))
    (\<lambda>r w. (\<forall>snap. r = Inr snap \<longrightarrow> rs_read (ce_store env) d = Inr snap) \<and> at env wt (Some s) d K w) (safe env wt)"
    by (rule triple_store_read [OF assms(1)])
next
  fix r
  show "triple (\<lambda>w. (\<forall>snap. r = Inr snap \<longrightarrow> rs_read (ce_store env) d = Inr snap) \<and> at env wt (Some s) d K w)
      (case r of Inr snap \<Rightarrow> j_return (Some snap)
       | Inl (Ring_Invalid m) \<Rightarrow> j_bind (fail_rotation env s ro m) (\<lambda>_. j_return None)
       | Inl e \<Rightarrow> j_bind (recordError env s ro (''The keyring can't be read: '' @ store_message e)) (\<lambda>_. j_return None))
      (\<lambda>x w. case x of None \<Rightarrow> safe env wt w | Some snap \<Rightarrow> rs_read (ce_store env) d = Inr snap \<and> at env wt (Some s) d K w) (safe env wt)"
    by (rule triple_fact)
      (auto split: sum.split store_error.split intro!: triple_return
        intro: triple_bind [OF triple_fail [OF assms]] triple_bind [OF triple_recordError [OF assms]])
qed

text \<open>Writing a ring that has enough kids for the secret and for the rotation.\<close>

lemma written_kids:
  assumes "env_ok env wt dates" "rs_write (ce_store env) ring version d = (Inr u, d')" "agrees wt ring"
  shows "kids_of env d' = set (ring_kids ring)" "store_good env wt d'"
proof -
  obtain snap where "rs_read (ce_store env) d' = Inr snap" "sn_keyring snap = ring"
    using keyring_store.write_read [OF env_okD(1) [OF assms(1)]] assms(2) by (cases u) blast
  with assms(3) show "kids_of env d' = set (ring_kids ring)" "store_good env wt d'"
    by (auto simp: kids_of_def store_good_def)
qed

lemma refused_store:
  "env_ok env wt dates \<Longrightarrow> rs_write (ce_store env) ring version d = (Inl e, d') \<Longrightarrow> d' = d"
  by (rule keyring_store.write_refused [OF env_okD(1)])

lemma triple_store_write:
  assumes "env_ok env wt dates" "agrees wt ring" "state_fits (Some s) (set (ring_kids ring))" "K = set (ring_kids ring)"
  shows "triple (at env wt (Some s) d K) (store_call env (rs_write (ce_store env) ring version))
    (\<lambda>r w. case r of Inr u \<Rightarrow> \<exists>d'. kids_of env d' = K \<and> at env wt (Some s) d' K w | Inl e \<Rightarrow> at env wt (Some s) d K w) E"
  unfolding store_call_def
proof (rule triple_catch [where E' = "at env wt (Some s) d K"])
  let ?f = "\<lambda>sh. case rs_write (ce_store env) ring version (sh_store sh) of (r, d) \<Rightarrow> (Inr r, sh\<lparr>sh_store := d\<rparr>)"
  have rows: "watched_rows wt (sh\<lparr>sh_store := x\<rparr>) = watched_rows wt sh" for sh :: "'a shared" and x
    by (simp add: watched_rows_def)
  show "triple (at env wt (Some s) d K) (j_call env ?f)
      (\<lambda>r w. case r of Inr u \<Rightarrow> \<exists>d'. kids_of env d' = K \<and> at env wt (Some s) d' K w | Inl e \<Rightarrow> at env wt (Some s) d K w)
      (at env wt (Some s) d K)"
  proof (rule tripleI)
    fix w r w'
    assume at: "at env wt (Some s) d K w" and call: "j_call env ?f w = Some (Inr r, w')"
    have b: "at env wt (Some s) d K (begin_call env w)" using at_begin [OF assms(1)] at by simp
    then have store: "sh_store (cw_shared (begin_call env w)) = d" by (simp add: at_def)
    obtain q d' where wr: "rs_write (ce_store env) ring version d = (q, d')"
      by (cases "rs_write (ce_store env) ring version d")
    have r: "r = q" "w' = (begin_call env w)\<lparr>cw_shared := (cw_shared (begin_call env w))\<lparr>sh_store := d'\<rparr>\<rparr>"
      using call by (auto simp: j_call_def Let_def store wr split: option.splits)
    show "case r of Inr u \<Rightarrow> \<exists>d'. kids_of env d' = K \<and> at env wt (Some s) d' K w' | Inl e \<Rightarrow> at env wt (Some s) d K w'"
    proof (cases q)
      case (Inl e)
      then have "d' = d" using refused_store [OF assms(1)] wr by blast
      then have "w' = begin_call env w" using store by (simp add: r)
      with Inl b show ?thesis by (simp add: r)
    next
      case (Inr u)
      note kids = written_kids [OF assms(1) wr [unfolded Inr] assms(2)]
      have "at env wt (Some s) d' K w'"
        using b kids assms(3,4) by (auto simp: r at_def rotation_safe_def shared_safe_def secret_kept_def rows)
      with Inr kids assms(4) show ?thesis by (auto simp: r)
    qed
  next
    fix w e w'
    assume "at env wt (Some s) d K w" "j_call env ?f w = Some (Inl e, w')"
    then show "at env wt (Some s) d K w'"
      using at_begin [OF assms(1)] by (auto simp: j_call_def Let_def split: option.splits prod.splits)
  qed
qed (rule triple_return, simp)

lemma triple_writeRing:
  assumes "env_ok env wt dates" "st_rotation s = Some ro" "state_fits (Some s) (kids_of env d)"
    and "agrees wt ring" "state_fits (Some s) (set (ring_kids ring))" "K = set (ring_kids ring)"
  shows "triple (at env wt (Some s) d K) (writeRing env s ro ring version)
    (\<lambda>b w. if b then \<exists>d'. kids_of env d' = K \<and> at env wt (Some s) d' K w else safe env wt w) (safe env wt)"
  unfolding writeRing_def
proof (rule triple_bind, rule triple_store_write [OF assms(1,4-6)])
  fix r
  have err: "triple (at env wt (Some s) d K) (recordError env s ro m)
      (\<lambda>b w. if b then \<exists>d'. kids_of env d' = K \<and> at env wt (Some s) d' K w else safe env wt w) (safe env wt)" for m
    by (rule triple_weaken [OF triple_recordError [OF assms(1-3)]]) auto
  show "triple (\<lambda>w. case r of Inr u \<Rightarrow> \<exists>d'. kids_of env d' = K \<and> at env wt (Some s) d' K w | Inl e \<Rightarrow> at env wt (Some s) d K w)
     (case r of Inr u \<Rightarrow> j_return True | Inl Ring_Conflict \<Rightarrow> recordError env s ro (store_message Ring_Conflict)
      | Inl e \<Rightarrow> recordError env s ro (''The keyring can't be updated: '' @ store_message e))
     (\<lambda>b w. if b then \<exists>d'. kids_of env d' = K \<and> at env wt (Some s) d' K w else safe env wt w) (safe env wt)"
  proof (cases r)
    case (Inl e)
    then show ?thesis by (cases e) (simp_all only: sum.case store_error.case err)
  next
    case (Inr u)
    show ?thesis
      unfolding Inr sum.case by (rule triple_return) simp
  qed
qed

section \<open>Adding the key\<close>

lemma fits_adding: "st_rotation s = Some ro \<Longrightarrow> ro_phase ro = Adding \<Longrightarrow> state_fits (Some s) kids"
  by (simp add: state_fits_def rotation_fits_def)

lemma triple_record_added:
  assumes "env_ok env wt dates" "ck_kid added \<in> kids_of env d"
  shows "triple (at env wt (Some s) d K) (record_added env s ro ring added) (\<lambda>b. safe env wt) (safe env wt)"
proof -
  let ?patch = "\<lambda>now. set_rotation (advance (ro\<lparr>ro_keyringKids := None\<rparr>) (\<lambda>r. r\<lparr>ro_kid := Some (ck_kid added),
      ro_previousKids := filter (\<lambda>k. k \<noteq> ck_kid added) (ring_kids ring), ro_phase := Activating, ro_activationStartedAt := Some now\<rparr>))"
  have fits: "state_fits (Some (?patch now s)) (kids_of env d)" for now
    using assms(2) by (simp add: state_fits_def set_rotation_def advance_def rotation_fits_def)
  show ?thesis
    unfolding record_added_def
    by (rule triple_bind [where R = "\<lambda>_. at env wt (Some s) d K"], rule triple_now, assumption,
        rule triple_save_bind [OF assms(1)], rule fits, rule triple_bind [OF triple_audit], rule triple_bind [OF triple_announce [OF assms(1)]], rule triple_return, rule at_safe)
qed

lemma own_key_in: "own_key ring before = Some k \<Longrightarrow> k \<in> set (cr_keys ring)"
  using last_in_set [of "filter (\<lambda>k. ck_kid k \<notin> set before) (cr_keys ring)"] by (auto simp: own_key_def Let_def split: if_splits)

lemma kids_of_read: "rs_read (ce_store env) d = Inr snap \<Longrightarrow> kids_of env d = set (ring_kids (sn_keyring snap))"
  by (simp add: kids_of_def)

lemma at_agrees: "at env wt s d K w \<Longrightarrow> rs_read (ce_store env) d = Inr snap \<Longrightarrow> agrees wt (sn_keyring snap)"
  by (auto simp: at_def rotation_safe_def shared_safe_def store_good_def)

lemma at_more: "at env wt s d K w \<Longrightarrow> kids_of env d \<subseteq> K' \<Longrightarrow> at env wt s d K' w"
  using secret_kept_mono [of env wt "kids_of env d" "cw_shared w" K'] by (auto simp: at_def rotation_safe_def shared_safe_def)

lemma triple_add_key:
  assumes "env_ok env wt dates" "st_rotation s = Some ro" "ro_phase ro = Adding" "rs_read (ce_store env) d = Inr snap"
  shows "triple (at env wt (Some s) d K) (add_key env s ro snap) (\<lambda>b. safe env wt) (safe env wt)"
proof (cases "own_key (sn_keyring snap) (nullish (ro_keyringKids ro))")
  case (Some own)
  then have "ck_kid own \<in> kids_of env d"
    using own_key_in kids_of_read [OF assms(4)] by (fastforce simp: ring_kids_def)
  then show ?thesis
    by (simp add: add_key_def Some triple_record_added [OF assms(1)])
next
  case None
  have "triple (at env wt (Some s) d K)
      (j_bind (writeRing env s ro \<lparr>cr_keys = cr_keys (sn_keyring snap) @ [ce_newKey env n]\<rparr> (sn_version snap)) (\<lambda>written.
         if \<not> written then j_return False else record_added env s ro (sn_keyring snap) (ce_newKey env n)))
      (\<lambda>b. safe env wt) (safe env wt)" if "at env wt (Some s) d K w0" for w0 n
  proof -
    let ?ring = "\<lparr>cr_keys = cr_keys (sn_keyring snap) @ [ce_newKey env n]\<rparr>"
    let ?K = "set (ring_kids ?ring)"
    have agree: "agrees wt ?ring"
      using at_agrees [OF that assms(4)] env_okD(8) [OF assms(1)] by (auto simp: agrees_def)
    have kids: "kids_of env d \<subseteq> ?K" "ck_kid (ce_newKey env n) \<in> ?K"
      by (auto simp: kids_of_read [OF assms(4)] ring_kids_def)
    show ?thesis
    proof (rule triple_pre, rule triple_bind)
      show "triple (at env wt (Some s) d ?K) (writeRing env s ro ?ring (sn_version snap))
          (\<lambda>b w. if b then \<exists>d'. kids_of env d' = ?K \<and> at env wt (Some s) d' ?K w else safe env wt w) (safe env wt)"
        by (rule triple_writeRing [OF assms(1,2) fits_adding [OF assms(2,3)] agree fits_adding [OF assms(2,3)] refl])
    next
      fix written
      show "triple (\<lambda>w. if written then \<exists>d'. kids_of env d' = ?K \<and> at env wt (Some s) d' ?K w else safe env wt w)
          (if \<not> written then j_return False else record_added env s ro (sn_keyring snap) (ce_newKey env n)) (\<lambda>b. safe env wt) (safe env wt)"
        using kids(2) by (auto intro!: triple_return triple_ex triple_fact triple_record_added [OF assms(1)])
    next
      show "at env wt (Some s) d ?K w" if "at env wt (Some s) d K w" for w
        by (rule at_more [OF that kids(1)])
    qed
  qed
  then show ?thesis
    by (simp add: add_key_def None Let_def) (rule triple_at, blast)
qed

lemma triple_stepAdding:
  assumes "env_ok env wt dates" "st_rotation s = Some ro" "ro_phase ro = Adding"
  shows "triple (at env wt (Some s) d K) (stepAdding env s ro) (\<lambda>b. safe env wt) (safe env wt)"
  unfolding stepAdding_def
proof (rule triple_bind [OF triple_readRing [OF assms(1,2) fits_adding [OF assms(2,3)]]])
  fix x
  have more: "triple (\<lambda>w. rs_read (ce_store env) d = Inr snap \<and> at env wt (Some s) d K w)
      (if ro_keyringKids ro = None then
         j_bind (save_state env s (set_rotation (ro\<lparr>ro_keyringKids := Some (ring_kids (sn_keyring snap))\<rparr>))) (\<lambda>s'.
           case st_rotation s' of None \<Rightarrow> j_throw TypeError | Some ro' \<Rightarrow> add_key env s' ro' snap)
       else add_key env s ro snap) (\<lambda>b. safe env wt) (safe env wt)" for snap
  proof (rule triple_fact, rule triple_if)
    assume read: "rs_read (ce_store env) d = Inr snap"
    show "triple (at env wt (Some s) d K) (add_key env s ro snap) (\<lambda>b. safe env wt) (safe env wt)"
      by (rule triple_add_key [OF assms read])
    let ?patch = "set_rotation (ro\<lparr>ro_keyringKids := Some (ring_kids (sn_keyring snap))\<rparr>)"
    have "state_fits (Some (?patch s)) (kids_of env d)"
      using assms(3) by (simp add: state_fits_def set_rotation_def rotation_fits_def)
    then show "triple (at env wt (Some s) d K) (j_bind (save_state env s ?patch) (\<lambda>s'.
           case st_rotation s' of None \<Rightarrow> j_throw TypeError | Some ro' \<Rightarrow> add_key env s' ro' snap)) (\<lambda>b. safe env wt) (safe env wt)"
    proof (rule triple_save_bind [OF assms(1)])
      fix s'
      assume "s' = (?patch s)\<lparr>st_version := st_version s + 1\<rparr>"
      then have "st_rotation s' = Some (ro\<lparr>ro_keyringKids := Some (ring_kids (sn_keyring snap))\<rparr>)"
        by (simp add: set_rotation_def)
      then show "triple (at env wt (Some s') d K) (case st_rotation s' of None \<Rightarrow> j_throw TypeError | Some ro' \<Rightarrow> add_key env s' ro' snap)
          (\<lambda>b. safe env wt) (safe env wt)"
        by (simp add: assms(3) triple_add_key [OF assms(1) _ _ read])
    qed
  qed
  show "triple (\<lambda>w. case x of None \<Rightarrow> safe env wt w | Some snap \<Rightarrow> rs_read (ce_store env) d = Inr snap \<and> at env wt (Some s) d K w)
     (case x of None \<Rightarrow> j_return False
      | Some snap \<Rightarrow>
          if ro_keyringKids ro = None then
            j_bind (save_state env s (set_rotation (ro\<lparr>ro_keyringKids := Some (ring_kids (sn_keyring snap))\<rparr>))) (\<lambda>s'.
              case st_rotation s' of None \<Rightarrow> j_throw TypeError | Some ro' \<Rightarrow> add_key env s' ro' snap)
          else add_key env s ro snap) (\<lambda>b. safe env wt) (safe env wt)"
    by (cases x) (simp_all only: option.case more, auto intro: triple_return)
qed

section \<open>Activating it\<close>

lemma triple_liveCopies:
  assumes "env_ok env wt dates" "st_rotation s = Some ro" "state_fits (Some s) (kids_of env d)"
  shows "triple (at env wt (Some s) d K) (liveCopies env s ro goingOn)
    (\<lambda>x w. case x of None \<Rightarrow> safe env wt w | Some beats \<Rightarrow> at env wt (Some s) d K w) (safe env wt)"
  unfolding liveCopies_def
proof (rule triple_bind, rule triple_attempt)
  show "triple (at env wt (Some s) d K) (j_call env (\<lambda>sh. (Inr (sh_beats sh), sh))) (\<lambda>beats. at env wt (Some s) d K) (at env wt (Some s) d K)"
    by (rule triple_read [OF assms(1)])
  fix r :: "string + ConfigKeyHeartbeatEntry list"
  have err: "triple (at env wt (Some s) d K) (j_bind (recordError env s ro m) (\<lambda>_. j_return None))
      (\<lambda>x w. case x of None \<Rightarrow> safe env wt w | Some beats \<Rightarrow> at env wt (Some s) d K w) (safe env wt)" for m
    by (rule triple_bind [OF triple_recordError [OF assms]]) (auto intro: triple_return)
  show "triple (\<lambda>w. case r of Inl m \<Rightarrow> at env wt (Some s) d K w | Inr x \<Rightarrow> at env wt (Some s) d K w)
      (case r of
         Inl m \<Rightarrow> j_bind (recordError env s ro (''The server copies' heartbeats can't be read ('' @ m @ ''); '' @ goingOn)) (\<lambda>_. j_return None)
       | Inr beats \<Rightarrow>
           if beats = [] then
             j_bind (recordError env s ro (''No server copy is reporting the keys it has loaded yet; '' @ goingOn)) (\<lambda>_. j_return None)
           else j_return (Some beats))
      (\<lambda>x w. case x of None \<Rightarrow> safe env wt w | Some beats \<Rightarrow> at env wt (Some s) d K w) (safe env wt)"
  proof (cases r)
    case (Inr beats)
    show ?thesis
      unfolding Inr sum.case by (intro triple_if err triple_return) simp
  qed (simp only: sum.case err)
qed

lemma fits_kid:
  "state_fits (Some s) kids \<Longrightarrow> st_rotation s = Some ro \<Longrightarrow> ro_phase ro \<in> {Activating, Reencrypting, Retiring} \<Longrightarrow>
   recorded_kid (ro_kid ro) = Some kid \<Longrightarrow> kid \<in> kids"
  by (auto simp: state_fits_def rotation_fits_def recorded_kid_def split: if_splits)

lemma recorded_kid_Some: "recorded_kid k = Some kid \<Longrightarrow> k = Some kid"
  by (auto simp: recorded_kid_def split: option.splits if_splits)

lemma triple_option:
  "triple P (f) Q E \<Longrightarrow> (\<And>x. triple (R x) (g x) Q E) \<Longrightarrow>
   triple (\<lambda>w. case y of None \<Rightarrow> P w | Some x \<Rightarrow> R x w) (case y of None \<Rightarrow> f | Some x \<Rightarrow> g x) Q E"
  by (cases y) simp_all

lemma triple_stepActivating:
  assumes "env_ok env wt dates" "st_rotation s = Some ro" "ro_phase ro = Activating" "state_fits (Some s) (kids_of env d)"
  shows "triple (at env wt (Some s) d K) (stepActivating env s ro) (\<lambda>b. safe env wt) (safe env wt)"
proof (cases "recorded_kid (ro_kid ro)")
  case None
  show ?thesis
    unfolding stepActivating_def None option.case by (rule triple_weaken [OF triple_fail [OF assms(1,2,4)]]) simp_all
next
  case (Some kid)
  let ?ro' = "\<lambda>beats now. advance ro (\<lambda>r. r\<lparr>ro_phase := Reencrypting, ro_activatedAt := Some now,
      ro_waitingFor := Some (waiting_copies (\<lambda>b. hb_encrypting b \<noteq> Some kid) beats)\<rparr>)"
  let ?patch = "\<lambda>beats now st. set_rotation (?ro' beats now) (st\<lparr>st_activeKid := Some kid\<rparr>)"
  have "kid \<in> kids_of env d" "ro_kid ro = Some kid"
    using fits_kid [OF assms(4,2) _ Some] assms(3) recorded_kid_Some [OF Some] by simp_all
  then have fits: "state_fits (Some (?patch beats now s)) (kids_of env d)" for beats now
    by (simp add: state_fits_def set_rotation_def advance_def rotation_fits_def)
  have on: "triple (at env wt (Some s) d K)
      (j_bind (j_now env) (\<lambda>now. j_bind (save_state env s (?patch beats now)) (\<lambda>_.
         j_bind (j_audit (Config_Key_Activated kid (length beats))) (\<lambda>_. j_bind (announce env) (\<lambda>_. j_return True)))))
      (\<lambda>b. safe env wt) (safe env wt)" for beats
    by (rule triple_bind [where R = "\<lambda>_. at env wt (Some s) d K"], rule triple_now, assumption,
        rule triple_save_bind [OF assms(1)], rule fits,
        rule triple_bind [OF triple_audit], rule triple_bind [OF triple_announce [OF assms(1)]], rule triple_return, rule at_safe)
  have wait: "triple (at env wt (Some s) d K) (setWaiting env s ro waiting) (\<lambda>b. safe env wt) (safe env wt)" for waiting
    by (rule triple_weaken [OF triple_setWaiting [OF assms(1,2,4)]]) simp_all
  show ?thesis
    unfolding stepActivating_def Some option.case
    by (rule triple_bind [OF triple_liveCopies [OF assms(1,2,4)]], rule triple_option)
      (auto intro: triple_return wait on simp: Let_def)
qed

section \<open>Going through the pages\<close>

definition page_job :: "'d config_env \<Rightarrow> string \<Rightarrow> (entity \<Rightarrow> 'p \<Rightarrow> ('d, 'p) job) \<Rightarrow> string option \<Rightarrow> 'p \<Rightarrow> ('d, entity list \<times> 'p) job" where
  "page_job env record visit last_uid p =
     j_bind (find_entities env record last_uid) (\<lambda>rows. j_bind (visit_rows visit rows p) (\<lambda>q. j_return (rows, q)))"

lemma visit_pages_rule:
  assumes "\<And>last_uid p. triple (I last_uid p) (page_job env record visit last_uid p)
      (\<lambda>(rows, q) w. if length rows < ce_limit env then Q q w else if rows = [] then E w else I (Some (e_uid (last rows))) q w) E"
  shows "triple (I last_uid p) (visit_pages env record visit last_uid p) Q E"
proof -
  let ?P = "\<lambda>env' record' visit' last_uid p w r. env' = env \<and> record' = record \<and> visit' = visit \<and> I last_uid p w \<longrightarrow>
      (case r of (Inr q, w') \<Rightarrow> Q q w' | (Inl e, w') \<Rightarrow> E w')"
  have "?P env record visit last_uid p w r" if "visit_pages env record visit last_uid p w = Some r" for last_uid p w r
  proof (rule visit_pages.raw_induct [where P = ?P, OF _ that], intro impI, elim conjE)
    fix rec env' record' visit' last_uid p w r
    assume IH: "\<And>env' record' visit' last_uid p w r. rec env' record' visit' last_uid p w = Some r \<Longrightarrow> ?P env' record' visit' last_uid p w r"
      and body: "Option.bind (j_bind (find_entities env' record' last_uid) (\<lambda>rows. j_bind (visit_rows visit' rows p) (\<lambda>q. j_return (rows, q))) w)
        (\<lambda>(r, w1). case r of Inl e \<Rightarrow> Some (Inl e, w1)
          | Inr (rows, q) \<Rightarrow>
              if length rows < ce_limit env' then Some (Inr q, w1)
              else if rows = [] then Some (Inl TypeError, w1) else rec env' record' visit' (Some (e_uid (last rows))) q w1) = Some r"
      and eqs: "env' = env" "record' = record" "visit' = visit" and I: "I last_uid p w"
    obtain x w1 where x: "page_job env record visit last_uid p w = Some (x, w1)"
      and rest: "(case x of Inl e \<Rightarrow> Some (Inl e, w1)
          | Inr (rows, q) \<Rightarrow>
              if length rows < ce_limit env then Some (Inr q, w1)
              else if rows = [] then Some (Inl TypeError, w1) else rec env record visit (Some (e_uid (last rows))) q w1) = Some r"
      using body [unfolded eqs, folded page_job_def] by (auto simp: bind_eq_Some_conv)
    show "case r of (Inr q, w') \<Rightarrow> Q q w' | (Inl e, w') \<Rightarrow> E w'"
    proof (cases x)
      case (Inl e)
      with rest triple_Inl [OF assms I x [unfolded Inl]] show ?thesis by auto
    next
      case (Inr rq)
      obtain rows q where rq: "rq = (rows, q)" by (cases rq)
      have post: "if length rows < ce_limit env then Q q w1 else if rows = [] then E w1 else I (Some (e_uid (last rows))) q w1"
        using triple_Inr [OF assms I x [unfolded Inr]] by (simp add: rq)
      show ?thesis
      proof (cases "length rows < ce_limit env \<or> rows = []")
        case True
        with rest post show ?thesis by (auto simp: Inr rq split: if_splits)
      next
        case False
        then have "rec env record visit (Some (e_uid (last rows))) q w1 = Some r" "I (Some (e_uid (last rows))) q w1"
          using rest post by (auto simp: Inr rq)
        with IH show ?thesis by blast
      qed
    qed
  qed
  then show ?thesis
    by (intro tripleI) fastforce+
qed

text \<open>Where the watched row is on a page: there once, or still to come behind its last row.\<close>

definition passed :: "string option \<Rightarrow> string \<Rightarrow> bool" where
  "passed last_uid u = (case last_uid of None \<Rightarrow> False | Some l \<Rightarrow> u \<le> l)"

lemma find_watched:
  assumes "filter (\<lambda>r. e_uid r = u) T = [r]" "\<not> passed last_uid u" "rows = table_find e_uid T last_uid n"
  shows "filter (\<lambda>r. e_uid r = u) rows = [r] \<or>
    (filter (\<lambda>r. e_uid r = u) rows = [] \<and> length rows = n \<and> (rows \<noteq> [] \<longrightarrow> e_uid (last rows) < u))"
proof -
  let ?S = "after_cursor e_uid last_uid (sort_key e_uid T)"
  have "filter (\<lambda>r. e_uid r = u) (sort_key e_uid T) = [r]"
    using assms(1) by (simp add: sort_key_stable)
  moreover have "filter (\<lambda>r. e_uid r = u) ?S = filter (\<lambda>r. e_uid r = u) (sort_key e_uid T)"
    using assms(2) by (auto simp: after_cursor_def passed_def intro!: filter_cong split: option.splits)
  ultimately have S: "filter (\<lambda>r. e_uid r = u) (take n ?S) @ filter (\<lambda>r. e_uid r = u) (drop n ?S) = [r]"
    by (simp flip: filter_append)
  have rows: "rows = take n ?S"
    by (simp add: assms(3) table_find_def)
  show ?thesis
  proof (cases "filter (\<lambda>r. e_uid r = u) rows = []")
    case True
    then have "filter (\<lambda>r. e_uid r = u) (drop n ?S) = [r]"
      using S rows by simp
    then have r: "r \<in> set (drop n ?S)" "e_uid r = u"
      by (auto simp: filter_eq_Cons_iff)
    then have len: "length rows = n"
      by (cases "n < length ?S") (auto simp: rows)
    have "e_uid (last rows) < u" if "rows \<noteq> []"
    proof -
      have "sorted (map e_uid (take n ?S @ drop n ?S))"
        by (simp add: after_cursor_def sorted_filter)
      moreover have "last rows \<in> set (take n ?S)"
        using that rows by (metis last_in_set)
      ultimately have "e_uid (last rows) \<le> u"
        using r by (auto simp only: map_append sorted_append set_map)
      moreover have "e_uid (last rows) \<noteq> u"
        using True that by (auto simp: filter_empty_conv)
      ultimately show ?thesis by simp
    qed
    with True len show ?thesis by simp
  next
    case False
    with S rows show ?thesis by (auto simp: append_eq_Cons_conv)
  qed
qed

lemma find_passed:
  assumes "passed last_uid u"
  shows "filter (\<lambda>r. e_uid r = u) (table_find e_uid T last_uid n) = []"
proof -
  have "\<not> u < e_uid r" if "e_uid r = u" for r using that by simp
  then show ?thesis
    using assms by (auto simp: table_find_def after_cursor_def passed_def filter_empty_conv split: option.splits dest!: in_set_takeD)
qed

lemma bind_assoc: "j_bind (j_bind m f) g = j_bind m (\<lambda>x. j_bind (f x) g)"
  by (rule ext) (auto simp: j_bind_def split: option.split sum.split)

lemma visit_rows_append: "visit_rows visit (us @ vs) p = j_bind (visit_rows visit us p) (visit_rows visit vs)"
proof (induction us arbitrary: p)
  case (Cons u us)
  then have "visit_rows visit (us @ vs) = (\<lambda>p. j_bind (visit_rows visit us p) (visit_rows visit vs))"
    by (rule ext)
  then show ?case by (simp add: bind_assoc)
qed (simp add: j_bind_def j_return_def)

lemma visit_rows_keeps:
  assumes "\<And>row p. row \<in> set rows \<Longrightarrow> triple (P p) (visit row p) P E"
  shows "triple (P p) (visit_rows visit rows p) P E"
  using assms by (induction rows arbitrary: p) (auto intro: triple_return triple_bind)

text \<open>A pass over the watched table reaches the watched row: \<open>J\<close> is kept throughout, \<open>G\<close> holds from the visit of that row on.\<close>

lemma visit_watched_table:
  assumes begin_J: "\<And>p w. J p w \<Longrightarrow> J p (begin_call env w)" and begin_G: "\<And>p w. G p w \<Longrightarrow> G p (begin_call env w)"
    and begin_rows: "\<And>w. watched_rows wt (cw_shared (begin_call env w)) = watched_rows wt (cw_shared w)"
    and J_E: "\<And>p w. J p w \<Longrightarrow> E w" and one: "\<And>p w. J p w \<Longrightarrow> \<exists>r. watched_rows wt (cw_shared w) = [r]"
    and other: "\<And>row p x. e_uid row \<noteq> wa_uid wt \<Longrightarrow>
      triple (\<lambda>w. J p w \<and> watched_rows wt (cw_shared w) = x) (visit row p) (\<lambda>q w. J q w \<and> watched_rows wt (cw_shared w) = x) E"
    and other_G: "\<And>row p. e_uid row \<noteq> wa_uid wt \<Longrightarrow> triple (\<lambda>w. J p w \<and> G p w) (visit row p) (\<lambda>q w. J q w \<and> G q w) E"
    and this_row: "\<And>row p. e_uid row = wa_uid wt \<Longrightarrow>
      triple (\<lambda>w. J p w \<and> watched_rows wt (cw_shared w) = [row]) (visit row p) (\<lambda>q w. J q w \<and> G q w) E"
  shows "triple (J p) (visit_pages env (es_record (wa_src wt)) visit None p) (\<lambda>q w. J q w \<and> G q w) E"
proof -
  let ?rec = "es_record (wa_src wt)" and ?here = "filter (\<lambda>r. e_uid r = wa_uid wt)"
  have rows_other: "triple (\<lambda>w. J p w \<and> watched_rows wt (cw_shared w) = x) (visit_rows visit rows p) (\<lambda>q w. J q w \<and> watched_rows wt (cw_shared w) = x) E"
    if "?here rows = []" for rows p x
    using that by (intro visit_rows_keeps other) (auto simp: filter_empty_conv)
  have rows_G: "triple (\<lambda>w. J p w \<and> G p w) (visit_rows visit rows p) (\<lambda>q w. J q w \<and> G q w) E" if "?here rows = []" for rows p
    using that by (intro visit_rows_keeps other_G) (auto simp: filter_empty_conv)
  have rows_this: "triple (\<lambda>w. J p w \<and> watched_rows wt (cw_shared w) = [r]) (visit_rows visit rows p) (\<lambda>q w. J q w \<and> G q w) E"
    if once: "?here rows = [r]" for rows p r
  proof -
    obtain us vs where rows: "rows = us @ r # vs" "\<forall>u\<in>set us. e_uid u \<noteq> wa_uid wt" "e_uid r = wa_uid wt" and vs: "?here vs = []"
      using iffD1 [OF filter_eq_Cons_iff once] by (elim exE conjE) (rule that, assumption+, rule sym, assumption)
    have us: "?here us = []"
      using rows(2) by (simp add: filter_empty_conv)
    show ?thesis
      unfolding rows(1) visit_rows_append visit_rows.simps
      by (intro triple_bind [OF rows_other [OF us]] triple_bind [OF this_row [OF rows(3)]] rows_G [OF vs])
  qed
  let ?I = "\<lambda>last_uid p w. J p w \<and> (passed last_uid (wa_uid wt) \<longrightarrow> G p w)"
  have "triple (?I None p) (visit_pages env ?rec visit None p) (\<lambda>q w. J q w \<and> G q w) E"
  proof (rule visit_pages_rule [where I = ?I])
    fix last_uid p
    let ?post = "\<lambda>(rows, q) w. if length rows < ce_limit env then J q w \<and> G q w else if rows = [] then E w
        else ?I (Some (e_uid (last rows))) q w"
    let ?page = "\<lambda>rows w. ?I last_uid p w \<and> (\<exists>T. ?here T = watched_rows wt (cw_shared w) \<and> rows = table_find e_uid T last_uid (ce_limit env))"
    show "triple (?I last_uid p) (page_job env ?rec visit last_uid p) ?post E"
      unfolding page_job_def
    proof (rule triple_bind)
      show "triple (?I last_uid p) (find_entities env ?rec last_uid) ?page E"
      proof (rule tripleI)
        fix w rows w'
        assume I: "?I last_uid p w" and find: "find_entities env ?rec last_uid w = Some (Inr rows, w')"
        then have "w' = begin_call env w" "rows = table_find e_uid (sh_tables (cw_shared (begin_call env w)) ?rec) last_uid (ce_limit env)"
          by (auto simp: find_entities_def j_call_def Let_def split: option.splits)
        with I begin_J begin_G show "?page rows w'"
          by (auto simp: watched_rows_def)
      next
        fix w e w'
        assume "?I last_uid p w" "find_entities env ?rec last_uid w = Some (Inl e, w')"
        then have "w' = begin_call env w" "J p w"
          by (auto simp: find_entities_def j_call_def Let_def split: option.splits)
        with begin_J J_E show "E w'" by blast
      qed
    next
      fix rows
      show "triple (?page rows) (j_bind (visit_rows visit rows p) (\<lambda>q. j_return (rows, q))) ?post E"
      proof (rule triple_fix)
        fix w0
        assume w0: "?page rows w0"
        then obtain r T where r: "watched_rows wt (cw_shared w0) = [r]" and T: "?here T = [r]" "rows = table_find e_uid T last_uid (ce_limit env)"
          using one by fastforce
        show "triple (\<lambda>w. ?page rows w \<and> w = w0) (j_bind (visit_rows visit rows p) (\<lambda>q. j_return (rows, q))) ?post E"
        proof (cases "passed last_uid (wa_uid wt)")
          case True
          have "?here rows = []" using find_passed [OF True] T(2) by simp
          then show ?thesis
            using True w0 by (intro triple_bind [OF triple_pre [OF rows_G]] triple_return) (auto intro: J_E)
        next
          case False
          consider (on) "?here rows = [r]"
            | (off) "?here rows = []" "length rows = ce_limit env" "rows \<noteq> [] \<longrightarrow> e_uid (last rows) < wa_uid wt"
            using find_watched [OF T(1) False T(2)] by blast
          then show ?thesis
          proof cases
            case on
            show ?thesis
              using w0 r by (intro triple_bind [OF triple_pre [OF rows_this [OF on]]] triple_return) (auto intro: J_E)
          next
            case off
            have rows: "triple (\<lambda>w. J p w \<and> watched_rows wt (cw_shared w) = [r]) (visit_rows visit rows p)
                (\<lambda>q w. J q w \<and> watched_rows wt (cw_shared w) = [r]) E"
              by (rule rows_other [OF off(1)])
            show ?thesis
            proof (rule triple_bind [OF triple_pre [OF rows]])
              show "J p w \<and> watched_rows wt (cw_shared w) = [r]" if "?page rows w \<and> w = w0" for w
                using that w0 r by blast
              show "triple (\<lambda>w. J q w \<and> watched_rows wt (cw_shared w) = [r]) (j_return (rows, q)) ?post E" for q
                using off(2,3) by (intro triple_return) (auto simp: passed_def intro: J_E)
            qed
          qed
        qed
      qed
    qed
  qed
  then show ?thesis
    by (rule triple_pre) (simp add: passed_def)
qed

lemma visit_pages_keeps:
  assumes "\<And>p w. P p w \<Longrightarrow> P p (begin_call env w)" "\<And>p w. P p w \<Longrightarrow> E w" "\<And>row p. triple (P p) (visit row p) P E"
  shows "triple (P p) (visit_pages env record visit None p) P E"
proof -
  have rows: "triple (P p) (visit_rows visit rows p) P E" for rows p
    by (induction rows arbitrary: p) (auto intro: triple_return triple_bind [OF assms(3)])
  show ?thesis
  proof (rule visit_pages_rule [where I = "\<lambda>last_uid. P"])
    fix last_uid p
    have "triple (P p) (find_entities env record last_uid) (\<lambda>rows. P p) E"
      using assms(1,2) by (intro tripleI) (auto simp: find_entities_def j_call_def Let_def split: option.splits)
    then show "triple (P p) (page_job env record visit last_uid p)
        (\<lambda>(rows, q) w. if length rows < ce_limit env then P q w else if rows = [] then E w else P q w) E"
      unfolding page_job_def by (intro triple_bind [OF _ triple_bind [OF rows]] triple_return) (auto intro: assms(2))
  qed
qed

lemma visit_sources_keeps:
  assumes "\<And>src p. src \<in> set srcs \<Longrightarrow> triple (P p) (visit_pages env (es_record src) (visit src) None p) P E"
  shows "triple (P p) (visit_sources env visit srcs p) P E"
  using assms by (induction srcs arbitrary: p) (auto intro: triple_return triple_bind)

lemma visit_sources_watched:
  assumes "wa_src wt \<in> set srcs" "distinct (map es_record srcs)"
    and "\<And>src p. src \<in> set srcs \<Longrightarrow> es_record src \<noteq> es_record (wa_src wt) \<Longrightarrow>
      triple (J p) (visit_pages env (es_record src) (visit src) None p) J E"
    and "\<And>src p. src \<in> set srcs \<Longrightarrow> es_record src \<noteq> es_record (wa_src wt) \<Longrightarrow>
      triple (\<lambda>w. J p w \<and> G p w) (visit_pages env (es_record src) (visit src) None p) (\<lambda>q w. J q w \<and> G q w) E"
    and "\<And>p. triple (J p) (visit_pages env (es_record (wa_src wt)) (visit (wa_src wt)) None p) (\<lambda>q w. J q w \<and> G q w) E"
  shows "triple (J p) (visit_sources env visit srcs p) (\<lambda>q w. J q w \<and> G q w) E"
  using assms(1-4)
proof (induction srcs arbitrary: p)
  case (Cons src srcs)
  show ?case
  proof (cases "src = wa_src wt")
    case True
    then have rest: "triple (\<lambda>w. J q w \<and> G q w) (visit_sources env visit srcs q) (\<lambda>q w. J q w \<and> G q w) E" for q
      using Cons.prems(2,4) by (intro visit_sources_keeps) (auto simp: image_iff)
    show ?thesis
      unfolding visit_sources.simps True by (rule triple_bind [OF assms(5) rest])
  next
    case False
    then have "wa_src wt \<in> set srcs" "es_record src \<noteq> es_record (wa_src wt)"
      using Cons.prems(1,2) by auto
    then show ?thesis
      unfolding visit_sources.simps using Cons by (intro triple_bind [OF Cons.prems(3)]) auto
  qed
qed simp

section \<open>Counting\<close>

lemma count_grows: "0 < cs kid \<Longrightarrow> 0 < foldl (\<lambda>c (field, e). count_one (en_kid e) c) cs es kid"
  by (induction es arbitrary: cs) (auto simp: count_one_def)

lemma count_all: "(f, e) \<in> set es \<Longrightarrow> 0 < foldl (\<lambda>c (field, e). count_one (en_kid e) c) cs es (en_kid e)"
proof (induction es arbitrary: cs)
  case (Cons x es)
  have "0 < count_one (en_kid e) cs (en_kid e)"
    by (simp add: count_one_def)
  with Cons show ?case
    by (cases "x = (f, e)") (simp_all add: count_grows)
qed simp

definition row_counted :: "watch \<Rightarrow> counts \<Rightarrow> 'd config_world \<Rightarrow> bool" where
  "row_counted wt cs w \<longleftrightarrow>
     (\<exists>r. watched_rows wt (cw_shared w) = [r] \<and> (\<forall>(f, e)\<in>set (es_envelopes (wa_src wt) (e_fields r)). 0 < cs (en_kid e)))"

lemma begin_rows: "env_ok env wt dates \<Longrightarrow> watched_rows wt (cw_shared (begin_call env w)) = watched_rows wt (cw_shared w)"
  by (simp add: begin_call_def env_okD)

lemma at_one: "at env wt s d K w \<Longrightarrow> \<exists>r. watched_rows wt (cw_shared w) = [r]"
  by (auto simp: at_def secret_kept_def)

text \<open>A recount that returns has counted every envelope of the watched row.\<close>

lemma triple_count:
  assumes "env_ok env wt dates"
  shows "triple (at env wt s d K) (countEnvelopes env) (\<lambda>cs w. at env wt s d K w \<and> row_counted wt cs w) (at env wt s d K)"
proof -
  have J: "at env wt s d K (begin_call env w)" if "at env wt s d K w" for w
    using that at_begin [OF assms] by simp
  have G: "row_counted wt cs (begin_call env w)" if "row_counted wt cs w" for cs w
    using that by (simp add: row_counted_def begin_rows [OF assms])
  have grows: "row_counted wt (foldl (\<lambda>c (field, e). count_one (en_kid e) c) cs es) w" if "row_counted wt cs w" for cs es w
    using that unfolding row_counted_def by (fastforce intro: count_grows)
  have keep: "triple P (count_row src row cs) (\<lambda>cs. P) E" for P src row cs E
    unfolding count_row_def by (rule triple_return)
  have keep_G: "triple (\<lambda>w. at env wt s d K w \<and> row_counted wt cs w) (count_row src row cs) (\<lambda>cs w. at env wt s d K w \<and> row_counted wt cs w) E"
    for src row cs E
    unfolding count_row_def by (rule triple_return) (auto intro: grows)
  have watched: "triple (at env wt s d K) (visit_pages env (es_record (wa_src wt)) (count_row (wa_src wt)) None cs)
      (\<lambda>cs w. at env wt s d K w \<and> row_counted wt cs w) (at env wt s d K)" for cs
  proof (rule visit_watched_table [where J = "\<lambda>cs. at env wt s d K" and G = "row_counted wt"])
    show "triple (\<lambda>w. at env wt s d K w \<and> watched_rows wt (cw_shared w) = [row]) (count_row (wa_src wt) row cs)
        (\<lambda>cs w. at env wt s d K w \<and> row_counted wt cs w) (at env wt s d K)" for row cs
      unfolding count_row_def by (rule triple_return) (auto simp: row_counted_def intro: count_all)
  qed (use J G begin_rows [OF assms] keep keep_G in \<open>auto intro: at_one\<close>)
  show ?thesis
    unfolding countEnvelopes_def
    by (rule visit_sources_watched [where J = "\<lambda>cs. at env wt s d K" and G = "row_counted wt"])
      (use env_okD(6,7) [OF assms] J G keep keep_G watched in \<open>auto intro!: visit_pages_keeps\<close>)
qed

section \<open>Retiring keys\<close>

lemma triple_audit_retired: "triple (at env wt s d K) (audit_retired kids) (\<lambda>_. at env wt s d K) E"
  by (induction kids) (auto intro: triple_return triple_bind [OF triple_audit])

text \<open>A row whose envelopes a recount has all counted holds its secret under a kid that stays.\<close>

lemma counted_stays:
  assumes "at env wt s d (kids_of env d) w" "row_counted wt cs w" "filter (\<lambda>kid. cs kid > 0) removable = []"
  shows "secret_kept env wt (kids_of env d - set removable) (cw_shared w)"
proof -
  obtain r where r: "watched_rows wt (cw_shared w) = [r]" "row_holds env wt (kids_of env d) r"
    using assms(1) by (auto simp: at_def secret_kept_def)
  moreover have "\<forall>(f, e)\<in>set (es_envelopes (wa_src wt) (e_fields r)). 0 < cs (en_kid e)"
    using assms(2) r(1) by (simp add: row_counted_def)
  ultimately show ?thesis
    using assms(3) by (fastforce simp: secret_kept_def row_holds_def filter_empty_conv)
qed

lemma at_sub: "at env wt s d K w \<Longrightarrow> secret_kept env wt K' (cw_shared w) \<Longrightarrow> at env wt s d K' w"
  by (simp add: at_def)

lemma fits_retiring:
  "state_fits (Some s) kids \<Longrightarrow> st_rotation s = Some ro \<Longrightarrow> ro_phase ro = Retiring \<Longrightarrow>
   \<exists>kid. ro_kid ro = Some kid \<and> st_activeKid s = Some kid \<and> kid \<in> kids"
  by (auto simp: state_fits_def rotation_fits_def)

lemma triple_finish_safe:
  assumes "env_ok env wt dates" "st_rotation s = Some ro"
  shows "triple (at env wt (Some s) d K) (finish_rotation env s ro retained) (\<lambda>b. safe env wt) (safe env wt)"
proof (rule triple_fix)
  fix w0
  assume "at env wt (Some s) d K w0"
  then have "state_fits (Some s) (kids_of env d)" by (rule at_fits)
  then show "triple (\<lambda>w. at env wt (Some s) d K w \<and> w = w0) (finish_rotation env s ro retained) (\<lambda>b. safe env wt) (safe env wt)"
    by (intro triple_weaken [OF triple_finish [OF assms]]) simp_all
qed

lemma triple_remove_keys:
  assumes "env_ok env wt dates" "st_rotation s = Some ro" "ro_phase ro = Retiring" "state_fits (Some s) (kids_of env d)"
    and "rs_read (ce_store env) d = Inr snap" "st_activeKid s = Some active" "active \<notin> set removable"
  shows "triple (at env wt (Some s) d (kids_of env d)) (remove_keys env s ro snap removable retained) (\<lambda>b. safe env wt) (safe env wt)"
proof -
  let ?ring = "\<lparr>cr_keys = filter (\<lambda>k. ck_kid k \<notin> set removable) (cr_keys (sn_keyring snap))\<rparr>"
  let ?here = "at env wt (Some s) d (kids_of env d)" and ?K = "set (ring_kids ?ring)"
  have K: "?K = kids_of env d - set removable"
    by (auto simp: kids_of_read [OF assms(5)] ring_kids_def)
  have fits: "state_fits (Some s) ?K"
    using fits_retiring [OF assms(4,2,3)] assms(2,3,6,7) by (auto simp: K state_fits_def rotation_fits_def)
  have again: "state_fits (Some (set_rotation (advance ro (\<lambda>r. r\<lparr>ro_phase := Reencrypting\<rparr>))
      (s\<lparr>st_kidUsage := Some recount, st_countedAt := Some now\<rparr>))) (kids_of env d)" for recount now
    using fits_retiring [OF assms(4,2,3)] by (auto simp: state_fits_def rotation_fits_def set_rotation_def advance_def)
  have after_write: "triple (\<lambda>w. if b then \<exists>d'. kids_of env d' = ?K \<and> at env wt (Some s) d' ?K w else safe env wt w)
      (if \<not> b then j_return False
       else j_bind (audit_retired removable) (\<lambda>_. j_bind (announce env) (\<lambda>_. finish_rotation env s ro retained)))
      (\<lambda>b. safe env wt) (safe env wt)" for b
    by (cases b) (auto intro!: triple_return triple_ex triple_fact triple_bind [OF triple_audit_retired]
        triple_bind [OF triple_announce [OF assms(1)]] triple_finish_safe [OF assms(1,2)])
  have recounted: "triple (\<lambda>w. ?here w \<and> row_counted wt recount w)
      (if filter (\<lambda>kid. recount kid > 0) removable \<noteq> [] then
         j_bind (j_now env) (\<lambda>now. j_bind (save_state env s (\<lambda>st. set_rotation (advance ro (\<lambda>r. r\<lparr>ro_phase := Reencrypting\<rparr>))
           (st\<lparr>st_kidUsage := Some recount, st_countedAt := Some now\<rparr>))) (\<lambda>_. j_return True))
       else
         j_bind (writeRing env s ro ?ring (sn_version snap)) (\<lambda>written.
           if \<not> written then j_return False
           else j_bind (audit_retired removable) (\<lambda>_. j_bind (announce env) (\<lambda>_. finish_rotation env s ro retained))))
      (\<lambda>b. safe env wt) (safe env wt)" for recount
  proof (rule triple_if)
    show "triple (\<lambda>w. ?here w \<and> row_counted wt recount w)
        (j_bind (j_now env) (\<lambda>now. j_bind (save_state env s (\<lambda>st. set_rotation (advance ro (\<lambda>r. r\<lparr>ro_phase := Reencrypting\<rparr>))
           (st\<lparr>st_kidUsage := Some recount, st_countedAt := Some now\<rparr>))) (\<lambda>_. j_return True))) (\<lambda>b. safe env wt) (safe env wt)"
    proof (rule triple_bind [where R = "\<lambda>_. ?here"])
      show "triple ?here (j_bind (save_state env s (\<lambda>st. set_rotation (advance ro (\<lambda>r. r\<lparr>ro_phase := Reencrypting\<rparr>))
           (st\<lparr>st_kidUsage := Some recount, st_countedAt := Some now\<rparr>))) (\<lambda>_. j_return True)) (\<lambda>b. safe env wt) (safe env wt)" for now
        by (rule triple_save_bind [OF assms(1)], rule again, rule triple_return, rule at_safe)
    qed (rule triple_now, simp)
  next
    assume unused: "\<not> filter (\<lambda>kid. recount kid > 0) removable \<noteq> []"
    show "triple (\<lambda>w. ?here w \<and> row_counted wt recount w)
        (j_bind (writeRing env s ro ?ring (sn_version snap)) (\<lambda>written.
           if \<not> written then j_return False
           else j_bind (audit_retired removable) (\<lambda>_. j_bind (announce env) (\<lambda>_. finish_rotation env s ro retained))))
        (\<lambda>b. safe env wt) (safe env wt)"
    proof (rule triple_fix)
      fix w0
      assume w0: "?here w0 \<and> row_counted wt recount w0"
      have agree: "agrees wt ?ring"
        using at_agrees [OF _ assms(5)] w0 by (auto simp: agrees_def)
      show "triple (\<lambda>w. (?here w \<and> row_counted wt recount w) \<and> w = w0)
          (j_bind (writeRing env s ro ?ring (sn_version snap)) (\<lambda>written.
             if \<not> written then j_return False
             else j_bind (audit_retired removable) (\<lambda>_. j_bind (announce env) (\<lambda>_. finish_rotation env s ro retained))))
          (\<lambda>b. safe env wt) (safe env wt)"
      proof (rule triple_bind [OF triple_pre after_write])
        show "triple (at env wt (Some s) d ?K) (writeRing env s ro ?ring (sn_version snap))
            (\<lambda>b w. if b then \<exists>d'. kids_of env d' = ?K \<and> at env wt (Some s) d' ?K w else safe env wt w) (safe env wt)"
          by (rule triple_writeRing [OF assms(1,2,4) agree fits refl])
        show "at env wt (Some s) d ?K w" if "(?here w \<and> row_counted wt recount w) \<and> w = w0" for w
          using that unused counted_stays [of env wt "Some s" d w recount removable] K by (auto intro: at_sub)
      qed
    qed
  qed
  have err: "triple ?here (recordError env s ro m) (\<lambda>b. safe env wt) (safe env wt)" for m
    by (rule triple_weaken [OF triple_recordError [OF assms(1,2,4)]]) simp_all
  show ?thesis
    unfolding remove_keys_def
  proof (rule triple_bind, rule triple_attempt, rule triple_count [OF assms(1)])
    fix r :: "string + counts"
    show "triple (\<lambda>w. case r of Inl m \<Rightarrow> ?here w | Inr cs \<Rightarrow> ?here w \<and> row_counted wt cs w)
      (case r of
         Inl m \<Rightarrow> recordError env s ro (''The envelopes could not be recounted before removing a key and it is retried: '' @ m)
       | Inr recount \<Rightarrow>
           if filter (\<lambda>kid. recount kid > 0) removable \<noteq> [] then
             j_bind (j_now env) (\<lambda>now.
               j_bind (save_state env s (\<lambda>st. set_rotation (advance ro (\<lambda>r. r\<lparr>ro_phase := Reencrypting\<rparr>))
                   (st\<lparr>st_kidUsage := Some recount, st_countedAt := Some now\<rparr>))) (\<lambda>_. j_return True))
           else
             j_bind (writeRing env s ro ?ring (sn_version snap)) (\<lambda>written.
               if \<not> written then j_return False
               else j_bind (audit_retired removable) (\<lambda>_. j_bind (announce env) (\<lambda>_. finish_rotation env s ro retained))))
      (\<lambda>b. safe env wt) (safe env wt)"
      by (cases r) (simp_all only: sum.case err recounted)
  qed
qed

lemma triple_stepRetiring:
  assumes "env_ok env wt dates" "st_rotation s = Some ro" "ro_phase ro = Retiring" "state_fits (Some s) (kids_of env d)"
  shows "triple (at env wt (Some s) d (kids_of env d)) (stepRetiring env s ro) (\<lambda>b. safe env wt) (safe env wt)"
proof -
  have err: "triple (at env wt (Some s) d (kids_of env d)) (recordError env s ro m) (\<lambda>b. safe env wt) (safe env wt)" for m
    by (rule triple_weaken [OF triple_recordError [OF assms(1,2,4)]]) simp_all
  have active: "recorded_kid (st_activeKid s) = Some k \<Longrightarrow> st_activeKid s = Some k" for k
    by (rule recorded_kid_Some)
  show ?thesis
    unfolding stepRetiring_def
    by (rule triple_bind [OF triple_readRing [OF assms(1,2,4)]], rule triple_option)
      (auto simp: Let_def intro!: triple_return triple_fact err triple_remove_keys [OF assms] triple_finish_safe [OF assms(1,2)] active
        split: option.split)
qed

end
