(* ===== verification/Config_Rotation_Runs.thy ===== *)
theory Config_Rotation_Runs
  imports Config_Rotation
begin

text \<open>
  How a rotation of the configuration key goes on: every run and request returns, with \<open>ends\<close> as the total form of a handler, and the new key
  is activated exactly when every server copy that reports has loaded it.
\<close>

section \<open>Handlers that return\<close>

text \<open>The tables hold rows of finitely many uids, and the others add none beyond them.\<close>

definition within :: "string set \<Rightarrow> 'd shared \<Rightarrow> bool" where
  "within U sh \<longleftrightarrow> (\<forall>record. e_uid ` set (sh_tables sh record) \<subseteq> U)"

definition uids_within :: "'d config_env \<Rightarrow> string set \<Rightarrow> bool" where
  "uids_within env U \<longleftrightarrow> finite U \<and> (\<forall>n sh. within U sh \<longrightarrow> within U (ce_others env n sh))"

text \<open>From such tables the handler returns, and leaves such tables.\<close>

definition ends :: "string set \<Rightarrow> ('d, 'x) job \<Rightarrow> bool" where
  "ends U m \<longleftrightarrow> (\<forall>w. within U (cw_shared w) \<longrightarrow> (\<exists>r w'. m w = Some (r, w') \<and> within U (cw_shared w')))"

named_theorems ends_intros \<open>handlers that return, and how they are put together\<close>

lemma endsI: "(\<And>w. within U (cw_shared w) \<Longrightarrow> \<exists>r w'. m w = Some (r, w') \<and> within U (cw_shared w')) \<Longrightarrow> ends U m"
  by (simp add: ends_def)

lemma endsE:
  assumes "ends U m" "within U (cw_shared w)"
  obtains r w' where "m w = Some (r, w')" "within U (cw_shared w')"
  using assms unfolding ends_def by blast

lemma begin_within: "uids_within env U \<Longrightarrow> within U (cw_shared w) \<Longrightarrow> within U (cw_shared (begin_call env w))"
  by (simp add: begin_call_def uids_within_def)

lemma ends_simple [ends_intros]: "ends U (j_return x)" "ends U (j_throw e)" "ends U (j_now env)" "ends U (j_audit a)"
  by (simp_all add: ends_def j_return_def j_throw_def j_now_def j_audit_def)

lemma ends_call:
  assumes "uids_within env U" "\<And>sh. within U sh \<Longrightarrow> within U (snd (f sh))"
  shows "ends U (j_call env f)"
proof (rule endsI)
  fix w :: "'a config_world"
  assume "within U (cw_shared w)"
  then have "within U (cw_shared (begin_call env w))" by (rule begin_within [OF assms(1)])
  with assms(2) [OF this] show "\<exists>r w'. j_call env f w = Some (r, w') \<and> within U (cw_shared w')"
    by (simp add: j_call_def Let_def case_prod_beta split: option.split)
qed

lemma ends_bind [ends_intros]:
  assumes "ends U m" "\<And>x. ends U (f x)"
  shows "ends U (j_bind m f)"
proof (rule endsI)
  fix w :: "'a config_world"
  assume "within U (cw_shared w)"
  then obtain r w1 where m: "m w = Some (r, w1)" "within U (cw_shared w1)" by (rule endsE [OF assms(1)])
  then show "\<exists>r w'. j_bind m f w = Some (r, w') \<and> within U (cw_shared w')"
    using assms(2) by (cases r) (auto simp: j_bind_def ends_def)
qed

lemma ends_catch [ends_intros]:
  assumes "ends U m" "\<And>e. ends U (f e)"
  shows "ends U (j_catch m f)"
proof (rule endsI)
  fix w :: "'a config_world"
  assume "within U (cw_shared w)"
  then obtain r w1 where m: "m w = Some (r, w1)" "within U (cw_shared w1)" by (rule endsE [OF assms(1)])
  then show "\<exists>r w'. j_catch m f w = Some (r, w') \<and> within U (cw_shared w')"
    using assms(2) by (cases r) (auto simp: j_catch_def ends_def)
qed

lemma ends_at: "(\<And>w. ends U (m w)) \<Longrightarrow> ends U (\<lambda>w. m w w)"
  by (simp add: ends_def)

lemma ends_if_state: "ends U m \<Longrightarrow> ends U n \<Longrightarrow> ends U (\<lambda>w. if c w then m w else n w)"
  by (simp add: ends_def)

lemma ends_if [ends_intros]: "ends U m \<Longrightarrow> ends U n \<Longrightarrow> ends U (if c then m else n)"
  and ends_option [ends_intros]: "ends U m \<Longrightarrow> (\<And>x. ends U (f x)) \<Longrightarrow> ends U (case y of None \<Rightarrow> m | Some x \<Rightarrow> f x)"
  and ends_sum [ends_intros]: "(\<And>e. ends U (g e)) \<Longrightarrow> (\<And>x. ends U (f' x)) \<Longrightarrow> ends U (case z of Inl e \<Rightarrow> g e | Inr x \<Rightarrow> f' x)"
  by (cases y, auto split: option.split) (cases z, auto)

lemma ends_store_error [ends_intros]:
  "(\<And>m. ends U (f m)) \<Longrightarrow> ends U g \<Longrightarrow> (\<And>m. ends U (h m)) \<Longrightarrow>
   ends U (case e of Ring_Invalid m \<Rightarrow> f m | Ring_Conflict \<Rightarrow> g | Ring_Unreachable m \<Rightarrow> h m)"
  by (cases e) auto

section \<open>Calls\<close>

lemma within_other [simp]:
  "within U (sh\<lparr>sh_state := x\<rparr>) = within U sh" "within U (sh\<lparr>sh_store := d\<rparr>) = within U sh" "within U (sh\<lparr>sh_lock := l\<rparr>) = within U sh"
  by (simp_all add: within_def)

lemma ends_calls [ends_intros]:
  assumes "uids_within env U"
  shows "ends U (load_state env)" "ends U (save_state env s patch)" "ends U (find_entities env record after)"
    "ends U (update_row env record r changes)" "ends U (store_call env g)" "ends U (releaseLock env token)" "ends U (create_state env ro)"
    "ends U (j_call env (\<lambda>sh. (Inr (sh_beats sh), sh)))"
proof -
  show "ends U (load_state env)" "ends U (save_state env s patch)" "ends U (find_entities env record after)"
    "ends U (create_state env ro)" "ends U (j_call env (\<lambda>sh. (Inr (sh_beats sh), sh)))"
    unfolding load_state_def save_state_def find_entities_def create_state_def
    by (rule ends_call [OF assms], simp add: Let_def split: option.split)+
  have "within U sh \<Longrightarrow> within U (sh\<lparr>sh_tables := (sh_tables sh)(record :=
      map (\<lambda>q. if e_uid q = e_uid r \<and> e_version q = e_version r then updated_entity r changes else q) (sh_tables sh record))\<rparr>)"
    for sh :: "'a shared"
    by (fastforce simp: within_def updated_entity_def)
  then show "ends U (update_row env record r changes)"
    unfolding update_row_def by (intro ends_call [OF assms]) simp
  show "ends U (store_call env g)" "ends U (releaseLock env token)"
    unfolding store_call_def releaseLock_def
    by (intro ends_catch ends_call [OF assms] ends_simple; simp add: case_prod_beta)+
qed

lemma ends_own [ends_intros]:
  assumes "uids_within env U"
  shows "ends U (announce env)" "ends U (reload_cipher env)" "ends U (reseal env ctx e)" "ends U (acquireLock env)"
proof -
  show "ends U (announce env)"
    unfolding announce_def by (intro ends_catch ends_bind ends_call [OF assms] ends_simple) (simp_all add: ends_def)
  show "ends U (reload_cipher env)"
    using begin_within [OF assms] by (simp add: ends_def reload_cipher_def Let_def)
  show "ends U (reseal env ctx e)"
    by (auto simp: ends_def reseal_def split: sum.split prod.split)
  show "ends U (acquireLock env)"
    unfolding acquireLock_def Let_def by (rule ends_at, rule ends_call [OF assms]) simp
qed

lemma ends_saves [ends_intros]:
  assumes "uids_within env U"
  shows "ends U (recordError env s ro m)" "ends U (fail_rotation env s ro m)" "ends U (setWaiting env s ro waiting)" "ends U (finish_rotation env s ro retained)"
  "ends U (record_added env s ro ring added)" "ends U (save_pass env s ro kid startedAt pass)"
  unfolding recordError_def fail_rotation_def setWaiting_def finish_rotation_def record_added_def save_pass_def Let_def
  by (intro ends_intros assms)+

lemma ends_store [ends_intros]:
  assumes "uids_within env U"
  shows "ends U (readRing env s ro)" "ends U (writeRing env s ro ring version)" "ends U (liveCopies env s ro m)"
  unfolding readRing_def writeRing_def liveCopies_def
  by (intro ends_intros assms)+

lemma ends_audit_retired [ends_intros]: "ends U (audit_retired kids)"
  by (induction kids) (auto intro: ends_intros)

lemma ends_add_key [ends_intros]:
  assumes "uids_within env U"
  shows "ends U (add_key env s ro snap)"
proof (cases "own_key (sn_keyring snap) (nullish (ro_keyringKids ro))")
  case None
  show ?thesis
    unfolding add_key_def None option.case Let_def by (rule ends_at) (intro ends_intros assms)
qed (simp add: add_key_def ends_saves [OF assms])

lemma ends_adding [ends_intros]: "uids_within env U \<Longrightarrow> ends U (stepAdding env s ro)"
  unfolding stepAdding_def by (intro ends_intros)

lemma ends_activating [ends_intros]: "uids_within env U \<Longrightarrow> ends U (stepActivating env s ro)"
  unfolding stepActivating_def Let_def by (intro ends_intros)

section \<open>A pass ends\<close>

lemma ends_visit_rows: "(\<And>row p. ends U (visit row p)) \<Longrightarrow> ends U (visit_rows visit rows p)"
  by (induction rows arbitrary: p) (auto intro: ends_intros)

definition uids_left :: "string set \<Rightarrow> string option \<Rightarrow> string set" where
  "uids_left U after = {u \<in> U. case after of None \<Rightarrow> True | Some l \<Rightarrow> l < u}"

lemma page_uids:
  assumes "uids_within env U" "within U (cw_shared w)" "find_entities env record after w = Some (Inr rows, w1)"
  shows "e_uid ` set rows \<subseteq> uids_left U after"
proof -
  let ?T = "sh_tables (cw_shared (begin_call env w)) record"
  have "rows = table_find e_uid ?T after (ce_limit env)"
    using assms(3) by (auto simp: find_entities_def j_call_def Let_def split: option.splits)
  moreover have "e_uid ` set ?T \<subseteq> U"
    using begin_within [OF assms(1,2)] by (simp add: within_def)
  ultimately show ?thesis
    by (auto simp: table_find_def after_cursor_def uids_left_def dest!: in_set_takeD split: option.splits)
qed

text \<open>The uids behind the last row get fewer with every page.\<close>

lemma ends_visit_pages:
  assumes "uids_within env U" "\<And>row p. ends U (visit row p)"
  shows "ends U (visit_pages env record visit after p)"
proof -
  have fin: "finite (uids_left U after)" for after
    using assms(1) by (simp add: uids_within_def uids_left_def)
  have "\<exists>r w'. visit_pages env record visit after p w = Some (r, w') \<and> within U (cw_shared w')" if "within U (cw_shared w)" for p w
    using that
  proof (induction "card (uids_left U after)" arbitrary: after p w rule: less_induct)
    case less
    let ?page = "j_bind (find_entities env record after) (\<lambda>rows. j_bind (visit_rows visit rows p) (\<lambda>q. j_return (rows, q)))"
    have "ends U ?page"
      by (intro ends_intros ends_visit_rows assms)
    then obtain r w1 where page: "?page w = Some (r, w1)" "within U (cw_shared w1)"
      using less.prems by (rule endsE)
    show ?case
    proof (cases r)
      case (Inl e)
      with page show ?thesis by (subst visit_pages.simps) simp
    next
      case (Inr rq)
      obtain rows q where rq: "rq = (rows, q)" by (cases rq)
      obtain w2 where find: "find_entities env record after w = Some (Inr rows, w2)"
        using page(1) by (auto simp: Inr rq j_bind_def j_return_def split: option.splits sum.splits)
      note uids = page_uids [OF assms(1) less.prems find]
      have "\<exists>r w'. visit_pages env record visit (Some (e_uid (last rows))) q w1 = Some (r, w') \<and> within U (cw_shared w')" if "rows \<noteq> []"
      proof (rule less.hyps)
        have last: "e_uid (last rows) \<in> uids_left U after"
          using that uids by auto
        then have "uids_left U (Some (e_uid (last rows))) \<subset> uids_left U after"
          by (auto simp: uids_left_def split: option.splits)
        then show "card (uids_left U (Some (e_uid (last rows)))) < card (uids_left U after)"
          by (rule psubset_card_mono [OF fin])
      qed (rule page(2))
      with page Inr rq show ?thesis by (subst visit_pages.simps) simp
    qed
  qed
  then show ?thesis by (rule endsI)
qed

lemma ends_visit_sources:
  assumes "uids_within env U" "\<And>src row p. ends U (visit src row p)"
  shows "ends U (visit_sources env visit srcs p)"
  by (induction srcs arbitrary: p) (auto intro!: ends_intros ends_visit_pages [OF assms(1)] assms(2))

lemma ends_reseal_all:
  assumes "uids_within env U"
  shows "ends U (reseal_all env record uid target es reps replaced pass)"
proof (induction es arbitrary: reps replaced pass)
  case (Cons pe es)
  then show ?case
    by (cases pe) (auto simp: Let_def intro!: ends_intros assms)
qed (auto intro: ends_intros)

lemma ends_passes:
  assumes "uids_within env U"
  shows "ends U (reencryptAll env target)" "ends U (countEnvelopes env)"
proof -
  have "ends U (reencryptRow env src target row pass)" for src row pass
    unfolding reencryptRow_def case_prod_beta by (intro ends_intros ends_reseal_all assms)
  moreover have "ends U (count_row src row cs :: 'a config_world \<Rightarrow> _)" for src row cs
    unfolding count_row_def by (rule ends_simple)
  ultimately show "ends U (reencryptAll env target)" "ends U (countEnvelopes env)"
    unfolding reencryptAll_def countEnvelopes_def by (auto intro!: ends_visit_sources [OF assms])
qed

section \<open>A run ends\<close>

lemma ends_rotation_step:
  assumes "uids_within env U"
  shows "ends U (rotation_step env s ro)"
proof -
  have "ends U (remove_keys env s ro snap removable retained)" for snap removable retained
    unfolding remove_keys_def by (intro ends_intros ends_passes(2) assms)
  then have retiring: "ends U (stepRetiring env s ro)"
    unfolding stepRetiring_def Let_def by (intro ends_intros assms)
  have reencrypting: "ends U (stepReencrypting env s ro)"
    unfolding stepReencrypting_def Let_def by (intro ends_intros ends_if_state ends_passes(1) assms)
  show ?thesis
    by (cases "ro_phase ro") (simp_all add: rotation_step_def ends_adding [OF assms] ends_activating [OF assms] retiring reencrypting ends_simple)
qed

lemma ends_transitions:
  assumes "uids_within env U"
  shows "ends U (transitions env n)"
  by (induction n) (auto intro!: ends_intros ends_rotation_step assms split: prod.split)

lemma ends_run:
  assumes "uids_within env U"
  shows "ends U (run_config_job env)"
proof -
  have "ends U (run_under_lock env)"
    unfolding run_under_lock_def advanceRotation_def j_finally_def
    by (intro ends_intros ends_transitions assms)
  then show ?thesis
    unfolding run_config_job_def by (intro ends_intros assms)
qed

lemma run_catches: "run_config_job env w = Some (r, w') \<Longrightarrow> r = Inr ()"
  by (auto simp: run_config_job_def j_catch_def j_return_def split: option.splits sum.splits)

text \<open>C10: A run of the rotation job always returns, and never with an error, as long as the tables it goes through have rows of finitely many
  uids: its pages move on and it takes at most six steps.\<close>

theorem run_returns:
  assumes "uids_within env U" "within U (cw_shared w)"
  shows "\<exists>w'. run_config_job env w = Some (Inr (), w')"
proof -
  obtain r w' where "run_config_job env w = Some (r, w')"
    using ends_run [OF assms(1)] assms(2) by (rule endsE)
  with run_catches show ?thesis by metis
qed

section \<open>When a key is activated\<close>

definition all_loaded :: "string \<Rightarrow> ConfigKeyHeartbeatEntry list \<Rightarrow> bool" where
  "all_loaded kid beats \<longleftrightarrow> beats \<noteq> [] \<and> list_all (\<lambda>b. kid \<in> set (hb_kids b)) beats"

definition live_beats :: "'d config_env \<Rightarrow> 'd config_world \<Rightarrow> ConfigKeyHeartbeatEntry list option" where
  "live_beats env w = (if ce_fails env (cw_tick w) = None then Some (sh_beats (cw_shared (begin_call env w))) else None)"

text \<open>The row a save finds, when the call is answered.\<close>

definition saves :: "'d config_env \<Rightarrow> ConfigKeyState \<Rightarrow> 'd config_world \<Rightarrow> bool" where
  "saves env s w \<longleftrightarrow> ce_fails env (cw_tick w) = None \<and>
     (case sh_state (cw_shared (begin_call env w)) of None \<Rightarrow> False | Some cur \<Rightarrow> st_version cur = st_version s)"

lemma bind_Some:
  "j_bind m f w = Some (Inr y, w') \<longleftrightarrow> (\<exists>x w1. m w = Some (Inr x, w1) \<and> f x w1 = Some (Inr y, w'))"
  by (auto simp: j_bind_def split: option.split sum.split)

lemma save_Some:
  "(\<exists>w'. save_state env s patch w = Some (Inr x, w')) \<longleftrightarrow> saves env s w \<and> x = (patch s)\<lparr>st_version := st_version s + 1\<rparr>"
  by (auto simp: save_state_def j_call_def saves_def Let_def split: option.split)

lemma return_Some [simp]: "j_return x w = Some (Inr y, w') \<longleftrightarrow> y = x \<and> w' = w"
  by (auto simp: j_return_def)

lemma announce_Some: "\<exists>w'. announce env w = Some (Inr (), w')"
  by (auto simp: announce_def j_catch_def j_bind_def j_call_def j_return_def Let_def split: option.split)

lemma no_next [simp]:
  "recordError env s ro m w \<noteq> Some (Inr True, w')" "fail_rotation env s ro m w \<noteq> Some (Inr True, w')"
  "setWaiting env s ro waiting w \<noteq> Some (Inr True, w')"
  by (auto simp: recordError_def fail_rotation_def setWaiting_def bind_Some)

lemma liveCopies_Some:
  "liveCopies env s ro m w = Some (Inr (Some beats), w') \<longleftrightarrow> live_beats env w = Some beats \<and> beats \<noteq> [] \<and> w' = begin_call env w"
  by (cases "ce_fails env (cw_tick w)")
    (auto simp: liveCopies_def live_beats_def j_bind_def j_catch_def j_call_def j_return_def Let_def split: option.splits sum.splits prod.splits)

lemma live_bind:
  "j_bind (liveCopies env s ro m) (\<lambda>live. case live of None \<Rightarrow> j_return False | Some beats \<Rightarrow> f beats) w = Some (Inr True, w') \<longleftrightarrow>
   (\<exists>beats. live_beats env w = Some beats \<and> beats \<noteq> [] \<and> f beats (begin_call env w) = Some (Inr True, w'))"
proof
  assume "j_bind (liveCopies env s ro m) (\<lambda>live. case live of None \<Rightarrow> j_return False | Some beats \<Rightarrow> f beats) w = Some (Inr True, w')"
  then obtain live w1 where live: "liveCopies env s ro m w = Some (Inr live, w1)"
      "(case live of None \<Rightarrow> j_return False | Some beats \<Rightarrow> f beats) w1 = Some (Inr True, w')"
    by (auto simp: bind_Some)
  then obtain beats where "live = Some beats" by (cases live) simp_all
  with live show "\<exists>beats. live_beats env w = Some beats \<and> beats \<noteq> [] \<and> f beats (begin_call env w) = Some (Inr True, w')"
    by (auto simp: liveCopies_Some)
next
  assume "\<exists>beats. live_beats env w = Some beats \<and> beats \<noteq> [] \<and> f beats (begin_call env w) = Some (Inr True, w')"
  then obtain beats where "liveCopies env s ro m w = Some (Inr (Some beats), begin_call env w)" "f beats (begin_call env w) = Some (Inr True, w')"
    by (auto simp: liveCopies_Some)
  then show "j_bind (liveCopies env s ro m) (\<lambda>live. case live of None \<Rightarrow> j_return False | Some beats \<Rightarrow> f beats) w = Some (Inr True, w')"
    by (auto simp: bind_Some)
qed

lemma waiting_none: "waiting_copies (\<lambda>b. kid \<notin> set (hb_kids b)) beats = [] \<longleftrightarrow> list_all (\<lambda>b. kid \<in> set (hb_kids b)) beats"
proof -
  have "waiting_copies (\<lambda>b. kid \<notin> set (hb_kids b)) beats = [] \<longleftrightarrow> set (waiting_copies (\<lambda>b. kid \<notin> set (hb_kids b)) beats) = {}"
    by simp
  then show ?thesis
    by (auto simp: waiting_copies_def list_all_iff)
qed

text \<open>C6: The step that activates a key goes on exactly when the heartbeats could be read, at least one server copy reports, every copy that
  reports has loaded the new key, and the state row is still the one the step was called with: silence is never taken for a yes.\<close>

theorem never_activates_on_silence:
  "(\<exists>w'. stepActivating env s ro w = Some (Inr True, w')) \<longleftrightarrow>
   (\<exists>kid beats. ro_kid ro = Some kid \<and> kid \<noteq> [] \<and> live_beats env w = Some beats \<and> all_loaded kid beats \<and> saves env s (begin_call env w))"
proof (cases "recorded_kid (ro_kid ro)")
  case None
  then show ?thesis
    by (auto simp: stepActivating_def recorded_kid_def split: option.splits if_splits)
next
  case (Some kid)
  then have kid: "ro_kid ro = Some kid" "kid \<noteq> []"
    by (auto simp: recorded_kid_def split: option.splits if_splits)
  let ?patch = "\<lambda>beats now st. set_rotation (advance ro (\<lambda>r. r\<lparr>ro_phase := Reencrypting, ro_activatedAt := Some now,
      ro_waitingFor := Some (waiting_copies (\<lambda>b. hb_encrypting b \<noteq> Some kid) beats)\<rparr>)) (st\<lparr>st_activeKid := Some kid\<rparr>)"
  let ?go = "\<lambda>beats. j_bind (j_now env) (\<lambda>now. j_bind (save_state env s (?patch beats now)) (\<lambda>_.
      j_bind (j_audit (Config_Key_Activated kid (length beats))) (\<lambda>_. j_bind (announce env) (\<lambda>_. j_return True))))"
  have on: "(\<exists>w'. ?go beats w1 = Some (Inr True, w')) \<longleftrightarrow> saves env s w1" for beats w1
    using save_Some [of env s "?patch beats (ce_now env (cw_tick w1))" w1] announce_Some [of env]
    by (simp add: bind_Some j_now_def j_audit_def) metis
  have body: "stepActivating env s ro w = j_bind (liveCopies env s ro ''the new key isn't activated until they are.'') (\<lambda>live.
      case live of None \<Rightarrow> j_return False
      | Some beats \<Rightarrow> let waiting = waiting_copies (\<lambda>b. kid \<notin> set (hb_kids b)) beats in
          if waiting \<noteq> [] then setWaiting env s ro waiting else ?go beats) w"
    unfolding stepActivating_def Some option.case by (rule refl)
  have if_go: "(if waiting \<noteq> [] then setWaiting env s ro waiting else go) w1 = Some (Inr True, w') \<longleftrightarrow>
      waiting = [] \<and> go w1 = Some (Inr True, w')" for waiting go and w1 w' :: "'a config_world"
    by (cases "waiting = []") simp_all
  have step: "stepActivating env s ro w = Some (Inr True, w') \<longleftrightarrow>
      (\<exists>beats. live_beats env w = Some beats \<and> all_loaded kid beats \<and> ?go beats (begin_call env w) = Some (Inr True, w'))" for w'
    unfolding body Let_def live_bind if_go unfolding all_loaded_def waiting_none by (simp only: conj_assoc)
  show ?thesis
    using on by (auto simp: step kid)
qed

section \<open>A deployment with one plugin\<close>

text \<open>The plugin \<^verbatim>\<open>p\<close> holds one secret, sealed with the only key of the ring.\<close>

definition example_envelope :: ConfigEnvelope where
  "example_envelope = projr (encrypt example_gcm example_nonce example_cipher (JStr ''s'') example_secret_place)"

definition example_plugin_row :: entity where
  "example_plugin_row = \<lparr>e_uid = ''p'', e_version = 0, e_fields = [(''settings'', JObj [(''token'', envelope_json example_envelope)])]\<rparr>"

definition example_rotation_env :: "disk config_env" where
  "example_rotation_env =
     \<lparr>ce_others = (\<lambda>n sh. sh), ce_fails = (\<lambda>n. None), ce_now = int, ce_place = (\<lambda>n. example_place), ce_nonce = (\<lambda>n. example_nonce),
      ce_newKey = (\<lambda>n. example_key\<lparr>ck_kid := ''k2''\<rparr>),
      ce_store = \<lparr>rs_read = store_read (\<lambda>s. Some 0) (\<lambda>t. t) ''ring.json'', rs_write = store_write (\<lambda>s. Some 0) (\<lambda>t. t) ''ring.json'' None\<rparr>,
      ce_gcm = example_gcm, ce_sources = [pluginEnvelopeSource], ce_limit = 100\<rparr>"

definition example_rotation_world :: "disk config_world" where
  "example_rotation_world =
     \<lparr>cw_shared = \<lparr>sh_state = None, sh_store = kp_disk example_place,
        sh_tables = (\<lambda>record. if record = ''Plugin'' then [example_plugin_row] else []), sh_beats = [], sh_lock = None\<rparr>,
      cw_cipher = example_cipher, cw_audit = [], cw_notices = 0, cw_nonces = 0, cw_tick = 0\<rparr>"

lemma example_uids: "uids_within example_rotation_env {''p''}" "within {''p''} (cw_shared example_rotation_world)"
  by (auto simp: uids_within_def within_def example_rotation_env_def example_rotation_world_def example_plugin_row_def)

lemma example_ring_read:
  "rs_read (ce_store example_rotation_env) (kp_disk example_place) =
   Inr \<lparr>sn_keyring = example_ring, sn_version = serializeConfigKeyring example_ring\<rparr>"
proof -
  have "js_trim ''ring.json'' = ''ring.json''"
    by (simp add: js_trim_def js_is_ws_def)
  then have "store_path ''ring.json'' = Inr ''ring.json''"
    by (simp add: store_path_def)
  then show ?thesis
    using keyring_roundtrip_read [OF example_ring_usable]
    by (simp add: example_rotation_env_def store_read_def store_text_def read_keyring_text_def readFileSync_def example_place_def)
qed

text \<open>A request is accepted.\<close>

lemma example_request:
  obtains w' where "rotate_request example_rotation_env ''admin'' False example_rotation_world = Some (Inr Accepted, w')"
    "sh_tables (cw_shared w') = sh_tables (cw_shared example_rotation_world)"
proof -
  have state: "sh_state (cw_shared example_rotation_world) = None" "sh_store (cw_shared example_rotation_world) = kp_disk example_place"
    by (simp_all add: example_rotation_world_def)
  have env: "ce_others example_rotation_env = (\<lambda>n sh. sh)" "ce_fails example_rotation_env = (\<lambda>n. None)"
    by (simp_all add: example_rotation_env_def)
  have call: "j_call example_rotation_env f w = (case f (cw_shared w) of (r, sh) \<Rightarrow> Some (r, w\<lparr>cw_shared := sh, cw_tick := cw_tick w + 1\<rparr>))" for f and w :: "disk config_world"
    by (simp add: j_call_def begin_call_def env split: prod.split)
  note handlers = j_bind_def j_catch_def j_return_def j_now_def j_audit_def call state example_ring_read Let_def
  have "\<exists>w'. rotate_request example_rotation_env ''admin'' False example_rotation_world = Some (Inr Accepted, w') \<and>
      sh_tables (cw_shared w') = sh_tables (cw_shared example_rotation_world)"
    by (simp add: rotate_request_def MAX_CONSOLE_ATTEMPTS_def numeral_3_eq_3 load_state_def state_rotation_def place_rotation_def
        assertKeyringReadable_def store_call_def or_again_def create_state_def announce_def handlers)
  with that show thesis by blast
qed

theorem run_returns_witness: "\<exists>w'. run_config_job example_rotation_env example_rotation_world = Some (Inr (), w')"
  by (rule run_returns [OF example_uids])

end
