(* ===== verification/Config_Reencryption.thy ===== *)
theory Config_Reencryption
  imports Config_Rotation_Safety Config_Rotation_Runs
begin

text \<open>
  The re-encryption pass and the whole run keep the watched secret (see \<open>Config_Rotation_Safety\<close>): what is written back opens to the same
  value under the key of its new kid, so every step, every run and every request of the console keeps it.
\<close>

section \<open>The cipher of this process\<close>

lemma cipher_good_cong:
  "cc_keys c' = cc_keys c \<Longrightarrow> cc_oldestKid c' = cc_oldestKid c \<Longrightarrow> cc_newestKid c' = cc_newestKid c \<Longrightarrow> cipher_good wt c' = cipher_good wt c"
  by (simp add: cipher_good_def cipher_ok_def)

lemma loadKeys_good:
  assumes "env_ok env wt dates" "cipher_good wt c"
  shows "cipher_good wt (loadKeys (ce_place env n) c)"
proof -
  let ?read = "readConfigKeyring (kp_dates (ce_place env n)) (kp_disk (ce_place env n)) (kp_source (ce_place env n))"
  have ok: "cipher_ok (loadKeys (ce_place env n) c)"
    using assms(2) by (simp add: cipher_good_def loadKeys_ok)
  consider (err) e where "?read = Inl e" | (none) "?read = Inr None" | (ring) ring where "?read = Inr (Some ring)"
    by (metis old.sum.exhaust option.exhaust)
  then show ?thesis
  proof cases
    case ring
    then have "agrees wt ring" by (rule env_okD(9) [OF assms(1)])
    with ok show ?thesis
      by (auto simp: cipher_good_def loadKeys_def ring agrees_def)
  qed (use ok assms(2) in \<open>auto simp: cipher_good_def loadKeys_def\<close>)
qed

lemma end_state_read_keys [simp]:
  "cc_keys (end_state_read t a c) = cc_keys c" "cc_oldestKid (end_state_read t a c) = cc_oldestKid c"
  "cc_newestKid (end_state_read t a c) = cc_newestKid c"
  by (simp_all add: end_state_read_def split: sum.split)

lemma reload_good:
  assumes "env_ok env wt dates" "cipher_good wt c"
  shows "cipher_good wt (reload (ce_place env n) answer c)"
proof -
  have "cipher_good wt (loadActiveKid answer c') = cipher_good wt c'" for c'
    by (rule cipher_good_cong) (simp_all add: loadActiveKid_def start_state_read_def split: option.split)
  with loadKeys_good [OF assms] show ?thesis
    by (simp add: reload_def)
qed

lemma key_of_kid_good:
  assumes "env_ok env wt dates" "cipher_good wt c" "key_of_kid (ce_place env n) now kid c = (k, c1)"
  shows "cipher_good wt c1 \<and> k = map_of (cc_keys c1) kid"
proof -
  have "cipher_good wt (c\<lparr>cc_lastUnknownKidReload := now\<rparr>)"
    using assms(2) by (simp add: cipher_good_def cipher_ok_def)
  then show ?thesis
    using assms(2,3) loadKeys_good [OF assms(1)] by (auto simp: key_of_kid_def Let_def split: if_splits)
qed

lemma good_key: "cipher_good wt c \<Longrightarrow> map_of (cc_keys c) kid = Some key \<Longrightarrow> key = wa_material wt kid \<and> length key = KEY_BYTES \<and> is_bytes key"
  by (auto simp: cipher_good_def cipher_ok_def dest!: map_of_SomeD)

lemma decrypt_good:
  assumes "env_ok env wt dates" "cipher_good wt c" "decrypt gcm (ce_place env n) now c (envelope_json e) ctx = (r, c1)"
  shows "cipher_good wt c1" and "r = Inr v \<Longrightarrow> open_envelope gcm (wa_material wt (en_kid e)) e ctx = Inr v"
proof -
  obtain k c2 where k: "key_of_kid (ce_place env n) now (en_kid e) c = (k, c2)"
    by (cases "key_of_kid (ce_place env n) now (en_kid e) c")
  note good = key_of_kid_good [OF assms(1,2) k]
  have c1: "c1 = c2 \<and> (r = Inr v \<longrightarrow> (\<exists>key. k = Some key \<and> open_envelope gcm key e ctx = Inr v))" for v
    using assms(3) k by (cases k) (auto simp: decrypt_def)
  show "cipher_good wt c1" using c1 good by blast
  show "r = Inr v \<Longrightarrow> open_envelope gcm (wa_material wt (en_kid e)) e ctx = Inr v"
    using c1 [of v] good good_key [of wt c2 "en_kid e"] by auto
qed

section \<open>Resealing\<close>

text \<open>Whatever one envelope opens to, so does the other, each under the key of its kid.\<close>

definition same_secret :: "'d config_env \<Rightarrow> watch \<Rightarrow> ConfigCipherContext \<Rightarrow> ConfigEnvelope \<Rightarrow> ConfigEnvelope \<Rightarrow> bool" where
  "same_secret env wt ctx e f \<longleftrightarrow>
     (\<exists>v. open_envelope (ce_gcm env) (wa_material wt (en_kid e)) e ctx = Inr v \<and>
          open_envelope (ce_gcm env) (wa_material wt (en_kid f)) f ctx = Inr v)"

definition here :: "'d config_env \<Rightarrow> watch \<Rightarrow> ConfigKeyState option \<Rightarrow> 'd \<Rightarrow> string set \<Rightarrow> entity list \<Rightarrow> 'd config_world \<Rightarrow> bool" where
  "here env wt s d K x w \<longleftrightarrow> at env wt s d K w \<and> watched_rows wt (cw_shared w) = x"

lemma here_cipher: "here env wt s d K x w \<Longrightarrow> cipher_good wt c \<Longrightarrow> here env wt s d K x (w\<lparr>cw_cipher := c\<rparr>)"
  and here_nonces [simp]: "here env wt s d K x (w\<lparr>cw_nonces := n\<rparr>) = here env wt s d K x w"
  by (simp_all add: here_def at_def rotation_safe_def)

lemma here_good: "here env wt s d K x w \<Longrightarrow> cipher_good wt (cw_cipher w)"
  by (simp add: here_def at_def rotation_safe_def)

lemma encrypted_opens:
  assumes "env_ok env wt dates" "cipher_good wt c" "encrypt (ce_gcm env) (ce_nonce env n) c v ctx = Inr f"
  shows "open_envelope (ce_gcm env) (wa_material wt (en_kid f)) f ctx = Inr v"
proof -
  obtain key ct tag where f: "is_secret_value v" "map_of (cc_keys c) (en_kid f) = Some key"
      "seal (ce_gcm env) key (ce_nonce env n) (configAssociatedData ctx) (utf8 (json_stringify v)) = (ct, tag)"
      "en_iv f = base64 (ce_nonce env n)" "en_ct f = base64 ct" "en_tag f = base64 tag"
    by (rule encrypt_Inr [OF assms(3)])
  note key = good_key [OF assms(2) f(2)]
  have "open_envelope (ce_gcm env) key f ctx = Inr v"
    using open_sealed [OF env_okD(2-4) [OF assms(1)] _ _ f(1,3-6)] key by blast
  with key show ?thesis by simp
qed

lemma triple_reseal:
  assumes "env_ok env wt dates"
  shows "triple (here env wt s d K x) (reseal env ctx e) (\<lambda>r w. (\<forall>f. r = Some f \<longrightarrow> same_secret env wt ctx e f) \<and> here env wt s d K x w)
    (here env wt s d K x)"
proof -
  have "(\<forall>f. r = Inr (Some f) \<longrightarrow> same_secret env wt ctx e f) \<and> here env wt s d K x w'"
    if w: "here env wt s d K x w" and run: "reseal env ctx e w = Some (r, w')" for w r w'
  proof -
    obtain q c1 where q: "decrypt (ce_gcm env) (ce_place env (cw_tick w)) (ce_now env (cw_tick w)) (cw_cipher w) (envelope_json e) ctx = (q, c1)"
      by (cases "decrypt (ce_gcm env) (ce_place env (cw_tick w)) (ce_now env (cw_tick w)) (cw_cipher w) (envelope_json e) ctx")
    note good = decrypt_good [OF assms here_good [OF w] q]
    show ?thesis
    proof (cases q)
      case (Inl u)
      with run q here_cipher [OF w good(1)] show ?thesis by (auto simp: reseal_def)
    next
      case (Inr v)
      then show ?thesis
        using run q here_cipher [OF w good(1)] encrypted_opens [OF assms good(1)] good(2) [OF Inr]
        by (auto simp: reseal_def same_secret_def split: sum.splits)
    qed
  qed
  then show ?thesis
    by (intro tripleI) blast+
qed

text \<open>Replacements for a row: each on the target, at one path only, for an envelope of the row with the same secret.\<close>

definition good_replacements ::
    "'d config_env \<Rightarrow> watch \<Rightarrow> string \<Rightarrow> string \<Rightarrow> string \<Rightarrow> (string \<times> ConfigEnvelope) list \<Rightarrow> (string \<times> ConfigEnvelope) list \<Rightarrow> bool" where
  "good_replacements env wt record uid target es reps \<longleftrightarrow>
     distinct (map fst reps) \<and>
     (\<forall>(path, f)\<in>set reps. en_kid f = target \<and>
        (\<exists>e. (path, e) \<in> set es \<and> same_secret env wt \<lparr>cx_record = record, cx_uid = uid, cx_field = path\<rparr> e f))"

lemma good_replacements_add:
  assumes "good_replacements env wt record uid target es reps" "en_kid f = target" "(path, e) \<in> set es"
    and "same_secret env wt \<lparr>cx_record = record, cx_uid = uid, cx_field = path\<rparr> e f"
  shows "good_replacements env wt record uid target es (filter (\<lambda>p. fst p \<noteq> path) reps @ [(path, f)])"
proof -
  have "distinct (map fst (filter (\<lambda>p. fst p \<noteq> path) reps))"
    using assms(1) by (auto simp: good_replacements_def distinct_map inj_on_def)
  with assms show ?thesis
    by (auto simp: good_replacements_def)
qed

lemma triple_reseal_all:
  assumes "env_ok env wt dates" "set es \<subseteq> set all" "good_replacements env wt record uid target all reps"
  shows "triple (here env wt s d K x) (reseal_all env record uid target es reps replaced pass)
    (\<lambda>r w. good_replacements env wt record uid target all (fst r) \<and> here env wt s d K x w) (here env wt s d K x)"
  using assms(2,3)
proof (induction es arbitrary: reps replaced pass)
  case Nil
  then show ?case by (auto intro: triple_return)
next
  case (Cons pe es)
  obtain path e where pe: "pe = (path, e)" by (cases pe)
  then have e: "(path, e) \<in> set all" "set es \<subseteq> set all" using Cons.prems(1) by auto
  let ?ctx = "\<lparr>cx_record = record, cx_uid = uid, cx_field = path\<rparr>"
  let ?post = "\<lambda>r w. good_replacements env wt record uid target all (fst r) \<and> here env wt s d K x w"
  have same: "triple (here env wt s d K x) (reseal_all env record uid target es reps replaced p) ?post (here env wt s d K x)" for p
    by (rule Cons.IH [OF e(2) Cons.prems(2)])
  have "triple (\<lambda>w. (\<forall>f. fresh = Some f \<longrightarrow> same_secret env wt ?ctx e f) \<and> here env wt s d K x w)
      (case fresh of
         Some f \<Rightarrow>
           if en_kid f = target then
             reseal_all env record uid target es (filter (\<lambda>p. fst p \<noteq> path) reps @ [(path, f)]) (replaced @ [en_kid e]) n
           else reseal_all env record uid target es reps replaced (pass_count (en_kid e) n)
       | None \<Rightarrow> reseal_all env record uid target es reps replaced (pass_count (en_kid e) n)) ?post (here env wt s d K x)" for fresh n
  proof (cases fresh)
    case (Some f)
    show ?thesis
      unfolding Some option.case
      by (intro triple_fact triple_if same Cons.IH [OF e(2)] good_replacements_add [OF Cons.prems(2) _ e(1)]) simp_all
  qed (simp add: same)
  then show ?case
    unfolding pe reseal_all.simps Let_def
    by (intro triple_if same triple_bind [OF triple_reseal [OF assms(1)]])
qed

section \<open>Writing a row back\<close>

lemma begin_here: "env_ok env wt dates \<Longrightarrow> here env wt s d K x (begin_call env w) = here env wt s d K x w"
  by (simp add: here_def at_begin begin_rows)

lemma update_row_cases:
  assumes "update_row env record r changes w = Some (q, w')"
  obtains (stale) "w' = begin_call env w"
    | (updated) "w' = (begin_call env w)\<lparr>cw_shared := (cw_shared (begin_call env w))\<lparr>sh_tables := (sh_tables (cw_shared (begin_call env w)))(record :=
        map (\<lambda>p. if e_uid p = e_uid r \<and> e_version p = e_version r then updated_entity r changes else p)
          (sh_tables (cw_shared (begin_call env w)) record))\<rparr>\<rparr>"
  using assms by (auto simp: update_row_def j_call_def Let_def split: option.splits if_splits)

lemma updated_uid [simp]: "e_uid (updated_entity r changes) = e_uid r"
  by (simp add: updated_entity_def)

lemma filter_updated:
  assumes "\<And>p. e_uid (f p) = e_uid p"
  shows "filter (\<lambda>p. e_uid p = u) (map f T) = map f (filter (\<lambda>p. e_uid p = u) T)"
  by (simp add: filter_map comp_def assms)

lemma watched_update:
  "watched_rows wt (sh\<lparr>sh_tables := (sh_tables sh)(record :=
      map (\<lambda>p. if e_uid p = e_uid r \<and> e_version p = e_version r then updated_entity r changes else p) (sh_tables sh record))\<rparr>) =
   (if record = es_record (wa_src wt)
    then map (\<lambda>p. if e_uid p = e_uid r \<and> e_version p = e_version r then updated_entity r changes else p) (watched_rows wt sh)
    else watched_rows wt sh)"
  by (simp add: watched_rows_def filter_updated)

lemma here_tables:
  "watched_rows wt ((cw_shared w)\<lparr>sh_tables := T\<rparr>) = watched_rows wt (cw_shared w) \<Longrightarrow>
   here env wt s d K x (w\<lparr>cw_shared := (cw_shared w)\<lparr>sh_tables := T\<rparr>\<rparr>) = here env wt s d K x w"
  by (simp add: here_def at_def rotation_safe_def shared_safe_def secret_kept_def)

text \<open>An update of another row.\<close>

lemma triple_update_other:
  assumes "env_ok env wt dates" "record \<noteq> es_record (wa_src wt) \<or> e_uid r \<noteq> wa_uid wt"
  shows "triple (here env wt s d K x) (update_row env record r changes) (\<lambda>_. here env wt s d K x) (here env wt s d K x)"
proof -
  have "here env wt s d K x w'" if w: "here env wt s d K x w" and run: "update_row env record r changes w = Some (q, w')" for w q w'
  proof -
    have b: "here env wt s d K x (begin_call env w)" using w begin_here [OF assms(1)] by simp
    have same: "map (\<lambda>p. if e_uid p = e_uid r \<and> e_version p = e_version r then updated_entity r changes else p) (watched_rows wt sh) =
        watched_rows wt sh" if "e_uid r \<noteq> wa_uid wt" for sh :: "'a shared"
      using that by (intro map_idI) (auto simp: watched_rows_def)
    from run show ?thesis
    proof (cases rule: update_row_cases)
      case updated
      show ?thesis
        unfolding updated by (subst here_tables) (use b assms(2) same in \<open>auto simp: watched_update\<close>)
    qed (use b in simp)
  qed
  then show ?thesis
    by (intro tripleI) blast+
qed

text \<open>A row with its envelopes replaced still holds the secret.\<close>

lemma replaced_row_holds:
  assumes "envelope_source (wa_src wt)" "row_holds env wt K r" "target \<in> K"
    and "good_replacements env wt (es_record (wa_src wt)) (wa_uid wt) target (es_envelopes (wa_src wt) (e_fields r)) reps"
  shows "row_holds env wt K (updated_entity r (es_replace (wa_src wt) (e_fields r) reps))"
proof -
  let ?src = "wa_src wt" and ?fs = "e_fields r"
  obtain e where doc: "doc_ok (JObj ?fs)" and paths: "distinct (map fst (es_envelopes ?src ?fs))"
    and e: "(wa_field wt, e) \<in> set (es_envelopes ?src ?fs)" "en_kid e \<in> K"
      "open_envelope (ce_gcm env) (wa_material wt (en_kid e)) e (watch_context wt) = Inr (wa_value wt)"
    using assms(2) unfolding row_holds_def by blast
  have reps: "distinct (map fst reps)" "fst ` set reps \<subseteq> fst ` set (es_envelopes ?src ?fs)"
    using assms(4) by (force simp: good_replacements_def)+
  note fits = doc reps
  let ?e = "case map_of reps (wa_field wt) of None \<Rightarrow> e | Some f \<Rightarrow> f"
  have new: "(wa_field wt, ?e) \<in> set (es_envelopes ?src (merge_fields ?fs (es_replace ?src ?fs reps)))"
    by (rule envelope_source.replaced_at [OF assms(1) fits e(1)])
  have "en_kid ?e \<in> K \<and> open_envelope (ce_gcm env) (wa_material wt (en_kid ?e)) ?e (watch_context wt) = Inr (wa_value wt)"
  proof (cases "map_of reps (wa_field wt)")
    case (Some f)
    then obtain e' where f: "en_kid f = target" "(wa_field wt, e') \<in> set (es_envelopes ?src ?fs)" "same_secret env wt (watch_context wt) e' f"
      using assms(4) by (auto simp: good_replacements_def watch_context_def dest!: map_of_SomeD)
    have "e' = e"
      using eq_key_imp_eq_value [OF paths f(2) e(1)] .
    with f e(3) assms(3) show ?thesis
      by (auto simp: Some same_secret_def)
  qed (use e in simp)
  moreover have "distinct (map fst (es_envelopes ?src (merge_fields ?fs (es_replace ?src ?fs reps))))"
    using paths envelope_source.replaced_paths [OF assms(1) fits] by simp
  ultimately show ?thesis
    using new envelope_source.replaced_doc [OF assms(1) doc] by (auto simp: row_holds_def updated_entity_def)
qed

lemma triple_update_watched:
  assumes "env_ok env wt dates" "e_uid r = wa_uid wt" "target \<in> kids_of env d"
    and "good_replacements env wt (es_record (wa_src wt)) (wa_uid wt) target (es_envelopes (wa_src wt) (e_fields r)) reps"
  shows "triple (here env wt s d (kids_of env d) [r]) (update_row env (es_record (wa_src wt)) r (es_replace (wa_src wt) (e_fields r) reps))
    (\<lambda>_. at env wt s d (kids_of env d)) (at env wt s d (kids_of env d))"
proof -
  let ?K = "kids_of env d" and ?changes = "es_replace (wa_src wt) (e_fields r) reps"
  have "at env wt s d ?K w'"
    if w: "here env wt s d ?K [r] w" and run: "update_row env (es_record (wa_src wt)) r ?changes w = Some (q, w')" for w q w'
  proof -
    have b: "here env wt s d ?K [r] (begin_call env w)" using w begin_here [OF assms(1)] by simp
    then have "row_holds env wt ?K r"
      by (auto simp: here_def at_def secret_kept_def)
    then have held: "row_holds env wt ?K (updated_entity r ?changes)"
      by (rule replaced_row_holds [OF env_okD(5) [OF assms(1) env_okD(7) [OF assms(1)]] _ assms(3,4)])
    from run show ?thesis
    proof (cases rule: update_row_cases)
      case updated
      then show ?thesis
        using b held
        by (auto simp: here_def at_def rotation_safe_def shared_safe_def secret_kept_def watched_update)
    qed (use b in \<open>simp add: here_def\<close>)
  qed
  then show ?thesis
    by (intro tripleI) blast+
qed

section \<open>The pass\<close>

lemma here_at: "here env wt s d K x w \<Longrightarrow> at env wt s d K w"
  by (simp add: here_def)

lemma triple_reencrypt_other:
  assumes "env_ok env wt dates" "es_record src \<noteq> es_record (wa_src wt) \<or> e_uid row \<noteq> wa_uid wt"
  shows "triple (here env wt s d K x) (reencryptRow env src target row pass) (\<lambda>_. here env wt s d K x) (here env wt s d K x)"
  unfolding reencryptRow_def case_prod_beta
proof (rule triple_bind)
  show "triple (here env wt s d K x) (reseal_all env (es_record src) (e_uid row) target (es_envelopes src (e_fields row)) [] [] pass)
      (\<lambda>r w. good_replacements env wt (es_record src) (e_uid row) target (es_envelopes src (e_fields row)) (fst r) \<and> here env wt s d K x w)
      (here env wt s d K x)"
    by (rule triple_reseal_all [OF assms(1) subset_refl]) (simp add: good_replacements_def)
qed (intro triple_fact triple_if triple_return triple_catch [where E' = "here env wt s d K x"]
    triple_bind [OF triple_update_other [OF assms]])

lemma triple_reencrypt_watched:
  assumes "env_ok env wt dates" "e_uid row = wa_uid wt" "target \<in> kids_of env d"
  shows "triple (here env wt s d (kids_of env d) [row]) (reencryptRow env (wa_src wt) target row pass)
    (\<lambda>_. at env wt s d (kids_of env d)) (at env wt s d (kids_of env d))"
  unfolding reencryptRow_def case_prod_beta
proof (rule triple_bind)
  let ?P = "here env wt s d (kids_of env d) [row]" and ?src = "wa_src wt"
  show "triple ?P (reseal_all env (es_record ?src) (e_uid row) target (es_envelopes ?src (e_fields row)) [] [] pass)
      (\<lambda>r w. good_replacements env wt (es_record ?src) (wa_uid wt) target (es_envelopes ?src (e_fields row)) (fst r) \<and> ?P w)
      (at env wt s d (kids_of env d))"
    unfolding assms(2)
    by (rule triple_weaken [OF triple_reseal_all [OF assms(1) subset_refl]]) (auto simp: good_replacements_def intro: here_at)
qed (intro triple_fact triple_if triple_return triple_catch [where E' = "at env wt s d (kids_of env d)"]
    triple_bind [OF triple_update_watched [OF assms]], auto intro: here_at)

lemma triple_reencryptAll:
  assumes "env_ok env wt dates" "target \<in> kids_of env d"
  shows "triple (at env wt s d (kids_of env d)) (reencryptAll env target) (\<lambda>_. at env wt s d (kids_of env d)) (at env wt s d (kids_of env d))"
proof -
  let ?J = "at env wt s d (kids_of env d)"
  have J: "?J (begin_call env w)" if "?J w" for w
    using that at_begin [OF assms(1)] by simp
  have other: "triple (\<lambda>w. ?J w \<and> watched_rows wt (cw_shared w) = x) (reencryptRow env src target row p)
      (\<lambda>q w. ?J w \<and> watched_rows wt (cw_shared w) = x) ?J"
    if "es_record src \<noteq> es_record (wa_src wt) \<or> e_uid row \<noteq> wa_uid wt" for src row p x
    using triple_reencrypt_other [OF assms(1) that, of s d "kids_of env d" x target p]
    by (rule triple_weaken) (simp_all add: here_def)
  have other_J: "triple ?J (reencryptRow env src target row p) (\<lambda>q. ?J) ?J"
    if "es_record src \<noteq> es_record (wa_src wt) \<or> e_uid row \<noteq> wa_uid wt" for src row p
  proof (rule triple_fix)
    fix w0
    show "triple (\<lambda>w. ?J w \<and> w = w0) (reencryptRow env src target row p) (\<lambda>q. ?J) ?J"
      by (rule triple_weaken [OF other [OF that, of "watched_rows wt (cw_shared w0)"]]) auto
  qed
  have watched: "triple ?J (visit_pages env (es_record (wa_src wt)) (reencryptRow env (wa_src wt) target) None p) (\<lambda>q. ?J) ?J" for p
  proof (rule triple_weaken)
    show "triple ?J (visit_pages env (es_record (wa_src wt)) (reencryptRow env (wa_src wt) target) None p) (\<lambda>q w. ?J w \<and> True) ?J"
    proof (rule visit_watched_table [where J = "\<lambda>p. ?J" and G = "\<lambda>p w. True"])
      show "triple (\<lambda>w. ?J w \<and> watched_rows wt (cw_shared w) = [row]) (reencryptRow env (wa_src wt) target row p) (\<lambda>q w. ?J w \<and> True) ?J"
        if "e_uid row = wa_uid wt" for row p
        using triple_reencrypt_watched [OF assms(1) that assms(2), of s p] by (rule triple_weaken) (simp_all add: here_def)
    qed (use J begin_rows [OF assms(1)] other other_J in \<open>auto intro: at_one\<close>)
  qed simp_all
  show ?thesis
    unfolding reencryptAll_def
  proof (rule visit_sources_keeps)
    fix src p
    assume src: "src \<in> set (ce_sources env)"
    show "triple ?J (visit_pages env (es_record src) (reencryptRow env src target) None p) (\<lambda>q. ?J) ?J"
    proof (cases "es_record src = es_record (wa_src wt)")
      case True
      then have "src = wa_src wt"
        using src env_okD(6,7) [OF assms(1)] by (auto simp: distinct_map dest: inj_onD)
      then show ?thesis using watched by simp
    next
      case False
      then show ?thesis
        by (intro visit_pages_keeps J other_J) simp_all
    qed
  qed
qed

section \<open>The step\<close>

lemma triple_if_state: "triple P m Q E \<Longrightarrow> triple P n Q E \<Longrightarrow> triple P (\<lambda>w. if c w then m w else n w) Q E"
  unfolding triple_def by metis

lemma triple_reload:
  assumes "env_ok env wt dates"
  shows "triple (at env wt s d K) (reload_cipher env) (\<lambda>_. at env wt s d K) E"
proof -
  have "at env wt s d K (w\<lparr>cw_cipher := c\<rparr>)" if "at env wt s d K w" "cipher_good wt c" for w c
    using that by (simp add: at_def rotation_safe_def)
  moreover have "cipher_good wt (cw_cipher w)" if "at env wt s d K w" for w
    using that by (simp add: at_def rotation_safe_def)
  ultimately show ?thesis
    using at_begin [OF assms, of s d K] reload_good [OF assms]
    by (intro tripleI) (auto simp: reload_cipher_def Let_def begin_call_def)
qed

lemma triple_save_pass:
  assumes "env_ok env wt dates" "ro_kid ro = Some kid" "st_activeKid s = Some kid" "kid \<in> kids_of env d"
  shows "triple (at env wt (Some s) d K) (save_pass env s ro kid startedAt pass) (\<lambda>b. safe env wt) (safe env wt)"
proof -
  have fits: "state_fits (Some (set_rotation (advance ro (\<lambda>r. r\<lparr>ro_phase := (if ps_complete pass then Retiring else Reencrypting), ro_lastError := m\<rparr>))
      (s\<lparr>st_kidUsage := u, st_countedAt := n, st_reencryption := x\<rparr>))) (kids_of env d)" for m u n x
    using assms(2-4) by (simp add: state_fits_def set_rotation_def advance_def rotation_fits_def)
  have tail: "triple (at env wt s' d K)
      (if b then j_bind (j_audit (Config_Reencrypted kid)) (\<lambda>_. j_return c) else j_return c) (\<lambda>b. safe env wt) (safe env wt)" for s' b c
    by (intro triple_if triple_bind [OF triple_audit] triple_return) (auto intro: at_safe)
  show ?thesis
    unfolding save_pass_def Let_def
    by (rule triple_bind [where R = "\<lambda>_. at env wt (Some s) d K"], rule triple_now, assumption,
        rule triple_save_bind [OF assms(1)], rule fits, rule tail)
qed

lemma triple_stepReencrypting:
  assumes "env_ok env wt dates" "st_rotation s = Some ro" "ro_phase ro = Reencrypting" "state_fits (Some s) (kids_of env d)"
  shows "triple (at env wt (Some s) d (kids_of env d)) (stepReencrypting env s ro) (\<lambda>b. safe env wt) (safe env wt)"
proof -
  let ?P = "at env wt (Some s) d (kids_of env d)"
  have fail: "triple ?P (fail_rotation env s ro m) (\<lambda>b. safe env wt) (safe env wt)" for m
    by (rule triple_weaken [OF triple_fail [OF assms(1,2,4)]]) simp_all
  have err: "triple ?P (recordError env s ro m) (\<lambda>b. safe env wt) (safe env wt)" for m
    by (rule triple_weaken [OF triple_recordError [OF assms(1,2,4)]]) simp_all
  have wait: "triple ?P (setWaiting env s ro waiting) (\<lambda>b. safe env wt) (safe env wt)" for waiting
    by (rule triple_weaken [OF triple_setWaiting [OF assms(1,2,4)]]) simp_all
  show ?thesis
  proof (cases "recorded_kid (ro_kid ro)")
    case None
    show ?thesis
      unfolding stepReencrypting_def None option.case by (rule fail)
  next
    case (Some kid)
    have kid: "ro_kid ro = Some kid" "kid \<in> kids_of env d"
      using recorded_kid_Some [OF Some] fits_kid [OF assms(4,2) _ Some] assms(3) by simp_all
    let ?attempt = "j_catch (j_bind (reencryptAll env kid) (\<lambda>pass. j_return (Inr pass))) (\<lambda>e. j_return (Inl (message_of e)))"
    have finish: "triple (\<lambda>w. case r of Inr x \<Rightarrow> ?P w | Inl m \<Rightarrow> ?P w)
        (case r of Inl m \<Rightarrow> recordError env s ro (''A re-encryption pass could not finish and is retried: '' @ m)
         | Inr pass \<Rightarrow> save_pass env s ro kid startedAt pass) (\<lambda>b. safe env wt) (safe env wt)"
      if "st_activeKid s = Some kid" for r startedAt
      by (cases r) (simp_all only: sum.case err triple_save_pass [OF assms(1) kid(1) that kid(2)])
    have pass: "triple ?P (j_bind (j_now env) (\<lambda>startedAt. j_bind ?attempt (\<lambda>r.
         case r of Inl m \<Rightarrow> recordError env s ro (''A re-encryption pass could not finish and is retried: '' @ m)
         | Inr pass \<Rightarrow> save_pass env s ro kid startedAt pass))) (\<lambda>b. safe env wt) (safe env wt)" if "st_activeKid s = Some kid"
      by (rule triple_bind [where R = "\<lambda>_. ?P"], rule triple_now, assumption, rule triple_bind,
          rule triple_attempt [where Q = "\<lambda>_. ?P" and E' = ?P], rule triple_reencryptAll [OF assms(1) kid(2)], rule finish [OF that])
    show ?thesis
      unfolding stepReencrypting_def Some option.case
    proof (rule triple_if, rule fail, rule triple_bind [OF triple_liveCopies [OF assms(1,2,4)]], rule triple_option, goal_cases)
      case 1
      then show ?case by (intro triple_return)
    next
      case (2 live beats)
      then have active: "st_activeKid s = Some kid" by simp
      show ?case
        unfolding Let_def
        by (intro triple_if wait triple_bind [OF triple_reload [OF assms(1)]] triple_if_state err pass [OF active])
    qed
  qed
qed

section \<open>A run and the requests\<close>

lemma safe_at: "safe env wt w \<Longrightarrow> at env wt (sh_state (cw_shared w)) (sh_store (cw_shared w)) (kids_of env (sh_store (cw_shared w))) w"
  by (simp add: at_def rotation_safe_def shared_safe_def)

lemma triple_safe:
  assumes "\<And>s d. triple (at env wt s d (kids_of env d)) m Q E"
  shows "triple (safe env wt) m Q E"
proof (rule triple_fix)
  fix w0
  show "triple (\<lambda>w. safe env wt w \<and> w = w0) m Q E"
    by (rule triple_pre [OF assms [of "sh_state (cw_shared w0)" "sh_store (cw_shared w0)"]]) (auto dest: safe_at)
qed

text \<open>What is done with the state row just read.\<close>

lemma triple_load:
  assumes "env_ok env wt dates"
    and "\<And>s d. triple (at env wt s d (kids_of env d)) (f s) Q (safe env wt)"
  shows "triple (safe env wt) (j_bind (load_state env) f) Q (safe env wt)"
proof (rule triple_safe)
  fix s d
  have "triple (at env wt s d (kids_of env d)) (load_state env) (\<lambda>x w. x = s \<and> at env wt s d (kids_of env d) w) (safe env wt)"
    unfolding load_state_def
    by (rule triple_weaken [OF triple_read [OF assms(1), where Q = "\<lambda>x w. x = s \<and> at env wt s d (kids_of env d) w"]])
      (auto simp: at_def)
  then show "triple (at env wt s d (kids_of env d)) (j_bind (load_state env) f) Q (safe env wt)"
    by (rule triple_bind) (auto intro: triple_fact assms(2))
qed

lemma triple_fits:
  assumes "state_fits (Some s) (kids_of env d) \<Longrightarrow> triple (at env wt (Some s) d K) m Q E"
  shows "triple (at env wt (Some s) d K) m Q E"
proof (rule triple_fix)
  fix w0
  assume "at env wt (Some s) d K w0"
  then have "triple (at env wt (Some s) d K) m Q E" by (rule assms [OF at_fits])
  then show "triple (\<lambda>w. at env wt (Some s) d K w \<and> w = w0) m Q E" by (rule triple_pre) simp
qed

lemma triple_rotation_step:
  assumes "env_ok env wt dates" "st_rotation s = Some ro"
  shows "triple (at env wt (Some s) d (kids_of env d)) (rotation_step env s ro) (\<lambda>b. safe env wt) (safe env wt)"
proof (rule triple_fits)
  assume fits: "state_fits (Some s) (kids_of env d)"
  show ?thesis
    using triple_stepAdding [OF assms] triple_stepActivating [OF assms _ fits] triple_stepReencrypting [OF assms _ fits]
      triple_stepRetiring [OF assms _ fits]
    by (cases "ro_phase ro") (auto simp: rotation_step_def intro: triple_return at_safe)
qed

lemma state_rotation_Some:
  assumes "state_rotation s = Some x"
  obtains s' ro where "s = Some s'" "st_rotation s' = Some ro" "x = (s', ro)"
  using assms by (auto simp: state_rotation_def bind_eq_Some_conv)

lemma triple_transitions:
  assumes "env_ok env wt dates"
  shows "triple (safe env wt) (transitions env n) (\<lambda>_. safe env wt) (safe env wt)"
proof (induction n)
  case (Suc n)
  show ?case
    unfolding transitions.simps
  proof (rule triple_load [OF assms])
    fix s d
    show "triple (at env wt s d (kids_of env d))
        (case state_rotation s of None \<Rightarrow> j_return ()
         | Some (s, ro) \<Rightarrow> j_bind (rotation_step env s ro) (\<lambda>another. if another then transitions env n else j_return ()))
        (\<lambda>_. safe env wt) (safe env wt)"
    proof (cases "state_rotation s")
      case None
      then show ?thesis by (auto intro: triple_return at_safe)
    next
      case (Some x)
      then obtain s' ro where "s = Some s'" "st_rotation s' = Some ro" "x = (s', ro)"
        by (rule state_rotation_Some)
      then show ?thesis
        unfolding Some using Suc by (simp add: triple_bind [OF triple_rotation_step [OF assms]] triple_return)
    qed
  qed
qed (auto intro: triple_return)

text \<open>The lock: a call that touches neither the state row nor the store nor a table.\<close>

lemma triple_quiet_call:
  assumes "env_ok env wt dates"
    and "\<And>sh r sh'. f sh = (r, sh') \<Longrightarrow> sh_state sh' = sh_state sh \<and> sh_store sh' = sh_store sh \<and> sh_tables sh' = sh_tables sh"
  shows "triple (safe env wt) (j_call env f) (\<lambda>_. safe env wt) (safe env wt)"
proof (rule triple_safe)
  fix s d
  show "triple (at env wt s d (kids_of env d)) (j_call env f) (\<lambda>_. safe env wt) (safe env wt)"
    by (rule triple_weaken [OF triple_call [OF assms(1)]]) (auto dest!: assms(2) at_safe simp: watched_rows_def)
qed

lemma triple_finally:
  assumes "triple P m (\<lambda>_. R) R" "triple R after (\<lambda>_. Q) Q"
  shows "triple P (j_finally m after) (\<lambda>_. Q) Q"
  unfolding j_finally_def
proof (rule triple_bind [where R = "\<lambda>_. R"])
  show "triple P (j_catch m (\<lambda>e. j_bind after (\<lambda>_. j_throw e))) (\<lambda>_. R) Q"
    by (rule triple_catch [OF assms(1)], rule triple_bind [OF assms(2)], rule triple_throw)
  show "triple R (j_bind after (\<lambda>_. j_return x)) (\<lambda>_. Q) Q" for x
    by (rule triple_bind [OF assms(2)], rule triple_return)
qed

lemma triple_run:
  assumes "env_ok env wt dates"
  shows "triple (safe env wt) (run_config_job env) (\<lambda>_. safe env wt) (safe env wt)"
proof -
  let ?S = "safe env wt"
  have advanced: "triple ?S (advanceRotation env) (\<lambda>_. ?S) ?S"
    unfolding advanceRotation_def
    by (rule triple_catch [OF triple_transitions [OF assms]]) (intro triple_if triple_return triple_throw)
  have acquired: "triple ?S (acquireLock env) (\<lambda>_. ?S) ?S"
    unfolding acquireLock_def Let_def
    by (rule triple_at, rule triple_quiet_call [OF assms]) (auto split: if_splits)
  have released: "triple ?S (releaseLock env token) (\<lambda>_. ?S) ?S" for token
    unfolding releaseLock_def
    by (rule triple_catch, rule triple_quiet_call [OF assms]) (auto intro: triple_return split: if_splits)
  have locked: "triple ?S (case lock of None \<Rightarrow> j_return () | Some token \<Rightarrow> j_finally (advanceRotation env) (releaseLock env token)) (\<lambda>_. ?S) ?S"
    for lock
    by (cases lock) (auto intro: triple_return triple_finally [OF advanced released])
  have under: "triple ?S (run_under_lock env) (\<lambda>_. ?S) ?S"
    unfolding run_under_lock_def
    by (rule triple_bind [OF triple_catch [OF acquired] locked]) (rule triple_return)
  show ?thesis
    unfolding run_config_job_def
  proof (rule triple_catch [where E' = ?S], rule triple_load [OF assms])
    fix s d
    show "triple (at env wt s d (kids_of env d))
        (case Option.bind s st_rotation of None \<Rightarrow> j_return ()
         | Some ro \<Rightarrow> if finished_phase (ro_phase ro) then j_return () else run_under_lock env) (\<lambda>_. ?S) ?S"
      by (rule triple_pre [where P = ?S]) (auto intro!: triple_return under at_safe split: option.split)
  qed (rule triple_return)
qed

text \<open>A write that lost a race is looked at again.\<close>

lemma triple_or_again:
  assumes "triple P attempt R S" "\<And>x. triple (R x) (k x) Q S" "triple S again Q S"
  shows "triple P (or_again attempt k again) Q S"
  unfolding or_again_def
proof (rule triple_bind)
  let ?R = "\<lambda>r w. case r of Inl e \<Rightarrow> S w | Inr x \<Rightarrow> R x w"
  show "triple P (j_catch (j_bind attempt (\<lambda>x. j_return (Inr x))) (\<lambda>e. if status_409 e then j_return (Inl e) else j_throw e)) ?R S"
    by (rule triple_catch [OF triple_bind [OF assms(1)]]) (auto intro: triple_return triple_throw)
  show "triple (?R r) (case r of Inl e \<Rightarrow> again | Inr x \<Rightarrow> k x) Q S" for r
    by (cases r) (simp_all add: assms(2,3))
qed

lemma triple_answer:
  assumes "env_ok env wt dates"
  shows "triple (at env wt s d K) (j_bind (j_audit a) (\<lambda>_. j_bind (announce env) (\<lambda>_. j_return x))) (\<lambda>_. safe env wt) (safe env wt)"
  by (rule triple_bind [OF triple_audit], rule triple_bind [OF triple_announce [OF assms]], rule triple_return, rule at_safe)

text \<open>Saving a rotation of the request, then its answer.\<close>

lemma triple_save_or_again:
  assumes "env_ok env wt dates" "state_fits (Some (patch s)) (kids_of env d)" "triple (safe env wt) again (\<lambda>_. safe env wt) (safe env wt)"
  shows "triple (at env wt (Some s) d K)
    (or_again (save_state env s patch) (\<lambda>_. j_bind (j_audit a) (\<lambda>_. j_bind (announce env) (\<lambda>_. j_return x))) again)
    (\<lambda>_. safe env wt) (safe env wt)"
proof (rule triple_or_again)
  show "triple (at env wt (Some s) d K) (save_state env s patch)
      (\<lambda>s' w. s' = (patch s)\<lparr>st_version := st_version s + 1\<rparr> \<and> at env wt (Some s') d K w) (safe env wt)"
    by (rule triple_weaken [OF triple_save [where patch = patch and s = s, OF assms(1,2)]]) (auto intro: at_safe)
  show "triple (\<lambda>w. s' = (patch s)\<lparr>st_version := st_version s + 1\<rparr> \<and> at env wt (Some s') d K w)
      (j_bind (j_audit a) (\<lambda>_. j_bind (announce env) (\<lambda>_. j_return x))) (\<lambda>_. safe env wt) (safe env wt)" for s'
    by (rule triple_fact, rule triple_answer [OF assms(1)])
qed (rule assms(3))

lemma triple_create:
  assumes "env_ok env wt dates" "ro_phase ro = Adding"
  shows "triple (at env wt None d K) (create_state env ro) (\<lambda>s. at env wt (Some s) d K) (safe env wt)"
proof -
  have "case r of Inr s \<Rightarrow> at env wt (Some s) d K w' | Inl e \<Rightarrow> safe env wt w'"
    if w: "at env wt None d K w" and run: "create_state env ro w = Some (r, w')" for w r w'
  proof -
    have b: "at env wt None d K (begin_call env w)" using w at_begin [OF assms(1)] by simp
    then have none: "sh_state (cw_shared (begin_call env w)) = None" by (simp add: at_def)
    have rows: "watched_rows wt (sh\<lparr>sh_state := x\<rparr>) = watched_rows wt sh" for sh :: "'a shared" and x
      by (simp add: watched_rows_def)
    show ?thesis
      using run b none assms(2)
      by (auto simp: create_state_def j_call_def Let_def at_def rotation_safe_def shared_safe_def secret_kept_def rows
          state_fits_def rotation_fits_def split: option.splits)
  qed
  then show ?thesis
    by (intro tripleI) fastforce+
qed

lemma triple_readable:
  assumes "env_ok env wt dates"
  shows "triple (at env wt s d K) (assertKeyringReadable env) (\<lambda>_. at env wt s d K) (safe env wt)"
  unfolding assertKeyringReadable_def
  by (rule triple_bind [OF triple_store_read [OF assms]])
    (auto intro!: triple_fact triple_return triple_throw intro: at_safe split: sum.split)

lemma adding_fits: "ro_phase ro = Adding \<Longrightarrow> state_fits (Some (set_rotation ro s)) kids"
  by (simp add: state_fits_def set_rotation_def rotation_fits_def)

lemma triple_place_rotation:
  assumes "env_ok env wt dates" "triple (safe env wt) again (\<lambda>_. safe env wt) (safe env wt)"
  shows "triple (at env wt s d K) (place_rotation env user compromised s again) (\<lambda>_. safe env wt) (safe env wt)"
proof -
  let ?P = "at env wt s d K" and ?ro = "\<lambda>now. requested_rotation user now compromised"
  have adding: "ro_phase (?ro now) = Adding" for now by (simp add: requested_rotation_def)
  have "triple ?P (or_again (case s of Some s \<Rightarrow> save_state env s (set_rotation (?ro now)) | None \<Rightarrow> create_state env (?ro now))
      (\<lambda>_. j_bind (j_audit (Config_Key_Rotation_Requested compromised)) (\<lambda>_. j_bind (announce env) (\<lambda>_. j_return Accepted))) again)
      (\<lambda>_. safe env wt) (safe env wt)" for now
  proof (cases s)
    case None
    show ?thesis
      unfolding None option.case
      by (rule triple_or_again [OF triple_create [OF assms(1) adding] triple_answer [OF assms(1)] assms(2)])
  next
    case (Some s')
    show ?thesis
      unfolding Some option.case by (rule triple_save_or_again [OF assms(1)], rule adding_fits [OF adding], rule assms(2))
  qed
  then show ?thesis
    unfolding place_rotation_def Let_def
    by (intro triple_bind [OF triple_readable [OF assms(1)]] triple_bind [where R = "\<lambda>_. ?P"] triple_now)
qed

lemma triple_mark_compromised:
  assumes "env_ok env wt dates" "st_rotation s = Some ro" "triple (safe env wt) again (\<lambda>_. safe env wt) (safe env wt)"
  shows "triple (at env wt (Some s) d K) (mark_compromised env s ro again) (\<lambda>_. safe env wt) (safe env wt)"
  unfolding mark_compromised_def
  by (rule triple_fits, rule triple_save_or_again [OF assms(1) _ assms(3)], erule quiet_fits [OF _ assms(2)]) (simp add: quiet_change_def)

lemma triple_rotate_attempts:
  assumes "env_ok env wt dates"
  shows "triple (safe env wt) (rotate_attempts env user compromised n) (\<lambda>_. safe env wt) (safe env wt)"
proof (induction n)
  case (Suc n)
  show ?case
    unfolding rotate_attempts.simps
  proof (rule triple_load [OF assms])
    fix s d
    show "triple (at env wt s d (kids_of env d))
        (case state_rotation s of
           None \<Rightarrow> place_rotation env user compromised s (rotate_attempts env user compromised n)
         | Some (s', running) \<Rightarrow>
             if finished_phase (ro_phase running) then place_rotation env user compromised s (rotate_attempts env user compromised n)
             else if \<not> compromised \<or> ro_compromised running then j_return Busy
             else mark_compromised env s' running (rotate_attempts env user compromised n)) (\<lambda>_. safe env wt) (safe env wt)"
    proof (cases "state_rotation s")
      case None
      show ?thesis
        unfolding None option.case by (rule triple_place_rotation [OF assms Suc])
    next
      case (Some x)
      then obtain s' ro where x: "s = Some s'" "st_rotation s' = Some ro" "x = (s', ro)"
        by (rule state_rotation_Some)
      have marked: "triple (at env wt s d (kids_of env d)) (mark_compromised env s' ro (rotate_attempts env user compromised n))
          (\<lambda>_. safe env wt) (safe env wt)"
        unfolding x(1) by (rule triple_mark_compromised [OF assms x(2) Suc])
      show ?thesis
        unfolding Some x(3) option.case prod.case
        by (intro triple_if triple_place_rotation [OF assms Suc] marked triple_return at_safe)
    qed
  qed
qed (auto intro: triple_return)

lemma triple_force_activation:
  assumes "env_ok env wt dates" "ro_kid ro = Some kid" "kid \<in> kids_of env d" "triple (safe env wt) again (\<lambda>_. safe env wt) (safe env wt)"
  shows "triple (at env wt (Some s) d K) (force_activation env user kid s ro again) (\<lambda>_. safe env wt) (safe env wt)"
proof -
  let ?P = "at env wt (Some s) d K"
  have fits: "state_fits (Some (set_rotation (forced_rotation user kid now beats ro) (s\<lparr>st_activeKid := Some kid\<rparr>))) (kids_of env d)" for now beats
    using assms(2,3) by (simp add: state_fits_def set_rotation_def advance_def rotation_fits_def forced_rotation_def)
  have beats: "triple ?P (j_catch (j_call env (\<lambda>sh. (Inr (sh_beats sh), sh))) (\<lambda>e. j_return [])) (\<lambda>_. ?P) (safe env wt)"
    by (rule triple_catch [OF triple_read [OF assms(1)]]) (auto intro: triple_return)
  show ?thesis
    unfolding force_activation_def
    by (rule triple_bind [OF beats], rule triple_bind [where R = "\<lambda>_. ?P"], rule triple_now, assumption,
        rule triple_save_or_again [OF assms(1)], rule fits, rule assms(4))
qed

lemma triple_activate_attempts:
  assumes "env_ok env wt dates"
  shows "triple (safe env wt) (activate_attempts env user kid n) (\<lambda>_. safe env wt) (safe env wt)"
proof (induction n)
  case (Suc n)
  show ?case
    unfolding activate_attempts.simps
  proof (rule triple_load [OF assms])
    fix s d
    show "triple (at env wt s d (kids_of env d))
        (case state_rotation s of
           None \<Rightarrow> j_return Busy
         | Some (s, ro) \<Rightarrow>
             if ro_phase ro \<noteq> Activating \<or> ro_kid ro \<noteq> Some kid then j_return Busy
             else force_activation env user kid s ro (activate_attempts env user kid n)) (\<lambda>_. safe env wt) (safe env wt)"
    proof (cases "state_rotation s")
      case None
      show ?thesis
        unfolding None option.case by (intro triple_return at_safe)
    next
      case (Some x)
      then obtain s' ro where x: "s = Some s'" "st_rotation s' = Some ro" "x = (s', ro)"
        by (rule state_rotation_Some)
      show ?thesis
        unfolding Some unfolding x(1,3) option.case prod.case
      proof (rule triple_fits, rule triple_if)
        assume fits: "state_fits (Some s') (kids_of env d)" and "\<not> (ro_phase ro \<noteq> Activating \<or> ro_kid ro \<noteq> Some kid)"
        then have "ro_kid ro = Some kid" "kid \<in> kids_of env d"
          using x(2) by (auto simp: state_fits_def rotation_fits_def)
        then show "triple (at env wt (Some s') d (kids_of env d)) (force_activation env user kid s' ro (activate_attempts env user kid n))
            (\<lambda>_. safe env wt) (safe env wt)"
          by (intro triple_force_activation [OF assms _ _ Suc])
      qed (intro triple_return at_safe)
    qed
  qed
qed (auto intro: triple_return)

section \<open>A history of the process\<close>

text \<open>Runs of the job, requests of the console and reloads of the cipher, in any order and number, answered or failed.\<close>

inductive config_history :: "'d config_env \<Rightarrow> 'd config_world \<Rightarrow> 'd config_world \<Rightarrow> bool" for env where
  started: "config_history env w w"
| job: "config_history env w w1 \<Longrightarrow> run_config_job env w1 = Some (r, w2) \<Longrightarrow> config_history env w w2"
| rotate: "config_history env w w1 \<Longrightarrow> rotate_request env user compromised w1 = Some (answer, w2) \<Longrightarrow> config_history env w w2"
| activate: "config_history env w w1 \<Longrightarrow> activate_request env user kid w1 = Some (answer, w2) \<Longrightarrow> config_history env w w2"
| reloaded: "config_history env w w1 \<Longrightarrow> reload_cipher env w1 = Some (done, w2) \<Longrightarrow> config_history env w w2"

lemma triple_any: "triple P m (\<lambda>_. S) S \<Longrightarrow> P w \<Longrightarrow> m w = Some (r, w') \<Longrightarrow> S w'"
  unfolding triple_def by (auto split: sum.splits)

lemma history_safe:
  assumes "config_history env w w'" "env_ok env wt dates" "safe env wt w"
  shows "safe env wt w'"
  using assms(1,3)
proof (induction rule: config_history.induct)
  case (job w w1 r w2)
  then show ?case using triple_any [OF triple_run [OF assms(2)]] by blast
next
  case (rotate w w1 user compromised answer w2)
  then show ?case
    unfolding rotate_request_def using triple_any [OF triple_rotate_attempts [OF assms(2)]] by blast
next
  case (activate w w1 user kid answer w2)
  then show ?case
    using triple_any [OF triple_activate_attempts [OF assms(2)]] by (auto simp: activate_request_def j_throw_def split: if_splits)
next
  case (reloaded w w1 "done" w2)
  have "triple (safe env wt) (reload_cipher env) (\<lambda>_. safe env wt) (safe env wt)"
    by (rule triple_safe, rule triple_weaken [OF triple_reload [OF assms(2)]]) (auto intro: at_safe)
  with reloaded show ?case using triple_any by blast
qed


section \<open>The example\<close>

definition example_watch :: watch where
  "example_watch =
     \<lparr>wa_src = pluginEnvelopeSource, wa_uid = ''p'', wa_field = ''settings.token'', wa_value = JStr ''s'', wa_material = (\<lambda>kid. replicate 32 7)\<rparr>"

lemma example_key_bytes: "from_base64 (ck_key example_key) = replicate 32 7"
  unfolding example_key_def ConfigKeyEntry.select_convs by (rule base64_roundtrip) (simp add: list_all_iff)

lemma example_env_ok: "env_ok example_rotation_env example_watch (\<lambda>s. Some 0)"
proof -
  have ring: "agrees example_watch example_ring"
    by (simp add: agrees_def example_ring_def example_watch_def example_key_bytes)
  have store: "keyring_store (rs_read (ce_store example_rotation_env)) (rs_write (ce_store example_rotation_env)) (usable_ring (\<lambda>s. Some 0))"
    unfolding example_rotation_env_def config_env.select_convs ConfigKeyringStore.select_convs
    by (rule file_store.keyring_store_axioms)
  show ?thesis
    unfolding env_ok_def
  proof (intro conjI allI impI ballI)
    show "envelope_source src" if "src \<in> set (ce_sources example_rotation_env)" for src
      using that plugin_source.envelope_source_axioms by (simp add: example_rotation_env_def)
    show "agrees example_watch ring'"
      if "readConfigKeyring (kp_dates (ce_place example_rotation_env n)) (kp_disk (ce_place example_rotation_env n))
          (kp_source (ce_place example_rotation_env n)) = Inr (Some ring')" for n ring'
      using that ring example_read by (simp add: example_rotation_env_def)
  qed (use store in \<open>simp_all add: example_rotation_env_def example_watch_def example_gcm_ok example_nonce_ok example_key_bytes\<close>)
qed

lemma example_envelope_opens:
  "encrypt example_gcm example_nonce example_cipher (JStr ''s'') example_secret_place = Inr example_envelope"
  "en_kid example_envelope = ''k1''"
  "open_envelope example_gcm (replicate 32 7) example_envelope example_secret_place = Inr (JStr ''s'')"
proof -
  obtain e where e: "encrypt example_gcm example_nonce example_cipher (JStr ''s'') example_secret_place = Inr e" "en_kid e = ''k1''"
    using example_sealed by blast
  then have eq: "example_envelope = e"
    by (simp add: example_envelope_def)
  show enc: "encrypt example_gcm example_nonce example_cipher (JStr ''s'') example_secret_place = Inr example_envelope"
    and "en_kid example_envelope = ''k1''"
    by (simp_all add: eq e)
  have "cipher_good example_watch example_cipher"
    using cipher_reach_ok [OF example_cipher_keys(1)] by (simp add: cipher_good_def example_cipher_keys(2) example_watch_def)
  moreover have "encrypt (ce_gcm example_rotation_env) (ce_nonce example_rotation_env 0) example_cipher (JStr ''s'') example_secret_place = Inr example_envelope"
    using enc by (simp add: example_rotation_env_def)
  ultimately have "open_envelope (ce_gcm example_rotation_env) (wa_material example_watch (en_kid example_envelope)) example_envelope example_secret_place =
      Inr (JStr ''s'')"
    by (rule encrypted_opens [OF example_env_ok])
  then show "open_envelope example_gcm (replicate 32 7) example_envelope example_secret_place = Inr (JStr ''s'')"
    by (simp add: example_rotation_env_def example_watch_def)
qed

lemma example_row_holds: "row_holds example_rotation_env example_watch {''k1''} example_plugin_row"
proof -
  have envelopes: "es_envelopes pluginEnvelopeSource (e_fields example_plugin_row) = [(''settings.token'', example_envelope)]"
    by (simp add: pluginEnvelopeSource_def example_plugin_row_def member_def envelope_entries_def map_filter_simps pluginSecretField_def)
  have "doc_ok (JObj (e_fields example_plugin_row))"
    by (simp add: example_plugin_row_def envelope_doc)
  moreover have "watch_context example_watch = example_secret_place"
    by (simp add: watch_context_def example_watch_def example_secret_place_def pluginEnvelopeSource_def)
  ultimately show ?thesis
    using example_envelope_opens(2,3) by (simp add: row_holds_def envelopes example_watch_def example_rotation_env_def)
qed

lemma example_world_safe: "rotation_safe example_rotation_env example_watch example_rotation_world"
proof -
  have store: "sh_store (cw_shared example_rotation_world) = kp_disk example_place" and state: "sh_state (cw_shared example_rotation_world) = None"
    and cipher: "cw_cipher example_rotation_world = example_cipher"
    by (simp_all add: example_rotation_world_def)
  have kids: "kids_of example_rotation_env (kp_disk example_place) = {''k1''}"
    by (simp add: kids_of_def example_ring_read ring_kids_def example_ring_def example_key_def)
  have "agrees example_watch example_ring"
    by (simp add: agrees_def example_ring_def example_watch_def example_key_bytes)
  then have "store_good example_rotation_env example_watch (kp_disk example_place)"
    by (simp add: store_good_def example_ring_read)
  moreover have "watched_rows example_watch (cw_shared example_rotation_world) = [example_plugin_row]"
    by (simp add: watched_rows_def example_watch_def pluginEnvelopeSource_def example_rotation_world_def example_plugin_row_def)
  moreover have "cipher_good example_watch example_cipher"
    using cipher_reach_ok [OF example_cipher_keys(1)] by (simp add: cipher_good_def example_cipher_keys(2) example_watch_def)
  ultimately show ?thesis
    using example_row_holds by (simp add: rotation_safe_def shared_safe_def store state cipher kids state_fits_def secret_kept_def)
qed


end
