(* ===== verification/Spec2Isabelle.thy ===== *)
theory Spec2Isabelle
  imports
    Mime_Headers Sender_Lists Mailbox_Quota Mail_Filter Transport_Rules Paging Legal_Hold Inbox_Triage
    Blob_References Free_Busy Conversation Draft_Bodies Retention Scheduled_Send Escrow_Audit
    Plugin_Ui Plugin_Dependencies Enrollment Mbox Dkim_Oversign Dkim_Rotation_Safety Client_Ip
    Apex_Txt Dns_Publishing Config_Reencryption Config_Rotation_Runs
begin

text \<open>
  A verification library for the server side of RapidMX, the REST API of a mail, calendar and contacts
  server (\<^verbatim>\<open>src/src\<close>, TypeScript). The HTTP routes (\<^verbatim>\<open>routes/\<close>) and the background jobs (\<^verbatim>\<open>jobs/\<close>) call the utility modules
  (\<^verbatim>\<open>util/\<close>, \<^verbatim>\<open>plugins/\<close>, \<^verbatim>\<open>pki/\<close>), which hold the rules of the system; state lives in repositories of versioned rows (MongoDB or
  SQL through a framework) and in a blob store. This library models the modules whose rules carry the safety of the
  mail: what may be written into a message, who may be blocked, charged, threaded, retained, purged or
  relayed, and which plugins and certificates a deployment accepts.

  \<^bold>\<open>How code is modelled.\<close> Every theory follows its source file in order: a record or datatype per type, a
  definition per function with every branch and early return, under the source's names where they are free. A thrown
  error is the left side of a sum (\<open>js_error\<close>), \<^verbatim>\<open>undefined\<close> or a missing field is \<^const>\<open>None\<close>, a value of unknown type is a
  \<open>js_value\<close>, a date its time value with \<^const>\<open>None\<close> for an invalid one, a \<^verbatim>\<open>Map\<close> or object the list of its entries in order.
  A string is a list of 8-bit characters (Latin-1 code units). Loops are recursive functions
  with a termination proof; the recursions that follow outside data carry a fuel, with a theorem
  that it is enough (the plugin planner: the number of known package names; the load order: the number of plugins; the search for a
  free DKIM selector: the number of taken ones and one more; JSON parsing: twice the length of the text and one more). The pages of a re-encryption
  pass are a partial function whose result is \<^const>\<open>None\<close> if they never end, and a theorem that they do.
  Retry loops have the number of attempts the code has. Concurrent code is a step relation whose steps are the
  repository calls, with reachable states and invariants by rule induction. Code outside the repository is a
  parameter with its documented contract as a hypothesis: the repository and its version check, the digest functions
  of Node's crypto, semver and the plugin registry, the expansion of recurrence rules, the mail parser.

  \<^bold>\<open>The theories.\<close>
  \<^item> \<open>Prelude\<close>, \<open>Json_Text\<close>: JavaScript strings, arrays, results, values; \<^verbatim>\<open>JSON.stringify\<close> and ISO dates.
  \<^item> \<open>Versioned_Store\<close>: a repository of versioned rows and, as the locale \<open>rmw_loop\<close>, the read-modify-write retry loop; its
    atomicity is proved once and used for quotas and sender lists.
  \<^item> \<open>Rule_Engine\<close>: evaluation of ordered rules with a stop flag, as the locale \<open>rule_engine\<close>; interpreted for inbox rules
    and transport rules.
  \<^item> \<open>Mime_Headers\<close> (\<^verbatim>\<open>util/MimeHeaderUtils.ts\<close>): the header block of a raw message. No header injection through
    prepended headers, prepended headers are read back, originator headers are not changed by others, and what the
    originator check accepts.
  \<^item> \<open>Addresses\<close>, \<open>Sender_Lists\<close> (\<^verbatim>\<open>util/AddressUtils.ts\<close>, \<^verbatim>\<open>util/SenderListUtils.ts\<close>): blocked and safe senders, canonical lists, exclusive
    membership, the verdict on a message, and the atomic change of one entry. The three parsers of entries share
    the locale \<open>canonical_parser\<close>.
  \<^item> \<open>Mailbox_Quota\<close> (\<^verbatim>\<open>util/MailboxQuotaUtils.ts\<close>): charges and refunds under concurrent writers.
  \<^item> \<open>Mail_Filter\<close>, \<open>Transport_Rules\<close> (\<^verbatim>\<open>util/MailFilterUtils.ts\<close>, \<^verbatim>\<open>util/TransportRuleUtils.ts\<close>): what the rules do to a message; the
    stored conditions and actions of a transport rule are values of unknown shape.
  \<^item> \<open>Paging\<close> (\<^verbatim>\<open>util/MailboxContentUtils.ts\<close>): the page generator every mailbox-wide pass uses; complete, in order, ending.
  \<^item> \<open>Legal_Hold\<close> (\<^verbatim>\<open>util/LegalHoldUtils.ts\<close>): the hold snapshot agrees with the query, the deletion guard, failing closed.
  \<^item> \<open>Inbox_Triage\<close> (\<^verbatim>\<open>util/FocusedInboxUtils.ts\<close>, \<^verbatim>\<open>AutoReplyUtils.ts\<close>, \<^verbatim>\<open>OofUtils.ts\<close>): the classifiers of incoming mail.
  \<^item> \<open>Blob_References\<close> (\<^verbatim>\<open>util/BlobReferenceUtils.ts\<close>): content shared by messages is never deleted from under one, deliveries
    interleaved; the order of the sources matters.
  \<^item> \<open>Free_Busy\<close> (\<^verbatim>\<open>util/FreeBusyUtils.ts\<close>): the busy report is exact and never free by omission.
  \<^item> \<open>Conversation\<close> (\<^verbatim>\<open>util/ConversationUtils.ts\<close>, \<^verbatim>\<open>jobs/ScanQueueJob.ts\<close>): a reply chain stays one conversation.
  \<^item> \<open>Draft_Bodies\<close> (\<^verbatim>\<open>util/DraftBodyRetentionUtils.ts\<close>): the replaced bodies of a draft under a hold.
  \<^item> \<open>Retention\<close> (\<^verbatim>\<open>jobs/RetentionEnforcementJob.ts\<close>): the purges, over pages, holds and blob references; every call may fail.
  \<^item> \<open>Scheduled_Send\<close> (\<^verbatim>\<open>jobs/ScheduledSendJob.ts\<close>): claims, leases, the relay and its marker, retries, slots.
  \<^item> \<open>Escrow_Audit\<close> (\<^verbatim>\<open>util/EscrowAuditUtils.ts\<close>): the hash chain, concurrent appenders, the head record, tamper evidence.
  \<^item> \<open>Plugin_Ui\<close>, \<open>Plugin_Dependencies\<close> (\<^verbatim>\<open>plugins/PluginUiUtils.ts\<close>, \<^verbatim>\<open>plugins/PluginDependencies.ts\<close>): what a plugin may serve, and
    plans, load order and pruning of requirements. The readers of manifest lists share the locale \<open>checked_list\<close>.
  \<^item> \<open>Enrollment\<close> (\<^verbatim>\<open>pki/EnrollmentStages.ts\<close>, \<^verbatim>\<open>pki/EnrollmentLimits.ts\<close>): progress reports, failure classes, limits.
  \<^item> \<open>Mbox\<close> (\<^verbatim>\<open>util/MboxUtils.ts\<close>): export and the streaming import; independent of the chunks, and a round trip.
  \<^item> \<open>Auth_Results\<close>, \<open>Dkim_Oversign\<close> (\<^verbatim>\<open>util/AuthenticationResultsUtils.ts\<close>, \<^verbatim>\<open>util/DkimOversignUtils.ts\<close>): what a trusted hop reported,
    and the gate for replay-sensitive headers.
  \<^item> \<open>Dkim_Rotation\<close>, \<open>Dkim_Rotation_Safety\<close> (\<^verbatim>\<open>util/DkimRotationUtils.ts\<close>, \<^verbatim>\<open>jobs/DkimRotationJob.ts\<close>, the rotation routes of
    \<^verbatim>\<open>routes/BaseDomainRoute.ts\<close>): the phases of a key rotation over versioned rows, refining an abstract machine of keys. A handler
    runs from a row it read earlier, so writers interleave at the level of whole handlers and the version check
    decides between them; interleavings inside a handler are not modelled.
  \<^item> \<open>Ip_Text\<close>, \<open>Client_Ip\<close> (\<^verbatim>\<open>util/ClientIpUtils.ts\<close>): which address a request counts under. The client cannot choose it, rate-limit keys are
    networks, and the cache of block lists, as the locale \<open>memo_table\<close>, answers as the computation does.
  \<^item> \<open>Dns_Records\<close> (\<^verbatim>\<open>util/DnsSetupUtils.ts\<close>, \<^verbatim>\<open>util/DomainVerificationUtils.ts\<close>): the records a domain needs, the live checks and the conflicts;
    a record reported as published is live and owned. The DNS is read as it stands at one moment.
  \<^item> \<open>Apex_Txt\<close> (\<^verbatim>\<open>util/ApexTxtUtils.ts\<close>): a managed TXT set has one SPF record.
  \<^item> \<open>Dns_Publishing\<close> (\<^verbatim>\<open>dns/DnsDesiredState.ts\<close>, \<^verbatim>\<open>dns/DnsHostPublication.ts\<close>, \<^verbatim>\<open>dns/DnsAutoTakeover.ts\<close>): what the controller is told to publish, and
    what the server takes over by itself.
  \<^item> \<open>Json_Parse\<close>: \<^verbatim>\<open>JSON.parse\<close> as a parser with fuel (twice the length of the text and one more is enough, lemma \<open>fuel_enough\<close>) and the indented
    \<^verbatim>\<open>JSON.stringify\<close>, with their round trip.
  \<^item> \<open>Config_Keyring\<close> (\<^verbatim>\<open>secrets/ConfigKeyring.ts\<close>, \<^verbatim>\<open>secrets/ConfigKeyringStore.ts\<close>): the keys of the configuration secrets, what is refused, a round
    trip, and the file store as an instance of the locale \<open>keyring_store\<close>.
  \<^item> \<open>Config_Cipher\<close> (\<^verbatim>\<open>secrets/ConfigCipher.ts\<close>): which key seals, reloads that keep what a process has, and sealed secrets that open in
    their place with their key and nowhere else.
  \<^item> \<open>Config_Sources\<close> (\<^verbatim>\<open>secrets/ConfigEnvelopeSource.ts\<close> and its three record types): replacing envelopes of a row replaces those and nothing
    else, the locale \<open>envelope_source\<close>.
  \<^item> \<open>Config_Rotation\<close> (\<^verbatim>\<open>jobs/ConfigKeyRotationJob.ts\<close>, \<^verbatim>\<open>routes/BaseConfigKeyRoute.ts\<close>): the rotation of the configuration key as handlers over
    shared state; before every call other writers may act, and every call may fail. \<open>Config_Rotation_Runs\<close>: runs return, and a key is activated
    exactly when all reporting copies have loaded it. \<open>Config_Rotation_Safety\<close>, \<open>Config_Reencryption\<close>: a Hoare logic for the handlers,
    and no secret is lost. The other writers leave the watched row, the ring and the state row alone there: the rotation holds the lock,
    and a row written to meanwhile is its writer's to keep.

  \<^bold>\<open>How the parts interact.\<close> Retention uses the pages, the hold snapshot, the blob references and the retained draft
  bodies; quotas and sender lists are clients of the versioned store; both rule components are clients of the
  rule engine; the plugin planner uses the mount conflicts of the UI manifests. The key rotation and the DNS code share the domain row: the record
  type of the one extends that of the other, and this theory proves that the records published are those of the keys a rotation names.
  The configuration rotation is a client of the keyring store, the envelope sources, the cipher and the page query.

  \<^bold>\<open>Not modelled.\<close> The HTTP routes and the object mappers (a framework's decorators), the clients of outside services (SMTP,
  S3, Redis, ClamAV, Rspamd, DNS providers, ACME), cryptography and parsers of third-party packages (sanitizers,
  OpenPGP, S/MIME, ICS), search queries, logging and metrics. The text of log lines is left out throughout.
  Of the configuration keys the Redis channel between server copies, the heartbeat timer and the masking of credentials are left out.
  Next in the plan: classification of transport results (\<^verbatim>\<open>transport/TransportResultUtils.ts\<close>) and folder trees (\<^verbatim>\<open>util/FolderUtils.ts\<close>).
\<close>

section \<open>Keys and records\<close>

text \<open>A domain whose keys have all been generated: none of the keys its row names is empty.\<close>

definition keys_generated :: "Domain \<Rightarrow> bool" where
  "keys_generated domain \<longleftrightarrow>
     dm_dkimSelector domain \<noteq> [] \<and> dm_dkimPublicKey domain \<noteq> [] \<and>
     (case dm_dkimRotation domain of
        None \<Rightarrow> True
      | Some st \<Rightarrow>
          (case rs_next st of None \<Rightarrow> True | Some k \<Rightarrow> nk_selector k \<noteq> [] \<and> nk_publicKey k \<noteq> []) \<and>
          (case rs_previous st of None \<Rightarrow> True | Some k \<Rightarrow> pk_selector k \<noteq> [] \<and> pk_publicKey k \<noteq> []))"

text \<open>The rotation side of a domain row.\<close>

definition rotating_row :: "Domain \<Rightarrow> RotatingDomain" where
  "rotating_row domain = RotatingDomain.truncate domain"

lemma rotating_row_sel [simp]:
  "dm_dkimSelector (rotating_row domain) = dm_dkimSelector domain" "dm_dkimRotation (rotating_row domain) = dm_dkimRotation domain"
  by (simp_all add: rotating_row_def RotatingDomain.truncate_def)


definition rotating_example :: Domain where
  "rotating_example = example_domain
     \<lparr>dm_dkimRotation := Some \<lparr>rs_phase = PSwitching, rs_next = None,
        rs_previous = Some \<lparr>pk_selector = ''s0'', pk_publicKey = ''OLD'', pk_retireAt = None\<rparr>, rs_reason = None, rs_switchedAt = Some 0,
        rs_lastRotatedAt = None, rs_lastCancelledAt = None, rs_paused = None, rs_mintedSelectors = None, rs_lastError = None\<rparr>\<rparr>"


end
